(* ===== verification/Prelude.thy ===== *)
theory Prelude
  imports Main "HOL-Library.AList" "HOL-Library.Code_Target_Nat"
begin

text \<open>
  Shared vocabulary of the development. A Python \<open>str\<close> is a \<^typ>\<open>string\<close> that holds its
  UTF-8 encoding: the delimiters, quotes, digits and letters the code looks for are ASCII, so
  cutting and comparing encoded text agrees with cutting and comparing code points. White space,
  letter case and digit classes are the ASCII ones; other characters only flow through.
  A Python \<open>bytes\<close> value is a \<^typ>\<open>string\<close> too, one character per byte. A fallible
  operation returns a value of a sum type, \<open>Inl\<close> for what was raised. Python dictionaries
  are association lists in insertion order. The section headings follow the operations of
  Python's \<open>str\<close>, \<open>dict\<close> and \<open>bytes.decode\<close> the code uses.
\<close>

named_theorems text_simps \<open>rewrite rules for text operations on concrete and symbolic input\<close>
named_theorems frame_simps \<open>what an operation leaves unchanged\<close>

section \<open>Identifiers and results\<close>

text \<open>A UUID is an opaque 128-bit number, a timestamp a count of ticks.\<close>

type_synonym uuid = nat
type_synonym instant = nat
type_synonym bytes = string

definition rbind :: "'e + 'a \<Rightarrow> ('a \<Rightarrow> 'e + 'b) \<Rightarrow> 'e + 'b" where
  "rbind r f = (case r of Inl e \<Rightarrow> Inl e | Inr x \<Rightarrow> f x)"

lemma rbind_simps [simp]:
  "rbind (Inl e) f = Inl e"
  "rbind (Inr x) f = f x"
  by (simp_all add: rbind_def)

lemma rbind_Inr: "rbind r Inr = r"
  by (cases r) simp_all

lemma rbind_eq_Inr_iff: "rbind r f = Inr y \<longleftrightarrow> (\<exists>x. r = Inr x \<and> f x = Inr y)"
  by (cases r) auto

lemma rbind_eq_Inl_iff: "rbind r f = Inl e \<longleftrightarrow> r = Inl e \<or> (\<exists>x. r = Inr x \<and> f x = Inl e)"
  by (cases r) auto

text \<open>A loop body that may raise, run over a list: the first error stops it.\<close>

fun rmap :: "('a \<Rightarrow> 'e + 'b) \<Rightarrow> 'a list \<Rightarrow> 'e + 'b list" where
  "rmap f [] = Inr []"
| "rmap f (x # xs) = rbind (f x) (\<lambda>y. rbind (rmap f xs) (\<lambda>ys. Inr (y # ys)))"

fun rfold :: "('s \<Rightarrow> 'a \<Rightarrow> 'e + 's) \<Rightarrow> 's \<Rightarrow> 'a list \<Rightarrow> 'e + 's" where
  "rfold f s [] = Inr s"
| "rfold f s (x # xs) = rbind (f s x) (\<lambda>s'. rfold f s' xs)"

lemma rmap_Inr_length: "rmap f xs = Inr ys \<Longrightarrow> length ys = length xs"
  by (induction xs arbitrary: ys) (auto simp: rbind_eq_Inr_iff)

lemma rmap_Inr_list_all2: "rmap f xs = Inr ys \<Longrightarrow> list_all2 (\<lambda>x y. f x = Inr y) xs ys"
  by (induction xs arbitrary: ys) (auto simp: rbind_eq_Inr_iff)

lemma rfold_append: "rfold f s (xs @ ys) = rbind (rfold f s xs) (\<lambda>s'. rfold f s' ys)"
proof (induction xs arbitrary: s)
  case (Cons x xs)
  then show ?case by (cases "f s x") simp_all
qed simp

lemma rfold_invariant:
  assumes "rfold f s xs = Inr t" and "P s"
    and "\<And>s x s'. P s \<Longrightarrow> x \<in> set xs \<Longrightarrow> f s x = Inr s' \<Longrightarrow> P s'"
  shows "P t"
  using assms
proof (induction xs arbitrary: s)
  case (Cons x xs)
  from Cons.prems(1) obtain s' where s': "f s x = Inr s'" "rfold f s' xs = Inr t"
    by (auto simp: rbind_eq_Inr_iff)
  have "P s'" using Cons.prems(3)[OF Cons.prems(2) _ s'(1)] by simp
  with s'(2) show ?case
    by (rule Cons.IH) (rule Cons.prems(3), simp_all)
qed simp

lemma find_snoc:
  "List.find P (xs @ [x]) = (case List.find P xs of Some y \<Rightarrow> Some y | None \<Rightarrow> if P x then Some x else None)"
  by (induction xs) auto

lemma find_mem: "List.find P xs = Some x \<Longrightarrow> x \<in> set xs \<and> P x"
  by (induction xs) (auto split: if_splits)

lemma find_distinct: "distinct (map f xs) \<Longrightarrow> v \<in> set xs \<Longrightarrow> List.find (\<lambda>u. f u = f v) xs = Some v"
  by (induction xs) auto

section \<open>Characters\<close>

definition ord :: "char \<Rightarrow> nat" where
  "ord c = of_char c"

definition is_space :: "char \<Rightarrow> bool" where
  "is_space c \<longleftrightarrow> (9 \<le> ord c \<and> ord c \<le> 13) \<or> (28 \<le> ord c \<and> ord c \<le> 32)"

definition is_digit :: "char \<Rightarrow> bool" where
  "is_digit c \<longleftrightarrow> 48 \<le> ord c \<and> ord c \<le> 57"

definition is_lower :: "char \<Rightarrow> bool" where
  "is_lower c \<longleftrightarrow> 97 \<le> ord c \<and> ord c \<le> 122"

definition is_upper :: "char \<Rightarrow> bool" where
  "is_upper c \<longleftrightarrow> 65 \<le> ord c \<and> ord c \<le> 90"

definition digit_val :: "char \<Rightarrow> nat" where
  "digit_val c = ord c - 48"

definition to_lower_char :: "char \<Rightarrow> char" where
  "to_lower_char c = (if is_upper c then char_of (ord c + 32) else c)"

definition to_upper_char :: "char \<Rightarrow> char" where
  "to_upper_char c = (if is_lower c then char_of (ord c - 32) else c)"

definition lower :: "string \<Rightarrow> string" where
  "lower = map to_lower_char"

definition upper :: "string \<Rightarrow> string" where
  "upper = map to_upper_char"

lemmas char_class_defs = ord_def is_space_def is_digit_def is_lower_def is_upper_def

lemma ord_inj: "ord a = ord b \<Longrightarrow> a = b"
  by (simp add: ord_def)

lemma ord_char_of: "n < 256 \<Longrightarrow> ord (char_of n) = n"
  by (simp add: ord_def)

lemma ord_to_upper: "ord (to_upper_char c) = (if is_lower c then ord c - 32 else ord c)"
  unfolding to_upper_char_def using ord_char_of[of "ord c - 32"] by (auto simp: is_lower_def)

lemma ord_to_lower: "ord (to_lower_char c) = (if is_upper c then ord c + 32 else ord c)"
  unfolding to_lower_char_def using ord_char_of[of "ord c + 32"] by (auto simp: is_upper_def)

lemma is_space_to_upper [simp]: "is_space (to_upper_char c) = is_space c"
  by (auto simp: is_space_def ord_to_upper is_lower_def)

lemma is_space_to_lower [simp]: "is_space (to_lower_char c) = is_space c"
  by (auto simp: is_space_def ord_to_lower is_upper_def)

section \<open>strip, split, join, partition\<close>

definition lstrip :: "string \<Rightarrow> string" where
  "lstrip s = dropWhile is_space s"

definition rstrip :: "string \<Rightarrow> string" where
  "rstrip s = rev (dropWhile is_space (rev s))"

definition strip :: "string \<Rightarrow> string" where
  "strip s = rstrip (lstrip s)"

definition trimmed :: "string \<Rightarrow> bool" where
  "trimmed s \<longleftrightarrow> s = [] \<or> (\<not> is_space (hd s) \<and> \<not> is_space (last s))"

lemma lstrip_hd: "lstrip s \<noteq> [] \<Longrightarrow> \<not> is_space (hd (lstrip s))"
  unfolding lstrip_def by (rule hd_dropWhile)

lemma rstrip_last: "rstrip s \<noteq> [] \<Longrightarrow> \<not> is_space (last (rstrip s))"
  unfolding rstrip_def using hd_dropWhile[of is_space "rev s"]
  by (simp add: last_rev del: dropWhile_eq_Nil_conv)

lemma rstrip_hd: "rstrip s \<noteq> [] \<Longrightarrow> hd (rstrip s) = hd s"
proof -
  assume ne: "rstrip s \<noteq> []"
  have "s = rstrip s @ rev (takeWhile is_space (rev s))"
    unfolding rstrip_def by (metis rev_append rev_rev_ident takeWhile_dropWhile_id)
  with ne show ?thesis by (metis hd_append)
qed

lemma trimmed_strip: "trimmed (strip s)"
proof (cases "strip s = []")
  case False
  then have "rstrip (lstrip s) \<noteq> []" by (simp add: strip_def)
  moreover from this have "lstrip s \<noteq> []" by (auto simp: rstrip_def)
  ultimately show ?thesis
    using rstrip_last rstrip_hd lstrip_hd by (simp add: trimmed_def strip_def)
qed (simp add: trimmed_def)

lemma strip_trimmed: "trimmed s \<Longrightarrow> strip s = s"
proof (cases "s = []")
  case False
  assume "trimmed s"
  with False have "\<not> is_space (hd s)" "\<not> is_space (last s)" by (auto simp: trimmed_def)
  then have "dropWhile is_space s = s" "dropWhile is_space (rev s) = rev s"
    using False by (auto simp: dropWhile_eq_self_iff hd_rev)
  then show ?thesis by (simp add: strip_def lstrip_def rstrip_def)
qed (simp add: strip_def lstrip_def rstrip_def)

lemma strip_strip [simp]: "strip (strip s) = strip s"
  by (simp add: strip_trimmed trimmed_strip)

lemma strip_Nil [simp]: "strip [] = []"
  by (simp add: strip_def lstrip_def rstrip_def)

text \<open>\<open>s.split(c)\<close> for a one-character separator, and \<open>sep.join(parts)\<close>.\<close>

fun split_on :: "char \<Rightarrow> string \<Rightarrow> string list" where
  "split_on c [] = [[]]"
| "split_on c (x # xs) =
     (if x = c then [] # split_on c xs
      else (case split_on c xs of [] \<Rightarrow> [[x]] | p # ps \<Rightarrow> (x # p) # ps))"

fun join :: "string \<Rightarrow> string list \<Rightarrow> string" where
  "join sep [] = []"
| "join sep [x] = x"
| "join sep (x # y # ys) = x @ sep @ join sep (y # ys)"

lemma split_on_ne: "split_on c s \<noteq> []"
  by (induction s) (auto split: list.splits)

lemma split_on_append_sep:
  "c \<notin> set x \<Longrightarrow> split_on c (x @ c # r) = x # split_on c r"
  by (induction x) auto

lemma split_on_no_sep: "c \<notin> set x \<Longrightarrow> split_on c x = [x]"
  by (induction x) auto

lemma split_on_join:
  "\<forall>x\<in>set xs. c \<notin> set x \<Longrightarrow> xs \<noteq> [] \<Longrightarrow> split_on c (join [c] xs) = xs"
  by (induction "[c]" xs rule: join.induct) (auto simp: split_on_no_sep split_on_append_sep)

lemma join_inj:
  assumes "join [c] xs = join [c] ys" "length xs = length ys"
    and "\<forall>x\<in>set xs. c \<notin> set x" "\<forall>y\<in>set ys. c \<notin> set y"
  shows "xs = ys"
proof (cases "xs = []")
  case False
  moreover from this assms(2) have "ys \<noteq> []" by auto
  ultimately show ?thesis using assms split_on_join by metis
qed (use assms in auto)

lemma split_on_pieces: "p \<in> set (split_on c s) \<Longrightarrow> c \<notin> set p"
  by (induction s arbitrary: p) (auto split: if_splits list.splits)

lemma join_split_on: "join [c] (split_on c s) = s"
proof (induction s)
  case (Cons x xs)
  obtain p ps where p: "split_on c xs = p # ps"
    using split_on_ne[of c xs] by (cases "split_on c xs") auto
  with Cons show ?case by (cases ps) auto
qed simp

text \<open>\<open>s.partition(c)\<close>: text before the first separator, whether it was found, text after.\<close>

fun partition_on :: "char \<Rightarrow> string \<Rightarrow> string \<times> bool \<times> string" where
  "partition_on c [] = ([], False, [])"
| "partition_on c (x # xs) =
     (if x = c then ([], True, xs)
      else (case partition_on c xs of (a, b, r) \<Rightarrow> (x # a, b, r)))"

lemma partition_on_append: "c \<notin> set x \<Longrightarrow> partition_on c (x @ c # r) = (x, True, r)"
  by (induction x) auto

lemma partition_on_absent: "c \<notin> set x \<Longrightarrow> partition_on c x = (x, False, [])"
  by (induction x) auto

definition starts_with :: "string \<Rightarrow> string \<Rightarrow> bool" where
  "starts_with p s \<longleftrightarrow> take (length p) s = p"

definition ends_with :: "string \<Rightarrow> string \<Rightarrow> bool" where
  "ends_with p s \<longleftrightarrow> starts_with (rev p) (rev s)"

text \<open>
  The end of a pattern that closes with \<open>$\<close> under \<open>re.match\<close>: the end of the text, or
  the place just before one final newline. \<open>p\<close> is the language of the pattern before it.
\<close>

definition re_dollar :: "(string \<Rightarrow> bool) \<Rightarrow> string \<Rightarrow> bool" where
  "re_dollar p s \<longleftrightarrow> p s \<or> (s \<noteq> [] \<and> last s = CHR 0x0A \<and> p (butlast s))"

lemma newline_is_space [simp]: "is_space (CHR 0x0A)"
  by (simp add: is_space_def ord_def)

lemma re_dollar_trimmed: "trimmed s \<Longrightarrow> re_dollar p s = p s"
  by (auto simp: re_dollar_def trimmed_def)

section \<open>Dictionaries in insertion order\<close>

fun dict_put :: "'k \<Rightarrow> 'v \<Rightarrow> ('k \<times> 'v) list \<Rightarrow> ('k \<times> 'v) list" where
  "dict_put k v [] = [(k, v)]"
| "dict_put k v ((k', v') # d) = (if k' = k then (k, v) # d else (k', v') # dict_put k v d)"

definition dict_of :: "('k \<times> 'v) list \<Rightarrow> ('k \<times> 'v) list" where
  "dict_of kvs = fold (\<lambda>(k, v) d. dict_put k v d) kvs []"

lemma map_of_dict_put [simp]: "map_of (dict_put k v d) = (map_of d)(k \<mapsto> v)"
  by (induction d) auto

lemma keys_dict_put: "set (map fst (dict_put k v d)) = insert k (set (map fst d))"
proof (induction d)
  case (Cons kv d)
  then show ?case by (cases kv) auto
qed simp

lemma distinct_dict_put: "distinct (map fst d) \<Longrightarrow> distinct (map fst (dict_put k v d))"
proof (induction d)
  case (Cons kv d)
  then show ?case using keys_dict_put[of k v d] by (cases kv) auto
qed simp

lemma map_of_fold_dict_put:
  "map_of (fold (\<lambda>(k, v) d. dict_put k v d) kvs d) = map_of d ++ map_of (rev kvs)"
  by (induction kvs arbitrary: d) (auto simp: map_add_def fun_eq_iff split: option.splits)

lemma map_of_dict_of: "map_of (dict_of kvs) = map_of (rev kvs)"
  by (simp add: dict_of_def map_of_fold_dict_put)

lemma distinct_dict_of: "distinct (map fst (dict_of kvs))"
proof -
  have "distinct (map fst d) \<Longrightarrow>
      distinct (map fst (fold (\<lambda>(k, v) d. dict_put k v d) kvs d))" for d :: "('a \<times> 'b) list"
    by (induction kvs arbitrary: d) (auto simp: distinct_dict_put)
  then show ?thesis by (simp add: dict_of_def)
qed

section \<open>Numbers as text\<close>

definition digit_char :: "nat \<Rightarrow> char" where
  "digit_char n = char_of (48 + n mod 10)"

function nat_str :: "nat \<Rightarrow> string" where
  "nat_str n = (if n < 10 then [digit_char n] else nat_str (n div 10) @ [digit_char n])"
  by pat_completeness auto
termination
  by (relation "measure id") auto

declare nat_str.simps [simp del]

definition int_str :: "int \<Rightarrow> string" where
  "int_str i = (if i < 0 then CHR ''-'' # nat_str (nat (- i)) else nat_str (nat i))"

definition digits_val :: "string \<Rightarrow> nat" where
  "digits_val s = foldl (\<lambda>a c. 10 * a + digit_val c) 0 s"

lemma ord_digit_char: "ord (digit_char n) = 48 + n mod 10"
  by (simp add: digit_char_def ord_char_of)

lemma is_digit_digit_char [simp]: "is_digit (digit_char n)"
  by (simp add: is_digit_def ord_digit_char)

lemma digit_val_digit_char [simp]: "digit_val (digit_char n) = n mod 10"
  by (simp add: digit_val_def ord_digit_char)

lemma nat_str_ne: "nat_str n \<noteq> []"
  by (subst nat_str.simps) simp

lemma nat_str_digits: "list_all is_digit (nat_str n)"
proof (induction n rule: nat_str.induct)
  case (1 n)
  then show ?case by (subst nat_str.simps) simp
qed

lemma digits_val_nat_str [simp]: "digits_val (nat_str n) = n"
proof (induction n rule: nat_str.induct)
  case (1 n)
  then show ?case by (subst nat_str.simps) (auto simp: digits_val_def)
qed

lemma nat_str_inj: "nat_str a = nat_str b \<Longrightarrow> a = b"
  by (metis digits_val_nat_str)

definition pad2 :: "nat \<Rightarrow> string" where
  "pad2 n = (if n < 10 then CHR ''0'' # nat_str n else nat_str n)"

section \<open>Decoding\<close>

definition utf8_cont :: "char \<Rightarrow> bool" where
  "utf8_cont c \<longleftrightarrow> 128 \<le> ord c \<and> ord c \<le> 191"

text \<open>The strict UTF-8 decoder: no overlong forms, no surrogates, nothing above U+10FFFF.\<close>

fun utf8_ok :: "bytes \<Rightarrow> bool" where
  "utf8_ok [] = True"
| "utf8_ok (a # r) =
     (if ord a < 128 then utf8_ok r
      else (case r of [] \<Rightarrow> False | b # r1 \<Rightarrow>
        if 194 \<le> ord a \<and> ord a \<le> 223 then utf8_cont b \<and> utf8_ok r1
        else (case r1 of [] \<Rightarrow> False | c # r2 \<Rightarrow>
          if 224 \<le> ord a \<and> ord a \<le> 239 then
            utf8_cont b \<and> utf8_cont c \<and> (ord a = 224 \<longrightarrow> 160 \<le> ord b)
              \<and> (ord a = 237 \<longrightarrow> ord b \<le> 159) \<and> utf8_ok r2
          else (case r2 of [] \<Rightarrow> False | d # r3 \<Rightarrow>
            240 \<le> ord a \<and> ord a \<le> 244 \<and> utf8_cont b \<and> utf8_cont c \<and> utf8_cont d
              \<and> (ord a = 240 \<longrightarrow> 144 \<le> ord b) \<and> (ord a = 244 \<longrightarrow> ord b \<le> 143) \<and> utf8_ok r3))))"

definition bom :: bytes where
  "bom = [CHR 0xEF, CHR 0xBB, CHR 0xBF]"

text \<open>\<open>data.decode("utf-8-sig")\<close>; \<open>None\<close> is the \<open>UnicodeDecodeError\<close>.\<close>

definition decode_utf8_sig :: "bytes \<Rightarrow> string option" where
  "decode_utf8_sig data =
     (let text = (if starts_with bom data then drop 3 data else data)
      in if utf8_ok text then Some text else None)"

lemma utf8_ok_ascii: "list_all (\<lambda>c. ord c < 128) s \<Longrightarrow> utf8_ok s"
  by (induction s) auto

lemma decode_ascii:
  assumes "list_all (\<lambda>c. ord c < 128) s"
  shows "decode_utf8_sig s = Some s"
proof -
  have "\<not> starts_with bom s"
    using assms by (cases s) (auto simp: starts_with_def bom_def ord_def)
  with assms show ?thesis by (simp add: decode_utf8_sig_def utf8_ok_ascii Let_def)
qed

section \<open>Characters that survive strip, split, join and partition\<close>

lemma no_space_trimmed: "list_all (\<lambda>c. \<not> is_space c) s \<Longrightarrow> trimmed s"
  by (cases s rule: rev_cases) (auto simp: trimmed_def list_all_iff hd_append split: list.splits)

lemma set_dropWhile: "set (dropWhile P xs) \<subseteq> set xs"
  by (induction xs) auto

lemma set_strip: "set (strip s) \<subseteq> set s"
proof -
  have "set (rstrip t) \<subseteq> set t" for t
    using set_dropWhile[of is_space "rev t"] by (simp add: rstrip_def)
  moreover have "set (lstrip s) \<subseteq> set s"
    using set_dropWhile[of is_space s] by (simp add: lstrip_def)
  ultimately show ?thesis unfolding strip_def by blast
qed

lemma set_split_on: "p \<in> set (split_on c s) \<Longrightarrow> set p \<subseteq> set s"
proof (induction s arbitrary: p)
  case (Cons x s)
  obtain q qs where q: "split_on c s = q # qs" using split_on_ne by (cases "split_on c s") auto
  with Cons.IH have "set q \<subseteq> set s" "\<And>r. r \<in> set qs \<Longrightarrow> set r \<subseteq> set s" by auto
  with Cons.prems q show ?case by (fastforce split: if_splits)
qed simp

lemma set_partition_on: "partition_on c s = (a, b, r) \<Longrightarrow> set a \<subseteq> set s \<and> set r \<subseteq> set s"
  by (induction s arbitrary: a b r) (auto split: if_splits prod.splits)

lemma set_join: "set (join sep xs) \<subseteq> set sep \<union> \<Union> (set ` set xs)"
  by (induction sep xs rule: join.induct) auto

section \<open>repr\<close>

definition hex_digit :: "nat \<Rightarrow> char" where
  "hex_digit n = (if n < 10 then char_of (48 + n) else char_of (87 + n))"

definition repr_char :: "char \<Rightarrow> char \<Rightarrow> string" where
  "repr_char q c =
     (if c = q \<or> c = CHR 0x5C then [CHR 0x5C, c]
      else if c = CHR 0x0A then [CHR 0x5C, CHR ''n'']
      else if c = CHR 0x0D then [CHR 0x5C, CHR ''r'']
      else if c = CHR 0x09 then [CHR 0x5C, CHR ''t'']
      else if ord c < 32 \<or> ord c = 127 then [CHR 0x5C, CHR ''x'', hex_digit (ord c div 16), hex_digit (ord c mod 16)]
      else [c])"

text \<open>\<open>repr(s)\<close>, where every character outside ASCII counts as printable.\<close>

definition py_repr :: "string \<Rightarrow> string" where
  "py_repr s =
     (let q = (if CHR 0x27 \<in> set s \<and> CHR 0x22 \<notin> set s then CHR 0x22 else CHR 0x27)
      in [q] @ concat (map (repr_char q) s) @ [q])"

section \<open>Grouping\<close>

text \<open>\<open>grouped.setdefault(k, []).append(x)\<close>.\<close>

fun group_add :: "'k \<Rightarrow> 'x \<Rightarrow> ('k \<times> 'x list) list \<Rightarrow> ('k \<times> 'x list) list" where
  "group_add k x [] = [(k, [x])]"
| "group_add k x ((k', xs) # g) = (if k' = k then (k', xs @ [x]) # g else (k', xs) # group_add k x g)"

definition group_all :: "('k \<times> 'x) list \<Rightarrow> ('k \<times> 'x list) list" where
  "group_all kxs = fold (\<lambda>(k, x). group_add k x) kxs []"

text \<open>The members of a group, in order.\<close>

definition members :: "('k \<times> 'x) list \<Rightarrow> 'k \<Rightarrow> 'x list" where
  "members kxs k = map snd (filter (\<lambda>kx. fst kx = k) kxs)"

lemma keys_group_add: "set (map fst (group_add k x g)) = insert k (set (map fst g))"
proof (induction g)
  case (Cons p g)
  then show ?case by (cases p) (simp add: insert_commute)
qed simp

lemma distinct_group_add: "distinct (map fst g) \<Longrightarrow> distinct (map fst (group_add k x g))"
proof (induction g)
  case (Cons kxs g)
  then show ?case using keys_group_add[of k x g] by (cases kxs) auto
qed simp

lemma map_of_group_add:
  "map_of (group_add k x g) = (map_of g)(k \<mapsto> (case map_of g k of None \<Rightarrow> [x] | Some xs \<Rightarrow> xs @ [x]))"
  by (induction g) auto

lemma group_all_snoc: "group_all (kxs @ [(k, x)]) = group_add k x (group_all kxs)"
  by (simp add: group_all_def)

lemma group_all_distinct [simp]: "distinct (map fst (group_all kxs))"
proof (induction kxs rule: rev_induct)
  case (snoc kx kxs)
  then show ?case by (cases kx) (simp only: group_all_snoc distinct_group_add)
qed (simp add: group_all_def)

lemma group_all_keys [simp]: "fst ` set (group_all kxs) = fst ` set kxs"
proof (induction kxs rule: rev_induct)
  case (snoc kx kxs)
  obtain k x where kx: "kx = (k, x)" by (cases kx)
  show ?case
    using snoc keys_group_add[of k x "group_all kxs"] unfolding kx group_all_snoc by simp
qed (simp add: group_all_def)

lemma members_snoc: "members (kxs @ [(k, x)]) j = members kxs j @ (if k = j then [x] else [])"
  by (simp add: members_def)

lemma members_absent: "k \<notin> fst ` set kxs \<Longrightarrow> members kxs k = []"
  by (force simp: members_def filter_empty_conv)

lemma map_of_group_all:
  "map_of (group_all kxs) j = (if members kxs j = [] then None else Some (members kxs j))"
proof (induction kxs rule: rev_induct)
  case (snoc kx kxs)
  obtain k x where kx: "kx = (k, x)" by (cases kx)
  have "map_of (group_all kxs) k = (if members kxs k = [] then None else Some (members kxs k))" if "j = k"
    using snoc that by simp
  with snoc show ?case
    unfolding kx group_all_snoc map_of_group_add members_snoc by (cases "j = k") simp_all
qed (simp add: group_all_def members_def)

lemma group_all_mem: "(k, xs) \<in> set (group_all kxs) \<longleftrightarrow> xs = members kxs k \<and> xs \<noteq> []"
proof -
  have "(k, xs) \<in> set (group_all kxs) \<longleftrightarrow> map_of (group_all kxs) k = Some xs"
    by (simp only: map_of_eq_Some_iff[OF group_all_distinct])
  then show ?thesis by (auto simp only: map_of_group_all split: if_splits)
qed

lemma members_ne: "k \<in> fst ` set kxs \<Longrightarrow> members kxs k \<noteq> []"
  by (force simp: members_def filter_empty_conv)

lemma sum_list_members:
  "distinct ks \<Longrightarrow> fst ` set kxs \<subseteq> set ks \<Longrightarrow> sum_list (map (\<lambda>k. length (members kxs k)) ks) = length kxs"
proof (induction kxs)
  case (Cons kx kxs)
  have m: "length (members (kx # kxs) k) = length (members kxs k) + (if k = fst kx then 1 else 0)" for k
    by (simp add: members_def)
  have "sum_list (map (\<lambda>k. if k = fst kx then 1 else 0) ks) = (1::nat)"
    using Cons.prems by (subst sum_list_distinct_conv_sum_set) auto
  with Cons show ?case by (simp add: m sum_list_addf)
qed (simp add: members_def)

lemma group_total: "sum_list (map (\<lambda>g. length (snd g)) (group_all kxs)) = length kxs"
proof -
  have "length (snd g) = length (members kxs (fst g))" if "g \<in> set (group_all kxs)" for g
    using that group_all_mem[of "fst g" "snd g" kxs] by simp
  then have "map (\<lambda>g. length (snd g)) (group_all kxs) = map (\<lambda>g. length (members kxs (fst g))) (group_all kxs)"
    by (intro map_cong) simp_all
  also have "\<dots> = map (\<lambda>k. length (members kxs k)) (map fst (group_all kxs))" by (simp add: comp_def)
  finally have e: "map (\<lambda>g. length (snd g)) (group_all kxs) = map (\<lambda>k. length (members kxs k)) (map fst (group_all kxs))" .
  show ?thesis
    unfolding e by (rule sum_list_members[OF group_all_distinct]) simp
qed

lemma list_all2_right: "list_all2 P xs ys \<Longrightarrow> y \<in> set ys \<Longrightarrow> \<exists>x\<in>set xs. P x y"
  by (induction rule: list_all2_induct) auto

lemma map_of_map_snd_with_key: "map_of (map (\<lambda>(k, v). (k, f k v)) xs) c = map_option (f c) (map_of xs c)"
  by (induction xs) auto

end
