(* ===== verification/Errors.thy ===== *)
theory Errors
  imports Prelude
begin

text \<open>
  What the package raises: the classes of \<open>src/src/core/errors.py\<close>, the \<open>ValueError\<close> and
  \<open>LookupError\<close> subclasses its modules declare, and the standard-library and driver exceptions
  its code catches or lets through. A constructor carries the message, or the arguments the
  message is built from. The class hierarchy is the two predicates at the end: which \<open>except\<close>
  clause an exception matches decides what a caller sees.
\<close>

datatype violation_kind = Conflict | Invalid

datatype exc =
    TenantBoundaryViolation string
  | TenantNotProvisioned string
  | ProvisioningError string
  | MigrationError string
  | SchemaDriftError string
  | ValidationRejected string
  | AuthenticationError string
  | IntakeRejected string
  | UnknownArtefact uuid
  | SilverConstraintViolation violation_kind string
  | InvalidSlugError string
  | ContractError string
  | NoDispatchMechanismError string
  | MissingDispatchFieldError "string list"
  | UnknownExtractorError string
  | LabelValueError string
  | SpecError string
  | UnreadablePdfError string
  | BatchNotFoundError uuid
  | ScannerUnavailableError string
  | ValueError string
  | KeyError string
  | TypeError string
  | AttributeError string
  | AssertionError
  | PermissionError string
  | CsvError string
  | DecimalInvalidOperation
  | UniqueViolation string
  | ForeignKeyViolation string
  | OtherIntegrityError string
  | DataError string
  | SqlError string
  | ClientError string

text \<open>
  The SQLSTATE of a driver exception; \<open>SqlError\<close> is any driver exception without a
  constructor of its own, with the SQLSTATE it carries.
\<close>

definition sqlstate :: "exc \<Rightarrow> string option" where
  "sqlstate e = (case e of
      UniqueViolation _ \<Rightarrow> Some ''23505'' | ForeignKeyViolation _ \<Rightarrow> Some ''23503''
    | OtherIntegrityError _ \<Rightarrow> Some ''23514'' | DataError _ \<Rightarrow> Some ''22000''
    | SqlError c \<Rightarrow> Some c | _ \<Rightarrow> None)"

definition is_tenant_data_error :: "exc \<Rightarrow> bool" where
  "is_tenant_data_error e = (case e of
      TenantBoundaryViolation _ \<Rightarrow> True | TenantNotProvisioned _ \<Rightarrow> True
    | ProvisioningError _ \<Rightarrow> True | MigrationError _ \<Rightarrow> True | SchemaDriftError _ \<Rightarrow> True
    | ValidationRejected _ \<Rightarrow> True | AuthenticationError _ \<Rightarrow> True | IntakeRejected _ \<Rightarrow> True
    | UnknownArtefact _ \<Rightarrow> True | SilverConstraintViolation _ _ \<Rightarrow> True | _ \<Rightarrow> False)"

text \<open>The exceptions an \<open>except ValueError\<close> clause catches.\<close>

definition is_value_error :: "exc \<Rightarrow> bool" where
  "is_value_error e = (case e of
      InvalidSlugError _ \<Rightarrow> True | ContractError _ \<Rightarrow> True | NoDispatchMechanismError _ \<Rightarrow> True
    | MissingDispatchFieldError _ \<Rightarrow> True | UnknownExtractorError _ \<Rightarrow> True
    | LabelValueError _ \<Rightarrow> True | SpecError _ \<Rightarrow> True | UnreadablePdfError _ \<Rightarrow> True
    | ValueError _ \<Rightarrow> True | _ \<Rightarrow> False)"

text \<open>\<open>psycopg.errors.IntegrityError\<close>, of which \<open>UniqueViolation\<close> and
  \<open>ForeignKeyViolation\<close> are subclasses.\<close>

definition is_integrity_error :: "exc \<Rightarrow> bool" where
  "is_integrity_error e = (case e of
      UniqueViolation _ \<Rightarrow> True | ForeignKeyViolation _ \<Rightarrow> True | OtherIntegrityError _ \<Rightarrow> True
    | _ \<Rightarrow> False)"

lemma tenant_data_error_disjoint:
  "is_tenant_data_error e \<Longrightarrow> \<not> is_value_error e \<and> \<not> is_integrity_error e"
  by (cases e) (simp_all add: is_tenant_data_error_def is_value_error_def is_integrity_error_def)

end
