(* ===== verification/Numbers.thy ===== *)
theory Numbers
  imports Errors
begin

text \<open>
  Python's \<open>int(text)\<close> and \<open>decimal.Decimal(text)\<close> as the loaders use them: what parses,
  what value it has, when a comparison raises, and addition in the default context (28 digits,
  half-even). \<open>Decimal\<close> keeps the exponent it was written with, so a value is a sign, a
  coefficient and an exponent; infinities and NaNs parse too. Exponents past the C
  implementation's limits (about \<open>10^18\<close>) and overflow to infinity are not modelled.
\<close>

section \<open>int\<close>

text \<open>Digits, with single underscores between them.\<close>

fun int_digits :: "string \<Rightarrow> string option" where
  "int_digits [] = None"
| "int_digits [c] = (if is_digit c then Some [c] else None)"
| "int_digits (c # d # r) =
     (if \<not> is_digit c then None
      else if d = CHR ''_'' then map_option ((#) c) (int_digits r)
      else map_option ((#) c) (int_digits (d # r)))"

definition split_sign :: "string \<Rightarrow> bool \<times> string" where
  "split_sign s = (case s of
      [] \<Rightarrow> (False, [])
    | c # r \<Rightarrow> if c = CHR ''-'' then (True, r) else if c = CHR ''+'' then (False, r) else (False, s))"

text \<open>\<open>None\<close> is the \<open>ValueError\<close>, raised too for more than 4300 digits.\<close>

definition py_int :: "string \<Rightarrow> int option" where
  "py_int raw =
     (case split_sign (strip raw) of (neg, body) \<Rightarrow>
        case int_digits body of
          None \<Rightarrow> None
        | Some ds \<Rightarrow>
            if 4300 < length ds then None
            else Some (if neg then - int (digits_val ds) else int (digits_val ds)))"

lemma int_digits_digits: "list_all is_digit s \<Longrightarrow> s \<noteq> [] \<Longrightarrow> int_digits s = Some s"
proof (induction s rule: int_digits.induct)
  case (3 c d r)
  then have "d \<noteq> CHR ''_''" by (auto simp: is_digit_def ord_def)
  with 3 show ?case by simp
qed simp_all

lemma digit_not_special:
  "is_digit c \<Longrightarrow> c \<noteq> CHR ''-'' \<and> c \<noteq> CHR ''+'' \<and> c \<noteq> CHR ''_'' \<and> c \<noteq> CHR ''.'' \<and> \<not> is_space c"
  by (auto simp: is_digit_def is_space_def ord_def)

lemma trimmed_digits: "list_all is_digit s \<Longrightarrow> trimmed s"
  by (cases s) (auto simp: trimmed_def list_all_iff digit_not_special)

lemma split_sign_digits: "list_all is_digit s \<Longrightarrow> split_sign s = (False, s)"
  by (cases s) (auto simp: split_sign_def digit_not_special)

lemma py_int_nat_str:
  "length (nat_str n) \<le> 4300 \<Longrightarrow> py_int (nat_str n) = Some (int n)"
  by (simp add: py_int_def strip_trimmed trimmed_digits nat_str_digits split_sign_digits
      int_digits_digits nat_str_ne)

section \<open>Decimal\<close>

datatype decimal =
    Fin (dec_neg: bool) (dec_coeff: nat) (expo: int)
  | Inf bool
  | NaN (dec_signaling: bool)

fun take_digits :: "string \<Rightarrow> string \<times> string" where
  "take_digits [] = ([], [])"
| "take_digits (c # r) =
     (if is_digit c then (case take_digits r of (d, t) \<Rightarrow> (c # d, t)) else ([], c # r))"

lemma take_digits_append:
  "list_all is_digit d \<Longrightarrow> (t = [] \<or> \<not> is_digit (hd t)) \<Longrightarrow> take_digits (d @ t) = (d, t)"
proof (induction d)
  case Nil
  then show ?case by (cases t) auto
qed auto

text \<open>The exponent part: nothing, or \<open>E\<close> with an optional sign and at least one digit.\<close>

definition parse_exp :: "string \<Rightarrow> int option" where
  "parse_exp s = (case s of
      [] \<Rightarrow> Some 0
    | c # r \<Rightarrow>
        if to_upper_char c \<noteq> CHR ''E'' then None
        else (case split_sign r of (neg, ds) \<Rightarrow>
          if ds \<noteq> [] \<and> list_all is_digit ds
          then Some (if neg then - int (digits_val ds) else int (digits_val ds)) else None))"

text \<open>A number body: digits with an optional point, at least one digit, an optional exponent.\<close>

definition parse_number :: "bool \<Rightarrow> string \<Rightarrow> decimal option" where
  "parse_number sg s =
     (case take_digits s of (ip, r) \<Rightarrow>
      case (case r of c # r' \<Rightarrow> if c = CHR ''.'' then take_digits r' else ([], r) | [] \<Rightarrow> ([], r))
      of (fp, r2) \<Rightarrow>
        if ip = [] \<and> fp = [] then None
        else map_option (\<lambda>e. Fin sg (digits_val (ip @ fp)) (e - int (length fp))) (parse_exp r2))"

definition parse_special :: "bool \<Rightarrow> string \<Rightarrow> decimal option" where
  "parse_special sg s =
     (let u = upper s in
      if u = ''INF'' \<or> u = ''INFINITY'' then Some (Inf sg)
      else if starts_with ''NAN'' u \<and> list_all is_digit (drop 3 u) then Some (NaN False)
      else if starts_with ''SNAN'' u \<and> list_all is_digit (drop 4 u) then Some (NaN True)
      else None)"

text \<open>\<open>decimal.Decimal(raw)\<close>; \<open>None\<close> is \<open>decimal.InvalidOperation\<close>.\<close>

definition py_decimal :: "string \<Rightarrow> decimal option" where
  "py_decimal raw =
     (case split_sign (filter (\<lambda>c. c \<noteq> CHR ''_'') (strip raw)) of (sg, body) \<Rightarrow>
        case parse_number sg body of
          Some d \<Rightarrow> Some d
        | None \<Rightarrow> parse_special sg body)"

definition dec_zero :: decimal where
  "dec_zero = Fin False 0 0"

text \<open>Order comparison: any NaN raises \<open>InvalidOperation\<close>.\<close>

definition scaled :: "bool \<Rightarrow> nat \<Rightarrow> int \<Rightarrow> int \<Rightarrow> int" where
  "scaled sg c e m = (if sg then -1 else 1) * int c * 10 ^ nat (e - m)"

fun dec_le :: "decimal \<Rightarrow> decimal \<Rightarrow> exc + bool" where
  "dec_le (NaN _) _ = Inl DecimalInvalidOperation"
| "dec_le _ (NaN _) = Inl DecimalInvalidOperation"
| "dec_le (Inf a) (Inf b) = Inr (a \<or> \<not> b)"
| "dec_le (Inf a) (Fin _ _ _) = Inr a"
| "dec_le (Fin _ _ _) (Inf b) = Inr (\<not> b)"
| "dec_le (Fin s c e) (Fin s' c' e') =
     Inr (scaled s c e (min e e') \<le> scaled s' c' e' (min e e'))"

definition dec_gt :: "decimal \<Rightarrow> decimal \<Rightarrow> exc + bool" where
  "dec_gt a b = map_sum id Not (dec_le a b)"

definition dec_of_nat :: "nat \<Rightarrow> decimal" where
  "dec_of_nat n = Fin False n 0"

text \<open>The finite value, as an integer count of \<open>10^m\<close>.\<close>

fun dec_units :: "int \<Rightarrow> decimal \<Rightarrow> int" where
  "dec_units m (Fin s c e) = scaled s c e m"
| "dec_units m _ = 0"

fun is_finite :: "decimal \<Rightarrow> bool" where
  "is_finite (Fin _ _ _) = True"
| "is_finite _ = False"

lemma dec_le_finite:
  "is_finite a \<Longrightarrow> is_finite b \<Longrightarrow> \<exists>r. dec_le a b = Inr r"
  by (cases a; cases b) auto

lemma dec_le_refl: "is_finite a \<Longrightarrow> dec_le a a = Inr True"
  by (cases a) auto

section \<open>Addition in the default context\<close>

definition num_digits :: "nat \<Rightarrow> nat" where
  "num_digits n = length (nat_str n)"

definition round_half_even :: "nat \<Rightarrow> nat \<Rightarrow> nat" where
  "round_half_even n k =
     (let q = n div 10 ^ k; r = n mod 10 ^ k; h = 10 ^ k
      in if 2 * r < h \<or> (2 * r = h \<and> even q) then q else q + 1)"

text \<open>Rounding to 28 digits; a carry into a 29th digit drops one more.\<close>

definition dec_fix :: "bool \<Rightarrow> nat \<Rightarrow> int \<Rightarrow> decimal" where
  "dec_fix sg c e =
     (let k = num_digits c - 28 in
      if k = 0 then Fin sg c e
      else let c' = round_half_even c k in
        if 28 < num_digits c' then Fin sg (c' div 10) (e + int k + 1) else Fin sg c' (e + int k))"

fun dec_add :: "decimal \<Rightarrow> decimal \<Rightarrow> exc + decimal" where
  "dec_add (NaN True) _ = Inl DecimalInvalidOperation"
| "dec_add _ (NaN True) = Inl DecimalInvalidOperation"
| "dec_add (NaN False) _ = Inr (NaN False)"
| "dec_add _ (NaN False) = Inr (NaN False)"
| "dec_add (Inf a) (Inf b) = (if a = b then Inr (Inf a) else Inl DecimalInvalidOperation)"
| "dec_add (Inf a) _ = Inr (Inf a)"
| "dec_add _ (Inf b) = Inr (Inf b)"
| "dec_add (Fin s c e) (Fin s' c' e') =
     (let m = min e e'; v = scaled s c e m + scaled s' c' e' m
      in Inr (dec_fix (v < 0 \<or> (v = 0 \<and> s \<and> s')) (nat \<bar>v\<bar>) m))"

text \<open>\<open>sum(values, Decimal(0))\<close>.\<close>

definition dec_sum :: "decimal list \<Rightarrow> exc + decimal" where
  "dec_sum ds = rfold dec_add dec_zero ds"

lemma dec_fix_exact: "num_digits c \<le> 28 \<Longrightarrow> dec_fix sg c e = Fin sg c e"
  by (simp add: dec_fix_def)

lemma finite_Fin: "is_finite a \<Longrightarrow> a = Fin (dec_neg a) (dec_coeff a) (expo a)"
  by (cases a) simp_all

lemma dec_units_fix:
  "dec_units m (Fin (v < 0 \<or> v = 0 \<and> b) (nat \<bar>v\<bar>) m) = v"
  by (simp add: scaled_def)

lemma dec_add_exact:
  assumes "is_finite a" "is_finite b"
  defines "m \<equiv> min (expo a) (expo b)"
  assumes "num_digits (nat \<bar>dec_units m a + dec_units m b\<bar>) \<le> 28"
  shows "\<exists>r. dec_add a b = Inr r \<and> is_finite r \<and> expo r = m \<and>
    dec_units m r = dec_units m a + dec_units m b"
proof -
  let ?v = "dec_units m a + dec_units m b"
  let ?r = "Fin (?v < 0 \<or> ?v = 0 \<and> (dec_neg a \<and> dec_neg b)) (nat \<bar>?v\<bar>) m"
  have a: "a = Fin (dec_neg a) (dec_coeff a) (expo a)"
    and b: "b = Fin (dec_neg b) (dec_coeff b) (expo b)"
    using assms(1,2) by (simp_all add: finite_Fin)
  have u: "dec_units m a = scaled (dec_neg a) (dec_coeff a) (expo a) m"
    by (subst a) simp
  have w: "dec_units m b = scaled (dec_neg b) (dec_coeff b) (expo b) m"
    by (subst b) simp
  have "dec_add a b = Inr (dec_fix (?v < 0 \<or> ?v = 0 \<and> (dec_neg a \<and> dec_neg b)) (nat \<bar>?v\<bar>) m)"
    by (subst a, subst b) (simp only: dec_add.simps Let_def m_def u[unfolded m_def] w[unfolded m_def])
  then have "dec_add a b = Inr ?r"
    by (simp only: dec_fix_exact[OF assms(4)])
  moreover have "dec_units m ?r = ?v" by (rule dec_units_fix)
  ultimately show ?thesis
    by (intro exI[of _ ?r] conjI) (simp_all only: is_finite.simps decimal.sel)
qed

section \<open>Columns of type numeric(p, s)\<close>

text \<open>
  What Postgres makes of a \<open>Decimal\<close> it is given for a \<open>numeric(p, s)\<close> column: it is rounded to \<open>s\<close>
  decimals, half away from zero, and refused when that needs more than \<open>p\<close> digits. An infinity is
  refused, a NaN of either kind is stored as NaN, and there is no negative zero.
\<close>

type_synonym numeric_type = "nat \<times> nat"

definition column_units :: "nat \<Rightarrow> nat \<Rightarrow> int \<Rightarrow> nat" where
  "column_units s c e =
     (if - int s \<le> e then c * 10 ^ nat (e + int s)
      else let k = nat (- int s - e); q = c div 10 ^ k; r = c mod 10 ^ k in if 10 ^ k \<le> 2 * r then q + 1 else q)"

fun column_fits :: "numeric_type \<Rightarrow> decimal \<Rightarrow> bool" where
  "column_fits (p, s) (Fin sg c e) = (column_units s c e < 10 ^ p)"
| "column_fits (p, s) (Inf sg) = False"
| "column_fits (p, s) (NaN sig) = True"

fun column_value :: "numeric_type \<Rightarrow> decimal \<Rightarrow> decimal" where
  "column_value (p, s) (Fin sg c e) = (let m = column_units s c e in Fin (sg \<and> m \<noteq> 0) m (- int s))"
| "column_value (p, s) (Inf sg) = Inf sg"
| "column_value (p, s) (NaN sig) = NaN False"

abbreviation column_fits_opt :: "numeric_type \<Rightarrow> decimal option \<Rightarrow> bool" where
  "column_fits_opt t d \<equiv> (case d of None \<Rightarrow> True | Some x \<Rightarrow> column_fits t x)"

definition column_overflow :: exc where
  "column_overflow = DataError ''numeric field overflow''"

text \<open>The domains of the shared migrations 010 and 012.\<close>

definition money_inr :: numeric_type where
  "money_inr = (18, 2)"

definition qty_column :: numeric_type where
  "qty_column = (18, 3)"

definition tax_rate :: numeric_type where
  "tax_rate = (6, 3)"

definition price_column :: numeric_type where
  "price_column = (18, 4)"

text \<open>A value with no more decimals than the column is stored as it is, up to the way it is written; storing is idempotent.\<close>

lemma column_value_exact:
  assumes "is_finite d" "- int s \<le> expo d"
  shows "dec_units (- int s) (column_value (p, s) d) = dec_units (- int s) d"
proof -
  obtain sg c e where d: "d = Fin sg c e" using assms(1) by (cases d) auto
  then show ?thesis using assms(2) by (simp add: Let_def scaled_def column_units_def)
qed

lemma column_value_idem: "column_value t (column_value t d) = column_value t d"
proof -
  obtain p s where t: "t = (p, s)" by (cases t)
  show ?thesis by (cases d) (simp_all add: t Let_def column_units_def)
qed

lemma column_fits_value [simp]: "column_fits t (column_value t d) = column_fits t d"
proof -
  obtain p s where t: "t = (p, s)" by (cases t)
  show ?thesis by (cases d) (simp_all add: t Let_def column_units_def)
qed

text \<open>Rounding moves a value by at most half a unit of the last decimal.\<close>

lemma column_units_close:
  assumes "e < - int s"
  shows "2 * \<bar>int (column_units s c e) * 10 ^ nat (- int s - e) - int c\<bar> \<le> 10 ^ nat (- int s - e)"
proof -
  let ?k = "nat (- int s - e)" let ?q = "c div 10 ^ ?k" let ?r = "c mod 10 ^ ?k"
  have c: "c = ?q * 10 ^ ?k + ?r" by (rule div_mult_mod_eq[symmetric])
  have r: "?r < 10 ^ ?k" by simp
  have u: "column_units s c e = (if 10 ^ ?k \<le> 2 * ?r then ?q + 1 else ?q)"
    using assms by (simp add: column_units_def Let_def)
  have ci: "int c = int ?q * 10 ^ ?k + int ?r" using arg_cong[OF c, of int] by (simp only: of_nat_add of_nat_mult of_nat_power of_nat_numeral)
  have ri: "int ?r < 10 ^ ?k" using r by (metis of_nat_less_iff of_nat_numeral of_nat_power)
  show ?thesis
  proof (cases "10 ^ ?k \<le> 2 * ?r")
    case True
    then have "10 ^ ?k \<le> 2 * int ?r" by (metis of_nat_le_iff of_nat_mult of_nat_numeral of_nat_power)
    then show ?thesis using True ri unfolding u ci by (simp add: algebra_simps)
  next
    case False
    then have "2 * int ?r < 10 ^ ?k" by (metis not_le of_nat_le_iff of_nat_mult of_nat_numeral of_nat_power)
    then show ?thesis using False unfolding u ci by (simp add: algebra_simps)
  qed
qed

section \<open>str(Decimal)\<close>

definition zeros :: "nat \<Rightarrow> string" where
  "zeros n = replicate n (CHR ''0'')"

definition dec_str :: "decimal \<Rightarrow> string" where
  "dec_str d = (case d of
      Inf sg \<Rightarrow> (if sg then ''-Infinity'' else ''Infinity'')
    | NaN sig \<Rightarrow> (if sig then ''sNaN'' else ''NaN'')
    | Fin sg c e \<Rightarrow>
        (let ds = nat_str c; n = int (length ds); left = e + n;
             dot = (if e \<le> 0 \<and> left > -6 then left else 1);
             ip = (if dot \<le> 0 then ''0'' else if dot \<ge> n then ds @ zeros (nat (dot - n))
                   else take (nat dot) ds);
             fp = (if dot \<le> 0 then CHR ''.'' # zeros (nat (- dot)) @ ds
                   else if dot \<ge> n then '''' else CHR ''.'' # drop (nat dot) ds);
             ex = (if left = dot then ''''
                   else CHR ''E'' # (if left - dot \<ge> 0 then [CHR ''+''] else []) @ int_str (left - dot))
         in (if sg then ''-'' else '''') @ ip @ fp @ ex))"

end
