(* ===== verification/Dates.thy ===== *)
theory Dates
  imports Numbers
begin

text \<open>
  Calendar dates as \<open>datetime.date\<close> has them (years 1 to 9999), ordered as tuples, with the
  three ways the code reads one: \<open>date.fromisoformat\<close>, following the C parser of Python
  3.11 and later with its basic and week forms, and \<open>strptime\<close> under the three numeric
  formats of \<open>validate.py\<close>.
\<close>

datatype date = Date (dyear: nat) (dmonth: nat) (dday: nat)

instantiation date :: linorder
begin

definition less_eq_date :: "date \<Rightarrow> date \<Rightarrow> bool" where
  "a \<le> b \<longleftrightarrow> dyear a < dyear b \<or> (dyear a = dyear b \<and>
     (dmonth a < dmonth b \<or> (dmonth a = dmonth b \<and> dday a \<le> dday b)))"

definition less_date :: "date \<Rightarrow> date \<Rightarrow> bool" where
  "(a :: date) < b \<longleftrightarrow> \<not> b \<le> a"

instance
proof
  fix x y z :: date
  show "x < y \<longleftrightarrow> x \<le> y \<and> \<not> y \<le> x"
    by (auto simp: less_eq_date_def less_date_def)
  show "x \<le> x" by (simp add: less_eq_date_def)
  show "x \<le> y \<Longrightarrow> y \<le> z \<Longrightarrow> x \<le> z" by (auto simp: less_eq_date_def)
  show "x \<le> y \<Longrightarrow> y \<le> x \<Longrightarrow> x = y"
    by (cases x; cases y) (auto simp: less_eq_date_def)
  show "x \<le> y \<or> y \<le> x" by (auto simp: less_eq_date_def)
qed

end

lemmas date_order_defs = less_eq_date_def less_date_def

definition is_leap :: "nat \<Rightarrow> bool" where
  "is_leap y \<longleftrightarrow> 4 dvd y \<and> (\<not> 100 dvd y \<or> 400 dvd y)"

definition days_in_month :: "nat \<Rightarrow> nat \<Rightarrow> nat" where
  "days_in_month y m =
     (if m = 2 then (if is_leap y then 29 else 28)
      else if m \<in> {4, 6, 9, 11} then 30 else 31)"

definition valid_date :: "date \<Rightarrow> bool" where
  "valid_date d \<longleftrightarrow> 1 \<le> dyear d \<and> dyear d \<le> 9999 \<and> 1 \<le> dmonth d \<and> dmonth d \<le> 12
     \<and> 1 \<le> dday d \<and> dday d \<le> days_in_month (dyear d) (dmonth d)"

text \<open>The constructor \<open>date(y, m, d)\<close>: \<open>None\<close> is its \<open>ValueError\<close>.\<close>

definition mk_date :: "nat \<Rightarrow> nat \<Rightarrow> nat \<Rightarrow> date option" where
  "mk_date y m d = (if valid_date (Date y m d) then Some (Date y m d) else None)"

lemma mk_date_valid: "mk_date y m d = Some x \<Longrightarrow> valid_date x"
  by (auto simp: mk_date_def split: if_splits)

definition max_date :: date where
  "max_date = Date 9999 12 31"

text \<open>\<open>d - timedelta(days=1)\<close>, for any date but 0001-01-01.\<close>

definition prev_day :: "date \<Rightarrow> date" where
  "prev_day d =
     (if 1 < dday d then Date (dyear d) (dmonth d) (dday d - 1)
      else if 1 < dmonth d
        then Date (dyear d) (dmonth d - 1) (days_in_month (dyear d) (dmonth d - 1))
      else Date (dyear d - 1) 12 31)"

definition pad4 :: "nat \<Rightarrow> string" where
  "pad4 n = zeros (4 - length (nat_str n)) @ nat_str n"

definition isoformat :: "date \<Rightarrow> string" where
  "isoformat d = pad4 (dyear d) @ ''-'' @ pad2 (dmonth d) @ ''-'' @ pad2 (dday d)"

section \<open>Ordinals and ISO weeks\<close>

definition days_before_year :: "nat \<Rightarrow> nat" where
  "days_before_year y = (let n = y - 1 in n * 365 + n div 4 + n div 400 - n div 100)"

fun days_before_month :: "nat \<Rightarrow> nat \<Rightarrow> nat" where
  "days_before_month y 0 = 0"
| "days_before_month y (Suc m) = (if m = 0 then 0 else days_before_month y m + days_in_month y m)"

definition to_ordinal :: "date \<Rightarrow> nat" where
  "to_ordinal d = days_before_year (dyear d) + days_before_month (dyear d) (dmonth d) + dday d"

fun month_of :: "nat \<Rightarrow> nat \<Rightarrow> nat \<Rightarrow> nat \<Rightarrow> nat \<times> nat" where
  "month_of y 0 m n = (m, n)"
| "month_of y (Suc k) m n =
     (if n < days_in_month y m then (m, n) else month_of y k (m + 1) (n - days_in_month y m))"

text \<open>The year and the day of the year of an ordinal, by cycles of 400, 100, 4 and 1 years.\<close>

definition from_ordinal :: "nat \<Rightarrow> date" where
  "from_ordinal k0 =
     (let n = k0 - 1; n400 = n div 146097; r400 = n mod 146097;
          n100 = r400 div 36524; r100 = r400 mod 36524;
          n4 = r100 div 1461; r4 = r100 mod 1461;
          n1 = r4 div 365; r1 = r4 mod 365;
          y = n400 * 400 + n100 * 100 + n4 * 4 + n1 + 1
      in if n1 = 4 \<or> n100 = 4 then Date (y - 1) 12 31
         else (case month_of y 11 1 r1 of (m, k) \<Rightarrow> Date y m (k + 1)))"

text \<open>Monday is 0.\<close>

definition weekday_of_ordinal :: "nat \<Rightarrow> nat" where
  "weekday_of_ordinal n = (n + 6) mod 7"

definition iso_week1_monday :: "nat \<Rightarrow> nat" where
  "iso_week1_monday y =
     (let first = to_ordinal (Date y 1 1); wd = weekday_of_ordinal first
      in if 3 < wd then first - wd + 7 else first - wd)"

definition iso_to_date :: "nat \<Rightarrow> nat \<Rightarrow> nat \<Rightarrow> date option" where
  "iso_to_date y w d =
     (let wd = weekday_of_ordinal (to_ordinal (Date y 1 1));
          long = (wd = 3 \<or> (wd = 2 \<and> is_leap y))
      in if y = 0 \<or> w = 0 \<or> 53 < w \<or> (w = 53 \<and> \<not> long) \<or> d = 0 \<or> 7 < d then None
         else (let x = from_ordinal (iso_week1_monday y + (w - 1) * 7 + d - 1)
               in if valid_date x then Some x else None))"

section \<open>date.fromisoformat\<close>

text \<open>Exactly \<open>n\<close> digits from the front of the text.\<close>

definition read_digits :: "nat \<Rightarrow> string \<Rightarrow> (nat \<times> string) option" where
  "read_digits n s =
     (if n \<le> length s \<and> list_all is_digit (take n s)
      then Some (digits_val (take n s), drop n s) else None)"

definition skip_dash :: "bool \<Rightarrow> string \<Rightarrow> string option" where
  "skip_dash sep s =
     (if \<not> sep then Some s
      else case s of c # r \<Rightarrow> (if c = CHR ''-'' then Some r else None) | [] \<Rightarrow> None)"

definition parse_iso_week :: "nat \<Rightarrow> bool \<Rightarrow> string \<Rightarrow> date option" where
  "parse_iso_week y sep s =
     (case read_digits 2 s of None \<Rightarrow> None
      | Some (w, r) \<Rightarrow>
          if r = [] then iso_to_date y w 1
          else (case Option.bind (skip_dash sep r) (read_digits 1) of
              None \<Rightarrow> None | Some (d, _) \<Rightarrow> iso_to_date y w d))"

definition parse_iso_month :: "nat \<Rightarrow> bool \<Rightarrow> string \<Rightarrow> date option" where
  "parse_iso_month y sep s =
     (case read_digits 2 s of None \<Rightarrow> None
      | Some (m, r) \<Rightarrow>
          (case Option.bind (skip_dash sep r) (read_digits 2) of
            None \<Rightarrow> None | Some (d, t) \<Rightarrow> if t = [] then mk_date y m d else None))"

definition from_isoformat :: "string \<Rightarrow> date option" where
  "from_isoformat s =
     (if length s \<notin> {7, 8, 10} then None
      else case read_digits 4 s of None \<Rightarrow> None
      | Some (y, r) \<Rightarrow>
          (let sep = (r \<noteq> [] \<and> hd r = CHR ''-''); r1 = (if sep then tl r else r)
           in if r1 \<noteq> [] \<and> hd r1 = CHR ''W'' then parse_iso_week y sep (tl r1)
              else parse_iso_month y sep r1))"

section \<open>strptime under the numeric formats\<close>

text \<open>
  A directive is a regular expression group: \<open>%Y\<close> is four digits, \<open>%m\<close> is
  \<open>1[0-2]|0[1-9]|[1-9]\<close> and \<open>%d\<close> is \<open>3[0-1]|[1-2]\d|0[1-9]|[1-9]| [1-9]\<close>, first alternative
  first; the match must use up the text. A directive is followed by a separator or by the end
  of the text, so a later alternative never rescues a match the first one loses: it would
  leave a digit where the separator is due.
\<close>

datatype directive = DY | Dm | Dd

definition read_m :: "string \<Rightarrow> (nat \<times> string) option" where
  "read_m s = (case s of
      a # b # r \<Rightarrow>
        if a = CHR ''1'' \<and> b \<in> {CHR ''0'', CHR ''1'', CHR ''2''} then Some (10 + digit_val b, r)
        else if a = CHR ''0'' \<and> is_digit b \<and> b \<noteq> CHR ''0'' then Some (digit_val b, r)
        else if is_digit a \<and> a \<noteq> CHR ''0'' then Some (digit_val a, b # r) else None
    | [a] \<Rightarrow> if is_digit a \<and> a \<noteq> CHR ''0'' then Some (digit_val a, []) else None
    | [] \<Rightarrow> None)"

definition read_d :: "string \<Rightarrow> (nat \<times> string) option" where
  "read_d s = (case s of
      a # b # r \<Rightarrow>
        if a = CHR ''3'' \<and> b \<in> {CHR ''0'', CHR ''1''} then Some (30 + digit_val b, r)
        else if a \<in> {CHR ''1'', CHR ''2''} \<and> is_digit b then Some (10 * digit_val a + digit_val b, r)
        else if a = CHR ''0'' \<and> is_digit b \<and> b \<noteq> CHR ''0'' then Some (digit_val b, r)
        else if is_digit a \<and> a \<noteq> CHR ''0'' then Some (digit_val a, b # r)
        else if a = CHR '' '' \<and> is_digit b \<and> b \<noteq> CHR ''0'' then Some (digit_val b, r) else None
    | [a] \<Rightarrow> if is_digit a \<and> a \<noteq> CHR ''0'' then Some (digit_val a, []) else None
    | [] \<Rightarrow> None)"

fun read_directive :: "directive \<Rightarrow> string \<Rightarrow> (nat \<times> string) option" where
  "read_directive DY s = read_digits 4 s"
| "read_directive Dm s = read_m s"
| "read_directive Dd s = read_d s"

definition expect :: "char \<Rightarrow> string \<Rightarrow> string option" where
  "expect c s = (case s of x # r \<Rightarrow> (if x = c then Some r else None) | [] \<Rightarrow> None)"

text \<open>Three directives with a separator between them.\<close>

definition read_three ::
  "directive \<Rightarrow> directive \<Rightarrow> directive \<Rightarrow> char \<Rightarrow> string \<Rightarrow> (nat \<times> nat \<times> nat) option" where
  "read_three p q r c s =
     (case read_directive p s of None \<Rightarrow> None | Some (a, s1) \<Rightarrow>
      case Option.bind (expect c s1) (read_directive q) of None \<Rightarrow> None | Some (b, s2) \<Rightarrow>
      case Option.bind (expect c s2) (read_directive r) of None \<Rightarrow> None | Some (d, s3) \<Rightarrow>
        if s3 = [] then Some (a, b, d) else None)"

definition strptime_ymd :: "string \<Rightarrow> date option" where
  "strptime_ymd s =
     (case read_three DY Dm Dd (CHR ''-'') s of None \<Rightarrow> None | Some (y, m, d) \<Rightarrow> mk_date y m d)"

definition strptime_dmy :: "char \<Rightarrow> string \<Rightarrow> date option" where
  "strptime_dmy c s =
     (case read_three Dd Dm DY c s of None \<Rightarrow> None | Some (d, m, y) \<Rightarrow> mk_date y m d)"

lemma strptime_ymd_valid: "strptime_ymd s = Some d \<Longrightarrow> valid_date d"
  by (auto simp: strptime_ymd_def dest: mk_date_valid split: option.splits)

lemma strptime_dmy_valid: "strptime_dmy c s = Some d \<Longrightarrow> valid_date d"
  by (auto simp: strptime_dmy_def dest: mk_date_valid split: option.splits)

lemma iso_to_date_valid: "iso_to_date y w d = Some x \<Longrightarrow> valid_date x"
  by (auto simp: iso_to_date_def Let_def split: if_splits)

lemma parse_iso_week_valid: "parse_iso_week y sep s = Some x \<Longrightarrow> valid_date x"
  by (auto simp: parse_iso_week_def dest: iso_to_date_valid split: if_splits option.splits)

lemma parse_iso_month_valid: "parse_iso_month y sep s = Some x \<Longrightarrow> valid_date x"
  unfolding parse_iso_month_def
  by (auto split: if_splits option.splits) (blast dest: mk_date_valid)+

lemma from_isoformat_valid: "from_isoformat s = Some d \<Longrightarrow> valid_date d"
  unfolding from_isoformat_def Let_def
  by (auto dest: parse_iso_week_valid parse_iso_month_valid split: option.splits if_split_asm)

end
