(* ===== verification/Identifiers.thy ===== *)
theory Identifiers
  imports Errors
begin

text \<open>
  \<open>src/src/core/identifiers.py\<close>: the slug gate and every name derived from a slug, and the
  platform bucket of \<open>src/src/provisioning/objectstore.py\<close>, whose name shares the bucket
  name space. The lemmas show which slugs pass the gate, and that no two tenants share a name.
\<close>

section \<open>The slug gate\<close>

definition max_slug_len :: nat where
  "max_slug_len = 32"

definition slug_char :: "char \<Rightarrow> bool" where
  "slug_char c \<longleftrightarrow> is_lower c \<or> is_digit c \<or> c = CHR ''_''"

text \<open>The pattern \<open>^[a-z][a-z0-9_]{2,31}\<close>, before its closing \<open>$\<close>.\<close>

definition slug_body :: "string \<Rightarrow> bool" where
  "slug_body s = (case s of [] \<Rightarrow> False
     | c # r \<Rightarrow> is_lower c \<and> list_all slug_char r \<and> 2 \<le> length r \<and> length r \<le> max_slug_len - 1)"

definition slug_re :: "string \<Rightarrow> bool" where
  "slug_re = re_dollar slug_body"

definition validate_slug :: "string \<Rightarrow> exc + string" where
  "validate_slug slug = (if \<not> slug_re slug then Inl (InvalidSlugError slug) else Inr slug)"

section \<open>Schema and role names\<close>

definition bronze_schema :: "string \<Rightarrow> exc + string" where
  "bronze_schema slug = rbind (validate_slug slug) (\<lambda>s. Inr (''t_'' @ s @ ''_bronze''))"

definition silver_schema :: "string \<Rightarrow> exc + string" where
  "silver_schema slug = rbind (validate_slug slug) (\<lambda>s. Inr (''t_'' @ s @ ''_silver''))"

definition gold_schema :: "string \<Rightarrow> exc + string" where
  "gold_schema slug = rbind (validate_slug slug) (\<lambda>s. Inr (''t_'' @ s @ ''_gold''))"

definition all_schemas :: "string \<Rightarrow> exc + string list" where
  "all_schemas slug = rmap (\<lambda>f. f slug) [bronze_schema, silver_schema, gold_schema]"

definition ingest_role :: "string \<Rightarrow> exc + string" where
  "ingest_role slug = rbind (validate_slug slug) (\<lambda>s. Inr (''t_'' @ s @ ''_ingest''))"

definition recon_role :: "string \<Rightarrow> exc + string" where
  "recon_role slug = rbind (validate_slug slug) (\<lambda>s. Inr (''t_'' @ s @ ''_recon''))"

definition support_role :: "string \<Rightarrow> exc + string" where
  "support_role slug = rbind (validate_slug slug) (\<lambda>s. Inr (''t_'' @ s @ ''_support''))"

definition all_roles :: "string \<Rightarrow> exc + string list" where
  "all_roles slug = rmap (\<lambda>f. f slug) [ingest_role, recon_role, support_role]"

definition reconciliation_schema :: "string \<Rightarrow> exc + string" where
  "reconciliation_schema slug = rbind (validate_slug slug) (\<lambda>s. Inr (''t_'' @ s @ ''_reconciliation''))"

definition recon_engine_role :: "string \<Rightarrow> exc + string" where
  "recon_engine_role slug = rbind (validate_slug slug) (\<lambda>s. Inr (''t_'' @ s @ ''_recon_engine''))"

section \<open>Buckets, SQL identifiers and message keys\<close>

definition hyphens :: "string \<Rightarrow> string" where
  "hyphens s = map (\<lambda>c. if c = CHR ''_'' then CHR ''-'' else c) s"

definition bucket_name :: "string \<Rightarrow> string \<Rightarrow> exc + string" where
  "bucket_name slug prefix = rbind (validate_slug slug) (\<lambda>s. Inr (prefix @ ''-'' @ hyphens s))"

definition platform_bucket :: "string \<Rightarrow> string" where
  "platform_bucket prefix = prefix @ ''-platform''"

datatype sql_identifier = Identifier "string list"

definition schema_ident :: "string \<Rightarrow> sql_identifier" where
  "schema_ident schema = Identifier [schema]"

definition qualified_ident :: "string \<Rightarrow> string \<Rightarrow> sql_identifier" where
  "qualified_ident schema table = Identifier [schema, table]"

definition kafka_key :: "string \<Rightarrow> exc + bytes" where
  "kafka_key slug = validate_slug slug"

section \<open>What the gate admits\<close>

lemma validate_slug_Inr: "validate_slug s = Inr t \<longleftrightarrow> t = s \<and> slug_re s"
  by (auto simp: validate_slug_def)

lemma validate_slug_cases: "validate_slug s = Inr s \<or> validate_slug s = Inl (InvalidSlugError s)"
  by (auto simp: validate_slug_def)

lemma slug_body_chars: "slug_body s \<Longrightarrow> list_all slug_char s"
  by (cases s) (auto simp: slug_body_def slug_char_def)

lemma slug_body_length: "slug_body s \<Longrightarrow> 3 \<le> length s \<and> length s \<le> max_slug_len"
  by (cases s) (auto simp: slug_body_def max_slug_len_def)

lemma slug_char_trim: "slug_char c \<Longrightarrow> \<not> is_space c \<and> c \<noteq> CHR ''-'' \<and> c \<noteq> CHR 0x22 \<and> c \<noteq> CHR ''.''"
  by (auto simp: slug_char_def char_class_defs)

lemma slug_re_iff: "slug_re s \<longleftrightarrow> slug_body s \<or> (\<exists>b. slug_body b \<and> s = b @ [CHR 0x0A])"
proof -
  have "s \<noteq> [] \<and> last s = CHR 0x0A \<and> slug_body (butlast s) \<longleftrightarrow> (\<exists>b. slug_body b \<and> s = b @ [CHR 0x0A])"
    by (cases s rule: rev_cases) auto
  then show ?thesis by (simp add: slug_re_def re_dollar_def)
qed

lemma slug_re_length: "slug_re s \<Longrightarrow> 3 \<le> length s \<and> length s \<le> 33"
  using slug_body_length[of s] slug_body_length[of "butlast s"]
  by (auto simp: slug_re_iff max_slug_len_def)

lemma slug_re_no_hyphen: "slug_re s \<Longrightarrow> CHR ''-'' \<notin> set s \<and> CHR 0x22 \<notin> set s"
  using slug_body_chars slug_char_trim by (fastforce simp: slug_re_iff list_all_iff)

lemma slug_re_body: "slug_re s \<Longrightarrow> list_all (\<lambda>c. c \<noteq> CHR 0x0A) s \<Longrightarrow> slug_body s"
  by (auto simp: slug_re_iff)

section \<open>Names are injective\<close>

text \<open>The eight Postgres names of one tenant, schemas first.\<close>

definition tenant_names :: "string \<Rightarrow> exc + string list" where
  "tenant_names slug = rmap (\<lambda>f. f slug)
     [bronze_schema, silver_schema, gold_schema, reconciliation_schema,
      ingest_role, recon_role, support_role, recon_engine_role]"

lemmas name_defs = bronze_schema_def silver_schema_def gold_schema_def reconciliation_schema_def
  ingest_role_def recon_role_def support_role_def recon_engine_role_def

definition name_suffixes :: "string list" where
  "name_suffixes = [''_bronze'', ''_silver'', ''_gold'', ''_reconciliation'',
     ''_ingest'', ''_recon'', ''_support'', ''_recon_engine'']"

lemma tenant_names_valid:
  "slug_re s \<Longrightarrow> tenant_names s = Inr (map (\<lambda>x. ''t_'' @ s @ x) name_suffixes)"
  by (simp add: tenant_names_def name_defs validate_slug_def name_suffixes_def)

lemma tenant_names_Inr:
  "tenant_names s = Inr ns \<Longrightarrow> slug_re s \<and> ns = map (\<lambda>x. ''t_'' @ s @ x) name_suffixes"
  using tenant_names_valid[of s]
  by (cases "slug_re s") (auto simp: tenant_names_def name_defs validate_slug_def)

text \<open>No suffix ends another one: the last letters tell them apart.\<close>

lemma suffix_table:
  "list_all (\<lambda>x. list_all (\<lambda>y. rev x = take (length x) (rev y) \<longrightarrow> x = y) name_suffixes) name_suffixes"
  by code_simp

lemma suffix_clash:
  "x \<in> set name_suffixes \<Longrightarrow> y \<in> set name_suffixes \<Longrightarrow> rev x = take (length x) (rev y) \<Longrightarrow> x = y"
  using suffix_table unfolding list_all_iff by blast

lemma append_suffix_clash:
  assumes eq: "a @ x = b @ y" and mem: "x \<in> set name_suffixes" "y \<in> set name_suffixes"
  shows "a = b \<and> x = y"
proof -
  have r: "rev x @ rev a = rev y @ rev b" using eq by (metis rev_append)
  have "x = y"
  proof (cases "length x \<le> length y")
    case True
    then have "rev x = take (length x) (rev y)"
      using arg_cong[OF r, of "take (length x)"] by simp
    with mem show ?thesis by (rule suffix_clash)
  next
    case False
    then have "rev y = take (length y) (rev x)"
      using arg_cong[OF r, of "take (length y)"] by simp
    with mem show ?thesis using suffix_clash[of y x] by simp
  qed
  with eq show ?thesis by simp
qed

lemma distinct_suffixes: "distinct name_suffixes"
  by (simp add: name_suffixes_def)

lemma hyphens_inj:
  assumes "hyphens a = hyphens b" "CHR ''-'' \<notin> set a" "CHR ''-'' \<notin> set b"
  shows "a = b"
  using assms
proof (induction a arbitrary: b)
  case (Cons c a)
  from Cons.prems(1) obtain d b' where b: "b = d # b'" "hyphens a = hyphens b'"
    by (cases b) (auto simp: hyphens_def)
  with Cons.prems have "c = d" by (auto simp: hyphens_def split: if_splits)
  with Cons b show ?case by simp
qed (auto simp: hyphens_def)

lemma bucket_name_Inr: "bucket_name s p = Inr b \<longleftrightarrow> slug_re s \<and> b = p @ ''-'' @ hyphens s"
  by (auto simp: bucket_name_def rbind_eq_Inr_iff validate_slug_Inr)

section \<open>Properties\<close>

text \<open>
  C32. No two tenants, and no two layers of one tenant, share a Postgres name: equality of two of
  the sixteen schema and role names of two slugs makes the slugs equal and the names the same one.
\<close>

theorem tenant_names_disjoint:
  assumes "tenant_names a = Inr xs" "tenant_names b = Inr ys"
    and "i < 8" "j < 8" "xs ! i = ys ! j"
  shows "a = b \<and> i = j"
proof -
  have l: "length name_suffixes = 8" by (simp add: name_suffixes_def)
  from assms have "a @ name_suffixes ! i = b @ name_suffixes ! j"
    by (auto dest!: tenant_names_Inr simp: l)
  then have "a = b \<and> name_suffixes ! i = name_suffixes ! j"
    using append_suffix_clash assms(3,4) l by (metis nth_mem)
  with distinct_suffixes show ?thesis
    using assms(3,4) l nth_eq_iff_index_eq[of name_suffixes i j] by simp
qed

theorem tenant_names_disjoint_witness:
  "tenant_names ''acme'' = Inr (map (\<lambda>x. ''t_'' @ ''acme'' @ x) name_suffixes)
   \<and> ''acme'' = ''acme'' \<and> (5::nat) = 5"
proof -
  have v: "tenant_names ''acme'' = Inr (map (\<lambda>x. ''t_'' @ ''acme'' @ x) name_suffixes)"
    by (rule tenant_names_valid) code_simp
  show ?thesis
    using v tenant_names_disjoint[OF v v, of 5 5] by simp
qed

text \<open>
  Bucket names are injective over the slugs of the gate, hyphens and all, and the one tenant
  whose bucket is the platform's own bucket is the tenant with the slug \<open>platform\<close>, which
  the gate admits.
\<close>

theorem bucket_name_collisions:
  assumes "bucket_name a p = Inr x"
  shows "(bucket_name b p = Inr x \<longrightarrow> a = b) \<and> (x = platform_bucket p \<longleftrightarrow> a = ''platform'')"
proof -
  from assms have a: "slug_re a" "x = p @ ''-'' @ hyphens a" by (auto simp: bucket_name_Inr)
  have "a = b" if "slug_re b" "hyphens a = hyphens b" for b
    using that a slug_re_no_hyphen hyphens_inj by blast
  moreover have "slug_re ''platform''" "hyphens ''platform'' = ''platform''" by code_simp+
  ultimately show ?thesis
    by (auto simp: bucket_name_Inr platform_bucket_def a)
qed

theorem bucket_name_collisions_witness:
  "bucket_name ''platform'' ''inafin'' = Inr ''inafin-platform'' \<and> platform_bucket ''inafin'' = ''inafin-platform''"
proof -
  have n: "bucket_name ''platform'' ''inafin'' = Inr ''inafin-platform''" by code_simp
  from bucket_name_collisions[OF n] have "''inafin-platform'' = platform_bucket ''inafin''" by blast
  with n show ?thesis by metis
qed

text \<open>
  The gate, exactly: a slug passes when it is 3 to 32 characters of the slug alphabet starting
  with a letter, or such a text followed by one newline, which the closing dollar sign of the
  pattern lets through; every other slug is refused with \<open>InvalidSlugError\<close>. A slug that
  passes can never close a quoted identifier, and every name built on it fits in 63 bytes.
\<close>

theorem validate_slug_gate:
  "(case validate_slug s of
      Inr t \<Rightarrow> t = s \<and> (slug_body s \<or> (\<exists>b. slug_body b \<and> s = b @ [CHR 0x0A])) \<and> CHR 0x22 \<notin> set s
    | Inl e \<Rightarrow> e = InvalidSlugError s \<and> \<not> slug_body s)
   \<and> (\<forall>ns. tenant_names s = Inr ns \<longrightarrow> (\<forall>n\<in>set ns. length n \<le> 63))"
proof
  show "case validate_slug s of
      Inr t \<Rightarrow> t = s \<and> (slug_body s \<or> (\<exists>b. slug_body b \<and> s = b @ [CHR 0x0A])) \<and> CHR 0x22 \<notin> set s
    | Inl e \<Rightarrow> e = InvalidSlugError s \<and> \<not> slug_body s"
    using slug_re_no_hyphen[of s] by (auto simp: validate_slug_def slug_re_iff)
  show "\<forall>ns. tenant_names s = Inr ns \<longrightarrow> (\<forall>n\<in>set ns. length n \<le> 63)"
    using slug_re_length[of s] by (auto dest!: tenant_names_Inr simp: name_suffixes_def)
qed

theorem validate_slug_gate_witness:
  "validate_slug (''acme'' @ [CHR 0x0A]) = Inr (''acme'' @ [CHR 0x0A])
   \<and> list_all (\<lambda>n. length n \<le> 63) (map (\<lambda>x. ''t_'' @ ''acme'' @ x) name_suffixes)"
proof
  have "tenant_names ''acme'' = Inr (map (\<lambda>x. ''t_'' @ ''acme'' @ x) name_suffixes)"
    by (rule tenant_names_valid) code_simp
  then show "list_all (\<lambda>n. length n \<le> 63) (map (\<lambda>x. ''t_'' @ ''acme'' @ x) name_suffixes)"
    using validate_slug_gate[of "''acme''"] by (simp only: list_all_iff) blast
  show "validate_slug (''acme'' @ [CHR 0x0A]) = Inr (''acme'' @ [CHR 0x0A])"
    by code_simp
qed

end
