(* ===== verification/ObjectStore.thy ===== *)
theory ObjectStore
  imports Dates Identifiers
begin

text \<open>
  \<open>src/src/provisioning/objectstore.py\<close>: the keys and buckets under which Bronze, Silver,
  platform and schema-snapshot objects are written, over a bucket store with versions (a put
  prepends a version; a get reads the newest). SHA-256 is the parameter \<open>H\<close>. A timestamp
  counts seconds from 0001-01-01. The locale \<open>object_store\<close> is the part of
  \<open>ObjectStorePort\<close> that replay rests on.
\<close>

section \<open>Timestamps and identifiers as text\<close>

definition seconds_per_day :: nat where
  "seconds_per_day = 86400"

definition ts_date :: "instant \<Rightarrow> date" where
  "ts_date t = from_ordinal (t div seconds_per_day + 1)"

definition add_days :: "instant \<Rightarrow> nat \<Rightarrow> instant" where
  "add_days t n = t + n * seconds_per_day"

text \<open>\<open>f"{t:%Y/%m/%d}"\<close>.\<close>

definition ymd_path :: "instant \<Rightarrow> string" where
  "ymd_path t = (let d = ts_date t in nat_str (dyear d) @ ''/'' @ pad2 (dmonth d) @ ''/'' @ pad2 (dday d))"

definition hex_char :: "nat \<Rightarrow> char" where
  "hex_char n = (if n < 10 then char_of (48 + n) else char_of (87 + n))"

fun hex_str :: "nat \<Rightarrow> nat \<Rightarrow> string" where
  "hex_str 0 n = []"
| "hex_str (Suc k) n = hex_str k (n div 16) @ [hex_char (n mod 16)]"

text \<open>\<open>str(uuid)\<close>.\<close>

definition uuid_str :: "uuid \<Rightarrow> string" where
  "uuid_str u = (let h = hex_str 32 u in
     take 8 h @ ''-'' @ take 4 (drop 8 h) @ ''-'' @ take 4 (drop 12 h) @ ''-''
       @ take 4 (drop 16 h) @ ''-'' @ drop 20 h)"

section \<open>Objects\<close>

record s3_object =
  body :: bytes
  locked_until :: "instant option"
  metadata :: "(string \<times> string) list"

record s3 =
  buckets :: "(string \<times> bool) list"
  objects :: "((string \<times> string) \<times> s3_object) list"

record store_config =
  bucket_prefix :: string
  retention_days :: nat

record stored_object =
  so_bucket :: string
  so_key :: string
  so_hash :: bytes
  so_size :: nat
  retain_until :: "instant option"

definition put_object :: "string \<Rightarrow> string \<Rightarrow> s3_object \<Rightarrow> s3 \<Rightarrow> exc + s3" where
  "put_object bucket key obj st =
     (if map_of (buckets st) bucket = None then Inl (ClientError ''NoSuchBucket'')
      else Inr (st\<lparr>objects := ((bucket, key), obj) # objects st\<rparr>))"

definition get_object :: "s3 \<Rightarrow> string \<Rightarrow> string \<Rightarrow> exc + bytes" where
  "get_object st bucket key =
     (case map_of (objects st) (bucket, key) of
        None \<Rightarrow> Inl (ClientError ''NoSuchKey'') | Some obj \<Rightarrow> Inr (body obj))"

text \<open>\<open>ensure_bucket\<close>: Object Lock is switched on at creation or never.\<close>

definition ensure_bucket :: "store_config \<Rightarrow> string \<Rightarrow> s3 \<Rightarrow> exc + string \<times> s3" where
  "ensure_bucket cfg s st =
     rbind (bucket_name s (bucket_prefix cfg)) (\<lambda>bucket.
       if map_of (buckets st) bucket \<noteq> None then Inr (bucket, st)
       else Inr (bucket, st\<lparr>buckets := (bucket, True) # buckets st\<rparr>))"

definition ensure_platform_bucket :: "store_config \<Rightarrow> s3 \<Rightarrow> string \<times> s3" where
  "ensure_platform_bucket cfg st =
     (let bucket = platform_bucket (bucket_prefix cfg) in
      if map_of (buckets st) bucket \<noteq> None then (bucket, st)
      else (bucket, st\<lparr>buckets := (bucket, False) # buckets st\<rparr>))"

definition dot_suffix :: "string \<Rightarrow> string" where
  "dot_suffix suffix = (if suffix = [] then [] else ''.'' @ dropWhile (\<lambda>c. c = CHR ''.'') suffix)"

definition bronze_key :: "instant \<Rightarrow> string \<Rightarrow> string \<Rightarrow> string" where
  "bronze_key t ingest_id suffix = ''bronze/'' @ ymd_path t @ ''/'' @ ingest_id @ dot_suffix suffix"

definition put_bronze ::
  "(bytes \<Rightarrow> bytes) \<Rightarrow> store_config \<Rightarrow> string \<Rightarrow> string \<Rightarrow> bytes \<Rightarrow> string \<Rightarrow> instant \<Rightarrow> s3
    \<Rightarrow> exc + stored_object \<times> s3" where
  "put_bronze H cfg s ingest_id data suffix received_at st =
     rbind (validate_slug s) (\<lambda>_.
     rbind (bucket_name s (bucket_prefix cfg)) (\<lambda>bucket.
       let key = bronze_key received_at ingest_id suffix;
           until = add_days received_at (retention_days cfg)
       in rbind (put_object bucket key
            \<lparr>body = data, locked_until = Some until,
             metadata = [(''tenant-slug'', s), (''ingest-id'', ingest_id)]\<rparr> st) (\<lambda>st'.
            Inr (\<lparr>so_bucket = bucket, so_key = key, so_hash = H data, so_size = length data,
                  retain_until = Some until\<rparr>, st'))))"

definition silver_key :: "string \<Rightarrow> instant \<Rightarrow> string \<Rightarrow> string \<Rightarrow> string" where
  "silver_key doc_type t ingest_id suffix =
     ''silver/'' @ doc_type @ ''/'' @ ymd_path t @ ''/'' @ ingest_id @ dot_suffix suffix"

definition put_silver ::
  "(bytes \<Rightarrow> bytes) \<Rightarrow> store_config \<Rightarrow> string \<Rightarrow> string \<Rightarrow> string \<Rightarrow> bytes \<Rightarrow> string \<Rightarrow> instant \<Rightarrow> s3
    \<Rightarrow> exc + stored_object \<times> s3" where
  "put_silver H cfg s doc_type ingest_id data suffix promoted_at st =
     rbind (validate_slug s) (\<lambda>_.
     rbind (bucket_name s (bucket_prefix cfg)) (\<lambda>bucket.
       let key = silver_key doc_type promoted_at ingest_id suffix;
           until = add_days promoted_at (retention_days cfg)
       in rbind (put_object bucket key
            \<lparr>body = data, locked_until = Some until,
             metadata = [(''tenant-slug'', s), (''ingest-id'', ingest_id), (''doc-type'', doc_type)]\<rparr> st) (\<lambda>st'.
            Inr (\<lparr>so_bucket = bucket, so_key = key, so_hash = H data, so_size = length data,
                  retain_until = Some until\<rparr>, st'))))"

text \<open>A published object has no retention; its version is the number of earlier puts.\<close>

definition put_platform_artifact ::
  "(bytes \<Rightarrow> bytes) \<Rightarrow> store_config \<Rightarrow> string \<Rightarrow> string \<Rightarrow> string option \<Rightarrow> string \<Rightarrow> bytes \<Rightarrow> s3
    \<Rightarrow> exc + stored_object \<times> s3" where
  "put_platform_artifact H cfg release kind doc_type_code filename data st =
     (case ensure_platform_bucket cfg st of (bucket, st1) \<Rightarrow>
       let scope = (case doc_type_code of None \<Rightarrow> [] | Some c \<Rightarrow> if c = [] then [] else c @ ''/'');
           key = lower kind @ ''/'' @ release @ ''/'' @ scope @ filename
       in rbind (put_object bucket key
            \<lparr>body = data, locked_until = None,
             metadata = [(''release'', release), (''kind'', kind)]\<rparr> st1) (\<lambda>st'.
            Inr (\<lparr>so_bucket = bucket, so_key = key, so_hash = H data, so_size = length data,
                  retain_until = None\<rparr>, st')))"

definition snapshot_key :: "string \<Rightarrow> string \<Rightarrow> string" where
  "snapshot_key release doc_type_code = ''schema/'' @ release @ ''/'' @ doc_type_code @ ''.json''"

definition put_schema_snapshot ::
  "(bytes \<Rightarrow> bytes) \<Rightarrow> store_config \<Rightarrow> string \<Rightarrow> string \<Rightarrow> string \<Rightarrow> bytes \<Rightarrow> instant \<Rightarrow> s3
    \<Rightarrow> exc + stored_object \<times> s3" where
  "put_schema_snapshot H cfg s release doc_type_code data pinned_at st =
     rbind (validate_slug s) (\<lambda>_.
     rbind (bucket_name s (bucket_prefix cfg)) (\<lambda>bucket.
       let key = snapshot_key release doc_type_code;
           until = add_days pinned_at (retention_days cfg)
       in rbind (put_object bucket key
            \<lparr>body = data, locked_until = Some until,
             metadata = [(''tenant-slug'', s), (''release'', release)]\<rparr> st) (\<lambda>st'.
            Inr (\<lparr>so_bucket = bucket, so_key = key, so_hash = H data, so_size = length data,
                  retain_until = Some until\<rparr>, st'))))"

section \<open>The store port\<close>

locale object_store =
  fixes put :: "string \<Rightarrow> string \<Rightarrow> s3_object \<Rightarrow> 's \<Rightarrow> exc + 's"
    and get :: "'s \<Rightarrow> string \<Rightarrow> string \<Rightarrow> exc + bytes"
  assumes get_put: "put b k x s = Inr s' \<Longrightarrow>
      get s' b' k' = (if b' = b \<and> k' = k then Inr (body x) else get s b' k')"
begin

lemma get_put_same: "put b k x s = Inr s' \<Longrightarrow> get s' b k = Inr (body x)"
  by (simp add: get_put)

lemma get_put_other: "put b k x s = Inr s' \<Longrightarrow> (b', k') \<noteq> (b, k) \<Longrightarrow> get s' b' k' = get s b' k'"
  by (auto simp: get_put)

text \<open>What is written stays readable while later writes use other keys.\<close>

lemma get_after_puts:
  assumes "rfold (\<lambda>s (b, k, x). put b k x s) s ps = Inr s'"
    and "\<forall>(b', k', x')\<in>set ps. (b', k') \<noteq> (b, k)"
  shows "get s' b k = get s b k"
  using assms
proof (induction ps arbitrary: s)
  case (Cons p ps)
  then show ?case
    by (cases p) (auto simp: rbind_eq_Inr_iff get_put)
qed simp

end

interpretation s3_store: object_store put_object get_object
  by unfold_locales (auto simp: put_object_def get_object_def split: if_splits)

section \<open>Keys are injective in the identifier\<close>

lemma length_hex_str [simp]: "length (hex_str k n) = k"
  by (induction k n rule: hex_str.induct) auto

lemma hex_char_inj: "a < 16 \<Longrightarrow> b < 16 \<Longrightarrow> hex_char a = hex_char b \<Longrightarrow> a = b"
  by (auto simp: hex_char_def dest!: arg_cong[of "char_of _" _ ord] simp: ord_char_of split: if_splits)

lemma hex_str_inj: "hex_str k a = hex_str k b \<Longrightarrow> a < 16 ^ k \<Longrightarrow> b < 16 ^ k \<Longrightarrow> a = b"
proof (induction k arbitrary: a b)
  case (Suc k)
  from Suc.prems(1) have "hex_str k (a div 16) = hex_str k (b div 16)" "a mod 16 = b mod 16"
    using hex_char_inj[of "a mod 16" "b mod 16"] by auto
  moreover have "a div 16 < 16 ^ k" "b div 16 < 16 ^ k"
    using Suc.prems by (simp_all add: div_less_iff_less_mult mult.commute)
  ultimately have "a div 16 = b div 16" using Suc.IH by blast
  with \<open>a mod 16 = b mod 16\<close> show ?case by (metis div_mult_mod_eq)
qed simp

lemma uuid_str_pieces:
  assumes "length a = 32" "length b = 32"
    and "take 8 a @ ''-'' @ take 4 (drop 8 a) @ ''-'' @ take 4 (drop 12 a) @ ''-''
       @ take 4 (drop 16 a) @ ''-'' @ drop 20 a
     = take 8 b @ ''-'' @ take 4 (drop 8 b) @ ''-'' @ take 4 (drop 12 b) @ ''-''
       @ take 4 (drop 16 b) @ ''-'' @ drop 20 b"
  shows "a = b"
proof -
  have split: "h = take 8 h @ take 4 (drop 8 h) @ take 4 (drop 12 h) @ take 4 (drop 16 h) @ drop 20 h"
    for h :: string
    using append_take_drop_id[of 8 h] append_take_drop_id[of 4 "drop 8 h"]
      append_take_drop_id[of 4 "drop 12 h"] append_take_drop_id[of 4 "drop 16 h"] by simp
  from assms have "take 8 a = take 8 b \<and> take 4 (drop 8 a) = take 4 (drop 8 b)
      \<and> take 4 (drop 12 a) = take 4 (drop 12 b) \<and> take 4 (drop 16 a) = take 4 (drop 16 b)
      \<and> drop 20 a = drop 20 b"
    by simp
  then show ?thesis using split[of a] split[of b] by simp
qed

lemma uuid_str_inj: "uuid_str a = uuid_str b \<Longrightarrow> a < 2 ^ 128 \<Longrightarrow> b < 2 ^ 128 \<Longrightarrow> a = b"
  using uuid_str_pieces[of "hex_str 32 a" "hex_str 32 b"] hex_str_inj[of 32 a b]
  by (simp add: uuid_str_def Let_def)

lemma length_uuid_str: "length (uuid_str u) = 36"
  by (simp add: uuid_str_def Let_def)

lemma digits_no_slash: "list_all is_digit s \<Longrightarrow> CHR ''/'' \<notin> set s"
  by (auto simp: list_all_iff is_digit_def ord_def)

lemma pad2_digits: "list_all is_digit (pad2 n)"
  using nat_str_digits by (simp add: pad2_def is_digit_def ord_def)

lemma split_ymd_path:
  "split_on (CHR ''/'') (ymd_path t @ ''/'' @ r)
    = nat_str (dyear (ts_date t)) # pad2 (dmonth (ts_date t)) # pad2 (dday (ts_date t))
      # split_on (CHR ''/'') r"
  by (simp add: ymd_path_def Let_def split_on_append_sep digits_no_slash nat_str_digits pad2_digits)

lemma ymd_path_append_inj:
  assumes "ymd_path t @ ''/'' @ r = ymd_path t' @ ''/'' @ r'"
  shows "r = r'"
proof -
  have "split_on (CHR ''/'') r = split_on (CHR ''/'') r'"
    using assms split_ymd_path[of t r] split_ymd_path[of t' r'] by simp
  then show ?thesis by (metis join_split_on)
qed

lemma bronze_key_inj:
  assumes "bronze_key t (uuid_str a) x = bronze_key t' (uuid_str b) y" "a < 2 ^ 128" "b < 2 ^ 128"
  shows "a = b"
proof -
  have "uuid_str a @ dot_suffix x = uuid_str b @ dot_suffix y"
    using assms(1) ymd_path_append_inj[of t "uuid_str a @ dot_suffix x" t' "uuid_str b @ dot_suffix y"]
    by (simp add: bronze_key_def)
  then have "uuid_str a = uuid_str b"
    by (simp add: append_eq_append_conv length_uuid_str)
  with assms show ?thesis using uuid_str_inj by blast
qed

text \<open>The four key families never meet.\<close>

lemma key_families:
  "bronze_key t i x \<noteq> silver_key d t' i' x'"
  "bronze_key t i x \<noteq> snapshot_key r c"
  "silver_key d t' i' x' \<noteq> snapshot_key r c"
  by (simp_all add: bronze_key_def silver_key_def snapshot_key_def)

lemma put_bronze_Inr:
  "put_bronze H cfg s i data x t st = Inr (so, st') \<Longrightarrow>
     bucket_name s (bucket_prefix cfg) = Inr (so_bucket so) \<and> so_key so = bronze_key t i x
     \<and> so_hash so = H data \<and> so_size so = length data
     \<and> retain_until so = Some (add_days t (retention_days cfg))
     \<and> (\<exists>obj. body obj = data \<and> locked_until obj = retain_until so
          \<and> put_object (so_bucket so) (so_key so) obj st = Inr st')"
  by (force simp: put_bronze_def rbind_eq_Inr_iff Let_def)

lemma put_snapshot_Inr:
  "put_schema_snapshot H cfg s r c data t st = Inr (so, st') \<Longrightarrow>
     bucket_name s (bucket_prefix cfg) = Inr (so_bucket so) \<and> so_key so = snapshot_key r c
     \<and> so_hash so = H data
     \<and> (\<exists>obj. body obj = data \<and> put_object (so_bucket so) (so_key so) obj st = Inr st')"
  by (force simp: put_schema_snapshot_def rbind_eq_Inr_iff Let_def)

end
