(* ===== verification/Tenancy.thy ===== *)
theory Tenancy
  imports Identifiers
begin

text \<open>
  \<open>src/src/core/tenant.py\<close> and \<open>src/src/core/pool.py\<close>: the validated tenant context and the
  tenant-scoped transaction every repository call runs in, with the guard functions of
  \<open>src/migrations/shared/001_app.sql\<close> (as replaced by 060) that its preamble calls. The
  lemmas show what a body of statements may rely on, and that a transaction either commits the
  body's effect or changes nothing, and never leaves its role on the pooled connection.
\<close>

section \<open>TenantContext\<close>

datatype role = INGEST | RECON | SUPPORT

record tenant_context =
  ctx_slug :: string
  tenant_id :: "uuid option"

definition mk_context :: "string \<Rightarrow> uuid option \<Rightarrow> exc + tenant_context" where
  "mk_context s tid = rbind (validate_slug s) (\<lambda>s. Inr \<lparr>ctx_slug = s, tenant_id = tid\<rparr>)"

definition ctx_bronze_schema :: "tenant_context \<Rightarrow> exc + string" where
  "ctx_bronze_schema ctx = bronze_schema (ctx_slug ctx)"

definition ctx_silver_schema :: "tenant_context \<Rightarrow> exc + string" where
  "ctx_silver_schema ctx = silver_schema (ctx_slug ctx)"

definition ctx_gold_schema :: "tenant_context \<Rightarrow> exc + string" where
  "ctx_gold_schema ctx = gold_schema (ctx_slug ctx)"

fun role_name :: "tenant_context \<Rightarrow> role \<Rightarrow> exc + string" where
  "role_name ctx INGEST = ingest_role (ctx_slug ctx)"
| "role_name ctx RECON = recon_role (ctx_slug ctx)"
| "role_name ctx SUPPORT = support_role (ctx_slug ctx)"

definition guard_schema :: "tenant_context \<Rightarrow> role \<Rightarrow> exc + string" where
  "guard_schema ctx r = ctx_silver_schema ctx"

definition ctx_bucket :: "tenant_context \<Rightarrow> string \<Rightarrow> exc + string" where
  "ctx_bucket ctx prefix = bucket_name (ctx_slug ctx) prefix"

section \<open>The guard in the database\<close>

text \<open>
  What the guard reads of the cluster: the roles there are, those the login may assume, which role may read a
  schema, and the row of a schema's \<open>__schema_identity\<close> table: \<open>None\<close> for a schema
  without the table, \<open>Some None\<close> for an empty table.
\<close>

record cluster =
  known_role :: "string \<Rightarrow> bool"
  assumable :: "string \<Rightarrow> bool"
  may_read :: "string \<Rightarrow> string \<Rightarrow> bool"
  identity :: "string \<Rightarrow> string option option"

definition insufficient_privilege :: string where
  "insufficient_privilege = ''42501''"

definition assert_schema_owner :: "cluster \<Rightarrow> string \<Rightarrow> string \<Rightarrow> string \<Rightarrow> exc + unit" where
  "assert_schema_owner cl user schema expected =
     (case identity cl schema of
        None \<Rightarrow> Inl (SqlError ''42P01'')
      | Some row \<Rightarrow>
          if \<not> may_read cl user schema then Inl (SqlError insufficient_privilege)
          else case row of
            None \<Rightarrow> Inl (SqlError insufficient_privilege)
          | Some owner \<Rightarrow>
              if owner \<noteq> expected then Inl (SqlError insufficient_privilege) else Inr ())"

definition assert_tenant_context :: "cluster \<Rightarrow> string \<Rightarrow> string \<Rightarrow> string \<Rightarrow> exc + unit" where
  "assert_tenant_context cl user s schema =
     (if user \<noteq> ''t_'' @ s @ ''_ingest'' \<and> user \<noteq> ''t_'' @ s @ ''_recon''
         \<and> user \<noteq> ''t_'' @ s @ ''_support'' \<and> user \<noteq> ''t_'' @ s @ ''_recon_engine''
      then Inl (SqlError insufficient_privilege)
      else assert_schema_owner cl user schema s)"

section \<open>The scoped transaction\<close>

text \<open>
  A pooled connection: the role it acts under between transactions, and the database it reaches.
  The body of a transaction is given the role it runs under and the data.
\<close>

record 'db session =
  current_role :: string
  db_data :: 'db

definition set_local_role :: "cluster \<Rightarrow> string \<Rightarrow> exc + unit" where
  "set_local_role cl r =
     (if \<not> known_role cl r then Inl (SqlError ''22023'')
      else if assumable cl r then Inr () else Inl (SqlError insufficient_privilege))"

text \<open>The statements between BEGIN and COMMIT.\<close>

definition scoped_body ::
  "cluster \<Rightarrow> string \<Rightarrow> string \<Rightarrow> string \<Rightarrow> (string \<Rightarrow> 'db \<Rightarrow> exc + 'a \<times> 'db) \<Rightarrow> 'db \<Rightarrow> exc + 'a \<times> 'db" where
  "scoped_body cl s r schema body db =
     rbind (set_local_role cl r) (\<lambda>_.
     rbind (assert_tenant_context cl r s schema) (\<lambda>_. body r db))"

text \<open>
  \<open>pool.transaction\<close>: an error rolls the data back; COMMIT and ROLLBACK both discard the
  local role; a driver error with SQLSTATE 42501 is a boundary violation.
\<close>

definition map_boundary :: "exc \<Rightarrow> exc" where
  "map_boundary e =
     (if sqlstate e = Some insufficient_privilege
      then TenantBoundaryViolation insufficient_privilege else e)"

definition run_transaction ::
  "cluster \<Rightarrow> tenant_context \<Rightarrow> role \<Rightarrow> (string \<Rightarrow> 'db \<Rightarrow> exc + 'a \<times> 'db) \<Rightarrow> 'db session
    \<Rightarrow> (exc + 'a) \<times> 'db session" where
  "run_transaction cl ctx r body se =
     (case rbind (role_name ctx r) (\<lambda>rn. rbind (guard_schema ctx r) (\<lambda>g. Inr (rn, g))) of
        Inl e \<Rightarrow> (Inl e, se)
      | Inr (rn, g) \<Rightarrow>
          (case scoped_body cl (ctx_slug ctx) rn g body (db_data se) of
             Inl e \<Rightarrow> (Inl (map_boundary e), se)
           | Inr (x, db) \<Rightarrow> (Inr x, se\<lparr>db_data := db\<rparr>)))"

section \<open>Lemmas\<close>

lemma mk_context_Inr: "mk_context s tid = Inr ctx \<longleftrightarrow> slug_re s \<and> ctx = \<lparr>ctx_slug = s, tenant_id = tid\<rparr>"
  by (auto simp: mk_context_def rbind_eq_Inr_iff validate_slug_Inr)

lemma role_name_valid:
  "slug_re (ctx_slug ctx) \<Longrightarrow> role_name ctx r = Inr (''t_'' @ ctx_slug ctx @
     (case r of INGEST \<Rightarrow> ''_ingest'' | RECON \<Rightarrow> ''_recon'' | SUPPORT \<Rightarrow> ''_support''))"
  by (cases r) (simp_all add: ingest_role_def recon_role_def support_role_def validate_slug_def)

lemma guard_schema_valid:
  "slug_re (ctx_slug ctx) \<Longrightarrow> guard_schema ctx r = Inr (''t_'' @ ctx_slug ctx @ ''_silver'')"
  by (simp add: guard_schema_def ctx_silver_schema_def silver_schema_def validate_slug_def)

lemma assert_tenant_context_Inr:
  "assert_tenant_context cl user s schema = Inr () \<Longrightarrow> identity cl schema = Some (Some s) \<and> may_read cl user schema"
  by (auto simp: assert_tenant_context_def assert_schema_owner_def split: if_splits option.splits)

text \<open>A body ran only if the guard passed, under the role of the context.\<close>

lemma scoped_body_Inr:
  assumes "scoped_body cl s r schema body db = Inr (x, db')"
  shows "assumable cl r \<and> identity cl schema = Some (Some s) \<and> body r db = Inr (x, db')"
  using assms assert_tenant_context_Inr[of cl r s schema]
  by (auto simp: scoped_body_def rbind_eq_Inr_iff set_local_role_def split: if_splits)

section \<open>Properties\<close>

text \<open>
  C31. A transaction for a context built by the gate runs its statements only when the silver schema
  of that tenant names that tenant as its owner, and then under that tenant's role; when anything
  fails the data is what it was; and the connection goes back to the pool with the role it had.
\<close>

theorem run_transaction_scoped:
  assumes ctx: "mk_context s tid = Inr ctx"
    and run: "run_transaction cl ctx r body se = (res, se')"
  shows "current_role se' = current_role se \<and>
    (case res of
       Inl e \<Rightarrow> se' = se
     | Inr x \<Rightarrow> identity cl (''t_'' @ s @ ''_silver'') = Some (Some s)
         \<and> (\<exists>rn. role_name ctx r = Inr rn \<and> assumable cl rn
              \<and> body rn (db_data se) = Inr (x, db_data se')))"
proof -
  have s: "slug_re (ctx_slug ctx)" "ctx_slug ctx = s"
    using ctx by (auto simp: mk_context_Inr)
  obtain rn where rn: "role_name ctx r = Inr rn"
    using role_name_valid[OF s(1)] by blast
  show ?thesis
  proof (cases "scoped_body cl s rn (''t_'' @ s @ ''_silver'') body (db_data se)")
    case (Inl e)
    with run rn guard_schema_valid[OF s(1)] s(2) show ?thesis
      by (auto simp: run_transaction_def)
  next
    case (Inr y)
    obtain x db where y: "y = (x, db)" by (cases y)
    have "assumable cl rn \<and> identity cl (''t_'' @ s @ ''_silver'') = Some (Some s)
        \<and> body rn (db_data se) = Inr (x, db)"
      using Inr y by (intro scoped_body_Inr) simp
    with Inr y run rn guard_schema_valid[OF s(1)] s(2) show ?thesis
      by (auto simp: run_transaction_def)
  qed
qed

definition demo_cluster :: cluster where
  "demo_cluster = \<lparr>known_role = (\<lambda>r. True), assumable = (\<lambda>r. r = ''t_acme_ingest''),
     may_read = (\<lambda>r n. n = ''t_acme_silver''),
     identity = (\<lambda>n. if n = ''t_acme_silver'' then Some (Some ''acme'') else None)\<rparr>"

theorem run_transaction_scoped_witness:
  "identity demo_cluster ''t_acme_silver'' = Some (Some ''acme'')"
proof -
  have 1: "mk_context ''acme'' None = Inr \<lparr>ctx_slug = ''acme'', tenant_id = None\<rparr>"
    by code_simp
  have 2: "run_transaction demo_cluster \<lparr>ctx_slug = ''acme'', tenant_id = None\<rparr> INGEST
      (\<lambda>r n. Inr (n, Suc n)) \<lparr>current_role = ''app_login'', db_data = 0\<rparr>
    = (Inr 0, \<lparr>current_role = ''app_login'', db_data = Suc 0\<rparr>)"
    by code_simp
  from run_transaction_scoped[OF 1 2] show ?thesis by simp
qed

text \<open>
  When a tenant's silver schema belongs to another tenant, or names no owner, every transaction
  of that tenant under one of the cluster's roles is a \<open>TenantBoundaryViolation\<close>: no statement runs and no data changes.
\<close>

theorem wrong_owner_refused:
  assumes "mk_context s tid = Inr ctx" "role_name ctx r = Inr rn" "known_role cl rn"
    and "identity cl (''t_'' @ s @ ''_silver'') = Some row" "row \<noteq> Some s"
  shows "run_transaction cl ctx r body se = (Inl (TenantBoundaryViolation insufficient_privilege), se)"
proof -
  have s: "slug_re (ctx_slug ctx)" "ctx_slug ctx = s"
    using assms(1) by (auto simp: mk_context_Inr)
  have "scoped_body cl s rn (''t_'' @ s @ ''_silver'') body (db_data se) = Inl (SqlError insufficient_privilege)"
    using assms(3-)
    by (auto simp: scoped_body_def set_local_role_def assert_tenant_context_def
        assert_schema_owner_def split: option.splits)
  with assms(2) guard_schema_valid[OF s(1)] s(2) show ?thesis
    by (simp add: run_transaction_def map_boundary_def sqlstate_def)
qed

theorem wrong_owner_refused_witness:
  "run_transaction (demo_cluster\<lparr>identity := (\<lambda>n. Some (Some ''globex''))\<rparr>)
      \<lparr>ctx_slug = ''acme'', tenant_id = None\<rparr> INGEST (\<lambda>r n. Inr (n, Suc n))
      \<lparr>current_role = ''app_login'', db_data = 0\<rparr>
    = (Inl (TenantBoundaryViolation insufficient_privilege), \<lparr>current_role = ''app_login'', db_data = 0\<rparr>)"
  by (rule wrong_owner_refused[where s = "''acme''" and tid = None and row = "Some ''globex''"
        and rn = "''t_acme_ingest''"])
     (code_simp, code_simp, simp_all add: demo_cluster_def)

end
