(* ===== verification/SchemaPin.thy ===== *)
theory SchemaPin
  imports ObjectStore Tenancy "HOL-Library.List_Lexorder" "HOL-Library.Char_ord"
begin

text \<open>
  \<open>src/src/catalogue/pin.py\<close>: the schema release a tenant is pinned to per document type. The
  \<open>schema_pin\<close> table is insert-only with one row per type and release (tenant migration 028);
  the pin in force is the newest row. \<open>ensure_schema_pin\<close> swallows every error and
  \<open>roll_forward\<close> lets it through. Rows are listed in insertion order and \<open>pin_id\<close> is the
  identity column. The published catalogue is the two tables of shared migration 039.
\<close>

record schema_artifact =
  sa_release :: string
  sa_bucket :: string
  sa_key :: string
  sa_doc_type :: "string option"
  sa_kind :: string

record catalogue =
  releases :: "(string \<times> string) list"
  artifacts :: "schema_artifact list"

record pin_row =
  pin_id :: nat
  pin_doc_type :: string
  pin_release :: string
  pinned_by :: "uuid option"
  pin_sha256 :: bytes
  pin_bucket :: string
  pin_key :: string
  pinned_at :: instant

record schema_pin =
  doc_type_code :: string
  release_version :: string
  object_bucket :: string
  object_key :: string

definition pin_of_row :: "pin_row \<Rightarrow> schema_pin" where
  "pin_of_row r = \<lparr>doc_type_code = pin_doc_type r, release_version = pin_release r,
     object_bucket = pin_bucket r, object_key = pin_key r\<rparr>"

section \<open>current_pin\<close>

definition newer :: "pin_row \<Rightarrow> pin_row \<Rightarrow> bool" where
  "newer r q \<longleftrightarrow> pinned_at q < pinned_at r \<or> (pinned_at q = pinned_at r \<and> pin_id q < pin_id r)"

fun newest :: "pin_row list \<Rightarrow> pin_row option" where
  "newest [] = None"
| "newest (r # rs) = (case newest rs of None \<Rightarrow> Some r | Some q \<Rightarrow> Some (if newer r q then r else q))"

definition current_row :: "pin_row list \<Rightarrow> string \<Rightarrow> pin_row option" where
  "current_row pins code = newest (filter (\<lambda>r. pin_doc_type r = code) pins)"

definition current_pin :: "pin_row list \<Rightarrow> string \<Rightarrow> schema_pin option" where
  "current_pin pins code = map_option pin_of_row (current_row pins code)"

section \<open>Writing a pin\<close>

text \<open>The artifact of the CURRENT release for a type.\<close>

definition published :: "catalogue \<Rightarrow> string \<Rightarrow> schema_artifact option" where
  "published cat code =
     List.find (\<lambda>a. map_of (releases cat) (sa_release a) = Some ''CURRENT''
       \<and> sa_kind a = ''SCHEMA'' \<and> sa_doc_type a = Some code) (artifacts cat)"

text \<open>
  \<open>INSERT ... ON CONFLICT (doc_type_code, release_version) DO NOTHING\<close>; \<open>known\<close> is the
  ledger the foreign key reads.
\<close>

definition insert_pin :: "(uuid \<Rightarrow> bool) \<Rightarrow> pin_row \<Rightarrow> pin_row list \<Rightarrow> exc + pin_row list" where
  "insert_pin known row pins =
     (if \<exists>r\<in>set pins. pin_doc_type r = pin_doc_type row \<and> pin_release r = pin_release row then Inr pins
      else case pinned_by row of
        Some u \<Rightarrow> if known u then Inr (pins @ [row]) else Inl (ForeignKeyViolation ''schema_pin'')
      | None \<Rightarrow> Inr (pins @ [row]))"

definition next_id :: "pin_row list \<Rightarrow> nat" where
  "next_id pins = Suc (fold max (map pin_id pins) 0)"

record pin_world =
  pins :: "pin_row list"
  pin_store :: s3

text \<open>
  The part the two writers share: copy the published schema into the tenant's bucket, then insert
  the row. The snapshot stays in the store when the insert fails.
\<close>

definition write_pin ::
  "(bytes \<Rightarrow> bytes) \<Rightarrow> store_config \<Rightarrow> (uuid \<Rightarrow> bool) \<Rightarrow> string \<Rightarrow> string \<Rightarrow> uuid option \<Rightarrow> instant
    \<Rightarrow> schema_artifact \<Rightarrow> pin_world \<Rightarrow> (exc + schema_pin) \<times> pin_world" where
  "write_pin H cfg known s code by now a w =
     (case rbind (get_object (pin_store w) (sa_bucket a) (sa_key a))
             (\<lambda>data. put_schema_snapshot H cfg s (sa_release a) code data now (pin_store w)) of
        Inl e \<Rightarrow> (Inl e, w)
      | Inr (so, st) \<Rightarrow>
          (let row = \<lparr>pin_id = next_id (pins w), pin_doc_type = code, pin_release = sa_release a,
                 pinned_by = by, pin_sha256 = so_hash so, pin_bucket = so_bucket so,
                 pin_key = so_key so, pinned_at = now\<rparr>
           in case insert_pin known row (pins w) of
                Inl e \<Rightarrow> (Inl e, w\<lparr>pin_store := st\<rparr>)
              | Inr ps \<Rightarrow> (Inr (pin_of_row row), w\<lparr>pins := ps, pin_store := st\<rparr>)))"

definition ensure_schema_pin ::
  "(bytes \<Rightarrow> bytes) \<Rightarrow> store_config \<Rightarrow> (uuid \<Rightarrow> bool) \<Rightarrow> catalogue \<Rightarrow> string \<Rightarrow> string \<Rightarrow> uuid \<Rightarrow> instant
    \<Rightarrow> pin_world \<Rightarrow> schema_pin option \<times> pin_world" where
  "ensure_schema_pin H cfg known cat s code ingest_id now w =
     (case current_pin (pins w) code of
        Some p \<Rightarrow> (Some p, w)
      | None \<Rightarrow>
          (case published cat code of
             None \<Rightarrow> (None, w)
           | Some a \<Rightarrow>
               (case write_pin H cfg known s code (Some ingest_id) now a w of
                  (Inl e, w') \<Rightarrow> (None, w')
                | (Inr p, w') \<Rightarrow> (Some p, w'))))"

definition roll_forward ::
  "(bytes \<Rightarrow> bytes) \<Rightarrow> store_config \<Rightarrow> (uuid \<Rightarrow> bool) \<Rightarrow> catalogue \<Rightarrow> string \<Rightarrow> string \<Rightarrow> instant
    \<Rightarrow> pin_world \<Rightarrow> (exc + schema_pin option) \<times> pin_world" where
  "roll_forward H cfg known cat s code now w =
     (let existing = current_pin (pins w) code in
      case published cat code of
        None \<Rightarrow> (Inr existing, w)
      | Some a \<Rightarrow>
          if map_option release_version existing = Some (sa_release a) then (Inr existing, w)
          else (case write_pin H cfg known s code None now a w of
                  (Inl e, w') \<Rightarrow> (Inl e, w')
                | (Inr p, w') \<Rightarrow> (Inr (Some p), w')))"

text \<open>\<open>roll_forward_all\<close>: the types already pinned, in code order, until one raises.\<close>

definition pinned_codes :: "pin_row list \<Rightarrow> string list" where
  "pinned_codes ps = sort (remdups (map pin_doc_type ps))"

fun roll_forward_codes ::
  "(bytes \<Rightarrow> bytes) \<Rightarrow> store_config \<Rightarrow> (uuid \<Rightarrow> bool) \<Rightarrow> catalogue \<Rightarrow> string \<Rightarrow> instant
    \<Rightarrow> string list \<Rightarrow> pin_world \<Rightarrow> (exc + schema_pin list) \<times> pin_world" where
  "roll_forward_codes H cfg known cat s now [] w = (Inr [], w)"
| "roll_forward_codes H cfg known cat s now (c # cs) w =
     (case roll_forward H cfg known cat s c now w of
        (Inl e, w') \<Rightarrow> (Inl e, w')
      | (Inr p, w') \<Rightarrow>
          (case roll_forward_codes H cfg known cat s now cs w' of
             (Inl e, w'') \<Rightarrow> (Inl e, w'')
           | (Inr ps, w'') \<Rightarrow> (Inr (case p of None \<Rightarrow> ps | Some x \<Rightarrow> x # ps), w'')))"

definition roll_forward_all ::
  "(bytes \<Rightarrow> bytes) \<Rightarrow> store_config \<Rightarrow> (uuid \<Rightarrow> bool) \<Rightarrow> catalogue \<Rightarrow> string \<Rightarrow> instant
    \<Rightarrow> pin_world \<Rightarrow> (exc + schema_pin list) \<times> pin_world" where
  "roll_forward_all H cfg known cat s now w =
     roll_forward_codes H cfg known cat s now (pinned_codes (pins w)) w"

section \<open>Lemmas\<close>

lemma newest_None [simp]: "newest rs = None \<longleftrightarrow> rs = []"
  by (cases rs) (auto split: option.splits)

lemma newest_mem: "newest rs = Some r \<Longrightarrow> r \<in> set rs"
  by (induction rs arbitrary: r) (auto split: option.splits if_splits)

lemma newest_snoc:
  "\<forall>r\<in>set rs. newer x r \<Longrightarrow> newest (rs @ [x]) = Some x"
proof (induction rs)
  case (Cons r rs)
  have "newer x r" using Cons.prems by simp
  then have "\<not> newer r x" unfolding newer_def by linarith
  moreover have "newest (rs @ [x]) = Some x" using Cons by simp
  ultimately show ?case by simp
qed simp

lemma current_pin_code: "current_pin ps code = Some p \<Longrightarrow> doc_type_code p = code"
  by (auto simp: current_pin_def current_row_def pin_of_row_def dest: newest_mem)

lemma fold_max_ge: "x \<in> set xs \<Longrightarrow> x \<le> fold max xs (a :: nat)" "a \<le> fold max xs a"
proof (induction xs arbitrary: a)
  case (Cons y ys)
  { case 1
    show ?case using Cons(1)[of "max y a"] Cons(2)[of "max y a"] 1 by auto }
  { case 2
    show ?case using Cons(2)[of "max y a"] by auto }
qed simp_all

lemma next_id_fresh: "r \<in> set ps \<Longrightarrow> pin_id r < next_id ps"
  using fold_max_ge(1)[of "pin_id r" "map pin_id ps" 0] by (auto simp: next_id_def)

lemma write_pin_fresh:
  assumes wp: "write_pin H cfg known s code by now a w = (Inr p, w')"
    and fresh: "\<forall>r\<in>set (pins w). \<not> (pin_doc_type r = code \<and> pin_release r = sa_release a)"
    and clock: "\<forall>r\<in>set (pins w). pinned_at r \<le> now"
  shows "current_pin (pins w') code = Some p \<and> release_version p = sa_release a
    \<and> (\<exists>data. get_object (pin_store w) (sa_bucket a) (sa_key a) = Inr data
         \<and> get_object (pin_store w') (object_bucket p) (object_key p) = Inr data
         \<and> bucket_name s (bucket_prefix cfg) = Inr (object_bucket p))"
proof -
  from wp obtain data so st where
    g: "get_object (pin_store w) (sa_bucket a) (sa_key a) = Inr data" and
    p: "put_schema_snapshot H cfg s (sa_release a) code data now (pin_store w) = Inr (so, st)"
    by (auto simp: write_pin_def rbind_eq_Inr_iff split: sum.splits)
  let ?row = "\<lparr>pin_id = next_id (pins w), pin_doc_type = code, pin_release = sa_release a,
                 pinned_by = by, pin_sha256 = so_hash so, pin_bucket = so_bucket so,
                 pin_key = so_key so, pinned_at = now\<rparr>"
  from wp g p fresh have w': "w' = w\<lparr>pins := pins w @ [?row], pin_store := st\<rparr>" "p = pin_of_row ?row"
    by (auto simp: write_pin_def insert_pin_def Let_def split: sum.splits option.splits if_splits)
  have "newest (filter (\<lambda>r. pin_doc_type r = code) (pins w) @ [?row]) = Some ?row"
    using clock next_id_fresh
    by (intro newest_snoc) (auto simp: newer_def order.order_iff_strict)
  moreover have "get_object st (so_bucket so) (so_key so) = Inr data"
    using put_snapshot_Inr[OF p] s3_store.get_put_same by blast
  ultimately show ?thesis
    using w' g put_snapshot_Inr[OF p]
    by (auto simp: current_pin_def current_row_def pin_of_row_def)
qed

lemma write_pin_conflict:
  assumes "write_pin H cfg known s code by now a w = (Inr p, w')"
    and "r \<in> set (pins w)" "pin_doc_type r = code" "pin_release r = sa_release a"
  shows "pins w' = pins w \<and> release_version p = sa_release a"
  using assms by (auto simp: write_pin_def insert_pin_def Let_def pin_of_row_def split: sum.splits option.splits if_splits)

section \<open>Properties\<close>

text \<open>
  A tenant that has a pin for a type keeps it through every later upload, whatever release the
  platform publishes meanwhile: the call returns the pin in force and writes nothing. A first
  upload of a published type leaves the tenant, when the call reports a pin, on the CURRENT
  release, with the published bytes readable at the recorded place in the tenant's own bucket.
\<close>

theorem ensure_pin_keeps_contract:
  assumes run: "ensure_schema_pin H cfg known cat s code u now w = (res, w')"
    and clock: "\<forall>r\<in>set (pins w). pinned_at r \<le> now"
  shows "(\<forall>p. current_pin (pins w) code = Some p \<longrightarrow> res = Some p \<and> w' = w)
   \<and> (\<forall>p. current_pin (pins w) code = None \<and> res = Some p \<longrightarrow>
        current_pin (pins w') code = Some p
        \<and> map_of (releases cat) (release_version p) = Some ''CURRENT''
        \<and> bucket_name s (bucket_prefix cfg) = Inr (object_bucket p)
        \<and> (\<exists>a data. published cat code = Some a
             \<and> get_object (pin_store w) (sa_bucket a) (sa_key a) = Inr data
             \<and> get_object (pin_store w') (object_bucket p) (object_key p) = Inr data))"
proof (intro conjI allI impI)
  fix p assume "current_pin (pins w) code = Some p"
  with run show "res = Some p" "w' = w" by (simp_all add: ensure_schema_pin_def)
next
  fix p assume a: "current_pin (pins w) code = None \<and> res = Some p"
  with run obtain a where a': "published cat code = Some a"
    "write_pin H cfg known s code (Some u) now a w = (Inr p, w')"
    by (auto simp: ensure_schema_pin_def split: option.splits prod.splits sum.splits)
  have "\<forall>r\<in>set (pins w). \<not> (pin_doc_type r = code \<and> pin_release r = sa_release a)"
    using a by (auto simp: current_pin_def current_row_def filter_empty_conv)
  note wr = write_pin_fresh[OF a'(2) this clock]
  have cur: "map_of (releases cat) (sa_release a) = Some ''CURRENT''"
    using a'(1) by (auto simp: published_def find_Some_iff)
  show "current_pin (pins w') code = Some p" using wr by simp
  show "map_of (releases cat) (release_version p) = Some ''CURRENT''" using wr cur by simp
  show "bucket_name s (bucket_prefix cfg) = Inr (object_bucket p)" using wr by blast
  show "\<exists>a data. published cat code = Some a
      \<and> get_object (pin_store w) (sa_bucket a) (sa_key a) = Inr data
      \<and> get_object (pin_store w') (object_bucket p) (object_key p) = Inr data"
    using wr a'(1) by blast
qed

definition demo_catalogue :: "string \<Rightarrow> catalogue" where
  "demo_catalogue v = \<lparr>releases = [(v, ''CURRENT'')],
     artifacts = [\<lparr>sa_release = v, sa_bucket = ''p'', sa_key = v, sa_doc_type = Some ''GSTR_2B'', sa_kind = ''SCHEMA''\<rparr>]\<rparr>"

definition demo_store :: s3 where
  "demo_store = \<lparr>buckets = [(''p'', False), (''x-acme'', True)],
     objects = map (\<lambda>v. ((''p'', v), \<lparr>body = v, locked_until = None, metadata = []\<rparr>)) [''v1'', ''v2'']\<rparr>"

definition demo_pin_row :: "nat \<Rightarrow> string \<Rightarrow> pin_row" where
  "demo_pin_row i v = \<lparr>pin_id = i, pin_doc_type = ''GSTR_2B'', pin_release = v, pinned_by = None,
     pin_sha256 = v, pin_bucket = ''x-acme'', pin_key = v, pinned_at = i\<rparr>"

definition demo_config :: store_config where
  "demo_config = \<lparr>bucket_prefix = ''x'', retention_days = 2190\<rparr>"

lemma demo_names:
  "validate_slug ''acme'' = Inr ''acme''" "bucket_name ''acme'' ''x'' = Inr ''x-acme''"
  by code_simp+

lemma demo_published:
  "published (demo_catalogue ''v1'') ''GSTR_2B'' = Some
     \<lparr>sa_release = ''v1'', sa_bucket = ''p'', sa_key = ''v1'', sa_doc_type = Some ''GSTR_2B'', sa_kind = ''SCHEMA''\<rparr>"
  by (simp add: published_def demo_catalogue_def)

lemma demo_snapshot:
  "\<exists>so st. put_schema_snapshot id demo_config ''acme'' ''v1'' ''GSTR_2B'' ''v1'' 9 demo_store = Inr (so, st)
     \<and> so_bucket so = ''x-acme'' \<and> so_key so = ''schema/v1/GSTR_2B.json''"
  by (simp add: put_schema_snapshot_def demo_config_def demo_names put_object_def demo_store_def
      snapshot_key_def Let_def)

lemma demo_object: "get_object demo_store ''p'' ''v1'' = Inr ''v1''"
  by (simp add: get_object_def demo_store_def)

lemma demo_roll:
  assumes "map_option release_version (current_pin (pins w) ''GSTR_2B'') \<noteq> Some ''v1''"
    and "pin_store w = demo_store"
  shows "fst (roll_forward id demo_config (\<lambda>u. False) (demo_catalogue ''v1'') ''acme'' ''GSTR_2B'' 9 w)
    = Inr (Some \<lparr>doc_type_code = ''GSTR_2B'', release_version = ''v1'', object_bucket = ''x-acme'',
        object_key = ''schema/v1/GSTR_2B.json''\<rparr>)"
  using demo_snapshot assms
  by (auto simp: roll_forward_def Let_def demo_published write_pin_def insert_pin_def pin_of_row_def demo_object)

theorem ensure_pin_keeps_contract_witness:
  "current_pin (pins (snd (ensure_schema_pin id demo_config (\<lambda>u. True) (demo_catalogue ''v1'') ''acme''
       ''GSTR_2B'' 7 9 \<lparr>pins = [], pin_store = demo_store\<rparr>))) ''GSTR_2B''
   = fst (ensure_schema_pin id demo_config (\<lambda>u. True) (demo_catalogue ''v1'') ''acme''
       ''GSTR_2B'' 7 9 \<lparr>pins = [], pin_store = demo_store\<rparr>)"
proof -
  let ?e = "ensure_schema_pin id demo_config (\<lambda>u. True) (demo_catalogue ''v1'') ''acme''
       ''GSTR_2B'' 7 9 \<lparr>pins = [], pin_store = demo_store\<rparr>"
  have n: "current_pin (pins \<lparr>pins = [], pin_store = demo_store\<rparr>) ''GSTR_2B'' = None" by code_simp
  have "\<exists>p. fst ?e = Some p"
    using demo_snapshot n
    by (auto simp: ensure_schema_pin_def demo_published write_pin_def insert_pin_def demo_object Let_def)
  then obtain p where p: "fst ?e = Some p" ..
  have "?e = (fst ?e, snd ?e)" by simp
  from ensure_pin_keeps_contract[OF this] n p show ?thesis by auto
qed

text \<open>
  \<open>roll_forward\<close> moves a tenant to the CURRENT release when that release is new to it:
  afterwards the pin it returns is the pin in force. When the CURRENT release is one the tenant
  was pinned to before and has left, the call still returns a pin to that release, but the insert
  is skipped and the pin in force is what it was: the tenant cannot be moved back.
\<close>

theorem roll_forward_moves_or_stays:
  assumes run: "roll_forward H cfg known cat s code now w = (Inr (Some p), w')"
    and pub: "published cat code = Some a"
    and moved: "map_option release_version (current_pin (pins w) code) \<noteq> Some (sa_release a)"
    and clock: "\<forall>r\<in>set (pins w). pinned_at r \<le> now"
  shows "release_version p = sa_release a
   \<and> (if \<exists>r\<in>set (pins w). pin_doc_type r = code \<and> pin_release r = sa_release a
      then current_pin (pins w') code = current_pin (pins w) code
      else current_pin (pins w') code = Some p)"
proof -
  from run have wr: "write_pin H cfg known s code None now a w = (Inr p, w')"
    unfolding roll_forward_def Let_def pub option.simps if_not_P[OF moved]
    by (auto split: prod.splits sum.splits)
  show ?thesis
  proof (cases "\<exists>r\<in>set (pins w). pin_doc_type r = code \<and> pin_release r = sa_release a")
    case True
    then obtain r where "r \<in> set (pins w)" "pin_doc_type r = code" "pin_release r = sa_release a" by blast
    from write_pin_conflict[OF wr this] True show ?thesis by simp
  next
    case False
    with write_pin_fresh[OF wr _ clock] show ?thesis by auto
  qed
qed

theorem roll_forward_moves_or_stays_witness:
  "let w = \<lparr>pins = [demo_pin_row 1 ''v1'', demo_pin_row 2 ''v2''], pin_store = demo_store\<rparr>;
       r = roll_forward id demo_config (\<lambda>u. False) (demo_catalogue ''v1'') ''acme'' ''GSTR_2B'' 9 w
   in current_pin (pins (snd r)) ''GSTR_2B'' = Some (pin_of_row (demo_pin_row 2 ''v2''))
      \<and> (\<exists>p. fst r = Inr (Some p) \<and> release_version p = ''v1'')"
proof -
  let ?w = "\<lparr>pins = [demo_pin_row 1 ''v1'', demo_pin_row 2 ''v2''], pin_store = demo_store\<rparr>"
  let ?r = "roll_forward id demo_config (\<lambda>u. False) (demo_catalogue ''v1'') ''acme'' ''GSTR_2B'' 9 ?w"
  let ?p = "\<lparr>doc_type_code = ''GSTR_2B'', release_version = ''v1'', object_bucket = ''x-acme'',
     object_key = ''schema/v1/GSTR_2B.json''\<rparr>"
  let ?a = "\<lparr>sa_release = ''v1'', sa_bucket = ''p'', sa_key = ''v1'', sa_doc_type = Some ''GSTR_2B'', sa_kind = ''SCHEMA''\<rparr>"
  have 5: "current_pin (pins ?w) ''GSTR_2B'' = Some (pin_of_row (demo_pin_row 2 ''v2''))"
    by (simp add: current_pin_def current_row_def demo_pin_row_def newer_def)
  have 3: "map_option release_version (current_pin (pins ?w) ''GSTR_2B'') \<noteq> Some (sa_release ?a)"
    unfolding 5 by (simp add: pin_of_row_def demo_pin_row_def)
  have 1: "fst ?r = Inr (Some ?p)" by (rule demo_roll) (use 3 in simp_all)
  then have r: "?r = (Inr (Some ?p), snd ?r)" by (metis prod.collapse)
  have 2: "published (demo_catalogue ''v1'') ''GSTR_2B'' = Some ?a" by (rule demo_published)
  have 4: "\<forall>r\<in>set (pins ?w). pinned_at r \<le> 9" by (simp add: demo_pin_row_def)
  have 6: "\<exists>r\<in>set (pins ?w). pin_doc_type r = ''GSTR_2B'' \<and> pin_release r = sa_release ?a"
    by (simp add: demo_pin_row_def)
  show ?thesis
    using roll_forward_moves_or_stays[OF r 2 3 4] 1 5 6 by (simp add: Let_def)
qed

text \<open>
  Rolling forward a type the tenant has never been pinned to is not a no-op: when a schema is
  published for it and the writes succeed, the tenant is pinned to it.
\<close>

theorem roll_forward_pins_unpinned:
  assumes "roll_forward H cfg known cat s code now w = (Inr r, w')"
    and "published cat code = Some a" "pins w = []"
  shows "\<exists>p. r = Some p \<and> current_pin (pins w') code = Some p \<and> release_version p = sa_release a"
proof -
  have n: "current_pin (pins w) code = None" using assms(3) by (simp add: current_pin_def current_row_def)
  obtain p where p: "r = Some p" "write_pin H cfg known s code None now a w = (Inr p, w')"
    using assms(1,2) by (auto simp: roll_forward_def Let_def n split: prod.splits sum.splits)
  with write_pin_fresh[OF p(2)] assms(3) show ?thesis by simp
qed

theorem roll_forward_pins_unpinned_witness:
  "let r = roll_forward id demo_config (\<lambda>u. False) (demo_catalogue ''v1'') ''acme'' ''GSTR_2B'' 9
             \<lparr>pins = [], pin_store = demo_store\<rparr>
   in \<exists>p. current_pin (pins (snd r)) ''GSTR_2B'' = Some p \<and> release_version p = ''v1''"
proof -
  let ?w = "\<lparr>pins = [], pin_store = demo_store\<rparr>"
  let ?r = "roll_forward id demo_config (\<lambda>u. False) (demo_catalogue ''v1'') ''acme'' ''GSTR_2B'' 9 ?w"
  let ?p = "\<lparr>doc_type_code = ''GSTR_2B'', release_version = ''v1'', object_bucket = ''x-acme'',
     object_key = ''schema/v1/GSTR_2B.json''\<rparr>"
  let ?a = "\<lparr>sa_release = ''v1'', sa_bucket = ''p'', sa_key = ''v1'', sa_doc_type = Some ''GSTR_2B'', sa_kind = ''SCHEMA''\<rparr>"
  have "fst ?r = Inr (Some ?p)"
    by (rule demo_roll) (simp_all add: current_pin_def current_row_def)
  then have r: "?r = (Inr (Some ?p), snd ?r)" by (metis prod.collapse)
  have 2: "published (demo_catalogue ''v1'') ''GSTR_2B'' = Some ?a" by (rule demo_published)
  show ?thesis using roll_forward_pins_unpinned[OF r 2] by (simp add: Let_def)
qed

end
