(* ===== verification/Intake.thy ===== *)
theory Intake
  imports Errors
begin

text \<open>
  The intake gate of Bronze: \<open>src/src/bronze/filecheck.py\<close> (file shape) and
  \<open>src/src/bronze/scan.py\<close> (virus scan). The \<open>clamd\<close> daemon is a parameter: what it
  answers to the bytes it was sent, or nothing when the connection fails. The locale
  \<open>virus_scanner\<close> is the promise of \<open>VirusScanPort\<close>; both adapters interpret it.
\<close>

section \<open>filecheck.py\<close>

definition allowed_extensions :: "string list" where
  "allowed_extensions = [''csv'', ''json'', ''ndjson'', ''pdf'']"

definition default_max_upload_bytes :: nat where
  "default_max_upload_bytes = 200 * 1024 * 1024"

record file_check_result =
  ok :: bool
  reason :: "string option"

definition extension_of :: "string option \<Rightarrow> string" where
  "extension_of filename =
     (case filename of None \<Rightarrow> []
      | Some f \<Rightarrow> if f = [] \<or> CHR ''.'' \<notin> set f then [] else lower (last (split_on (CHR ''.'') f)))"

definition check_file :: "nat \<Rightarrow> string list \<Rightarrow> string option \<Rightarrow> bytes \<Rightarrow> file_check_result" where
  "check_file max_bytes allowed filename data =
     (if data = [] then \<lparr>ok = False, reason = Some ''file is empty''\<rparr>
      else if length data > max_bytes then
        \<lparr>ok = False, reason = Some (''file is '' @ nat_str (length data) @ '' bytes, exceeding the ''
            @ nat_str max_bytes @ ''-byte limit'')\<rparr>
      else let extension = extension_of filename in
        if extension \<notin> set allowed then
          \<lparr>ok = False, reason = Some (''file extension '' @ extension @ '' is not accepted'')\<rparr>
        else \<lparr>ok = True, reason = None\<rparr>)"

lemma check_file_ok_iff:
  "ok (check_file mx allowed f data) \<longleftrightarrow>
     data \<noteq> [] \<and> length data \<le> mx \<and> extension_of f \<in> set allowed"
  by (auto simp: check_file_def Let_def)

lemma check_file_reason: "reason (check_file mx allowed f data) = None \<longleftrightarrow> ok (check_file mx allowed f data)"
  by (auto simp: check_file_def Let_def)

section \<open>scan.py: framing\<close>

record scan_result =
  clean :: bool
  scanner :: string
  signature :: "string option"

definition chunk_bytes :: nat where
  "chunk_bytes = 8192"

text \<open>\<open>struct.pack("!L", n)\<close>.\<close>

definition pack_be32 :: "nat \<Rightarrow> bytes" where
  "pack_be32 n = map char_of [n div 2 ^ 24 mod 256, n div 2 ^ 16 mod 256, n div 2 ^ 8 mod 256, n mod 256]"

definition unpack_be32 :: "bytes \<Rightarrow> nat" where
  "unpack_be32 b = foldl (\<lambda>a c. 256 * a + ord c) 0 b"

function chunks_of :: "nat \<Rightarrow> bytes \<Rightarrow> bytes list" where
  "chunks_of k data =
     (if data = [] \<or> k = 0 then [] else take k data # chunks_of k (drop k data))"
  by pat_completeness auto
termination
  by (relation "measure (\<lambda>(k, d). length d)") auto

declare chunks_of.simps [simp del]

definition zinstream :: bytes where
  "zinstream = ''zINSTREAM'' @ [CHR 0x00]"

text \<open>\<open>_stream\<close>: everything it writes to the socket, in order.\<close>

definition stream_bytes :: "bytes \<Rightarrow> bytes" where
  "stream_bytes data =
     zinstream @ concat (map (\<lambda>c. pack_be32 (length c) @ c) (chunks_of chunk_bytes data)) @ pack_be32 0"

text \<open>
  The daemon's side of the INSTREAM protocol as documented: the command, then length-prefixed
  chunks up to the one of length zero. \<open>fuel\<close> bounds the number of chunks.
\<close>

fun read_chunks :: "nat \<Rightarrow> bytes \<Rightarrow> bytes option" where
  "read_chunks 0 s = None"
| "read_chunks (Suc fuel) s =
     (if length s < 4 then None
      else let n = unpack_be32 (take 4 s); r = drop 4 s in
        if n = 0 then (if r = [] then Some [] else None)
        else if length r < n then None
        else map_option ((@) (take n r)) (read_chunks fuel (drop n r)))"

definition clamd_receives :: "bytes \<Rightarrow> bytes option" where
  "clamd_receives s =
     (if starts_with zinstream s then read_chunks (length s) (drop (length zinstream) s) else None)"

lemma length_pack_be32 [simp]: "length (pack_be32 n) = 4"
  by (simp add: pack_be32_def)

lemma unpack_pack_be32:
  assumes "n < 2 ^ 32"
  shows "unpack_be32 (pack_be32 n) = n"
proof -
  have "n div 2 ^ 24 mod 256 = n div 2 ^ 24" using assms by simp
  then have "unpack_be32 (pack_be32 n)
      = 256 * (256 * (256 * (n div 2 ^ 24) + n div 2 ^ 16 mod 256) + n div 2 ^ 8 mod 256) + n mod 256"
    by (simp add: unpack_be32_def pack_be32_def ord_def)
  also have "\<dots> = 256 * (256 * (256 * (n div 256 div 256 div 256) + n div 256 div 256 mod 256)
      + n div 256 mod 256) + n mod 256"
    by (simp add: div_mult2_eq[symmetric])
  also have "\<dots> = n"
    by (simp only: mult_div_mod_eq)
  finally show ?thesis .
qed

lemma concat_chunks_of: "0 < k \<Longrightarrow> concat (chunks_of k d) = d"
proof (induction k d rule: chunks_of.induct)
  case (1 k d)
  then show ?case by (subst chunks_of.simps) simp
qed

lemma chunks_of_size: "c \<in> set (chunks_of k d) \<Longrightarrow> c \<noteq> [] \<and> length c \<le> k"
proof (induction k d rule: chunks_of.induct)
  case (1 k d)
  then show ?case by (subst (asm) (2) chunks_of.simps) (auto split: if_splits)
qed

lemma read_chunks_frames:
  assumes "\<forall>c\<in>set cs. c \<noteq> [] \<and> length c < 2 ^ 32" "length cs < fuel"
  shows "read_chunks fuel (concat (map (\<lambda>c. pack_be32 (length c) @ c) cs) @ pack_be32 0) = Some (concat cs)"
  using assms
proof (induction cs arbitrary: fuel)
  case Nil
  then show ?case using unpack_pack_be32[of 0] by (cases fuel) auto
next
  case (Cons c cs)
  then obtain m where "fuel = Suc m" "length cs < m" by (cases fuel) auto
  with Cons unpack_pack_be32[of "length c"] show ?case by (simp add: Let_def)
qed

section \<open>scan.py: the reply\<close>

fun contains :: "string \<Rightarrow> string \<Rightarrow> bool" where
  "contains p [] = (p = [])"
| "contains p (c # r) = (starts_with p (c # r) \<or> contains p r)"

definition strip_nul :: "bytes \<Rightarrow> bytes" where
  "strip_nul s = rev (dropWhile (\<lambda>c. c = CHR 0x00) (rev (dropWhile (\<lambda>c. c = CHR 0x00) s)))"

definition removeprefix :: "string \<Rightarrow> string \<Rightarrow> string" where
  "removeprefix p s = (if starts_with p s then drop (length p) s else s)"

definition removesuffix :: "string \<Rightarrow> string \<Rightarrow> string" where
  "removesuffix p s = (if p \<noteq> [] \<and> ends_with p s then take (length s - length p) s else s)"

definition parse_reply :: "bytes \<Rightarrow> exc + scan_result" where
  "parse_reply raw_reply =
     (let reply = strip (strip_nul raw_reply) in
      if ends_with ''OK'' reply then Inr \<lparr>clean = True, scanner = ''clamav'', signature = None\<rparr>
      else if contains ''FOUND'' reply then
        let sg = strip (removesuffix ''FOUND'' (removeprefix ''stream:'' reply)) in
        Inr \<lparr>clean = False, scanner = ''clamav'', signature = (if sg = [] then None else Some sg)\<rparr>
      else Inl (ScannerUnavailableError (''unrecognised clamd reply: '' @ reply)))"

datatype scanner_adapter = NullScanner | ClamAVScanner

definition null_scan :: "bytes \<Rightarrow> exc + scan_result" where
  "null_scan data = Inr \<lparr>clean = True, scanner = ''none'', signature = None\<rparr>"

text \<open>\<open>clamd\<close> answers the bytes of one connection, \<open>None\<close> for an \<open>OSError\<close>.\<close>

definition clamav_scan :: "(bytes \<Rightarrow> bytes option) \<Rightarrow> bytes \<Rightarrow> exc + scan_result" where
  "clamav_scan clamd data =
     (case clamd (stream_bytes data) of
        None \<Rightarrow> Inl (ScannerUnavailableError ''clamd unreachable'')
      | Some raw_reply \<Rightarrow> parse_reply raw_reply)"

definition scan_with :: "(bytes \<Rightarrow> bytes option) \<Rightarrow> scanner_adapter \<Rightarrow> bytes \<Rightarrow> exc + scan_result" where
  "scan_with clamd a = (case a of NullScanner \<Rightarrow> null_scan | ClamAVScanner \<Rightarrow> clamav_scan clamd)"

definition build_scanner :: "string \<Rightarrow> exc + scanner_adapter" where
  "build_scanner provider =
     (if provider = ''none'' then Inr NullScanner
      else if provider = ''clamav'' then Inr ClamAVScanner
      else Inl (ValueError (''unknown virus_scan_provider '' @ provider)))"

section \<open>The scanner port\<close>

text \<open>
  The scan step of \<open>receive\<close>: a dirty verdict refuses the file, and a scanner that could not
  scan fails the upload.
\<close>

definition scan_gate :: "(bytes \<Rightarrow> exc + scan_result) \<Rightarrow> bytes \<Rightarrow> exc + unit" where
  "scan_gate scan data =
     rbind (scan data) (\<lambda>r.
       if clean r then Inr ()
       else Inl (IntakeRejected (''virus scan ('' @ scanner r @ '') flagged this file''
         @ (case signature r of None \<Rightarrow> [] | Some s \<Rightarrow> if s = [] then [] else '': '' @ s))))"

locale virus_scanner =
  fixes scan :: "bytes \<Rightarrow> exc + scan_result"
  assumes only_infrastructure_raises: "scan d = Inl e \<Longrightarrow> \<exists>m. e = ScannerUnavailableError m"
begin

lemma gate_errors:
  "scan_gate scan d = Inl e \<Longrightarrow> (\<exists>m. e = ScannerUnavailableError m) \<or> (\<exists>m. e = IntakeRejected m)"
  by (auto simp: scan_gate_def rbind_eq_Inl_iff dest: only_infrastructure_raises split: if_splits)

lemma gate_passes: "scan_gate scan d = Inr u \<longleftrightarrow> (\<exists>r. scan d = Inr r \<and> clean r)"
  by (auto simp: scan_gate_def rbind_eq_Inr_iff split: if_splits)

end

lemma parse_reply_errors: "parse_reply r = Inl e \<Longrightarrow> \<exists>m. e = ScannerUnavailableError m"
  by (auto simp: parse_reply_def Let_def split: if_splits)

interpretation null_port: virus_scanner null_scan
  by unfold_locales (simp add: null_scan_def)

interpretation clamav_port: virus_scanner "clamav_scan clamd" for clamd
  by unfold_locales (auto simp: clamav_scan_def dest: parse_reply_errors split: option.splits)

interpretation adapter_port: virus_scanner "scan_with clamd a" for clamd a
  by (cases a) (simp_all add: scan_with_def null_port.virus_scanner_axioms clamav_port.virus_scanner_axioms)

section \<open>Properties\<close>

lemma length_chunks_of: "length cs \<le> length (concat (map (\<lambda>c. pack_be32 (length c) @ c) cs))"
  by (induction cs) auto

lemma contains_append: "contains p (a @ p @ b)"
proof (induction a)
  case Nil
  have "starts_with p (p @ b)" by (simp add: starts_with_def)
  then show ?case by (cases "p @ b") (auto simp: starts_with_def)
qed simp

lemma dropWhile_hd: "\<not> P (hd s) \<Longrightarrow> dropWhile P s = s"
  by (cases s) auto

lemma strip_nul_id:
  "s \<noteq> [] \<Longrightarrow> hd s \<noteq> CHR 0x00 \<Longrightarrow> last s \<noteq> CHR 0x00 \<Longrightarrow> strip_nul (s @ [CHR 0x00]) = s"
  by (simp add: strip_nul_def dropWhile_hd hd_rev)

lemma strip_pad: "trimmed s \<Longrightarrow> s \<noteq> [] \<Longrightarrow> is_space c \<Longrightarrow> is_space d \<Longrightarrow> strip (c # s @ [d]) = s"
  by (auto simp: strip_def lstrip_def rstrip_def trimmed_def dropWhile_hd hd_rev hd_append
      rev_swap)

lemma space_is_space: "is_space (CHR '' '')"
  by (simp add: is_space_def ord_def)

lemma parse_reply_found:
  assumes "trimmed name" "name \<noteq> []"
  shows "parse_reply (''stream: '' @ name @ '' FOUND'' @ [CHR 0x00])
    = Inr \<lparr>clean = False, scanner = ''clamav'', signature = Some name\<rparr>"
proof -
  let ?r = "''stream: '' @ name @ '' FOUND''"
  have "strip (strip_nul (?r @ [CHR 0x00])) = ?r"
    using strip_nul_id[of ?r] by (simp add: strip_trimmed trimmed_def char_class_defs)
  moreover have "\<not> ends_with ''OK'' ?r"
    by (simp add: ends_with_def starts_with_def)
  moreover have "contains ''FOUND'' ?r"
    using contains_append[of "''FOUND''" "''stream: '' @ name @ '' ''" "[]"] by simp
  moreover have "removesuffix ''FOUND'' (removeprefix ''stream:'' ?r) = CHR '' '' # name @ [CHR '' '']"
    by (simp add: removesuffix_def removeprefix_def ends_with_def starts_with_def)
  ultimately show ?thesis
    using assms by (simp add: parse_reply_def Let_def strip_pad space_is_space)
qed

text \<open>
  The bytes the adapter streams are the bytes the daemon scans: a reader of the INSTREAM
  protocol recovers exactly the file from what the adapter sends, for a file of any size.
\<close>

theorem stream_bytes_roundtrip: "clamd_receives (stream_bytes data) = Some data"
proof -
  let ?cs = "chunks_of chunk_bytes data"
  have sz: "\<forall>c\<in>set ?cs. c \<noteq> [] \<and> length c < 2 ^ 32"
    using chunks_of_size by (fastforce simp: chunk_bytes_def)
  have "length ?cs < length (stream_bytes data)"
    using length_chunks_of[of ?cs] by (simp add: stream_bytes_def zinstream_def)
  from read_chunks_frames[OF sz this] show ?thesis
    by (simp add: clamd_receives_def stream_bytes_def starts_with_def concat_chunks_of chunk_bytes_def)
qed

text \<open>
  The scanner never passes a file it could not scan: when the daemon cannot be reached or its
  reply is neither of the two the adapter knows, the scan step fails with
  \<open>ScannerUnavailableError\<close>; a reply \<open>stream: <name> FOUND\<close> refuses the file and names the
  threat; only a reply that ends in OK lets it through.
\<close>

theorem clamav_verdicts:
  "(clamd (stream_bytes data) = None
      \<longrightarrow> (\<exists>m. scan_gate (clamav_scan clamd) data = Inl (ScannerUnavailableError m)))
   \<and> (\<forall>name. clamd (stream_bytes data) = Some (''stream: '' @ name @ '' FOUND'' @ [CHR 0x00])
        \<and> trimmed name \<and> name \<noteq> []
      \<longrightarrow> scan_gate (clamav_scan clamd) data
        = Inl (IntakeRejected (''virus scan (clamav) flagged this file: '' @ name)))
   \<and> (scan_gate (clamav_scan clamd) data = Inr ()
      \<longrightarrow> (\<exists>raw. clamd (stream_bytes data) = Some raw \<and> ends_with ''OK'' (strip (strip_nul raw))))"
proof (intro conjI allI impI)
  show "\<exists>m. scan_gate (clamav_scan clamd) data = Inl (ScannerUnavailableError m)"
    if "clamd (stream_bytes data) = None"
    using that by (simp add: scan_gate_def clamav_scan_def)
next
  fix name
  assume "clamd (stream_bytes data) = Some (''stream: '' @ name @ '' FOUND'' @ [CHR 0x00])
    \<and> trimmed name \<and> name \<noteq> []"
  then show "scan_gate (clamav_scan clamd) data
      = Inl (IntakeRejected (''virus scan (clamav) flagged this file: '' @ name))"
    using parse_reply_found[of name] by (simp add: scan_gate_def clamav_scan_def)
next
  assume "scan_gate (clamav_scan clamd) data = Inr ()"
  then obtain r where "clamav_scan clamd data = Inr r" "clean r"
    using clamav_port.gate_passes by blast
  then show "\<exists>raw. clamd (stream_bytes data) = Some raw \<and> ends_with ''OK'' (strip (strip_nul raw))"
    by (auto simp: clamav_scan_def parse_reply_def Let_def split: option.splits if_splits)
qed

theorem clamav_verdicts_witness:
  "scan_gate (clamav_scan (\<lambda>s. Some (''stream: Eicar FOUND'' @ [CHR 0x00]))) ''x''
    = Inl (IntakeRejected ''virus scan (clamav) flagged this file: Eicar'')"
  using clamav_verdicts[of "\<lambda>s. Some (''stream: Eicar FOUND'' @ [CHR 0x00])" "''x''"]
  by (simp add: trimmed_def char_class_defs)

end
