(* ===== verification/Bronze.thy ===== *)
theory Bronze
  imports SchemaPin Intake
begin

text \<open>
  \<open>src/src/bronze/service.py\<close>: receiving an artefact, re-reading it, and the ledger lookup the
  dispatcher uses, over the ledger table of tenant migration 001 (unique ingest id, unique content
  hash, two foreign keys into the vocabulary) and the object store. \<open>receive\<close> is several
  transactions with a scan and a store write between them, so it is modelled twice: as one
  function in the source's order, and as the steps between which other uploads of the same tenant
  may run; \<open>receive_is_run\<close> shows the two agree. The random ingest id is part of the request.
\<close>

section \<open>State\<close>

record ledger_row =
  lr_ingest_id :: uuid
  lr_entity_id :: uuid
  lr_doc_type :: string
  lr_source_stream :: string
  lr_received_at :: instant
  lr_content_hash :: bytes
  lr_object_key :: string
  lr_object_bucket :: string
  lr_size_bytes :: nat
  lr_filename :: "string option"
  lr_received_from :: string

record bronze_world =
  ledger :: "ledger_row list"
  bpins :: "pin_row list"
  bstore :: s3

text \<open>What a service is built with, and the reference data its transactions read.\<close>

record bronze_env =
  env_slug :: string
  env_prefix :: string
  env_store :: store_config
  env_scan :: "bytes \<Rightarrow> exc + scan_result"
  env_max_bytes :: nat
  env_extensions :: "string list"
  env_digest :: "bytes \<Rightarrow> bytes"
  env_registry :: "(string \<times> bool) list"
  env_vocabulary :: "(string \<times> string) list"
  env_catalogue :: catalogue

record request =
  rq_ingest_id :: uuid
  rq_entity_id :: uuid
  rq_data :: bytes
  rq_doc_type :: string
  rq_source_stream :: string
  rq_filename :: "string option"
  rq_received_from :: string
  rq_received_at :: instant
  rq_pin_time :: instant

record receipt =
  rc_ingest_id :: uuid
  rc_content_hash :: bytes
  rc_bucket :: string
  rc_object_key :: string
  rc_size_bytes :: nat
  deduplicated :: bool

record ledger_entry =
  le_entity_id :: uuid
  le_doc_type :: string
  le_filename :: "string option"

section \<open>Pieces of receive\<close>

definition check_document_type_in_scope :: "(string \<times> bool) list \<Rightarrow> string \<Rightarrow> exc + unit" where
  "check_document_type_in_scope registry t =
     (case map_of registry t of
        None \<Rightarrow> Inl (IntakeRejected (''document_type '' @ t @ '' is not a recognised document type''))
      | Some in_scope \<Rightarrow>
          if \<not> in_scope then Inl (IntakeRejected (''document_type '' @ t @ '' is out of scope for this platform''))
          else Inr ())"

definition find_hash :: "bytes \<Rightarrow> ledger_row list \<Rightarrow> ledger_row option" where
  "find_hash h = List.find (\<lambda>r. lr_content_hash r = h)"

definition dedup_receipt :: "bytes \<Rightarrow> ledger_row \<Rightarrow> receipt" where
  "dedup_receipt h r = \<lparr>rc_ingest_id = lr_ingest_id r, rc_content_hash = h, rc_bucket = lr_object_bucket r,
     rc_object_key = lr_object_key r, rc_size_bytes = lr_size_bytes r, deduplicated = True\<rparr>"

definition suffix_of :: "string option \<Rightarrow> string" where
  "suffix_of filename =
     (case filename of None \<Rightarrow> ''bin''
      | Some f \<Rightarrow> if f \<noteq> [] \<and> CHR ''.'' \<in> set f then last (split_on (CHR ''.'') f) else ''bin'')"

text \<open>The gate up to the scan: an error, the receipt of content already held, or go on.\<close>

definition admit :: "bronze_env \<Rightarrow> request \<Rightarrow> ledger_row list \<Rightarrow> exc + receipt option" where
  "admit env rq rows =
     (let check = check_file (env_max_bytes env) (env_extensions env) (rq_filename rq) (rq_data rq) in
      if \<not> ok check then Inl (IntakeRejected (case reason check of Some m \<Rightarrow> m | None \<Rightarrow> []))
      else rbind (check_document_type_in_scope (env_registry env) (rq_doc_type rq)) (\<lambda>_.
        let h = env_digest env (rq_data rq) in
        case find_hash h rows of
          Some r \<Rightarrow> Inr (Some (dedup_receipt h r))
        | None \<Rightarrow> rbind (scan_gate (env_scan env) (rq_data rq)) (\<lambda>_. Inr None)))"

definition store_object :: "bronze_env \<Rightarrow> request \<Rightarrow> s3 \<Rightarrow> exc + stored_object \<times> s3" where
  "store_object env rq st =
     put_bronze (env_digest env) (env_store env) (env_slug env) (uuid_str (rq_ingest_id rq)) (rq_data rq)
       (suffix_of (rq_filename rq)) (rq_received_at rq) st"

definition row_of :: "bronze_env \<Rightarrow> request \<Rightarrow> stored_object \<Rightarrow> ledger_row" where
  "row_of env rq so = \<lparr>lr_ingest_id = rq_ingest_id rq, lr_entity_id = rq_entity_id rq,
     lr_doc_type = rq_doc_type rq, lr_source_stream = rq_source_stream rq,
     lr_received_at = rq_received_at rq, lr_content_hash = env_digest env (rq_data rq),
     lr_object_key = so_key so, lr_object_bucket = so_bucket so, lr_size_bytes = so_size so,
     lr_filename = rq_filename rq, lr_received_from = rq_received_from rq\<rparr>"

text \<open>The insert: unique indexes first, foreign keys at the end of the statement.\<close>

definition insert_ledger ::
  "(string \<times> string) list \<Rightarrow> ledger_row \<Rightarrow> ledger_row list \<Rightarrow> exc + ledger_row list" where
  "insert_ledger vocabulary row rows =
     (if \<exists>r\<in>set rows. lr_ingest_id r = lr_ingest_id row then Inl (UniqueViolation ''artefact_ledger_pkey'')
      else if \<exists>r\<in>set rows. lr_content_hash r = lr_content_hash row
        then Inl (UniqueViolation ''artefact_ledger_content_hash_uq'')
      else if (''Document_Type'', lr_doc_type row) \<notin> set vocabulary
          \<or> (''Source_Stream'', lr_source_stream row) \<notin> set vocabulary
        then Inl (ForeignKeyViolation ''artefact_ledger'')
      else Inr (rows @ [row]))"

definition receipt_of :: "bronze_env \<Rightarrow> request \<Rightarrow> stored_object \<Rightarrow> receipt" where
  "receipt_of env rq so = \<lparr>rc_ingest_id = rq_ingest_id rq, rc_content_hash = env_digest env (rq_data rq),
     rc_bucket = so_bucket so, rc_object_key = so_key so, rc_size_bytes = so_size so, deduplicated = False\<rparr>"

definition pin_release_for :: "bronze_env \<Rightarrow> request \<Rightarrow> bronze_world \<Rightarrow> bronze_world" where
  "pin_release_for env rq w =
     (case ensure_schema_pin (env_digest env) (env_store env)
             (\<lambda>u. \<exists>r\<in>set (ledger w). lr_ingest_id r = u) (env_catalogue env) (env_slug env)
             (rq_doc_type rq) (rq_ingest_id rq) (rq_pin_time rq)
             \<lparr>pins = bpins w, pin_store = bstore w\<rparr> of
        (_, pw) \<Rightarrow> w\<lparr>bpins := pins pw, bstore := pin_store pw\<rparr>)"

definition reread :: "bronze_env \<Rightarrow> request \<Rightarrow> ledger_row list \<Rightarrow> exc + receipt" where
  "reread env rq rows =
     (let h = env_digest env (rq_data rq) in
      case find_hash h rows of None \<Rightarrow> Inl AssertionError | Some r \<Rightarrow> Inr (dedup_receipt h r))"

section \<open>receive, fetch, ledger_entry\<close>

definition is_unique_violation :: "exc \<Rightarrow> bool" where
  "is_unique_violation e = (case e of UniqueViolation _ \<Rightarrow> True | _ \<Rightarrow> False)"

text \<open>One upload with nothing else running: the result and the world it leaves.\<close>

definition receive :: "bronze_env \<Rightarrow> request \<Rightarrow> bronze_world \<Rightarrow> (exc + receipt) \<times> bronze_world" where
  "receive env rq w =
     (case admit env rq (ledger w) of
        Inl e \<Rightarrow> (Inl e, w)
      | Inr (Some rc) \<Rightarrow> (Inr rc, w)
      | Inr None \<Rightarrow>
          (case store_object env rq (bstore w) of
             Inl e \<Rightarrow> (Inl e, w)
           | Inr (so, st) \<Rightarrow>
               (let w1 = w\<lparr>bstore := st\<rparr> in
                case insert_ledger (env_vocabulary env) (row_of env rq so) (ledger w1) of
                  Inl e \<Rightarrow>
                    (if is_unique_violation e then (reread env rq (ledger w1), w1) else (Inl e, w1))
                | Inr rows \<Rightarrow>
                    (Inr (receipt_of env rq so), pin_release_for env rq (w1\<lparr>ledger := rows\<rparr>)))))"

definition find_ingest :: "uuid \<Rightarrow> ledger_row list \<Rightarrow> ledger_row option" where
  "find_ingest u = List.find (\<lambda>r. lr_ingest_id r = u)"

definition fetch :: "bronze_env \<Rightarrow> uuid \<Rightarrow> bronze_world \<Rightarrow> exc + bytes" where
  "fetch env u w =
     (case find_ingest u (ledger w) of
        None \<Rightarrow> Inl (KeyError ''no bronze artefact'')
      | Some r \<Rightarrow>
          rbind (bucket_name (env_slug env) (env_prefix env)) (\<lambda>expected.
            if lr_object_bucket r \<noteq> expected then Inl (PermissionError (lr_object_bucket r))
            else get_object (bstore w) (lr_object_bucket r) (lr_object_key r)))"

definition ledger_entry_of :: "uuid \<Rightarrow> bronze_world \<Rightarrow> exc + ledger_entry" where
  "ledger_entry_of u w =
     (case find_ingest u (ledger w) of
        None \<Rightarrow> Inl (KeyError ''no bronze artefact'')
      | Some r \<Rightarrow> Inr \<lparr>le_entity_id = lr_entity_id r, le_doc_type = lr_doc_type r, le_filename = lr_filename r\<rparr>)"

section \<open>receive in steps\<close>

datatype phase =
    Start request
  | Admitted request
  | Stored request stored_object
  | Indexed request stored_object
  | LostRace request
  | Finished "exc + receipt"

fun client_step :: "bronze_env \<Rightarrow> phase \<Rightarrow> bronze_world \<Rightarrow> phase \<times> bronze_world" where
  "client_step env (Start rq) w =
     (case admit env rq (ledger w) of
        Inl e \<Rightarrow> (Finished (Inl e), w)
      | Inr (Some rc) \<Rightarrow> (Finished (Inr rc), w)
      | Inr None \<Rightarrow> (Admitted rq, w))"
| "client_step env (Admitted rq) w =
     (case store_object env rq (bstore w) of
        Inl e \<Rightarrow> (Finished (Inl e), w)
      | Inr (so, st) \<Rightarrow> (Stored rq so, w\<lparr>bstore := st\<rparr>))"
| "client_step env (Stored rq so) w =
     (case insert_ledger (env_vocabulary env) (row_of env rq so) (ledger w) of
        Inl e \<Rightarrow> (if is_unique_violation e then LostRace rq else Finished (Inl e), w)
      | Inr rows \<Rightarrow> (Indexed rq so, w\<lparr>ledger := rows\<rparr>))"
| "client_step env (Indexed rq so) w = (Finished (Inr (receipt_of env rq so)), pin_release_for env rq w)"
| "client_step env (LostRace rq) w = (Finished (reread env rq (ledger w)), w)"
| "client_step env (Finished r) w = (Finished r, w)"

fun run_client :: "nat \<Rightarrow> bronze_env \<Rightarrow> phase \<Rightarrow> bronze_world \<Rightarrow> phase \<times> bronze_world" where
  "run_client 0 env p w = (p, w)"
| "run_client (Suc n) env p w = (case client_step env p w of (p', w') \<Rightarrow> run_client n env p' w')"

lemma run_client_Finished [simp]: "run_client n env (Finished r) w = (Finished r, w)"
  by (induction n) simp_all

text \<open>Concurrent uploads to one tenant: any unfinished client takes the next step.\<close>

record system =
  world :: bronze_world
  clients :: "phase list"

inductive upload_step :: "bronze_env \<Rightarrow> system \<Rightarrow> system \<Rightarrow> bool" for env where
  step: "i < length (clients s) \<Longrightarrow> clients s ! i = p \<Longrightarrow> (\<forall>r. p \<noteq> Finished r)
    \<Longrightarrow> client_step env p (world s) = (p', w')
    \<Longrightarrow> upload_step env s (s\<lparr>world := w', clients := (clients s)[i := p']\<rparr>)"

inductive uploads :: "bronze_env \<Rightarrow> system \<Rightarrow> system \<Rightarrow> bool" for env where
  none: "uploads env s s"
| more: "uploads env s t \<Longrightarrow> upload_step env t u \<Longrightarrow> uploads env s u"

inductive_cases upload_stepE: "upload_step env s t"

section \<open>What every reachable state satisfies\<close>

definition vetted :: "bronze_env \<Rightarrow> request \<Rightarrow> bool" where
  "vetted env rq \<longleftrightarrow>
     ok (check_file (env_max_bytes env) (env_extensions env) (rq_filename rq) (rq_data rq))
     \<and> map_of (env_registry env) (rq_doc_type rq) = Some True
     \<and> (\<exists>v. env_scan env (rq_data rq) = Inr v \<and> clean v)"

definition stored_ok :: "bronze_env \<Rightarrow> s3 \<Rightarrow> request \<Rightarrow> stored_object \<Rightarrow> bool" where
  "stored_ok env st rq so \<longleftrightarrow> rq_ingest_id rq < 2 ^ 128 \<and> so_size so = length (rq_data rq)
     \<and> bucket_name (env_slug env) (bucket_prefix (env_store env)) = Inr (so_bucket so)
     \<and> so_key so = bronze_key (rq_received_at rq) (uuid_str (rq_ingest_id rq)) (suffix_of (rq_filename rq))
     \<and> get_object st (so_bucket so) (so_key so) = Inr (rq_data rq)"

definition row_ok :: "bronze_env \<Rightarrow> s3 \<Rightarrow> ledger_row \<Rightarrow> bool" where
  "row_ok env st r \<longleftrightarrow> (\<exists>rq so. r = row_of env rq so \<and> vetted env rq \<and> stored_ok env st rq so)"

definition ledger_ok :: "bronze_env \<Rightarrow> bronze_world \<Rightarrow> bool" where
  "ledger_ok env w \<longleftrightarrow> distinct (map lr_content_hash (ledger w)) \<and> distinct (map lr_ingest_id (ledger w))
     \<and> (\<forall>r\<in>set (ledger w). row_ok env (bstore w) r)"

definition receipt_ok :: "ledger_row list \<Rightarrow> receipt \<Rightarrow> bool" where
  "receipt_ok rows rc \<longleftrightarrow> (\<exists>r\<in>set rows. lr_ingest_id r = rc_ingest_id rc
     \<and> lr_content_hash r = rc_content_hash rc \<and> lr_object_bucket r = rc_bucket rc
     \<and> lr_object_key r = rc_object_key rc \<and> lr_size_bytes r = rc_size_bytes rc)"

fun phase_ok :: "bronze_env \<Rightarrow> bronze_world \<Rightarrow> phase \<Rightarrow> bool" where
  "phase_ok env w (Start rq) = True"
| "phase_ok env w (Admitted rq) = vetted env rq"
| "phase_ok env w (Stored rq so) = (vetted env rq \<and> stored_ok env (bstore w) rq so)"
| "phase_ok env w (Indexed rq so) = (row_of env rq so \<in> set (ledger w))"
| "phase_ok env w (LostRace rq) = (\<exists>r\<in>set (ledger w). lr_content_hash r = env_digest env (rq_data rq))"
| "phase_ok env w (Finished (Inr rc)) = receipt_ok (ledger w) rc"
| "phase_ok env w (Finished (Inl e)) = (e \<noteq> AssertionError \<and> \<not> is_unique_violation e)"

fun pending :: "phase \<Rightarrow> uuid option" where
  "pending (Start rq) = Some (rq_ingest_id rq)"
| "pending (Admitted rq) = Some (rq_ingest_id rq)"
| "pending (Stored rq so) = Some (rq_ingest_id rq)"
| "pending (Indexed rq so) = Some (rq_ingest_id rq)"
| "pending (LostRace rq) = Some (rq_ingest_id rq)"
| "pending (Finished r) = None"

fun pendings :: "phase list \<Rightarrow> uuid list" where
  "pendings [] = []"
| "pendings (p # ps) = (case pending p of None \<Rightarrow> pendings ps | Some a \<Rightarrow> a # pendings ps)"

text \<open>The ids a client has yet to write are not in the ledger.\<close>

fun unwritten :: "phase \<Rightarrow> uuid option" where
  "unwritten (Indexed rq so) = None"
| "unwritten (LostRace rq) = None"
| "unwritten p = pending p"

definition fresh :: "bronze_world \<Rightarrow> phase \<Rightarrow> bool" where
  "fresh w p \<longleftrightarrow> (\<forall>a. pending p = Some a \<longrightarrow> a < 2 ^ 128)
     \<and> (\<forall>a. unwritten p = Some a \<longrightarrow> a \<notin> lr_ingest_id ` set (ledger w))"

definition system_ok :: "bronze_env \<Rightarrow> system \<Rightarrow> bool" where
  "system_ok env s \<longleftrightarrow> ledger_ok env (world s)
     \<and> (\<forall>p\<in>set (clients s). phase_ok env (world s) p \<and> fresh (world s) p)
     \<and> distinct (pendings (clients s))"

section \<open>Frame lemmas\<close>

text \<open>What a step under ingest id \<open>a\<close> leaves alone.\<close>

definition keeps :: "uuid \<Rightarrow> bronze_world \<Rightarrow> bronze_world \<Rightarrow> bool" where
  "keeps a w w' \<longleftrightarrow>
     (\<forall>b t x c. c \<noteq> a \<and> c < 2 ^ 128 \<longrightarrow>
        get_object (bstore w') b (bronze_key t (uuid_str c) x) = get_object (bstore w) b (bronze_key t (uuid_str c) x))
     \<and> (\<exists>more. ledger w' = ledger w @ more \<and> (\<forall>r\<in>set more. lr_ingest_id r = a))"

lemma keeps_refl: "keeps a w w"
  by (simp add: keeps_def)

lemma store_object_Inr:
  assumes "store_object env rq st = Inr (so, st')" "rq_ingest_id rq < 2 ^ 128"
  shows "stored_ok env st' rq so"
    and "c \<noteq> rq_ingest_id rq \<Longrightarrow> c < 2 ^ 128 \<Longrightarrow>
      get_object st' b (bronze_key t (uuid_str c) x) = get_object st b (bronze_key t (uuid_str c) x)"
proof -
  from put_bronze_Inr[OF assms(1)[unfolded store_object_def]]
  obtain obj where o: "bucket_name (env_slug env) (bucket_prefix (env_store env)) = Inr (so_bucket so)"
    "so_key so = bronze_key (rq_received_at rq) (uuid_str (rq_ingest_id rq)) (suffix_of (rq_filename rq))"
    "so_size so = length (rq_data rq)" "body obj = rq_data rq"
    "put_object (so_bucket so) (so_key so) obj st = Inr st'" by blast
  show "stored_ok env st' rq so"
    using o assms(2) s3_store.get_put_same[OF o(5)] by (simp add: stored_ok_def)
  assume c: "c \<noteq> rq_ingest_id rq" "c < 2 ^ 128"
  then have "bronze_key t (uuid_str c) x \<noteq> so_key so"
    using bronze_key_inj[of t c x] o(2) assms(2) by metis
  then show "get_object st' b (bronze_key t (uuid_str c) x) = get_object st b (bronze_key t (uuid_str c) x)"
    using s3_store.get_put_other[OF o(5), of b "bronze_key t (uuid_str c) x"] by simp
qed

lemma write_pin_bronze_objects:
  assumes "write_pin H cfg known s code by now a w = (r, w')"
  shows "get_object (pin_store w') b (bronze_key t i x) = get_object (pin_store w) b (bronze_key t i x)"
proof (cases "rbind (get_object (pin_store w) (sa_bucket a) (sa_key a))
             (\<lambda>data. put_schema_snapshot H cfg s (sa_release a) code data now (pin_store w))")
  case (Inl e)
  with assms show ?thesis by (simp add: write_pin_def)
next
  case (Inr y)
  obtain so st where y: "y = (so, st)" by (cases y)
  with Inr obtain data where p: "put_schema_snapshot H cfg s (sa_release a) code data now (pin_store w) = Inr (so, st)"
    by (auto simp: rbind_eq_Inr_iff)
  from put_snapshot_Inr[OF p] have "get_object st b (bronze_key t i x) = get_object (pin_store w) b (bronze_key t i x)"
    using s3_store.get_put_other key_families(2) by (metis prod.inject)
  moreover have "pin_store w' = st"
    using assms Inr y by (auto simp: write_pin_def Let_def split: sum.splits)
  ultimately show ?thesis by simp
qed

lemma pin_release_for_frame:
  "ledger (pin_release_for env rq w) = ledger w"
  "get_object (bstore (pin_release_for env rq w)) b (bronze_key t i x) = get_object (bstore w) b (bronze_key t i x)"
proof -
  show "ledger (pin_release_for env rq w) = ledger w"
    by (simp add: pin_release_for_def split: prod.split)
  show "get_object (bstore (pin_release_for env rq w)) b (bronze_key t i x) = get_object (bstore w) b (bronze_key t i x)"
    using write_pin_bronze_objects
    by (fastforce simp: pin_release_for_def ensure_schema_pin_def
        split: prod.split option.split sum.split)
qed

lemma insert_ledger_Inr:
  "insert_ledger v row rows = Inr rows' \<Longrightarrow> rows' = rows @ [row]
     \<and> lr_ingest_id row \<notin> lr_ingest_id ` set rows \<and> lr_content_hash row \<notin> lr_content_hash ` set rows"
  by (auto simp: insert_ledger_def split: if_splits)

lemma insert_ledger_Inl:
  "insert_ledger v row rows = Inl e \<Longrightarrow> lr_ingest_id row \<notin> lr_ingest_id ` set rows \<Longrightarrow>
     (if is_unique_violation e then \<exists>r\<in>set rows. lr_content_hash r = lr_content_hash row
      else e = ForeignKeyViolation ''artefact_ledger'')"
  unfolding insert_ledger_def
  by (cases "\<exists>r\<in>set rows. lr_ingest_id r = lr_ingest_id row")
     (auto simp: is_unique_violation_def rev_image_eqI split: if_splits)

lemma client_step_keeps:
  assumes "client_step env p w = (p', w')" "pending p = Some a" "a < 2 ^ 128"
  shows "keeps a w w' \<and> (pending p' = None \<or> pending p' = Some a)"
proof (cases p)
  case (Start rq)
  with assms show ?thesis by (auto simp: keeps_refl split: sum.splits option.splits)
next
  case (Admitted rq)
  with assms show ?thesis
    by (auto simp: keeps_def store_object_Inr(2) split: sum.splits prod.splits)
next
  case (Stored rq so)
  with assms show ?thesis
    by (auto simp: keeps_def row_of_def dest: insert_ledger_Inr split: sum.splits if_splits)
next
  case (Indexed rq so)
  with assms show ?thesis by (auto simp: keeps_def pin_release_for_frame)
next
  case (LostRace rq)
  with assms show ?thesis by (auto simp: keeps_refl)
qed (use assms in auto)

lemma stored_ok_keeps:
  "stored_ok env (bstore w) rq so \<Longrightarrow> keeps a w w' \<Longrightarrow> rq_ingest_id rq \<noteq> a \<Longrightarrow> stored_ok env (bstore w') rq so"
  by (auto simp: stored_ok_def keeps_def)

lemma row_ok_keeps:
  assumes "row_ok env (bstore w) r" "keeps a w w'" "lr_ingest_id r \<noteq> a"
  shows "row_ok env (bstore w') r"
proof -
  from assms(1) obtain rq so where r: "r = row_of env rq so" "vetted env rq" "stored_ok env (bstore w) rq so"
    by (auto simp: row_ok_def)
  with assms(3) have "rq_ingest_id rq \<noteq> a" by (simp add: row_of_def)
  with r(3) assms(2) have "stored_ok env (bstore w') rq so"
    by (rule stored_ok_keeps)
  with r show ?thesis by (auto simp: row_ok_def)
qed

lemma phase_ok_keeps:
  assumes "phase_ok env w q" "keeps a w w'" "pending q \<noteq> Some a"
  shows "phase_ok env w' q"
proof -
  from assms(2) obtain more where m: "ledger w' = ledger w @ more" by (auto simp: keeps_def)
  show ?thesis
  proof (cases q)
    case (Stored rq so)
    with assms show ?thesis by (auto intro: stored_ok_keeps)
  next
    case (Finished r)
    with assms m show ?thesis by (cases r) (auto simp: receipt_ok_def)
  qed (use assms m in auto)
qed

section \<open>The invariant\<close>

lemma find_hash_Some: "find_hash h rows = Some r \<Longrightarrow> r \<in> set rows \<and> lr_content_hash r = h"
  by (auto simp: find_hash_def find_Some_iff)

lemma find_hash_None: "find_hash h rows = None \<longleftrightarrow> h \<notin> lr_content_hash ` set rows"
  by (auto simp: find_hash_def find_None_iff)

lemma dedup_receipt_ok: "find_hash h rows = Some r \<Longrightarrow> receipt_ok rows (dedup_receipt h r)"
  by (auto dest!: find_hash_Some simp: receipt_ok_def dedup_receipt_def)

lemma admit_errors:
  assumes "admit env rq rows = Inl e" "virus_scanner (env_scan env)"
  shows "(\<exists>m. e = IntakeRejected m) \<or> (\<exists>m. e = ScannerUnavailableError m)"
  using assms(1) virus_scanner.gate_errors[OF assms(2)]
  by (fastforce simp: admit_def Let_def rbind_eq_Inl_iff check_document_type_in_scope_def
      split: if_splits option.splits)

lemma admit_vetted: "admit env rq rows = Inr None \<Longrightarrow> vetted env rq"
  by (auto simp: admit_def Let_def rbind_eq_Inr_iff check_document_type_in_scope_def vetted_def
      scan_gate_def split: if_splits option.splits)

lemma admit_dedup: "admit env rq rows = Inr (Some rc) \<Longrightarrow> receipt_ok rows rc"
  by (auto simp: admit_def Let_def rbind_eq_Inr_iff dedup_receipt_ok split: if_splits option.splits)

lemma store_object_errors:
  "store_object env rq st = Inl e \<Longrightarrow> e \<noteq> AssertionError \<and> \<not> is_unique_violation e"
  by (auto simp: store_object_def put_bronze_def rbind_eq_Inl_iff Let_def put_object_def bucket_name_def
      validate_slug_def is_unique_violation_def split: if_splits)

lemma receipt_of_ok: "row_of env rq so \<in> set rows \<Longrightarrow> receipt_ok rows (receipt_of env rq so)"
  by (force simp: receipt_ok_def receipt_of_def row_of_def)

lemma client_step_phase_ok:
  assumes st: "client_step env p w = (p', w')" and pok: "phase_ok env w p" and fr: "fresh w p"
    and sc: "virus_scanner (env_scan env)"
  shows "phase_ok env w' p' \<and> fresh w' p'"
proof (cases p)
  case (Start rq)
  with st fr sc show ?thesis
    by (auto simp: fresh_def is_unique_violation_def dest: admit_errors admit_vetted admit_dedup
        split: sum.splits option.splits)
next
  case (Admitted rq)
  with st pok fr show ?thesis
    by (auto simp: fresh_def store_object_Inr(1) store_object_errors split: sum.splits prod.splits)
next
  case (Stored rq so)
  with fr have nin: "lr_ingest_id (row_of env rq so) \<notin> lr_ingest_id ` set (ledger w)"
    by (simp add: fresh_def row_of_def)
  show ?thesis
  proof (cases "insert_ledger (env_vocabulary env) (row_of env rq so) (ledger w)")
    case (Inl e)
    from insert_ledger_Inl[OF this nin] Inl st fr Stored show ?thesis
      by (auto simp: fresh_def row_of_def is_unique_violation_def split: if_splits)
  next
    case (Inr rows)
    with st fr Stored show ?thesis
      by (auto simp: fresh_def dest: insert_ledger_Inr)
  qed
next
  case (Indexed rq so)
  with st pok show ?thesis
    by (auto simp: fresh_def pin_release_for_frame intro: receipt_of_ok)
next
  case (LostRace rq)
  with pok have "find_hash (env_digest env (rq_data rq)) (ledger w) \<noteq> None"
    unfolding find_hash_None by (metis image_eqI phase_ok.simps(5))
  with LostRace st show ?thesis
    by (auto simp: fresh_def reread_def Let_def dedup_receipt_ok)
next
  case (Finished r)
  with st pok show ?thesis by (auto simp: fresh_def)
qed

lemma client_step_ledger_ok:
  assumes st: "client_step env p w = (p', w')" and pok: "phase_ok env w p" and fr: "fresh w p"
    and lok: "ledger_ok env w"
  shows "ledger_ok env w'"
proof (cases p)
  case (Admitted rq)
  show ?thesis
  proof (cases "store_object env rq (bstore w)")
    case (Inr y)
    with st Admitted have l: "ledger w' = ledger w"
      by (auto split: sum.splits prod.splits)
    have kp: "keeps (rq_ingest_id rq) w w'"
      using client_step_keeps[OF st, of "rq_ingest_id rq"] fr Admitted by (auto simp: fresh_def)
    have "row_ok env (bstore w') r" if "r \<in> set (ledger w)" for r
    proof (rule row_ok_keeps[OF _ kp])
      show "row_ok env (bstore w) r" using that lok by (simp add: ledger_ok_def)
      have "rq_ingest_id rq \<notin> lr_ingest_id ` set (ledger w)" using fr Admitted by (simp add: fresh_def)
      with that show "lr_ingest_id r \<noteq> rq_ingest_id rq" by (metis image_eqI)
    qed
    with l lok show ?thesis by (simp add: ledger_ok_def)
  qed (use st lok Admitted in auto)
next
  case (Stored rq so)
  show ?thesis
  proof (cases "insert_ledger (env_vocabulary env) (row_of env rq so) (ledger w)")
    case (Inl e)
    with st lok Stored show ?thesis by auto
  next
    case (Inr rows)
    have "row_ok env (bstore w) (row_of env rq so)"
      using pok Stored by (auto simp: row_ok_def)
    with Inr st lok Stored show ?thesis
      by (auto simp: ledger_ok_def dest!: insert_ledger_Inr)
  qed
next
  case (Indexed rq so)
  have "stored_ok env (bstore w') q so'" if "stored_ok env (bstore w) q so'" for q so'
    using that st Indexed by (auto simp: stored_ok_def pin_release_for_frame)
  then have "row_ok env (bstore w') r" if "row_ok env (bstore w) r" for r
    using that unfolding row_ok_def by blast
  with lok st Indexed show ?thesis by (auto simp: ledger_ok_def pin_release_for_frame)
qed (use st lok in \<open>auto split: sum.splits option.splits\<close>)

lemma pendings_append: "pendings (xs @ ys) = pendings xs @ pendings ys"
  by (induction xs) (auto split: option.split)

lemma pending_mem: "q \<in> set ps \<Longrightarrow> pending q = Some a \<Longrightarrow> a \<in> set (pendings ps)"
  by (induction ps) (auto split: option.split)

lemma distinct_pending_update:
  "distinct (pendings (xs @ p # ys)) \<Longrightarrow> pending q = None \<or> pending q = pending p
    \<Longrightarrow> distinct (pendings (xs @ q # ys))"
  by (auto simp: pendings_append split: option.splits)

lemma distinct_pending_other:
  assumes "distinct (pendings (xs @ p # ys))" "pending p = Some a" "q \<in> set xs \<union> set ys"
  shows "pending q \<noteq> Some a"
  using assms by (auto simp: pendings_append dest: pending_mem)

lemma upload_step_ok:
  assumes "upload_step env s t" "system_ok env s" "virus_scanner (env_scan env)"
  shows "system_ok env t"
proof -
  from assms(1) obtain i p' w' where il: "i < length (clients s)"
    and st: "client_step env (clients s ! i) (world s) = (p', w')"
    and t: "t = s\<lparr>world := w', clients := (clients s)[i := p']\<rparr>"
    and nf: "\<forall>r. clients s ! i \<noteq> Finished r"
    by (auto elim: upload_stepE)
  define p where "p = clients s ! i"
  define xs ys where "xs = take i (clients s)" and "ys = drop (Suc i) (clients s)"
  have cs: "clients s = xs @ p # ys" "clients t = xs @ p' # ys"
    using il by (simp_all add: xs_def ys_def p_def t id_take_nth_drop[symmetric] upd_conv_take_nth_drop)
  obtain a where a: "pending p = Some a" using nf unfolding p_def by (cases "clients s ! i") auto
  have ok: "phase_ok env (world s) q" "fresh (world s) q" if "q \<in> set (clients s)" for q
    using assms(2) that by (auto simp: system_ok_def)
  have okp: "phase_ok env (world s) p" "fresh (world s) p" using ok cs(1) by simp_all
  have st: "client_step env p (world s) = (p', w')" using st by (simp add: p_def)
  have lt: "a < 2 ^ 128" using okp(2) a by (simp add: fresh_def)
  note k = client_step_keeps[OF st a lt]
  have di: "distinct (pendings (xs @ p # ys))"
    using assms(2) cs(1) by (simp add: system_ok_def)
  from k obtain more where m: "ledger w' = ledger (world s) @ more" "\<forall>r\<in>set more. lr_ingest_id r = a"
    by (auto simp: keeps_def)
  have others: "phase_ok env w' q \<and> fresh w' q" if q: "q \<in> set xs \<union> set ys" for q
  proof
    have o: "pending q \<noteq> Some a" by (rule distinct_pending_other[OF di a q])
    have qs: "q \<in> set (clients s)" using q cs(1) by auto
    show "phase_ok env w' q" using phase_ok_keeps[OF ok(1)[OF qs]] k o by blast
    have "unwritten q \<noteq> Some a" using o by (cases q) auto
    then show "fresh w' q" using ok(2)[OF qs] m by (auto simp: fresh_def)
  qed
  have "ledger_ok env (world t)"
    using client_step_ledger_ok[OF st okp] assms(2) by (simp add: system_ok_def t)
  moreover have "phase_ok env w' p' \<and> fresh w' p'"
    by (rule client_step_phase_ok[OF st okp assms(3)])
  moreover have "distinct (pendings (clients t))"
    unfolding cs(2) using di k a by (intro distinct_pending_update[OF di]) auto
  ultimately show ?thesis
    using others unfolding system_ok_def cs(2) by (auto simp: t)
qed

lemma uploads_ok:
  "uploads env s t \<Longrightarrow> system_ok env s \<Longrightarrow> virus_scanner (env_scan env) \<Longrightarrow> system_ok env t"
  by (induction rule: uploads.induct) (auto intro: upload_step_ok)

lemma upload_step_appends: "upload_step env s t \<Longrightarrow> \<exists>more. ledger (world t) = ledger (world s) @ more"
proof (erule upload_stepE)
  fix i p p' w'
  assume "t = s\<lparr>world := w', clients := (clients s)[i := p']\<rparr>" "client_step env p (world s) = (p', w')"
  then show ?thesis
    by (cases p) (auto simp: pin_release_for_frame dest: insert_ledger_Inr
        split: sum.splits option.splits prod.splits)
qed

lemma uploads_append: "uploads env s t \<Longrightarrow> \<exists>more. ledger (world t) = ledger (world s) @ more"
  by (induction rule: uploads.induct) (auto dest!: upload_step_appends)

section \<open>receive is a run of its steps\<close>

lemma receive_run:
  "run_client 5 env (Start rq) w = (Finished (fst (receive env rq w)), snd (receive env rq w))"
proof -
  have five: "(5::nat) = Suc (Suc (Suc (Suc (Suc 0))))" by simp
  show ?thesis
    unfolding five receive_def
    by (auto simp: Let_def split: sum.split option.split prod.split)
qed

lemma uploads_trans: "uploads env t u \<Longrightarrow> uploads env s t \<Longrightarrow> uploads env s u"
  by (induction rule: uploads.induct) (auto intro: uploads.more)

lemma run_client_uploads:
  assumes "run_client n env (clients s ! i) (world s) = (p', w')" "i < length (clients s)"
  shows "uploads env s (s\<lparr>world := w', clients := (clients s)[i := p']\<rparr>)"
  using assms
proof (induction n arbitrary: s)
  case 0
  then show ?case by (auto intro: uploads.none)
next
  case (Suc n)
  show ?case
  proof (cases "\<exists>r. clients s ! i = Finished r")
    case True
    with Suc.prems have "s\<lparr>world := w', clients := (clients s)[i := p']\<rparr> = s" by auto
    then show ?thesis by (simp add: uploads.none)
  next
    case False
    obtain q v where q: "client_step env (clients s ! i) (world s) = (q, v)"
      by (cases "client_step env (clients s ! i) (world s)")
    let ?t = "s\<lparr>world := v, clients := (clients s)[i := q]\<rparr>"
    have "upload_step env s ?t"
      using False q Suc.prems(2) by (intro upload_step.step[of i s]) auto
    then have "uploads env s ?t" by (rule uploads.more[OF uploads.none])
    moreover have "uploads env ?t (?t\<lparr>world := w', clients := (clients ?t)[i := p']\<rparr>)"
      using Suc.prems q by (intro Suc.IH) simp_all
    ultimately show ?thesis by (auto intro: uploads_trans)
  qed
qed


fun rank :: "phase \<Rightarrow> nat" where
  "rank (Start rq) = 4"
| "rank (Admitted rq) = 3"
| "rank (Stored rq so) = 2"
| "rank (Indexed rq so) = 1"
| "rank (LostRace rq) = 1"
| "rank (Finished r) = 0"

lemma client_step_rank:
  "client_step env p w = (p', w') \<Longrightarrow> \<forall>r. p \<noteq> Finished r \<Longrightarrow> rank p' < rank p"
  by (cases p) (auto split: sum.splits option.splits prod.splits if_splits)

definition work_left :: "system \<Rightarrow> nat" where
  "work_left s = sum_list (map rank (clients s))"

lemma upload_step_rank: "upload_step env s t \<Longrightarrow> work_left t < work_left s"
proof -
  assume "upload_step env s t"
  then obtain i p p' w' where a: "t = s\<lparr>world := w', clients := (clients s)[i := p']\<rparr>" "i < length (clients s)"
    "clients s ! i = p" "\<forall>r. p \<noteq> Finished r" "client_step env p (world s) = (p', w')"
    by (auto elim: upload_stepE)
  have r: "rank p' < rank p" using client_step_rank a by blast
  have "clients s = take i (clients s) @ p # drop (Suc i) (clients s)"
    using a id_take_nth_drop[of i "clients s"] by simp
  then have "work_left s = sum_list (map rank (take i (clients s))) + rank p
      + sum_list (map rank (drop (Suc i) (clients s)))"
    unfolding work_left_def by (metis add.assoc list.simps(9) map_append sum_list.Cons sum_list.append)
  with a r show ?thesis
    by (simp add: work_left_def upd_conv_take_nth_drop)
qed

section \<open>Properties\<close>

text \<open>
  C3. However concurrent uploads to a tenant interleave, starting from a ledger in good order:
  no two ledger rows hold the same content or the same id; every row's object can be read back
  from the tenant's bucket, has the recorded hash and size, and passed the file check, the
  document-type check and the virus scan; no row that was there is changed or lost; every upload
  that returned a receipt was given a row of the ledger; and losing the race is never an error.
\<close>

theorem concurrent_uploads_safe:
  assumes run: "uploads env s t" and start: "ledger_ok env (world s)"
    and fresh_clients: "\<forall>p\<in>set (clients s). (\<exists>rq. p = Start rq) \<and> fresh (world s) p"
    and ids: "distinct (pendings (clients s))"
    and scan_port: "virus_scanner (env_scan env)"
  shows "distinct (map lr_content_hash (ledger (world t))) \<and> distinct (map lr_ingest_id (ledger (world t)))
    \<and> (\<exists>more. ledger (world t) = ledger (world s) @ more)
    \<and> (\<forall>r\<in>set (ledger (world t)). \<exists>rq. vetted env rq
         \<and> get_object (bstore (world t)) (lr_object_bucket r) (lr_object_key r) = Inr (rq_data rq)
         \<and> lr_content_hash r = env_digest env (rq_data rq) \<and> lr_size_bytes r = length (rq_data rq)
         \<and> bucket_name (env_slug env) (bucket_prefix (env_store env)) = Inr (lr_object_bucket r))
    \<and> (\<forall>res. Finished res \<in> set (clients t) \<longrightarrow>
         (case res of Inr rc \<Rightarrow> receipt_ok (ledger (world t)) rc
          | Inl e \<Rightarrow> e \<noteq> AssertionError \<and> \<not> is_unique_violation e))"
proof -
  have "system_ok env s"
    using start fresh_clients ids by (auto simp: system_ok_def)
  from uploads_ok[OF run this scan_port] have t: "system_ok env t" .
  then have l: "ledger_ok env (world t)" by (simp add: system_ok_def)
  have rows: "\<exists>rq. vetted env rq
         \<and> get_object (bstore (world t)) (lr_object_bucket r) (lr_object_key r) = Inr (rq_data rq)
         \<and> lr_content_hash r = env_digest env (rq_data rq) \<and> lr_size_bytes r = length (rq_data rq)
         \<and> bucket_name (env_slug env) (bucket_prefix (env_store env)) = Inr (lr_object_bucket r)"
    if r: "r \<in> set (ledger (world t))" for r
  proof -
    from r l obtain rq so where "r = row_of env rq so" "vetted env rq" "stored_ok env (bstore (world t)) rq so"
      by (auto simp: ledger_ok_def row_ok_def)
    then have "vetted env rq
        \<and> get_object (bstore (world t)) (lr_object_bucket r) (lr_object_key r) = Inr (rq_data rq)
        \<and> lr_content_hash r = env_digest env (rq_data rq) \<and> lr_size_bytes r = length (rq_data rq)
        \<and> bucket_name (env_slug env) (bucket_prefix (env_store env)) = Inr (lr_object_bucket r)"
      by (auto simp: row_of_def stored_ok_def)
    then show ?thesis ..
  qed
  have fin: "case res of Inr rc \<Rightarrow> receipt_ok (ledger (world t)) rc
          | Inl e \<Rightarrow> e \<noteq> AssertionError \<and> \<not> is_unique_violation e"
    if "Finished res \<in> set (clients t)" for res
  proof -
    have "phase_ok env (world t) (Finished res)" using that t by (auto simp: system_ok_def)
    then show ?thesis by (cases res) simp_all
  qed
  show ?thesis
    using l uploads_append[OF run] rows fin by (simp add: ledger_ok_def)
qed

text \<open>A small tenant for the witnesses.\<close>

definition demo_env :: bronze_env where
  "demo_env = \<lparr>env_slug = ''acme'', env_prefix = ''x'', env_store = demo_config, env_scan = null_scan,
     env_max_bytes = 10, env_extensions = allowed_extensions, env_digest = id,
     env_registry = [(''GSTR_2B'', True)],
     env_vocabulary = [(''Document_Type'', ''GSTR_2B''), (''Source_Stream'', ''B'')],
     env_catalogue = \<lparr>releases = [], artifacts = []\<rparr>\<rparr>"

definition demo_request :: "uuid \<Rightarrow> request" where
  "demo_request u = \<lparr>rq_ingest_id = u, rq_entity_id = 1, rq_data = ''abc'', rq_doc_type = ''GSTR_2B'',
     rq_source_stream = ''B'', rq_filename = Some ''a.csv'', rq_received_from = ''upload'',
     rq_received_at = 0, rq_pin_time = 0\<rparr>"

definition demo_world :: bronze_world where
  "demo_world = \<lparr>ledger = [], bpins = [], bstore = \<lparr>buckets = [(''x-acme'', True)], objects = []\<rparr>\<rparr>"

definition demo_system :: system where
  "demo_system = \<lparr>world = demo_world, clients = [Start (demo_request 1), Start (demo_request 2)]\<rparr>"

lemma demo_admit: "admit demo_env (demo_request u) [] = Inr None"
proof -
  have "ok (check_file 10 allowed_extensions (Some ''a.csv'') ''abc'')" by code_simp
  then show ?thesis
    by (simp add: admit_def demo_env_def demo_request_def Let_def check_document_type_in_scope_def
        find_hash_def scan_gate_def null_scan_def)
qed

lemma demo_store_object:
  "\<exists>so st. store_object demo_env (demo_request u) (bstore demo_world) = Inr (so, st)"
  by (simp add: store_object_def put_bronze_def demo_env_def demo_config_def demo_names Let_def
      put_object_def demo_world_def)

lemma demo_receive:
  "\<exists>rc w. receive demo_env (demo_request u) demo_world = (Inr rc, w) \<and> length (ledger w) = 1"
proof -
  obtain so st where "store_object demo_env (demo_request u) (bstore demo_world) = Inr (so, st)"
    using demo_store_object by blast
  then show ?thesis
    using demo_admit[of u]
    by (simp add: receive_def demo_world_def Let_def insert_ledger_def row_of_def pin_release_for_frame)
       (simp add: demo_env_def demo_request_def)
qed


lemma demo_uploads:
  "uploads demo_env demo_system (demo_system\<lparr>world := snd (receive demo_env (demo_request 1) demo_world),
     clients := [Finished (fst (receive demo_env (demo_request 1) demo_world)), Start (demo_request 2)]\<rparr>)"
  using run_client_uploads[of 5 demo_env demo_system 0] receive_run[of demo_env "demo_request 1" demo_world]
  by (simp add: demo_system_def)

theorem concurrent_uploads_safe_witness:
  "\<exists>r rq. ledger (snd (receive demo_env (demo_request 1) demo_world)) = [r] \<and> vetted demo_env rq
     \<and> get_object (bstore (snd (receive demo_env (demo_request 1) demo_world)))
         (lr_object_bucket r) (lr_object_key r) = Inr (rq_data rq)"
proof -
  have 1: "ledger_ok demo_env (world demo_system)"
    by (simp add: ledger_ok_def demo_system_def demo_world_def)
  have 2: "\<forall>p\<in>set (clients demo_system). (\<exists>rq. p = Start rq) \<and> fresh (world demo_system) p"
    by (simp add: demo_system_def fresh_def demo_world_def demo_request_def)
  have 3: "distinct (pendings (clients demo_system))"
    by (simp add: demo_system_def demo_request_def)
  have 4: "virus_scanner (env_scan demo_env)"
    by (simp add: demo_env_def null_port.virus_scanner_axioms)
  obtain r where r: "ledger (snd (receive demo_env (demo_request 1) demo_world)) = [r]"
    using demo_receive[of 1] by (auto simp: length_Suc_conv)
  with concurrent_uploads_safe[OF demo_uploads 1 2 3 4] show ?thesis by auto
qed



section \<open>One upload after another\<close>

lemma receive_ok:
  assumes "ledger_ok env w" "fresh w (Start rq)" "virus_scanner (env_scan env)"
    and "receive env rq w = (res, w')"
  shows "ledger_ok env w' \<and> phase_ok env w' (Finished res)"
proof -
  let ?s = "\<lparr>world = w, clients = [Start rq]\<rparr>"
  have "uploads env ?s (?s\<lparr>world := w', clients := [Finished res]\<rparr>)"
    using run_client_uploads[of 5 env ?s 0] receive_run[of env rq w] assms(4) by simp
  moreover have "system_ok env ?s" using assms by (simp add: system_ok_def)
  ultimately have "system_ok env (?s\<lparr>world := w', clients := [Finished res]\<rparr>)"
    using uploads_ok assms(3) by blast
  then show ?thesis by (simp add: system_ok_def)
qed

lemma find_ingest_unique:
  "distinct (map lr_ingest_id rows) \<Longrightarrow> r \<in> set rows \<Longrightarrow> find_ingest (lr_ingest_id r) rows = Some r"
  by (induction rows) (auto simp: find_ingest_def)

lemma find_hash_unique:
  "distinct (map lr_content_hash rows) \<Longrightarrow> r \<in> set rows \<Longrightarrow> find_hash (lr_content_hash r) rows = Some r"
  by (induction rows) (auto simp: find_hash_def)

lemma fetch_row:
  assumes "ledger_ok env w" "r \<in> set (ledger w)" "env_prefix env = bucket_prefix (env_store env)"
  shows "\<exists>data. fetch env (lr_ingest_id r) w = Inr data \<and> lr_content_hash r = env_digest env data"
proof -
  from assms obtain rq so where "r = row_of env rq so" "stored_ok env (bstore w) rq so"
    by (auto simp: ledger_ok_def row_ok_def)
  then have b: "bucket_name (env_slug env) (env_prefix env) = Inr (lr_object_bucket r)"
    "get_object (bstore w) (lr_object_bucket r) (lr_object_key r) = Inr (rq_data rq)"
    "lr_content_hash r = env_digest env (rq_data rq)"
    using assms(3) by (auto simp: row_of_def stored_ok_def)
  have "find_ingest (lr_ingest_id r) (ledger w) = Some r"
    using find_ingest_unique assms by (simp add: ledger_ok_def)
  with b show ?thesis by (simp add: fetch_def)
qed

lemma receive_hash: "receive env rq w = (Inr rc, w') \<Longrightarrow> rc_content_hash rc = env_digest env (rq_data rq)"
  by (auto simp: receive_def admit_def reread_def dedup_receipt_def receipt_of_def Let_def rbind_eq_Inr_iff
      split: sum.splits option.splits prod.splits if_splits)

text \<open>
  C34. Replay: the id on a receipt fetches bytes with the hash of the bytes that were uploaded, now
  and after any further uploads, under whatever interleaving.
\<close>

theorem receive_then_fetch:
  assumes rcv: "receive env rq w = (Inr rc, w')"
    and start: "ledger_ok env w" "fresh w (Start rq)" "virus_scanner (env_scan env)"
    and prefix: "env_prefix env = bucket_prefix (env_store env)"
    and later: "uploads env s t" "world s = w'" "distinct (pendings (clients s))"
      "\<forall>p\<in>set (clients s). (\<exists>rq. p = Start rq) \<and> fresh w' p"
  shows "\<exists>data. fetch env (rc_ingest_id rc) (world t) = Inr data
    \<and> env_digest env data = env_digest env (rq_data rq)"
proof -
  from receive_ok[OF start rcv] have ok: "ledger_ok env w'" "receipt_ok (ledger w') rc" by simp_all
  from ok(2) obtain r where r: "r \<in> set (ledger w')" "lr_ingest_id r = rc_ingest_id rc"
    "lr_content_hash r = rc_content_hash rc" by (auto simp: receipt_ok_def)
  have "system_ok env s" using ok(1) later by (auto simp: system_ok_def)
  then have "ledger_ok env (world t)"
    using uploads_ok later(1) start(3) by (simp add: system_ok_def)
  moreover have "r \<in> set (ledger (world t))" using uploads_append[OF later(1)] later(2) r(1) by auto
  ultimately show ?thesis
    using fetch_row[of env "world t" r] prefix r receive_hash[OF rcv] by auto
qed

theorem receive_then_fetch_witness:
  "\<exists>rc w'. receive demo_env (demo_request 1) demo_world = (Inr rc, w')
    \<and> fetch demo_env (rc_ingest_id rc) w' = Inr ''abc''"
proof -
  obtain rc w' where r: "receive demo_env (demo_request 1) demo_world = (Inr rc, w')"
    using demo_receive by blast
  let ?s = "\<lparr>world = w', clients = [] :: phase list\<rparr>"
  have 1: "ledger_ok demo_env demo_world" by (simp add: ledger_ok_def demo_world_def)
  have 2: "fresh demo_world (Start (demo_request 1))"
    by (simp add: fresh_def demo_world_def demo_request_def)
  have 3: "virus_scanner (env_scan demo_env)" by (simp add: demo_env_def null_port.virus_scanner_axioms)
  have 4: "env_prefix demo_env = bucket_prefix (env_store demo_env)"
    by (simp add: demo_env_def demo_config_def)
  have "\<exists>data. fetch demo_env (rc_ingest_id rc) (world ?s) = Inr data
      \<and> env_digest demo_env data = env_digest demo_env (rq_data (demo_request 1))"
    by (rule receive_then_fetch[OF r 1 2 3 4 uploads.none]) simp_all
  then show ?thesis using r by (simp add: demo_env_def demo_request_def)
qed

text \<open>
  A refused file leaves no trace, and no failed upload touches the ledger: a rejection by the
  file check, the document-type check or the scanner, or a scanner that is down, leaves objects,
  ledger and pins as they were; any other error leaves the ledger and the pins as they were.
\<close>

theorem failed_upload_leaves_ledger:
  assumes "receive env rq w = (Inl e, w')"
  shows "ledger w' = ledger w \<and> bpins w' = bpins w
    \<and> ((\<exists>m. e = IntakeRejected m) \<or> (\<exists>m. e = ScannerUnavailableError m) \<longrightarrow> w' = w)"
  using assms
  by (auto simp: receive_def Let_def reread_def insert_ledger_def
      split: sum.splits option.splits prod.splits if_splits)

theorem failed_upload_leaves_ledger_witness:
  "\<exists>e w'. receive demo_env (demo_request 1\<lparr>rq_data := []\<rparr>) demo_world = (Inl e, w')
     \<and> ledger w' = ledger demo_world"
proof -
  have "receive demo_env (demo_request 1\<lparr>rq_data := []\<rparr>) demo_world
      = (Inl (IntakeRejected ''file is empty''), demo_world)"
    by (simp add: receive_def admit_def demo_env_def demo_request_def check_file_def)
  with failed_upload_leaves_ledger[OF this] show ?thesis by blast
qed

text \<open>
  Uploading the same content again, under any name the intake accepts, gives back the id of the
  first upload, marked as a duplicate, and changes nothing, not even calling the scanner.
\<close>

theorem second_upload_is_duplicate:
  assumes first: "receive env rq w = (Inr rc, w')"
    and start: "ledger_ok env w" "fresh w (Start rq)" "virus_scanner (env_scan env)"
    and again: "env_digest env (rq_data rq2) = env_digest env (rq_data rq)"
      "ok (check_file (env_max_bytes env) (env_extensions env) (rq_filename rq2) (rq_data rq2))"
      "map_of (env_registry env) (rq_doc_type rq2) = Some True"
  shows "receive (env\<lparr>env_scan := any_scanner\<rparr>) rq2 w' = (Inr (rc\<lparr>deduplicated := True\<rparr>), w')"
proof -
  from receive_ok[OF start first] have ok: "ledger_ok env w'" "receipt_ok (ledger w') rc" by simp_all
  from ok(2) obtain r where r: "r \<in> set (ledger w')" "lr_ingest_id r = rc_ingest_id rc"
    "lr_content_hash r = rc_content_hash rc" "lr_object_bucket r = rc_bucket rc"
    "lr_object_key r = rc_object_key rc" "lr_size_bytes r = rc_size_bytes rc" by (auto simp: receipt_ok_def)
  have "find_hash (lr_content_hash r) (ledger w') = Some r"
    using find_hash_unique ok(1) r(1) by (simp add: ledger_ok_def)
  then have "find_hash (env_digest env (rq_data rq2)) (ledger w') = Some r"
    using r(3) receive_hash[OF first] again(1) by simp
  then show ?thesis
    using again r receive_hash[OF first]
    by (simp add: receive_def admit_def Let_def check_document_type_in_scope_def dedup_receipt_def)
qed

theorem second_upload_is_duplicate_witness:
  "\<exists>rc w'. receive demo_env (demo_request 1) demo_world = (Inr rc, w')
    \<and> receive (demo_env\<lparr>env_scan := (\<lambda>d. Inl (ScannerUnavailableError []))\<rparr>) (demo_request 2) w'
      = (Inr (rc\<lparr>deduplicated := True\<rparr>), w')"
proof -
  obtain rc w' where r: "receive demo_env (demo_request 1) demo_world = (Inr rc, w')"
    using demo_receive by blast
  have 1: "ledger_ok demo_env demo_world" by (simp add: ledger_ok_def demo_world_def)
  have 2: "fresh demo_world (Start (demo_request 1))"
    by (simp add: fresh_def demo_world_def demo_request_def)
  have 3: "virus_scanner (env_scan demo_env)" by (simp add: demo_env_def null_port.virus_scanner_axioms)
  have 4: "ok (check_file 10 allowed_extensions (Some ''a.csv'') ''abc'')" by code_simp
  show ?thesis
    using r second_upload_is_duplicate[OF r 1 2 3, of "demo_request 2" "\<lambda>d. Inl (ScannerUnavailableError [])"] 4
    by (simp add: demo_env_def demo_request_def)
qed

end
