(* ===== verification/Contract.thy ===== *)
theory Contract
  imports Errors
begin

text \<open>
  The field-contract grammar of \<open>src/src/silver/contract.py\<close>: one cell of the registry,
  \<open>direction=OUTWARD;counterparty=OPTIONAL;doc=irn:hash64!,ack_number:text\<close>, is what a
  document type adds to the fixed shape of its archetype.
\<close>

section \<open>The contract\<close>

datatype direction = INWARD | OUTWARD | INTERNAL

datatype counterparty = REQUIRED | OPTIONAL | FOREIGN

definition direction_value :: "direction \<Rightarrow> string" where
  "direction_value d = (case d of INWARD \<Rightarrow> ''INWARD'' | OUTWARD \<Rightarrow> ''OUTWARD'' | INTERNAL \<Rightarrow> ''INTERNAL'')"

definition counterparty_value :: "counterparty \<Rightarrow> string" where
  "counterparty_value p = (case p of REQUIRED \<Rightarrow> ''REQUIRED'' | OPTIONAL \<Rightarrow> ''OPTIONAL'' | FOREIGN \<Rightarrow> ''FOREIGN'')"

text \<open>The enumeration classes called on a value: \<open>None\<close> is their \<open>ValueError\<close>.\<close>

definition direction_of :: "string \<Rightarrow> direction option" where
  "direction_of s = List.find (\<lambda>d. direction_value d = s) [INWARD, OUTWARD, INTERNAL]"

definition counterparty_of :: "string \<Rightarrow> counterparty option" where
  "counterparty_of s = List.find (\<lambda>p. counterparty_value p = s) [REQUIRED, OPTIONAL, FOREIGN]"

definition attr_types :: "string list" where
  "attr_types = [''text'', ''date'', ''money'', ''qty'', ''rate'', ''int'', ''gstin'', ''hsn'', ''hash64'']"

definition name_body :: "string \<Rightarrow> bool" where
  "name_body s \<longleftrightarrow> s \<noteq> [] \<and> is_lower (hd s) \<and> list_all (\<lambda>c. is_lower c \<or> is_digit c \<or> c = CHR ''_'') (tl s)"

definition name_re :: "string \<Rightarrow> bool" where
  "name_re s = re_dollar name_body s"

definition clause_keys :: "string list" where
  "clause_keys = [''direction'', ''counterparty'', ''doc'', ''line'']"

record attribute =
  attr_name :: string
  attr_type :: string
  attr_required :: bool

record field_contract =
  fc_direction :: direction
  fc_counterparty :: counterparty
  doc_attributes :: "attribute list"
  line_attributes :: "attribute list"

definition required_attributes :: "attribute list \<Rightarrow> string list" where
  "required_attributes attrs = map attr_name (filter attr_required attrs)"

definition doc_attribute :: "field_contract \<Rightarrow> string \<Rightarrow> attribute option" where
  "doc_attribute fc n = List.find (\<lambda>a. attr_name a = n) (doc_attributes fc)"

definition line_attribute :: "field_contract \<Rightarrow> string \<Rightarrow> attribute option" where
  "line_attribute fc n = List.find (\<lambda>a. attr_name a = n) (line_attributes fc)"

section \<open>The parser\<close>

definition attribute_of_token :: "string \<Rightarrow> string \<Rightarrow> exc + attribute" where
  "attribute_of_token clause token =
     (let required = ends_with ''!'' token;
          rest = (if required then butlast token else token)
      in case partition_on (CHR '':'') rest of (name, sep, type_name) \<Rightarrow>
        if \<not> sep then Inl (ContractError (clause @ '' attribute '' @ py_repr token @ '' must be name:type''))
        else if \<not> name_re name then
          Inl (ContractError (clause @ '' attribute name '' @ py_repr name @ '' must match [a-z][a-z0-9_]*''))
        else if type_name \<notin> set attr_types then
          Inl (ContractError (clause @ '' attribute '' @ py_repr name @ '' has unknown type '' @ py_repr type_name
            @ ''; known types: date, gstin, hash64, hsn, int, money, qty, rate, text''))
        else Inr \<lparr>attr_name = name, attr_type = type_name, attr_required = required\<rparr>)"

text \<open>One turn of the loop; \<open>seen\<close> is the set of the names in \<open>out\<close>.\<close>

definition add_attribute :: "string \<Rightarrow> attribute list \<Rightarrow> string \<Rightarrow> exc + attribute list" where
  "add_attribute clause out token =
     (if token = [] then Inr out
      else rbind (attribute_of_token clause token) (\<lambda>a.
        if attr_name a \<in> set (map attr_name out)
        then Inl (ContractError (clause @ '' attribute '' @ py_repr (attr_name a) @ '' declared twice''))
        else Inr (out @ [a])))"

definition parse_attributes :: "string \<Rightarrow> string \<Rightarrow> exc + attribute list" where
  "parse_attributes raw clause = rfold (add_attribute clause) [] (map strip (split_on (CHR '','') raw))"

definition add_clause :: "(string \<times> string) list \<Rightarrow> string \<Rightarrow> exc + (string \<times> string) list" where
  "add_clause clauses chunk =
     (if chunk = [] then Inr clauses
      else case partition_on (CHR ''='') chunk of (key0, sep, val) \<Rightarrow>
        let key = strip key0 in
        if \<not> sep then Inl (ContractError (''clause '' @ py_repr chunk @ '' must be key=value''))
        else if key \<notin> set clause_keys then
          Inl (ContractError (''unknown clause '' @ py_repr key @ ''; known clauses: counterparty, direction, doc, line''))
        else if key \<in> set (map fst clauses) then
          Inl (ContractError (''clause '' @ py_repr key @ '' declared twice''))
        else Inr (clauses @ [(key, strip val)]))"

definition clause_text :: "(string \<times> string) list \<Rightarrow> string \<Rightarrow> string" where
  "clause_text clauses k = (case map_of clauses k of Some v \<Rightarrow> v | None \<Rightarrow> [])"

definition parse_contract :: "string \<Rightarrow> exc + field_contract" where
  "parse_contract raw =
     rbind (rfold add_clause [] (map strip (split_on (CHR '';'') raw))) (\<lambda>clauses.
       if ''direction'' \<notin> set (map fst clauses) then Inl (ContractError ''contract must declare direction'')
       else if ''counterparty'' \<notin> set (map fst clauses) then Inl (ContractError ''contract must declare counterparty'')
       else case direction_of (clause_text clauses ''direction'') of
         None \<Rightarrow> Inl (ContractError (''direction '' @ py_repr (clause_text clauses ''direction'')
                   @ '' must be one of INWARD, OUTWARD, INTERNAL''))
       | Some d \<Rightarrow>
         (case counterparty_of (clause_text clauses ''counterparty'') of
            None \<Rightarrow> Inl (ContractError (''counterparty '' @ py_repr (clause_text clauses ''counterparty'')
                      @ '' must be one of REQUIRED, OPTIONAL, FOREIGN''))
          | Some p \<Rightarrow>
              rbind (parse_attributes (clause_text clauses ''doc'') ''doc'') (\<lambda>ds.
              rbind (parse_attributes (clause_text clauses ''line'') ''line'') (\<lambda>ls.
                Inr \<lparr>fc_direction = d, fc_counterparty = p, doc_attributes = ds, line_attributes = ls\<rparr>))))"

section \<open>Writing a contract\<close>

definition attribute_ok :: "attribute \<Rightarrow> bool" where
  "attribute_ok a \<longleftrightarrow> name_body (attr_name a) \<and> attr_type a \<in> set attr_types"

definition attributes_ok :: "attribute list \<Rightarrow> bool" where
  "attributes_ok as \<longleftrightarrow> list_all attribute_ok as \<and> distinct (map attr_name as)"

definition contract_ok :: "field_contract \<Rightarrow> bool" where
  "contract_ok fc \<longleftrightarrow> attributes_ok (doc_attributes fc) \<and> attributes_ok (line_attributes fc)"

definition render_attribute :: "attribute \<Rightarrow> string" where
  "render_attribute a = attr_name a @ '':'' @ attr_type a @ (if attr_required a then ''!'' else [])"

definition render_attributes :: "attribute list \<Rightarrow> string" where
  "render_attributes as = join '','' (map render_attribute as)"

definition render_contract :: "field_contract \<Rightarrow> string" where
  "render_contract fc = join '';''
     [''direction='' @ direction_value (fc_direction fc),
      ''counterparty='' @ counterparty_value (fc_counterparty fc),
      ''doc='' @ render_attributes (doc_attributes fc),
      ''line='' @ render_attributes (line_attributes fc)]"

text \<open>A character that separates nothing in the grammar.\<close>

definition inert :: "char \<Rightarrow> bool" where
  "inert c \<longleftrightarrow> \<not> is_space c \<and> c \<notin> {CHR '';'', CHR '','', CHR ''='', CHR '':''}"

lemma name_body_inert: "name_body s \<Longrightarrow> list_all inert s"
  by (cases s) (auto simp: name_body_def list_all_iff inert_def char_class_defs)

lemma attr_type_inert: "t \<in> set attr_types \<Longrightarrow> list_all inert t \<and> last t \<noteq> CHR ''!'' \<and> t \<noteq> []"
  by (auto simp: attr_types_def inert_def char_class_defs)

lemma inert_absent: "list_all inert s \<Longrightarrow> \<not> inert c \<Longrightarrow> c \<notin> set s"
  by (auto simp: list_all_iff)

lemma not_inert [simp]: "\<not> inert (CHR '';'')" "\<not> inert (CHR '','')" "\<not> inert (CHR ''='')" "\<not> inert (CHR '':'')"
  by (simp_all add: inert_def)

lemma attribute_of_render:
  assumes "attribute_ok a"
  shows "attribute_of_token clause (render_attribute a) = Inr a"
proof -
  have n: "list_all inert (attr_name a)" "name_re (attr_name a)"
    using assms name_body_inert by (auto simp: attribute_ok_def name_re_def re_dollar_def)
  have t: "list_all inert (attr_type a)" "last (attr_type a) \<noteq> CHR ''!''" "attr_type a \<noteq> []"
    and t': "attr_type a \<in> set attr_types"
    using assms attr_type_inert by (auto simp: attribute_ok_def)
  have e: "ends_with ''!'' (render_attribute a) = attr_required a"
    using t(2,3) by (cases "attr_type a" rule: rev_cases)
      (auto simp: render_attribute_def ends_with_def starts_with_def)
  have b: "(if attr_required a then butlast (render_attribute a) else render_attribute a)
      = attr_name a @ CHR '':'' # attr_type a"
    using t(3) by (simp add: render_attribute_def butlast_append)
  have p: "partition_on (CHR '':'') (attr_name a @ CHR '':'' # attr_type a) = (attr_name a, True, attr_type a)"
    by (rule partition_on_append) (rule inert_absent[OF n(1)], simp)
  show ?thesis
    unfolding attribute_of_token_def Let_def e b p using n(2) t' by simp
qed

lemma render_attribute_chars:
  assumes "attribute_ok a" "c \<in> set (render_attribute a)"
  shows "\<not> is_space c \<and> c \<noteq> CHR '','' \<and> c \<noteq> CHR '';''"
proof -
  have "list_all inert (attr_name a)" "list_all inert (attr_type a)"
    using assms(1) name_body_inert attr_type_inert by (auto simp: attribute_ok_def)
  then have "inert c \<or> c = CHR '':'' \<or> c = CHR ''!''"
    using assms(2) by (auto simp: render_attribute_def list_all_iff split: if_splits)
  then show ?thesis by (auto simp: inert_def is_space_def ord_def)
qed

lemma render_attribute_ne: "render_attribute a \<noteq> []"
  by (simp add: render_attribute_def)

lemma add_attributes_render:
  assumes "list_all attribute_ok as" "distinct (map attr_name (out @ as))"
  shows "rfold (add_attribute clause) out (map render_attribute as) = Inr (out @ as)"
  using assms
proof (induction as arbitrary: out)
  case (Cons a as)
  then have "add_attribute clause out (render_attribute a) = Inr (out @ [a])"
    by (auto simp: add_attribute_def render_attribute_ne attribute_of_render)
  with Cons show ?case by simp
qed simp

lemma parse_attributes_render:
  assumes "attributes_ok as"
  shows "parse_attributes (render_attributes as) clause = Inr as"
proof (cases "as = []")
  case True
  then show ?thesis by (simp add: parse_attributes_def render_attributes_def add_attribute_def)
next
  case False
  have ok: "list_all attribute_ok as" "distinct (map attr_name as)"
    using assms by (auto simp: attributes_ok_def)
  have "split_on (CHR '','') (render_attributes as) = map render_attribute as"
    unfolding render_attributes_def using False ok(1) render_attribute_chars
    by (intro split_on_join) (auto simp: list_all_iff)
  moreover have "map strip (map render_attribute as) = map render_attribute as"
    using ok(1) render_attribute_chars
    by (auto simp: list_all_iff intro!: strip_trimmed no_space_trimmed)
  ultimately show ?thesis
    using add_attributes_render[OF ok(1), of "[]"] ok(2) unfolding parse_attributes_def by (simp del: map_map)
qed

lemma render_attributes_chars:
  assumes "attributes_ok as" "c \<in> set (render_attributes as)"
  shows "\<not> is_space c \<and> c \<noteq> CHR '';''"
proof -
  have "c = CHR '','' \<or> (\<exists>a\<in>set as. c \<in> set (render_attribute a))"
    using assms(2) set_join[of "'',''" "map render_attribute as"] by (auto simp: render_attributes_def)
  then show ?thesis
  proof
    assume "\<exists>a\<in>set as. c \<in> set (render_attribute a)"
    with assms(1) render_attribute_chars show ?thesis by (force simp: attributes_ok_def list_all_iff)
  qed (simp add: is_space_def ord_def)
qed

lemma direction_of_value [simp]: "direction_of (direction_value d) = Some d"
  by (cases d) (simp_all add: direction_of_def direction_value_def)

lemma counterparty_of_value [simp]: "counterparty_of (counterparty_value p) = Some p"
  by (cases p) (simp_all add: counterparty_of_def counterparty_value_def)

lemma direction_chars: "c \<in> set (direction_value d) \<Longrightarrow> is_upper c"
  by (cases d) (auto simp: direction_value_def char_class_defs)

lemma counterparty_chars: "c \<in> set (counterparty_value p) \<Longrightarrow> is_upper c"
  by (cases p) (auto simp: counterparty_value_def char_class_defs)

text \<open>A clause without white space or semicolons is read as its key and its value.\<close>

lemma add_clause_plain:
  assumes "k \<in> set clause_keys" "k \<notin> set (map fst cs)" "\<forall>c\<in>set v. \<not> is_space c"
  shows "add_clause cs (strip (k @ ''='' @ v)) = Inr (cs @ [(k, v)])"
proof -
  have k: "\<forall>c\<in>set k. \<not> is_space c \<and> c \<noteq> CHR ''=''"
    using assms(1) by (auto simp: clause_keys_def is_space_def ord_def)
  have "trimmed (k @ ''='' @ v)"
    using k assms(3) by (intro no_space_trimmed) (simp add: list_all_iff ball_Un is_space_def ord_def)
  then have s: "strip (k @ ''='' @ v) = k @ CHR ''='' # v" by (simp add: strip_trimmed)
  have "partition_on (CHR ''='') (k @ CHR ''='' # v) = (k, True, v)"
    by (rule partition_on_append) (use k in auto)
  moreover have "strip k = k" "strip v = v"
    using k assms(3) by (simp_all add: strip_trimmed no_space_trimmed list_all_iff)
  ultimately show ?thesis unfolding s using assms(1,2) by (simp add: add_clause_def)
qed


lemma render_contract_split:
  assumes "contract_ok fc"
  shows "map strip (split_on (CHR '';'') (render_contract fc)) = map strip
     [''direction'' @ ''='' @ direction_value (fc_direction fc),
      ''counterparty'' @ ''='' @ counterparty_value (fc_counterparty fc),
      ''doc'' @ ''='' @ render_attributes (doc_attributes fc),
      ''line'' @ ''='' @ render_attributes (line_attributes fc)]"
proof -
  let ?xs = "[''direction='' @ direction_value (fc_direction fc),
      ''counterparty='' @ counterparty_value (fc_counterparty fc),
      ''doc='' @ render_attributes (doc_attributes fc), ''line='' @ render_attributes (line_attributes fc)]"
  have u: "\<not> is_upper (CHR '';'')" by (simp add: char_class_defs)
  have d: "CHR '';'' \<notin> set (direction_value (fc_direction fc))"
    and p: "CHR '';'' \<notin> set (counterparty_value (fc_counterparty fc))"
    using u direction_chars counterparty_chars by blast+
  have a: "CHR '';'' \<notin> set (render_attributes (doc_attributes fc))"
    "CHR '';'' \<notin> set (render_attributes (line_attributes fc))"
    using assms render_attributes_chars by (auto simp: contract_ok_def)
  have "\<forall>x\<in>set ?xs. CHR '';'' \<notin> set x" using d p a by simp
  then have "split_on (CHR '';'') (join '';'' ?xs) = ?xs" by (rule split_on_join) simp
  then show ?thesis by (simp add: render_contract_def)
qed

lemma upper_not_space: "is_upper c \<Longrightarrow> \<not> is_space c"
  by (auto simp: is_upper_def is_space_def)

text \<open>
  C37. Every well-formed contract can be written down, and \<open>parse_contract\<close> reads it back: the
  direction, the counterparty rule and both attribute lists with their order, types and mandatory
  marks. So a document type is a registry row, and nothing a contract can say is out of the grammar's reach.
\<close>

theorem contract_roundtrip:
  assumes "contract_ok fc"
  shows "parse_contract (render_contract fc) = Inr fc"
proof -
  have a: "attributes_ok (doc_attributes fc)" "attributes_ok (line_attributes fc)"
    using assms by (auto simp: contract_ok_def)
  let ?d = "direction_value (fc_direction fc)" and ?p = "counterparty_value (fc_counterparty fc)"
  let ?a = "render_attributes (doc_attributes fc)" and ?l = "render_attributes (line_attributes fc)"
  have c: "\<forall>c\<in>set ?d. \<not> is_space c" "\<forall>c\<in>set ?p. \<not> is_space c" "\<forall>c\<in>set ?a. \<not> is_space c" "\<forall>c\<in>set ?l. \<not> is_space c"
    using direction_chars counterparty_chars upper_not_space render_attributes_chars a by blast+
  have k: "''direction'' \<in> set clause_keys" "''counterparty'' \<in> set clause_keys"
    "''doc'' \<in> set clause_keys" "''line'' \<in> set clause_keys" by (simp_all add: clause_keys_def)
  have r: "add_clause [] (strip (''direction'' @ ''='' @ ?d)) = Inr [(''direction'', ?d)]"
    "add_clause [(''direction'', ?d)] (strip (''counterparty'' @ ''='' @ ?p))
      = Inr [(''direction'', ?d), (''counterparty'', ?p)]"
    "add_clause [(''direction'', ?d), (''counterparty'', ?p)] (strip (''doc'' @ ''='' @ ?a))
      = Inr [(''direction'', ?d), (''counterparty'', ?p), (''doc'', ?a)]"
    "add_clause [(''direction'', ?d), (''counterparty'', ?p), (''doc'', ?a)] (strip (''line'' @ ''='' @ ?l))
      = Inr [(''direction'', ?d), (''counterparty'', ?p), (''doc'', ?a), (''line'', ?l)]"
    by (subst add_clause_plain; simp add: k c)+
  have "rfold add_clause [] (map strip (split_on (CHR '';'') (render_contract fc)))
      = Inr [(''direction'', ?d), (''counterparty'', ?p), (''doc'', ?a), (''line'', ?l)]"
    unfolding render_contract_split[OF assms] list.map rfold.simps r rbind_simps ..
  then show ?thesis
    by (simp add: parse_contract_def clause_text_def parse_attributes_render a)
qed

theorem contract_roundtrip_witness:
  "parse_contract (render_contract \<lparr>fc_direction = OUTWARD, fc_counterparty = OPTIONAL,
      doc_attributes = [\<lparr>attr_name = ''irn'', attr_type = ''hash64'', attr_required = True\<rparr>,
        \<lparr>attr_name = ''ack_number'', attr_type = ''text'', attr_required = False\<rparr>], line_attributes = []\<rparr>)
   = Inr \<lparr>fc_direction = OUTWARD, fc_counterparty = OPTIONAL,
      doc_attributes = [\<lparr>attr_name = ''irn'', attr_type = ''hash64'', attr_required = True\<rparr>,
        \<lparr>attr_name = ''ack_number'', attr_type = ''text'', attr_required = False\<rparr>], line_attributes = []\<rparr>"
  by (rule contract_roundtrip) code_simp

section \<open>What the parser accepts\<close>

lemma attribute_of_token_ok:
  assumes "attribute_of_token clause token = Inr a" "CHR 0x0A \<notin> set token"
  shows "attribute_ok a"
proof -
  let ?rest = "if ends_with ''!'' token then butlast token else token"
  obtain n sp t where p: "partition_on (CHR '':'') ?rest = (n, sp, t)" by (cases "partition_on (CHR '':'') ?rest")
  have "name_re n" "t \<in> set attr_types" and a: "attr_name a = n" "attr_type a = t"
    using assms(1) p by (auto simp: attribute_of_token_def Let_def split: if_splits)
  moreover have "CHR 0x0A \<notin> set n"
    using set_partition_on[OF p] assms(2) by (auto split: if_splits dest: in_set_butlastD)
  ultimately show ?thesis
    by (auto simp: attribute_ok_def name_re_def re_dollar_def) (metis last_in_set)
qed

lemma add_attributes_ok:
  assumes "rfold (add_attribute clause) out tokens = Inr out'" "attributes_ok out"
    and "\<forall>t\<in>set tokens. CHR 0x0A \<notin> set t"
  shows "attributes_ok out'"
  using assms
proof (induction tokens arbitrary: out)
  case (Cons t ts)
  from Cons.prems(1) obtain out1 where a: "add_attribute clause out t = Inr out1"
    "rfold (add_attribute clause) out1 ts = Inr out'" by (auto simp: rbind_eq_Inr_iff)
  have "attributes_ok out1"
    using a(1) Cons.prems(2,3) attribute_of_token_ok[of clause t]
    by (auto simp: add_attribute_def rbind_eq_Inr_iff attributes_ok_def split: if_splits)
  from Cons.IH[OF a(2) this] Cons.prems(3) show ?case by simp
qed simp

lemma parse_attributes_ok:
  assumes "parse_attributes raw clause = Inr as" "CHR 0x0A \<notin> set raw"
  shows "attributes_ok as"
proof (rule add_attributes_ok)
  show "rfold (add_attribute clause) [] (map strip (split_on (CHR '','') raw)) = Inr as"
    using assms(1) by (simp add: parse_attributes_def)
  show "attributes_ok []" by (simp add: attributes_ok_def)
  show "\<forall>t\<in>set (map strip (split_on (CHR '','') raw)). CHR 0x0A \<notin> set t"
    using assms(2) set_strip set_split_on by fastforce
qed

text \<open>The non-blank clauses of a cell, and the key of a clause.\<close>

definition chunks :: "string \<Rightarrow> string list" where
  "chunks raw = filter (\<lambda>c. c \<noteq> []) (map strip (split_on (CHR '';'') raw))"

definition clause_key :: "string \<Rightarrow> string" where
  "clause_key chunk = strip (fst (partition_on (CHR ''='') chunk))"

lemma add_clause_Inr:
  assumes "add_clause cs c = Inr cs1" "c \<noteq> []"
  shows "\<exists>v. cs1 = cs @ [(clause_key c, v)] \<and> set v \<subseteq> set c \<and> clause_key c \<in> set clause_keys
    \<and> clause_key c \<notin> set (map fst cs) \<and> CHR ''='' \<in> set c"
proof -
  obtain k sp v where p: "partition_on (CHR ''='') c = (k, sp, v)" by (cases "partition_on (CHR ''='') c")
  from assms p have b: "sp" "clause_key c \<in> set clause_keys" "clause_key c \<notin> set (map fst cs)"
    "cs1 = cs @ [(clause_key c, strip v)]"
    by (auto simp: add_clause_def clause_key_def Let_def split: if_splits)
  have "CHR ''='' \<in> set c" using b(1) p partition_on_absent[of "CHR ''=''" c] by auto
  moreover have "set (strip v) \<subseteq> set c" using set_partition_on[OF p] set_strip[of v] by blast
  ultimately show ?thesis using b by blast
qed

lemma add_clauses_nonblank: "rfold add_clause cs cks = rfold add_clause cs (filter (\<lambda>c. c \<noteq> []) cks)"
  by (induction cks arbitrary: cs) (auto simp: add_clause_def)

lemma add_clauses_keys:
  assumes "rfold add_clause cs cks = Inr cs'" "[] \<notin> set cks"
  shows "map fst cs' = map fst cs @ map clause_key cks"
    and "distinct (map fst cs) \<Longrightarrow> distinct (map fst cs')"
    and "c \<in> set cks \<Longrightarrow> CHR ''='' \<in> set c \<and> clause_key c \<in> set clause_keys"
    and "(k, v) \<in> set cs' \<Longrightarrow> (k, v) \<in> set cs \<or> (\<exists>c\<in>set cks. set v \<subseteq> set c)"
  using assms
proof (induction cks arbitrary: cs)
  case (Cons d cks)
  {
    case 1
    then obtain cs1 where a: "add_clause cs d = Inr cs1" "rfold add_clause cs1 cks = Inr cs'"
      by (auto simp: rbind_eq_Inr_iff)
    from add_clause_Inr[OF a(1)] 1 Cons.IH(1)[OF a(2)] show ?case by auto
  next
    case 2
    then obtain cs1 where a: "add_clause cs d = Inr cs1" "rfold add_clause cs1 cks = Inr cs'"
      by (auto simp: rbind_eq_Inr_iff)
    from add_clause_Inr[OF a(1)] 2 Cons.IH(2)[OF _ a(2)] show ?case by auto
  next
    case 3
    then obtain cs1 where a: "add_clause cs d = Inr cs1" "rfold add_clause cs1 cks = Inr cs'"
      by (auto simp: rbind_eq_Inr_iff)
    from add_clause_Inr[OF a(1)] 3 Cons.IH(3)[OF _ a(2)] show ?case by (cases "c = d") auto
  next
    case 4
    then obtain cs1 where a: "add_clause cs d = Inr cs1" "rfold add_clause cs1 cks = Inr cs'"
      by (auto simp: rbind_eq_Inr_iff)
    have "(k, v) \<in> set cs1 \<or> (\<exists>c\<in>set cks. set v \<subseteq> set c)"
      using Cons.IH(4)[OF _ a(2)] 4 by auto
    moreover from add_clause_Inr[OF a(1)] 4(3) obtain w where "cs1 = cs @ [(clause_key d, w)]" "set w \<subseteq> set d"
      by auto
    ultimately show ?case by (metis UnE empty_iff empty_set insert_iff list.simps(15) prod.inject set_append)
  }
qed simp_all

text \<open>
  The parser is strict. When it accepts a cell, every non-blank clause has the form \<open>key=value\<close>
  with one of the four keys, no key twice, direction and counterparty are there, and the contract
  is well-formed: attribute names match \<open>[a-z][a-z0-9_]*\<close>, every type is one of the nine cleansing
  rules, and no name is declared twice in a clause. The cell must not hold a line break, because the
  pattern of the names lets one pass at the end of a name.
\<close>

theorem parse_contract_strict:
  assumes "parse_contract raw = Inr fc" "CHR 0x0A \<notin> set raw"
  shows "contract_ok fc
    \<and> (\<forall>c\<in>set (chunks raw). CHR ''='' \<in> set c \<and> clause_key c \<in> set clause_keys)
    \<and> distinct (map clause_key (chunks raw))
    \<and> ''direction'' \<in> clause_key ` set (chunks raw) \<and> ''counterparty'' \<in> clause_key ` set (chunks raw)"
proof -
  let ?cks = "map strip (split_on (CHR '';'') raw)"
  obtain cs where f: "rfold add_clause [] (chunks raw) = Inr cs"
    and m: "''direction'' \<in> set (map fst cs)" "''counterparty'' \<in> set (map fst cs)"
    and at: "parse_attributes (clause_text cs ''doc'') ''doc'' = Inr (doc_attributes fc)"
      "parse_attributes (clause_text cs ''line'') ''line'' = Inr (line_attributes fc)"
    using assms(1) unfolding parse_contract_def chunks_def add_clauses_nonblank[of "[]" ?cks]
    by (auto simp: rbind_eq_Inr_iff split: if_splits option.splits)
  have ne: "[] \<notin> set (chunks raw)" by (simp add: chunks_def)
  note keys = add_clauses_keys[OF f ne]
  have nl: "CHR 0x0A \<notin> set c" if "c \<in> set (chunks raw)" for c
    using that assms(2) set_strip set_split_on by (fastforce simp: chunks_def)
  have "CHR 0x0A \<notin> set (clause_text cs n)" for n
  proof (cases "map_of cs n")
    case (Some v)
    from keys(4)[OF map_of_SomeD[OF Some]] nl Some show ?thesis by (auto simp: clause_text_def)
  qed (simp add: clause_text_def)
  then have "contract_ok fc"
    unfolding contract_ok_def using parse_attributes_ok[OF at(1)] parse_attributes_ok[OF at(2)] by simp
  moreover have "distinct (map clause_key (chunks raw))" using keys(1,2) by simp
  moreover have "clause_key ` set (chunks raw) = set (map fst cs)" using keys(1) by simp
  ultimately show ?thesis using keys(3) m by simp
qed

theorem parse_contract_strict_witness:
  "\<exists>fc. parse_contract '' direction = OUTWARD;;counterparty=OPTIONAL; doc=irn:hash64!, ack_number:text'' = Inr fc
     \<and> contract_ok fc"
proof -
  let ?raw = "'' direction = OUTWARD;;counterparty=OPTIONAL; doc=irn:hash64!, ack_number:text''"
  have "case parse_contract ?raw of Inr fc \<Rightarrow> True | Inl e \<Rightarrow> False" by code_simp
  then obtain fc where p: "parse_contract ?raw = Inr fc" by (cases "parse_contract ?raw") simp_all
  have "CHR 0x0A \<notin> set ?raw" by simp
  from parse_contract_strict[OF p this] p show ?thesis by blast
qed

end
