(* ===== verification/Csv.thy ===== *)
theory Csv
  imports Dates
begin

text \<open>
  \<open>csv.DictReader(io.StringIO(text))\<close> under the default dialect: delimiter comma, quote
  character \<open>"\<close>, doubled quotes, not strict. \<open>StringIO\<close> cuts the text into lines at
  newlines only; the reader is the state machine of \<open>_csv.c\<close>, fed the characters of a line
  and then an end-of-line mark. Reading is lazy, so the records before an error are kept with it.
\<close>

section \<open>Lines\<close>

fun lines_of :: "string \<Rightarrow> string list" where
  "lines_of [] = []"
| "lines_of (c # r) =
     (if c = CHR 0x0A then [c] # lines_of r
      else (case lines_of r of [] \<Rightarrow> [[c]] | l # ls \<Rightarrow> (c # l) # ls))"

lemma concat_lines_of: "concat (lines_of s) = s"
  by (induction s) (auto split: list.splits)

section \<open>The reader's state machine\<close>

datatype csv_mode =
  StartRecord | StartField | InField | InQuoted | QuoteInQuoted | EatCrnl

record csv_state =
  csv_mode_of :: csv_mode
  cur_cell :: string
  done_cells :: "string list"

definition csv_init :: csv_state where
  "csv_init = \<lparr>csv_mode_of = StartRecord, cur_cell = [], done_cells = []\<rparr>"

definition field_limit :: nat where
  "field_limit = 131072"

definition add_char :: "char \<Rightarrow> csv_mode \<Rightarrow> csv_state \<Rightarrow> exc + csv_state" where
  "add_char c m st =
     (if field_limit \<le> length (cur_cell st)
      then Inl (CsvError ''field larger than field limit (131072)'')
      else Inr (st\<lparr>csv_mode_of := m, cur_cell := cur_cell st @ [c]\<rparr>))"

definition save_field :: "csv_mode \<Rightarrow> csv_state \<Rightarrow> csv_state" where
  "save_field m st = st\<lparr>csv_mode_of := m, cur_cell := [], done_cells := done_cells st @ [cur_cell st]\<rparr>"

definition is_eol :: "char option \<Rightarrow> bool" where
  "is_eol c \<longleftrightarrow> c = None \<or> c = Some (CHR 0x0A) \<or> c = Some (CHR 0x0D)"

definition after_eol :: "char option \<Rightarrow> csv_mode" where
  "after_eol c = (if c = None then StartRecord else EatCrnl)"

definition start_field :: "char option \<Rightarrow> csv_state \<Rightarrow> exc + csv_state" where
  "start_field c st =
     (if is_eol c then Inr (save_field (after_eol c) st)
      else if c = Some (CHR 0x22) then Inr (st\<lparr>csv_mode_of := InQuoted\<rparr>)
      else if c = Some (CHR '','') then Inr (save_field StartField st)
      else add_char (the c) InField st)"

text \<open>One character; \<open>None\<close> is the end of the line.\<close>

fun csv_char :: "csv_state \<Rightarrow> char option \<Rightarrow> exc + csv_state" where
  "csv_char st c = (case csv_mode_of st of
      StartRecord \<Rightarrow>
        if c = None then Inr st
        else if is_eol c then Inr (st\<lparr>csv_mode_of := EatCrnl\<rparr>)
        else start_field c (st\<lparr>csv_mode_of := StartField\<rparr>)
    | StartField \<Rightarrow> start_field c st
    | InField \<Rightarrow>
        if is_eol c then Inr (save_field (after_eol c) st)
        else if c = Some (CHR '','') then Inr (save_field StartField st)
        else add_char (the c) InField st
    | InQuoted \<Rightarrow>
        if c = None then Inr st
        else if c = Some (CHR 0x22) then Inr (st\<lparr>csv_mode_of := QuoteInQuoted\<rparr>)
        else add_char (the c) InQuoted st
    | QuoteInQuoted \<Rightarrow>
        if c = Some (CHR 0x22) then add_char (the c) InQuoted st
        else if c = Some (CHR '','') then Inr (save_field StartField st)
        else if is_eol c then Inr (save_field (after_eol c) st)
        else add_char (the c) InField st
    | EatCrnl \<Rightarrow>
        if c = None then Inr (st\<lparr>csv_mode_of := StartRecord\<rparr>)
        else if is_eol c then Inr st
        else Inl (CsvError ''new-line character seen in unquoted field''))"

definition csv_line :: "csv_state \<Rightarrow> string \<Rightarrow> exc + csv_state" where
  "csv_line st l = rbind (rfold (\<lambda>s c. csv_char s (Some c)) st l) (\<lambda>s. csv_char s None)"

text \<open>
  The records of the remaining lines, and the error that ended the iteration, if one did. A
  record ends when a line leaves the machine at the start of a record; at the end of the input a
  half-read field is saved.
\<close>

fun csv_records :: "csv_state \<Rightarrow> string list \<Rightarrow> string list list \<times> exc option" where
  "csv_records st [] =
     (if cur_cell st \<noteq> [] \<or> csv_mode_of st = InQuoted
      then ([done_cells (save_field StartRecord st)], None) else ([], None))"
| "csv_records st (l # ls) =
     (case csv_line st l of
        Inl e \<Rightarrow> ([], Some e)
      | Inr s \<Rightarrow>
          if csv_mode_of s = StartRecord
          then (case csv_records csv_init ls of (rs, e) \<Rightarrow> (done_cells s # rs, e))
          else csv_records s ls)"

definition csv_read :: "string \<Rightarrow> string list list \<times> exc option" where
  "csv_read text = csv_records csv_init (lines_of text)"

section \<open>DictReader\<close>

text \<open>
  A row as a dictionary: a named column maps to its cell, or to \<open>None\<close> when the record is
  short; the cells of a long record stand together under the key \<open>None\<close>.
\<close>

datatype cell = Cell "string option" | Rest "string list"

type_synonym csv_row = "(string option \<times> cell) list"

definition row_dict :: "string list \<Rightarrow> string list \<Rightarrow> csv_row" where
  "row_dict hs r =
     dict_of (zip (map Some hs) (map (Cell \<circ> Some) r)
       @ (if length hs < length r then [(None, Rest (drop (length hs) r))]
          else map (\<lambda>h. (Some h, Cell None)) (drop (length r) hs)))"

record dict_reader =
  fieldnames :: "string list option"
  rows :: "csv_row list"
  failure :: "exc option"

text \<open>The header is the first record, blank or not; later blank records are skipped.\<close>

definition dict_reader_of :: "string \<Rightarrow> exc + dict_reader" where
  "dict_reader_of text =
     (case csv_read text of
        ([], Some e) \<Rightarrow> Inl e
      | ([], None) \<Rightarrow> Inr \<lparr>fieldnames = None, rows = [], failure = None\<rparr>
      | (h # rs, e) \<Rightarrow>
          Inr \<lparr>fieldnames = Some h, rows = map (row_dict h) (filter (\<lambda>r. r \<noteq> []) rs), failure = e\<rparr>)"

text \<open>\<open>row.get(c) or ""\<close>.\<close>

definition row_text :: "csv_row \<Rightarrow> string \<Rightarrow> string" where
  "row_text row c = (case map_of row (Some c) of Some (Cell (Some v)) \<Rightarrow> v | _ \<Rightarrow> [])"

lemma row_dict_header_key:
  assumes "map_of (row_dict hs r) (Some h) = Some v"
  shows "h \<in> set hs \<and> (\<exists>x. v = Cell x)"
proof -
  let ?kvs = "zip (map Some hs) (map (Cell \<circ> Some) r)
       @ (if length hs < length r then [(None, Rest (drop (length hs) r))]
          else map (\<lambda>h. (Some h, Cell None)) (drop (length r) hs))"
  from assms have "map_of (rev ?kvs) (Some h) = Some v"
    by (simp only: row_dict_def map_of_dict_of)
  then have "(Some h, v) \<in> set (rev ?kvs)"
    by (rule map_of_SomeD)
  then show ?thesis
    by (auto simp: set_zip dest: in_set_dropD split: if_splits)
qed

text \<open>A plain cell (no comma, quote or line break) is read back as it is.\<close>

definition plain :: "string \<Rightarrow> bool" where
  "plain s \<longleftrightarrow> list_all (\<lambda>c. c \<noteq> CHR '','' \<and> c \<noteq> CHR 0x22 \<and> c \<noteq> CHR 0x0A \<and> c \<noteq> CHR 0x0D) s"

lemma csv_in_field_plain:
  assumes "plain s" "csv_mode_of st = InField" "length (cur_cell st) + length s \<le> field_limit"
  shows "rfold (\<lambda>s c. csv_char s (Some c)) st s = Inr (st\<lparr>cur_cell := cur_cell st @ s\<rparr>)"
  using assms
proof (induction s arbitrary: st)
  case (Cons c s)
  then have "csv_char st (Some c) = Inr (st\<lparr>cur_cell := cur_cell st @ [c]\<rparr>)"
    by (auto simp: plain_def is_eol_def add_char_def)
  with Cons show ?case by (simp add: plain_def)
qed simp

lemma csv_start_field_plain:
  assumes "plain s" "s \<noteq> []" "csv_mode_of st \<in> {StartField, StartRecord}" "cur_cell st = []"
    "length s \<le> field_limit"
  shows "rfold (\<lambda>s c. csv_char s (Some c)) st s = Inr (st\<lparr>csv_mode_of := InField, cur_cell := s\<rparr>)"
proof -
  obtain c r where s: "s = c # r" using assms(2) by (cases s) auto
  have "csv_char st (Some c) = Inr (st\<lparr>csv_mode_of := InField, cur_cell := [c]\<rparr>)"
    using assms by (auto simp: s plain_def is_eol_def add_char_def start_field_def)
  moreover have "rfold (\<lambda>s c. csv_char s (Some c)) (st\<lparr>csv_mode_of := InField, cur_cell := [c]\<rparr>) r
      = Inr (st\<lparr>csv_mode_of := InField, cur_cell := s\<rparr>)"
    using assms csv_in_field_plain[of r "st\<lparr>csv_mode_of := InField, cur_cell := [c]\<rparr>"]
    by (simp add: s plain_def)
  ultimately show ?thesis by (simp add: s)
qed

end
