(* ===== verification/Validate.thy ===== *)
theory Validate
  imports Contract Csv "HOL-Library.List_Lexorder" "HOL-Library.Char_ord"
begin

text \<open>
  \<open>src/src/silver/validate.py\<close>: the structural validator of the transaction document types,
  driven by a field contract. A file is accepted whole or refused whole; the rejections collect in
  a list that every step passes on. What the Python code raises instead of collecting, a row
  longer than the header (\<open>AttributeError\<close>), a comparison with a NaN (\<open>InvalidOperation\<close>)
  or a broken CSV file, is the result \<open>Inl\<close>.
\<close>

section \<open>Data\<close>

datatype attr_value = AText string | AInt int

type_synonym attrs = "(string \<times> attr_value) list"
type_synonym vrow = "(string \<times> string) list"

record validated_line =
  vl_number :: int
  vl_hsn_sac :: string
  vl_description :: "string option"
  vl_quantity :: decimal
  vl_uom :: "string option"
  vl_unit_price :: decimal
  vl_taxable :: decimal
  vl_gst_rate :: decimal
  vl_cgst :: decimal
  vl_sgst :: decimal
  vl_igst :: decimal
  vl_cess :: decimal
  vl_itc :: decimal
  vl_attributes :: attrs

record validated_document =
  vd_number :: string
  vd_date :: date
  vd_gstin :: "string option"
  vd_name :: "string option"
  vd_currency :: string
  vd_lines :: "validated_line list"
  vd_attributes :: attrs

record validation_result =
  vr_documents :: "validated_document list"
  vr_rejections :: "string list"

definition vr_ok :: "validation_result \<Rightarrow> bool" where
  "vr_ok r \<longleftrightarrow> vr_rejections r = []"

definition vr_row_count :: "validation_result \<Rightarrow> nat" where
  "vr_row_count r = sum_list (map (\<lambda>d. length (vd_lines d)) (vr_documents r))"

text \<open>The totals; adding a signalling NaN, or infinities of both signs, raises.\<close>

definition tax_amount :: "validated_line \<Rightarrow> exc + decimal" where
  "tax_amount l = rbind (dec_add (vl_cgst l) (vl_sgst l)) (\<lambda>a. rbind (dec_add a (vl_igst l)) (\<lambda>b. dec_add b (vl_cess l)))"

definition total_taxable_value :: "validated_document \<Rightarrow> exc + decimal" where
  "total_taxable_value d = dec_sum (map vl_taxable (vd_lines d))"

definition total_tax_value :: "validated_document \<Rightarrow> exc + decimal" where
  "total_tax_value d = rfold (\<lambda>acc l. rbind (tax_amount l) (dec_add acc)) dec_zero (vd_lines d)"

definition total_value :: "validated_document \<Rightarrow> exc + decimal" where
  "total_value d = rbind (total_taxable_value d) (\<lambda>a. rbind (total_tax_value d) (dec_add a))"

section \<open>Patterns and columns\<close>

definition required_document_columns :: "string list" where
  "required_document_columns = [''doc_number'', ''doc_date'', ''line_number'', ''hsn_sac'', ''quantity'',
     ''unit_price'', ''taxable_value'', ''gst_rate'']"

definition gstin_re :: "string \<Rightarrow> bool" where
  "gstin_re s = re_dollar (\<lambda>t. length t = 15 \<and> list_all is_digit (take 2 t)
     \<and> list_all (\<lambda>c. is_upper c \<or> is_digit c) (drop 2 t)) s"

definition hsn_re :: "string \<Rightarrow> bool" where
  "hsn_re s = re_dollar (\<lambda>t. 4 \<le> length t \<and> length t \<le> 8 \<and> list_all is_digit t) s"

definition hash64_re :: "string \<Rightarrow> bool" where
  "hash64_re s = re_dollar (\<lambda>t. length t = 64 \<and> list_all (\<lambda>c. is_upper c \<or> is_lower c \<or> is_digit c) t) s"

section \<open>Cleansing\<close>

definition row_msg :: "nat \<Rightarrow> string \<Rightarrow> string" where
  "row_msg n m = ''row '' @ nat_str n @ '': '' @ m"

definition clean_dec :: "string \<Rightarrow> string \<Rightarrow> nat \<Rightarrow> string list \<Rightarrow> decimal \<times> string list" where
  "clean_dec raw name n errs =
     (let t = strip (if raw = [] then ''0'' else raw); u = (if t = [] then ''0'' else t) in
      case py_decimal u of
        None \<Rightarrow> (dec_zero, errs @ [row_msg n (name @ '' is not a number: '' @ py_repr raw)])
      | Some d \<Rightarrow> (d, errs))"

definition clean_date :: "string \<Rightarrow> string \<Rightarrow> nat \<Rightarrow> string list \<Rightarrow> date option \<times> string list" where
  "clean_date raw0 name n errs =
     (let raw = strip raw0 in
      if raw = [] then (None, errs)
      else case strptime_ymd raw of Some d \<Rightarrow> (Some d, errs)
      | None \<Rightarrow> (case strptime_dmy (CHR ''/'') raw of Some d \<Rightarrow> (Some d, errs)
      | None \<Rightarrow> (case strptime_dmy (CHR ''-'') raw of Some d \<Rightarrow> (Some d, errs)
      | None \<Rightarrow> (None, errs @ [row_msg n (name @ '' is not a recognised date: '' @ py_repr raw)]))))"

definition clean_gstin :: "string \<Rightarrow> string" where
  "clean_gstin raw = strip (filter (\<lambda>c. c \<noteq> CHR '' '') (upper raw))"

definition coerce_attribute :: "attribute \<Rightarrow> string \<Rightarrow> nat \<Rightarrow> string list \<Rightarrow> attr_value option \<times> string list" where
  "coerce_attribute attr raw0 n errs =
     (let raw = strip raw0; ty = attr_type attr; name = attr_name attr in
      if raw = [] then (None, errs)
      else if ty = ''text'' then (Some (AText raw), errs)
      else if ty = ''date'' then
        (case clean_date raw name n errs of (d, errs') \<Rightarrow> (map_option (AText \<circ> isoformat) d, errs'))
      else if ty = ''money'' \<or> ty = ''qty'' \<or> ty = ''rate'' then
        (case clean_dec raw name n errs of (d, errs') \<Rightarrow> (Some (AText (dec_str d)), errs'))
      else if ty = ''int'' then
        (case py_int raw of Some i \<Rightarrow> (Some (AInt i), errs)
         | None \<Rightarrow> (None, errs @ [row_msg n (name @ '' is not an integer: '' @ py_repr raw)]))
      else if ty = ''gstin'' then
        (if gstin_re (clean_gstin raw) then (Some (AText (clean_gstin raw)), errs)
         else (None, errs @ [row_msg n (name @ '' is not a valid GSTIN: '' @ py_repr (clean_gstin raw))]))
      else if ty = ''hsn'' then
        (if hsn_re raw then (Some (AText raw), errs)
         else (None, errs @ [row_msg n (name @ '' must be 4-8 digits, got '' @ py_repr raw)]))
      else if ty = ''hash64'' then
        (if hash64_re raw then (Some (AText raw), errs)
         else (None, errs @ [row_msg n (name @ '' must be 64 alphanumeric characters, got '' @ nat_str (length raw))]))
      else (None, errs @ [row_msg n (name @ '' has unsupported type '' @ py_repr ty)]))"

definition get :: "vrow \<Rightarrow> string \<Rightarrow> string" where
  "get row c = (case map_of row c of Some v \<Rightarrow> v | None \<Rightarrow> [])"

text \<open>\<open>row.get(c, d)\<close>.\<close>

definition get_default :: "vrow \<Rightarrow> string \<Rightarrow> string \<Rightarrow> string" where
  "get_default row c d = (case map_of row c of Some v \<Rightarrow> v | None \<Rightarrow> d)"

definition or_none :: "string \<Rightarrow> string option" where
  "or_none s = (if s = [] then None else Some s)"

definition collect_attribute :: "vrow \<Rightarrow> nat \<Rightarrow> attribute \<Rightarrow> attrs \<times> string list \<Rightarrow> attrs \<times> string list" where
  "collect_attribute row n attr acc =
     (case acc of (out, errs) \<Rightarrow>
        case coerce_attribute attr (get row (attr_name attr)) n errs of
          (None, errs') \<Rightarrow>
            (out, errs' @ (if attr_required attr
               then [row_msg n (attr_name attr @ '' is mandatory for this document type'')] else []))
        | (Some v, errs') \<Rightarrow> (dict_put (attr_name attr) v out, errs'))"

definition collect_attributes :: "attribute list \<Rightarrow> vrow \<Rightarrow> nat \<Rightarrow> string list \<Rightarrow> attrs \<times> string list" where
  "collect_attributes as row n errs = fold (collect_attribute row n) as ([], errs)"

section \<open>Lines\<close>

text \<open>\<open>igst > 0 and (cgst > 0 or sgst > 0)\<close>, evaluated from the left.\<close>

definition both_heads :: "decimal \<Rightarrow> decimal \<Rightarrow> decimal \<Rightarrow> exc + bool" where
  "both_heads ig cg sg =
     rbind (dec_gt ig dec_zero) (\<lambda>a. if \<not> a then Inr False
       else rbind (dec_gt cg dec_zero) (\<lambda>b. if b then Inr True else dec_gt sg dec_zero))"

text \<open>\<open>Decimal(0) <= rate <= Decimal(100)\<close>.\<close>

definition rate_in_range :: "decimal \<Rightarrow> exc + bool" where
  "rate_in_range r = rbind (dec_le dec_zero r) (\<lambda>a. if a then dec_le r (dec_of_nat 100) else Inr False)"

definition validate_line ::
  "field_contract \<Rightarrow> nat \<times> vrow \<Rightarrow> string list \<Rightarrow> exc + validated_line option \<times> string list" where
  "validate_line fc nr errs =
     (case nr of (n, row) \<Rightarrow>
      case py_int (get row ''line_number'') of
        None \<Rightarrow> Inr (None, errs @ [row_msg n ''line_number is not an integer''])
      | Some num \<Rightarrow>
        let hsn = strip (get row ''hsn_sac'') in
        if \<not> hsn_re hsn then Inr (None, errs @ [row_msg n (''hsn_sac must be 4-8 digits, got '' @ py_repr hsn)])
        else
        case clean_dec (get row ''gst_rate'') ''gst_rate'' n errs of (rate, e1) \<Rightarrow>
        rbind (rate_in_range rate) (\<lambda>in_range.
        let e2 = e1 @ (if in_range then [] else [row_msg n (''gst_rate '' @ dec_str rate @ '' out of range 0-100'')]) in
        case clean_dec (get_default row ''cgst_amount'' ''0'') ''cgst_amount'' n e2 of (cg, e3) \<Rightarrow>
        case clean_dec (get_default row ''sgst_amount'' ''0'') ''sgst_amount'' n e3 of (sg, e4) \<Rightarrow>
        case clean_dec (get_default row ''igst_amount'' ''0'') ''igst_amount'' n e4 of (ig, e5) \<Rightarrow>
        rbind (both_heads ig cg sg) (\<lambda>both.
        let e6 = e5 @ (if both then [row_msg n (''both IGST and CGST/SGST are non-zero ''
              @ [CHR 0xE2, CHR 0x80, CHR 0x94] @ '' a supply cannot be intra-state and inter-state at once'')] else []) in
        case clean_dec (get row ''quantity'') ''quantity'' n e6 of (qty, e7) \<Rightarrow>
        case clean_dec (get row ''unit_price'') ''unit_price'' n e7 of (price, e8) \<Rightarrow>
        case clean_dec (get row ''taxable_value'') ''taxable_value'' n e8 of (taxable, e9) \<Rightarrow>
        case clean_dec (get_default row ''cess_amount'' ''0'') ''cess_amount'' n e9 of (ces, e10) \<Rightarrow>
        case clean_dec (get_default row ''itc_amount'' ''0'') ''itc_amount'' n e10 of (itc, e11) \<Rightarrow>
        case collect_attributes (line_attributes fc) row n e11 of (as, e12) \<Rightarrow>
          Inr (Some \<lparr>vl_number = num, vl_hsn_sac = hsn, vl_description = or_none (get row ''description''),
            vl_quantity = qty,
            vl_uom = (case or_none (get row ''uom'') of Some u \<Rightarrow> Some u
                      | None \<Rightarrow> or_none (get row ''unit_of_measure'')),
            vl_unit_price = price, vl_taxable = taxable, vl_gst_rate = rate, vl_cgst = cg, vl_sgst = sg,
            vl_igst = ig, vl_cess = ces, vl_itc = itc, vl_attributes = as\<rparr>, e12))))"

text \<open>\<open>_validate_lines\<close>: the lines of one document that could be read, in file order.\<close>

definition validate_lines ::
  "field_contract \<Rightarrow> (nat \<times> vrow) list \<Rightarrow> string list \<Rightarrow> exc + validated_line list \<times> string list" where
  "validate_lines fc nrs errs =
     rfold (\<lambda>(ls, es) r. rbind (validate_line fc r es) (\<lambda>(l, es').
       Inr (ls @ (case l of None \<Rightarrow> [] | Some x \<Rightarrow> [x]), es'))) ([], errs) nrs"

section \<open>Rows\<close>

text \<open>
  \<open>{(k or "").strip().lower(): (v or "").strip() for k, v in raw_row.items()}\<close>: the
  cells of a long row are a list, which has no \<open>strip\<close>.
\<close>

definition norm_name :: "string option \<Rightarrow> string" where
  "norm_name k = lower (strip (case k of Some x \<Rightarrow> x | None \<Rightarrow> []))"

definition norm_item :: "string option \<times> cell \<Rightarrow> exc + string \<times> string" where
  "norm_item kv = (case snd kv of
      Rest xs \<Rightarrow> (if xs = [] then Inr (norm_name (fst kv), []) else Inl (AttributeError ''strip''))
    | Cell v \<Rightarrow> Inr (norm_name (fst kv), strip (case v of Some x \<Rightarrow> x | None \<Rightarrow> [])))"

definition norm_row :: "csv_row \<Rightarrow> exc + vrow" where
  "norm_row raw = rbind (rmap norm_item raw) (\<lambda>kvs. Inr (dict_of kvs))"

record doc_head =
  dh_date :: date
  dh_gstin :: "string option"
  dh_name :: "string option"
  dh_currency :: string
  dh_attributes :: attrs

type_synonym doc_key = "string \<times> string"

record vstate =
  vs_errs :: "string list"
  vs_grouped :: "(doc_key \<times> (nat \<times> vrow) list) list"
  vs_heads :: "(doc_key \<times> doc_head) list"

definition reject :: "vstate \<Rightarrow> nat \<Rightarrow> string \<Rightarrow> vstate" where
  "reject st n m = st\<lparr>vs_errs := vs_errs st @ [row_msg n m]\<rparr>"

text \<open>The checks on the counterparty: the rejection, if there is one.\<close>

definition gstin_problem :: "counterparty \<Rightarrow> string \<Rightarrow> string option" where
  "gstin_problem cp gstin =
     (if gstin \<noteq> [] \<and> \<not> gstin_re gstin then Some (''counterparty_gstin is not valid: '' @ py_repr gstin)
      else if gstin = [] \<and> cp = REQUIRED then Some ''counterparty_gstin is mandatory for this document type''
      else if gstin \<noteq> [] \<and> cp = FOREIGN then
        Some (''this document type has an overseas counterparty, but a GSTIN was supplied: '' @ py_repr gstin)
      else None)"

text \<open>The body of the first loop, for a normalised row.\<close>

definition take_row :: "field_contract \<Rightarrow> nat \<Rightarrow> vrow \<Rightarrow> vstate \<Rightarrow> vstate" where
  "take_row fc n row st =
     (let number = strip (get row ''doc_number'') in
      if number = [] then reject st n ''doc_number is mandatory''
      else let gstin = clean_gstin (get row ''counterparty_gstin'') in
      case gstin_problem (fc_counterparty fc) gstin of Some m \<Rightarrow> reject st n m
      | None \<Rightarrow>
        let name = or_none (get row ''counterparty_name'') in
        if name = None \<and> fc_counterparty fc = FOREIGN
        then reject st n ''counterparty_name is mandatory for this document type''
        else case clean_date (get row ''doc_date'') ''doc_date'' n (vs_errs st) of
          (None, errs) \<Rightarrow>
            if list_ex (starts_with (row_msg n ''doc_date'')) errs then st\<lparr>vs_errs := errs\<rparr>
            else reject (st\<lparr>vs_errs := errs\<rparr>) n ''doc_date is mandatory''
        | (Some d, errs) \<Rightarrow>
            let key = (number, gstin); grouped = group_add key (n, row) (vs_grouped st) in
            if key \<in> set (map fst (vs_heads st)) then st\<lparr>vs_errs := errs, vs_grouped := grouped\<rparr>
            else case collect_attributes (doc_attributes fc) row n errs of (as, errs') \<Rightarrow>
              st\<lparr>vs_errs := errs', vs_grouped := grouped,
                 vs_heads := vs_heads st @ [(key, \<lparr>dh_date = d, dh_gstin = or_none gstin, dh_name = name,
                   dh_currency = (let c = get row ''currency'' in if c = [] then ''INR'' else c),
                   dh_attributes = as\<rparr>)]\<rparr>)"

definition take_rows :: "field_contract \<Rightarrow> (nat \<times> csv_row) list \<Rightarrow> exc + vstate" where
  "take_rows fc raws =
     rfold (\<lambda>st (n, raw). rbind (norm_row raw) (\<lambda>row. Inr (take_row fc n row st)))
       \<lparr>vs_errs = [], vs_grouped = [], vs_heads = []\<rparr> raws"

section \<open>Documents\<close>

definition document_of :: "doc_key \<Rightarrow> doc_head \<Rightarrow> validated_line list \<Rightarrow> validated_document" where
  "document_of key h ls =
     \<lparr>vd_number = fst key, vd_date = dh_date h, vd_gstin = dh_gstin h, vd_name = dh_name h,
      vd_currency = dh_currency h, vd_lines = sort_key vl_number ls, vd_attributes = dh_attributes h\<rparr>"

text \<open>The body of the second loop; \<open>heads\<close> has every key of a group.\<close>

definition make_document ::
  "field_contract \<Rightarrow> (doc_key \<times> doc_head) list \<Rightarrow> doc_key \<times> (nat \<times> vrow) list \<Rightarrow> validation_result
    \<Rightarrow> exc + validation_result" where
  "make_document fc heads g res =
     (case map_of heads (fst g) of None \<Rightarrow> Inl (KeyError ''headers'')
      | Some h \<Rightarrow>
        rbind (validate_lines fc (snd g) (vr_rejections res)) (\<lambda>(ls, errs).
          if ls = [] then Inr (res\<lparr>vr_rejections := errs\<rparr>)
          else Inr (res\<lparr>
            vr_documents := vr_documents res @ [document_of (fst g) h ls],
            vr_rejections := errs @ (if distinct (map vl_number ls) then []
              else [''document '' @ fst (fst g) @ '': duplicate line_number values''])\<rparr>)))"

definition make_documents :: "field_contract \<Rightarrow> vstate \<Rightarrow> exc + validation_result" where
  "make_documents fc st =
     (let errs = (if vs_grouped st = [] \<and> vs_errs st = []
                  then [''file contains a header but no data rows''] else vs_errs st)
      in rfold (\<lambda>res g. make_document fc (vs_heads st) g res)
           \<lparr>vr_documents = [], vr_rejections = errs\<rparr> (vs_grouped st))"

definition required_for :: "field_contract \<Rightarrow> string list" where
  "required_for fc = required_document_columns
     @ (case fc_counterparty fc of REQUIRED \<Rightarrow> [''counterparty_gstin''] | FOREIGN \<Rightarrow> [''counterparty_name''] | OPTIONAL \<Rightarrow> [])
     @ required_attributes (doc_attributes fc) @ required_attributes (line_attributes fc)"

definition refused_file :: "string \<Rightarrow> validation_result" where
  "refused_file m = \<lparr>vr_documents = [], vr_rejections = [m]\<rparr>"

definition numbered_rows :: "dict_reader \<Rightarrow> (nat \<times> csv_row) list" where
  "numbered_rows reader = zip [2..<2 + length (rows reader)] (rows reader)"

definition missing_required :: "field_contract \<Rightarrow> string list \<Rightarrow> string list" where
  "missing_required fc h = sort (filter (\<lambda>c. c \<notin> set (map (\<lambda>x. norm_name (Some x)) h)) (remdups (required_for fc)))"

definition validate_transaction_csv :: "bytes \<Rightarrow> field_contract \<Rightarrow> exc + validation_result" where
  "validate_transaction_csv data fc =
     (case decode_utf8_sig data of
        None \<Rightarrow> Inr (refused_file ''file is not valid UTF-8'')
      | Some content \<Rightarrow>
          rbind (dict_reader_of content) (\<lambda>reader.
          case fieldnames reader of
            None \<Rightarrow> Inr (refused_file ''file has no header row'')
          | Some h \<Rightarrow>
              if missing_required fc h \<noteq> []
              then Inr (refused_file (''missing mandatory columns: '' @ join '', '' (missing_required fc h)))
              else rbind (take_rows fc (numbered_rows reader)) (\<lambda>st.
                case failure reader of Some e \<Rightarrow> Inl e | None \<Rightarrow> make_documents fc st)))"

section \<open>What a step that rejects nothing has checked\<close>

text \<open>The value of an attribute under its declared type.\<close>

definition attr_typed :: "attribute \<Rightarrow> attr_value \<Rightarrow> bool" where
  "attr_typed a v \<longleftrightarrow>
     (case v of
        AInt i \<Rightarrow> attr_type a = ''int''
      | AText t \<Rightarrow>
          attr_type a = ''text'' \<and> t \<noteq> []
        \<or> attr_type a = ''date'' \<and> (\<exists>d. valid_date d \<and> t = isoformat d)
        \<or> attr_type a \<in> {''money'', ''qty'', ''rate''} \<and> (\<exists>d. t = dec_str d)
        \<or> attr_type a = ''gstin'' \<and> gstin_re t
        \<or> attr_type a = ''hsn'' \<and> hsn_re t
        \<or> attr_type a = ''hash64'' \<and> hash64_re t)"

definition attrs_ok :: "attribute list \<Rightarrow> attrs \<Rightarrow> bool" where
  "attrs_ok as out \<longleftrightarrow> distinct (map fst out)
     \<and> (\<forall>(k, v)\<in>set out. \<exists>a\<in>set as. attr_name a = k \<and> attr_typed a v)
     \<and> (\<forall>a\<in>set as. attr_required a \<longrightarrow> attr_name a \<in> set (map fst out))"

definition line_ok :: "field_contract \<Rightarrow> validated_line \<Rightarrow> bool" where
  "line_ok fc l \<longleftrightarrow> hsn_re (vl_hsn_sac l) \<and> rate_in_range (vl_gst_rate l) = Inr True
     \<and> both_heads (vl_igst l) (vl_cgst l) (vl_sgst l) = Inr False \<and> attrs_ok (line_attributes fc) (vl_attributes l)"

definition counterparty_ok :: "counterparty \<Rightarrow> string option \<Rightarrow> string option \<Rightarrow> bool" where
  "counterparty_ok cp gstin name \<longleftrightarrow> (\<forall>g. gstin = Some g \<longrightarrow> gstin_re g)
     \<and> (cp = REQUIRED \<longrightarrow> gstin \<noteq> None) \<and> (cp = FOREIGN \<longrightarrow> gstin = None \<and> name \<noteq> None)"

definition head_ok :: "field_contract \<Rightarrow> doc_head \<Rightarrow> bool" where
  "head_ok fc h \<longleftrightarrow> valid_date (dh_date h) \<and> counterparty_ok (fc_counterparty fc) (dh_gstin h) (dh_name h)
     \<and> attrs_ok (doc_attributes fc) (dh_attributes h)"

definition doc_ok :: "field_contract \<Rightarrow> validated_document \<Rightarrow> bool" where
  "doc_ok fc d \<longleftrightarrow> vd_number d \<noteq> [] \<and> valid_date (vd_date d)
     \<and> counterparty_ok (fc_counterparty fc) (vd_gstin d) (vd_name d)
     \<and> attrs_ok (doc_attributes fc) (vd_attributes d)
     \<and> vd_lines d \<noteq> [] \<and> sorted_wrt (<) (map vl_number (vd_lines d)) \<and> (\<forall>l\<in>set (vd_lines d). line_ok fc l)"

lemma clean_dec_clean: "clean_dec raw name n errs = (d, []) \<Longrightarrow> errs = []"
  by (auto simp: clean_dec_def Let_def split: option.splits)

lemma clean_date_clean:
  "clean_date raw name n errs = (r, []) \<Longrightarrow> errs = [] \<and> (\<forall>d. r = Some d \<longrightarrow> valid_date d)"
  by (auto simp: clean_date_def Let_def dest: strptime_ymd_valid strptime_dmy_valid split: option.splits if_splits)

lemma clean_date_Some: "clean_date raw name n errs = (Some d, errs') \<Longrightarrow> errs' = errs \<and> valid_date d"
  by (auto simp: clean_date_def Let_def dest: strptime_ymd_valid strptime_dmy_valid split: option.splits if_splits)

lemma coerce_attribute_clean:
  assumes "coerce_attribute a raw n errs = (v, [])"
  shows "errs = [] \<and> (\<forall>x. v = Some x \<longrightarrow> attr_typed a x)"
proof (cases "strip raw = []")
  case True
  with assms show ?thesis by (simp add: coerce_attribute_def Let_def)
next
  case ne: False
  consider "attr_type a = ''text''" | "attr_type a = ''date''" | "attr_type a \<in> {''money'', ''qty'', ''rate''}"
    | "attr_type a = ''int''" | "attr_type a = ''gstin''" | "attr_type a = ''hsn''" | "attr_type a = ''hash64''"
    | "attr_type a \<notin> {''text'', ''date'', ''money'', ''qty'', ''rate'', ''int'', ''gstin'', ''hsn'', ''hash64''}"
    by blast
  then show ?thesis
  proof cases
    case 2
    obtain d e where d: "clean_date (strip raw) (attr_name a) n errs = (d, e)" by (cases "clean_date (strip raw) (attr_name a) n errs")
    with 2 ne assms have "e = []" "v = map_option (AText \<circ> isoformat) d"
      by (simp_all add: coerce_attribute_def Let_def)
    with clean_date_clean[of "strip raw" "attr_name a" n errs d] d 2 show ?thesis by (auto simp: attr_typed_def)
  next
    case 3
    obtain d e where d: "clean_dec (strip raw) (attr_name a) n errs = (d, e)" by (cases "clean_dec (strip raw) (attr_name a) n errs")
    with 3 ne assms have "e = []" "v = Some (AText (dec_str d))"
      by (auto simp: coerce_attribute_def Let_def)
    with clean_dec_clean d 3 show ?thesis by (auto simp: attr_typed_def)
  qed (use ne assms in \<open>auto simp: coerce_attribute_def Let_def attr_typed_def split: option.splits if_splits\<close>)
qed

lemma collect_attribute_clean:
  assumes "collect_attribute row n a (out, errs) = (out', [])"
  shows "errs = [] \<and> (out' = out \<and> \<not> attr_required a \<or> (\<exists>v. out' = dict_put (attr_name a) v out \<and> attr_typed a v))"
  using assms coerce_attribute_clean[of a "get row (attr_name a)" n errs]
  by (auto simp: collect_attribute_def split: prod.splits option.splits if_splits)

lemma set_dict_put: "(k, v) \<in> set (dict_put j w d) \<Longrightarrow> (k = j \<and> v = w) \<or> (k, v) \<in> set d"
  by (induction d) (auto split: if_splits)

lemma attrs_ok_put:
  assumes "attrs_ok as out" "attr_typed a v"
  shows "attrs_ok (as @ [a]) (dict_put (attr_name a) v out)"
  using assms set_dict_put[of _ _ "attr_name a" v out] keys_dict_put[of "attr_name a" v out]
  by (fastforce simp: attrs_ok_def distinct_dict_put)

lemma collect_attributes_clean:
  assumes "collect_attributes as row n errs = (out, [])"
  shows "errs = [] \<and> attrs_ok as out"
  using assms
proof (induction as arbitrary: out rule: rev_induct)
  case Nil
  then show ?case by (simp add: collect_attributes_def attrs_ok_def)
next
  case (snoc a as)
  obtain o1 e1 where f: "collect_attributes as row n errs = (o1, e1)" by (cases "collect_attributes as row n errs")
  with snoc.prems have c: "collect_attribute row n a (o1, e1) = (out, [])"
    by (simp add: collect_attributes_def)
  note cc = collect_attribute_clean[OF c]
  with f snoc.IH have ih: "errs = []" "attrs_ok as o1" by auto
  from cc have "attrs_ok (as @ [a]) out"
  proof (elim conjE disjE exE)
    assume "out = o1" "\<not> attr_required a"
    with ih(2) show ?thesis by (fastforce simp: attrs_ok_def)
  next
    fix v assume "out = dict_put (attr_name a) v o1" "attr_typed a v"
    with attrs_ok_put[OF ih(2)] show ?thesis by simp
  qed
  with ih(1) show ?case by simp
qed

lemma validate_line_clean:
  assumes "validate_line fc r errs = Inr (l, [])"
  shows "errs = [] \<and> (\<exists>x. l = Some x \<and> line_ok fc x)"
proof -
  obtain n row where r: "r = (n, row)" by (cases r)
  from assms obtain num where num: "py_int (get row ''line_number'') = Some num"
    by (cases "py_int (get row ''line_number'')") (auto simp: validate_line_def r)
  let ?hsn = "strip (get row ''hsn_sac'')"
  have h: "hsn_re ?hsn" using assms num by (auto simp: validate_line_def r Let_def split: if_splits)
  obtain rate e1 where c1: "clean_dec (get row ''gst_rate'') ''gst_rate'' n errs = (rate, e1)" by fastforce
  from assms obtain rg where rg: "rate_in_range rate = Inr rg"
    by (cases "rate_in_range rate") (auto simp: validate_line_def r num h c1 Let_def)
  let ?e2 = "e1 @ (if rg then [] else [row_msg n (''gst_rate '' @ dec_str rate @ '' out of range 0-100'')])"
  obtain cg e3 where c3: "clean_dec (get_default row ''cgst_amount'' ''0'') ''cgst_amount'' n ?e2 = (cg, e3)" by fastforce
  obtain sg e4 where c4: "clean_dec (get_default row ''sgst_amount'' ''0'') ''sgst_amount'' n e3 = (sg, e4)" by fastforce
  obtain ig e5 where c5: "clean_dec (get_default row ''igst_amount'' ''0'') ''igst_amount'' n e4 = (ig, e5)" by fastforce
  from assms obtain bh where bh: "both_heads ig cg sg = Inr bh"
    by (cases "both_heads ig cg sg") (auto simp: validate_line_def r num h c1 rg c3 c4 c5 Let_def)
  let ?e6 = "e5 @ (if bh then [row_msg n (''both IGST and CGST/SGST are non-zero ''
              @ [CHR 0xE2, CHR 0x80, CHR 0x94] @ '' a supply cannot be intra-state and inter-state at once'')] else [])"
  obtain q e7 where c7: "clean_dec (get row ''quantity'') ''quantity'' n ?e6 = (q, e7)" by fastforce
  obtain p e8 where c8: "clean_dec (get row ''unit_price'') ''unit_price'' n e7 = (p, e8)" by fastforce
  obtain t e9 where c9: "clean_dec (get row ''taxable_value'') ''taxable_value'' n e8 = (t, e9)" by fastforce
  obtain ce e10 where c10: "clean_dec (get_default row ''cess_amount'' ''0'') ''cess_amount'' n e9 = (ce, e10)" by fastforce
  obtain it e11 where c11: "clean_dec (get_default row ''itc_amount'' ''0'') ''itc_amount'' n e10 = (it, e11)" by fastforce
  obtain as e12 where c12: "collect_attributes (line_attributes fc) row n e11 = (as, e12)" by fastforce
  from assms have e12: "e12 = []" and l: "\<exists>x. l = Some x \<and> vl_hsn_sac x = ?hsn \<and> vl_gst_rate x = rate
      \<and> vl_igst x = ig \<and> vl_cgst x = cg \<and> vl_sgst x = sg \<and> vl_attributes x = as"
    by (auto simp: validate_line_def r num h c1 rg c3 c4 c5 bh c7 c8 c9 c10 c11 c12 Let_def simp del: append_assoc)
  note a = collect_attributes_clean[OF c12[unfolded e12]]
  note b = clean_dec_clean[OF c11[unfolded conjunct1[OF a]]]
  note d = clean_dec_clean[OF c10[unfolded b]]
  note e = clean_dec_clean[OF c9[unfolded d]]
  note f = clean_dec_clean[OF c8[unfolded e]]
  note g = clean_dec_clean[OF c7[unfolded f]]
  then have g': "e5 = []" "\<not> bh" by (auto split: if_splits)
  note i = clean_dec_clean[OF c5[unfolded g'(1)]]
  note j = clean_dec_clean[OF c4[unfolded i]]
  note k = clean_dec_clean[OF c3[unfolded j]]
  then have k': "e1 = []" "rg" by (auto split: if_splits)
  have "errs = []" by (rule clean_dec_clean[OF c1[unfolded k'(1)]])
  with l a h rg bh g'(2) k'(2) show ?thesis by (auto simp: line_ok_def)
qed

lemma validate_lines_snoc:
  "validate_lines fc (rs @ [r]) errs = rbind (validate_lines fc rs errs) (\<lambda>(ls, es).
     rbind (validate_line fc r es) (\<lambda>(l, es'). Inr (ls @ (case l of None \<Rightarrow> [] | Some x \<Rightarrow> [x]), es')))"
  by (cases "validate_lines fc rs errs") (auto simp: validate_lines_def rfold_append rbind_Inr)

lemma validate_lines_clean:
  assumes "validate_lines fc rs errs = Inr (ls, [])"
  shows "errs = [] \<and> length ls = length rs \<and> (\<forall>l\<in>set ls. line_ok fc l)"
  using assms
proof (induction rs arbitrary: ls rule: rev_induct)
  case Nil
  then show ?case by (simp add: validate_lines_def)
next
  case (snoc r rs)
  from snoc.prems obtain ls1 es l where a: "validate_lines fc rs errs = Inr (ls1, es)"
    "validate_line fc r es = Inr (l, [])" "ls = ls1 @ (case l of None \<Rightarrow> [] | Some x \<Rightarrow> [x])"
    by (auto simp: validate_lines_snoc rbind_eq_Inr_iff)
  from validate_line_clean[OF a(2)] obtain x where x: "es = []" "l = Some x" "line_ok fc x" by blast
  from snoc.IH[OF a(1)[unfolded x(1)]] a(3) x show ?case by auto
qed

text \<open>A row the first loop rejects nothing of joins its group, and the first of a group makes its head.\<close>

definition grouping_key :: "vrow \<Rightarrow> doc_key" where
  "grouping_key row = (strip (get row ''doc_number''), clean_gstin (get row ''counterparty_gstin''))"

definition head_for :: "doc_key \<Rightarrow> doc_head \<Rightarrow> bool" where
  "head_for k h \<longleftrightarrow> fst k \<noteq> [] \<and> dh_gstin h = or_none (snd k)"

lemma take_row_clean:
  assumes "vs_errs (take_row fc n row st) = []"
  shows "vs_errs st = [] \<and> vs_grouped (take_row fc n row st) = group_add (grouping_key row) (n, row) (vs_grouped st)
    \<and> (if grouping_key row \<in> set (map fst (vs_heads st)) then vs_heads (take_row fc n row st) = vs_heads st
       else \<exists>h. vs_heads (take_row fc n row st) = vs_heads st @ [(grouping_key row, h)] \<and> head_ok fc h \<and> head_for (grouping_key row) h)"
proof -
  let ?k = "grouping_key row"
  let ?g = "clean_gstin (get row ''counterparty_gstin'')"
  have 1: "strip (get row ''doc_number'') \<noteq> []"
    using assms by (auto simp: take_row_def Let_def reject_def)
  have 2: "gstin_problem (fc_counterparty fc) ?g = None"
    using assms 1 by (cases "gstin_problem (fc_counterparty fc) ?g") (auto simp: take_row_def Let_def reject_def)
  have 3: "\<not> (or_none (get row ''counterparty_name'') = None \<and> fc_counterparty fc = FOREIGN)"
    using assms 1 2 by (auto simp: take_row_def Let_def reject_def)
  obtain r e where d: "clean_date (get row ''doc_date'') ''doc_date'' n (vs_errs st) = (r, e)" by fastforce
  have 4: "r \<noteq> None"
    using assms 1 2 3 d by (cases r) (auto simp: take_row_def Let_def reject_def split: if_splits)
  then obtain day where day: "r = Some day" by blast
  from clean_date_Some d day have e: "e = vs_errs st" "valid_date day" by auto
  show ?thesis
  proof (cases "?k \<in> set (map fst (vs_heads st))")
    case True
    with assms 1 2 3 d day e show ?thesis by (auto simp: take_row_def Let_def grouping_key_def)
  next
    case False
    obtain as e' where c: "collect_attributes (doc_attributes fc) row n e = (as, e')" by fastforce
    let ?h = "\<lparr>dh_date = day, dh_gstin = or_none ?g, dh_name = or_none (get row ''counterparty_name''),
      dh_currency = (let c = get row ''currency'' in if c = [] then ''INR'' else c), dh_attributes = as\<rparr>"
    have t: "take_row fc n row st = st\<lparr>vs_errs := e', vs_grouped := group_add ?k (n, row) (vs_grouped st),
        vs_heads := vs_heads st @ [(?k, ?h)]\<rparr>"
      using 1 2 3 d day c False
      by (cases "fc_counterparty fc = FOREIGN") (auto simp: take_row_def Let_def grouping_key_def)
    with assms have "e' = []" by simp
    from collect_attributes_clean[OF c[unfolded this]] have a: "e = []" "attrs_ok (doc_attributes fc) as" by auto
    have "counterparty_ok (fc_counterparty fc) (or_none ?g) (or_none (get row ''counterparty_name''))"
      using 2 3 by (auto simp: counterparty_ok_def gstin_problem_def or_none_def split: if_splits)
    with a e(2) have "head_ok fc ?h" by (simp add: head_ok_def)
    moreover have "head_for ?k ?h" using 1 by (simp add: head_for_def grouping_key_def)
    ultimately show ?thesis using t a(1) e(1) False by simp
  qed
qed

lemma take_rows_snoc:
  "take_rows fc (raws @ [(n, raw)]) = rbind (take_rows fc raws) (\<lambda>st. rbind (norm_row raw) (\<lambda>row. Inr (take_row fc n row st)))"
  by (cases "take_rows fc raws") (auto simp: take_rows_def rfold_append rbind_Inr)

lemma take_rows_clean:
  assumes "take_rows fc raws = Inr st" "vs_errs st = []"
  shows "\<exists>kxs. length kxs = length raws \<and> vs_grouped st = group_all kxs
    \<and> fst ` set (vs_heads st) = fst ` set kxs \<and> (\<forall>kh\<in>set (vs_heads st). head_ok fc (snd kh) \<and> head_for (fst kh) (snd kh))"
  using assms
proof (induction raws arbitrary: st rule: rev_induct)
  case Nil
  then show ?case by (intro exI[of _ "[]"]) (auto simp: take_rows_def group_all_def)
next
  case (snoc r raws)
  obtain n raw where r: "r = (n, raw)" by (cases r)
  from snoc.prems(1) obtain st0 row where a: "take_rows fc raws = Inr st0" "st = take_row fc n row st0"
    by (auto simp: r take_rows_snoc rbind_eq_Inr_iff)
  note t = take_row_clean[OF snoc.prems(2)[unfolded a(2)], folded a(2)]
  from snoc.IH[OF a(1)] t obtain kxs where k: "length kxs = length raws" "vs_grouped st0 = group_all kxs"
    "fst ` set (vs_heads st0) = fst ` set kxs" "\<forall>kh\<in>set (vs_heads st0). head_ok fc (snd kh) \<and> head_for (fst kh) (snd kh)"
    by blast
  have "fst ` set (vs_heads st) = insert (grouping_key row) (fst ` set (vs_heads st0))
      \<and> (\<forall>kh\<in>set (vs_heads st). head_ok fc (snd kh) \<and> head_for (fst kh) (snd kh))"
  proof (cases "grouping_key row \<in> set (map fst (vs_heads st0))")
    case True
    with t have "vs_heads st = vs_heads st0" by simp
    with True k(4) show ?thesis by (simp add: insert_absorb)
  next
    case False
    with t obtain h where "vs_heads st = vs_heads st0 @ [(grouping_key row, h)]" "head_ok fc h" "head_for (grouping_key row) h" by auto
    with k(4) show ?thesis by simp
  qed
  with t k show ?case
    by (intro exI[of _ "kxs @ [(grouping_key row, (n, row))]"]) (simp add: group_all_snoc)
qed

text \<open>What a group of rows becomes.\<close>

definition doc_key_of :: "validated_document \<Rightarrow> doc_key" where
  "doc_key_of d = (vd_number d, case vd_gstin d of None \<Rightarrow> [] | Some g \<Rightarrow> g)"

lemma or_none_back: "(case or_none s of None \<Rightarrow> [] | Some g \<Rightarrow> g) = s"
  by (simp add: or_none_def)

lemma make_document_clean:
  assumes m: "make_document fc heads g res = Inr res'" "vr_rejections res' = []"
    and h: "\<forall>kh\<in>set heads. head_ok fc (snd kh) \<and> head_for (fst kh) (snd kh)" and ne: "snd g \<noteq> []"
  shows "vr_rejections res = [] \<and> (\<exists>d. vr_documents res' = vr_documents res @ [d] \<and> doc_ok fc d
    \<and> doc_key_of d = fst g \<and> length (vd_lines d) = length (snd g))"
proof -
  from m(1) obtain h' ls errs where a: "map_of heads (fst g) = Some h'"
    "validate_lines fc (snd g) (vr_rejections res) = Inr (ls, errs)"
    by (auto simp: make_document_def rbind_eq_Inr_iff split: option.splits)
  have ho: "head_ok fc h'" "head_for (fst g) h'" using h map_of_SomeD[OF a(1)] by fastforce+
  have e: "errs = []" using m a by (auto simp: make_document_def split: if_splits)
  from validate_lines_clean[OF a(2)[unfolded e]] have l: "vr_rejections res = []" "length ls = length (snd g)"
    "\<forall>x\<in>set ls. line_ok fc x" by auto
  with ne have "ls \<noteq> []" by auto
  with m a e have r: "vr_documents res' = vr_documents res @ [document_of (fst g) h' ls]" "distinct (map vl_number ls)"
    by (auto simp: make_document_def split: if_splits)
  let ?d = "document_of (fst g) h' ls"
  have "sorted_wrt (<) (map vl_number (sort_key vl_number ls))"
    using r(2) by (simp add: strict_sorted_iff distinct_map)
  moreover have "sort_key vl_number ls \<noteq> []" using \<open>ls \<noteq> []\<close> by (metis length_0_conv length_sort)
  ultimately have "doc_ok fc ?d"
    using ho l(3) by (simp add: doc_ok_def document_of_def head_ok_def head_for_def)
  moreover have "doc_key_of ?d = fst g"
    using ho(2) or_none_back[of "snd (fst g)"] by (simp add: doc_key_of_def document_of_def head_for_def)
  moreover have "length (vd_lines ?d) = length (snd g)" using l(2) by (simp add: document_of_def)
  ultimately show ?thesis using l(1) r(1) by blast
qed

lemma make_all_clean:
  assumes "rfold (\<lambda>res g. make_document fc heads g res) res gs = Inr res'" "vr_rejections res' = []"
    and "\<forall>kh\<in>set heads. head_ok fc (snd kh) \<and> head_for (fst kh) (snd kh)" "\<forall>g\<in>set gs. snd g \<noteq> []"
  shows "vr_rejections res = [] \<and> (\<exists>ds. vr_documents res' = vr_documents res @ ds
    \<and> list_all2 (\<lambda>g d. doc_ok fc d \<and> doc_key_of d = fst g \<and> length (vd_lines d) = length (snd g)) gs ds)"
  using assms
proof (induction gs arbitrary: res)
  case (Cons g gs)
  from Cons.prems(1) obtain r1 where a: "make_document fc heads g res = Inr r1"
    "rfold (\<lambda>res g. make_document fc heads g res) r1 gs = Inr res'" by (auto simp: rbind_eq_Inr_iff)
  from Cons.IH[OF a(2) Cons.prems(2,3)] Cons.prems(4) obtain ds where d: "vr_rejections r1 = []"
    "vr_documents res' = vr_documents r1 @ ds"
    "list_all2 (\<lambda>g d. doc_ok fc d \<and> doc_key_of d = fst g \<and> length (vd_lines d) = length (snd g)) gs ds" by auto
  from make_document_clean[OF a(1) d(1) Cons.prems(3)] Cons.prems(4) obtain x where
    "vr_rejections res = []" "vr_documents r1 = vr_documents res @ [x]" "doc_ok fc x" "doc_key_of x = fst g"
    "length (vd_lines x) = length (snd g)" by auto
  with d show ?case by (intro conjI exI[of _ "x # ds"]) simp_all
qed simp

lemma make_document_grows:
  assumes "make_document fc heads g res = Inr res'" "vr_rejections res' = []"
  shows "vr_rejections res = []"
proof -
  from assms(1) obtain h ls errs where a: "map_of heads (fst g) = Some h"
    "validate_lines fc (snd g) (vr_rejections res) = Inr (ls, errs)"
    by (auto simp: make_document_def rbind_eq_Inr_iff split: option.splits)
  with assms have "errs = []" by (cases "ls = []") (auto simp: make_document_def)
  with a validate_lines_clean show ?thesis by blast
qed

lemma make_all_grows:
  "rfold (\<lambda>res g. make_document fc heads g res) q gs = Inr r \<Longrightarrow> vr_rejections r = [] \<Longrightarrow> vr_rejections q = []"
proof (induction gs arbitrary: q)
  case (Cons g gs)
  then obtain r1 where "make_document fc heads g q = Inr r1"
    "rfold (\<lambda>res g. make_document fc heads g res) r1 gs = Inr r" by (auto simp: rbind_eq_Inr_iff)
  with Cons show ?case using make_document_grows by blast
qed simp

lemma list_all2_keys:
  "list_all2 (\<lambda>g d. P g d \<and> f d = fst g \<and> length (h d) = length (snd g)) gs ds \<Longrightarrow>
     map f ds = map fst gs \<and> sum_list (map (\<lambda>d. length (h d)) ds) = sum_list (map (\<lambda>g. length (snd g)) gs)"
  by (induction rule: list_all2_induct) auto

lemma make_documents_clean:
  assumes "make_documents fc st = Inr res" "vr_ok res"
  shows "vs_errs st = [] \<and> vs_grouped st \<noteq> []
    \<and> rfold (\<lambda>res g. make_document fc (vs_heads st) g res) \<lparr>vr_documents = [], vr_rejections = []\<rparr> (vs_grouped st) = Inr res"
proof -
  obtain m where m: "m \<noteq> []" and f: "rfold (\<lambda>res g. make_document fc (vs_heads st) g res)
      \<lparr>vr_documents = [], vr_rejections = (if vs_grouped st = [] \<and> vs_errs st = [] then [m] else vs_errs st)\<rparr>
      (vs_grouped st) = Inr res"
  proof -
    show thesis by (rule that[OF _ assms(1)[unfolded make_documents_def Let_def]]) simp
  qed
  from make_all_grows[OF f] assms(2) have "(if vs_grouped st = [] \<and> vs_errs st = [] then [m] else vs_errs st) = []"
    by (simp add: vr_ok_def)
  then have "vs_errs st = [] \<and> vs_grouped st \<noteq> []" by (cases "vs_grouped st = [] \<and> vs_errs st = []") simp_all
  with f show ?thesis by simp
qed

lemma accepted_file:
  assumes "validate_transaction_csv data fc = Inr res" "vr_ok res"
  shows "(\<forall>d\<in>set (vr_documents res). doc_ok fc d) \<and> distinct (map doc_key_of (vr_documents res))
    \<and> vr_documents res \<noteq> []
    \<and> (\<exists>content reader. decode_utf8_sig data = Some content \<and> dict_reader_of content = Inr reader
         \<and> vr_row_count res = length (rows reader))"
proof -
  from assms obtain content reader st where a: "decode_utf8_sig data = Some content" "dict_reader_of content = Inr reader"
    "take_rows fc (numbered_rows reader) = Inr st" "make_documents fc st = Inr res"
    by (auto simp: validate_transaction_csv_def rbind_eq_Inr_iff vr_ok_def refused_file_def split: option.splits if_splits)
  from make_documents_clean[OF a(4) assms(2)] have e: "vs_errs st = []" "vs_grouped st \<noteq> []"
    and f: "rfold (\<lambda>res g. make_document fc (vs_heads st) g res) \<lparr>vr_documents = [], vr_rejections = []\<rparr> (vs_grouped st) = Inr res"
    by blast+
  from take_rows_clean[OF a(3) e(1)] obtain kxs where k: "length kxs = length (numbered_rows reader)"
    "vs_grouped st = group_all kxs"
    "\<forall>kh\<in>set (vs_heads st). head_ok fc (snd kh) \<and> head_for (fst kh) (snd kh)" by blast
  have ne: "\<forall>g\<in>set (vs_grouped st). snd g \<noteq> []" unfolding k(2) using group_all_mem by (metis prod.collapse)
  from make_all_clean[OF f _ k(3) ne] assms(2) obtain ds where d: "vr_documents res = ds"
    "list_all2 (\<lambda>g d. doc_ok fc d \<and> doc_key_of d = fst g \<and> length (vd_lines d) = length (snd g)) (vs_grouped st) ds"
    by (auto simp: vr_ok_def)
  note l = list_all2_keys[OF d(2)]
  have "sum_list (map (\<lambda>d. length (vd_lines d)) ds) = length kxs"
    using l unfolding k(2) group_total by blast
  then have n: "vr_row_count res = length (rows reader)"
    by (simp add: vr_row_count_def d(1) k(1) numbered_rows_def del: upt_Suc)
  have "distinct (map fst (vs_grouped st))" unfolding k(2) by (rule group_all_distinct)
  then have dd: "distinct (map doc_key_of ds)" using l by simp
  have ok: "\<forall>x\<in>set ds. doc_ok fc x" using list_all2_right[OF d(2)] by blast
  have "ds \<noteq> []" using d(2) e(2) by auto
  with n dd ok show ?thesis using a(1,2) d(1) by blast
qed

text \<open>
  C25. What acceptance means. In a file the validator accepts, every record is a line of exactly one
  document, documents have distinct numbers per counterparty, and each is well-formed for its
  contract: a real date, a GSTIN of the right form where the type demands one and none where its
  counterparty is overseas, every mandatory attribute, every attribute of its declared type, line
  numbers that strictly increase, and on every line an HSN of 4 to 8 digits, a rate from 0 to 100 and
  not both tax heads.
\<close>

theorem accepted_file_sound:
  assumes "validate_transaction_csv data fc = Inr res" "vr_ok res"
  shows "(\<forall>d\<in>set (vr_documents res). doc_ok fc d) \<and> distinct (map doc_key_of (vr_documents res))
    \<and> vr_documents res \<noteq> []
    \<and> (\<exists>content reader. decode_utf8_sig data = Some content \<and> dict_reader_of content = Inr reader
         \<and> vr_row_count res = length (rows reader))"
  by (rule accepted_file[OF assms])

lemma accepted_file_keys:
  "validate_transaction_csv data fc = Inr res \<Longrightarrow> vr_ok res \<Longrightarrow> distinct (map doc_key_of (vr_documents res))"
  using accepted_file by blast

definition demo_contract :: field_contract where
  "demo_contract = \<lparr>fc_direction = INWARD, fc_counterparty = REQUIRED,
     doc_attributes = [\<lparr>attr_name = ''irn'', attr_type = ''text'', attr_required = True\<rparr>], line_attributes = []\<rparr>"

definition demo_document_csv :: "string list \<Rightarrow> bytes" where
  "demo_document_csv rs = join [CHR 0x0A]
     (''Doc_Number,doc_date,line_number,hsn_sac,quantity,unit_price,taxable_value,gst_rate,counterparty_gstin,irn'' # rs)"

theorem accepted_file_sound_witness:
  "\<exists>res. validate_transaction_csv (demo_document_csv [''A1,01/04/2026,1,8471,2,50,100,18,29abcde1234f1z5,x'']) demo_contract = Inr res
     \<and> vr_ok res \<and> distinct (map doc_key_of (vr_documents res)) \<and> list_all (doc_ok demo_contract) (vr_documents res)"
proof -
  let ?r = "validate_transaction_csv (demo_document_csv [''A1,01/04/2026,1,8471,2,50,100,18,29abcde1234f1z5,x'']) demo_contract"
  have "case ?r of Inr res \<Rightarrow> vr_ok res | Inl e \<Rightarrow> False" by code_simp
  then obtain res where r: "?r = Inr res" "vr_ok res" by (cases ?r) simp_all
  from accepted_file_sound[OF r] r show ?thesis by (simp only: list_all_iff) blast
qed

section \<open>What ends the validation instead\<close>

lemma rmap_Inl:
  assumes "x \<in> set xs" "\<And>y d. f y = Inl d \<Longrightarrow> d = e" "f x = Inl e"
  shows "rmap f xs = Inl e"
  using assms(1)
proof (induction xs)
  case (Cons y ys)
  show ?case
  proof (cases "f y")
    case (Inl d)
    with assms(2)[OF Inl] show ?thesis by simp
  next
    case (Inr z)
    with assms(3) Cons show ?thesis by auto
  qed
qed simp

lemma norm_item_Inl: "norm_item kv = Inl d \<Longrightarrow> d = AttributeError ''strip''"
  by (auto simp: norm_item_def split: cell.splits if_splits)

lemma norm_row_Inl: "norm_row raw = Inl d \<Longrightarrow> d = AttributeError ''strip''"
proof -
  have "rmap norm_item xs = Inl d \<Longrightarrow> d = AttributeError ''strip''" for xs
    by (induction xs) (auto simp: rbind_eq_Inl_iff dest: norm_item_Inl)
  then show "norm_row raw = Inl d \<Longrightarrow> d = AttributeError ''strip''" by (auto simp: norm_row_def rbind_eq_Inl_iff)
qed

lemma rfold_Inl: "rfold g s xs = Inl d \<Longrightarrow> (\<And>s x d. g s x = Inl d \<Longrightarrow> d = e) \<Longrightarrow> d = e"
  by (induction xs arbitrary: s) (auto simp: rbind_eq_Inl_iff)

lemma take_rows_Inl:
  assumes "(n, raw) \<in> set raws" "norm_row raw = Inl e"
  shows "take_rows fc raws = Inl (AttributeError ''strip'')"
  using assms
proof (induction raws rule: rev_induct)
  case (snoc r raws)
  obtain m q where r: "r = (m, q)" by (cases r)
  show ?case
  proof (cases "take_rows fc raws")
    case (Inl d)
    have "d = AttributeError ''strip''"
      using Inl unfolding take_rows_def by (rule rfold_Inl) (auto simp: rbind_eq_Inl_iff dest: norm_row_Inl)
    with Inl show ?thesis by (simp add: r take_rows_snoc)
  next
    case (Inr st)
    with snoc have "norm_row q = Inl e" by (auto simp: r)
    with Inr norm_row_Inl[OF this] show ?thesis by (simp add: r take_rows_snoc)
  qed
qed simp

lemma row_dict_long:
  assumes "length h < length r"
  shows "map_of (row_dict h r) None = Some (Rest (drop (length h) r))"
proof -
  let ?z = "zip (map Some h) (map (Cell \<circ> Some) r)"
  have "None \<notin> fst ` set ?z" by (auto simp: set_zip)
  moreover have "map_of (row_dict h r) = map_of (rev (?z @ [(None, Rest (drop (length h) r))]))"
    using assms by (simp only: row_dict_def map_of_dict_of if_True)
  ultimately show ?thesis by simp
qed

lemma norm_row_long:
  assumes "length h < length r"
  shows "norm_row (row_dict h r) = Inl (AttributeError ''strip'')"
proof -
  have m: "(None, Rest (drop (length h) r)) \<in> set (row_dict h r)"
    by (rule map_of_SomeD[OF row_dict_long[OF assms]])
  have i: "norm_item (None, Rest (drop (length h) r)) = Inl (AttributeError ''strip'')"
    using assms by (simp add: norm_item_def)
  have "rmap norm_item (row_dict h r) = Inl (AttributeError ''strip'')"
    by (rule rmap_Inl[where f = norm_item, OF m]) (rule norm_item_Inl, assumption, rule i)
  then show ?thesis by (simp add: norm_row_def)
qed

text \<open>
  One record longer than the header, a stray comma is enough, ends the validation of the whole
  file in an \<open>AttributeError\<close> that no caller expects: nothing is reported of the other rows,
  and the file is neither accepted nor quarantined.
\<close>

theorem long_row_aborts:
  assumes "decode_utf8_sig data = Some content" "csv_read content = (h # rs, err)" "missing_required fc h = []"
    and "r \<in> set rs" "length h < length r"
  shows "validate_transaction_csv data fc = Inl (AttributeError ''strip'')"
proof -
  let ?reader = "\<lparr>fieldnames = Some h, rows = map (row_dict h) (filter (\<lambda>r. r \<noteq> []) rs), failure = err\<rparr>"
  have d: "dict_reader_of content = Inr ?reader" using assms(2) by (simp add: dict_reader_of_def)
  have "r \<noteq> []" using assms(5) by auto
  then have "row_dict h r \<in> set (rows ?reader)" using assms(4) by simp
  then obtain n where "(n, row_dict h r) \<in> set (numbered_rows ?reader)"
    unfolding numbered_rows_def by (metis (no_types, lifting) in_set_impl_in_set_zip2 length_upt add_diff_cancel_left')
  from take_rows_Inl[OF this norm_row_long[OF assms(5)], of fc] d assms(1,3) show ?thesis
    by (simp add: validate_transaction_csv_def)
qed

theorem long_row_aborts_witness:
  "validate_transaction_csv (demo_document_csv [''A1,01/04/2026,1,8471,2,50,100,18,29ABCDE1234F1Z5,x,'']) demo_contract
     = Inl (AttributeError ''strip'')"
proof -
  let ?d = "demo_document_csv [''A1,01/04/2026,1,8471,2,50,100,18,29ABCDE1234F1Z5,x,'']"
  have t: "decode_utf8_sig ?d = Some ?d" by code_simp
  have "case csv_read ?d of (h # rs, e) \<Rightarrow> missing_required demo_contract h = []
      \<and> map length rs = [11] \<and> length h = 10 | ([], e) \<Rightarrow> False" by code_simp
  then obtain h r e where c: "csv_read ?d = (h # [r], e)" "missing_required demo_contract h = []"
    "length r = 11 \<and> length h = 10" by (auto split: prod.splits list.splits)
  show ?thesis by (rule long_row_aborts[OF t c(1,2), of r]) (simp_all add: c(3))
qed

text \<open>
  A GST rate that reads \<open>NaN\<close>, which \<open>Decimal\<close> takes for a number, does not make a
  rejection either: on a line that is otherwise fine the range check compares it and raises
  \<open>InvalidOperation\<close> out of the validator.
\<close>

theorem nan_rate_aborts:
  assumes "py_int (get row ''line_number'') = Some num" "hsn_re (strip (get row ''hsn_sac''))"
    and "py_decimal (strip (get row ''gst_rate'')) = Some (NaN sig)"
  shows "validate_line fc (n, row) errs = Inl DecimalInvalidOperation"
proof -
  have ne: "strip (get row ''gst_rate'') \<noteq> []"
  proof
    assume "strip (get row ''gst_rate'') = []"
    moreover have "py_decimal [] = None" by code_simp
    ultimately show False using assms(3) by simp
  qed
  then have "get row ''gst_rate'' \<noteq> []" by auto
  with ne assms(3) have "clean_dec (get row ''gst_rate'') ''gst_rate'' n errs = (NaN sig, errs)"
    by (simp add: clean_dec_def Let_def)
  moreover have "rate_in_range (NaN sig) = Inl DecimalInvalidOperation" by (simp add: rate_in_range_def dec_zero_def)
  ultimately show ?thesis using assms(1,2) by (simp add: validate_line_def Let_def)
qed

theorem nan_rate_aborts_witness:
  "validate_line demo_contract (2, [(''line_number'', ''1''), (''hsn_sac'', ''8471''), (''gst_rate'', ''NaN'')]) []
     = Inl DecimalInvalidOperation"
  by (rule nan_rate_aborts[where num = 1 and sig = False]) code_simp+

end
