(* ===== verification/SilverDb.thy ===== *)
theory SilverDb
  imports Errors Dates
begin

text \<open>
  The tables of a tenant's Silver schema every loader writes (tenant migrations 002, 005, 012), the
  three statements on them the loaders share, and the contract of a table that keeps versions: the
  locale \<open>versioned_upsert\<close>. Each loader extends \<open>silver_core\<close> with its own tables. A
  transaction body is a function of the database; \<open>Inl\<close> stands for the rollback, so what it
  would have left behind is not represented. \<open>vocabulary\<close> is \<open>platform_ref.universal_master\<close>.
\<close>

section \<open>Tables\<close>

record ingest_batch =
  ib_batch_id :: uuid
  ib_entity_id :: uuid
  ib_document_type :: string
  ib_source_stream :: string
  ib_period_start :: date
  ib_period_end :: date
  ib_row_count :: nat
  ib_content_hash :: bytes
  ib_manifest_ref :: uuid
  ib_status :: string
  ib_ready_at :: instant
  ib_run_id :: uuid

record quarantined_artefact =
  qa_ingest_id :: uuid
  qa_entity_id :: uuid
  qa_document_type :: string
  qa_reason :: string
  qa_run_id :: "uuid option"

record rejected_row =
  rr_batch_id :: uuid
  rr_doc_type :: string
  rr_ingest_id :: uuid
  rr_source_line :: nat
  rr_column :: "string option"
  rr_message :: string

record silver_core =
  batches :: "ingest_batch list"
  quarantined :: "quarantined_artefact list"
  rejected_rows :: "rejected_row list"

type_synonym vocabulary = "(string \<times> string) list"

section \<open>Shared statements\<close>

definition insert_batch ::
  "vocabulary \<Rightarrow> ingest_batch \<Rightarrow> 'a silver_core_scheme \<Rightarrow> exc + 'a silver_core_scheme" where
  "insert_batch vocabulary b db =
     (if ib_period_end b < ib_period_start b then Inl (OtherIntegrityError ''ingest_batch_period'')
      else if \<exists>c\<in>set (batches db). ib_batch_id c = ib_batch_id b then Inl (UniqueViolation ''ingest_batch_pkey'')
      else if (''Document_Type'', ib_document_type b) \<notin> set vocabulary
          \<or> (''Source_Stream'', ib_source_stream b) \<notin> set vocabulary
          \<or> (''Batch_Status'', ib_status b) \<notin> set vocabulary
        then Inl (ForeignKeyViolation ''ingest_batch'')
      else Inr (db\<lparr>batches := batches db @ [b]\<rparr>))"

text \<open>One verdict per artefact: a new one takes the place of the old.\<close>

definition upsert_quarantine ::
  "vocabulary \<Rightarrow> quarantined_artefact \<Rightarrow> 'a silver_core_scheme \<Rightarrow> exc + 'a silver_core_scheme" where
  "upsert_quarantine vocabulary q db =
     (if (''Document_Type'', qa_document_type q) \<notin> set vocabulary
      then Inl (ForeignKeyViolation ''quarantined_artefact'')
      else if \<exists>p\<in>set (quarantined db). qa_ingest_id p = qa_ingest_id q
      then Inr (db\<lparr>quarantined := map (\<lambda>p. if qa_ingest_id p = qa_ingest_id q
             then p\<lparr>qa_reason := qa_reason q, qa_run_id := qa_run_id q\<rparr> else p) (quarantined db)\<rparr>)
      else Inr (db\<lparr>quarantined := quarantined db @ [q]\<rparr>))"

definition insert_rejected :: "rejected_row list \<Rightarrow> 'a silver_core_scheme \<Rightarrow> 'a silver_core_scheme" where
  "insert_rejected rs db = db\<lparr>rejected_rows := rejected_rows db @ rs\<rparr>"

lemma insert_batch_Inr:
  "insert_batch v b db = Inr db' \<Longrightarrow> db' = db\<lparr>batches := batches db @ [b]\<rparr>
     \<and> ib_period_start b \<le> ib_period_end b"
  by (auto simp: insert_batch_def split: if_splits)

lemma upsert_quarantine_Inr:
  assumes "upsert_quarantine v q db = Inr db'"
  shows "(\<exists>p\<in>set (quarantined db'). qa_ingest_id p = qa_ingest_id q \<and> qa_reason p = qa_reason q)
    \<and> batches db' = batches db \<and> rejected_rows db' = rejected_rows db \<and> silver_core.more db' = silver_core.more db"
proof -
  have "\<exists>p\<in>set (map (\<lambda>p. if qa_ingest_id p = qa_ingest_id q
       then p\<lparr>qa_reason := qa_reason q, qa_run_id := qa_run_id q\<rparr> else p) (quarantined db)).
      qa_ingest_id p = qa_ingest_id q \<and> qa_reason p = qa_reason q"
    if "p \<in> set (quarantined db)" "qa_ingest_id p = qa_ingest_id q" for p
  proof -
    let ?f = "\<lambda>p. if qa_ingest_id p = qa_ingest_id q
       then p\<lparr>qa_reason := qa_reason q, qa_run_id := qa_run_id q\<rparr> else p"
    have "?f p \<in> set (map ?f (quarantined db))" using that(1) by (simp only: set_map image_eqI)
    moreover have "qa_ingest_id (?f p) = qa_ingest_id q \<and> qa_reason (?f p) = qa_reason q"
      using that(2) by simp
    ultimately show ?thesis by blast
  qed
  with assms show ?thesis
    by (auto simp: upsert_quarantine_def simp del: set_map split: if_splits)
qed

lemma upsert_quarantine_total:
  "(''Document_Type'', qa_document_type q) \<in> set v \<Longrightarrow> \<exists>db'. upsert_quarantine v q db = Inr db'"
  by (simp add: upsert_quarantine_def)

lemma upsert_quarantine_shape:
  "upsert_quarantine v q db = Inr db' \<Longrightarrow> \<exists>qs. db' = db\<lparr>quarantined := qs\<rparr>"
  by (auto simp: upsert_quarantine_def split: if_splits)

section \<open>Tables that keep versions\<close>

datatype outcome = Inserted | Unchanged | Superseded

record tally =
  n_inserted :: nat
  n_unchanged :: nat
  n_superseded :: nat

definition no_tally :: tally where
  "no_tally = \<lparr>n_inserted = 0, n_unchanged = 0, n_superseded = 0\<rparr>"

definition count_outcome :: "outcome \<Rightarrow> tally \<Rightarrow> tally" where
  "count_outcome c t = (case c of
      Inserted \<Rightarrow> t\<lparr>n_inserted := n_inserted t + 1\<rparr>
    | Superseded \<Rightarrow> t\<lparr>n_superseded := n_superseded t + 1\<rparr>
    | Unchanged \<Rightarrow> t\<lparr>n_unchanged := n_unchanged t + 1\<rparr>)"

definition tally_total :: "tally \<Rightarrow> nat" where
  "tally_total t = n_inserted t + n_unchanged t + n_superseded t"

lemma tally_total_count [simp]: "tally_total (count_outcome c t) = Suc (tally_total t)"
  by (cases c) (simp_all add: tally_total_def count_outcome_def)

text \<open>The loop of a load: every row is upserted, in file order, and its outcome counted.\<close>

fun upsert_all ::
  "('r \<Rightarrow> 't \<Rightarrow> exc + outcome \<times> 't) \<Rightarrow> 'r list \<Rightarrow> tally \<times> 't \<Rightarrow> exc + tally \<times> 't" where
  "upsert_all up [] acc = Inr acc"
| "upsert_all up (r # rs) acc =
     (case acc of (n, t) \<Rightarrow> rbind (up r t) (\<lambda>(c, t'). upsert_all up rs (count_outcome c n, t')))"

lemma upsert_all_invariant:
  assumes "upsert_all up rs (n, t) = Inr (n', t')" "I t"
    and "\<And>r t c t'. r \<in> set rs \<Longrightarrow> I t \<Longrightarrow> up r t = Inr (c, t') \<Longrightarrow> I t'"
  shows "I t'"
  using assms
proof (induction rs arbitrary: n t)
  case (Cons r rs)
  from Cons.prems(1) obtain c t1 where u: "up r t = Inr (c, t1)" "upsert_all up rs (count_outcome c n, t1) = Inr (n', t')"
    by (auto simp: rbind_eq_Inr_iff)
  from Cons.prems(3)[OF _ Cons.prems(2) u(1)] have "I t1" by simp
  show ?case by (rule Cons.IH[OF u(2) \<open>I t1\<close>]) (rule Cons.prems(3), simp_all)
qed simp

text \<open>
  What every table that keeps one current row per key promises: a row that was put is what the table
  holds for its key, and no other key is touched. \<open>shown\<close> is what can be seen of a row.
\<close>

locale latest_wins =
  fixes put :: "'r \<Rightarrow> 't \<Rightarrow> exc + 't"
    and ok :: "'t \<Rightarrow> bool"
    and current :: "'t \<Rightarrow> 'k \<Rightarrow> 'h option"
    and key :: "'r \<Rightarrow> 'k"
    and shown :: "'r \<Rightarrow> 'h"
  assumes put_ok: "ok t \<Longrightarrow> put r t = Inr t' \<Longrightarrow> ok t'"
    and put_current: "ok t \<Longrightarrow> put r t = Inr t' \<Longrightarrow> current t' (key r) = Some (shown r)"
    and put_others: "ok t \<Longrightarrow> put r t = Inr t' \<Longrightarrow> k \<noteq> key r \<Longrightarrow> current t' k = current t k"
begin

lemma put_all_ok: "ok t \<Longrightarrow> rfold (\<lambda>t r. put r t) t rs = Inr t' \<Longrightarrow> ok t'"
  by (induction rs arbitrary: t) (auto simp: rbind_eq_Inr_iff dest: put_ok)

text \<open>After several, the current row of a key is the last one put under it.\<close>

lemma put_all_current:
  assumes "ok t" "rfold (\<lambda>t r. put r t) t rs = Inr t'"
  shows "current t' k = (case List.find (\<lambda>r. key r = k) (rev rs) of Some r \<Rightarrow> Some (shown r) | None \<Rightarrow> current t k)"
  using assms
proof (induction rs arbitrary: t)
  case (Cons r rs)
  from Cons.prems obtain t1 where u: "put r t = Inr t1" "rfold (\<lambda>t r. put r t) t1 rs = Inr t'"
    by (auto simp: rbind_eq_Inr_iff)
  have "current t1 k = (if k = key r then Some (shown r) else current t k)"
    using put_current[OF Cons.prems(1) u(1)] put_others[OF Cons.prems(1) u(1)] by auto
  with Cons.IH[OF put_ok[OF Cons.prems(1) u(1)] u(2)] show ?case
    by (auto simp: find_snoc split: option.splits)
qed simp

end

text \<open>
  What a versioned table promises its loader: \<open>live\<close> reads the hash of the live version of a
  key, \<open>ok\<close> is the table's own invariant, and \<open>adm\<close> what a row must satisfy to be looked
  at again without an error.
\<close>

locale versioned_upsert =
  fixes up :: "'r \<Rightarrow> 't \<Rightarrow> exc + outcome \<times> 't"
    and ok :: "'t \<Rightarrow> bool"
    and live :: "'t \<Rightarrow> 'k \<Rightarrow> 'h option"
    and key :: "'r \<Rightarrow> 'k"
    and hash :: "'r \<Rightarrow> 'h"
    and adm :: "'r \<Rightarrow> bool"
  assumes keeps_ok: "ok t \<Longrightarrow> up r t = Inr (c, t') \<Longrightarrow> ok t'"
    and now_live: "ok t \<Longrightarrow> up r t = Inr (c, t') \<Longrightarrow> live t' (key r) = Some (hash r)"
    and others_keep: "ok t \<Longrightarrow> up r t = Inr (c, t') \<Longrightarrow> k \<noteq> key r \<Longrightarrow> live t' k = live t k"
    and no_op: "ok t \<Longrightarrow> adm r \<Longrightarrow> live t (key r) = Some (hash r) \<Longrightarrow> up r t = Inr (Unchanged, t)"
    and admitted: "up r t = Inr (c, t') \<Longrightarrow> adm r"
    and outcome_of: "ok t \<Longrightarrow> up r t = Inr (c, t') \<Longrightarrow>
      c = (case live t (key r) of None \<Rightarrow> Inserted | Some h \<Rightarrow> if h = hash r then Unchanged else Superseded)"
begin

lemma upsert_all_ok: "ok t \<Longrightarrow> upsert_all up rs (n, t) = Inr (n', t') \<Longrightarrow> ok t'"
  by (induction rs arbitrary: n t) (auto simp: rbind_eq_Inr_iff dest: keeps_ok)

lemma upsert_all_total: "upsert_all up rs (n, t) = Inr (n', t') \<Longrightarrow> tally_total n' = tally_total n + length rs"
  by (induction rs arbitrary: n t) (auto simp: rbind_eq_Inr_iff)

text \<open>After a load the live version of a key is the last row of the file with that key.\<close>

lemma upsert_all_live:
  assumes "ok t" "upsert_all up rs (n, t) = Inr (n', t')"
  shows "live t' k = (case List.find (\<lambda>r. key r = k) (rev rs) of Some r \<Rightarrow> Some (hash r) | None \<Rightarrow> live t k)"
  using assms
proof (induction rs arbitrary: n t)
  case (Cons r rs)
  from Cons.prems obtain c t1 where u: "up r t = Inr (c, t1)" "upsert_all up rs (count_outcome c n, t1) = Inr (n', t')"
    by (auto simp: rbind_eq_Inr_iff)
  have t1: "live t1 k = (if k = key r then Some (hash r) else live t k)"
    using now_live[OF Cons.prems(1) u(1)] others_keep[OF Cons.prems(1) u(1)] by auto
  have "List.find (\<lambda>r. key r = k) (xs @ [r]) = (case List.find (\<lambda>r. key r = k) xs of
      Some q \<Rightarrow> Some q | None \<Rightarrow> if key r = k then Some r else None)" for xs
    by (induction xs) auto
  with Cons.IH[OF keeps_ok[OF Cons.prems(1) u(1)] u(2)] t1 show ?case
    by (auto split: option.splits)
qed simp

text \<open>Rows that are all live already change nothing, and every one counts as unchanged.\<close>

lemma upsert_all_no_op:
  assumes "ok t" "\<forall>r\<in>set rs. adm r \<and> live t (key r) = Some (hash r)"
  shows "upsert_all up rs (n, t) = Inr (n\<lparr>n_unchanged := n_unchanged n + length rs\<rparr>, t)"
  using assms by (induction rs arbitrary: n) (simp_all add: no_op count_outcome_def)

lemma upsert_all_admitted: "upsert_all up rs (n, t) = Inr (n', t') \<Longrightarrow> r \<in> set rs \<Longrightarrow> adm r"
  by (induction rs arbitrary: n t) (auto simp: rbind_eq_Inr_iff dest: admitted)

text \<open>After a load of a file whose keys are distinct, every row of it is live.\<close>

lemma upsert_all_each_live:
  assumes ok: "ok t" and first: "upsert_all up rs (n, t) = Inr (n', t')" and d: "distinct (map key rs)"
    and r: "r \<in> set rs"
  shows "live t' (key r) = Some (hash r)"
proof -
  have "distinct (map key xs) \<Longrightarrow> r \<in> set xs \<Longrightarrow> List.find (\<lambda>q. key q = key r) xs = Some r" for xs
    by (induction xs) auto
  moreover have "distinct (map key (rev rs))" using d by (simp add: rev_map[symmetric])
  ultimately show ?thesis
    using upsert_all_live[OF ok first, of "key r"] r by simp
qed

text \<open>Loading a file whose keys are distinct a second time is a no-op.\<close>

lemma reload_is_no_op:
  assumes ok: "ok t" and first: "upsert_all up rs (n, t) = Inr (n', t')" and d: "distinct (map key rs)"
  shows "upsert_all up rs (m, t') = Inr (m\<lparr>n_unchanged := n_unchanged m + length rs\<rparr>, t')"
  using upsert_all_no_op[OF upsert_all_ok[OF ok first]] upsert_all_each_live[OF ok first d]
    upsert_all_admitted[OF first] by blast

text \<open>Two rows with one key and different content replace each other at every load.\<close>

lemma same_key_twice:
  assumes ok: "ok t" and k: "key a = key b" and h: "hash a \<noteq> hash b"
    and first: "upsert_all up [a, b] (n, t) = Inr (n', t')"
    and again: "upsert_all up [a, b] (no_tally, t') = Inr (m, t'')"
  shows "n_superseded m = 2 \<and> n_unchanged m = 0"
proof -
  have t': "ok t'" by (rule upsert_all_ok[OF ok first])
  have lb: "live t' (key a) = Some (hash b)"
    using upsert_all_live[OF ok first, of "key a"] k by simp
  from again obtain c t1 d where u: "up a t' = Inr (c, t1)" "up b t1 = Inr (d, t'')"
    "m = count_outcome d (count_outcome c no_tally)"
    by (auto simp: rbind_eq_Inr_iff)
  have "c = Superseded" using outcome_of[OF t' u(1)] lb h by auto
  moreover have "d = Superseded"
    using outcome_of[OF keeps_ok[OF t' u(1)] u(2)] now_live[OF t' u(1)] k h by auto
  ultimately show ?thesis by (simp add: u(3) count_outcome_def no_tally_def)
qed

end

sublocale versioned_upsert \<subseteq> latest: latest_wins "\<lambda>r t. map_sum id snd (up r t)" ok live key hash
proof
  fix r t t' assume "ok t" and "map_sum id snd (up r t) = Inr t'"
  then obtain c where u: "ok t" "up r t = Inr (c, t')" by (cases "up r t") auto
  show "ok t'" by (rule keeps_ok[OF u])
  show "live t' (key r) = Some (hash r)" by (rule now_live[OF u])
  show "live t' k = live t k" if "k \<noteq> key r" for k by (rule others_keep[OF u that])
qed

end
