(* ===== verification/Versions.thy ===== *)
theory Versions
  imports SilverDb
begin

text \<open>
  A bitemporal table, as the Silver loaders and services keep theirs: a row is inserted live, and
  a correction closes it and inserts its successor. A table is the list of its rows in insertion
  order, a row's identity its position; the columns a table adds are the type parameter. The
  partial unique index is over the key of the live rows. These are the SELECT, UPDATE and INSERT
  statements the modules issue, with the invariant they keep.
\<close>

record 'a version =
  ve_id :: nat
  ve_row :: 'a
  ve_valid_from :: date
  ve_valid_to :: date
  ve_superseded_at :: "instant option"

definition ve_live :: "'a version \<Rightarrow> bool" where
  "ve_live v \<longleftrightarrow> ve_superseded_at v = None"

definition find_live_row :: "('a \<Rightarrow> 'k) \<Rightarrow> 'k \<Rightarrow> 'a version list \<Rightarrow> 'a version option" where
  "find_live_row key k t = List.find (\<lambda>v. ve_live v \<and> key (ve_row v) = k) t"

text \<open>The window of a closed row moves only when its successor starts later.\<close>

definition close_row :: "instant \<Rightarrow> nat \<Rightarrow> date \<Rightarrow> 'a version list \<Rightarrow> 'a version list" where
  "close_row now i vf t = map (\<lambda>v. if ve_id v = i
     then v\<lparr>ve_superseded_at := Some now, ve_valid_to := (if ve_valid_from v < vf then vf else ve_valid_to v)\<rparr>
     else v) t"

text \<open>An update that only stamps \<open>superseded_at\<close>.\<close>

definition stamp_row :: "instant \<Rightarrow> nat \<Rightarrow> 'a version list \<Rightarrow> 'a version list" where
  "stamp_row now i t = map (\<lambda>v. if ve_id v = i then v\<lparr>ve_superseded_at := Some now\<rparr> else v) t"

definition new_row :: "nat \<Rightarrow> date \<Rightarrow> 'a \<Rightarrow> 'a version" where
  "new_row i vf row = \<lparr>ve_id = i, ve_row = row, ve_valid_from = vf, ve_valid_to = max_date, ve_superseded_at = None\<rparr>"

definition insert_row ::
  "('a \<Rightarrow> 'k) \<Rightarrow> string \<Rightarrow> date \<Rightarrow> 'a \<Rightarrow> 'a version list \<Rightarrow> exc + nat \<times> 'a version list" where
  "insert_row key name vf row t =
     (if \<not> vf < max_date then Inl (OtherIntegrityError name)
      else if find_live_row key (key row) t \<noteq> None then Inl (UniqueViolation name)
      else Inr (length t, t @ [new_row (length t) vf row]))"

section \<open>The invariant\<close>

definition live_rows :: "'a version list \<Rightarrow> 'a version list" where
  "live_rows t = filter ve_live t"

definition rows_ok :: "('a \<Rightarrow> 'k) \<Rightarrow> 'a version list \<Rightarrow> bool" where
  "rows_ok key t \<longleftrightarrow> map ve_id t = [0..<length t] \<and> distinct (map (key \<circ> ve_row) (live_rows t))
     \<and> (\<forall>v\<in>set t. ve_valid_from v < ve_valid_to v)"

lemma rows_ok_Nil [simp]: "rows_ok key []"
  by (simp add: rows_ok_def live_rows_def)

lemma new_row_simps [simp]:
  "ve_id (new_row i vf row) = i" "ve_row (new_row i vf row) = row" "ve_live (new_row i vf row)"
  "ve_superseded_at (new_row i vf row) = None" "ve_valid_from (new_row i vf row) = vf"
  "ve_valid_to (new_row i vf row) = max_date"
  by (simp_all add: new_row_def ve_live_def)

lemma find_live_row_Some:
  "find_live_row key k t = Some v \<Longrightarrow> v \<in> set t \<and> ve_live v \<and> key (ve_row v) = k"
  unfolding find_live_row_def by (blast dest: find_mem)

lemma find_live_row_Nil [simp]: "find_live_row key k [] = None"
  by (simp add: find_live_row_def)

lemma find_live_row_eq: "find_live_row key k t = List.find (\<lambda>v. key (ve_row v) = k) (live_rows t)"
  unfolding find_live_row_def live_rows_def by (induction t) auto

lemma insert_row_ok:
  assumes "rows_ok key t" "insert_row key name vf row t = Inr (i, t')"
  shows "i = length t \<and> t' = t @ [new_row (length t) vf row] \<and> rows_ok key t'
    \<and> find_live_row key k t' = (if k = key row then Some (new_row (length t) vf row) else find_live_row key k t)"
proof -
  from assms(2) have t': "i = length t" "t' = t @ [new_row (length t) vf row]" and vf: "vf < max_date"
    and n: "find_live_row key (key row) t = None"
    by (auto simp: insert_row_def split: if_splits)
  have l: "live_rows t' = live_rows t @ [new_row (length t) vf row]" by (simp add: live_rows_def t')
  have "key row \<notin> set (map (key \<circ> ve_row) (live_rows t))"
    using n by (auto simp: find_live_row_eq find_None_iff)
  moreover have "\<forall>v\<in>set t'. ve_valid_from v < ve_valid_to v"
    using assms(1) vf by (auto simp: rows_ok_def t')
  ultimately have "rows_ok key t'" using assms(1) by (simp add: rows_ok_def l) (simp add: t')
  moreover have "find_live_row key k t' = (if k = key row then Some (new_row (length t) vf row) else find_live_row key k t)"
    using n by (auto simp: find_live_row_def t' find_snoc split: option.splits)
  ultimately show ?thesis using t' by blast
qed

lemma find_filter_out:
  assumes "distinct (map f xs)" "u \<in> set xs"
  shows "List.find (\<lambda>v. f v = k) (filter (\<lambda>v. v \<noteq> u) xs) = (if k = f u then None else List.find (\<lambda>v. f v = k) xs)"
proof (cases "k = f u")
  case True
  have "\<forall>v\<in>set xs. f v = f u \<longrightarrow> v = u" using assms by (auto simp: distinct_map inj_on_def)
  with True show ?thesis by (auto simp: find_None_iff)
next
  case False
  then show ?thesis by (induction xs) auto
qed

text \<open>Both updates take a live row out of the live ones and touch nothing else.\<close>

lemma retire_ok:
  assumes ok: "rows_ok key t" and l: "find_live_row key k t = Some u"
    and f: "ve_id (f u) = ve_id u" "\<not> ve_live (f u)" "ve_valid_from (f u) < ve_valid_to (f u)"
  defines "t' \<equiv> map (\<lambda>v. if ve_id v = ve_id u then f v else v) t"
  shows "rows_ok key t'" "find_live_row key j t' = (if j = k then None else find_live_row key j t)"
    "length t' = length t" "n < length t \<Longrightarrow> t' ! n = (if t ! n = u then f u else t ! n)"
proof -
  note u = find_live_row_Some[OF l]
  have d: "distinct (map ve_id t)" using ok by (simp add: rows_ok_def)
  then have inj: "v = u" if "v \<in> set t" "ve_id v = ve_id u" for v
    using that u by (auto simp: distinct_map dest: inj_onD)
  have e: "t' = map (\<lambda>v. if v = u then f u else v) t"
    unfolding t'_def using inj by (intro map_cong) auto
  show "length t' = length t" by (simp add: t'_def)
  show "n < length t \<Longrightarrow> t' ! n = (if t ! n = u then f u else t ! n)" by (simp add: e)
  have "filter ve_live (map (\<lambda>v. if v = u then f u else v) xs) = filter (\<lambda>v. v \<noteq> u) (filter ve_live xs)" for xs
    using f(2) by (induction xs) auto
  then have lv: "live_rows t' = filter (\<lambda>v. v \<noteq> u) (live_rows t)" by (simp add: live_rows_def e)
  have dk: "distinct (map (key \<circ> ve_row) (live_rows t))" using ok by (simp add: rows_ok_def)
  have ul: "u \<in> set (live_rows t)" using u by (simp add: live_rows_def)
  have "map ve_id t' = map ve_id t" using f(1) by (simp add: e)
  moreover have "distinct (map g (filter P xs))" if "distinct (map g xs)" for P xs and g :: "'a version \<Rightarrow> 'b"
    using that by (induction xs) auto
  then have "distinct (map (key \<circ> ve_row) (live_rows t'))" using dk by (simp only: lv)
  moreover have "\<forall>v\<in>set t'. ve_valid_from v < ve_valid_to v"
    using ok f(3) by (auto simp: e rows_ok_def)
  moreover have "length t' = length t" by (simp add: t'_def)
  ultimately show "rows_ok key t'" using ok unfolding rows_ok_def by metis
  show "find_live_row key j t' = (if j = k then None else find_live_row key j t)"
    using find_filter_out[OF dk ul, of j] u by (simp add: find_live_row_eq lv)
qed

lemma close_row_ok:
  assumes "rows_ok key t" "find_live_row key k t = Some u"
  shows "rows_ok key (close_row now (ve_id u) vf t)"
    "find_live_row key j (close_row now (ve_id u) vf t) = (if j = k then None else find_live_row key j t)"
    "length (close_row now (ve_id u) vf t) = length t"
  using retire_ok[OF assms, of "\<lambda>v. v\<lparr>ve_superseded_at := Some now,
      ve_valid_to := (if ve_valid_from v < vf then vf else ve_valid_to v)\<rparr>"]
    find_live_row_Some[OF assms(2)] assms(1)
  by (simp_all add: close_row_def ve_live_def rows_ok_def)

lemma stamp_row_ok:
  assumes "rows_ok key t" "find_live_row key k t = Some u"
  shows "rows_ok key (stamp_row now (ve_id u) t)"
    "find_live_row key j (stamp_row now (ve_id u) t) = (if j = k then None else find_live_row key j t)"
    "length (stamp_row now (ve_id u) t) = length t"
  using retire_ok[OF assms, of "\<lambda>v. v\<lparr>ve_superseded_at := Some now\<rparr>"]
    find_live_row_Some[OF assms(2)] assms(1)
  by (simp_all add: stamp_row_def ve_live_def rows_ok_def)

section \<open>History\<close>

text \<open>
  From one state of a table to a later one: no row is lost, its columns and the start of its window
  never change, and a closed row never changes at all.
\<close>

definition same_facts :: "'a version \<Rightarrow> 'a version \<Rightarrow> bool" where
  "same_facts v w \<longleftrightarrow> ve_id w = ve_id v \<and> ve_row w = ve_row v \<and> ve_valid_from w = ve_valid_from v
     \<and> (\<not> ve_live v \<longrightarrow> w = v)"

definition history :: "'a version list \<Rightarrow> 'a version list \<Rightarrow> bool" where
  "history t t' \<longleftrightarrow> length t \<le> length t' \<and> (\<forall>n<length t. same_facts (t ! n) (t' ! n))"

lemma history_refl [simp]: "history t t"
  by (simp add: history_def same_facts_def)

lemma history_trans: "history t u \<Longrightarrow> history u v \<Longrightarrow> history t v"
  unfolding history_def same_facts_def by (metis order.strict_trans2 order.trans)

lemma history_append: "history t (t @ [v])"
  by (simp add: history_def same_facts_def nth_append)

lemma history_retire:
  assumes "rows_ok key t" "find_live_row key k t = Some u"
    and "ve_id (f u) = ve_id u" "\<not> ve_live (f u)" "ve_valid_from (f u) < ve_valid_to (f u)"
    and "ve_row (f u) = ve_row u" "ve_valid_from (f u) = ve_valid_from u"
  shows "history t (map (\<lambda>v. if ve_id v = ve_id u then f v else v) t)"
  using retire_ok(3,4)[where f = f, OF assms(1-5)] assms(3,6,7) find_live_row_Some[OF assms(2)]
  by (auto simp: history_def same_facts_def)

lemma history_close:
  assumes "rows_ok key t" "find_live_row key k t = Some u"
  shows "history t (close_row now (ve_id u) vf t)"
  unfolding close_row_def
  by (rule history_retire[OF assms]) (use assms(1) find_live_row_Some[OF assms(2)] in \<open>auto simp: ve_live_def rows_ok_def\<close>)

lemma history_stamp:
  assumes "rows_ok key t" "find_live_row key k t = Some u"
  shows "history t (stamp_row now (ve_id u) t)"
  unfolding stamp_row_def
  by (rule history_retire[OF assms]) (use assms(1) find_live_row_Some[OF assms(2)] in \<open>auto simp: ve_live_def rows_ok_def\<close>)

end
