(* ===== verification/Promote.thy ===== *)
theory Promote
  imports Validate Versions
begin

text \<open>
  \<open>src/src/silver/promote.py\<close>: \<open>SilverPromotionService\<close> takes an archetype-1 artefact from
  Bronze to \<open>transaction_document\<close> and \<open>transaction_line\<close> (tenant migrations 007 and 030).
  The registry row of a type, SHA-256 and those column checks that are not written out are
  parameters. Written out are what the loader's own arithmetic meets: the width and scale of the
  numeric columns, the check that the three totals of a document add up, the check on the
  tax heads of a line, the window and the two unique constraints.
\<close>

section \<open>Numbers as the tables store them\<close>

datatype numeric = NumNaN | Num int

text \<open>Hundredths, rounded half away from zero; the column has 16 digits before the point.\<close>

definition cents_of :: "nat \<Rightarrow> int \<Rightarrow> nat" where
  "cents_of c e = column_units 2 c e"

lemma cents_of_units:
  "cents_of c e = (if -2 \<le> e then c * 10 ^ nat (e + 2)
      else let k = nat (-2 - e); q = c div 10 ^ k; r = c mod 10 ^ k in if 10 ^ k \<le> 2 * r then q + 1 else q)"
  by (simp add: cents_of_def column_units_def)

definition to_numeric2 :: "decimal \<Rightarrow> exc + numeric" where
  "to_numeric2 d = (case d of
      Inf _ \<Rightarrow> Inl (DataError ''numeric field overflow'')
    | NaN _ \<Rightarrow> Inr NumNaN
    | Fin s c e \<Rightarrow>
        let m = cents_of c e in
        if 10 ^ 18 \<le> m then Inl (DataError ''numeric field overflow'')
        else Inr (Num (if s then - int m else int m)))"

fun num_add :: "numeric \<Rightarrow> numeric \<Rightarrow> numeric" where
  "num_add (Num a) (Num b) = Num (a + b)"
| "num_add _ _ = NumNaN"

fun num_pos :: "numeric \<Rightarrow> bool" where
  "num_pos (Num a) = (0 < a)"
| "num_pos NumNaN = True"

section \<open>The registry row of a type\<close>

record type_row =
  ty_stream :: string
  ty_contract :: string
  ty_archetype :: "nat option"

definition retired_types :: "string list" where
  "retired_types = [''PURCHASE_REGISTER'', ''CREDIT_DEBIT_NOTE_REGISTER'', ''HO_COMMON_INPUT_SERVICE_INVOICE'']"

record type_spec =
  ts_doc_type :: string
  ts_stream :: string
  ts_contract :: field_contract

definition archetype_text :: "nat option \<Rightarrow> string" where
  "archetype_text a = (case a of None \<Rightarrow> ''None'' | Some n \<Rightarrow> nat_str n)"

text \<open>\<open>registry\<close> holds the in-scope rows.\<close>

definition load_spec :: "(string \<Rightarrow> type_row option) \<Rightarrow> string \<Rightarrow> exc + type_spec" where
  "load_spec registry ty =
     (case registry ty of
        None \<Rightarrow> Inl (ValidationRejected (ty @ '' is not an in-scope document type in the registry''))
      | Some r \<Rightarrow>
          if ty \<in> set retired_types then
            Inl (ValidationRejected (ty @ '' no longer promotes to transaction_document ''
              @ [CHR 0xE2, CHR 0x80, CHR 0x94] @ '' use src.silver.registers.RegisterLoader''))
          else if ty_archetype r \<noteq> Some 1 then
            Inl (ValidationRejected (ty @ '' is archetype '' @ archetype_text (ty_archetype r) @ '', not 1 ''
              @ [CHR 0xE2, CHR 0x80, CHR 0x94] @ '' it does not promote to transaction_document''))
          else rbind (parse_contract (ty_contract r)) (\<lambda>fc.
            Inr \<lparr>ts_doc_type = ty, ts_stream = ty_stream r, ts_contract = fc\<rparr>))"

section \<open>Tables\<close>

record doc_row =
  dr_batch :: uuid
  dr_entity :: uuid
  dr_doc_type :: string
  dr_direction :: string
  dr_document :: validated_document
  dr_taxable :: numeric
  dr_tax :: numeric
  dr_total :: numeric
  dr_ingest :: uuid
  dr_supersedes :: "nat option"

type_synonym doc_tables = "doc_row version list \<times> (nat \<times> validated_line) list"

record promote_db = silver_core +
  transaction_document :: "doc_row version list"
  transaction_line :: "(nat \<times> validated_line) list"

record promote_env =
  pe_registry :: "string \<Rightarrow> type_row option"
  pe_bytes_digest :: "bytes \<Rightarrow> bytes"
  pe_vocabulary :: vocabulary
  pe_document_checks :: "doc_row \<Rightarrow> bool"
  pe_line_checks :: "validated_line \<Rightarrow> bool"

record promotion =
  pm_label :: string
  pm_slug :: string
  pm_doc_type :: string
  pm_ingest :: uuid
  pm_entity :: uuid
  pm_data :: bytes
  pm_period_start :: date
  pm_period_end :: date
  pm_run :: uuid
  pm_batch :: uuid
  pm_now :: instant

record batch_manifest =
  bm_slug :: string
  bm_batch_id :: uuid
  bm_entity_id :: uuid
  bm_document_type :: string
  bm_source_stream :: string
  bm_period_start :: date
  bm_period_end :: date
  bm_row_count :: nat
  bm_content_hash :: bytes
  bm_manifest_ref :: uuid
  bm_ready_at :: instant

definition coalesce :: "string option \<Rightarrow> string" where
  "coalesce g = (case g of None \<Rightarrow> [] | Some x \<Rightarrow> x)"

type_synonym natural_key = "uuid \<times> string \<times> string \<times> string"

definition document_key :: "doc_row \<Rightarrow> natural_key" where
  "document_key r = (dr_entity r, dr_doc_type r, coalesce (vd_gstin (dr_document r)), vd_number (dr_document r))"

definition promotion_key :: "promotion \<Rightarrow> validated_document \<Rightarrow> natural_key" where
  "promotion_key pm d = (pm_entity pm, pm_doc_type pm, coalesce (vd_gstin d), vd_number d)"

section \<open>The statements\<close>

definition totals_ok :: "doc_row \<Rightarrow> bool" where
  "totals_ok r \<longleftrightarrow> dr_total r = num_add (dr_taxable r) (dr_tax r)"

definition row_of_document :: "type_spec \<Rightarrow> promotion \<Rightarrow> validated_document \<Rightarrow> nat option \<Rightarrow> exc + doc_row" where
  "row_of_document spec pm d prior =
     rbind (total_taxable_value d) (\<lambda>a. rbind (total_tax_value d) (\<lambda>b. rbind (total_value d) (\<lambda>c.
     rbind (to_numeric2 a) (\<lambda>na. rbind (to_numeric2 b) (\<lambda>nb. rbind (to_numeric2 c) (\<lambda>nc.
       Inr \<lparr>dr_batch = pm_batch pm, dr_entity = pm_entity pm, dr_doc_type = pm_doc_type pm,
         dr_direction = direction_value (fc_direction (ts_contract spec)), dr_document = d\<lparr>vd_lines := []\<rparr>,
         dr_taxable = na, dr_tax = nb, dr_total = nc, dr_ingest = pm_ingest pm, dr_supersedes = prior\<rparr>))))))"

text \<open>The numeric columns of \<open>transaction_line\<close>: what they refuse and what they keep.\<close>

definition rate_column :: numeric_type where
  "rate_column = (5, 2)"

definition document_line_fits :: "validated_line \<Rightarrow> bool" where
  "document_line_fits l \<longleftrightarrow> column_fits qty_column (vl_quantity l) \<and> column_fits price_column (vl_unit_price l)
     \<and> column_fits rate_column (vl_gst_rate l)
     \<and> list_all (column_fits money_inr) [vl_taxable l, vl_cgst l, vl_sgst l, vl_igst l, vl_cess l, vl_itc l]"

definition stored_document_line :: "validated_line \<Rightarrow> validated_line" where
  "stored_document_line l = (let m = column_value money_inr in
     l\<lparr>vl_quantity := column_value qty_column (vl_quantity l), vl_unit_price := column_value price_column (vl_unit_price l),
       vl_taxable := m (vl_taxable l), vl_gst_rate := column_value rate_column (vl_gst_rate l), vl_cgst := m (vl_cgst l),
       vl_sgst := m (vl_sgst l), vl_igst := m (vl_igst l), vl_cess := m (vl_cess l), vl_itc := m (vl_itc l)\<rparr>)"

definition tax_head_ok :: "numeric \<Rightarrow> numeric \<Rightarrow> numeric \<Rightarrow> bool" where
  "tax_head_ok ig cg sg \<longleftrightarrow> (num_pos ig \<and> cg = Num 0 \<and> sg = Num 0) \<or> ig = Num 0"

definition insert_document_line ::
  "promote_env \<Rightarrow> nat \<Rightarrow> (nat \<times> validated_line) list \<Rightarrow> validated_line \<Rightarrow> exc + (nat \<times> validated_line) list" where
  "insert_document_line env h ls l =
     (if \<not> document_line_fits l then Inl column_overflow else
     rbind (to_numeric2 (vl_igst l)) (\<lambda>ig. rbind (to_numeric2 (vl_cgst l)) (\<lambda>cg. rbind (to_numeric2 (vl_sgst l)) (\<lambda>sg.
       if \<not> (0 < vl_number l \<and> tax_head_ok ig cg sg \<and> pe_line_checks env (stored_document_line l))
       then Inl (OtherIntegrityError ''transaction_line'')
       else if \<exists>(h', l')\<in>set ls. h' = h \<and> vl_number l' = vl_number l
       then Inl (UniqueViolation ''transaction_line'')
       else Inr (ls @ [(h, stored_document_line l)])))))"

text \<open>The body of the loop over the documents of a file: find and close the current one, insert the new.\<close>

definition promote_document ::
  "promote_env \<Rightarrow> type_spec \<Rightarrow> promotion \<Rightarrow> doc_tables \<Rightarrow> validated_document \<Rightarrow> exc + doc_tables" where
  "promote_document env spec pm t d =
     (case t of (ds, ls) \<Rightarrow>
       let prior = find_live_row document_key (promotion_key pm d) ds;
           ds1 = (case prior of None \<Rightarrow> ds | Some v \<Rightarrow> stamp_row (pm_now pm) (ve_id v) ds)
       in rbind (row_of_document spec pm d (map_option ve_id prior)) (\<lambda>row.
          if \<not> (totals_ok row \<and> pe_document_checks env row) then Inl (OtherIntegrityError ''transaction_document'')
          else rbind (insert_row document_key ''transaction_document'' (vd_date d) row ds1) (\<lambda>(h, ds2).
               rbind (rfold (insert_document_line env h) ls (vd_lines d)) (\<lambda>ls2. Inr (ds2, ls2)))))"

section \<open>promote_transaction_documents\<close>

definition promotion_batch :: "promote_env \<Rightarrow> type_spec \<Rightarrow> promotion \<Rightarrow> nat \<Rightarrow> ingest_batch" where
  "promotion_batch env spec pm n = \<lparr>ib_batch_id = pm_batch pm, ib_entity_id = pm_entity pm,
     ib_document_type = ts_doc_type spec, ib_source_stream = ts_stream spec, ib_period_start = pm_period_start pm,
     ib_period_end = pm_period_end pm, ib_row_count = n,
     ib_content_hash = pe_bytes_digest env (pm_data pm), ib_manifest_ref = pm_ingest pm,
     ib_status = ''READY'', ib_ready_at = pm_now pm, ib_run_id = pm_run pm\<rparr>"

definition doc_tables_of :: "'a promote_db_scheme \<Rightarrow> doc_tables" where
  "doc_tables_of db = (transaction_document db, transaction_line db)"

definition store_documents ::
  "promote_env \<Rightarrow> type_spec \<Rightarrow> promotion \<Rightarrow> validation_result \<Rightarrow> 'a promote_db_scheme \<Rightarrow> exc + 'a promote_db_scheme" where
  "store_documents env spec pm res db =
     rbind (insert_batch (pe_vocabulary env) (promotion_batch env spec pm (vr_row_count res)) db) (\<lambda>db1.
     rbind (rfold (promote_document env spec pm) (doc_tables_of db1) (vr_documents res)) (\<lambda>t.
       Inr (db1\<lparr>transaction_document := fst t, transaction_line := snd t\<rparr>)))"

definition promotion_quarantine ::
  "promote_env \<Rightarrow> promotion \<Rightarrow> validation_result \<Rightarrow> 'a promote_db_scheme \<Rightarrow> exc + 'a promote_db_scheme" where
  "promotion_quarantine env pm res db = upsert_quarantine (pe_vocabulary env)
     \<lparr>qa_ingest_id = pm_ingest pm, qa_entity_id = pm_entity pm, qa_document_type = pm_doc_type pm,
      qa_reason = join ''; '' (take 20 (vr_rejections res)), qa_run_id = Some (pm_run pm)\<rparr> db"

definition rejection_message :: "promotion \<Rightarrow> string list \<Rightarrow> string" where
  "rejection_message pm rs = pm_label pm @ '' rejected: '' @ join ''; '' (take 5 rs)
     @ (if 5 < length rs then '' (+'' @ nat_str (length rs - 5) @ '' more)'' else [])"

definition manifest_of :: "promote_env \<Rightarrow> type_spec \<Rightarrow> promotion \<Rightarrow> nat \<Rightarrow> batch_manifest" where
  "manifest_of env spec pm n = \<lparr>bm_slug = pm_slug pm, bm_batch_id = pm_batch pm, bm_entity_id = pm_entity pm,
     bm_document_type = ts_doc_type spec, bm_source_stream = ts_stream spec,
     bm_period_start = pm_period_start pm, bm_period_end = pm_period_end pm, bm_row_count = n,
     bm_content_hash = pe_bytes_digest env (pm_data pm), bm_manifest_ref = pm_ingest pm, bm_ready_at = pm_now pm\<rparr>"

definition promote_run ::
  "promote_env \<Rightarrow> promotion \<Rightarrow> 'a promote_db_scheme \<Rightarrow> (exc + batch_manifest) \<times> 'a promote_db_scheme" where
  "promote_run env pm db =
     (case rbind (load_spec (pe_registry env) (pm_doc_type pm)) (\<lambda>spec.
           rbind (validate_transaction_csv (pm_data pm) (ts_contract spec)) (\<lambda>res. Inr (spec, res))) of
        Inl e \<Rightarrow> (Inl e, db)
      | Inr (spec, res) \<Rightarrow>
          if \<not> vr_ok res then
            (case promotion_quarantine env pm res db of
               Inl e \<Rightarrow> (Inl e, db)
             | Inr db' \<Rightarrow> (Inl (ValidationRejected (rejection_message pm (vr_rejections res))), db'))
          else (case store_documents env spec pm res db of
             Inl e \<Rightarrow> (Inl e, db)
           | Inr db' \<Rightarrow> (Inr (manifest_of env spec pm (vr_row_count res)), db')))"

section \<open>One document\<close>

definition document_lines :: "(nat \<times> validated_line) list \<Rightarrow> nat \<Rightarrow> validated_line list" where
  "document_lines ls h = map snd (filter (\<lambda>x. fst x = h) ls)"

definition docs_ok :: "doc_tables \<Rightarrow> bool" where
  "docs_ok t \<longleftrightarrow> rows_ok document_key (fst t) \<and> (\<forall>x\<in>set (snd t). fst x < length (fst t))"

abbreviation current :: "doc_tables \<Rightarrow> natural_key \<Rightarrow> doc_row version option" where
  "current t k \<equiv> find_live_row document_key k (fst t)"

text \<open>What the live row of a document says, and which row it replaced.\<close>

definition describes :: "promotion \<Rightarrow> validated_document \<Rightarrow> nat option \<Rightarrow> doc_row version \<Rightarrow> bool" where
  "describes pm d prior v \<longleftrightarrow> dr_document (ve_row v) = d\<lparr>vd_lines := []\<rparr> \<and> dr_batch (ve_row v) = pm_batch pm
     \<and> dr_ingest (ve_row v) = pm_ingest pm \<and> dr_supersedes (ve_row v) = prior \<and> totals_ok (ve_row v)
     \<and> rbind (dec_sum (map vl_taxable (vd_lines d))) to_numeric2 = Inr (dr_taxable (ve_row v))
     \<and> rbind (rbind (rmap tax_amount (vd_lines d)) dec_sum) to_numeric2 = Inr (dr_tax (ve_row v))
     \<and> ve_valid_from v = vd_date d"

lemma document_lines_append: "document_lines (ls @ ms) h = document_lines ls h @ document_lines ms h"
  by (simp add: document_lines_def)

lemma document_lines_Pair: "document_lines (map (Pair g) ls) h = (if g = h then ls else [])"
  by (induction ls) (auto simp: document_lines_def)

lemma document_lines_fresh: "\<forall>x\<in>set ls. fst x < h \<Longrightarrow> document_lines ls h = []"
  by (auto simp: document_lines_def filter_empty_conv)

lemma insert_document_lines_Inr:
  "rfold (insert_document_line env h) ls new = Inr ls' \<Longrightarrow> ls' = ls @ map (Pair h) (map stored_document_line new)"
proof (induction new arbitrary: ls)
  case (Cons l new)
  then obtain ls1 where a: "insert_document_line env h ls l = Inr ls1" "rfold (insert_document_line env h) ls1 new = Inr ls'"
    by (auto simp: rbind_eq_Inr_iff)
  from a(1) have "ls1 = ls @ [(h, stored_document_line l)]" by (auto simp: insert_document_line_def rbind_eq_Inr_iff split: if_splits)
  with Cons.IH[OF a(2)] show ?case by simp
qed simp

text \<open>The tax of a document is the sum of the taxes of its lines.\<close>

lemma total_tax_sum:
  "rfold (\<lambda>acc l. rbind (tax_amount l) (dec_add acc)) a ls = Inr b \<Longrightarrow>
     \<exists>ts. rmap tax_amount ls = Inr ts \<and> rfold dec_add a ts = Inr b"
proof (induction ls arbitrary: a)
  case (Cons l ls)
  then obtain t a' where t: "tax_amount l = Inr t" "dec_add a t = Inr a'"
      "rfold (\<lambda>acc l. rbind (tax_amount l) (dec_add acc)) a' ls = Inr b" by (auto simp: rbind_eq_Inr_iff)
  from Cons.IH[OF t(3)] obtain ts where "rmap tax_amount ls = Inr ts" "rfold dec_add a' ts = Inr b" by blast
  with t show ?case by simp
qed simp

lemma row_of_document_Inr:
  assumes "row_of_document spec pm d prior = Inr row"
  shows "dr_document row = d\<lparr>vd_lines := []\<rparr> \<and> dr_batch row = pm_batch pm
     \<and> dr_ingest row = pm_ingest pm \<and> dr_supersedes row = prior \<and> document_key row = promotion_key pm d
     \<and> rbind (dec_sum (map vl_taxable (vd_lines d))) to_numeric2 = Inr (dr_taxable row)
     \<and> rbind (rbind (rmap tax_amount (vd_lines d)) dec_sum) to_numeric2 = Inr (dr_tax row)"
proof -
  from assms obtain a b where a: "total_taxable_value d = Inr a" "to_numeric2 a = Inr (dr_taxable row)"
      and b: "total_tax_value d = Inr b" "to_numeric2 b = Inr (dr_tax row)"
      and row: "dr_document row = d\<lparr>vd_lines := []\<rparr>" "dr_batch row = pm_batch pm" "dr_ingest row = pm_ingest pm"
        "dr_supersedes row = prior" "document_key row = promotion_key pm d"
    by (auto simp: row_of_document_def rbind_eq_Inr_iff document_key_def promotion_key_def)
  from b(1) obtain ts where "rmap tax_amount (vd_lines d) = Inr ts" "dec_sum ts = Inr b"
    unfolding total_tax_value_def dec_sum_def using total_tax_sum by blast
  with a b(2) row show ?thesis by (simp add: total_taxable_value_def)
qed

lemma promote_document_ok:
  assumes ok: "docs_ok t" and p: "promote_document env spec pm t d = Inr t'"
  defines "k \<equiv> promotion_key pm d"
  shows "docs_ok t'"
    and "\<exists>v. current t' k = Some v \<and> describes pm d (map_option ve_id (current t k)) v
       \<and> document_lines (snd t') (ve_id v) = map stored_document_line (vd_lines d) \<and> length (fst t) \<le> ve_id v"
    and "j \<noteq> k \<Longrightarrow> current t' j = current t j"
    and "history (fst t) (fst t') \<and> length (fst t') = Suc (length (fst t))"
    and "h < length (fst t) \<Longrightarrow> document_lines (snd t') h = document_lines (snd t) h"
proof -
  obtain ds ls where t: "t = (ds, ls)" by (cases t)
  let ?prior = "find_live_row document_key k ds"
  let ?ds1 = "case ?prior of None \<Rightarrow> ds | Some v \<Rightarrow> stamp_row (pm_now pm) (ve_id v) ds"
  have r: "rows_ok document_key ds" using ok by (simp add: docs_ok_def t)
  from p obtain row g ds2 ls2 where row: "row_of_document spec pm d (map_option ve_id ?prior) = Inr row" "totals_ok row"
    and i: "insert_row document_key ''transaction_document'' (vd_date d) row ?ds1 = Inr (g, ds2)"
    and l: "rfold (insert_document_line env g) ls (vd_lines d) = Inr ls2" and t': "t' = (ds2, ls2)"
    by (auto simp: t promote_document_def Let_def rbind_eq_Inr_iff k_def split: if_splits)
  note ri = row_of_document_Inr[OF row(1)]
  have s: "rows_ok document_key ?ds1" "length ?ds1 = length ds" "history ds ?ds1"
    "i \<noteq> k \<Longrightarrow> find_live_row document_key i ?ds1 = find_live_row document_key i ds" for i
    using r stamp_row_ok[OF r] history_stamp[OF r] by (auto split: option.splits)
  note ins = insert_row_ok[OF s(1) i]
  have key: "document_key row = k" using ri by (simp add: k_def)
  have g: "g = length ds" "ds2 = ?ds1 @ [new_row (length ds) (vd_date d) row]" using ins s(2) by auto
  note ll = insert_document_lines_Inr[OF l]
  have old: "\<forall>x\<in>set ls. fst x < length ds" using ok by (simp add: docs_ok_def t)
  show "docs_ok t'"
    using ins old by (auto simp: docs_ok_def t' ll g s(2))
  have "find_live_row document_key k ds2 = Some (new_row (length ds) (vd_date d) row)" using insert_row_ok[OF s(1) i, of k] key s(2) by metis
  moreover have "document_lines ls2 (length ds) = map stored_document_line (vd_lines d)"
    by (simp add: ll g(1) document_lines_append document_lines_Pair document_lines_fresh[OF old] del: map_map)
  ultimately show "\<exists>v. current t' k = Some v \<and> describes pm d (map_option ve_id (current t k)) v
       \<and> document_lines (snd t') (ve_id v) = map stored_document_line (vd_lines d) \<and> length (fst t) \<le> ve_id v"
    using ri row(2) by (auto simp: t t' describes_def)
  show "j \<noteq> k \<Longrightarrow> current t' j = current t j"
    unfolding t t' fst_conv using insert_row_ok[OF s(1) i, of j] key s(4)[of j] by metis
  show "history (fst t) (fst t') \<and> length (fst t') = Suc (length (fst t))"
    using history_trans[OF s(3) history_append] s(2) by (simp add: t t' g)
  show "h < length (fst t) \<Longrightarrow> document_lines (snd t') h = document_lines (snd t) h"
    by (simp add: t t' ll g document_lines_append document_lines_Pair del: map_map)
qed

lemma promote_documents_ok:
  assumes "docs_ok t" "rfold (promote_document env spec pm) t ds = Inr t'" "distinct (map (promotion_key pm) ds)"
  shows "docs_ok t'"
    and "\<forall>d\<in>set ds. \<exists>v. current t' (promotion_key pm d) = Some v
       \<and> describes pm d (map_option ve_id (current t (promotion_key pm d))) v
       \<and> document_lines (snd t') (ve_id v) = map stored_document_line (vd_lines d)"
    and "\<forall>j. j \<notin> promotion_key pm ` set ds \<longrightarrow> current t' j = current t j"
    and "history (fst t) (fst t') \<and> length (fst t') = length (fst t) + length ds"
    and "\<forall>h<length (fst t). document_lines (snd t') h = document_lines (snd t) h"
  using assms
proof (induction ds arbitrary: t)
  case Nil
  { case 1 then show ?case by simp next case 2 then show ?case by simp next case 3 then show ?case by simp
  next case 4 then show ?case by simp next case 5 then show ?case by simp }
next
  case (Cons d ds)
  have step: "\<exists>u. promote_document env spec pm t d = Inr u \<and> rfold (promote_document env spec pm) u ds = Inr t'"
    if "rfold (promote_document env spec pm) t (d # ds) = Inr t'" for t
    using that by (auto simp: rbind_eq_Inr_iff)
  {
    case 1
    with step obtain u where u: "promote_document env spec pm t d = Inr u" "rfold (promote_document env spec pm) u ds = Inr t'" by blast
    show ?case using Cons.IH(1)[OF promote_document_ok(1)[OF 1(1) u(1)] u(2)] 1(3) by simp
  next
    case 2
    with step obtain u where u: "promote_document env spec pm t d = Inr u" "rfold (promote_document env spec pm) u ds = Inr t'" by blast
    note ok = promote_document_ok[OF 2(1) u(1)]
    have ds: "distinct (map (promotion_key pm) ds)" "promotion_key pm d \<notin> promotion_key pm ` set ds" using 2(3) by auto
    from ok(2) obtain v where v: "current u (promotion_key pm d) = Some v"
      "describes pm d (map_option ve_id (current t (promotion_key pm d))) v"
      "document_lines (snd u) (ve_id v) = map stored_document_line (vd_lines d)" by blast
    have "v \<in> set (fst u)" using find_live_row_Some[OF v(1)] by blast
    then have "ve_id v < length (fst u)"
      using ok(1) by (metis atLeastLessThan_iff docs_ok_def image_eqI list.set_map rows_ok_def set_upt)
    then have "document_lines (snd t') (ve_id v) = map stored_document_line (vd_lines d)" using Cons.IH(5)[OF ok(1) u(2) ds(1)] v(3) by simp
    moreover have "current t' (promotion_key pm d) = Some v" using Cons.IH(3)[OF ok(1) u(2) ds(1)] ds(2) v(1) by metis
    moreover have "current u (promotion_key pm e) = current t (promotion_key pm e)" if "e \<in> set ds" for e
      using ok(3) ds(2) that by (metis image_eqI)
    ultimately show ?case using Cons.IH(2)[OF ok(1) u(2) ds(1)] v(2) by auto
  next
    case 3
    with step obtain u where u: "promote_document env spec pm t d = Inr u" "rfold (promote_document env spec pm) u ds = Inr t'" by blast
    show ?case using Cons.IH(3)[OF promote_document_ok(1)[OF 3(1) u(1)] u(2)] 3(3) promote_document_ok(3)[OF 3(1) u(1)]
      by (simp del: split_paired_All)
  next
    case 4
    with step obtain u where u: "promote_document env spec pm t d = Inr u" "rfold (promote_document env spec pm) u ds = Inr t'" by blast
    note ok = promote_document_ok[OF 4(1) u(1)]
    have h: "history (fst u) (fst t')" "length (fst t') = length (fst u) + length ds"
      using Cons.IH(4)[OF ok(1) u(2)] 4(3) by auto
    show ?case using history_trans[OF _ h(1)] ok(4) h(2) by auto
  next
    case 5
    with step obtain u where u: "promote_document env spec pm t d = Inr u" "rfold (promote_document env spec pm) u ds = Inr t'" by blast
    note ok = promote_document_ok[OF 5(1) u(1)]
    show ?case using Cons.IH(5)[OF ok(1) u(2)] 5(3) ok(4,5) by auto
  }
qed

section \<open>A promotion\<close>

lemma promotion_keys_distinct:
  assumes "distinct (map doc_key_of ds)"
  shows "distinct (map (promotion_key pm) ds)"
proof -
  have "doc_key_of a = doc_key_of b" if "promotion_key pm a = promotion_key pm b" for a b
    using that by (simp add: promotion_key_def doc_key_of_def coalesce_def)
  with assms show ?thesis unfolding distinct_map inj_on_def by blast
qed

lemma promote_run_Inr:
  assumes "promote_run env pm db = (Inr m, db')"
  obtains spec res where "load_spec (pe_registry env) (pm_doc_type pm) = Inr spec"
    "validate_transaction_csv (pm_data pm) (ts_contract spec) = Inr res" "vr_ok res"
    "store_documents env spec pm res db = Inr db'" "m = manifest_of env spec pm (vr_row_count res)"
  using assms unfolding promote_run_def by (auto simp: rbind_eq_Inr_iff rbind_eq_Inl_iff split: sum.splits if_splits)

lemma store_documents_Inr:
  assumes "store_documents env spec pm res db = Inr db'"
  shows "batches db' = batches db @ [promotion_batch env spec pm (vr_row_count res)]
    \<and> quarantined db' = quarantined db \<and> rejected_rows db' = rejected_rows db
    \<and> rfold (promote_document env spec pm) (doc_tables_of db) (vr_documents res) = Inr (doc_tables_of db')"
proof -
  from assms obtain db1 t where b: "insert_batch (pe_vocabulary env) (promotion_batch env spec pm (vr_row_count res)) db = Inr db1"
    and t: "rfold (promote_document env spec pm) (doc_tables_of db1) (vr_documents res) = Inr t"
    and db': "db' = db1\<lparr>transaction_document := fst t, transaction_line := snd t\<rparr>"
    by (auto simp: store_documents_def rbind_eq_Inr_iff)
  from insert_batch_Inr[OF b] have "doc_tables_of db1 = doc_tables_of db" by (simp add: doc_tables_of_def)
  with t insert_batch_Inr[OF b] show ?thesis by (simp add: db' doc_tables_of_def)
qed

text \<open>
  C14. What a successful promotion does. The manifest it returns and the batch it adds count the lines
  of an accepted file; every document of the file is the current one of its natural key, valid from
  its own date, with exactly its lines, every number rounded to the decimals of its column; with its
  taxable value and its tax, which are the sums of the taxable values and of the four taxes of its
  lines as parsed, rounded to two decimals, and a total that is the sum of the two; and with a pointer to
  the document it replaced, if there was one; documents the file does not mention stay current, and no row or line is
  lost or rewritten. A second promotion of the same file closes all of its documents and inserts
  them again: nothing compares their content.
\<close>

theorem promotion_effect:
  assumes run: "promote_run env pm db = (Inr m, db')" and ok: "docs_ok (doc_tables_of db)"
  shows "\<exists>spec res. load_spec (pe_registry env) (pm_doc_type pm) = Inr spec
    \<and> validate_transaction_csv (pm_data pm) (ts_contract spec) = Inr res \<and> vr_ok res
    \<and> bm_row_count m = vr_row_count res \<and> batches db' = batches db @ [promotion_batch env spec pm (vr_row_count res)]
    \<and> docs_ok (doc_tables_of db')
    \<and> (\<forall>d\<in>set (vr_documents res). \<exists>v. current (doc_tables_of db') (promotion_key pm d) = Some v
         \<and> describes pm d (map_option ve_id (current (doc_tables_of db) (promotion_key pm d))) v
         \<and> document_lines (transaction_line db') (ve_id v) = map stored_document_line (vd_lines d))
    \<and> (\<forall>k. k \<notin> promotion_key pm ` set (vr_documents res)
         \<longrightarrow> current (doc_tables_of db') k = current (doc_tables_of db) k)
    \<and> history (transaction_document db) (transaction_document db')
    \<and> length (transaction_document db') = length (transaction_document db) + length (vr_documents res)
    \<and> (\<forall>h<length (transaction_document db).
         document_lines (transaction_line db') h = document_lines (transaction_line db) h)"
proof -
  from run obtain spec res where l: "load_spec (pe_registry env) (pm_doc_type pm) = Inr spec"
    and v: "validate_transaction_csv (pm_data pm) (ts_contract spec) = Inr res" "vr_ok res"
    and st: "store_documents env spec pm res db = Inr db'" and m: "m = manifest_of env spec pm (vr_row_count res)"
    by (rule promote_run_Inr)
  note s = store_documents_Inr[OF st]
  have d: "distinct (map (promotion_key pm) (vr_documents res))"
    using accepted_file_keys[OF v] by (rule promotion_keys_distinct)
  have f: "rfold (promote_document env spec pm) (doc_tables_of db) (vr_documents res) = Inr (doc_tables_of db')"
    using s by blast
  note p = promote_documents_ok[OF ok f d]
  have t: "fst (doc_tables_of q) = transaction_document q" "snd (doc_tables_of q) = transaction_line q" for q :: "'a promote_db_scheme"
    by (simp_all add: doc_tables_of_def)
  have "bm_row_count m = vr_row_count res" by (simp add: m manifest_of_def)
  with l v s p[unfolded t] show ?thesis unfolding t by blast
qed

section \<open>When the totals add up\<close>

text \<open>Amounts with at most two decimals, counted in hundredths.\<close>

definition two_decimals :: "decimal \<Rightarrow> bool" where
  "two_decimals d \<longleftrightarrow> is_finite d \<and> -2 \<le> expo d"

definition cents :: "decimal \<Rightarrow> int" where
  "cents d = dec_units (-2) d"

lemma num_digits_le: "n < 10 ^ k \<Longrightarrow> 0 < k \<Longrightarrow> num_digits n \<le> k"
proof (induction n arbitrary: k rule: nat_str.induct)
  case (1 n)
  show ?case
  proof (cases "n < 10")
    case True
    with 1 show ?thesis by (simp add: num_digits_def nat_str.simps[of n])
  next
    case False
    with 1(2) obtain j where k: "k = Suc j" "0 < j" by (cases k; cases "k - 1") auto
    with False 1 have "num_digits (n div 10) \<le> j" by (intro "1.IH") (simp_all add: less_mult_imp_div_less mult.commute)
    with False k show ?thesis by (simp add: num_digits_def nat_str.simps[of n])
  qed
qed

lemma units_cents:
  assumes "is_finite d" "-2 \<le> m" "m \<le> expo d"
  shows "cents d = dec_units m d * 10 ^ nat (m + 2)"
proof -
  have d: "d = Fin (dec_neg d) (dec_coeff d) (expo d)" using assms(1) by (rule finite_Fin)
  have "nat (expo d - -2) = nat (expo d - m) + nat (m + 2)" using assms(2,3) by simp
  then show ?thesis
    unfolding cents_def by (subst (1 2) d) (simp add: scaled_def power_add)
qed

lemma add_two_decimals:
  assumes "two_decimals a" "two_decimals b" "\<bar>cents a + cents b\<bar> < 10 ^ 28"
  shows "\<exists>r. dec_add a b = Inr r \<and> two_decimals r \<and> cents r = cents a + cents b"
proof -
  let ?m = "min (expo a) (expo b)"
  let ?v = "dec_units ?m a + dec_units ?m b"
  have f: "is_finite a" "is_finite b" and m: "-2 \<le> ?m" using assms(1,2) by (auto simp: two_decimals_def)
  have c: "cents a + cents b = ?v * 10 ^ nat (?m + 2)"
    using units_cents[OF f(1) m] units_cents[OF f(2) m] by (simp add: distrib_right)
  have "\<bar>?v\<bar> * 1 \<le> \<bar>?v\<bar> * 10 ^ nat (?m + 2)" by (intro mult_left_mono) simp_all
  then have "\<bar>?v\<bar> < 10 ^ 28" using assms(3) unfolding c abs_mult by simp
  then have "nat \<bar>?v\<bar> < 10 ^ 28" by (simp add: nat_less_iff)
  then have "num_digits (nat \<bar>?v\<bar>) \<le> 28" by (rule num_digits_le) simp
  from dec_add_exact[OF f this] obtain r where r: "dec_add a b = Inr r" "is_finite r" "expo r = ?m" "dec_units ?m r = ?v"
    by blast
  have "cents r = ?v * 10 ^ nat (?m + 2)" using units_cents[OF r(2) m] r(3,4) by simp
  with r m c show ?thesis by (auto simp: two_decimals_def)
qed

lemma to_numeric2_cents:
  assumes "two_decimals d" "\<bar>cents d\<bar> < 10 ^ 18"
  shows "to_numeric2 d = Inr (Num (cents d))"
proof -
  obtain s c e where d: "d = Fin s c e" using assms(1) by (cases d) (auto simp: two_decimals_def)
  have e: "-2 \<le> e" using assms(1) by (simp add: two_decimals_def d)
  have c: "cents d = (if s then - int (cents_of c e) else int (cents_of c e))"
    using e by (simp add: cents_def d scaled_def cents_of_units)
  then have "int (cents_of c e) < 10 ^ 18" using assms(2) by (simp split: if_splits)
  then have "cents_of c e < 10 ^ 18" by (simp add: nat_less_iff zless_nat_eq_int_zless)
  with c show ?thesis by (simp add: to_numeric2_def d Let_def)
qed

lemma fold_two_decimals:
  assumes "two_decimals acc" "\<forall>x\<in>set xs. \<exists>v. f x = Inr v \<and> two_decimals v \<and> cents v = g x"
    and "\<bar>cents acc\<bar> + sum_list (map (\<lambda>x. \<bar>g x\<bar>) xs) < 10 ^ 28"
  shows "\<exists>r. rfold (\<lambda>a x. rbind (f x) (dec_add a)) acc xs = Inr r \<and> two_decimals r
    \<and> cents r = cents acc + sum_list (map g xs)"
  using assms
proof (induction xs arbitrary: acc)
  case (Cons x xs)
  then obtain v where v: "f x = Inr v" "two_decimals v" "cents v = g x" by auto
  have nn: "0 \<le> sum_list (map (\<lambda>x. \<bar>g x\<bar>) xs)" by (rule sum_list_nonneg) auto
  with Cons.prems(3) v have "\<bar>cents acc + cents v\<bar> < 10 ^ 28" by auto
  from add_two_decimals[OF Cons.prems(1) v(2) this] obtain a where
    a: "dec_add acc v = Inr a" "two_decimals a" "cents a = cents acc + g x" using v(3) by auto
  have "\<bar>cents a\<bar> + sum_list (map (\<lambda>x. \<bar>g x\<bar>) xs) < 10 ^ 28" using Cons.prems(3) a(3) by auto
  from Cons.IH[OF a(2) _ this] Cons.prems(2) a v show ?case by (auto simp: add.assoc)
qed simp

text \<open>The tax of a line, and all amounts of a document, in hundredths.\<close>

definition line_tax :: "validated_line \<Rightarrow> int" where
  "line_tax l = cents (vl_cgst l) + cents (vl_sgst l) + cents (vl_igst l) + cents (vl_cess l)"

definition line_amounts :: "validated_line \<Rightarrow> decimal list" where
  "line_amounts l = [vl_taxable l, vl_cgst l, vl_sgst l, vl_igst l, vl_cess l]"

definition line_size :: "validated_line \<Rightarrow> int" where
  "line_size l = sum_list (map (\<lambda>d. \<bar>cents d\<bar>) (line_amounts l))"

lemma tax_amount_two_decimals:
  assumes "\<forall>d\<in>set (line_amounts l). two_decimals d" "line_size l < 10 ^ 28"
  shows "\<exists>v. tax_amount l = Inr v \<and> two_decimals v \<and> cents v = line_tax l"
proof -
  have d: "two_decimals (vl_cgst l)" "two_decimals (vl_sgst l)" "two_decimals (vl_igst l)" "two_decimals (vl_cess l)"
    using assms(1) by (simp_all add: line_amounts_def)
  have s: "\<bar>cents (vl_taxable l)\<bar> + \<bar>cents (vl_cgst l)\<bar> + \<bar>cents (vl_sgst l)\<bar> + \<bar>cents (vl_igst l)\<bar> + \<bar>cents (vl_cess l)\<bar> < 10 ^ 28"
    using assms(2) by (simp add: line_size_def line_amounts_def)
  from s have "\<bar>cents (vl_cgst l) + cents (vl_sgst l)\<bar> < 10 ^ 28" by linarith
  from add_two_decimals[OF d(1,2) this] obtain a where a: "dec_add (vl_cgst l) (vl_sgst l) = Inr a" "two_decimals a"
    "cents a = cents (vl_cgst l) + cents (vl_sgst l)" by blast
  from s have "\<bar>cents a + cents (vl_igst l)\<bar> < 10 ^ 28" unfolding a(3) by linarith
  from add_two_decimals[OF a(2) d(3) this] obtain b where b: "dec_add a (vl_igst l) = Inr b" "two_decimals b"
    "cents b = cents a + cents (vl_igst l)" by blast
  from s have "\<bar>cents b + cents (vl_cess l)\<bar> < 10 ^ 28" unfolding b(3) a(3) by linarith
  from add_two_decimals[OF b(2) d(4) this] obtain c where "dec_add b (vl_cess l) = Inr c" "two_decimals c"
    "cents c = cents b + cents (vl_cess l)" by blast
  with a b show ?thesis by (auto simp: tax_amount_def line_tax_def)
qed

lemma sum_list_le: "(\<And>x. x \<in> set xs \<Longrightarrow> f x \<le> g x) \<Longrightarrow> sum_list (map f xs) \<le> (sum_list (map g xs) :: int)"
  by (induction xs) (auto intro: add_mono)

lemma sum_list_pos: "(\<And>x. 0 \<le> (f x :: int)) \<Longrightarrow> 0 \<le> sum_list (map f xs)"
  by (induction xs) auto

lemma sum_list_member_le: "x \<in> set xs \<Longrightarrow> (\<And>x. 0 \<le> (f x :: int)) \<Longrightarrow> f x \<le> sum_list (map f xs)"
  by (induction xs) (auto intro: add_increasing add_increasing2 sum_list_pos)

lemma abs_sum_list: "\<bar>sum_list (map f xs)\<bar> \<le> sum_list (map (\<lambda>x. \<bar>f x :: int\<bar>) xs)"
  by (induction xs) (auto intro: order.trans[OF abs_triangle_ineq])

lemma total_taxable_cents:
  assumes "\<forall>l\<in>set ls. two_decimals (vl_taxable l)" "sum_list (map (\<lambda>l. \<bar>cents (vl_taxable l)\<bar>) ls) < 10 ^ 28"
  shows "\<exists>r. dec_sum (map vl_taxable ls) = Inr r \<and> two_decimals r \<and> cents r = sum_list (map (\<lambda>l. cents (vl_taxable l)) ls)"
proof -
  have z: "two_decimals dec_zero" "cents dec_zero = 0" by (simp_all add: two_decimals_def cents_def dec_zero_def scaled_def)
  have "rfold dec_add acc (map vl_taxable ls) = rfold (\<lambda>a l. rbind (Inr (vl_taxable l)) (dec_add a)) acc ls" for acc
    by (induction ls arbitrary: acc) simp_all
  with fold_two_decimals[where f = "\<lambda>l. Inr (vl_taxable l)" and g = "\<lambda>l. cents (vl_taxable l)" and xs = ls and acc = dec_zero] assms z
  show ?thesis by (auto simp: dec_sum_def)
qed

lemma total_tax_cents:
  assumes "\<forall>l\<in>set ls. \<forall>a\<in>set (line_amounts l). two_decimals a" "sum_list (map line_size ls) < 10 ^ 28"
  shows "\<exists>r. rfold (\<lambda>acc l. rbind (tax_amount l) (dec_add acc)) dec_zero ls = Inr r \<and> two_decimals r
    \<and> cents r = sum_list (map line_tax ls)"
proof -
  have z: "two_decimals dec_zero" "cents dec_zero = 0" by (simp_all add: two_decimals_def cents_def dec_zero_def scaled_def)
  have size: "0 \<le> line_size l" "\<bar>line_tax l\<bar> \<le> line_size l" for l by (simp_all add: line_size_def line_amounts_def line_tax_def)
  have "line_size l \<le> sum_list (map line_size ls)" if "l \<in> set ls" for l
    using that size(1) by (rule sum_list_member_le)
  then have "\<exists>v. tax_amount l = Inr v \<and> two_decimals v \<and> cents v = line_tax l" if "l \<in> set ls" for l
    using tax_amount_two_decimals[of l] assms that by fastforce
  moreover have "sum_list (map (\<lambda>l. \<bar>line_tax l\<bar>) ls) < 10 ^ 28"
    using sum_list_le[of ls "\<lambda>l. \<bar>line_tax l\<bar>" line_size] size(2) assms(2) by simp
  ultimately show ?thesis using fold_two_decimals[OF z(1), where f = tax_amount and g = line_tax and xs = ls] z(2) by simp
qed

text \<open>
  A document whose amounts all have at most two decimals and together stay below the columns'
  sixteen digits passes the check on its totals: nothing is rounded on the way, and the three stored
  totals are the sums of the lines' amounts to the paisa.
\<close>

theorem two_decimal_totals:
  assumes "\<forall>l\<in>set (vd_lines d). \<forall>a\<in>set (line_amounts l). two_decimals a"
    and "sum_list (map line_size (vd_lines d)) < 10 ^ 18"
  shows "\<exists>row. row_of_document spec pm d prior = Inr row \<and> totals_ok row
    \<and> dr_taxable row = Num (sum_list (map (\<lambda>l. cents (vl_taxable l)) (vd_lines d)))
    \<and> dr_tax row = Num (sum_list (map line_tax (vd_lines d)))"
proof -
  let ?ls = "vd_lines d"
  let ?a = "sum_list (map (\<lambda>l. cents (vl_taxable l)) ?ls)" and ?b = "sum_list (map line_tax ?ls)"
  have size: "\<bar>cents (vl_taxable l)\<bar> + \<bar>line_tax l\<bar> \<le> line_size l" for l
    by (simp add: line_size_def line_amounts_def line_tax_def)
  have "sum_list (map (\<lambda>l. \<bar>cents (vl_taxable l)\<bar> + \<bar>line_tax l\<bar>) ?ls) \<le> sum_list (map line_size ?ls)"
    by (rule sum_list_le) (rule size)
  then have sum: "sum_list (map (\<lambda>l. \<bar>cents (vl_taxable l)\<bar>) ?ls) + sum_list (map (\<lambda>l. \<bar>line_tax l\<bar>) ?ls) < 10 ^ 18"
    using assms(2) by (simp add: sum_list_addf)
  have nn: "0 \<le> sum_list (map (\<lambda>l. \<bar>cents (vl_taxable l)\<bar>) ?ls)" "0 \<le> sum_list (map (\<lambda>l. \<bar>line_tax l\<bar>) ?ls)"
    by (rule sum_list_pos, simp)+
  have b: "\<bar>?a\<bar> < 10 ^ 18" "\<bar>?b\<bar> < 10 ^ 18" "\<bar>?a + ?b\<bar> < 10 ^ 18"
    using sum nn abs_sum_list[of "\<lambda>l. cents (vl_taxable l)" ?ls] abs_sum_list[of line_tax ?ls] by linarith+
  have "sum_list (map (\<lambda>l. \<bar>cents (vl_taxable l)\<bar>) ?ls) < 10 ^ 28" using sum nn by simp
  with total_taxable_cents[of ?ls] assms(1) obtain a where a: "total_taxable_value d = Inr a" "two_decimals a" "cents a = ?a"
    by (auto simp: total_taxable_value_def line_amounts_def)
  have "sum_list (map line_size ?ls) < 10 ^ 28" using assms(2) by simp
  from total_tax_cents[OF assms(1) this] obtain t where t: "total_tax_value d = Inr t" "two_decimals t" "cents t = ?b"
    by (auto simp: total_tax_value_def)
  have "\<bar>cents a + cents t\<bar> < 10 ^ 28" using b(3) a(3) t(3) by simp
  from add_two_decimals[OF a(2) t(2) this] obtain c where c: "dec_add a t = Inr c" "two_decimals c" "cents c = ?a + ?b"
    using a(3) t(3) by auto
  have n: "to_numeric2 a = Inr (Num ?a)" "to_numeric2 t = Inr (Num ?b)" "to_numeric2 c = Inr (Num (?a + ?b))"
    using to_numeric2_cents[OF a(2)] to_numeric2_cents[OF t(2)] to_numeric2_cents[OF c(2)] b a(3) t(3) c(3) by simp_all
  show ?thesis
    by (simp add: row_of_document_def a(1) t(1) c(1) n total_value_def totals_ok_def)
qed

lemma rfold_stuck: "x \<in> set xs \<Longrightarrow> (\<And>s. \<exists>e. f s x = Inl e) \<Longrightarrow> \<exists>e. rfold f s xs = Inl e"
proof (induction xs arbitrary: s)
  case (Cons y ys)
  then show ?case by (cases "f s y") (auto, metis sum.simps(4))
qed simp

lemma negative_igst_line:
  assumes "to_numeric2 (vl_igst l) = Inr (Num i)" "i < 0"
  shows "\<exists>e. insert_document_line env h ls l = Inl e"
proof -
  have "\<not> tax_head_ok (Num i) cg sg" for cg sg using assms(2) by (simp add: tax_head_ok_def)
  then show ?thesis
    by (cases "to_numeric2 (vl_cgst l)"; cases "to_numeric2 (vl_sgst l)") (auto simp: insert_document_line_def assms(1))
qed

text \<open>
  The validator asks only that IGST is not positive along with another head, the table that it
  is positive alone or zero. So a file accepted with a line whose IGST is a negative number of paisa,
  as on a credit note, can never be promoted: every attempt ends in an error, the tables as they
  were, and no verdict in quarantine.
\<close>

theorem negative_igst_never_promotes:
  assumes "load_spec (pe_registry env) (pm_doc_type pm) = Inr spec"
    and "validate_transaction_csv (pm_data pm) (ts_contract spec) = Inr res" "vr_ok res"
    and "d \<in> set (vr_documents res)" "l \<in> set (vd_lines d)" "to_numeric2 (vl_igst l) = Inr (Num i)" "i < 0"
  shows "\<exists>e. promote_run env pm db = (Inl e, db)"
proof -
  have lines: "\<exists>e. rfold (insert_document_line env h) ls (vd_lines d) = Inl e" for h ls
    by (rule rfold_stuck[OF assms(5)]) (rule negative_igst_line[OF assms(6,7)])
  have doc: "\<exists>e. promote_document env spec pm t d = Inl e" for t
  proof (cases "promote_document env spec pm t d")
    case (Inr t')
    with lines show ?thesis
      by (auto simp: promote_document_def Let_def rbind_eq_Inr_iff split: prod.splits if_splits) (metis sum.simps(4))+
  qed simp
  have "\<exists>e. store_documents env spec pm res db = Inl e"
  proof (cases "store_documents env spec pm res db")
    case (Inr db')
    from store_documents_Inr[OF this] rfold_stuck[OF assms(4), of "promote_document env spec pm" "doc_tables_of db"] doc
    show ?thesis by fastforce
  qed simp
  with assms(1,2,3) show ?thesis by (auto simp: promote_run_def)
qed

section \<open>Witnesses\<close>

definition demo_promote_env :: promote_env where
  "demo_promote_env = \<lparr>pe_registry = [''VENDOR_INVOICE'' \<mapsto>
       \<lparr>ty_stream = ''B'', ty_contract = ''direction=INWARD;counterparty=OPTIONAL'', ty_archetype = Some 1\<rparr>],
     pe_bytes_digest = take 4,
     pe_vocabulary = [(''Document_Type'', ''VENDOR_INVOICE''), (''Source_Stream'', ''B''), (''Batch_Status'', ''READY'')],
     pe_document_checks = (\<lambda>r. True), pe_line_checks = (\<lambda>l. True)\<rparr>"

definition demo_promote_db :: promote_db where
  "demo_promote_db = \<lparr>batches = [], quarantined = [], rejected_rows = [], transaction_document = [], transaction_line = []\<rparr>"

definition demo_promotion :: "string list \<Rightarrow> promotion" where
  "demo_promotion rs = \<lparr>pm_label = ''acme'', pm_slug = ''acme'', pm_doc_type = ''VENDOR_INVOICE'', pm_ingest = 7,
     pm_entity = 1, pm_data = join [CHR 0x0A]
       (''doc_number,doc_date,line_number,hsn_sac,quantity,unit_price,taxable_value,gst_rate,igst_amount,cess_amount'' # rs),
     pm_period_start = Date 2026 4 1, pm_period_end = Date 2026 4 30, pm_run = 7, pm_batch = 7, pm_now = 7\<rparr>"

lemma demo_promote_ok: "docs_ok (doc_tables_of demo_promote_db)"
  by (simp add: docs_ok_def doc_tables_of_def demo_promote_db_def)

theorem promotion_effect_witness:
  "\<exists>m db'. promote_run demo_promote_env (demo_promotion [''A1,01/04/2026,1,8471,2,50,100,18,18,0'']) demo_promote_db
     = (Inr m, db') \<and> docs_ok (doc_tables_of db') \<and> bm_row_count m = 1"
proof -
  let ?r = "promote_run demo_promote_env (demo_promotion [''A1,01/04/2026,1,8471,2,50,100,18,18,0'']) demo_promote_db"
  have "case ?r of (Inr m, db') \<Rightarrow> bm_row_count m = 1 | (Inl e, db') \<Rightarrow> False" by code_simp
  then obtain m db' where r: "?r = (Inr m, db')" "bm_row_count m = 1" by (cases ?r; cases "fst ?r") auto
  from promotion_effect[OF r(1) demo_promote_ok] have "docs_ok (doc_tables_of db')" by blast
  with r show ?thesis by blast
qed

text \<open>A taxable value of 100.005 is stored as 100.01.\<close>

lemma rounded_line:
  "case promote_run demo_promote_env (demo_promotion [''A1,01/04/2026,1,8471,2,50,100.005,18,18,0'']) demo_promote_db of
     (Inr m, db') \<Rightarrow> map (\<lambda>(h, l). vl_taxable l) (transaction_line db') = [Fin False 10001 (-2)] | (Inl e, db') \<Rightarrow> False"
  by code_simp

definition demo_validated_line :: validated_line where
  "demo_validated_line = \<lparr>vl_number = 1, vl_hsn_sac = ''8471'', vl_description = None, vl_quantity = Fin False 2 0, vl_uom = None,
     vl_unit_price = Fin False 50 0, vl_taxable = Fin False 10050 (-2), vl_gst_rate = Fin False 18 0,
     vl_cgst = dec_zero, vl_sgst = dec_zero, vl_igst = Fin False 1809 (-2), vl_cess = dec_zero, vl_itc = dec_zero,
     vl_attributes = []\<rparr>"

theorem two_decimal_totals_witness:
  "\<exists>row. row_of_document \<lparr>ts_doc_type = ''VENDOR_INVOICE'', ts_stream = ''B'', ts_contract = demo_contract\<rparr> (demo_promotion [])
      \<lparr>vd_number = ''A1'', vd_date = Date 2026 4 1, vd_gstin = None, vd_name = None, vd_currency = ''INR'',
       vd_lines = [demo_validated_line], vd_attributes = []\<rparr> None = Inr row \<and> totals_ok row \<and> dr_tax row = Num 1809"
proof -
  let ?d = "\<lparr>vd_number = ''A1'', vd_date = Date 2026 4 1, vd_gstin = None, vd_name = None, vd_currency = ''INR'',
       vd_lines = [demo_validated_line], vd_attributes = []\<rparr>"
  have t: "\<forall>l\<in>set (vd_lines ?d). \<forall>a\<in>set (line_amounts l). two_decimals a" by code_simp
  have s: "sum_list (map line_size (vd_lines ?d)) < 10 ^ 18" by code_simp
  have "sum_list (map line_tax (vd_lines ?d)) = 1809" by code_simp
  with two_decimal_totals[OF t s] show ?thesis by metis
qed

text \<open>
  The check on the totals compares three columns that were rounded apart. A line of half a
  paisa taxable and half a paisa cess is accepted by the validator, its two sums round up and their
  total does not, and the promotion ends in the integrity error of the table with nothing written
  and no verdict in quarantine.
\<close>

theorem sub_paisa_document_fails:
  "promote_run demo_promote_env (demo_promotion [''A1,01/04/2026,1,8471,1,0.005,0.005,0,0,0.005'']) demo_promote_db
     = (Inl (OtherIntegrityError ''transaction_document''), demo_promote_db)"
  by code_simp

theorem negative_igst_never_promotes_witness:
  "\<exists>e. promote_run demo_promote_env (demo_promotion [''A1,01/04/2026,1,8471,2,50,100,18,-18,0'']) demo_promote_db
     = (Inl e, demo_promote_db)"
proof -
  let ?pm = "demo_promotion [''A1,01/04/2026,1,8471,2,50,100,18,-18,0'']"
  let ?s = "load_spec (pe_registry demo_promote_env) (pm_doc_type ?pm)"
  have "case ?s of Inl e \<Rightarrow> False | Inr spec \<Rightarrow> (case validate_transaction_csv (pm_data ?pm) (ts_contract spec) of
      Inl e \<Rightarrow> False | Inr res \<Rightarrow> vr_ok res \<and> (case vr_documents res of [d] \<Rightarrow>
        (case vd_lines d of [l] \<Rightarrow> to_numeric2 (vl_igst l) = Inr (Num (-1800)) | _ \<Rightarrow> False) | _ \<Rightarrow> False))"
    by code_simp
  then obtain spec res d l where "?s = Inr spec" "validate_transaction_csv (pm_data ?pm) (ts_contract spec) = Inr res"
    "vr_ok res" "d \<in> set (vr_documents res)" "l \<in> set (vd_lines d)" "to_numeric2 (vl_igst l) = Inr (Num (-1800))"
    by (auto split: sum.splits list.splits)
  then show ?thesis by (rule negative_igst_never_promotes) simp
qed

end
