(* ===== verification/Reader.thy ===== *)
theory Reader
  imports Promote
begin

text \<open>
  \<open>src/src/reader/silver_reader.py\<close>: \<open>SilverReader\<close>, what Pipeline 2 and the status
  page see of a tenant. It reads the \<open>v1_\<close> views of Silver (tenant migrations 004 and 013, plain
  projections) and writes Gold (003): the executions, their facts and the consumers' watermarks.
  Instants count from the epoch, so \<open>ready_at > watermark - overlap\<close> is written with the
  overlap on the other side.
\<close>

section \<open>Data\<close>

record engine_versions =
  rule_catalog_version :: string
  corpus_version :: string
  tenant_pack_version :: string

record batch_ref =
  br_batch_id :: uuid
  br_entity_id :: uuid
  br_document_type :: string
  br_source_stream :: string
  br_period_start :: date
  br_period_end :: date
  br_row_count :: nat
  br_ready_at :: instant
  br_manifest_ref :: uuid

record invoice_row =
  iv_doc :: nat
  iv_number :: string
  iv_gstin :: "string option"
  iv_date :: date
  iv_taxable :: numeric
  iv_tax :: numeric
  iv_total :: numeric
  iv_ingest :: uuid

record rejection_detail =
  rd_line :: nat
  rd_column :: "string option"
  rd_message :: string

datatype status = PENDING | QUARANTINED | ACCEPTED | PARTIAL

record artefact_outcome =
  ao_ingest :: uuid
  ao_status :: status
  ao_document_type :: "string option"
  ao_batch :: "uuid option"
  ao_row_count :: "nat option"
  ao_accepted :: "nat option"
  ao_rejected :: nat
  ao_reason :: "string option"
  ao_rejections :: "rejection_detail list"

record execution =
  ex_batch :: uuid
  ex_versions :: engine_versions
  ex_row_count :: nat

record fact =
  fa_invoice :: uuid
  fa_rule :: string
  fa_type :: string
  fa_severity :: string
  fa_detail :: string
  fa_ingest :: uuid

record fact_row =
  fr_id :: uuid
  fr_batch :: uuid
  fr_fact :: fact
  fr_rule_catalog :: string
  fr_corpus :: string

record watermark =
  wm_consumer :: string
  wm_document_type :: string
  wm_ready_at :: instant
  wm_batch :: uuid

record gold =
  executions :: "execution list"
  fact_records :: "fact_row list"
  watermarks :: "watermark list"

definition ref_of :: "ingest_batch \<Rightarrow> batch_ref" where
  "ref_of b = \<lparr>br_batch_id = ib_batch_id b, br_entity_id = ib_entity_id b, br_document_type = ib_document_type b,
     br_source_stream = ib_source_stream b, br_period_start = ib_period_start b, br_period_end = ib_period_end b,
     br_row_count = ib_row_count b, br_ready_at = ib_ready_at b, br_manifest_ref = ib_manifest_ref b\<rparr>"

section \<open>pending_batches\<close>

definition epoch :: instant where
  "epoch = 0"

definition find_watermark :: "string \<Rightarrow> string \<Rightarrow> gold \<Rightarrow> watermark option" where
  "find_watermark consumer ty g = List.find (\<lambda>w. wm_consumer w = consumer \<and> wm_document_type w = ty) (watermarks g)"

definition watermark_of :: "string \<Rightarrow> string \<Rightarrow> gold \<Rightarrow> instant" where
  "watermark_of consumer ty g = (case find_watermark consumer ty g of None \<Rightarrow> epoch | Some w \<Rightarrow> wm_ready_at w)"

definition executed :: "gold \<Rightarrow> uuid \<Rightarrow> engine_versions \<Rightarrow> bool" where
  "executed g u vs \<longleftrightarrow> (\<exists>e\<in>set (executions g). ex_batch e = u \<and> ex_versions e = vs)"

definition is_pending ::
  "string \<Rightarrow> engine_versions \<Rightarrow> string \<Rightarrow> nat \<Rightarrow> gold \<Rightarrow> ingest_batch \<Rightarrow> bool" where
  "is_pending consumer vs ty overlap g b \<longleftrightarrow> ib_status b = ''READY'' \<and> ib_document_type b = ty
     \<and> watermark_of consumer ty g < ib_ready_at b + overlap \<and> \<not> executed g (ib_batch_id b) vs"

text \<open>Batches with the same \<open>ready_at\<close> come in any order; here it is the order of insertion.\<close>

definition pending_batches ::
  "string \<Rightarrow> engine_versions \<Rightarrow> string \<Rightarrow> nat \<Rightarrow> nat \<Rightarrow> 'a silver_core_scheme \<Rightarrow> gold \<Rightarrow> batch_ref list" where
  "pending_batches consumer vs ty limit overlap db g =
     map ref_of (take limit (sort_key ib_ready_at (filter (is_pending consumer vs ty overlap g) (batches db))))"

section \<open>read_invoices\<close>

definition invoice_of :: "doc_row version \<Rightarrow> invoice_row" where
  "invoice_of v = (let r = ve_row v; d = dr_document r in
     \<lparr>iv_doc = ve_id v, iv_number = vd_number d, iv_gstin = vd_gstin d, iv_date = vd_date d,
      iv_taxable = dr_taxable r, iv_tax = dr_tax r, iv_total = dr_total r, iv_ingest = dr_ingest r\<rparr>)"

definition read_invoices :: "uuid \<Rightarrow> 'a promote_db_scheme \<Rightarrow> invoice_row list" where
  "read_invoices u db = map invoice_of (sort_key (\<lambda>v. vd_number (dr_document (ve_row v)))
     (filter (\<lambda>v. dr_batch (ve_row v) = u \<and> ve_live v) (transaction_document db)))"

section \<open>artefact_outcome\<close>

definition rejection_of :: "rejected_row \<Rightarrow> rejection_detail" where
  "rejection_of r = \<lparr>rd_line = rr_source_line r, rd_column = rr_column r, rd_message = rr_message r\<rparr>"

definition rejections_of :: "uuid \<Rightarrow> 'a silver_core_scheme \<Rightarrow> rejection_detail list" where
  "rejections_of u db = map rejection_of (sort_key rr_source_line (filter (\<lambda>r. rr_ingest_id r = u) (rejected_rows db)))"

text \<open>
  The verdict comes first, then the batch. Where an artefact has several batches the query takes
  whichever row comes first; here it is the oldest.
\<close>

definition artefact_outcome_of :: "uuid \<Rightarrow> 'a silver_core_scheme \<Rightarrow> artefact_outcome" where
  "artefact_outcome_of u db =
     (case List.find (\<lambda>q. qa_ingest_id q = u) (quarantined db) of
        Some q \<Rightarrow> \<lparr>ao_ingest = u, ao_status = QUARANTINED, ao_document_type = None, ao_batch = None,
          ao_row_count = None, ao_accepted = None, ao_rejected = 0, ao_reason = Some (qa_reason q), ao_rejections = []\<rparr>
      | None \<Rightarrow>
          (case List.find (\<lambda>b. ib_manifest_ref b = u) (batches db) of
             None \<Rightarrow> \<lparr>ao_ingest = u, ao_status = PENDING, ao_document_type = None, ao_batch = None,
               ao_row_count = None, ao_accepted = None, ao_rejected = 0, ao_reason = None, ao_rejections = []\<rparr>
           | Some b \<Rightarrow>
               let rs = rejections_of u db; n = length rs in
               \<lparr>ao_ingest = u, ao_status = (if n = 0 then ACCEPTED else PARTIAL),
                ao_document_type = Some (ib_document_type b), ao_batch = Some (ib_batch_id b),
                ao_row_count = Some (ib_row_count b + n), ao_accepted = Some (ib_row_count b),
                ao_rejected = n, ao_reason = None, ao_rejections = rs\<rparr>))"

section \<open>record_execution\<close>

definition severities :: "string list" where
  "severities = [''INFO'', ''WARN'', ''CRITICAL'']"

text \<open>One fact; its id is the one \<open>uuid4\<close> drew.\<close>

definition insert_fact ::
  "uuid \<Rightarrow> engine_versions \<Rightarrow> fact_row list \<Rightarrow> uuid \<times> fact \<Rightarrow> exc + fact_row list" where
  "insert_fact batch vs rs nf =
     (case nf of (i, f) \<Rightarrow>
        if fa_severity f \<notin> set severities then Inl (OtherIntegrityError ''fact_record_severity_check'')
        else if \<exists>r\<in>set rs. fr_id r = i then Inl (UniqueViolation ''fact_record_pkey'')
        else Inr (rs @ [\<lparr>fr_id = i, fr_batch = batch, fr_fact = f,
               fr_rule_catalog = rule_catalog_version vs, fr_corpus = corpus_version vs\<rparr>]))"

text \<open>The watermark never goes back; \<open>last_batch_id\<close> is the last batch recorded.\<close>

definition advance_watermark :: "string \<Rightarrow> batch_ref \<Rightarrow> watermark list \<Rightarrow> watermark list" where
  "advance_watermark consumer b ws =
     (let hit = (\<lambda>w. wm_consumer w = consumer \<and> wm_document_type w = br_document_type b) in
      if list_ex hit ws
      then map (\<lambda>w. if hit w then w\<lparr>wm_ready_at := max (wm_ready_at w) (br_ready_at b), wm_batch := br_batch_id b\<rparr> else w) ws
      else ws @ [\<lparr>wm_consumer = consumer, wm_document_type = br_document_type b,
             wm_ready_at = br_ready_at b, wm_batch = br_batch_id b\<rparr>])"

text \<open>\<open>False\<close> when the batch is already executed under these versions: then nothing is written.\<close>

definition record_execution ::
  "string \<Rightarrow> batch_ref \<Rightarrow> engine_versions \<Rightarrow> (uuid \<times> fact) list \<Rightarrow> gold \<Rightarrow> exc + bool \<times> gold" where
  "record_execution consumer b vs fs g =
     (if executed g (br_batch_id b) vs then Inr (False, g)
      else rbind (rfold (insert_fact (br_batch_id b) vs) (fact_records g) fs) (\<lambda>rs.
        Inr (True, \<lparr>executions = executions g @ [\<lparr>ex_batch = br_batch_id b, ex_versions = vs, ex_row_count = br_row_count b\<rparr>],
          fact_records = rs, watermarks = advance_watermark consumer b (watermarks g)\<rparr>)))"

end
