(* ===== verification/RegisterSpec.thy ===== *)
theory RegisterSpec
  imports Errors "HOL-Library.List_Lexorder" "HOL-Library.Char_ord"
begin

text \<open>
  \<open>src/src/silver/registers/spec.py\<close>: what one flat register declares, and the checks its
  constructor makes. A specification the constructor lets through is \<open>well_formed\<close>; the rest of
  the development rests on the consequences proved here.
\<close>

definition envelope_columns :: "string list" where
  "envelope_columns = [''id'', ''entity_id'', ''gstin'', ''tax_period'', ''fy'', ''doc_type_code'',
     ''batch_id'', ''bronze_ingest_id'', ''row_hash'', ''valid_from'', ''valid_to'', ''recorded_at'',
     ''superseded_at'', ''created_at'', ''created_by'', ''modified_at'', ''modified_by'']"

definition envelope_key_columns :: "string list" where
  "envelope_key_columns = [''entity_id'', ''gstin'', ''tax_period'', ''fy'', ''row_hash'']"

datatype kind = TEXT | DATE | DECIMAL | INTEGER | BOOLEAN

datatype key_kind = NATURAL | CONTENT

record column =
  col_name :: string
  col_kind :: kind
  col_required :: bool

record register_spec =
  doc_type_codes :: "string list"
  table_name :: string
  period_column :: string
  spec_key_kind :: key_kind
  key_columns :: "string list"
  spec_columns :: "column list"
  valid_from_column :: "string option"

definition column_named :: "register_spec \<Rightarrow> string \<Rightarrow> column option" where
  "column_named spec n = List.find (\<lambda>c. col_name c = n) (spec_columns spec)"

definition column_names :: "register_spec \<Rightarrow> string list" where
  "column_names spec = map col_name (spec_columns spec)"

definition required_names :: "register_spec \<Rightarrow> string list" where
  "required_names spec = map col_name (filter col_required (spec_columns spec))"

definition business_key_columns :: "register_spec \<Rightarrow> string list" where
  "business_key_columns spec = filter (\<lambda>c. c \<notin> set envelope_key_columns) (key_columns spec)"

definition default_doc_type_code :: "register_spec \<Rightarrow> string option" where
  "default_doc_type_code spec = (case doc_type_codes spec of [c] \<Rightarrow> Some c | _ \<Rightarrow> None)"

text \<open>\<open>__post_init__\<close>: the specification, or the \<open>ValueError\<close> its construction raises.\<close>

definition post_init :: "register_spec \<Rightarrow> exc + register_spec" where
  "post_init spec =
     (let t = table_name spec; names = column_names spec in
      if period_column spec \<noteq> ''tax_period'' \<and> period_column spec \<noteq> ''fy''
        then Inl (ValueError (t @ '': period_column must be tax_period or fy''))
      else if \<not> distinct names then Inl (ValueError (t @ '': duplicate column name''))
      else if \<not> list_all (\<lambda>n. n \<notin> set envelope_columns) names
        then Inl (ValueError (t @ '': business column shadows envelope''))
      else if \<not> list_all (\<lambda>k. k \<in> set names \<or> k \<in> set envelope_key_columns) (key_columns spec)
        then Inl (ValueError (t @ '': key column(s) not on the table''))
      else case valid_from_column spec of
        None \<Rightarrow> Inr spec
      | Some v \<Rightarrow>
          (case column_named spec v of
             None \<Rightarrow> Inl (ValueError (t @ '': valid_from_column '' @ v @ '' is not a date column''))
           | Some c \<Rightarrow>
               if col_kind c \<noteq> DATE
                 then Inl (ValueError (t @ '': valid_from_column '' @ v @ '' is not a date column''))
               else if \<not> col_required c
                 then Inl (ValueError (t @ '': valid_from_column '' @ v @ '' is nullable''))
               else Inr spec))"

definition well_formed :: "register_spec \<Rightarrow> bool" where
  "well_formed spec \<longleftrightarrow> post_init spec = Inr spec"

section \<open>What a well-formed specification guarantees\<close>

lemma well_formed_distinct: "well_formed spec \<Longrightarrow> distinct (column_names spec)"
  by (auto simp: well_formed_def post_init_def Let_def split: if_splits)

lemma well_formed_no_envelope:
  "well_formed spec \<Longrightarrow> n \<in> set (column_names spec) \<Longrightarrow> n \<notin> set envelope_columns"
  by (auto simp: well_formed_def post_init_def Let_def list_all_iff split: if_splits)

lemma well_formed_keys:
  "well_formed spec \<Longrightarrow> k \<in> set (key_columns spec) \<Longrightarrow>
     k \<in> set (column_names spec) \<or> k \<in> set envelope_key_columns"
  by (auto simp: well_formed_def post_init_def Let_def list_all_iff split: if_splits)

lemma column_named_mem: "column_named spec n = Some c \<Longrightarrow> c \<in> set (spec_columns spec) \<and> col_name c = n"
  by (auto simp: column_named_def find_Some_iff)

lemma column_named_unique:
  assumes "distinct (column_names spec)" "c \<in> set (spec_columns spec)"
  shows "column_named spec (col_name c) = Some c"
proof -
  have "distinct (map col_name cs) \<Longrightarrow> c \<in> set cs \<Longrightarrow> List.find (\<lambda>d. col_name d = col_name c) cs = Some c" for cs
    by (induction cs) auto
  with assms show ?thesis by (simp add: column_named_def column_names_def)
qed

lemma well_formed_valid_from:
  assumes "well_formed spec" "valid_from_column spec = Some v"
  shows "\<exists>c. column_named spec v = Some c \<and> col_kind c = DATE \<and> col_required c \<and> v \<in> set (required_names spec)"
proof -
  from assms obtain c where c: "column_named spec v = Some c" "col_kind c = DATE" "col_required c"
    by (auto simp: well_formed_def post_init_def Let_def split: if_splits option.splits)
  with column_named_mem[OF c(1)] show ?thesis by (auto simp: required_names_def)
qed

lemma required_sub_names: "set (required_names spec) \<subseteq> set (column_names spec)"
  by (auto simp: required_names_def column_names_def)

end
