(* ===== verification/Json.thy ===== *)
theory Json
  imports Numbers
begin

text \<open>
  JSON values as \<open>json.loads\<close> returns them. The decoder itself is a parameter of the
  operations that call it; a float is kept as its \<open>repr\<close>, which is all the code looks at. Also
  \<open>str(x)\<close> of a decoded value and \<open>str.splitlines\<close> on UTF-8 text.
\<close>

datatype json =
    JNull
  | JBool bool
  | JInt int
  | JFloat string
  | JStr string
  | JList "json list"
  | JObj "(string \<times> json) list"

definition is_obj :: "json \<Rightarrow> bool" where
  "is_obj j = (case j of JObj _ \<Rightarrow> True | _ \<Rightarrow> False)"

definition obj_items :: "json \<Rightarrow> (string \<times> json) list" where
  "obj_items j = (case j of JObj kvs \<Rightarrow> kvs | _ \<Rightarrow> [])"

text \<open>\<open>str(x)\<close>; the \<open>repr\<close> of a list or a dictionary is the parameter.\<close>

definition py_str :: "(json \<Rightarrow> string) \<Rightarrow> json \<Rightarrow> string" where
  "py_str container_repr j = (case j of
      JNull \<Rightarrow> ''None''
    | JBool b \<Rightarrow> (if b then ''True'' else ''False'')
    | JInt i \<Rightarrow> int_str i
    | JFloat s \<Rightarrow> s
    | JStr s \<Rightarrow> s
    | JList _ \<Rightarrow> container_repr j
    | JObj _ \<Rightarrow> container_repr j)"

section \<open>splitlines\<close>

text \<open>
  The line boundary a text starts with, as its length in bytes: a carriage return and newline
  together, the ASCII line and file separators, and the encodings of U+0085, U+2028 and U+2029.
\<close>

definition boundary :: "string \<Rightarrow> nat" where
  "boundary s = (case s of
      [] \<Rightarrow> 0
    | a # r \<Rightarrow>
        if a = CHR 0x0D then (case r of b # _ \<Rightarrow> if b = CHR 0x0A then 2 else 1 | [] \<Rightarrow> 1)
        else if (10 \<le> ord a \<and> ord a \<le> 12) \<or> (28 \<le> ord a \<and> ord a \<le> 30) then 1
        else if take 2 s = [CHR 0xC2, CHR 0x85] then 2
        else if take 3 s = [CHR 0xE2, CHR 0x80, CHR 0xA8] \<or> take 3 s = [CHR 0xE2, CHR 0x80, CHR 0xA9] then 3
        else 0)"

function splitlines_aux :: "string \<Rightarrow> string \<Rightarrow> string list" where
  "splitlines_aux cur [] = (if cur = [] then [] else [rev cur])"
| "splitlines_aux cur (c # r) =
     (let b = boundary (c # r) in
      if b = 0 then splitlines_aux (c # cur) r
      else rev cur # splitlines_aux [] (drop b (c # r)))"
  by pat_completeness auto
termination
  by (relation "measure (\<lambda>(cur, s). length s)") auto

definition splitlines :: "string \<Rightarrow> string list" where
  "splitlines s = splitlines_aux [] s"

definition no_boundary :: "string \<Rightarrow> bool" where
  "no_boundary s \<longleftrightarrow> list_all (\<lambda>c. 32 \<le> ord c \<and> ord c < 128) s"

lemma boundary_plain: "32 \<le> ord c \<Longrightarrow> ord c < 128 \<Longrightarrow> boundary (c # r) = 0"
proof -
  assume a: "32 \<le> ord c" "ord c < 128"
  then have "c \<noteq> CHR 0x0D" "c \<noteq> CHR 0xC2" "c \<noteq> CHR 0xE2" by (auto simp: ord_def)
  with a show ?thesis by (simp add: boundary_def)
qed

lemma splitlines_aux_line:
  "no_boundary l \<Longrightarrow> splitlines_aux cur (l @ CHR 0x0A # r) = (rev cur @ l) # splitlines r"
proof (induction l arbitrary: cur)
  case Nil
  have "boundary (CHR 0x0A # r) = 1" by (simp add: boundary_def ord_def)
  then show ?case by (simp add: splitlines_def)
next
  case (Cons c l)
  then have "boundary ((c # l) @ CHR 0x0A # r) = 0"
    using boundary_plain by (simp add: no_boundary_def)
  with Cons show ?case by (simp add: no_boundary_def Let_def)
qed

lemma splitlines_line: "no_boundary l \<Longrightarrow> splitlines (l @ CHR 0x0A # r) = l # splitlines r"
  using splitlines_aux_line[of l "[]" r] by (simp add: splitlines_def)

text \<open>U+2028 ends a line too.\<close>

definition line_separator :: string where
  "line_separator = [CHR 0xE2, CHR 0x80, CHR 0xA8]"

lemma splitlines_aux_separator:
  "no_boundary l \<Longrightarrow> splitlines_aux cur (l @ line_separator @ r) = (rev cur @ l) # splitlines r"
proof (induction l arbitrary: cur)
  case Nil
  have "boundary (line_separator @ r) = 3" by (simp add: boundary_def ord_def line_separator_def)
  then show ?case by (simp add: splitlines_def line_separator_def)
next
  case (Cons c l)
  then have "boundary ((c # l) @ line_separator @ r) = 0"
    using boundary_plain by (simp add: no_boundary_def)
  with Cons show ?case by (simp add: no_boundary_def Let_def)
qed

lemma splitlines_separator: "no_boundary l \<Longrightarrow> splitlines (l @ line_separator @ r) = l # splitlines r"
  using splitlines_aux_separator[of l "[]" r] by (simp add: splitlines_def)

lemma splitlines_aux_last: "no_boundary l \<Longrightarrow> splitlines_aux cur l = (if cur = [] \<and> l = [] then [] else [rev cur @ l])"
proof (induction l arbitrary: cur)
  case (Cons c l)
  then have "boundary (c # l) = 0" using boundary_plain by (simp add: no_boundary_def)
  with Cons show ?case by (simp add: no_boundary_def Let_def)
qed simp

lemma splitlines_one: "no_boundary l \<Longrightarrow> l \<noteq> [] \<Longrightarrow> splitlines l = [l]"
  using splitlines_aux_last[of l "[]"] by (simp add: splitlines_def)

end
