(* ===== verification/RegisterParse.thy ===== *)
theory RegisterParse
  imports RegisterSpec Csv Json
begin

text \<open>
  The parsing half of \<open>src/src/silver/registers/loader.py\<close>: one record to one typed row, and
  the two file formats that feed it. SHA-256 is the parameter \<open>H\<close> and \<open>json.loads\<close> the
  parameter \<open>loads\<close> (\<open>None\<close> for a \<open>JSONDecodeError\<close>). A CSV error raised while the
  file is read is the result \<open>Inl\<close>. The lemmas account for every record of a file, say what a
  row that was kept is worth, and when two rows have the same hash.
\<close>

section \<open>Financial year and hash\<close>

definition fy_start :: "date \<Rightarrow> nat" where
  "fy_start day = (if 4 \<le> dmonth day then dyear day else dyear day - 1)"

definition financial_year :: "date \<Rightarrow> string" where
  "financial_year day = (let start = fy_start day in nat_str start @ ''-'' @ pad2 ((start + 1) mod 100))"

definition unit_sep :: char where
  "unit_sep = CHR 0x1F"

definition hash_values :: "(string \<Rightarrow> string) \<Rightarrow> string list \<Rightarrow> string" where
  "hash_values H values = H (join [unit_sep] values)"

section \<open>Cells\<close>

datatype cell_value = VNone | VText string | VDate date | VDec decimal | VInt int | VBool bool

type_synonym row_error = "string \<times> string"

definition decimal_cell :: "string option \<Rightarrow> string \<Rightarrow> row_error + cell_value" where
  "decimal_cell raw c =
     (if raw = None \<or> raw = Some [] then Inr VNone
      else case py_decimal (the raw) of
        Some d \<Rightarrow> Inr (VDec d) | None \<Rightarrow> Inl (c, the raw @ '' is not a number''))"

definition integer_cell :: "string option \<Rightarrow> string \<Rightarrow> row_error + cell_value" where
  "integer_cell raw c =
     (if raw = None \<or> raw = Some [] then Inr VNone
      else case py_int (the raw) of
        Some i \<Rightarrow> Inr (VInt i) | None \<Rightarrow> Inl (c, the raw @ '' is not an integer''))"

definition date_cell :: "string option \<Rightarrow> string \<Rightarrow> row_error + cell_value" where
  "date_cell raw c =
     (if raw = None \<or> raw = Some [] then Inr VNone
      else case from_isoformat (the raw) of
        Some d \<Rightarrow> Inr (VDate d) | None \<Rightarrow> Inl (c, the raw @ '' is not an ISO date''))"

definition bool_cell :: "string option \<Rightarrow> string \<Rightarrow> row_error + cell_value" where
  "bool_cell raw c =
     (let lowered = (case raw of None \<Rightarrow> [] | Some r \<Rightarrow> lower r) in
      if lowered \<in> {''true'', ''t'', ''yes'', ''y'', ''1''} then Inr (VBool True)
      else if lowered \<in> {''false'', ''f'', ''no'', ''n'', ''0'', []} then Inr (VBool False)
      else Inl (c, the raw @ '' is not a boolean''))"

definition coerce :: "kind \<Rightarrow> string option \<Rightarrow> string \<Rightarrow> row_error + cell_value" where
  "coerce k raw c = (case k of
      TEXT \<Rightarrow> Inr (case raw of None \<Rightarrow> VNone | Some r \<Rightarrow> VText r)
    | DATE \<Rightarrow> date_cell raw c
    | DECIMAL \<Rightarrow> decimal_cell raw c
    | INTEGER \<Rightarrow> integer_cell raw c
    | BOOLEAN \<Rightarrow> bool_cell raw c)"

section \<open>Rows\<close>

record register_row =
  source_line :: nat
  row_values :: "(string \<times> cell_value) list"
  row_hash :: string

record row_rejection =
  rj_line :: nat
  rj_message :: string
  rj_column :: "string option"

record parse_result =
  pr_rows :: "register_row list"
  pr_rejections :: "row_rejection list"
  pr_fatal :: "string option"
  pr_collapsed :: nat

definition empty_result :: parse_result where
  "empty_result = \<lparr>pr_rows = [], pr_rejections = [], pr_fatal = None, pr_collapsed = 0\<rparr>"

definition pr_ok :: "parse_result \<Rightarrow> bool" where
  "pr_ok r \<longleftrightarrow> pr_fatal r = None"

definition row_count :: "parse_result \<Rightarrow> nat" where
  "row_count r = length (pr_rows r)"

type_synonym cells = "(string \<times> string option) list"

definition cell :: "cells \<Rightarrow> string \<Rightarrow> string option" where
  "cell cs c = (case map_of cs c of Some (Some v) \<Rightarrow> Some v | _ \<Rightarrow> None)"

definition cell_text :: "cells \<Rightarrow> string \<Rightarrow> string" where
  "cell_text cs c = (case cell cs c of Some v \<Rightarrow> v | None \<Rightarrow> [])"

definition coerce_columns :: "register_spec \<Rightarrow> cells \<Rightarrow> row_error + (string \<times> cell_value) list" where
  "coerce_columns spec cs =
     rmap (\<lambda>c. rbind (coerce (col_kind c) (cell cs (col_name c)) (col_name c)) (\<lambda>v. Inr (col_name c, v)))
       (spec_columns spec)"

definition parse_row :: "(string \<Rightarrow> string) \<Rightarrow> register_spec \<Rightarrow> cells \<Rightarrow> nat \<Rightarrow> row_rejection + register_row" where
  "parse_row H spec cs lineno =
     (let blank = filter (\<lambda>c. cell cs c = None) (required_names spec) in
      if blank \<noteq> [] then
        Inl \<lparr>rj_line = lineno, rj_message = ''empty required field(s): '' @ join '', '' blank,
             rj_column = Some (hd blank)\<rparr>
      else case coerce_columns spec cs of
        Inl (c, detail) \<Rightarrow> Inl \<lparr>rj_line = lineno, rj_message = detail, rj_column = Some c\<rparr>
      | Inr vs \<Rightarrow>
          Inr \<lparr>source_line = lineno, row_values = vs,
               row_hash = hash_values H (map (cell_text cs) (column_names spec))\<rparr>)"

text \<open>
  \<open>_accumulate\<close>. The counter of hashes seen is the list of the hashes seen; only whether a hash
  was there matters.
\<close>

definition accumulate ::
  "(string \<Rightarrow> string) \<Rightarrow> register_spec \<Rightarrow> cells \<Rightarrow> nat \<Rightarrow> parse_result \<times> string list \<Rightarrow> parse_result \<times> string list" where
  "accumulate H spec cs lineno acc =
     (case acc of (result, seen) \<Rightarrow>
        case parse_row H spec cs lineno of
          Inl rej \<Rightarrow> (result\<lparr>pr_rejections := pr_rejections result @ [rej]\<rparr>, seen)
        | Inr row \<Rightarrow>
            if row_hash row \<in> set seen
            then (result\<lparr>pr_collapsed := pr_collapsed result + 1\<rparr>, row_hash row # seen)
            else (result\<lparr>pr_rows := pr_rows result @ [row]\<rparr>, row_hash row # seen))"

fun accumulate_all ::
  "(string \<Rightarrow> string) \<Rightarrow> register_spec \<Rightarrow> (nat \<times> cells) list \<Rightarrow> parse_result \<times> string list \<Rightarrow> parse_result \<times> string list" where
  "accumulate_all H spec [] acc = acc"
| "accumulate_all H spec ((n, cs) # r) acc = accumulate_all H spec r (accumulate H spec cs n acc)"

definition fatal_result :: "string \<Rightarrow> parse_result" where
  "fatal_result m = empty_result\<lparr>pr_fatal := Some m\<rparr>"

definition missing_columns :: "register_spec \<Rightarrow> string list \<Rightarrow> string list" where
  "missing_columns spec present = sort (filter (\<lambda>c. c \<notin> set present) (remdups (column_names spec)))"

definition missing_message :: "string list \<Rightarrow> string" where
  "missing_message missing = ''missing required column(s): '' @ join '', '' missing"

definition finish :: "parse_result \<Rightarrow> parse_result" where
  "finish r = (if pr_rows r = [] \<and> pr_rejections r = []
     then r\<lparr>pr_fatal := Some ''file contains no data rows''\<rparr> else r)"

section \<open>CSV\<close>

definition strip_cell :: "string \<Rightarrow> string option" where
  "strip_cell s = (let t = strip s in if t = [] then None else Some t)"

definition csv_cells :: "register_spec \<Rightarrow> csv_row \<Rightarrow> cells" where
  "csv_cells spec raw = map (\<lambda>c. (c, strip_cell (row_text raw c))) (column_names spec)"

definition parse_register_csv :: "(string \<Rightarrow> string) \<Rightarrow> register_spec \<Rightarrow> bytes \<Rightarrow> exc + parse_result" where
  "parse_register_csv H spec data =
     (case decode_utf8_sig data of
        None \<Rightarrow> Inr (fatal_result ''file is not valid UTF-8'')
      | Some text \<Rightarrow>
          rbind (dict_reader_of text) (\<lambda>reader.
            let missing = missing_columns spec (case fieldnames reader of None \<Rightarrow> [] | Some h \<Rightarrow> h) in
            if missing \<noteq> [] then Inr (fatal_result (missing_message missing))
            else case failure reader of
              Some e \<Rightarrow> Inl e
            | None \<Rightarrow>
                Inr (finish (fst (accumulate_all H spec
                  (zip [2..<2 + length (rows reader)] (map (csv_cells spec) (rows reader)))
                  (empty_result, []))))))"

section \<open>NDJSON\<close>

definition json_cells :: "(json \<Rightarrow> string) \<Rightarrow> register_spec \<Rightarrow> (string \<times> json) list \<Rightarrow> cells" where
  "json_cells rep spec rec = map (\<lambda>c. (c, case map_of rec c of
       None \<Rightarrow> None | Some JNull \<Rightarrow> None | Some j \<Rightarrow> strip_cell (py_str rep j))) (column_names spec)"

text \<open>The loop over numbered lines; \<open>checked\<close> is \<open>header_checked\<close>.\<close>

fun ndjson_lines ::
  "(string \<Rightarrow> string) \<Rightarrow> (string \<Rightarrow> json option) \<Rightarrow> (json \<Rightarrow> string) \<Rightarrow> register_spec \<Rightarrow> (nat \<times> string) list
    \<Rightarrow> bool \<Rightarrow> parse_result \<times> string list \<Rightarrow> parse_result" where
  "ndjson_lines H loads rep spec [] checked acc = finish (fst acc)"
| "ndjson_lines H loads rep spec ((n, raw) # r) checked acc =
     (let line = strip raw in
      if line = [] then ndjson_lines H loads rep spec r checked acc
      else case loads line of
        None \<Rightarrow>
          ndjson_lines H loads rep spec r checked
            (case acc of (res, seen) \<Rightarrow> (res\<lparr>pr_rejections := pr_rejections res @
               [\<lparr>rj_line = n, rj_message = ''not valid JSON'', rj_column = None\<rparr>]\<rparr>, seen))
      | Some j \<Rightarrow>
          if \<not> is_obj j then
            ndjson_lines H loads rep spec r checked
              (case acc of (res, seen) \<Rightarrow> (res\<lparr>pr_rejections := pr_rejections res @
                 [\<lparr>rj_line = n, rj_message = ''each line must be a JSON object'', rj_column = None\<rparr>]\<rparr>, seen))
          else
            let missing = missing_columns spec (map fst (obj_items j)) in
            if \<not> checked \<and> missing \<noteq> [] then (fst acc)\<lparr>pr_fatal := Some (missing_message missing)\<rparr>
            else ndjson_lines H loads rep spec r True
                   (accumulate H spec (json_cells rep spec (obj_items j)) n acc))"

definition parse_register_ndjson ::
  "(string \<Rightarrow> string) \<Rightarrow> (string \<Rightarrow> json option) \<Rightarrow> (json \<Rightarrow> string) \<Rightarrow> register_spec \<Rightarrow> bytes \<Rightarrow> parse_result" where
  "parse_register_ndjson H loads rep spec data =
     (case decode_utf8_sig data of
        None \<Rightarrow> fatal_result ''file is not valid UTF-8''
      | Some text \<Rightarrow>
          ndjson_lines H loads rep spec (zip [1..<1 + length (splitlines text)] (splitlines text))
            False (empty_result, []))"

section \<open>Every record is accounted for\<close>

text \<open>
  What the accumulator says about the records \<open>recs\<close> so far, and about \<open>k\<close> lines that
  were rejected before they became records.
\<close>

definition acc_ok ::
  "(string \<Rightarrow> string) \<Rightarrow> register_spec \<Rightarrow> (nat \<times> cells) list \<Rightarrow> nat \<Rightarrow> parse_result \<times> string list \<Rightarrow> bool" where
  "acc_ok H spec recs k acc \<longleftrightarrow> (case acc of (res, seen) \<Rightarrow>
     pr_fatal res = None
     \<and> length recs + k = length (pr_rows res) + length (pr_rejections res) + pr_collapsed res
     \<and> distinct (map row_hash (pr_rows res)) \<and> set seen = row_hash ` set (pr_rows res)
     \<and> (\<forall>(n, cs)\<in>set recs. case parse_row H spec cs n of
          Inl rej \<Rightarrow> rej \<in> set (pr_rejections res)
        | Inr row \<Rightarrow> row_hash row \<in> row_hash ` set (pr_rows res))
     \<and> (\<forall>row\<in>set (pr_rows res). \<exists>(n, cs)\<in>set recs. parse_row H spec cs n = Inr row))"

lemma acc_ok_empty: "acc_ok H spec [] 0 (empty_result, [])"
  by (simp add: acc_ok_def empty_result_def)

lemma acc_ok_step: "acc_ok H spec recs k acc \<Longrightarrow> acc_ok H spec (recs @ [(n, cs)]) k (accumulate H spec cs n acc)"
proof (cases acc)
  case (Pair res seen)
  assume ok: "acc_ok H spec recs k acc"
  show ?thesis
  proof (cases "parse_row H spec cs n")
    case (Inl rej)
    with ok Pair show ?thesis
      by (fastforce simp: acc_ok_def accumulate_def split: sum.splits)
  next
    case (Inr row)
    with ok Pair show ?thesis
      by (fastforce simp: acc_ok_def accumulate_def split: sum.splits)
  qed
qed

lemma acc_ok_all: "acc_ok H spec recs k acc \<Longrightarrow> acc_ok H spec (recs @ later) k (accumulate_all H spec later acc)"
proof (induction later arbitrary: recs acc)
  case (Cons x later)
  obtain n cs where x: "x = (n, cs)" by (cases x)
  from Cons.IH[OF acc_ok_step[OF Cons.prems]] show ?case by (simp add: x)
qed simp

lemma acc_ok_reject:
  "acc_ok H spec recs k (res, seen) \<Longrightarrow>
     acc_ok H spec recs (Suc k) (res\<lparr>pr_rejections := pr_rejections res @ [rej]\<rparr>, seen)"
  unfolding acc_ok_def by (force split: sum.splits)

section \<open>What a kept row is worth\<close>

definition cells_ok :: "cells \<Rightarrow> bool" where
  "cells_ok cs \<longleftrightarrow> (\<forall>c v. cell cs c = Some v \<longrightarrow> v \<noteq> [] \<and> trimmed v)"

definition has_kind :: "kind \<Rightarrow> cell_value \<Rightarrow> bool" where
  "has_kind k v = (case v of
      VNone \<Rightarrow> True
    | VText _ \<Rightarrow> k = TEXT
    | VDate d \<Rightarrow> k = DATE \<and> valid_date d
    | VDec _ \<Rightarrow> k = DECIMAL
    | VInt _ \<Rightarrow> k = INTEGER
    | VBool _ \<Rightarrow> k = BOOLEAN)"

definition row_value :: "register_row \<Rightarrow> string \<Rightarrow> cell_value" where
  "row_value row c = (case map_of (row_values row) c of Some v \<Rightarrow> v | None \<Rightarrow> VNone)"

definition row_typed :: "register_spec \<Rightarrow> register_row \<Rightarrow> bool" where
  "row_typed spec row \<longleftrightarrow> map fst (row_values row) = column_names spec
     \<and> (\<forall>c\<in>set (spec_columns spec). has_kind (col_kind c) (row_value row (col_name c))
          \<and> (col_required c \<longrightarrow> row_value row (col_name c) \<noteq> VNone))"

lemma coerce_kind: "coerce k raw c = Inr v \<Longrightarrow> has_kind k v"
  by (cases k) (auto simp: coerce_def has_kind_def date_cell_def decimal_cell_def integer_cell_def
      bool_cell_def Let_def dest: from_isoformat_valid split: if_splits option.splits)

lemma coerce_some: "coerce k (Some r) c = Inr v \<Longrightarrow> r \<noteq> [] \<Longrightarrow> v \<noteq> VNone"
  by (cases k) (auto simp: coerce_def date_cell_def decimal_cell_def integer_cell_def bool_cell_def
      Let_def split: if_splits option.splits)

lemma coerce_columns_Inr:
  assumes "coerce_columns spec cs = Inr vs"
  shows "list_all2 (\<lambda>c (n, v). n = col_name c \<and> coerce (col_kind c) (cell cs (col_name c)) (col_name c) = Inr v)
    (spec_columns spec) vs"
  using rmap_Inr_list_all2[OF assms[unfolded coerce_columns_def]]
  by (rule list_all2_mono) (auto simp: rbind_eq_Inr_iff)

lemma list_all2_names: "list_all2 (\<lambda>c (n, v). n = col_name c \<and> P c v) xs vs \<Longrightarrow> map fst vs = map col_name xs"
  by (induction xs vs rule: list_all2_induct) auto

lemma list_all2_lookup:
  "list_all2 (\<lambda>c (n, v). n = col_name c \<and> P c v) xs vs \<Longrightarrow> distinct (map col_name xs) \<Longrightarrow> c \<in> set xs
    \<Longrightarrow> \<exists>v. map_of vs (col_name c) = Some v \<and> P c v"
proof (induction xs vs rule: list_all2_induct)
  case (Cons x xs y ys)
  show ?case
  proof (cases "c = x")
    case False
    with Cons.prems have c: "c \<in> set xs" "col_name x \<notin> col_name ` set xs" by auto
    then have "col_name c \<noteq> col_name x" by (metis image_eqI)
    with c Cons show ?thesis by auto
  qed (use Cons in auto)
qed simp

lemma parse_row_typed:
  assumes p: "parse_row H spec cs n = Inr row" and ok: "cells_ok cs" and wf: "well_formed spec"
  shows "row_typed spec row \<and> source_line row = n
    \<and> row_hash row = hash_values H (map (cell_text cs) (column_names spec))"
proof -
  from p obtain vs where vs: "coerce_columns spec cs = Inr vs" "row_values row = vs"
    and row: "source_line row = n" "row_hash row = hash_values H (map (cell_text cs) (column_names spec))"
    and req: "\<forall>c\<in>set (required_names spec). cell cs c \<noteq> None"
    by (auto simp: parse_row_def Let_def filter_empty_conv split: if_splits sum.splits)
  note l = coerce_columns_Inr[OF vs(1)]
  have d: "distinct (map col_name (spec_columns spec))"
    using well_formed_distinct[OF wf] by (simp add: column_names_def)
  have "has_kind (col_kind c) (row_value row (col_name c))
      \<and> (col_required c \<longrightarrow> row_value row (col_name c) \<noteq> VNone)"
    if c: "c \<in> set (spec_columns spec)" for c
  proof -
    obtain v where v: "map_of vs (col_name c) = Some v"
      "coerce (col_kind c) (cell cs (col_name c)) (col_name c) = Inr v"
      using list_all2_lookup[OF l d c] by blast
    have "v \<noteq> VNone" if "col_required c"
    proof -
      from that c obtain y where y: "cell cs (col_name c) = Some y" using req by (auto simp: required_names_def)
      then have "y \<noteq> []" using ok by (simp add: cells_ok_def)
      with y v(2) show ?thesis using coerce_some by metis
    qed
    with v coerce_kind[OF v(2)] vs(2) show ?thesis by (simp add: row_value_def)
  qed
  with list_all2_names[OF l] vs(2) row show ?thesis
    by (simp add: row_typed_def column_names_def)
qed

lemma strip_cell_ok: "strip_cell s = Some v \<Longrightarrow> v \<noteq> [] \<and> trimmed v"
  by (auto simp: strip_cell_def Let_def trimmed_strip split: if_splits)

lemma map_of_keyed: "map_of (map (\<lambda>c. (c, f c)) xs) c = (if c \<in> set xs then Some (f c) else None)"
  by (induction xs) auto

lemma csv_cells_ok: "cells_ok (csv_cells spec raw)"
  by (auto simp: cells_ok_def cell_def csv_cells_def map_of_keyed strip_cell_ok split: if_splits option.splits)

lemma json_cells_ok: "cells_ok (json_cells rep spec rc)"
  by (auto simp: cells_ok_def cell_def json_cells_def map_of_keyed strip_cell_ok
      split: if_splits option.splits json.splits)

lemma acc_ok_counts:
  "acc_ok H spec recs k (res, seen) \<Longrightarrow>
     length recs + k = length (pr_rows res) + length (pr_rejections res) + pr_collapsed res
     \<and> distinct (map row_hash (pr_rows res)) \<and> pr_fatal res = None"
  by (simp add: acc_ok_def)

lemma acc_ok_typed:
  assumes "acc_ok H spec recs k (res, seen)" "\<forall>(n, cs)\<in>set recs. cells_ok cs" "well_formed spec"
    and "row \<in> set (pr_rows res)"
  shows "row_typed spec row"
proof -
  from assms(1,4) obtain n cs where "(n, cs) \<in> set recs" "parse_row H spec cs n = Inr row"
    by (auto simp: acc_ok_def)
  with assms parse_row_typed[of H spec cs n row] show ?thesis by auto
qed

lemma finish_cases:
  "pr_fatal res = None \<Longrightarrow> pr_ok (finish res) \<Longrightarrow> finish res = res \<and> \<not> (pr_rows res = [] \<and> pr_rejections res = [])"
  by (auto simp: finish_def pr_ok_def split: if_splits)

lemma missing_columns_Nil: "missing_columns spec present = [] \<Longrightarrow> set (column_names spec) \<subseteq> set present"
proof -
  assume "missing_columns spec present = []"
  then have "filter (\<lambda>c. c \<notin> set present) (remdups (column_names spec)) = []"
    unfolding missing_columns_def by (metis length_0_conv length_sort)
  then show ?thesis by (auto simp: filter_empty_conv)
qed

lemma fatal_not_ok: "\<not> pr_ok (fatal_result m)"
  by (simp add: pr_ok_def fatal_result_def)

lemma zip_upt_mem: "i < length xs \<Longrightarrow> (a + i, xs ! i) \<in> set (zip [a..<a + length xs] xs)"
  by (force simp: set_zip)

lemma parse_csv_ok:
  assumes "parse_register_csv H spec data = Inr r" "pr_ok r"
  obtains tx reader seen where "decode_utf8_sig data = Some tx" "dict_reader_of tx = Inr reader"
    "failure reader = None"
    "set (column_names spec) \<subseteq> set (case fieldnames reader of None \<Rightarrow> [] | Some h \<Rightarrow> h)"
    "acc_ok H spec (zip [2..<2 + length (rows reader)] (map (csv_cells spec) (rows reader))) 0 (r, seen)"
    "\<not> (pr_rows r = [] \<and> pr_rejections r = [])"
proof -
  from assms obtain tx reader where t: "decode_utf8_sig data = Some tx" "dict_reader_of tx = Inr reader"
    and m: "missing_columns spec (case fieldnames reader of None \<Rightarrow> [] | Some h \<Rightarrow> h) = []"
    and f: "failure reader = None"
    and r: "r = finish (fst (accumulate_all H spec
        (zip [2..<2 + length (rows reader)] (map (csv_cells spec) (rows reader))) (empty_result, [])))"
    by (auto simp: parse_register_csv_def rbind_eq_Inr_iff Let_def fatal_not_ok split: option.splits if_splits)
  let ?recs = "zip [2..<2 + length (rows reader)] (map (csv_cells spec) (rows reader))"
  obtain res seen where a: "accumulate_all H spec ?recs (empty_result, []) = (res, seen)"
    by (cases "accumulate_all H spec ?recs (empty_result, [])")
  have ok: "acc_ok H spec ?recs 0 (res, seen)"
    using acc_ok_all[OF acc_ok_empty, of H spec ?recs] a by simp
  then have "pr_fatal res = None" by (simp add: acc_ok_def)
  then have "r = res" "\<not> (pr_rows r = [] \<and> pr_rejections r = [])"
    using r a assms(2) finish_cases[of res] by auto
  with ok t f missing_columns_Nil[OF m] that show ?thesis by blast
qed

section \<open>Properties\<close>

text \<open>
  C38. A register file in CSV that is not refused as a whole has all the declared columns and at least
  one record, and every record is accounted for once: kept, rejected with its line, or collapsed
  into an earlier record with the same hash. Kept rows have distinct hashes, a value of the declared
  type in every column, and a value in every required one; an opening date is always a real date.
\<close>

theorem parse_csv_accounts:
  assumes "parse_register_csv H spec data = Inr r" "pr_ok r" "well_formed spec"
  shows "\<exists>tx reader. decode_utf8_sig data = Some tx \<and> dict_reader_of tx = Inr reader
     \<and> set (column_names spec) \<subseteq> set (case fieldnames reader of None \<Rightarrow> [] | Some h \<Rightarrow> h)
     \<and> 0 < length (rows reader)
     \<and> length (rows reader) = length (pr_rows r) + length (pr_rejections r) + pr_collapsed r
     \<and> (\<forall>i<length (rows reader). (\<exists>rej\<in>set (pr_rejections r). rj_line rej = i + 2)
          \<or> hash_values H (map (cell_text (csv_cells spec (rows reader ! i))) (column_names spec))
              \<in> row_hash ` set (pr_rows r))
     \<and> distinct (map row_hash (pr_rows r))
     \<and> (\<forall>row\<in>set (pr_rows r). row_typed spec row
          \<and> (\<forall>v. valid_from_column spec = Some v \<longrightarrow> (\<exists>d. row_value row v = VDate d \<and> valid_date d)))"
proof -
  obtain tx reader seen where t: "decode_utf8_sig data = Some tx" "dict_reader_of tx = Inr reader"
    and cols: "set (column_names spec) \<subseteq> set (case fieldnames reader of None \<Rightarrow> [] | Some h \<Rightarrow> h)"
    and ok: "acc_ok H spec (zip [2..<2 + length (rows reader)] (map (csv_cells spec) (rows reader))) 0 (r, seen)"
    and ne: "\<not> (pr_rows r = [] \<and> pr_rejections r = [])"
    using parse_csv_ok[OF assms(1,2)] by metis
  let ?recs = "zip [2..<2 + length (rows reader)] (map (csv_cells spec) (rows reader))"
  have "length ?recs = length (rows reader)" by (simp del: upt_Suc)
  with acc_ok_counts[OF ok] have len: "length (rows reader) = length (pr_rows r) + length (pr_rejections r) + pr_collapsed r"
    by linarith
  have each: "(\<exists>rej\<in>set (pr_rejections r). rj_line rej = i + 2)
      \<or> hash_values H (map (cell_text (csv_cells spec (rows reader ! i))) (column_names spec))
          \<in> row_hash ` set (pr_rows r)" if i: "i < length (rows reader)" for i
  proof -
    have "(2 + i, csv_cells spec (rows reader ! i)) \<in> set ?recs"
      using zip_upt_mem[of i "map (csv_cells spec) (rows reader)" 2] i by simp
    with ok have c: "case parse_row H spec (csv_cells spec (rows reader ! i)) (2 + i) of
          Inl rej \<Rightarrow> rej \<in> set (pr_rejections r)
        | Inr row \<Rightarrow> row_hash row \<in> row_hash ` set (pr_rows r)"
      unfolding acc_ok_def by fast
    show ?thesis
    proof (cases "parse_row H spec (csv_cells spec (rows reader ! i)) (2 + i)")
      case (Inl rej)
      then have "rj_line rej = i + 2"
        by (auto simp: parse_row_def Let_def split: if_splits sum.splits)
      with c Inl show ?thesis by auto
    next
      case (Inr row)
      with parse_row_typed[OF Inr csv_cells_ok assms(3)] c show ?thesis by simp
    qed
  qed
  have typed: "row_typed spec row" if "row \<in> set (pr_rows r)" for row
  proof (rule acc_ok_typed[OF ok _ assms(3) that])
    show "\<forall>(n, cs)\<in>set ?recs. cells_ok cs" by (auto simp: csv_cells_ok dest!: set_zip_rightD)
  qed
  have vf: "\<exists>d. row_value row v = VDate d \<and> valid_date d"
    if row: "row_typed spec row" "valid_from_column spec = Some v" for row v
  proof -
    from well_formed_valid_from[OF assms(3) row(2)] obtain c where
      c: "column_named spec v = Some c" "col_kind c = DATE" "col_required c" by blast
    with column_named_mem[OF c(1)] row(1) have "has_kind DATE (row_value row v)" "row_value row v \<noteq> VNone"
      by (auto simp: row_typed_def)
    then show ?thesis by (cases "row_value row v") (simp_all add: has_kind_def)
  qed
  have "0 < length (rows reader)" using len ne by auto
  then show ?thesis using t cols len each typed vf acc_ok_counts[OF ok] by blast
qed

text \<open>A register with two columns, for the witnesses.\<close>

definition two_columns :: register_spec where
  "two_columns = \<lparr>doc_type_codes = [''T''], table_name = ''t'', period_column = ''tax_period'',
     spec_key_kind = CONTENT, key_columns = [''entity_id'', ''gstin'', ''tax_period'', ''row_hash''],
     spec_columns = [\<lparr>col_name = ''a'', col_kind = TEXT, col_required = True\<rparr>,
        \<lparr>col_name = ''b'', col_kind = TEXT, col_required = False\<rparr>],
     valid_from_column = None\<rparr>"

definition crlf_free :: "string list \<Rightarrow> string" where
  "crlf_free ls = concat (map (\<lambda>l. l @ [CHR 0x0A]) ls)"

lemma two_columns_well_formed: "well_formed two_columns"
  by code_simp

theorem parse_csv_accounts_witness:
  "\<exists>r. parse_register_csv id two_columns (crlf_free [''b,a'', ''1,x'', ''2,'', ''1,x'']) = Inr r
     \<and> length (pr_rows r) + length (pr_rejections r) + pr_collapsed r = 3"
proof -
  let ?p = "parse_register_csv id two_columns (crlf_free [''b,a'', ''1,x'', ''2,'', ''1,x''])"
  have "case ?p of Inr r \<Rightarrow> pr_ok r | Inl e \<Rightarrow> False" by code_simp
  then obtain r where r: "?p = Inr r" "pr_ok r" by (cases ?p) auto
  have "case dict_reader_of (crlf_free [''b,a'', ''1,x'', ''2,'', ''1,x'']) of
      Inr d \<Rightarrow> length (rows d) = 3 | Inl e \<Rightarrow> False" by code_simp
  moreover have "decode_utf8_sig (crlf_free [''b,a'', ''1,x'', ''2,'', ''1,x''])
      = Some (crlf_free [''b,a'', ''1,x'', ''2,'', ''1,x''])" by code_simp
  ultimately show ?thesis
    using parse_csv_accounts[OF r two_columns_well_formed] r(1) by auto
qed

text \<open>
  Row identity: for a digest without collisions, two rows whose cells do not contain the unit
  separator have the same hash exactly when their cells agree in every column. A cell may contain
  it all the same: then two different rows can share a hash whatever the digest is, and the loader
  drops the second as a duplicate.
\<close>

theorem row_hash_identity:
  assumes "parse_row H spec a n = Inr r" "parse_row H spec b m = Inr q" "well_formed spec"
    and "cells_ok a" "cells_ok b" "inj H"
    and "\<forall>c\<in>set (column_names spec). unit_sep \<notin> set (cell_text a c) \<and> unit_sep \<notin> set (cell_text b c)"
  shows "row_hash r = row_hash q \<longleftrightarrow> (\<forall>c\<in>set (column_names spec). cell a c = cell b c)"
proof -
  have h: "row_hash r = hash_values H (map (cell_text a) (column_names spec))"
    "row_hash q = hash_values H (map (cell_text b) (column_names spec))"
    using parse_row_typed assms by blast+
  have t: "cell_text a c = cell_text b c \<longleftrightarrow> cell a c = cell b c" for c
    using assms(4,5) by (auto simp: cell_text_def cells_ok_def split: option.splits)
  have "row_hash r = row_hash q \<longleftrightarrow>
      map (cell_text a) (column_names spec) = map (cell_text b) (column_names spec)"
    unfolding h hash_values_def
    using join_inj[of unit_sep "map (cell_text a) (column_names spec)" "map (cell_text b) (column_names spec)"]
      assms(7) inj_eq[OF assms(6)] by (metis (no_types, lifting) imageE length_map list.set_map)
  then show ?thesis using t by simp
qed

theorem row_hash_identity_witness:
  "let a = [(''a'', Some ''x''), (''b'', None)]; b = [(''a'', Some ''x''), (''b'', Some ''1'')] in
   (case (parse_row id two_columns a 2, parse_row id two_columns b 3) of
      (Inr r, Inr q) \<Rightarrow> row_hash r \<noteq> row_hash q | _ \<Rightarrow> False)"
proof -
  let ?a = "[(''a'', Some ''x''), (''b'', None)]" and ?b = "[(''a'', Some ''x''), (''b'', Some ''1'')]"
  have "case parse_row id two_columns ?a 2 of Inr r \<Rightarrow> True | Inl e \<Rightarrow> False" by code_simp
  then obtain r where r: "parse_row id two_columns ?a 2 = Inr r" by (cases "parse_row id two_columns ?a 2") auto
  have "case parse_row id two_columns ?b 3 of Inr r \<Rightarrow> True | Inl e \<Rightarrow> False" by code_simp
  then obtain q where q: "parse_row id two_columns ?b 3 = Inr q" by (cases "parse_row id two_columns ?b 3") auto
  have "row_hash r = row_hash q \<longleftrightarrow> (\<forall>c\<in>set (column_names two_columns). cell ?a c = cell ?b c)"
    by (rule row_hash_identity[OF r q two_columns_well_formed])
       (auto simp: cells_ok_def cell_def cell_text_def trimmed_def char_class_defs column_names_def
          two_columns_def unit_sep_def split: if_splits)
  then show ?thesis using r q by (simp add: column_names_def two_columns_def cell_def)
qed

text \<open>
  The separator can occur in a parsed CSV cell. In this file, whatever the digest, the second
  record differs from the first in both columns and is collapsed into it as a duplicate.
\<close>

theorem separator_collapses_distinct_rows:
  "case parse_register_csv H two_columns
          (crlf_free [''a,b'', ''x'' @ [unit_sep] @ ''y,z'', ''x,y'' @ [unit_sep] @ ''z'']) of
     Inl e \<Rightarrow> False
   | Inr r \<Rightarrow> pr_ok r \<and> pr_collapsed r = 1 \<and> pr_rejections r = []
       \<and> map (\<lambda>row. (row_value row ''a'', row_value row ''b'')) (pr_rows r)
         = [(VText (''x'' @ [unit_sep] @ ''y''), VText ''z'')]"
  by code_simp

text \<open>
  A carriage return inside an unquoted CSV cell is not a row rejection: the reader raises, the parse
  is abandoned with the records before it, and the caller sees \<open>csv.Error\<close>.
\<close>

theorem bare_carriage_return_aborts:
  "parse_register_csv H two_columns (crlf_free [''a,b'', ''ok,1'', ''x'' @ [CHR 0x0D] @ ''y,2''])
     = Inl (CsvError ''new-line character seen in unquoted field'')"
  by code_simp

section \<open>NDJSON\<close>

lemma ndjson_lines_ok:
  assumes "acc_ok H spec recs k acc" "\<forall>(n, cs)\<in>set recs. cells_ok cs"
    and "pr_ok (ndjson_lines H loads rep spec ls checked acc)"
  shows "\<exists>recs' k' seen. acc_ok H spec recs' k' (ndjson_lines H loads rep spec ls checked acc, seen)
    \<and> (\<forall>(n, cs)\<in>set recs'. cells_ok cs)
    \<and> length recs' + k' = length recs + k + length (filter (\<lambda>(n, l). strip l \<noteq> []) ls)
    \<and> \<not> (pr_rows (ndjson_lines H loads rep spec ls checked acc) = []
         \<and> pr_rejections (ndjson_lines H loads rep spec ls checked acc) = [])"
  using assms
proof (induction ls arbitrary: recs k checked acc)
  case Nil
  obtain res seen where a: "acc = (res, seen)" by (cases acc)
  with Nil finish_cases[of res] show ?case
    using acc_ok_counts[of H spec recs k res seen] by auto
next
  case (Cons x ls)
  obtain n raw where x: "x = (n, raw)" by (cases x)
  obtain res seen where a: "acc = (res, seen)" by (cases acc)
  let ?rej = "\<lambda>m. (res\<lparr>pr_rejections := pr_rejections res @ [\<lparr>rj_line = n, rj_message = m, rj_column = None\<rparr>]\<rparr>, seen)"
  have rej: "acc_ok H spec recs (Suc k) (?rej m)" for m
    using acc_ok_reject Cons.prems(1) a by blast
  show ?case
  proof (cases "strip raw = []")
    case True
    with Cons.IH[OF Cons.prems(1,2)] Cons.prems(3) x show ?thesis by (simp add: Let_def)
  next
    case ne: False
    show ?thesis
    proof (cases "loads (strip raw)")
      case None
      let ?m = "''not valid JSON''"
      from ne None x a have e: "ndjson_lines H loads rep spec (x # ls) checked acc
          = ndjson_lines H loads rep spec ls checked (?rej ?m)" by (simp add: Let_def)
      show ?thesis
        using Cons.IH[OF rej[of ?m] Cons.prems(2)] Cons.prems(3) ne x unfolding e by simp
    next
      case (Some j)
      show ?thesis
      proof (cases "is_obj j")
        case False
        let ?m = "''each line must be a JSON object''"
        from ne Some False x a have e: "ndjson_lines H loads rep spec (x # ls) checked acc
            = ndjson_lines H loads rep spec ls checked (?rej ?m)" by (simp add: Let_def)
        show ?thesis
          using Cons.IH[OF rej[of ?m] Cons.prems(2)] Cons.prems(3) ne x unfolding e by simp
      next
        case True
        let ?cs = "json_cells rep spec (obj_items j)"
        have nm: "\<not> (\<not> checked \<and> missing_columns spec (map fst (obj_items j)) \<noteq> [])"
        proof
          assume m: "\<not> checked \<and> missing_columns spec (map fst (obj_items j)) \<noteq> []"
          with ne Some True x have "\<not> pr_ok (ndjson_lines H loads rep spec (x # ls) checked acc)"
            by (simp add: Let_def pr_ok_def)
          with Cons.prems(3) show False by simp
        qed
        with ne Some True x a have e: "ndjson_lines H loads rep spec (x # ls) checked acc
            = ndjson_lines H loads rep spec ls True (accumulate H spec ?cs n acc)"
          by (auto simp: Let_def)
        have "\<forall>(n, cs)\<in>set (recs @ [(n, ?cs)]). cells_ok cs"
          using Cons.prems(2) json_cells_ok by auto
        from Cons.IH[OF acc_ok_step[OF Cons.prems(1)] this, of True] Cons.prems(3) ne x
        show ?thesis unfolding e by simp
      qed
    qed
  qed
qed

text \<open>
  An NDJSON file never raises, whatever its lines hold, and when it is not refused as a whole every
  line that is not blank is accounted for once, with rows as good as those of a CSV file.
\<close>

theorem parse_ndjson_accounts:
  assumes "pr_ok (parse_register_ndjson H loads rep spec data)" "well_formed spec"
  shows "\<exists>tx. decode_utf8_sig data = Some tx
     \<and> (let r = parse_register_ndjson H loads rep spec data in
         length (filter (\<lambda>l. strip l \<noteq> []) (splitlines tx))
           = length (pr_rows r) + length (pr_rejections r) + pr_collapsed r
         \<and> \<not> (pr_rows r = [] \<and> pr_rejections r = [])
         \<and> distinct (map row_hash (pr_rows r)) \<and> (\<forall>row\<in>set (pr_rows r). row_typed spec row))"
proof -
  from assms(1) obtain tx where tx: "decode_utf8_sig data = Some tx"
    by (auto simp: parse_register_ndjson_def fatal_not_ok split: option.splits)
  let ?ls = "zip [1..<1 + length (splitlines tx)] (splitlines tx)"
  let ?r = "parse_register_ndjson H loads rep spec data"
  have r: "?r = ndjson_lines H loads rep spec ?ls False (empty_result, [])"
    using tx by (simp add: parse_register_ndjson_def)
  have "length (filter (\<lambda>(n, l). strip l \<noteq> []) (zip ns ls)) = length (filter (\<lambda>l. strip l \<noteq> []) ls)"
    if "length ns = length ls" for ns :: "nat list" and ls
    using that by (induction ns ls rule: list_induct2) auto
  then have n: "length (filter (\<lambda>(n, l). strip l \<noteq> []) ?ls) = length (filter (\<lambda>l. strip l \<noteq> []) (splitlines tx))"
    by (simp del: upt_Suc)
  from ndjson_lines_ok[OF acc_ok_empty, where H = H and spec = spec and loads = loads and rep = rep and ls = ?ls and checked = False] assms(1) r
  obtain recs k seen where ok: "acc_ok H spec recs k (?r, seen)" "\<forall>(n, cs)\<in>set recs. cells_ok cs"
    "length recs + k = length (filter (\<lambda>(n, l). strip l \<noteq> []) ?ls)"
    "\<not> (pr_rows ?r = [] \<and> pr_rejections ?r = [])" by auto
  show ?thesis
    using tx acc_ok_counts[OF ok(1)] ok(3,4) n acc_ok_typed[OF ok(1,2) assms(2)]
    by (simp add: Let_def del: upt_Suc)
qed

definition demo_loads :: "string \<Rightarrow> json option" where
  "demo_loads s = (if s = ''A'' then Some (JObj [(''a'', JInt 7), (''b'', JNull)])
     else if s = ''N'' then Some JNull else None)"

theorem parse_ndjson_accounts_witness:
  "let r = parse_register_ndjson id demo_loads (\<lambda>j. []) two_columns (crlf_free [''A'', '' '', ''N'', ''?''])
   in length (pr_rows r) + length (pr_rejections r) + pr_collapsed r = 3 \<and> distinct (map row_hash (pr_rows r))"
proof -
  let ?d = "crlf_free [''A'', '' '', ''N'', ''?'']"
  have 1: "pr_ok (parse_register_ndjson id demo_loads (\<lambda>j. []) two_columns ?d)" by code_simp
  have 2: "decode_utf8_sig ?d = Some ?d" "length (filter (\<lambda>l. strip l \<noteq> []) (splitlines ?d)) = 3"
    by code_simp+
  show ?thesis
    using parse_ndjson_accounts[OF 1 two_columns_well_formed] 2 by (auto simp: Let_def)
qed

text \<open>
  An NDJSON record is cut at any Unicode line boundary, not at newlines only. JSON allows U+2028 in
  a string, so a one-line export that has it there is read as two lines; when neither half is JSON
  by itself the file yields two rejections and no row.
\<close>

theorem ndjson_cut_inside_string:
  assumes "loads p = None" "loads q = None" "p \<noteq> []" "q \<noteq> []" "trimmed p" "trimmed q"
    and "no_boundary p" "no_boundary q"
  shows "map rj_line (pr_rejections (parse_register_ndjson H loads rep spec (p @ line_separator @ q))) = [1, 2]
   \<and> pr_rows (parse_register_ndjson H loads rep spec (p @ line_separator @ q)) = []"
proof -
  have asc: "list_all (\<lambda>c. ord c < 128) p" "list_all (\<lambda>c. ord c < 128) q"
    using assms(7,8) by (auto simp: no_boundary_def list_all_iff)
  have "utf8_ok (r @ line_separator @ q)" if "list_all (\<lambda>c. ord c < 128) r" for r
    using that utf8_ok_ascii[OF asc(2)]
    by (induction r) (simp_all add: line_separator_def utf8_cont_def ord_def)
  moreover have "\<not> starts_with bom (p @ line_separator @ q)"
    using assms(3) asc(1) by (cases p) (auto simp: starts_with_def bom_def ord_def)
  ultimately have d: "decode_utf8_sig (p @ line_separator @ q) = Some (p @ line_separator @ q)"
    using asc(1) by (simp add: decode_utf8_sig_def Let_def)
  have l: "splitlines (p @ line_separator @ q) = [p, q]"
    using splitlines_separator splitlines_one assms by simp
  show ?thesis
    using assms by (simp add: parse_register_ndjson_def d l strip_trimmed empty_result_def finish_def upt_rec)
qed

theorem ndjson_cut_inside_string_witness:
  "pr_rows (parse_register_ndjson id demo_loads (\<lambda>j. []) two_columns
     ((''{'' @ [CHR 0x22] @ ''a'') @ line_separator @ (''b'' @ [CHR 0x22] @ ''}''))) = []"
  by (rule ndjson_cut_inside_string[THEN conjunct2])
     (simp_all add: demo_loads_def trimmed_def no_boundary_def char_class_defs)

section \<open>Financial years\<close>

lemma pad2_digits_len: "n < 100 \<Longrightarrow> length (pad2 n) = 2"
proof -
  assume "n < 100"
  then show ?thesis
    by (auto simp: pad2_def nat_str.simps[of n] nat_str.simps[of "n div 10"])
qed

text \<open>
  The financial year of a date runs from April to March: two dates have the same label exactly when
  they have the same starting year, and the label is the starting year, a hyphen and two digits.
\<close>

theorem financial_year_label:
  "(financial_year d = financial_year e \<longleftrightarrow> fy_start d = fy_start e)
   \<and> length (financial_year d) = length (nat_str (fy_start d)) + 3
   \<and> (valid_date d \<longrightarrow> Date (fy_start d) 4 1 \<le> d \<and> d \<le> Date (fy_start d + 1) 3 31)"
proof -
  have "nat_str (fy_start d) = nat_str (fy_start e)" if "financial_year d = financial_year e"
  proof -
    have "CHR ''-'' \<notin> set (nat_str n)" for n
      using nat_str_digits[of n] digit_not_special by (auto simp: list_all_iff)
    then have "partition_on (CHR ''-'') (nat_str n @ CHR ''-'' # r) = (nat_str n, True, r)" for n r
      by (rule partition_on_append)
    with that show ?thesis
      by (simp add: financial_year_def Let_def) (metis prod.inject)
  qed
  then have "financial_year d = financial_year e \<longleftrightarrow> fy_start d = fy_start e"
    using nat_str_inj by (auto simp: financial_year_def)
  moreover have "valid_date d \<longrightarrow> Date (fy_start d) 4 1 \<le> d \<and> d \<le> Date (fy_start d + 1) 3 31"
    by (auto simp: valid_date_def fy_start_def less_eq_date_def days_in_month_def)
  ultimately show ?thesis
    by (simp add: financial_year_def Let_def pad2_digits_len)
qed

theorem financial_year_label_witness:
  "Date 2026 4 1 \<le> Date 2027 3 31 \<and> financial_year (Date 2027 3 31) = ''2026-27''"
proof
  have "valid_date (Date 2027 3 31)" "fy_start (Date 2027 3 31) = 2026" by code_simp+
  then show "Date 2026 4 1 \<le> Date 2027 3 31"
    using financial_year_label[of "Date 2027 3 31"] by simp
  show "financial_year (Date 2027 3 31) = ''2026-27''" by code_simp
qed

end
