(* ===== verification/RegisterCatalog.thy ===== *)
theory RegisterCatalog
  imports RegisterSpec
begin

text \<open>
  \<open>src/src/silver/registers/catalog.py\<close>: the declared registers, each transcribed with its
  columns in order, and the look-up by document type. The lemmas run the constructor's checks over
  every declaration and show that no document type leads to two registers.
\<close>

definition req :: "string \<Rightarrow> kind \<Rightarrow> column" where
  "req n k = \<lparr>col_name = n, col_kind = k, col_required = True\<rparr>"

definition opt :: "string \<Rightarrow> kind \<Rightarrow> column" where
  "opt n k = \<lparr>col_name = n, col_kind = k, col_required = False\<rparr>"

definition spec_credit_debit_note_register :: register_spec where
  "spec_credit_debit_note_register = \<lparr>
     doc_type_codes = [''CREDIT_DEBIT_NOTE_REGISTER''],
     table_name = ''credit_debit_note_register'',
     period_column = ''tax_period'',
     spec_key_kind = NATURAL,
     key_columns = [''entity_id'', ''gstin'', ''note_no''],
     spec_columns = [req ''note_type'' TEXT, req ''note_no'' TEXT, req ''note_date'' DATE,
        req ''original_invoice_no'' TEXT, opt ''customer_gstin'' TEXT, opt ''supply_type'' TEXT,
        opt ''reason_code'' TEXT, opt ''reason_text'' TEXT,
        req ''adjusted_taxable_value'' DECIMAL, opt ''gst_rate'' DECIMAL, opt ''cgst'' DECIMAL,
        opt ''sgst'' DECIMAL, opt ''igst'' DECIMAL, opt ''cess'' DECIMAL,
        opt ''note_value'' DECIMAL],
     valid_from_column = Some ''note_date''\<rparr>"

definition spec_purchase_register :: register_spec where
  "spec_purchase_register = \<lparr>
     doc_type_codes = [''PURCHASE_REGISTER''],
     table_name = ''purchase_register'',
     period_column = ''tax_period'',
     spec_key_kind = NATURAL,
     key_columns = [''entity_id'', ''gstin'', ''supplier_gstin'', ''invoice_no''],
     spec_columns = [opt ''supplier_gstin'' TEXT, req ''invoice_no'' TEXT, req ''invoice_date'' DATE,
        opt ''hsn_sac'' TEXT, req ''taxable_value'' DECIMAL, opt ''gst_rate'' DECIMAL,
        opt ''cgst'' DECIMAL, opt ''sgst'' DECIMAL, opt ''igst'' DECIMAL, opt ''cess'' DECIMAL,
        req ''gl_code'' TEXT, req ''cost_centre'' TEXT, opt ''itc_eligibility'' TEXT,
        opt ''rcm_flag'' BOOLEAN],
     valid_from_column = Some ''invoice_date''\<rparr>"

definition spec_advance_receipt_register :: register_spec where
  "spec_advance_receipt_register = \<lparr>
     doc_type_codes = [''ADVANCE_RECEIPT_REGISTER''],
     table_name = ''advance_receipt_register'',
     period_column = ''tax_period'',
     spec_key_kind = CONTENT,
     key_columns = [''entity_id'', ''gstin'', ''tax_period'', ''row_hash''],
     spec_columns = [opt ''receipt_no'' TEXT, req ''receipt_date'' DATE, req ''amount'' DECIMAL,
        opt ''customer'' TEXT, opt ''customer_gstin'' TEXT, opt ''supply_type'' TEXT,
        opt ''gst_rate'' DECIMAL, opt ''gst_paid_on_advance'' DECIMAL,
        opt ''invoice_linkage'' TEXT, opt ''is_adjusted'' BOOLEAN],
     valid_from_column = Some ''receipt_date''\<rparr>"

definition spec_unbilled_revenue_schedule :: register_spec where
  "spec_unbilled_revenue_schedule = \<lparr>
     doc_type_codes = [''UNBILLED_REVENUE_SCHEDULE''],
     table_name = ''unbilled_revenue_schedule'',
     period_column = ''tax_period'',
     spec_key_kind = CONTENT,
     key_columns = [''entity_id'', ''gstin'', ''tax_period'', ''row_hash''],
     spec_columns = [opt ''item_id'' TEXT, opt ''description'' TEXT, opt ''contract_ref'' TEXT,
        opt ''customer'' TEXT, opt ''customer_gstin'' TEXT, req ''amount'' DECIMAL,
        opt ''date_of_service_completion'' DATE],
     valid_from_column = None\<rparr>"

definition spec_job_work_dispatch_register :: register_spec where
  "spec_job_work_dispatch_register = \<lparr>
     doc_type_codes = [''JOBWORK_DISPATCH_REGISTER''],
     table_name = ''job_work_dispatch_register'',
     period_column = ''tax_period'',
     spec_key_kind = CONTENT,
     key_columns = [''entity_id'', ''gstin'', ''tax_period'', ''row_hash''],
     spec_columns = [opt ''challan_no'' TEXT, req ''date_of_goods_dispatch_to_job_worker'' DATE,
        opt ''description'' TEXT, opt ''hsn'' TEXT, opt ''qty'' DECIMAL, opt ''uom'' TEXT,
        opt ''taxable_value'' DECIMAL, opt ''job_worker_gstin'' TEXT,
        opt ''expected_return_date'' DATE],
     valid_from_column = Some ''date_of_goods_dispatch_to_job_worker''\<rparr>"

definition spec_running_account_contract_register :: register_spec where
  "spec_running_account_contract_register = \<lparr>
     doc_type_codes = [''CONTINUOUS_SUPPLY_CONTRACT_REGISTER''],
     table_name = ''running_account_contract_register'',
     period_column = ''tax_period'',
     spec_key_kind = NATURAL,
     key_columns = [''entity_id'', ''gstin'', ''contract_ref''],
     spec_columns = [req ''contract_ref'' TEXT, opt ''customer'' TEXT, opt ''customer_gstin'' TEXT,
        opt ''billing_frequency'' TEXT, opt ''statement_date'' DATE, opt ''delivery_date'' DATE,
        opt ''amount'' DECIMAL],
     valid_from_column = None\<rparr>"

definition spec_audited_pl_account :: register_spec where
  "spec_audited_pl_account = \<lparr>
     doc_type_codes = [''AUDITED_PROFIT_AND_LOSS''],
     table_name = ''audited_pl_account'',
     period_column = ''fy'',
     spec_key_kind = CONTENT,
     key_columns = [''entity_id'', ''gstin'', ''fy'', ''row_hash''],
     spec_columns = [opt ''gl_code'' TEXT, req ''gl_account'' TEXT, opt ''narration'' TEXT,
        opt ''account_type'' TEXT, req ''amount'' DECIMAL, opt ''dr_cr'' TEXT,
        opt ''gst_treatment'' TEXT],
     valid_from_column = None\<rparr>"

definition spec_trial_balance :: register_spec where
  "spec_trial_balance = \<lparr>
     doc_type_codes = [''TRIAL_BALANCE''],
     table_name = ''trial_balance'',
     period_column = ''fy'',
     spec_key_kind = NATURAL,
     key_columns = [''entity_id'', ''gstin'', ''gl_code''],
     spec_columns = [req ''gl_code'' TEXT, req ''account_description'' TEXT, opt ''opening_balance'' DECIMAL,
        opt ''closing_balance'' DECIMAL, opt ''dr_cr'' TEXT, opt ''gst_treatment'' TEXT],
     valid_from_column = None\<rparr>"

definition spec_balance_sheet :: register_spec where
  "spec_balance_sheet = \<lparr>
     doc_type_codes = [''BALANCE_SHEET''],
     table_name = ''balance_sheet'',
     period_column = ''fy'',
     spec_key_kind = NATURAL,
     key_columns = [''entity_id'', ''gstin'', ''line_item''],
     spec_columns = [req ''line_item'' TEXT, opt ''gl_code'' TEXT, opt ''category'' TEXT,
        req ''amount'' DECIMAL],
     valid_from_column = None\<rparr>"

definition spec_fixed_asset_register :: register_spec where
  "spec_fixed_asset_register = \<lparr>
     doc_type_codes = [''FIXED_ASSET_REGISTER''],
     table_name = ''fixed_asset_register'',
     period_column = ''tax_period'',
     spec_key_kind = NATURAL,
     key_columns = [''entity_id'', ''gstin'', ''asset_id''],
     spec_columns = [req ''asset_id'' TEXT, opt ''description'' TEXT, opt ''hsn'' TEXT,
        opt ''purchase_date'' DATE, opt ''purchase_value'' DECIMAL, opt ''itc_availed'' DECIMAL,
        opt ''useful_life_months'' INTEGER, opt ''date_of_disposal'' DATE,
        opt ''disposal_value'' DECIMAL, opt ''disposal_type'' TEXT],
     valid_from_column = None\<rparr>"

definition spec_creditor_ageing_report :: register_spec where
  "spec_creditor_ageing_report = \<lparr>
     doc_type_codes = [''CREDITOR_AGEING_REPORT''],
     table_name = ''creditor_ageing_report'',
     period_column = ''tax_period'',
     spec_key_kind = NATURAL,
     key_columns = [''entity_id'', ''gstin'', ''as_at_date'', ''supplier_gstin'', ''invoice_no''],
     spec_columns = [opt ''supplier_gstin'' TEXT, opt ''supplier_name'' TEXT, req ''invoice_no'' TEXT,
        req ''invoice_date'' DATE, req ''outstanding_amount'' DECIMAL,
        opt ''ageing_days'' INTEGER, opt ''ageing_bucket'' TEXT, req ''as_at_date'' DATE],
     valid_from_column = Some ''as_at_date''\<rparr>"

definition spec_payment_register :: register_spec where
  "spec_payment_register = \<lparr>
     doc_type_codes = [''SUPPLIER_PAYMENT_REGISTER''],
     table_name = ''payment_register'',
     period_column = ''tax_period'',
     spec_key_kind = CONTENT,
     key_columns = [''entity_id'', ''gstin'', ''tax_period'', ''row_hash''],
     spec_columns = [req ''payment_date'' DATE, req ''amount'' DECIMAL, opt ''supplier_gstin'' TEXT,
        opt ''supplier_name'' TEXT, opt ''invoice_no'' TEXT, opt ''payment_ref'' TEXT,
        opt ''payment_mode'' TEXT],
     valid_from_column = Some ''payment_date''\<rparr>"

definition spec_bank_statement_outward :: register_spec where
  "spec_bank_statement_outward = \<lparr>
     doc_type_codes = [''BANK_STATEMENT_OUTWARD''],
     table_name = ''bank_statement_outward'',
     period_column = ''tax_period'',
     spec_key_kind = CONTENT,
     key_columns = [''entity_id'', ''gstin'', ''tax_period'', ''row_hash''],
     spec_columns = [req ''txn_date'' DATE, req ''amount'' DECIMAL, opt ''beneficiary'' TEXT,
        opt ''beneficiary_account'' TEXT, opt ''narration'' TEXT, opt ''bank_ref'' TEXT,
        opt ''invoice_ref'' TEXT],
     valid_from_column = Some ''txn_date''\<rparr>"

definition spec_bank_statement_inward_forex :: register_spec where
  "spec_bank_statement_inward_forex = \<lparr>
     doc_type_codes = [''BANK_STATEMENT_INWARD_FX''],
     table_name = ''bank_statement_inward_forex'',
     period_column = ''tax_period'',
     spec_key_kind = CONTENT,
     key_columns = [''entity_id'', ''gstin'', ''tax_period'', ''row_hash''],
     spec_columns = [req ''txn_date'' DATE, req ''amount_fcy'' DECIMAL, req ''currency'' TEXT,
        opt ''amount_inr'' DECIMAL, opt ''remitter'' TEXT, opt ''ad_bank_ref'' TEXT,
        opt ''export_invoice_ref'' TEXT, opt ''firc_no'' TEXT],
     valid_from_column = Some ''txn_date''\<rparr>"

definition spec_stock_inventory_register :: register_spec where
  "spec_stock_inventory_register = \<lparr>
     doc_type_codes = [''STOCK_REGISTER''],
     table_name = ''stock_inventory_register'',
     period_column = ''tax_period'',
     spec_key_kind = NATURAL,
     key_columns = [''entity_id'', ''gstin'', ''tax_period'', ''sku''],
     spec_columns = [req ''sku'' TEXT, opt ''description'' TEXT, opt ''hsn'' TEXT,
        opt ''opening_qty'' DECIMAL, opt ''closing_qty'' DECIMAL, opt ''write_off_qty'' DECIMAL,
        opt ''write_off_value'' DECIMAL],
     valid_from_column = None\<rparr>"

definition spec_product_sku_master :: register_spec where
  "spec_product_sku_master = \<lparr>
     doc_type_codes = [''SKU_MASTER''],
     table_name = ''product_sku_master'',
     period_column = ''tax_period'',
     spec_key_kind = NATURAL,
     key_columns = [''entity_id'', ''gstin'', ''sku''],
     spec_columns = [req ''sku'' TEXT, opt ''description'' TEXT, opt ''hsn'' TEXT,
        opt ''mrp_applicable'' BOOLEAN, opt ''declared_mrp'' DECIMAL],
     valid_from_column = None\<rparr>"

definition spec_inter_gstin_transaction_register :: register_spec where
  "spec_inter_gstin_transaction_register = \<lparr>
     doc_type_codes = [''INTER_GSTIN_TRANSACTION_REGISTER''],
     table_name = ''inter_gstin_transaction_register'',
     period_column = ''tax_period'',
     spec_key_kind = CONTENT,
     key_columns = [''entity_id'', ''gstin'', ''tax_period'', ''row_hash''],
     spec_columns = [req ''from_gstin'' TEXT, req ''to_gstin'' TEXT, opt ''txn_type'' TEXT,
        req ''txn_date'' DATE, opt ''invoice_no'' TEXT, opt ''description'' TEXT,
        opt ''hsn_sac'' TEXT, req ''taxable_value'' DECIMAL, opt ''gst_rate'' DECIMAL,
        opt ''cgst'' DECIMAL, opt ''sgst'' DECIMAL, opt ''igst'' DECIMAL],
     valid_from_column = Some ''txn_date''\<rparr>"

definition spec_cost_allocation_register :: register_spec where
  "spec_cost_allocation_register = \<lparr>
     doc_type_codes = [''COST_ALLOCATION_REGISTER''],
     table_name = ''cost_allocation_register'',
     period_column = ''tax_period'',
     spec_key_kind = CONTENT,
     key_columns = [''entity_id'', ''gstin'', ''tax_period'', ''row_hash''],
     spec_columns = [opt ''from_gstin'' TEXT, opt ''to_gstin'' TEXT, opt ''allocation_basis'' TEXT,
        opt ''description'' TEXT, req ''amount'' DECIMAL, opt ''has_invoice'' BOOLEAN,
        opt ''invoice_no'' TEXT],
     valid_from_column = None\<rparr>"

definition spec_platform_settlement_report :: register_spec where
  "spec_platform_settlement_report = \<lparr>
     doc_type_codes = [''AMAZON_MTR'', ''FLIPKART_GTR'', ''MARKETPLACE_SETTLEMENT_SSR'',
        ''MARKETPLACE_DISBURSEMENT_DRR'', ''MARKETPLACE_RETURNS_VRET'',
        ''FOOD_DELIVERY_PARTNER_REPORT'', ''OTHER_MARKETPLACE_SETTLEMENT''],
     table_name = ''platform_settlement_report'',
     period_column = ''tax_period'',
     spec_key_kind = CONTENT,
     key_columns = [''entity_id'', ''gstin'', ''tax_period'', ''row_hash''],
     spec_columns = [req ''report_type'' TEXT, req ''operator'' TEXT, opt ''order_no'' TEXT,
        opt ''order_date'' DATE, opt ''invoice_no'' TEXT, opt ''invoice_date'' DATE,
        opt ''buyer_state'' TEXT, opt ''taxable_value'' DECIMAL, opt ''gst_rate'' DECIMAL,
        opt ''cgst'' DECIMAL, opt ''sgst'' DECIMAL, opt ''igst'' DECIMAL, opt ''tcs'' DECIMAL,
        opt ''marketplace_fee'' DECIMAL, opt ''shipping_charges'' DECIMAL,
        opt ''net_payout'' DECIMAL],
     valid_from_column = None\<rparr>"

definition spec_itc_reversal_register :: register_spec where
  "spec_itc_reversal_register = \<lparr>
     doc_type_codes = [''ITC_REVERSAL_REGISTER''],
     table_name = ''itc_reversal_register'',
     period_column = ''tax_period'',
     spec_key_kind = CONTENT,
     key_columns = [''entity_id'', ''gstin'', ''tax_period'', ''row_hash''],
     spec_columns = [req ''reversal_type'' TEXT, opt ''reversal_basis'' TEXT, opt ''cgst_reversed'' DECIMAL,
        opt ''sgst_reversed'' DECIMAL, opt ''igst_reversed'' DECIMAL,
        opt ''cess_reversed'' DECIMAL, opt ''remarks'' TEXT],
     valid_from_column = None\<rparr>"

definition spec_rcm_register :: register_spec where
  "spec_rcm_register = \<lparr>
     doc_type_codes = [''RCM_REGISTER''],
     table_name = ''rcm_register'',
     period_column = ''tax_period'',
     spec_key_kind = CONTENT,
     key_columns = [''entity_id'', ''gstin'', ''tax_period'', ''row_hash''],
     spec_columns = [req ''rcm_category'' TEXT, opt ''supplier_gstin'' TEXT, opt ''supplier_name'' TEXT,
        opt ''invoice_no'' TEXT, opt ''invoice_date'' DATE, req ''taxable_value'' DECIMAL,
        opt ''gst_rate'' DECIMAL, opt ''rcm_liability'' DECIMAL, opt ''cgst'' DECIMAL,
        opt ''sgst'' DECIMAL, opt ''igst'' DECIMAL, opt ''paid_period'' DATE,
        opt ''is_paid'' BOOLEAN],
     valid_from_column = None\<rparr>"

definition spec_foreign_currency_payment_register :: register_spec where
  "spec_foreign_currency_payment_register = \<lparr>
     doc_type_codes = [''FOREIGN_CURRENCY_PAYMENT_REGISTER''],
     table_name = ''foreign_currency_payment_register'',
     period_column = ''tax_period'',
     spec_key_kind = CONTENT,
     key_columns = [''entity_id'', ''gstin'', ''tax_period'', ''row_hash''],
     spec_columns = [req ''payment_date'' DATE, req ''amount_fcy'' DECIMAL, req ''currency'' TEXT,
        opt ''amount_inr'' DECIMAL, opt ''vendor'' TEXT, opt ''country'' TEXT,
        opt ''purpose'' TEXT, opt ''invoice_contract_ref'' TEXT],
     valid_from_column = Some ''payment_date''\<rparr>"

definition spec_common_input_service_invoice :: register_spec where
  "spec_common_input_service_invoice = \<lparr>
     doc_type_codes = [''HO_COMMON_INPUT_SERVICE_INVOICE''],
     table_name = ''common_input_service_invoice'',
     period_column = ''tax_period'',
     spec_key_kind = NATURAL,
     key_columns = [''entity_id'', ''gstin'', ''supplier_gstin'', ''invoice_no''],
     spec_columns = [req ''invoice_no'' TEXT, req ''invoice_date'' DATE, opt ''supplier_gstin'' TEXT,
        opt ''service_category'' TEXT, req ''taxable_value'' DECIMAL, opt ''gst_rate'' DECIMAL,
        opt ''cgst'' DECIMAL, opt ''sgst'' DECIMAL, opt ''igst'' DECIMAL],
     valid_from_column = Some ''invoice_date''\<rparr>"

definition spec_payroll_tds_register :: register_spec where
  "spec_payroll_tds_register = \<lparr>
     doc_type_codes = [''PAYROLL_TDS_REGISTER''],
     table_name = ''payroll_tds_register'',
     period_column = ''tax_period'',
     spec_key_kind = NATURAL,
     key_columns = [''entity_id'', ''gstin'', ''tax_period'', ''ref_no''],
     spec_columns = [req ''ref_no'' TEXT, req ''person_name'' TEXT, opt ''role_title'' TEXT,
        req ''classification'' TEXT, req ''tds_section'' TEXT, req ''gross_amount'' DECIMAL,
        req ''tds_deducted'' DECIMAL],
     valid_from_column = None\<rparr>"

definition spec_firc_brc_register :: register_spec where
  "spec_firc_brc_register = \<lparr>
     doc_type_codes = [''FIRC_BRC_REGISTER''],
     table_name = ''firc_brc_register'',
     period_column = ''tax_period'',
     spec_key_kind = NATURAL,
     key_columns = [''entity_id'', ''gstin'', ''tax_period'', ''export_invoice_no''],
     spec_columns = [req ''export_invoice_no'' TEXT, req ''invoice_date'' DATE, req ''amount_foreign'' TEXT,
        req ''ad_bank'' TEXT, opt ''firc_no'' TEXT, req ''realisation_status'' TEXT],
     valid_from_column = Some ''invoice_date''\<rparr>"

definition spec_form_15ca_15cb :: register_spec where
  "spec_form_15ca_15cb = \<lparr>
     doc_type_codes = [''FORM_15CA_15CB''],
     table_name = ''form_15ca_15cb'',
     period_column = ''tax_period'',
     spec_key_kind = NATURAL,
     key_columns = [''entity_id'', ''gstin'', ''tax_period'', ''form_15ca_ack_no''],
     spec_columns = [req ''form_15ca_ack_no'' TEXT, req ''remittee_name'' TEXT,
        opt ''remittance_amount_inr'' DECIMAL, opt ''nature_of_remittance'' TEXT,
        opt ''form_15cb_cert_no'' TEXT, opt ''classification'' TEXT,
        opt ''tax_withheld_inr'' DECIMAL],
     valid_from_column = None\<rparr>"

definition register_specs :: "register_spec list" where
  "register_specs =
    [spec_credit_debit_note_register, spec_purchase_register, spec_advance_receipt_register,
     spec_unbilled_revenue_schedule, spec_job_work_dispatch_register,
     spec_running_account_contract_register, spec_audited_pl_account, spec_trial_balance,
     spec_balance_sheet, spec_fixed_asset_register, spec_creditor_ageing_report,
     spec_payment_register, spec_bank_statement_outward, spec_bank_statement_inward_forex,
     spec_stock_inventory_register, spec_product_sku_master,
     spec_inter_gstin_transaction_register, spec_cost_allocation_register,
     spec_platform_settlement_report, spec_itc_reversal_register, spec_rcm_register,
     spec_foreign_currency_payment_register, spec_common_input_service_invoice,
     spec_payroll_tds_register, spec_firc_brc_register, spec_form_15ca_15cb]"

definition spec_by_doc_type :: "(string \<times> register_spec) list" where
  "spec_by_doc_type = dict_of (concat (map (\<lambda>s. map (\<lambda>c. (c, s)) (doc_type_codes s)) register_specs))"

definition spec_by_table :: "(string \<times> register_spec) list" where
  "spec_by_table = dict_of (map (\<lambda>s. (table_name s, s)) register_specs)"

definition spec_for :: "string \<Rightarrow> exc + register_spec" where
  "spec_for code =
     (case map_of spec_by_doc_type code of
        Some s \<Rightarrow> Inr s
      | None \<Rightarrow> Inl (KeyError (code @ '' has no flat-register loader'')))"

section \<open>The catalogue is consistent\<close>

lemma catalog_table:
  "list_all well_formed register_specs"
  by code_simp

lemma catalog_codes: "distinct (concat (map doc_type_codes register_specs))"
  by code_simp

lemma catalog_tables: "distinct (map table_name register_specs)"
  by code_simp

lemma catalog_scoped:
  "list_all (\<lambda>s. take 2 (key_columns s) = [''entity_id'', ''gstin'']
     \<and> (spec_key_kind s = CONTENT \<longrightarrow> key_columns s = [''entity_id'', ''gstin'', period_column s, ''row_hash'']))
   register_specs"
  by code_simp

lemma catalog_nullable_keys:
  "list_all (\<lambda>s. list_all (\<lambda>k. k \<in> set (required_names s) \<or> k = ''supplier_gstin'') (business_key_columns s))
   register_specs"
  by code_simp

lemma spec_mem_well_formed: "s \<in> set register_specs \<Longrightarrow> well_formed s"
  using catalog_table by (simp add: list_all_iff)

lemma spec_for_Inr: "spec_for code = Inr s \<longleftrightarrow> s \<in> set register_specs \<and> code \<in> set (doc_type_codes s)"
proof -
  let ?kvs = "concat (map (\<lambda>s. map (\<lambda>c. (c, s)) (doc_type_codes s)) register_specs)"
  have "map fst ?kvs = concat (map doc_type_codes register_specs)"
    by (simp add: map_concat comp_def)
  then have "distinct (map fst (rev ?kvs))"
    using catalog_codes by (simp add: rev_map[symmetric])
  then have "map_of (rev ?kvs) code = Some s \<longleftrightarrow> (code, s) \<in> set ?kvs"
    by (simp only: map_of_eq_Some_iff set_rev)
  moreover have "(code, s) \<in> set ?kvs \<longleftrightarrow> s \<in> set register_specs \<and> code \<in> set (doc_type_codes s)"
    by auto
  ultimately show ?thesis
    unfolding spec_for_def spec_by_doc_type_def map_of_dict_of by (auto split: option.splits)
qed

text \<open>
  Every declared register passes its constructor's checks, and a document type leads to a
  register exactly when that register declares it, so to one at most. Every key starts with the
  entity and its GSTIN; a content-keyed register is keyed on its period and the row hash; the only
  column a natural key may leave blank is the supplier's GSTIN. There are 26 registers.
\<close>

theorem catalog_consistent:
  "list_all (\<lambda>s. post_init s = Inr s) register_specs
   \<and> (spec_for code = Inr s \<longleftrightarrow> s \<in> set register_specs \<and> code \<in> set (doc_type_codes s))
   \<and> list_all (\<lambda>s. take 2 (key_columns s) = [''entity_id'', ''gstin'']
        \<and> (spec_key_kind s = CONTENT \<longrightarrow> key_columns s = [''entity_id'', ''gstin'', period_column s, ''row_hash''])
        \<and> list_all (\<lambda>k. k \<in> set (required_names s) \<or> k = ''supplier_gstin'') (business_key_columns s))
      register_specs
   \<and> length register_specs = 26"
proof (intro conjI)
  show "list_all (\<lambda>s. post_init s = Inr s) register_specs"
    using spec_mem_well_formed by (simp add: list_all_iff well_formed_def)
  show "spec_for code = Inr s \<longleftrightarrow> s \<in> set register_specs \<and> code \<in> set (doc_type_codes s)"
    by (rule spec_for_Inr)
  show "list_all (\<lambda>s. take 2 (key_columns s) = [''entity_id'', ''gstin'']
        \<and> (spec_key_kind s = CONTENT \<longrightarrow> key_columns s = [''entity_id'', ''gstin'', period_column s, ''row_hash''])
        \<and> list_all (\<lambda>k. k \<in> set (required_names s) \<or> k = ''supplier_gstin'') (business_key_columns s))
      register_specs"
    using catalog_scoped catalog_nullable_keys by (simp only: list_all_iff) blast
  show "length register_specs = 26" by (simp add: register_specs_def)
qed

theorem catalog_consistent_witness:
  "spec_for ''PURCHASE_REGISTER'' = Inr spec_purchase_register"
proof -
  have "spec_purchase_register \<in> set register_specs" by (simp add: register_specs_def)
  moreover have "''PURCHASE_REGISTER'' \<in> set (doc_type_codes spec_purchase_register)"
    by (simp add: spec_purchase_register_def)
  ultimately show ?thesis
    using catalog_consistent[of "''PURCHASE_REGISTER''" spec_purchase_register] by blast
qed

end
