(* ===== verification/RegisterStore.thy ===== *)
theory RegisterStore
  imports RegisterParse RegisterCatalog SilverDb
begin

text \<open>
  The storing half of \<open>src/src/silver/registers/loader.py\<close>: \<open>RegisterLoader.load\<close> with its two
  key strategies, on the register tables of tenant migrations 010, 014 and 020. A table is the list
  of its rows in insertion order; its partial unique index is on the key columns of the live rows,
  its DECIMAL columns round what they are given to their scale, and its domains and CHECK
  constraints are the parameter \<open>re_checks\<close> of the environment, over the table, the GSTIN, the
  period, the document type and the business columns.
\<close>

datatype period_value = PDate date | PYear string

record reg_version =
  rv_id :: nat
  rv_entity :: uuid
  rv_gstin :: string
  rv_period :: period_value
  rv_doc_type :: string
  rv_batch :: uuid
  rv_ingest :: uuid
  rv_hash :: string
  rv_valid_from :: date
  rv_valid_to :: date
  rv_superseded_at :: "instant option"
  rv_values :: "(string \<times> cell_value) list"

record register_db = silver_core +
  reg_tables :: "(string \<times> reg_version list) list"

record register_env =
  re_digest :: "string \<Rightarrow> string"
  re_bytes_digest :: "bytes \<Rightarrow> bytes"
  re_loads :: "string \<Rightarrow> json option"
  re_repr :: "json \<Rightarrow> string"
  re_vocabulary :: vocabulary
  re_checks :: "string \<Rightarrow> string \<Rightarrow> period_value \<Rightarrow> string \<Rightarrow> (string \<times> cell_value) list \<Rightarrow> bool"

text \<open>
  What one call of \<open>load\<close> is given; the batch id and the run id are the fresh ones, and
  \<open>rl_now\<close> is the database clock in its transaction.
\<close>

record register_load =
  rl_entity :: uuid
  rl_gstin :: string
  rl_ingest :: uuid
  rl_data :: bytes
  rl_period_start :: date
  rl_period_end :: date
  rl_doc_type :: "string option"
  rl_run :: uuid
  rl_format :: string
  rl_batch :: uuid
  rl_now :: instant

record register_outcome =
  ro_doc_type :: string
  ro_table :: string
  ro_batch :: uuid
  ro_tally :: tally
  ro_rejected :: nat
  ro_row_count :: nat
  ro_collapsed :: nat

section \<open>Scoping\<close>

definition resolve_doc_type :: "register_spec \<Rightarrow> string option \<Rightarrow> exc + string" where
  "resolve_doc_type spec code =
     (case code of
        None \<Rightarrow>
          (case default_doc_type_code spec of
             None \<Rightarrow> Inl (ValueError (table_name spec @ '' is shared by several registry types; doc_type_code is required''))
           | Some d \<Rightarrow> Inr d)
      | Some c \<Rightarrow>
          if c \<notin> set (doc_type_codes spec)
          then Inl (ValueError (c @ '' does not load into '' @ table_name spec)) else Inr c)"

definition period_value_of :: "register_spec \<Rightarrow> date \<Rightarrow> date \<Rightarrow> exc + period_value" where
  "period_value_of spec ps pe =
     (if period_column spec = ''tax_period'' then Inr (PDate ps)
      else let fy = financial_year ps in
        if financial_year pe \<noteq> fy
        then Inl (ValueError (table_name spec @ '' is keyed on a financial year, but the batch spans two''))
        else Inr (PYear fy))"

definition valid_from_of :: "register_spec \<Rightarrow> register_row \<Rightarrow> date \<Rightarrow> date" where
  "valid_from_of spec row ps =
     (case valid_from_column spec of None \<Rightarrow> ps
      | Some c \<Rightarrow> (case row_value row c of VDate d \<Rightarrow> d | _ \<Rightarrow> ps))"

section \<open>Keys\<close>

datatype key_value = KUuid uuid | KText string | KPeriod period_value | KCell cell_value

text \<open>The value a row to be written has in a key column.\<close>

definition key_value_of :: "register_load \<Rightarrow> period_value \<Rightarrow> register_row \<Rightarrow> string \<Rightarrow> key_value" where
  "key_value_of rl pv row c =
     (if c = ''entity_id'' then KUuid (rl_entity rl)
      else if c = ''gstin'' then KText (rl_gstin rl)
      else if c = ''tax_period'' \<or> c = ''fy'' then KPeriod pv
      else if c = ''row_hash'' then KText (row_hash row)
      else KCell (row_value row c))"

definition version_value :: "reg_version \<Rightarrow> string \<Rightarrow> key_value" where
  "version_value v c =
     (if c = ''entity_id'' then KUuid (rv_entity v)
      else if c = ''gstin'' then KText (rv_gstin v)
      else if c = ''tax_period'' \<or> c = ''fy'' then KPeriod (rv_period v)
      else if c = ''row_hash'' then KText (rv_hash v)
      else KCell (case map_of (rv_values v) c of Some x \<Rightarrow> x | None \<Rightarrow> VNone))"

definition row_key :: "register_spec \<Rightarrow> register_load \<Rightarrow> period_value \<Rightarrow> register_row \<Rightarrow> key_value list" where
  "row_key spec rl pv row = map (key_value_of rl pv row) (key_columns spec)"

definition version_key :: "register_spec \<Rightarrow> reg_version \<Rightarrow> key_value list" where
  "version_key spec v = map (version_value v) (key_columns spec)"

text \<open>
  One predicate of the look-up: \<open>IS NOT DISTINCT FROM\<close> for a nullable column, and for another
  \<open>=\<close>, which a NULL never satisfies.
\<close>

definition column_matches :: "register_spec \<Rightarrow> string \<Rightarrow> key_value \<Rightarrow> key_value \<Rightarrow> bool" where
  "column_matches spec c a b \<longleftrightarrow>
     (let nullable = (case column_named spec c of Some col \<Rightarrow> \<not> col_required col | None \<Rightarrow> False)
      in if nullable then a = b else a = b \<and> a \<noteq> KCell VNone)"

definition find_live :: "register_spec \<Rightarrow> key_value list \<Rightarrow> reg_version list \<Rightarrow> reg_version option" where
  "find_live spec k t =
     List.find (\<lambda>v. rv_superseded_at v = None
       \<and> list_all (\<lambda>(c, x). column_matches spec c (version_value v c) x) (zip (key_columns spec) k)) t"

section \<open>Numeric columns\<close>

text \<open>
  The DECIMAL columns of the register tables, by name: rates, quantities and amounts. The foreign
  currency amounts are declared \<open>numeric(18,2)\<close>, which is what \<open>money_inr\<close> is. No key column is
  numeric, so what a key is compared with is what the column holds. The blanks with which the columns
  \<open>currency\<close> and \<open>country\<close>, of type \<open>char(n)\<close>, fill up a short text are not modelled.
\<close>

definition register_column :: "string \<Rightarrow> numeric_type" where
  "register_column c =
     (if c = ''gst_rate'' then tax_rate
      else if c \<in> {''qty'', ''opening_qty'', ''closing_qty'', ''write_off_qty''} then qty_column
      else money_inr)"

definition stored_cell :: "register_spec \<Rightarrow> string \<Rightarrow> cell_value \<Rightarrow> cell_value" where
  "stored_cell spec c v = (case v of
      VDec d \<Rightarrow> if c \<in> set (key_columns spec) then v else VDec (column_value (register_column c) d)
    | _ \<Rightarrow> v)"

lemma catalog_keys_not_numeric:
  "list_all (\<lambda>s. list_all (\<lambda>c. col_kind c = DECIMAL \<longrightarrow> col_name c \<notin> set (key_columns s)) (spec_columns s)) register_specs"
  by code_simp

section \<open>The two statements\<close>

text \<open>The row of an insert, with the numbers as the columns keep them.\<close>

definition new_version ::
  "register_spec \<Rightarrow> register_load \<Rightarrow> period_value \<Rightarrow> string \<Rightarrow> register_row \<Rightarrow> reg_version" where
  "new_version spec rl pv code row =
     \<lparr>rv_id = 0, rv_entity = rl_entity rl, rv_gstin = rl_gstin rl, rv_period = pv,
      rv_doc_type = code, rv_batch = rl_batch rl, rv_ingest = rl_ingest rl, rv_hash = row_hash row,
      rv_valid_from = valid_from_of spec row (rl_period_start rl), rv_valid_to = max_date,
      rv_superseded_at = None, rv_values = map (\<lambda>(c, x). (c, stored_cell spec c x)) (row_values row)\<rparr>"

text \<open>
  \<open>_insert\<close>: whether the numbers have room in their columns, which their rounded values tell, the
  NOT NULL columns and checks of the row, then the unique index over the live
  rows; the identity column numbers the rows. With \<open>on_conflict_do_nothing\<close> a conflict is no
  error and inserts nothing.
\<close>

definition version_fits :: "reg_version \<Rightarrow> bool" where
  "version_fits v \<longleftrightarrow>
     list_all (\<lambda>(c, x). case x of VDec d \<Rightarrow> column_fits (register_column c) d | _ \<Rightarrow> True) (rv_values v)"

definition row_admitted :: "register_env \<Rightarrow> register_spec \<Rightarrow> reg_version \<Rightarrow> bool" where
  "row_admitted env spec v \<longleftrightarrow>
     list_all (\<lambda>c. version_value v c \<noteq> KCell VNone) (required_names spec)
     \<and> re_checks env (table_name spec) (rv_gstin v) (rv_period v) (rv_doc_type v) (rv_values v)
     \<and> rv_valid_from v < rv_valid_to v"

definition insert_version ::
  "register_env \<Rightarrow> register_spec \<Rightarrow> bool \<Rightarrow> reg_version \<Rightarrow> reg_version list \<Rightarrow> exc + nat option \<times> reg_version list" where
  "insert_version env spec on_conflict_do_nothing v t =
     (if \<not> version_fits v then Inl column_overflow
      else if \<not> row_admitted env spec v then Inl (OtherIntegrityError (table_name spec))
      else if \<exists>u\<in>set t. rv_superseded_at u = None \<and> version_key spec u = version_key spec v
      then (if on_conflict_do_nothing then Inr (None, t) else Inl (UniqueViolation (table_name spec)))
      else Inr (Some (length t), t @ [v\<lparr>rv_id := length t\<rparr>]))"

definition close_version :: "instant \<Rightarrow> nat \<Rightarrow> date \<Rightarrow> reg_version list \<Rightarrow> reg_version list" where
  "close_version now live_id new_valid_from t =
     map (\<lambda>v. if rv_id v = live_id
       then v\<lparr>rv_superseded_at := Some now,
              rv_valid_to := (if rv_valid_from v < new_valid_from then new_valid_from else rv_valid_to v)\<rparr>
       else v) t"

section \<open>The two key strategies\<close>

definition upsert_natural ::
  "register_env \<Rightarrow> register_spec \<Rightarrow> register_load \<Rightarrow> period_value \<Rightarrow> string \<Rightarrow> register_row
    \<Rightarrow> reg_version list \<Rightarrow> exc + outcome \<times> reg_version list" where
  "upsert_natural env spec rl pv code row t =
     (let v = new_version spec rl pv code row in
      case find_live spec (row_key spec rl pv row) t of
        Some live \<Rightarrow>
          if rv_hash live = row_hash row then Inr (Unchanged, t)
          else rbind (insert_version env spec False v
                 (close_version (rl_now rl) (rv_id live) (rv_valid_from v) t))
               (\<lambda>(_, t'). Inr (Superseded, t'))
      | None \<Rightarrow> rbind (insert_version env spec False v t) (\<lambda>(_, t'). Inr (Inserted, t')))"

definition upsert_content ::
  "register_env \<Rightarrow> register_spec \<Rightarrow> register_load \<Rightarrow> period_value \<Rightarrow> string \<Rightarrow> register_row
    \<Rightarrow> reg_version list \<Rightarrow> exc + outcome \<times> reg_version list" where
  "upsert_content env spec rl pv code row t =
     rbind (insert_version env spec True (new_version spec rl pv code row) t)
       (\<lambda>(i, t'). Inr (if i \<noteq> None then Inserted else Unchanged, t'))"

definition upsert_row ::
  "register_env \<Rightarrow> register_spec \<Rightarrow> register_load \<Rightarrow> period_value \<Rightarrow> string \<Rightarrow> register_row
    \<Rightarrow> reg_version list \<Rightarrow> exc + outcome \<times> reg_version list" where
  "upsert_row env spec = (if spec_key_kind spec = NATURAL then upsert_natural env spec else upsert_content env spec)"

section \<open>load\<close>

definition reg_table :: "string \<Rightarrow> 'a register_db_scheme \<Rightarrow> reg_version list" where
  "reg_table name db = (case map_of (reg_tables db) name of Some t \<Rightarrow> t | None \<Rightarrow> [])"

definition batch_of :: "register_env \<Rightarrow> register_load \<Rightarrow> string \<Rightarrow> nat \<Rightarrow> ingest_batch" where
  "batch_of env rl code n = \<lparr>ib_batch_id = rl_batch rl, ib_entity_id = rl_entity rl,
     ib_document_type = code, ib_source_stream = ''B'', ib_period_start = rl_period_start rl,
     ib_period_end = rl_period_end rl, ib_row_count = n,
     ib_content_hash = re_bytes_digest env (rl_data rl), ib_manifest_ref = rl_ingest rl,
     ib_status = ''READY'', ib_ready_at = rl_now rl, ib_run_id = rl_run rl\<rparr>"

definition rejected_of :: "register_load \<Rightarrow> string \<Rightarrow> row_rejection \<Rightarrow> rejected_row" where
  "rejected_of rl code rej = \<lparr>rr_batch_id = rl_batch rl, rr_doc_type = code, rr_ingest_id = rl_ingest rl,
     rr_source_line = rj_line rej, rr_column = rj_column rej, rr_message = rj_message rej\<rparr>"

definition parse_by_format :: "register_env \<Rightarrow> register_spec \<Rightarrow> string \<Rightarrow> bytes \<Rightarrow> exc + parse_result" where
  "parse_by_format env spec fmt data =
     (if fmt = ''csv'' then parse_register_csv (re_digest env) spec data
      else if fmt = ''ndjson'' then
        Inr (parse_register_ndjson (re_digest env) (re_loads env) (re_repr env) spec data)
      else Inl (ValueError (''unknown content_format '' @ fmt)))"

text \<open>The one transaction: the batch, every row, the rejections.\<close>

definition store_parsed ::
  "register_env \<Rightarrow> register_spec \<Rightarrow> register_load \<Rightarrow> period_value \<Rightarrow> string \<Rightarrow> parse_result
    \<Rightarrow> 'a register_db_scheme \<Rightarrow> exc + tally \<times> 'a register_db_scheme" where
  "store_parsed env spec rl pv code parsed db =
     rbind (insert_batch (re_vocabulary env) (batch_of env rl code (row_count parsed)) db) (\<lambda>db1.
     rbind (upsert_all (upsert_row env spec rl pv code) (pr_rows parsed)
              (no_tally, reg_table (table_name spec) db1)) (\<lambda>(n, t).
       Inr (n, insert_rejected (map (rejected_of rl code) (pr_rejections parsed))
                 (db1\<lparr>reg_tables := dict_put (table_name spec) t (reg_tables db1)\<rparr>))))"

definition register_load_run ::
  "register_env \<Rightarrow> register_spec \<Rightarrow> register_load \<Rightarrow> 'a register_db_scheme
    \<Rightarrow> (exc + register_outcome) \<times> 'a register_db_scheme" where
  "register_load_run env spec rl db =
     (case rbind (resolve_doc_type spec (rl_doc_type rl)) (\<lambda>code.
           rbind (period_value_of spec (rl_period_start rl) (rl_period_end rl)) (\<lambda>pv.
           rbind (parse_by_format env spec (rl_format rl) (rl_data rl)) (\<lambda>parsed. Inr (code, pv, parsed)))) of
        Inl e \<Rightarrow> (Inl e, db)
      | Inr (code, pv, parsed) \<Rightarrow>
          (case pr_fatal parsed of
             Some m \<Rightarrow>
               (case upsert_quarantine (re_vocabulary env)
                       \<lparr>qa_ingest_id = rl_ingest rl, qa_entity_id = rl_entity rl, qa_document_type = code,
                        qa_reason = (if m = [] then ''unknown'' else m), qa_run_id = Some (rl_run rl)\<rparr> db of
                  Inl e \<Rightarrow> (Inl e, db)
                | Inr db' \<Rightarrow> (Inl (ValidationRejected m), db'))
           | None \<Rightarrow>
               (case store_parsed env spec rl pv code parsed db of
                  Inl e \<Rightarrow> (Inl e, db)
                | Inr (n, db') \<Rightarrow>
                    (Inr \<lparr>ro_doc_type = code, ro_table = table_name spec, ro_batch = rl_batch rl,
                       ro_tally = n, ro_rejected = length (pr_rejections parsed),
                       ro_row_count = row_count parsed, ro_collapsed = pr_collapsed parsed\<rparr>, db'))))"

section \<open>The table's invariant\<close>

text \<open>What the lemmas below need of a specification; every one of the catalogue has it.\<close>

definition spec_ok :: "register_spec \<Rightarrow> bool" where
  "spec_ok spec \<longleftrightarrow> well_formed spec \<and> (spec_key_kind spec = CONTENT \<longrightarrow> ''row_hash'' \<in> set (key_columns spec))"

definition live_versions :: "reg_version list \<Rightarrow> reg_version list" where
  "live_versions t = filter (\<lambda>v. rv_superseded_at v = None) t"

definition solid :: "register_spec \<Rightarrow> reg_version \<Rightarrow> bool" where
  "solid spec v \<longleftrightarrow> (\<forall>c\<in>set (required_names spec). version_value v c \<noteq> KCell VNone)"

definition table_ok :: "register_spec \<Rightarrow> reg_version list \<Rightarrow> bool" where
  "table_ok spec t \<longleftrightarrow> spec_ok spec
     \<and> map rv_id t = [0..<length t]
     \<and> distinct (map (version_key spec) (live_versions t))
     \<and> (\<forall>v\<in>set t. rv_valid_from v < rv_valid_to v \<and> solid spec v)"

definition live_version :: "register_spec \<Rightarrow> reg_version list \<Rightarrow> key_value list \<Rightarrow> reg_version option" where
  "live_version spec t k = List.find (\<lambda>v. version_key spec v = k) (live_versions t)"

definition live_hash :: "register_spec \<Rightarrow> reg_version list \<Rightarrow> key_value list \<Rightarrow> string option" where
  "live_hash spec t k = map_option rv_hash (live_version spec t k)"

lemma new_version_key [simp]: "version_key spec (new_version spec rl pv code row) = row_key spec rl pv row"
  by (auto simp: version_key_def row_key_def new_version_def version_value_def key_value_of_def row_value_def
      map_of_map_snd_with_key stored_cell_def split: option.splits cell_value.splits)

lemma version_key_id [simp]: "version_key spec (v\<lparr>rv_id := i\<rparr>) = version_key spec v"
  by (simp add: version_key_def version_value_def)

lemma solid_id [simp]: "solid spec (v\<lparr>rv_id := i\<rparr>) = solid spec v"
  by (simp add: solid_def version_value_def)

lemma column_matches_solid:
  assumes "spec_ok spec" "solid spec v" "c \<in> set (key_columns spec)"
  shows "column_matches spec c (version_value v c) x \<longleftrightarrow> version_value v c = x"
proof (cases "column_named spec c")
  case None
  have "c \<notin> set (column_names spec)"
  proof
    assume "c \<in> set (column_names spec)"
    then obtain d where "d \<in> set (spec_columns spec)" "col_name d = c" by (auto simp: column_names_def)
    with None show False by (auto simp: column_named_def find_None_iff)
  qed
  then have "c \<in> set envelope_key_columns"
    using assms(1,3) well_formed_keys by (auto simp: spec_ok_def)
  then have "version_value v c \<noteq> KCell VNone"
    by (auto simp: envelope_key_columns_def version_value_def)
  with None show ?thesis by (auto simp: column_matches_def)
next
  case (Some d)
  note m = column_named_mem[OF Some]
  show ?thesis
  proof (cases "col_required d")
    case True
    with m have "c \<in> set (required_names spec)" by (auto simp: required_names_def)
    with assms(2) Some True show ?thesis by (auto simp: column_matches_def solid_def)
  qed (simp add: column_matches_def Some)
qed

text \<open>On a table in order the look-up finds the live version with exactly the key.\<close>

lemma find_live_eq:
  assumes "table_ok spec t" "length k = length (key_columns spec)"
  shows "find_live spec k t = live_version spec t k"
proof -
  have "list_all (\<lambda>(c, x). column_matches spec c (version_value v c) x) (zip (key_columns spec) k)
      \<longleftrightarrow> version_key spec v = k" if v: "v \<in> set t" for v
  proof -
    have "list_all (\<lambda>(c, x). column_matches spec c (version_value v c) x) (zip cs xs) \<longleftrightarrow> map (version_value v) cs = xs"
      if "length xs = length cs" "set cs \<subseteq> set (key_columns spec)" for cs xs
      using that assms(1) v
    proof (induction xs cs rule: list_induct2)
      case (Cons x xs c cs)
      then show ?case using column_matches_solid[of spec v c x] by (auto simp: table_ok_def)
    qed simp
    from this[of k "key_columns spec"] show ?thesis using assms(2) by (simp add: version_key_def)
  qed
  moreover have "List.find P t = List.find Q (live_versions t)"
    if "\<forall>v\<in>set t. P v \<longleftrightarrow> rv_superseded_at v = None \<and> Q v" for P Q
    using that unfolding live_versions_def by (induction t) auto
  ultimately show ?thesis
    by (simp add: find_live_def live_version_def)
qed

lemma live_version_None: "live_version spec t k = None \<longleftrightarrow> k \<notin> version_key spec ` set (live_versions t)"
  by (auto simp: live_version_def find_None_iff)

lemma live_version_Some: "live_version spec t k = Some v \<Longrightarrow>
    v \<in> set t \<and> rv_superseded_at v = None \<and> version_key spec v = k"
  by (auto simp: live_version_def live_versions_def dest!: find_mem)

lemma conflict_iff:
  "(\<exists>u\<in>set t. rv_superseded_at u = None \<and> version_key spec u = k) \<longleftrightarrow> live_version spec t k \<noteq> None"
  by (auto simp: live_version_None live_versions_def)

section \<open>The two statements keep the invariant\<close>

lemma insert_version_ok:
  assumes ok: "table_ok spec t" and i: "insert_version env spec b v t = Inr (i, t')"
    and v: "rv_superseded_at v = None"
  shows "table_ok spec t'"
    and "live_version spec t' k =
      (if i \<noteq> None \<and> k = version_key spec v then Some (v\<lparr>rv_id := length t\<rparr>) else live_version spec t k)"
    and "i \<noteq> None \<longleftrightarrow> live_version spec t (version_key spec v) = None"
proof -
  have c: "i \<noteq> None \<longleftrightarrow> live_version spec t (version_key spec v) = None"
    and t': "t' = (if i = None then t else t @ [v\<lparr>rv_id := length t\<rparr>])" and a: "row_admitted env spec v"
    using i unfolding insert_version_def conflict_iff by (auto split: if_splits)
  show "i \<noteq> None \<longleftrightarrow> live_version spec t (version_key spec v) = None" by (rule c)
  show "table_ok spec t'"
  proof (cases "i = None")
    case False
    then have "version_key spec v \<notin> version_key spec ` set (live_versions t)"
      using c by (simp add: live_version_None)
    moreover have "solid spec v" using a by (simp add: row_admitted_def solid_def list_all_iff)
    ultimately show ?thesis
      using ok a t' False v by (auto simp: table_ok_def live_versions_def row_admitted_def)
  qed (use ok t' in simp)
  show "live_version spec t' k =
      (if i \<noteq> None \<and> k = version_key spec v then Some (v\<lparr>rv_id := length t\<rparr>) else live_version spec t k)"
    using c t' v by (auto simp: live_version_def live_versions_def find_snoc split: option.splits)
qed

lemma closed_key [simp]:
  "version_key spec (v\<lparr>rv_superseded_at := s, rv_valid_to := d\<rparr>) = version_key spec v"
  "solid spec (v\<lparr>rv_superseded_at := s, rv_valid_to := d\<rparr>) = solid spec v"
  by (simp_all add: version_key_def solid_def version_value_def)

lemma close_version_ok:
  assumes ok: "table_ok spec t" and l: "live_version spec t k = Some u"
  shows "table_ok spec (close_version now (rv_id u) vf t)"
    and "live_version spec (close_version now (rv_id u) vf t) k'
      = (if k' = k then None else live_version spec t k')"
    and "length (close_version now (rv_id u) vf t) = length t"
proof -
  let ?f = "\<lambda>v. v\<lparr>rv_superseded_at := Some now,
              rv_valid_to := (if rv_valid_from v < vf then vf else rv_valid_to v)\<rparr>"
  let ?t = "close_version now (rv_id u) vf t"
  note u = live_version_Some[OF l]
  have inj: "v = u" if "v \<in> set t" "rv_id v = rv_id u" for v
  proof -
    have "distinct (map rv_id t)" using ok by (simp add: table_ok_def)
    then show ?thesis using that u by (auto simp: distinct_map dest: inj_onD)
  qed
  have e: "?t = map (\<lambda>v. if v = u then ?f v else v) t"
    unfolding close_version_def using inj by (intro map_cong) auto
  have "filter (\<lambda>v. rv_superseded_at v = None) (map (\<lambda>v. if v = u then ?f v else v) xs)
      = filter (\<lambda>v. v \<noteq> u) (filter (\<lambda>v. rv_superseded_at v = None) xs)" for xs
    by (induction xs) auto
  then have lv: "live_versions ?t = filter (\<lambda>v. v \<noteq> u) (live_versions t)"
    by (simp add: live_versions_def e)
  have d: "distinct (map (version_key spec) (live_versions t))" using ok by (simp add: table_ok_def)
  show "length ?t = length t" by (simp add: close_version_def)
  have ids: "map rv_id ?t = map rv_id t" by (simp add: close_version_def comp_def if_distrib cong: if_cong)
  have "distinct (map (version_key spec) (filter P xs))" if "distinct (map (version_key spec) xs)" for P xs
    using that by (induction xs) auto
  with d have "distinct (map (version_key spec) (live_versions ?t))" by (simp add: lv)
  moreover have "\<forall>v\<in>set ?t. rv_valid_from v < rv_valid_to v \<and> solid spec v"
    using ok by (auto simp: e table_ok_def)
  ultimately show "table_ok spec ?t"
    using ok ids by (simp add: table_ok_def close_version_def)
  have "List.find (\<lambda>v. version_key spec v = k') (filter (\<lambda>v. v \<noteq> u) xs)
      = (if k' = version_key spec u then None else List.find (\<lambda>v. version_key spec v = k') xs)"
    if "distinct (map (version_key spec) xs)" "u \<in> set xs" for xs
  proof (cases "k' = version_key spec u")
    case True
    have "\<forall>v\<in>set xs. version_key spec v = version_key spec u \<longrightarrow> v = u"
      using that by (auto simp: distinct_map inj_on_def)
    with True show ?thesis by (auto simp: find_None_iff)
  next
    case False
    then show ?thesis by (induction xs) auto
  qed
  moreover have "u \<in> set (live_versions t)" using u by (simp add: live_versions_def)
  ultimately show "live_version spec ?t k' = (if k' = k then None else live_version spec t k')"
    using d u unfolding live_version_def lv by auto
qed

section \<open>The upserts keep the contract of a versioned table\<close>

lemma length_row_key [simp]: "length (row_key spec rl pv row) = length (key_columns spec)"
  by (simp add: row_key_def)

lemma new_version_live [simp]: "rv_superseded_at (new_version spec rl pv code row) = None"
  by (simp add: new_version_def)

lemma new_version_hash [simp]: "rv_hash (new_version spec rl pv code row) = row_hash row"
  by (simp add: new_version_def)

lemma upsert_natural_cases:
  assumes ok: "table_ok spec t" and u: "upsert_natural env spec rl pv code row t = Inr (c, t')"
  shows "table_ok spec t'
    \<and> live_hash spec t' k = (if k = row_key spec rl pv row then Some (row_hash row) else live_hash spec t k)
    \<and> c = (case live_hash spec t (row_key spec rl pv row) of None \<Rightarrow> Inserted
          | Some h \<Rightarrow> if h = row_hash row then Unchanged else Superseded)"
proof -
  let ?k = "row_key spec rl pv row" and ?v = "new_version spec rl pv code row"
  have fl: "find_live spec ?k t = live_version spec t ?k" by (rule find_live_eq[OF ok]) simp
  show ?thesis
  proof (cases "live_version spec t ?k")
    case None
    with u fl obtain i where i: "insert_version env spec False ?v t = Inr (i, t')" "c = Inserted"
      by (auto simp: upsert_natural_def Let_def rbind_eq_Inr_iff)
    from insert_version_ok[OF ok i(1)] None i(2) show ?thesis
      by (auto simp: live_hash_def)
  next
    case (Some w)
    show ?thesis
    proof (cases "rv_hash w = row_hash row")
      case True
      with u fl Some ok show ?thesis by (auto simp: upsert_natural_def live_hash_def)
    next
      case False
      let ?t1 = "close_version (rl_now rl) (rv_id w) (rv_valid_from ?v) t"
      from u fl Some False obtain i where i: "insert_version env spec False ?v ?t1 = Inr (i, t')" "c = Superseded"
        by (auto simp: upsert_natural_def Let_def rbind_eq_Inr_iff)
      note cl = close_version_ok[OF ok Some]
      from insert_version_ok[OF cl(1) i(1)] cl(2) Some False i(2) show ?thesis
        by (auto simp: live_hash_def)
    qed
  qed
qed

lemma key_hash_component:
  assumes "''row_hash'' \<in> set (key_columns spec)" "version_key spec v = row_key spec rl pv row"
  shows "rv_hash v = row_hash row"
proof -
  from assms(2) have "\<forall>c\<in>set (key_columns spec). version_value v c = key_value_of rl pv row c"
    by (simp add: version_key_def row_key_def)
  with assms(1) have "version_value v ''row_hash'' = key_value_of rl pv row ''row_hash''" by blast
  then show ?thesis by (simp add: version_value_def key_value_of_def)
qed

lemma upsert_content_cases:
  assumes ok: "table_ok spec t" and ct: "spec_key_kind spec = CONTENT"
    and u: "upsert_content env spec rl pv code row t = Inr (c, t')"
  shows "table_ok spec t'
    \<and> live_hash spec t' k = (if k = row_key spec rl pv row then Some (row_hash row) else live_hash spec t k)
    \<and> c = (case live_hash spec t (row_key spec rl pv row) of None \<Rightarrow> Inserted
          | Some h \<Rightarrow> if h = row_hash row then Unchanged else Superseded)
    \<and> version_fits (new_version spec rl pv code row) \<and> row_admitted env spec (new_version spec rl pv code row)"
proof -
  let ?k = "row_key spec rl pv row" and ?v = "new_version spec rl pv code row"
  from u obtain i where i: "insert_version env spec True ?v t = Inr (i, t')"
    "c = (if i \<noteq> None then Inserted else Unchanged)"
    by (auto simp: upsert_content_def rbind_eq_Inr_iff)
  have a: "version_fits ?v \<and> row_admitted env spec ?v" using i(1) by (auto simp: insert_version_def split: if_splits)
  have rh: "''row_hash'' \<in> set (key_columns spec)" using ok ct by (simp add: table_ok_def spec_ok_def)
  have h: "live_version spec t ?k = Some w \<Longrightarrow> rv_hash w = row_hash row" for w
    using key_hash_component[OF rh] live_version_Some by blast
  from insert_version_ok[OF ok i(1)] h i(2) a show ?thesis
    by (cases "live_version spec t ?k") (auto simp: live_hash_def)
qed

definition reg_admitted ::
  "register_env \<Rightarrow> register_spec \<Rightarrow> register_load \<Rightarrow> period_value \<Rightarrow> string \<Rightarrow> register_row \<Rightarrow> bool" where
  "reg_admitted env spec rl pv code row \<longleftrightarrow>
     spec_key_kind spec = CONTENT \<longrightarrow>
       version_fits (new_version spec rl pv code row) \<and> row_admitted env spec (new_version spec rl pv code row)"

lemma upsert_row_cases:
  assumes "table_ok spec t" "upsert_row env spec rl pv code row t = Inr (c, t')"
  shows "table_ok spec t'"
    "live_hash spec t' k = (if k = row_key spec rl pv row then Some (row_hash row) else live_hash spec t k)"
    "c = (case live_hash spec t (row_key spec rl pv row) of None \<Rightarrow> Inserted
          | Some h \<Rightarrow> if h = row_hash row then Unchanged else Superseded)"
  using assms upsert_natural_cases[of spec t env rl pv code row c t' k]
    upsert_content_cases[of spec t env rl pv code row c t' k]
  by (cases "spec_key_kind spec"; simp add: upsert_row_def)+

lemma upsert_row_admitted:
  "upsert_row env spec rl pv code row t = Inr (c, t') \<Longrightarrow> reg_admitted env spec rl pv code row"
  by (auto simp: upsert_row_def upsert_content_def insert_version_def reg_admitted_def rbind_eq_Inr_iff
      split: if_splits)

lemma upsert_row_no_op:
  assumes ok: "table_ok spec t" and a: "reg_admitted env spec rl pv code row"
    and l: "live_hash spec t (row_key spec rl pv row) = Some (row_hash row)"
  shows "upsert_row env spec rl pv code row t = Inr (Unchanged, t)"
proof -
  from l obtain w where w: "live_version spec t (row_key spec rl pv row) = Some w" "rv_hash w = row_hash row"
    by (auto simp: live_hash_def)
  have fl: "find_live spec (row_key spec rl pv row) t = Some w"
    using find_live_eq[OF ok] w(1) by simp
  have c: "\<exists>u\<in>set t. rv_superseded_at u = None \<and> version_key spec u = row_key spec rl pv row"
    using conflict_iff w(1) by (metis option.distinct(1))
  show ?thesis
  proof (cases "spec_key_kind spec")
    case NATURAL
    with fl w(2) show ?thesis by (simp add: upsert_row_def upsert_natural_def)
  next
    case CONTENT
    with a c show ?thesis
      by (simp add: upsert_row_def upsert_content_def insert_version_def reg_admitted_def)
  qed
qed

interpretation registers:
  versioned_upsert "upsert_row env spec rl pv code" "table_ok spec" "live_hash spec"
    "row_key spec rl pv" row_hash "reg_admitted env spec rl pv code"
  for env spec rl pv code
  by unfold_locales
    (auto simp: upsert_row_cases(2) upsert_row_no_op
      dest: upsert_row_cases(1,3) upsert_row_admitted)

section \<open>History\<close>

text \<open>
  Versions are never lost or rewritten: a closed version stays as it is, and a live one may only
  be closed.
\<close>

definition facts_of :: "reg_version \<Rightarrow> reg_version" where
  "facts_of v = v\<lparr>rv_superseded_at := None, rv_valid_to := max_date\<rparr>"

definition evolves :: "reg_version list \<Rightarrow> reg_version list \<Rightarrow> bool" where
  "evolves t t' \<longleftrightarrow> length t \<le> length t' \<and> (\<forall>i<length t. facts_of (t' ! i) = facts_of (t ! i)
     \<and> (rv_superseded_at (t ! i) \<noteq> None \<longrightarrow> t' ! i = t ! i))"

lemma evolves_refl: "evolves t t"
  by (simp add: evolves_def)

lemma evolves_trans: "evolves t u \<Longrightarrow> evolves u v \<Longrightarrow> evolves t v"
  by (auto simp: evolves_def)

lemma evolves_append: "evolves t (t @ [v])"
  by (simp add: evolves_def nth_append)

lemma evolves_close:
  assumes "table_ok spec t" "live_version spec t k = Some u"
  shows "evolves t (close_version now (rv_id u) vf t)"
proof -
  have d: "distinct (map rv_id t)" using assms(1) by (simp add: table_ok_def)
  have "v = u" if "v \<in> set t" "rv_id v = rv_id u" for v
    using d that live_version_Some[OF assms(2)] by (auto simp: distinct_map dest: inj_onD)
  then have "rv_superseded_at v = None" if "v \<in> set t" "rv_id v = rv_id u" for v
    using that live_version_Some[OF assms(2)] by blast
  then show ?thesis
    by (auto simp: evolves_def close_version_def facts_of_def)
qed

lemma insert_version_evolves: "insert_version env spec b v t = Inr (i, t') \<Longrightarrow> evolves t t'"
  by (auto simp: insert_version_def evolves_refl evolves_append split: if_splits)

lemma upsert_row_evolves:
  assumes ok: "table_ok spec t" and u: "upsert_row env spec rl pv code row t = Inr (c, t')"
  shows "evolves t t'"
proof (cases "spec_key_kind spec")
  case CONTENT
  with u show ?thesis
    by (auto simp: upsert_row_def upsert_content_def rbind_eq_Inr_iff dest: insert_version_evolves)
next
  case NATURAL
  let ?k = "row_key spec rl pv row"
  have fl: "find_live spec ?k t = live_version spec t ?k" by (rule find_live_eq[OF ok]) simp
  show ?thesis
  proof (cases "live_version spec t ?k")
    case None
    with NATURAL u fl show ?thesis
      by (auto simp: upsert_row_def upsert_natural_def Let_def rbind_eq_Inr_iff dest: insert_version_evolves)
  next
    case (Some w)
    with NATURAL u fl evolves_close[OF ok Some] show ?thesis
      by (auto simp: upsert_row_def upsert_natural_def Let_def rbind_eq_Inr_iff evolves_refl
          dest!: insert_version_evolves intro: evolves_trans split: if_splits)
  qed
qed

lemma upsert_all_evolves:
  "table_ok spec t \<Longrightarrow> upsert_all (upsert_row env spec rl pv code) rs (n, t) = Inr (n', t') \<Longrightarrow> evolves t t'"
proof (induction rs arbitrary: n t)
  case (Cons r rs)
  then obtain c t1 where u: "upsert_row env spec rl pv code r t = Inr (c, t1)"
    "upsert_all (upsert_row env spec rl pv code) rs (count_outcome c n, t1) = Inr (n', t')"
    by (auto simp: rbind_eq_Inr_iff)
  with Cons.IH[OF registers.keeps_ok[OF Cons.prems(1) u(1)] u(2)] upsert_row_evolves[OF Cons.prems(1) u(1)]
  show ?case by (blast intro: evolves_trans)
qed (simp add: evolves_refl)

section \<open>What a load does\<close>

lemma reg_table_put: "reg_table n (db\<lparr>reg_tables := dict_put m t (reg_tables db)\<rparr>) = (if n = m then t else reg_table n db)"
  by (simp add: reg_table_def)

lemma store_parsed_Inr:
  "store_parsed env spec rl pv code parsed db = Inr (n, db') \<longleftrightarrow>
     (\<exists>db1 t. insert_batch (re_vocabulary env) (batch_of env rl code (row_count parsed)) db = Inr db1
        \<and> upsert_all (upsert_row env spec rl pv code) (pr_rows parsed) (no_tally, reg_table (table_name spec) db) = Inr (n, t)
        \<and> db' = insert_rejected (map (rejected_of rl code) (pr_rejections parsed))
                 (db1\<lparr>reg_tables := dict_put (table_name spec) t (reg_tables db1)\<rparr>))"
  unfolding store_parsed_def rbind_eq_Inr_iff
  by (auto simp: insert_batch_def reg_table_def split: if_splits)

lemma register_load_Inr:
  assumes "register_load_run env spec rl db = (Inr out, db')"
  obtains code pv parsed where
    "resolve_doc_type spec (rl_doc_type rl) = Inr code"
    "period_value_of spec (rl_period_start rl) (rl_period_end rl) = Inr pv"
    "parse_by_format env spec (rl_format rl) (rl_data rl) = Inr parsed" "pr_fatal parsed = None"
    "store_parsed env spec rl pv code parsed db = Inr (ro_tally out, db')"
    "ro_row_count out = length (pr_rows parsed)" "ro_rejected out = length (pr_rejections parsed)"
    "ro_collapsed out = pr_collapsed parsed" "ro_doc_type out = code"
proof -
  obtain code pv parsed where p: "resolve_doc_type spec (rl_doc_type rl) = Inr code"
    "period_value_of spec (rl_period_start rl) (rl_period_end rl) = Inr pv"
    "parse_by_format env spec (rl_format rl) (rl_data rl) = Inr parsed"
    using assms by (auto simp: register_load_run_def rbind_def split: sum.splits)
  with assms have "pr_fatal parsed = None"
    by (auto simp: register_load_run_def split: option.splits sum.splits)
  with p assms show ?thesis
    using that by (auto simp: register_load_run_def row_count_def split: sum.splits)
qed

lemma store_again:
  assumes ok: "table_ok spec (reg_table (table_name spec) db)"
    and first: "store_parsed env spec rl pv code parsed db = Inr (n, db')"
    and d: "distinct (map (row_key spec rl pv) (pr_rows parsed))"
    and same: "\<And>row. row_key spec rl2 pv2 row = row_key spec rl pv row"
      "\<And>row. reg_admitted env spec rl pv code row \<Longrightarrow> reg_admitted env spec rl2 pv2 code2 row"
    and b: "insert_batch (re_vocabulary env) (batch_of env rl2 code2 (row_count parsed)) db' = Inr db1"
  shows "\<exists>db2. store_parsed env spec rl2 pv2 code2 parsed db'
      = Inr (no_tally\<lparr>n_unchanged := length (pr_rows parsed)\<rparr>, db2)
    \<and> (\<forall>m. reg_table m db2 = reg_table m db')"
proof -
  let ?t = "reg_table (table_name spec) db'"
  from first have u: "upsert_all (upsert_row env spec rl pv code) (pr_rows parsed)
      (no_tally, reg_table (table_name spec) db) = Inr (n, ?t)"
    by (auto simp: store_parsed_Inr insert_rejected_def reg_table_def)
  have "\<forall>row\<in>set (pr_rows parsed). reg_admitted env spec rl2 pv2 code2 row
      \<and> live_hash spec ?t (row_key spec rl2 pv2 row) = Some (row_hash row)"
    using registers.upsert_all_each_live[OF ok u d] registers.upsert_all_admitted[OF u] same by auto
  from registers.upsert_all_no_op[OF registers.upsert_all_ok[OF ok u] this, of no_tally]
  have u2: "upsert_all (upsert_row env spec rl2 pv2 code2) (pr_rows parsed) (no_tally, ?t)
      = Inr (no_tally\<lparr>n_unchanged := length (pr_rows parsed)\<rparr>, ?t)"
    by (simp add: no_tally_def)
  note db1 = insert_batch_Inr[OF b, THEN conjunct1]
  have "store_parsed env spec rl2 pv2 code2 parsed db' = Inr (no_tally\<lparr>n_unchanged := length (pr_rows parsed)\<rparr>,
      insert_rejected (map (rejected_of rl2 code2) (pr_rejections parsed))
                 (db1\<lparr>reg_tables := dict_put (table_name spec) ?t (reg_tables db1)\<rparr>))"
    unfolding store_parsed_Inr using b u2 by blast
  moreover have "reg_table m (insert_rejected (map (rejected_of rl2 code2) (pr_rejections parsed))
      (db1\<lparr>reg_tables := dict_put (table_name spec) ?t (reg_tables db1)\<rparr>)) = reg_table m db'" for m
    by (simp add: db1 insert_rejected_def reg_table_def)
  ultimately show ?thesis by blast
qed

lemma parse_distinct:
  assumes "parse_by_format env spec fmt data = Inr parsed" "pr_fatal parsed = None"
  shows "distinct (map row_hash (pr_rows parsed))"
proof (cases "fmt = ''csv''")
  case True
  with assms have "parse_register_csv (re_digest env) spec data = Inr parsed" "pr_ok parsed"
    by (simp_all add: parse_by_format_def pr_ok_def)
  from parse_csv_ok[OF this] show ?thesis using acc_ok_counts by metis
next
  case False
  with assms have p: "parsed = parse_register_ndjson (re_digest env) (re_loads env) (re_repr env) spec data"
    and "pr_ok parsed"
    by (auto simp: parse_by_format_def pr_ok_def split: if_splits)
  then obtain tx where "decode_utf8_sig data = Some tx"
    by (auto simp: parse_register_ndjson_def fatal_not_ok split: option.splits)
  with p have e: "parsed = ndjson_lines (re_digest env) (re_loads env) (re_repr env) spec
      (zip [1..<1 + length (splitlines tx)] (splitlines tx)) False (empty_result, [])"
    by (simp add: parse_register_ndjson_def)
  have "pr_ok (ndjson_lines (re_digest env) (re_loads env) (re_repr env) spec
      (zip [1..<1 + length (splitlines tx)] (splitlines tx)) False (empty_result, []))"
    using \<open>pr_ok parsed\<close> unfolding e .
  from ndjson_lines_ok[OF acc_ok_empty _ this]
  obtain recs k seen where "acc_ok (re_digest env) spec recs k (parsed, seen)"
    unfolding e[symmetric] by auto
  from acc_ok_counts[OF this] show ?thesis by simp
qed

text \<open>In a content-keyed register the rows of one file have distinct keys by themselves.\<close>

lemma row_key_hash:
  assumes "''row_hash'' \<in> set (key_columns spec)" "row_key spec rl pv a = row_key spec rl pv b"
  shows "row_hash a = row_hash b"
proof -
  from assms(2) have "\<forall>c\<in>set (key_columns spec). key_value_of rl pv a c = key_value_of rl pv b c"
    by (simp add: row_key_def)
  with assms(1) have "key_value_of rl pv a ''row_hash'' = key_value_of rl pv b ''row_hash''" by blast
  then show ?thesis by (simp add: key_value_of_def)
qed

lemma content_keys_distinct:
  assumes rh: "''row_hash'' \<in> set (key_columns spec)" and d: "distinct (map row_hash rs)"
  shows "distinct (map (row_key spec rl pv) rs)"
  using d
proof (induction rs)
  case (Cons r rs)
  have "row_key spec rl pv r \<notin> row_key spec rl pv ` set rs"
  proof
    assume "row_key spec rl pv r \<in> row_key spec rl pv ` set rs"
    then obtain q where q: "q \<in> set rs" "row_key spec rl pv r = row_key spec rl pv q" by blast
    from row_key_hash[OF rh q(2)] q(1) Cons.prems show False
      by (metis distinct.simps(2) image_eqI list.simps(9) set_map)
  qed
  moreover have "distinct (map (row_key spec rl pv) rs)" using Cons by simp
  ultimately show ?case unfolding list.map distinct.simps set_map by blast
qed simp

lemma spec_mem_ok: "spec \<in> set register_specs \<Longrightarrow> spec_ok spec"
  using spec_mem_well_formed catalog_scoped by (fastforce simp: spec_ok_def list_all_iff)

section \<open>Properties\<close>

text \<open>
  C12. A register load that succeeds counts every kept row once as inserted, superseded or unchanged;
  leaves the table in order, with at most one live version per key and every version's window open
  forwards; makes the file's last row with a key the live version of that key; leaves every version
  that was there, closing live ones at most; appends one batch, whose row count is the number of
  kept rows, and one rejection per rejected row; and touches no other register.
\<close>

theorem register_load_effect:
  assumes run: "register_load_run env spec rl db = (Inr out, db')"
    and ok: "table_ok spec (reg_table (table_name spec) db)"
  shows "table_ok spec (reg_table (table_name spec) db')
    \<and> tally_total (ro_tally out) = ro_row_count out
    \<and> evolves (reg_table (table_name spec) db) (reg_table (table_name spec) db')
    \<and> (\<exists>b. batches db' = batches db @ [b] \<and> ib_batch_id b = rl_batch rl \<and> ib_row_count b = ro_row_count out)
    \<and> (\<exists>rs. rejected_rows db' = rejected_rows db @ rs \<and> length rs = ro_rejected out
         \<and> (\<forall>r\<in>set rs. rr_batch_id r = rl_batch rl))
    \<and> (\<forall>other. other \<noteq> table_name spec \<longrightarrow> reg_table other db' = reg_table other db)
    \<and> (\<exists>parsed pv. parse_by_format env spec (rl_format rl) (rl_data rl) = Inr parsed
         \<and> (\<forall>k. live_hash spec (reg_table (table_name spec) db') k =
              (case List.find (\<lambda>r. row_key spec rl pv r = k) (rev (pr_rows parsed)) of
                 Some r \<Rightarrow> Some (row_hash r) | None \<Rightarrow> live_hash spec (reg_table (table_name spec) db) k)))"
proof -
  from register_load_Inr[OF run] obtain code pv parsed where
    p: "parse_by_format env spec (rl_format rl) (rl_data rl) = Inr parsed"
    and st: "store_parsed env spec rl pv code parsed db = Inr (ro_tally out, db')"
    and rc: "ro_row_count out = length (pr_rows parsed)" "ro_rejected out = length (pr_rejections parsed)"
    by metis
  from st obtain db1 t where b: "insert_batch (re_vocabulary env) (batch_of env rl code (row_count parsed)) db = Inr db1"
    and u: "upsert_all (upsert_row env spec rl pv code) (pr_rows parsed) (no_tally, reg_table (table_name spec) db) = Inr (ro_tally out, t)"
    and db': "db' = insert_rejected (map (rejected_of rl code) (pr_rejections parsed))
                 (db1\<lparr>reg_tables := dict_put (table_name spec) t (reg_tables db1)\<rparr>)"
    by (auto simp: store_parsed_Inr)
  note db1 = insert_batch_Inr[OF b, THEN conjunct1]
  have tab: "reg_table m db' = (if m = table_name spec then t else reg_table m db)" for m
    by (simp add: db' db1 insert_rejected_def reg_table_def)
  have bt: "\<exists>b. batches db' = batches db @ [b] \<and> ib_batch_id b = rl_batch rl \<and> ib_row_count b = ro_row_count out"
    by (simp add: db' db1 insert_rejected_def batch_of_def rc row_count_def)
  have rj: "\<exists>rs. rejected_rows db' = rejected_rows db @ rs \<and> length rs = ro_rejected out
         \<and> (\<forall>r\<in>set rs. rr_batch_id r = rl_batch rl)"
    by (intro exI[of _ "map (rejected_of rl code) (pr_rejections parsed)"])
       (simp add: db' db1 insert_rejected_def rc rejected_of_def)
  have tot: "tally_total (ro_tally out) = ro_row_count out"
    using registers.upsert_all_total[OF u] by (simp add: no_tally_def tally_total_def rc)
  have tn: "reg_table (table_name spec) db' = t" by (simp add: tab)
  show ?thesis
    unfolding tn using registers.upsert_all_ok[OF ok u] tot upsert_all_evolves[OF ok u] bt rj tab p
      registers.upsert_all_live[OF ok u] by auto
qed

text \<open>A database, an environment and a load for the witnesses.\<close>

definition demo_register_env :: register_env where
  "demo_register_env = \<lparr>re_digest = id, re_bytes_digest = id, re_loads = (\<lambda>s. None), re_repr = (\<lambda>j. []),
     re_vocabulary = [(''Document_Type'', ''TRIAL_BALANCE''), (''Source_Stream'', ''B''), (''Batch_Status'', ''READY'')],
     re_checks = (\<lambda>t g p c vs. map_of vs ''dr_cr'' \<noteq> Some (VText ''XX''))\<rparr>"

definition demo_register_db :: register_db where
  "demo_register_db = \<lparr>batches = [], quarantined = [], rejected_rows = [], reg_tables = []\<rparr>"

definition trial_balance_csv :: "string list \<Rightarrow> bytes" where
  "trial_balance_csv ls = crlf_free (
     ''gl_code,account_description,opening_balance,closing_balance,dr_cr,gst_treatment'' # ls)"

definition demo_load :: "nat \<Rightarrow> nat \<Rightarrow> string list \<Rightarrow> register_load" where
  "demo_load b y ls = \<lparr>rl_entity = 1, rl_gstin = ''29ABCDE1234F1Z5'', rl_ingest = b, rl_data = trial_balance_csv ls,
     rl_period_start = Date y 4 1, rl_period_end = Date (y + 1) 3 31, rl_doc_type = None, rl_run = b,
     rl_format = ''csv'', rl_batch = b, rl_now = b\<rparr>"

lemma demo_table_ok: "table_ok spec_trial_balance (reg_table (table_name spec_trial_balance) demo_register_db)"
proof -
  have "spec_trial_balance \<in> set register_specs" by (simp add: register_specs_def)
  from spec_mem_ok[OF this] show ?thesis
    by (simp add: table_ok_def reg_table_def demo_register_db_def live_versions_def)
qed

theorem register_load_effect_witness:
  "\<exists>out db'. register_load_run demo_register_env spec_trial_balance
       (demo_load 7 2026 [''1000,Cash,0,5,DR,'', ''2000,,0,5,CR,'']) demo_register_db = (Inr out, db')
     \<and> tally_total (ro_tally out) = ro_row_count out
     \<and> (\<exists>b. batches db' = [b] \<and> ib_row_count b = ro_row_count out)"
proof -
  let ?r = "register_load_run demo_register_env spec_trial_balance
       (demo_load 7 2026 [''1000,Cash,0,5,DR,'', ''2000,,0,5,CR,'']) demo_register_db"
  have "case fst ?r of Inr out \<Rightarrow> ro_row_count out = 1 \<and> ro_rejected out = 1 | Inl e \<Rightarrow> False" by code_simp
  then obtain out where "fst ?r = Inr out" by (cases "fst ?r") auto
  then have r: "?r = (Inr out, snd ?r)" by (metis prod.collapse)
  note e = register_load_effect[OF r demo_table_ok]
  have "tally_total (ro_tally out) = ro_row_count out"
    "\<exists>b. batches (snd ?r) = batches demo_register_db @ [b] \<and> ib_row_count b = ro_row_count out"
    using e by blast+
  moreover have "batches demo_register_db = []" by (simp add: demo_register_db_def)
  ultimately show ?thesis using r by (metis append_Nil)
qed

lemma new_version_frame:
  "new_version spec (rl\<lparr>rl_batch := b, rl_run := r, rl_ingest := g, rl_now := now\<rparr>) pv code row
     = (new_version spec rl pv code row)\<lparr>rv_batch := b, rv_ingest := g\<rparr>"
  by (simp add: new_version_def)

lemma version_fits_frame [simp]: "version_fits (v\<lparr>rv_batch := b, rv_ingest := g\<rparr>) = version_fits v"
  by (simp add: version_fits_def)

lemma row_admitted_frame [simp]: "row_admitted env spec (v\<lparr>rv_batch := b, rv_ingest := g\<rparr>) = row_admitted env spec v"
proof -
  have "version_value (v\<lparr>rv_batch := b, rv_ingest := g\<rparr>) c = version_value v c" for c
    unfolding version_value_def by (simp del: if_split)
  then show ?thesis by (simp add: row_admitted_def)
qed

lemma register_load_Inr_intro:
  assumes "resolve_doc_type spec (rl_doc_type rl) = Inr code"
    "period_value_of spec (rl_period_start rl) (rl_period_end rl) = Inr pv"
    "parse_by_format env spec (rl_format rl) (rl_data rl) = Inr parsed" "pr_fatal parsed = None"
    "store_parsed env spec rl pv code parsed db = Inr (n, db')"
  shows "register_load_run env spec rl db = (Inr \<lparr>ro_doc_type = code, ro_table = table_name spec,
      ro_batch = rl_batch rl, ro_tally = n, ro_rejected = length (pr_rejections parsed),
      ro_row_count = row_count parsed, ro_collapsed = pr_collapsed parsed\<rparr>, db')"
  using assms by (simp add: register_load_run_def)

text \<open>
  C35. Re-exporting a file is idempotent: when no two of its rows share a key, which is always so for a
  content-keyed register, loading it again for the same registration and period, in a new run and
  a new batch, inserts nothing, supersedes nothing, counts every row as unchanged and leaves every
  register as it was.
\<close>

theorem reload_is_idempotent:
  assumes first: "register_load_run env spec rl db = (Inr out, db')"
    and ok: "table_ok spec (reg_table (table_name spec) db)"
    and keys: "spec_key_kind spec = CONTENT \<or>
      (\<forall>parsed pv. parse_by_format env spec (rl_format rl) (rl_data rl) = Inr parsed
         \<longrightarrow> distinct (map (row_key spec rl pv) (pr_rows parsed)))"
    and again: "rl2 = rl\<lparr>rl_batch := b, rl_run := r, rl_ingest := g, rl_now := now\<rparr>"
    and fresh_batch: "\<forall>c\<in>set (batches db'). ib_batch_id c \<noteq> b"
  shows "\<exists>out2 db2. register_load_run env spec rl2 db' = (Inr out2, db2)
    \<and> ro_tally out2 = \<lparr>n_inserted = 0, n_unchanged = ro_row_count out, n_superseded = 0\<rparr>
    \<and> (\<forall>m. reg_table m db2 = reg_table m db')"
proof -
  from register_load_Inr[OF first] obtain code pv parsed where
    p: "resolve_doc_type spec (rl_doc_type rl) = Inr code"
      "period_value_of spec (rl_period_start rl) (rl_period_end rl) = Inr pv"
      "parse_by_format env spec (rl_format rl) (rl_data rl) = Inr parsed" "pr_fatal parsed = None"
    and st: "store_parsed env spec rl pv code parsed db = Inr (ro_tally out, db')"
    and rc: "ro_row_count out = length (pr_rows parsed)" by metis
  have d: "distinct (map (row_key spec rl pv) (pr_rows parsed))"
    using keys
  proof
    assume "spec_key_kind spec = CONTENT"
    with ok have "''row_hash'' \<in> set (key_columns spec)" by (simp add: table_ok_def spec_ok_def)
    then show ?thesis using content_keys_distinct parse_distinct[OF p(3,4)] by blast
  qed (use p(3) in blast)
  have k: "row_key spec rl2 pv row = row_key spec rl pv row" for row
    unfolding row_key_def by (simp add: key_value_of_def again)
  have a: "reg_admitted env spec rl2 pv code row" if "reg_admitted env spec rl pv code row" for row
    using that by (simp add: reg_admitted_def again new_version_frame row_admitted_frame)
  from st obtain db1 where "insert_batch (re_vocabulary env) (batch_of env rl code (row_count parsed)) db = Inr db1"
    by (auto simp: store_parsed_Inr)
  then have "\<exists>db3. insert_batch (re_vocabulary env) (batch_of env rl2 code (row_count parsed)) db' = Inr db3"
    using fresh_batch by (auto simp: insert_batch_def batch_of_def again split: if_splits)
  then obtain db3 where b: "insert_batch (re_vocabulary env) (batch_of env rl2 code (row_count parsed)) db' = Inr db3" ..
  from store_again[OF ok st d k a b] obtain db2 where
    s2: "store_parsed env spec rl2 pv code parsed db' = Inr (no_tally\<lparr>n_unchanged := length (pr_rows parsed)\<rparr>, db2)"
    and t2: "\<forall>m. reg_table m db2 = reg_table m db'" by blast
  have p2: "resolve_doc_type spec (rl_doc_type rl2) = Inr code"
    "period_value_of spec (rl_period_start rl2) (rl_period_end rl2) = Inr pv"
    "parse_by_format env spec (rl_format rl2) (rl_data rl2) = Inr parsed"
    using p by (simp_all add: again)
  from register_load_Inr_intro[OF p2 p(4) s2] t2 rc show ?thesis by (simp add: no_tally_def)
qed

lemma demo_load_runs:
  "\<exists>out db'. register_load_run demo_register_env spec_trial_balance
      (demo_load 7 2026 [''1000,Cash,0,5,DR,'', ''2000,Bank,0,5,CR,'']) demo_register_db = (Inr out, db')
    \<and> ro_row_count out = 2 \<and> map ib_batch_id (batches db') = [7]"
proof -
  let ?r = "register_load_run demo_register_env spec_trial_balance
       (demo_load 7 2026 [''1000,Cash,0,5,DR,'', ''2000,Bank,0,5,CR,'']) demo_register_db"
  have "case ?r of (Inr out, db') \<Rightarrow> ro_row_count out = 2 \<and> map ib_batch_id (batches db') = [7] | (Inl e, db') \<Rightarrow> False"
    by code_simp
  then show ?thesis by (cases ?r; cases "fst ?r") auto
qed

lemma demo_load_keys:
  assumes "parse_by_format demo_register_env spec_trial_balance ''csv''
      (trial_balance_csv [''1000,Cash,0,5,DR,'', ''2000,Bank,0,5,CR,'']) = Inr parsed"
  shows "distinct (map (row_key spec_trial_balance (demo_load 7 2026 ls) pv) (pr_rows parsed))"
proof -
  have "case parse_by_format demo_register_env spec_trial_balance ''csv''
      (trial_balance_csv [''1000,Cash,0,5,DR,'', ''2000,Bank,0,5,CR,'']) of
      Inr p \<Rightarrow> map (\<lambda>r. row_value r ''gl_code'') (pr_rows p) = [VText ''1000'', VText ''2000''] | Inl e \<Rightarrow> False"
    by code_simp
  with assms have "map (\<lambda>r. row_value r ''gl_code'') (pr_rows parsed) = [VText ''1000'', VText ''2000'']" by simp
  then obtain a b where "pr_rows parsed = [a, b]" "row_value a ''gl_code'' = VText ''1000''"
    "row_value b ''gl_code'' = VText ''2000''" by auto
  then show ?thesis by (simp add: row_key_def spec_trial_balance_def key_value_of_def)
qed

theorem reload_is_idempotent_witness:
  "\<exists>out db' out2 db2. register_load_run demo_register_env spec_trial_balance
      (demo_load 7 2026 [''1000,Cash,0,5,DR,'', ''2000,Bank,0,5,CR,'']) demo_register_db = (Inr out, db')
    \<and> register_load_run demo_register_env spec_trial_balance
      (demo_load 7 2026 [''1000,Cash,0,5,DR,'', ''2000,Bank,0,5,CR,'']
         \<lparr>rl_batch := 8, rl_run := 8, rl_ingest := 8, rl_now := 8\<rparr>) db' = (Inr out2, db2)
    \<and> ro_tally out2 = \<lparr>n_inserted = 0, n_unchanged = 2, n_superseded = 0\<rparr>"
proof -
  let ?rl = "demo_load 7 2026 [''1000,Cash,0,5,DR,'', ''2000,Bank,0,5,CR,'']"
  obtain out db' where r: "register_load_run demo_register_env spec_trial_balance ?rl demo_register_db = (Inr out, db')"
    "ro_row_count out = 2" "map ib_batch_id (batches db') = [7]"
    using demo_load_runs by (elim exE conjE)
  have k: "spec_key_kind spec_trial_balance = CONTENT \<or> (\<forall>parsed pv.
      parse_by_format demo_register_env spec_trial_balance (rl_format ?rl) (rl_data ?rl) = Inr parsed
         \<longrightarrow> distinct (map (row_key spec_trial_balance ?rl pv) (pr_rows parsed)))"
    using demo_load_keys by (simp add: demo_load_def)
  have b: "\<forall>c\<in>set (batches db'). ib_batch_id c \<noteq> 8" using r(3) by auto
  from reload_is_idempotent[OF r(1) demo_table_ok k refl b, of 8 8 8] r show ?thesis by metis
qed

text \<open>
  The idempotency the loader promises for every re-export does not hold for a natural-keyed file
  that has the same key on two rows with different content: each load of the unchanged file closes
  two versions and inserts two.
\<close>

theorem same_key_twice_never_settles:
  assumes first: "register_load_run env spec rl db = (Inr out, db')"
    and ok: "table_ok spec (reg_table (table_name spec) db)"
    and two: "parse_by_format env spec (rl_format rl) (rl_data rl) = Inr parsed" "pr_rows parsed = [x, y]"
      "\<forall>pv. row_key spec rl pv x = row_key spec rl pv y" "row_hash x \<noteq> row_hash y"
    and again: "rl2 = rl\<lparr>rl_batch := b, rl_run := r, rl_ingest := g, rl_now := now\<rparr>"
      "register_load_run env spec rl2 db' = (Inr out2, db2)"
  shows "n_superseded (ro_tally out2) = 2 \<and> n_unchanged (ro_tally out2) = 0"
proof -
  from register_load_Inr[OF first] two(1) obtain code pv where
    p: "period_value_of spec (rl_period_start rl) (rl_period_end rl) = Inr pv"
    and st: "store_parsed env spec rl pv code parsed db = Inr (ro_tally out, db')"
    by (metis sum.inject(2))
  have q: "rl_period_start rl2 = rl_period_start rl" "rl_period_end rl2 = rl_period_end rl"
    "rl_format rl2 = rl_format rl" "rl_data rl2 = rl_data rl" by (simp_all add: again(1))
  from register_load_Inr[OF again(2)] two(1) p obtain code2 where
    st2: "store_parsed env spec rl2 pv code2 parsed db' = Inr (ro_tally out2, db2)"
    unfolding q by (metis sum.inject(2))
  let ?t = "reg_table (table_name spec) db'"
  from st have u: "upsert_all (upsert_row env spec rl pv code) [x, y] (no_tally, reg_table (table_name spec) db)
      = Inr (ro_tally out, ?t)"
    unfolding store_parsed_Inr two(2) by (auto simp: insert_rejected_def reg_table_def)
  from st2 obtain t2 where u2: "upsert_all (upsert_row env spec rl2 pv code2) [x, y] (no_tally, ?t) = Inr (ro_tally out2, t2)"
    unfolding store_parsed_Inr two(2) by auto
  have t: "table_ok spec ?t" by (rule registers.upsert_all_ok[OF ok u])
  have k: "row_key spec rl2 pv row = row_key spec rl pv row" for row
    unfolding row_key_def by (simp add: key_value_of_def again(1))
  have live: "live_hash spec ?t (row_key spec rl2 pv x) = Some (row_hash y)"
    unfolding registers.upsert_all_live[OF ok u] k using two(3) by simp
  from u2 obtain c t1 d where v: "upsert_row env spec rl2 pv code2 x ?t = Inr (c, t1)"
    "upsert_row env spec rl2 pv code2 y t1 = Inr (d, t2)" "ro_tally out2 = count_outcome d (count_outcome c no_tally)"
    by (auto simp: rbind_eq_Inr_iff)
  have "c = Superseded"
    using registers.outcome_of[OF t v(1)] live two(4) by simp
  moreover have "live_hash spec t1 (row_key spec rl2 pv y) = Some (row_hash x)"
    using registers.now_live[OF t v(1)] two(3) k by simp
  then have "d = Superseded"
    using registers.outcome_of[OF registers.keeps_ok[OF t v(1)] v(2)] two(4) by simp
  ultimately show ?thesis by (simp add: v(3) count_outcome_def no_tally_def)
qed

theorem same_key_twice_never_settles_witness:
  "\<exists>out2 db2. register_load_run demo_register_env spec_trial_balance
      (demo_load 7 2026 [''1000,Cash,0,5,DR,'', ''1000,Cash,0,6,DR,'']
         \<lparr>rl_batch := 8, rl_run := 8, rl_ingest := 8, rl_now := 8\<rparr>)
      (snd (register_load_run demo_register_env spec_trial_balance
        (demo_load 7 2026 [''1000,Cash,0,5,DR,'', ''1000,Cash,0,6,DR,'']) demo_register_db)) = (Inr out2, db2)
    \<and> n_superseded (ro_tally out2) = 2"
proof -
  let ?rl = "demo_load 7 2026 [''1000,Cash,0,5,DR,'', ''1000,Cash,0,6,DR,'']"
  let ?rl2 = "?rl\<lparr>rl_batch := 8, rl_run := 8, rl_ingest := 8, rl_now := 8\<rparr>"
  let ?r = "register_load_run demo_register_env spec_trial_balance ?rl demo_register_db"
  let ?q = "register_load_run demo_register_env spec_trial_balance ?rl2 (snd ?r)"
  let ?p = "parse_by_format demo_register_env spec_trial_balance (rl_format ?rl) (rl_data ?rl)"
  have "case ?r of (Inr out, db') \<Rightarrow> True | (Inl e, db') \<Rightarrow> False" by code_simp
  then obtain out where r: "?r = (Inr out, snd ?r)" by (cases ?r; cases "fst ?r") auto
  have "case ?q of (Inr out, db') \<Rightarrow> True | (Inl e, db') \<Rightarrow> False" by code_simp
  then obtain out2 db2 where q: "?q = (Inr out2, db2)" by (cases ?q; cases "fst ?q") auto
  have "case ?p of Inr p \<Rightarrow> map (\<lambda>r. row_value r ''gl_code'') (pr_rows p) = [VText ''1000'', VText ''1000'']
      \<and> distinct (map row_hash (pr_rows p)) | Inl e \<Rightarrow> False" by code_simp
  then obtain p where p: "?p = Inr p" "map (\<lambda>r. row_value r ''gl_code'') (pr_rows p) = [VText ''1000'', VText ''1000'']"
    "distinct (map row_hash (pr_rows p))" by (cases ?p) auto
  from p(2) obtain x y where xy: "pr_rows p = [x, y]" "row_value x ''gl_code'' = VText ''1000''"
    "row_value y ''gl_code'' = VText ''1000''" by auto
  have k: "\<forall>pv. row_key spec_trial_balance ?rl pv x = row_key spec_trial_balance ?rl pv y"
    using xy(2,3) by (simp add: row_key_def spec_trial_balance_def key_value_of_def)
  have h: "row_hash x \<noteq> row_hash y" using p(3) xy(1) by simp
  from same_key_twice_never_settles[OF r demo_table_ok p(1) xy(1) k h refl q] q show ?thesis by metis
qed

text \<open>
  The two annual registers whose key leaves out the year lose a year. When the trial balance, or
  the balance sheet, of one financial year is loaded and its lines are sent again for another year,
  the load succeeds and announces its batch with the number of lines, but every line counts as
  unchanged and no version is written for the new year: the register still holds the other year.
\<close>

theorem annual_register_loses_year:
  assumes spec: "spec = spec_trial_balance \<or> spec = spec_balance_sheet"
    and first: "register_load_run env spec rl db = (Inr out, db')"
    and ok: "table_ok spec (reg_table (table_name spec) db)"
    and keys: "\<forall>parsed pv. parse_by_format env spec (rl_format rl) (rl_data rl) = Inr parsed
         \<longrightarrow> distinct (map (row_key spec rl pv) (pr_rows parsed))"
    and other_year: "rl2 = rl\<lparr>rl_period_start := ps, rl_period_end := pe, rl_batch := b, rl_run := r,
        rl_ingest := g, rl_now := now\<rparr>"
    and second: "register_load_run env spec rl2 db' = (Inr out2, db2)"
  shows "ro_tally out2 = \<lparr>n_inserted = 0, n_unchanged = ro_row_count out2, n_superseded = 0\<rparr>
    \<and> ro_row_count out2 = ro_row_count out
    \<and> reg_table (table_name spec) db2 = reg_table (table_name spec) db'"
proof -
  from register_load_Inr[OF first] obtain code pv parsed where
    p: "parse_by_format env spec (rl_format rl) (rl_data rl) = Inr parsed"
    and st: "store_parsed env spec rl pv code parsed db = Inr (ro_tally out, db')"
    and rc: "ro_row_count out = length (pr_rows parsed)" by metis
  have q: "rl_format rl2 = rl_format rl" "rl_data rl2 = rl_data rl" by (simp_all add: other_year)
  from register_load_Inr[OF second] p obtain code2 pv2 where
    st2: "store_parsed env spec rl2 pv2 code2 parsed db' = Inr (ro_tally out2, db2)"
    and rc2: "ro_row_count out2 = length (pr_rows parsed)"
    unfolding q by (metis sum.inject(2))
  have d: "distinct (map (row_key spec rl pv) (pr_rows parsed))" using keys p by blast
  have "set (key_columns spec) \<inter> {''tax_period'', ''fy'', ''row_hash''} = {}" and nat: "spec_key_kind spec = NATURAL"
    using spec by (auto simp: spec_trial_balance_def spec_balance_sheet_def)
  then have k: "row_key spec rl2 pv2 row = row_key spec rl pv row" for row
    unfolding row_key_def by (intro map_cong) (auto simp: key_value_of_def other_year)
  have a: "reg_admitted env spec rl2 pv2 code2 row" for row
    using nat by (simp add: reg_admitted_def)
  from st2 obtain db1 where b: "insert_batch (re_vocabulary env) (batch_of env rl2 code2 (row_count parsed)) db' = Inr db1"
    by (auto simp: store_parsed_Inr)
  from store_again[OF ok st d k a b] st2 rc rc2 show ?thesis by (auto simp: no_tally_def)
qed

theorem annual_register_loses_year_witness:
  "let rl = demo_load 7 2026 [''1000,Cash,0,5,DR,'', ''2000,Bank,0,5,CR,''];
       db1 = snd (register_load_run demo_register_env spec_trial_balance rl demo_register_db);
       db2 = snd (register_load_run demo_register_env spec_trial_balance
         (rl\<lparr>rl_period_start := Date 2027 4 1, rl_period_end := Date 2028 3 31, rl_batch := 8, rl_run := 8,
            rl_ingest := 8, rl_now := 8\<rparr>) db1)
   in map rv_period (reg_table ''trial_balance'' db1) = [PYear ''2026-27'', PYear ''2026-27'']
      \<and> reg_table ''trial_balance'' db2 = reg_table ''trial_balance'' db1"
proof -
  let ?rl = "demo_load 7 2026 [''1000,Cash,0,5,DR,'', ''2000,Bank,0,5,CR,'']"
  let ?r = "register_load_run demo_register_env spec_trial_balance ?rl demo_register_db"
  let ?rl2 = "?rl\<lparr>rl_period_start := Date 2027 4 1, rl_period_end := Date 2028 3 31, rl_batch := 8,
      rl_run := 8, rl_ingest := 8, rl_now := 8\<rparr>"
  let ?q = "register_load_run demo_register_env spec_trial_balance ?rl2 (snd ?r)"
  have 1: "map rv_period (reg_table ''trial_balance'' (snd ?r)) = [PYear ''2026-27'', PYear ''2026-27'']" by code_simp
  have "case ?r of (Inr out, db') \<Rightarrow> True | (Inl e, db') \<Rightarrow> False" by code_simp
  then obtain out where r: "?r = (Inr out, snd ?r)" by (cases ?r; cases "fst ?r") auto
  have "case ?q of (Inr out, db') \<Rightarrow> True | (Inl e, db') \<Rightarrow> False" by code_simp
  then obtain out2 where q: "?q = (Inr out2, snd ?q)" by (cases ?q; cases "fst ?q") auto
  have k: "\<forall>parsed pv. parse_by_format demo_register_env spec_trial_balance (rl_format ?rl) (rl_data ?rl) = Inr parsed
         \<longrightarrow> distinct (map (row_key spec_trial_balance ?rl pv) (pr_rows parsed))"
    using demo_load_keys by (simp add: demo_load_def)
  have n: "table_name spec_trial_balance = ''trial_balance''" by (simp add: spec_trial_balance_def)
  have "reg_table ''trial_balance'' (snd ?q) = reg_table ''trial_balance'' (snd ?r)"
    using annual_register_loses_year[OF disjI1[OF refl] r demo_table_ok k refl q] unfolding n by (elim conjE)
  with 1 show ?thesis unfolding Let_def by (rule conjI)
qed

text \<open>
  A register load that fails writes no row: no batch, no version and no rejection. The one thing it
  may leave is the verdict on a file that could not be read as rows, and then the error is
  \<open>ValidationRejected\<close> with the recorded reason.
\<close>

theorem failed_register_load:
  assumes "register_load_run env spec rl db = (Inl e, db')"
  shows "batches db' = batches db \<and> rejected_rows db' = rejected_rows db \<and> reg_tables db' = reg_tables db
    \<and> (db' = db \<or> (\<exists>m. e = ValidationRejected m
         \<and> (\<exists>q\<in>set (quarantined db'). qa_ingest_id q = rl_ingest rl \<and> qa_reason q = (if m = [] then ''unknown'' else m))))"
proof (cases "db' = db")
  case False
  from assms False obtain m q where q: "upsert_quarantine (re_vocabulary env) q db = Inr db'"
    "e = ValidationRejected m" "qa_ingest_id q = rl_ingest rl" "qa_reason q = (if m = [] then ''unknown'' else m)"
    unfolding register_load_run_def by (auto split: sum.splits option.splits)
  have "batches db' = batches db \<and> rejected_rows db' = rejected_rows db \<and> reg_tables db' = reg_tables db"
    using q(1) by (auto simp: upsert_quarantine_def split: if_splits)
  with upsert_quarantine_Inr[OF q(1)] q show ?thesis by metis
qed simp

theorem failed_register_load_witness:
  "\<exists>e db'. register_load_run demo_register_env spec_trial_balance (demo_load 7 2026 []) demo_register_db = (Inl e, db')
     \<and> batches db' = [] \<and> map qa_reason (quarantined db') = [''file contains no data rows'']"
proof -
  let ?r = "register_load_run demo_register_env spec_trial_balance (demo_load 7 2026 []) demo_register_db"
  have c: "case ?r of (Inl e, db') \<Rightarrow> map qa_reason (quarantined db') = [''file contains no data rows''] | (Inr e, db') \<Rightarrow> False"
    by code_simp
  then obtain e where r: "?r = (Inl e, snd ?r)" by (cases ?r; cases "fst ?r") auto
  have "batches (snd ?r) = batches demo_register_db"
    using failed_register_load[OF r] by (elim conjE)
  moreover have "batches demo_register_db = []" by (simp add: demo_register_db_def)
  moreover have "map qa_reason (quarantined (snd ?r)) = [''file contains no data rows'']"
    using c by (subst (asm) r) simp
  ultimately show ?thesis using r by metis
qed

lemma upsert_inserts_admitted:
  assumes ok: "table_ok spec t" and u: "upsert_row env spec rl pv code row t = Inr (c, t')"
    and n: "live_hash spec t (row_key spec rl pv row) = None"
  shows "row_admitted env spec (new_version spec rl pv code row)"
proof (cases "spec_key_kind spec")
  case CONTENT
  with upsert_row_admitted[OF u] show ?thesis by (simp add: reg_admitted_def)
next
  case NATURAL
  have "find_live spec (row_key spec rl pv row) t = None"
    using find_live_eq[OF ok] n by (simp add: live_hash_def)
  with NATURAL u show ?thesis
    by (auto simp: upsert_row_def upsert_natural_def Let_def rbind_eq_Inr_iff insert_version_def split: if_splits)
qed

lemma upsert_all_new_admitted:
  assumes "table_ok spec t" "upsert_all (upsert_row env spec rl pv code) rs (n, t) = Inr (n', t')"
    and "\<forall>r\<in>set rs. live_hash spec t (row_key spec rl pv r) = None" "distinct (map (row_key spec rl pv) rs)"
  shows "\<forall>r\<in>set rs. row_admitted env spec (new_version spec rl pv code r)"
  using assms
proof (induction rs arbitrary: n t)
  case (Cons r rs)
  then obtain c t1 where u: "upsert_row env spec rl pv code r t = Inr (c, t1)"
    "upsert_all (upsert_row env spec rl pv code) rs (count_outcome c n, t1) = Inr (n', t')"
    by (auto simp: rbind_eq_Inr_iff)
  have "\<forall>q\<in>set rs. row_key spec rl pv q \<noteq> row_key spec rl pv r"
    using Cons.prems(4) by (metis distinct.simps(2) image_eqI list.simps(9) set_map)
  then have "\<forall>q\<in>set rs. live_hash spec t1 (row_key spec rl pv q) = None"
    using registers.others_keep[OF Cons.prems(1) u(1)] Cons.prems(3) by simp
  from Cons.IH[OF registers.keeps_ok[OF Cons.prems(1) u(1)] u(2) this] Cons.prems(4)
  have "\<forall>q\<in>set rs. row_admitted env spec (new_version spec rl pv code q)" by simp
  moreover have "row_admitted env spec (new_version spec rl pv code r)"
    using upsert_inserts_admitted[OF Cons.prems(1) u(1)] Cons.prems(3) by simp
  ultimately show ?case by simp
qed simp

text \<open>
  Rejection is per row only for what the parser checks. A row the parser keeps and the table refuses,
  one value out of its domain, fails the whole file: nothing of it is loaded, no rejection is recorded
  and no verdict is written, however many good rows stand beside it.
\<close>

theorem domain_violation_fails_file:
  assumes p: "parse_by_format env spec (rl_format rl) (rl_data rl) = Inr parsed" "pr_fatal parsed = None"
    and sc: "resolve_doc_type spec (rl_doc_type rl) = Inr code"
      "period_value_of spec (rl_period_start rl) (rl_period_end rl) = Inr pv"
    and new: "spec_ok spec" "reg_table (table_name spec) db = []" "distinct (map (row_key spec rl pv) (pr_rows parsed))"
    and bad: "row \<in> set (pr_rows parsed)" "\<not> row_admitted env spec (new_version spec rl pv code row)"
  shows "\<exists>e. register_load_run env spec rl db = (Inl e, db)"
proof (cases "store_parsed env spec rl pv code parsed db")
  case (Inl e)
  with p sc show ?thesis by (simp add: register_load_run_def)
next
  case (Inr y)
  obtain n db' where "store_parsed env spec rl pv code parsed db = Inr (n, db')" using Inr by (cases y) simp
  then obtain t where u: "upsert_all (upsert_row env spec rl pv code) (pr_rows parsed) (no_tally, []) = Inr (n, t)"
    unfolding store_parsed_Inr new(2) by auto
  have "table_ok spec []" using new(1) by (simp add: table_ok_def live_versions_def)
  moreover have "\<forall>r\<in>set (pr_rows parsed). live_hash spec [] (row_key spec rl pv r) = None"
    by (simp add: live_hash_def live_version_def live_versions_def)
  ultimately have "row_admitted env spec (new_version spec rl pv code row)"
    using upsert_all_new_admitted[OF _ u _ new(3)] bad(1) by blast
  with bad(2) show ?thesis by blast
qed

theorem domain_violation_fails_file_witness:
  "\<exists>e. register_load_run demo_register_env spec_trial_balance
      (demo_load 7 2026 [''1000,Cash,0,5,DR,'', ''2000,Bank,0,5,XX,'']) demo_register_db = (Inl e, demo_register_db)"
proof -
  let ?rl = "demo_load 7 2026 [''1000,Cash,0,5,DR,'', ''2000,Bank,0,5,XX,'']"
  let ?p = "parse_by_format demo_register_env spec_trial_balance (rl_format ?rl) (rl_data ?rl)"
  let ?ok = "row_admitted demo_register_env spec_trial_balance
      \<circ> new_version spec_trial_balance ?rl (PYear ''2026-27'') ''TRIAL_BALANCE''"
  have "case ?p of Inr p \<Rightarrow> pr_fatal p = None
      \<and> map (\<lambda>r. row_value r ''gl_code'') (pr_rows p) = [VText ''1000'', VText ''2000'']
      \<and> map ?ok (pr_rows p) = [True, False] | Inl e \<Rightarrow> False" by code_simp
  then obtain p where p: "?p = Inr p" "pr_fatal p = None"
    "map (\<lambda>r. row_value r ''gl_code'') (pr_rows p) = [VText ''1000'', VText ''2000'']"
    "map ?ok (pr_rows p) = [True, False]" by (cases ?p) auto
  from p(3,4) obtain x y where xy: "pr_rows p = [x, y]" "row_value x ''gl_code'' = VText ''1000''"
    "row_value y ''gl_code'' = VText ''2000''" "\<not> ?ok y" by auto
  have d: "distinct (map (row_key spec_trial_balance ?rl (PYear ''2026-27'')) (pr_rows p))"
    using xy(1-3) by (simp add: row_key_def spec_trial_balance_def key_value_of_def)
  have "resolve_doc_type spec_trial_balance (rl_doc_type ?rl) = Inr ''TRIAL_BALANCE''"
    "period_value_of spec_trial_balance (rl_period_start ?rl) (rl_period_end ?rl) = Inr (PYear ''2026-27'')"
    by code_simp+
  moreover have "spec_ok spec_trial_balance"
    using demo_table_ok by (simp add: table_ok_def)
  moreover have "reg_table (table_name spec_trial_balance) demo_register_db = []"
    by (simp add: reg_table_def demo_register_db_def)
  moreover have "y \<in> set (pr_rows p)" "\<not> row_admitted demo_register_env spec_trial_balance
      (new_version spec_trial_balance ?rl (PYear ''2026-27'') ''TRIAL_BALANCE'' y)"
    using xy(1,4) by simp_all
  ultimately show ?thesis
    by (intro domain_violation_fails_file[OF p(1,2) _ _ _ _ d])
qed

end
