(* ===== verification/SalesParse.thy ===== *)
theory SalesParse
  imports RegisterParse "HOL-Library.Multiset" "HOL-Library.Sublist"
begin

text \<open>
  The parsing half of \<open>src/src/silver/sales_register.py\<close>: a flat export, one row per invoice
  line with the header repeated, becomes invoices with their lines. Rows are dictionaries
  (\<open>Csv\<close>), so \<open>(row.get(c) or "").strip()\<close> is \<open>field row c\<close>. The digest
  is a parameter, as in \<open>RegisterParse\<close>, whose \<open>hash_values\<close> is this module's
  \<open>_hash\<close> too. \<open>_RowError\<close> is its text.
\<close>

section \<open>Columns\<close>

definition header_fields :: "string list" where
  "header_fields = [''invoice_no'', ''invoice_date'', ''customer_gstin'', ''invoice_type'', ''supply_type'',
     ''place_of_supply'', ''reverse_charge'', ''currency'', ''trade_discount'', ''freight'', ''packing'',
     ''insurance'', ''invoice_taxable_value'', ''invoice_cgst'', ''invoice_sgst'', ''invoice_igst'',
     ''invoice_cess'', ''invoice_total_value'', ''irn'', ''ewb_no'']"

definition line_fields :: "string list" where
  "line_fields = [''line_number'', ''hsn_sac'', ''description'', ''qty'', ''uom'', ''unit_price'',
     ''taxable_value'', ''gst_rate'', ''cgst'', ''sgst'', ''igst'', ''cess'', ''total_value'']"

definition required_columns :: "string list" where
  "required_columns = header_fields @ line_fields"

definition required_values :: "string list" where
  "required_values = [''invoice_no'', ''invoice_date'', ''invoice_type'', ''line_number'', ''taxable_value'']"

section \<open>Data\<close>

record sales_line =
  sl_number :: int
  sl_hsn_sac :: "string option"
  sl_description :: "string option"
  sl_qty :: "decimal option"
  sl_uom :: "string option"
  sl_unit_price :: "decimal option"
  sl_taxable_value :: decimal
  sl_gst_rate :: "decimal option"
  sl_cgst :: "decimal option"
  sl_sgst :: "decimal option"
  sl_igst :: "decimal option"
  sl_cess :: "decimal option"
  sl_total_value :: "decimal option"
  sl_row_hash :: string

record sales_invoice =
  inv_no :: string
  inv_date :: date
  inv_customer_gstin :: "string option"
  inv_type :: string
  inv_supply_type :: "string option"
  inv_place_of_supply :: "string option"
  inv_reverse_charge :: bool
  inv_currency :: string
  inv_trade_discount :: "decimal option"
  inv_freight :: "decimal option"
  inv_packing :: "decimal option"
  inv_insurance :: "decimal option"
  inv_taxable_value :: "decimal option"
  inv_cgst :: "decimal option"
  inv_sgst :: "decimal option"
  inv_igst :: "decimal option"
  inv_cess :: "decimal option"
  inv_total_value :: "decimal option"
  inv_irn :: "string option"
  inv_ewb_no :: "string option"
  inv_row_hash :: string
  inv_document_hash :: string
  inv_lines :: "sales_line list"

record sales_parse =
  sp_invoices :: "sales_invoice list"
  sp_rejections :: "string list"

definition sp_ok :: "sales_parse \<Rightarrow> bool" where
  "sp_ok p \<longleftrightarrow> sp_rejections p = []"

definition line_count :: "sales_parse \<Rightarrow> nat" where
  "line_count p = sum_list (map (\<lambda>i. length (inv_lines i)) (sp_invoices p))"

section \<open>Fields\<close>

definition field :: "csv_row \<Rightarrow> string \<Rightarrow> string" where
  "field row c = strip (row_text row c)"

definition clean_field :: "csv_row \<Rightarrow> string \<Rightarrow> string option" where
  "clean_field row c = (let v = field row c in if v = [] then None else Some v)"

definition sales_decimal :: "string option \<Rightarrow> string \<Rightarrow> string + decimal option" where
  "sales_decimal raw c =
     (case raw of None \<Rightarrow> Inr None
      | Some r \<Rightarrow>
          if r = [] then Inr None
          else case py_decimal r of
            None \<Rightarrow> Inl (c @ '': '' @ py_repr r @ '' is not a number'')
          | Some d \<Rightarrow> Inr (Some d))"

definition decimal_field :: "csv_row \<Rightarrow> string \<Rightarrow> string + decimal option" where
  "decimal_field row c = sales_decimal (clean_field row c) c"

definition required_decimal :: "string \<Rightarrow> string \<Rightarrow> string + decimal" where
  "required_decimal raw c =
     rbind (sales_decimal (Some (strip raw)) c) (\<lambda>d. case d of
       None \<Rightarrow> Inl (c @ '' is required'') | Some v \<Rightarrow> Inr v)"

definition sales_date :: "string \<Rightarrow> string \<Rightarrow> string + date" where
  "sales_date raw c = (case from_isoformat (strip raw) of
     None \<Rightarrow> Inl (c @ '': '' @ py_repr raw @ '' is not an ISO date'') | Some d \<Rightarrow> Inr d)"

definition sales_bool :: "string \<Rightarrow> string \<Rightarrow> string + bool" where
  "sales_bool raw c =
     (let l = lower (strip raw) in
      if l \<in> {''true'', ''t'', ''yes'', ''y'', ''1''} then Inr True
      else if l \<in> {''false'', ''f'', ''no'', ''n'', ''0'', []} then Inr False
      else Inl (c @ '': '' @ py_repr raw @ '' is not a boolean''))"

section \<open>One invoice\<close>

text \<open>The fields two rows of an invoice disagree on, and the first disagreement with the first row.\<close>

definition differing :: "csv_row \<Rightarrow> csv_row \<Rightarrow> string list" where
  "differing a b = sort (filter (\<lambda>c. field b c \<noteq> field a c) header_fields)"

fun agree_with :: "nat \<times> csv_row \<Rightarrow> (nat \<times> csv_row) list \<Rightarrow> string + unit" where
  "agree_with f [] = Inr ()"
| "agree_with f (r # rs) =
     (if differing (snd f) (snd r) \<noteq> []
      then Inl (''rows '' @ nat_str (fst f) @ '' and '' @ nat_str (fst r) @ '' disagree on header field(s): ''
             @ join '', '' (differing (snd f) (snd r)))
      else agree_with f rs)"

definition build_line :: "(string \<Rightarrow> string) \<Rightarrow> csv_row \<Rightarrow> int \<Rightarrow> string + sales_line" where
  "build_line H row n =
     rbind (decimal_field row ''qty'') (\<lambda>qty.
     rbind (decimal_field row ''unit_price'') (\<lambda>price.
     rbind (required_decimal (row_text row ''taxable_value'') ''taxable_value'') (\<lambda>taxable.
     rbind (decimal_field row ''gst_rate'') (\<lambda>rate.
     rbind (decimal_field row ''cgst'') (\<lambda>cg.
     rbind (decimal_field row ''sgst'') (\<lambda>sg.
     rbind (decimal_field row ''igst'') (\<lambda>ig.
     rbind (decimal_field row ''cess'') (\<lambda>ces.
     rbind (decimal_field row ''total_value'') (\<lambda>total.
       Inr \<lparr>sl_number = n, sl_hsn_sac = clean_field row ''hsn_sac'',
         sl_description = clean_field row ''description'', sl_qty = qty, sl_uom = clean_field row ''uom'',
         sl_unit_price = price, sl_taxable_value = taxable, sl_gst_rate = rate, sl_cgst = cg,
         sl_sgst = sg, sl_igst = ig, sl_cess = ces, sl_total_value = total,
         sl_row_hash = hash_values H (map (field row) line_fields)\<rparr>)))))))))"

text \<open>The lines of an invoice, in file order; \<open>seen\<close> holds the numbers so far.\<close>

fun build_lines :: "(string \<Rightarrow> string) \<Rightarrow> int list \<Rightarrow> (nat \<times> csv_row) list \<Rightarrow> string + sales_line list" where
  "build_lines H seen [] = Inr []"
| "build_lines H seen ((k, row) # rs) =
     (case py_int (row_text row ''line_number'') of
        None \<Rightarrow> Inl (''row '' @ nat_str k @ '': line_number '' @ py_repr (row_text row ''line_number'')
                  @ '' is not an integer'')
      | Some n \<Rightarrow>
          if n \<in> set seen then Inl (''row '' @ nat_str k @ '': duplicate line_number '' @ int_str n)
          else rbind (build_line H row n) (\<lambda>l. rbind (build_lines H (n # seen) rs) (\<lambda>ls. Inr (l # ls))))"

definition header_hash :: "(string \<Rightarrow> string) \<Rightarrow> csv_row \<Rightarrow> string" where
  "header_hash H row = hash_values H (map (field row) header_fields)"

definition document_hash :: "(string \<Rightarrow> string) \<Rightarrow> csv_row \<Rightarrow> sales_line list \<Rightarrow> string" where
  "document_hash H row ls = hash_values H (header_hash H row # map sl_row_hash ls)"

definition build_header ::
  "(string \<Rightarrow> string) \<Rightarrow> string \<Rightarrow> csv_row \<Rightarrow> sales_line list \<Rightarrow> string + sales_invoice" where
  "build_header H no row ls =
     rbind (sales_date (row_text row ''invoice_date'') ''invoice_date'') (\<lambda>d.
     rbind (sales_bool (row_text row ''reverse_charge'') ''reverse_charge'') (\<lambda>rc.
     rbind (decimal_field row ''trade_discount'') (\<lambda>disc.
     rbind (decimal_field row ''freight'') (\<lambda>fr.
     rbind (decimal_field row ''packing'') (\<lambda>pk.
     rbind (decimal_field row ''insurance'') (\<lambda>ins.
     rbind (decimal_field row ''invoice_taxable_value'') (\<lambda>tv.
     rbind (decimal_field row ''invoice_cgst'') (\<lambda>cg.
     rbind (decimal_field row ''invoice_sgst'') (\<lambda>sg.
     rbind (decimal_field row ''invoice_igst'') (\<lambda>ig.
     rbind (decimal_field row ''invoice_cess'') (\<lambda>ces.
     rbind (decimal_field row ''invoice_total_value'') (\<lambda>tot.
       Inr \<lparr>inv_no = no, inv_date = d, inv_customer_gstin = clean_field row ''customer_gstin'',
         inv_type = field row ''invoice_type'', inv_supply_type = clean_field row ''supply_type'',
         inv_place_of_supply = clean_field row ''place_of_supply'', inv_reverse_charge = rc,
         inv_currency = (case clean_field row ''currency'' of None \<Rightarrow> ''INR'' | Some c \<Rightarrow> c),
         inv_trade_discount = disc, inv_freight = fr, inv_packing = pk, inv_insurance = ins,
         inv_taxable_value = tv, inv_cgst = cg, inv_sgst = sg, inv_igst = ig, inv_cess = ces,
         inv_total_value = tot, inv_irn = clean_field row ''irn'', inv_ewb_no = clean_field row ''ewb_no'',
         inv_row_hash = header_hash H row, inv_document_hash = document_hash H row ls,
         inv_lines = ls\<rparr>))))))))))))"

definition build_invoice :: "(string \<Rightarrow> string) \<Rightarrow> string \<Rightarrow> (nat \<times> csv_row) list \<Rightarrow> string + sales_invoice" where
  "build_invoice H no rs =
     rbind (agree_with (hd rs) (tl rs)) (\<lambda>_.
     rbind (build_lines H [] rs) (\<lambda>ls.
       build_header H no (snd (hd rs)) (sort_key sl_number ls)))"

section \<open>The file\<close>

definition blank_required :: "csv_row \<Rightarrow> string list" where
  "blank_required row = sort (filter (\<lambda>c. field row c = []) required_values)"

definition blank_message :: "nat \<times> csv_row \<Rightarrow> string" where
  "blank_message r = ''row '' @ nat_str (fst r) @ '': empty required field(s): '' @ join '', '' (blank_required (snd r))"

definition sales_rows :: "dict_reader \<Rightarrow> (nat \<times> csv_row) list" where
  "sales_rows reader = zip [2..<2 + length (rows reader)] (rows reader)"

text \<open>The rows of each invoice; the number of a row is its record's, not the file's line.\<close>

definition group_invoices :: "(nat \<times> csv_row) list \<Rightarrow> (string \<times> (nat \<times> csv_row) list) list" where
  "group_invoices rs = group_all (map (\<lambda>r. (field (snd r) ''invoice_no'', r))
     (filter (\<lambda>r. blank_required (snd r) = []) rs))"

definition collect_invoice ::
  "(string \<Rightarrow> string) \<Rightarrow> sales_parse \<Rightarrow> string \<times> (nat \<times> csv_row) list \<Rightarrow> sales_parse" where
  "collect_invoice H res g = (case build_invoice H (fst g) (snd g) of
      Inl m \<Rightarrow> res\<lparr>sp_rejections := sp_rejections res @ [''invoice '' @ fst g @ '': '' @ m]\<rparr>
    | Inr i \<Rightarrow> res\<lparr>sp_invoices := sp_invoices res @ [i]\<rparr>)"

definition parse_sales_rows :: "(string \<Rightarrow> string) \<Rightarrow> (nat \<times> csv_row) list \<Rightarrow> sales_parse" where
  "parse_sales_rows H rs =
     (let blanks = map blank_message (filter (\<lambda>r. blank_required (snd r) \<noteq> []) rs);
          res = fold (\<lambda>g res. collect_invoice H res g) (group_invoices rs)
                  \<lparr>sp_invoices = [], sp_rejections = blanks\<rparr>
      in if sp_invoices res = [] \<and> sp_rejections res = []
         then res\<lparr>sp_rejections := [''file contains no data rows'']\<rparr> else res)"

definition refused :: "string \<Rightarrow> sales_parse" where
  "refused m = \<lparr>sp_invoices = [], sp_rejections = [m]\<rparr>"

definition parse_sales_register_csv :: "(string \<Rightarrow> string) \<Rightarrow> bytes \<Rightarrow> exc + sales_parse" where
  "parse_sales_register_csv H data =
     (case decode_utf8_sig data of
        None \<Rightarrow> Inr (refused ''file is not valid UTF-8'')
      | Some text \<Rightarrow>
          rbind (dict_reader_of text) (\<lambda>reader.
            let present = (case fieldnames reader of None \<Rightarrow> [] | Some h \<Rightarrow> h);
                missing = sort (filter (\<lambda>c. c \<notin> set present) required_columns)
            in if missing \<noteq> [] then Inr (refused (''missing required column(s): '' @ join '', '' missing))
            else case failure reader of Some e \<Rightarrow> Inl e
            | None \<Rightarrow> Inr (parse_sales_rows H (sales_rows reader))))"

section \<open>What an invoice is made of\<close>

lemma build_line_Inr:
  "build_line H row n = Inr l \<Longrightarrow>
     sl_number l = n \<and> sl_row_hash l = hash_values H (map (field row) line_fields)"
  by (auto simp: build_line_def rbind_eq_Inr_iff)

lemma build_header_Inr:
  "build_header H no row ls = Inr i \<Longrightarrow> inv_no i = no \<and> inv_lines i = ls \<and> inv_row_hash i = header_hash H row
     \<and> inv_document_hash i = document_hash H row ls"
  by (auto simp: build_header_def rbind_eq_Inr_iff)

definition line_of :: "(string \<Rightarrow> string) \<Rightarrow> nat \<times> csv_row \<Rightarrow> sales_line \<Rightarrow> bool" where
  "line_of H r l \<longleftrightarrow> py_int (row_text (snd r) ''line_number'') = Some (sl_number l)
     \<and> build_line H (snd r) (sl_number l) = Inr l"

lemma build_lines_Inr:
  assumes "build_lines H seen rs = Inr ls"
  shows "list_all2 (line_of H) rs ls \<and> distinct (map sl_number ls) \<and> set (map sl_number ls) \<inter> set seen = {}"
  using assms
proof (induction rs arbitrary: seen ls)
  case (Cons r rs)
  obtain k row where r: "r = (k, row)" by (cases r)
  from Cons.prems obtain n l ls' where n: "py_int (row_text row ''line_number'') = Some n" "n \<notin> set seen"
    and l: "build_line H row n = Inr l" "build_lines H (n # seen) rs = Inr ls'" "ls = l # ls'"
    by (auto simp: r rbind_eq_Inr_iff split: option.splits if_splits)
  from Cons.IH[OF l(2)] build_line_Inr[OF l(1)] n l show ?case by (auto simp: r line_of_def)
qed simp

lemma sort_eq_Nil: "sort xs = [] \<longleftrightarrow> xs = []"
  by (metis length_0_conv length_sort)

lemma differing_Nil: "differing a b = [] \<longleftrightarrow> (\<forall>c\<in>set header_fields. field b c = field a c)"
  by (auto simp: differing_def sort_eq_Nil filter_empty_conv)

lemma blank_required_Nil: "blank_required row = [] \<longleftrightarrow> (\<forall>c\<in>set required_values. field row c \<noteq> [])"
  by (auto simp: blank_required_def sort_eq_Nil filter_empty_conv)

lemma agree_with_Inr:
  "agree_with f rs = Inr u \<Longrightarrow> r \<in> set rs \<Longrightarrow> c \<in> set header_fields \<Longrightarrow> field (snd r) c = field (snd f) c"
  by (induction rs) (auto simp: differing_Nil split: if_splits)

lemma build_invoice_Inr:
  assumes "build_invoice H no rs = Inr i"
  obtains ls where "build_lines H [] rs = Inr ls" "inv_lines i = sort_key sl_number ls" "inv_no i = no"
    "inv_document_hash i = document_hash H (snd (hd rs)) (inv_lines i)"
    "\<And>r c. r \<in> set rs \<Longrightarrow> c \<in> set header_fields \<Longrightarrow> field (snd r) c = field (snd (hd rs)) c"
proof -
  from assms obtain u ls where a: "agree_with (hd rs) (tl rs) = Inr u" and ls: "build_lines H [] rs = Inr ls"
    and h: "build_header H no (snd (hd rs)) (sort_key sl_number ls) = Inr i"
    by (auto simp: build_invoice_def rbind_eq_Inr_iff)
  have "field (snd r) c = field (snd (hd rs)) c" if "r \<in> set rs" "c \<in> set header_fields" for r c
  proof (cases "r = hd rs")
    case False
    with that(1) have "r \<in> set (tl rs)" by (cases rs) simp_all
    from agree_with_Inr[OF a this that(2)] show ?thesis .
  qed simp
  with ls build_header_Inr[OF h] show ?thesis by (intro that[of ls]) auto
qed

text \<open>The lines stand in the order of their numbers, each number once, one line for each row.\<close>

lemma invoice_lines_sorted:
  assumes "build_invoice H no rs = Inr i"
  shows "sorted_wrt (<) (map sl_number (inv_lines i)) \<and> length (inv_lines i) = length rs"
proof -
  from assms obtain ls where ls: "build_lines H [] rs = Inr ls" "inv_lines i = sort_key sl_number ls"
    by (rule build_invoice_Inr)
  from build_lines_Inr[OF ls(1)] have "distinct (map sl_number ls)" "length ls = length rs"
    by (auto dest: list_all2_lengthD)
  then have "distinct (map sl_number (inv_lines i))" "length (inv_lines i) = length rs"
    by (simp_all add: ls(2) distinct_map)
  moreover have "sorted (map sl_number (inv_lines i))" by (simp add: ls(2))
  ultimately show ?thesis by (simp add: strict_sorted_iff)
qed

section \<open>A file is accepted whole\<close>

definition invoice_rows :: "dict_reader \<Rightarrow> string \<Rightarrow> (nat \<times> csv_row) list" where
  "invoice_rows reader no = filter (\<lambda>r. field (snd r) ''invoice_no'' = no) (sales_rows reader)"

lemma collect_fold:
  "fold (\<lambda>g res. collect_invoice H res g) gs res =
     \<lparr>sp_invoices = sp_invoices res @ concat (map (\<lambda>g. case build_invoice H (fst g) (snd g) of Inl m \<Rightarrow> [] | Inr i \<Rightarrow> [i]) gs),
      sp_rejections = sp_rejections res
        @ concat (map (\<lambda>g. case build_invoice H (fst g) (snd g) of Inl m \<Rightarrow> [''invoice '' @ fst g @ '': '' @ m] | Inr i \<Rightarrow> []) gs)\<rparr>"
  by (induction gs arbitrary: res) (auto simp: collect_invoice_def split: sum.splits)

lemma sales_rows_rows: "map snd (sales_rows reader) = rows reader"
  by (simp add: sales_rows_def del: upt_Suc)

lemma group_invoices_complete:
  assumes "\<forall>r\<in>set rs. blank_required (snd r) = []"
  shows "group_invoices rs = group_all (map (\<lambda>r. (field (snd r) ''invoice_no'', r)) rs)"
proof -
  have "filter (\<lambda>r. blank_required (snd r) = []) rs = rs" using assms by (simp add: filter_id_conv)
  then show ?thesis by (simp only: group_invoices_def)
qed

lemma members_field: "members (map (\<lambda>r. (f r, r)) rs) k = filter (\<lambda>r. f r = k) rs"
  by (induction rs) (auto simp: members_def)

lemma group_invoices_rows:
  assumes "g \<in> set (group_invoices (sales_rows reader))" "\<forall>r\<in>set (sales_rows reader). blank_required (snd r) = []"
  shows "snd g = invoice_rows reader (fst g)"
proof -
  obtain k xs where g: "g = (k, xs)" by (cases g)
  with assms group_invoices_complete have "(k, xs) \<in> set (group_all (map (\<lambda>r. (field (snd r) ''invoice_no'', r)) (sales_rows reader)))"
    by simp
  then show ?thesis by (simp only: group_all_mem members_field g invoice_rows_def fst_conv snd_conv)
qed

lemma sum_lengths_zip:
  "list_all2 (\<lambda>g i. length (f i) = length (h g)) gs is \<Longrightarrow>
     sum_list (map (\<lambda>i. length (f i)) is) = sum_list (map (\<lambda>g. length (h g)) gs)"
  by (induction rule: list_all2_induct) auto

lemma list_all2_inv_no:
  "list_all2 (\<lambda>g i. build_invoice H (fst g) (snd g) = Inr i) gs is \<Longrightarrow> map inv_no is = map fst gs"
  by (induction rule: list_all2_induct) (auto elim: build_invoice_Inr)

definition group_rejections :: "(string \<Rightarrow> string) \<Rightarrow> (string \<times> (nat \<times> csv_row) list) list \<Rightarrow> string list" where
  "group_rejections H gs =
     concat (map (\<lambda>g. case build_invoice H (fst g) (snd g) of Inl m \<Rightarrow> [''invoice '' @ fst g @ '': '' @ m] | Inr i \<Rightarrow> []) gs)"

definition group_built :: "(string \<Rightarrow> string) \<Rightarrow> (string \<times> (nat \<times> csv_row) list) list \<Rightarrow> sales_invoice list" where
  "group_built H gs =
     concat (map (\<lambda>g. case build_invoice H (fst g) (snd g) of Inl m \<Rightarrow> [] | Inr i \<Rightarrow> [i]) gs)"

definition blank_messages :: "(nat \<times> csv_row) list \<Rightarrow> string list" where
  "blank_messages rs = map blank_message (filter (\<lambda>r. blank_required (snd r) \<noteq> []) rs)"

lemma parse_sales_rows_eq:
  "parse_sales_rows H rs =
     (let is = group_built H (group_invoices rs); ms = blank_messages rs @ group_rejections H (group_invoices rs)
      in \<lparr>sp_invoices = is, sp_rejections = (if is = [] \<and> ms = [] then [''file contains no data rows''] else ms)\<rparr>)"
  by (simp add: parse_sales_rows_def Let_def collect_fold group_built_def group_rejections_def blank_messages_def)

lemma group_rejections_Nil:
  "group_rejections H gs = [] \<longleftrightarrow> (\<forall>g\<in>set gs. \<exists>i. build_invoice H (fst g) (snd g) = Inr i)"
proof (induction gs)
  case (Cons g gs)
  then show ?case by (cases "build_invoice H (fst g) (snd g)") (auto simp: group_rejections_def)
qed (simp add: group_rejections_def)

lemma group_built_all:
  assumes "group_rejections H gs = []"
  shows "list_all2 (\<lambda>g i. build_invoice H (fst g) (snd g) = Inr i) gs (group_built H gs)"
  using assms
proof (induction gs)
  case (Cons g gs)
  then show ?case by (cases "build_invoice H (fst g) (snd g)") (auto simp: group_rejections_def group_built_def)
qed (simp add: group_built_def)

lemma blank_messages_Nil: "blank_messages rs = [] \<longleftrightarrow> (\<forall>r\<in>set rs. blank_required (snd r) = [])"
  by (simp add: blank_messages_def filter_empty_conv)

lemma group_all_Nil: "group_all kxs = [] \<longleftrightarrow> kxs = []"
proof -
  have "group_all kxs = [] \<longleftrightarrow> fst ` set (group_all kxs) = {}" by (simp only: image_is_empty set_empty)
  also have "\<dots> \<longleftrightarrow> kxs = []" by (simp only: group_all_keys image_is_empty set_empty)
  finally show ?thesis .
qed

lemma group_invoices_Nil:
  "\<forall>r\<in>set rs. blank_required (snd r) = [] \<Longrightarrow> group_invoices rs = [] \<longleftrightarrow> rs = []"
  by (simp only: group_invoices_complete group_all_Nil map_is_Nil_conv)

lemma parse_sales_rows_ok:
  "sp_ok (parse_sales_rows H rs) \<longleftrightarrow> rs \<noteq> [] \<and> blank_messages rs = [] \<and> group_rejections H (group_invoices rs) = []"
proof -
  have "group_built H (group_invoices rs) = [] \<longleftrightarrow> rs = []"
    if "blank_messages rs = []" "group_rejections H (group_invoices rs) = []"
    using list_all2_lengthD[OF group_built_all[OF that(2)]] group_invoices_Nil that(1)
    by (metis blank_messages_Nil length_0_conv)
  then show ?thesis
    by (auto simp: parse_sales_rows_eq sp_ok_def Let_def)
qed

lemma group_built_numbers: "subseq (map inv_no (group_built H gs)) (map fst gs)"
proof (induction gs)
  case (Cons g gs)
  then show ?case
    by (cases "build_invoice H (fst g) (snd g)") (auto simp: group_built_def elim: build_invoice_Inr)
qed (simp add: group_built_def)

text \<open>The invoices of a file have distinct numbers, whatever the file holds.\<close>

lemma parse_sales_distinct:
  assumes "parse_sales_register_csv H data = Inr p"
  shows "distinct (map inv_no (sp_invoices p))"
proof -
  have "distinct (map inv_no (sp_invoices (parse_sales_rows H rs)))" for rs
  proof -
    have "distinct (map fst (group_invoices rs))" unfolding group_invoices_def by (rule group_all_distinct)
    with group_built_numbers[of H "group_invoices rs"] show ?thesis
      by (auto simp: parse_sales_rows_eq Let_def subseq_conv_nths)
  qed
  moreover have "distinct (map inv_no (sp_invoices (refused m)))" for m by (simp add: refused_def)
  ultimately show ?thesis
    using assms by (auto simp: parse_sales_register_csv_def rbind_eq_Inr_iff Let_def split: option.splits if_splits)
qed

lemma group_rejections_rows:
  assumes "\<forall>row\<in>set (rows reader). blank_required row = []"
  shows "group_rejections H (group_invoices (sales_rows reader)) = [] \<longleftrightarrow>
    (\<forall>row\<in>set (rows reader). \<exists>i. build_invoice H (field row ''invoice_no'')
       (invoice_rows reader (field row ''invoice_no'')) = Inr i)"
proof -
  let ?gs = "group_invoices (sales_rows reader)" and ?no = "\<lambda>row. field row ''invoice_no''"
  have c: "\<forall>r\<in>set (sales_rows reader). blank_required (snd r) = []"
    using assms sales_rows_rows[of reader] by (metis image_eqI list.set_map)
  have k: "fst ` set ?gs = ?no ` set (rows reader)"
    unfolding group_invoices_complete[OF c] group_all_keys using sales_rows_rows[of reader]
    by (simp add: image_image flip: sales_rows_rows)
  have "group_rejections H ?gs = [] \<longleftrightarrow> (\<forall>g\<in>set ?gs. \<exists>i. build_invoice H (fst g) (invoice_rows reader (fst g)) = Inr i)"
    unfolding group_rejections_Nil using group_invoices_rows c by (metis (no_types, lifting))
  also have "\<dots> \<longleftrightarrow> (\<forall>n\<in>fst ` set ?gs. \<exists>i. build_invoice H n (invoice_rows reader n) = Inr i)"
    by (simp only: ball_simps)
  also have "\<dots> \<longleftrightarrow> (\<forall>row\<in>set (rows reader). \<exists>i. build_invoice H (?no row) (invoice_rows reader (?no row)) = Inr i)"
    by (simp only: k ball_simps)
  finally show ?thesis .
qed

text \<open>
  A sales file is accepted whole or refused whole, and accepted exactly when it has a row, every
  row has its five mandatory values and every invoice can be built. In an accepted file every row
  of the file is one line of one invoice: invoices have distinct numbers, the numbers of the file,
  each is built from all its rows, its line numbers strictly increase, and the count of lines, which
  becomes the \<open>row_count\<close> of the batch, is the number of rows.
\<close>

theorem sales_file_accepted_whole:
  assumes "decode_utf8_sig data = Some content" "dict_reader_of content = Inr reader" "failure reader = None"
    and "fieldnames reader = Some h" "set required_columns \<subseteq> set h"
  shows "\<exists>p. parse_sales_register_csv H data = Inr p
    \<and> (sp_ok p \<longleftrightarrow> rows reader \<noteq> [] \<and> (\<forall>row\<in>set (rows reader). blank_required row = [])
         \<and> (\<forall>row\<in>set (rows reader). \<exists>i. build_invoice H (field row ''invoice_no'')
              (invoice_rows reader (field row ''invoice_no'')) = Inr i))
    \<and> (sp_ok p \<longrightarrow> line_count p = length (rows reader) \<and> distinct (map inv_no (sp_invoices p))
         \<and> inv_no ` set (sp_invoices p) = (\<lambda>row. field row ''invoice_no'') ` set (rows reader)
         \<and> (\<forall>i\<in>set (sp_invoices p). build_invoice H (inv_no i) (invoice_rows reader (inv_no i)) = Inr i
              \<and> sorted_wrt (<) (map sl_number (inv_lines i))))"
proof (intro exI conjI)
  let ?rs = "sales_rows reader" and ?no = "\<lambda>row. field row ''invoice_no''"
  let ?p = "parse_sales_rows H ?rs" and ?gs = "group_invoices (sales_rows reader)"
  have "sort (filter (\<lambda>c. c \<notin> set h) required_columns) = []"
    using assms(5) by (auto simp: sort_eq_Nil filter_empty_conv)
  with assms show "parse_sales_register_csv H data = Inr ?p"
    by (simp add: parse_sales_register_csv_def Let_def)
  have r: "snd ` set ?rs = set (rows reader)" using sales_rows_rows by (metis list.set_map)
  have ne: "?rs \<noteq> [] \<longleftrightarrow> rows reader \<noteq> []" using sales_rows_rows by (metis list.map_disc_iff)
  have b: "blank_messages ?rs = [] \<longleftrightarrow> (\<forall>row\<in>set (rows reader). blank_required row = [])"
    by (simp add: blank_messages_Nil flip: r)
  show "sp_ok ?p \<longleftrightarrow> rows reader \<noteq> [] \<and> (\<forall>row\<in>set (rows reader). blank_required row = [])
      \<and> (\<forall>row\<in>set (rows reader). \<exists>i. build_invoice H (?no row) (invoice_rows reader (?no row)) = Inr i)"
    unfolding parse_sales_rows_ok b ne using group_rejections_rows by metis
  show "sp_ok ?p \<longrightarrow> line_count ?p = length (rows reader) \<and> distinct (map inv_no (sp_invoices ?p))
         \<and> inv_no ` set (sp_invoices ?p) = ?no ` set (rows reader)
         \<and> (\<forall>i\<in>set (sp_invoices ?p). build_invoice H (inv_no i) (invoice_rows reader (inv_no i)) = Inr i
              \<and> sorted_wrt (<) (map sl_number (inv_lines i)))"
  proof
    assume "sp_ok ?p"
    then have c: "\<forall>r\<in>set ?rs. blank_required (snd r) = []" and g: "group_rejections H ?gs = []"
      by (simp_all add: parse_sales_rows_ok blank_messages_Nil)
    let ?is = "group_built H ?gs"
    have l: "list_all2 (\<lambda>g i. build_invoice H (fst g) (snd g) = Inr i) ?gs ?is" by (rule group_built_all[OF g])
    have isp: "sp_invoices ?p = ?is" by (simp add: parse_sales_rows_eq Let_def)
    have e: "?gs = group_all (map (\<lambda>r. (?no (snd r), r)) ?rs)" by (rule group_invoices_complete[OF c])
    have no: "map inv_no ?is = map fst ?gs" by (rule list_all2_inv_no[OF l])
    have "list_all2 (\<lambda>g i. length (inv_lines i) = length (snd g)) ?gs ?is"
      using l by (rule list_all2_mono) (simp add: invoice_lines_sorted)
    then have "line_count ?p = sum_list (map (\<lambda>g. length (snd g)) ?gs)"
      unfolding line_count_def isp by (rule sum_lengths_zip)
    also have "\<dots> = length (rows reader)"
      unfolding e group_total by (simp flip: sales_rows_rows[of reader])
    finally have n: "line_count ?p = length (rows reader)" .
    have d: "distinct (map inv_no ?is)" unfolding no by (subst e) (rule group_all_distinct)
    have "inv_no ` set ?is = fst ` set ?gs" using no by (metis list.set_map)
    also have "\<dots> = ?no ` set (rows reader)" by (subst e) (simp only: group_all_keys set_map image_image fst_conv r[symmetric])
    finally have k: "inv_no ` set ?is = ?no ` set (rows reader)" .
    have "build_invoice H (inv_no i) (invoice_rows reader (inv_no i)) = Inr i
        \<and> sorted_wrt (<) (map sl_number (inv_lines i))" if "i \<in> set ?is" for i
    proof -
      from list_all2_right[OF l that] obtain g where g: "g \<in> set ?gs" "build_invoice H (fst g) (snd g) = Inr i" ..
      from g(2) have "inv_no i = fst g" by (rule build_invoice_Inr)
      with g group_invoices_rows[OF g(1) c] invoice_lines_sorted[OF g(2)] show ?thesis by simp
    qed
    with n d k show "line_count ?p = length (rows reader) \<and> distinct (map inv_no (sp_invoices ?p))
         \<and> inv_no ` set (sp_invoices ?p) = ?no ` set (rows reader)
         \<and> (\<forall>i\<in>set (sp_invoices ?p). build_invoice H (inv_no i) (invoice_rows reader (inv_no i)) = Inr i
              \<and> sorted_wrt (<) (map sl_number (inv_lines i)))" unfolding isp by blast
  qed
qed

definition demo_sales_header :: string where
  "demo_sales_header = join '','' required_columns"

definition demo_sales_csv :: "string list \<Rightarrow> bytes" where
  "demo_sales_csv rs = join [CHR 0x0A] (demo_sales_header # rs)"

definition demo_sales_row :: "string \<Rightarrow> string \<Rightarrow> string \<Rightarrow> string" where
  "demo_sales_row no n v = no @ '',2026-04-01,,B2CS,,29,no,INR,,,,,,,,,,,,,'' @ n @ '',8471,Part,,,,'' @ v @ '',18,,,,,''"

theorem sales_file_accepted_whole_witness:
  "\<exists>p. parse_sales_register_csv id (demo_sales_csv
        [demo_sales_row ''A-1'' ''2'' ''100'', demo_sales_row ''A-2'' ''1'' ''5'', demo_sales_row ''A-1'' ''1'' ''50'']) = Inr p
     \<and> sp_ok p \<and> line_count p = 3 \<and> map inv_no (sp_invoices p) = [''A-1'', ''A-2'']"
proof -
  let ?d = "demo_sales_csv [demo_sales_row ''A-1'' ''2'' ''100'', demo_sales_row ''A-2'' ''1'' ''5'', demo_sales_row ''A-1'' ''1'' ''50'']"
  have t: "decode_utf8_sig ?d = Some ?d" by code_simp
  have "case dict_reader_of ?d of Inr r \<Rightarrow> failure r = None \<and> fieldnames r = Some required_columns
      \<and> length (rows r) = 3 | Inl e \<Rightarrow> False" by code_simp
  then obtain r where r: "dict_reader_of ?d = Inr r" "failure r = None" "fieldnames r = Some required_columns"
    "length (rows r) = 3" by (cases "dict_reader_of ?d") auto
  have "case parse_sales_register_csv id ?d of Inr p \<Rightarrow> sp_ok p \<and> map inv_no (sp_invoices p) = [''A-1'', ''A-2'']
     | Inl e \<Rightarrow> False" by code_simp
  then obtain p where p: "parse_sales_register_csv id ?d = Inr p" "sp_ok p" "map inv_no (sp_invoices p) = [''A-1'', ''A-2'']"
    by (cases "parse_sales_register_csv id ?d") simp_all
  from sales_file_accepted_whole[OF t r(1,2,3) subset_refl, of id] p(1,2) r(4) have "line_count p = 3"
    by (elim exE conjE) simp
  with p show ?thesis by metis
qed

section \<open>What the document hash identifies\<close>

lemma list_all2_insort:
  "list_all2 P xs ys \<Longrightarrow> P x y \<Longrightarrow> (\<And>x y. P x y \<Longrightarrow> k y = m x)
     \<Longrightarrow> list_all2 P (insort_key m x xs) (insort_key k y ys)"
proof (induction rule: list_all2_induct)
  case (Cons a as b bs)
  have "k y = m x" "k b = m a" using Cons.prems Cons.hyps by blast+
  with Cons show ?case by simp
qed simp

lemma list_all2_sort:
  "list_all2 P xs ys \<Longrightarrow> (\<And>x y. P x y \<Longrightarrow> k y = m x) \<Longrightarrow> list_all2 P (sort_key m xs) (sort_key k ys)"
  by (induction rule: list_all2_induct) (simp_all add: list_all2_insort)

lemma list_all2_map_eq: "list_all2 (\<lambda>x y. f y = g x \<and> Q x y) xs ys \<Longrightarrow> map f ys = map g xs"
  by (induction rule: list_all2_induct) simp_all

lemma py_int_field: "py_int (row_text row c) = py_int (field row c)"
  by (simp add: py_int_def field_def)

text \<open>The cells of a row that belong to the line and to the header, and the number of a line.\<close>

definition line_cells :: "csv_row \<Rightarrow> string list" where
  "line_cells row = map (field row) line_fields"

definition header_cells :: "csv_row \<Rightarrow> string list" where
  "header_cells row = map (field row) header_fields"

definition cells_number :: "string list \<Rightarrow> int" where
  "cells_number cs = the (py_int (hd cs))"

lemma invoice_lines_cells:
  assumes "build_invoice H no rs = Inr i"
  defines "X \<equiv> map (line_cells \<circ> snd) rs"
  shows "map sl_row_hash (inv_lines i) = map (hash_values H) (sort_key cells_number X)
    \<and> inj_on cells_number (set X)"
proof -
  from assms(1) obtain ls where ls: "build_lines H [] rs = Inr ls" "inv_lines i = sort_key sl_number ls"
    by (rule build_invoice_Inr)
  let ?P = "\<lambda>r l. sl_row_hash l = hash_values H (line_cells (snd r)) \<and> sl_number l = cells_number (line_cells (snd r))"
  have "line_of H r l \<Longrightarrow> ?P r l" for r l
    using build_line_Inr[of H "snd r" "sl_number l" l]
    by (simp add: line_of_def py_int_field line_cells_def cells_number_def) (simp add: line_fields_def)
  then have p: "list_all2 ?P rs ls" using build_lines_Inr[OF ls(1)] by (auto elim: list_all2_mono)
  have "list_all2 ?P (sort_key (\<lambda>r. cells_number (line_cells (snd r))) rs) (sort_key sl_number ls)"
    by (rule list_all2_sort[OF p]) simp
  then have 1: "map sl_row_hash (inv_lines i)
      = map (\<lambda>r. hash_values H (line_cells (snd r))) (sort_key (\<lambda>r. cells_number (line_cells (snd r))) rs)"
    unfolding ls(2) by (rule list_all2_map_eq)
  have "list_all2 (\<lambda>r x. x = line_cells (snd r) \<and> True) rs X"
    by (simp add: X_def list_all2_map2 list.rel_refl)
  then have "list_all2 (\<lambda>r x. x = line_cells (snd r) \<and> True) (sort_key (\<lambda>r. cells_number (line_cells (snd r))) rs) (sort_key cells_number X)"
    by (rule list_all2_sort) simp
  then have "map id (sort_key cells_number X) = map (\<lambda>r. line_cells (snd r)) (sort_key (\<lambda>r. cells_number (line_cells (snd r))) rs)"
    by (intro list_all2_map_eq[of id _ "\<lambda>_ _. True"]) simp
  with 1 have "map sl_row_hash (inv_lines i) = map (hash_values H) (sort_key cells_number X)"
    by (simp add: comp_def)
  moreover have "list_all2 (\<lambda>r l. sl_number l = cells_number (line_cells (snd r)) \<and> True) rs ls"
    using p by (rule list_all2_mono) simp
  then have "map sl_number ls = map cells_number X"
    unfolding X_def map_map comp_def by (rule list_all2_map_eq)
  then have "inj_on cells_number (set X)"
    using build_lines_Inr[OF ls(1)] by (simp add: distinct_map)
  ultimately show ?thesis ..
qed

lemma hash_values_inj:
  assumes "inj H" "hash_values H xs = hash_values H ys" "xs \<noteq> []" "ys \<noteq> []"
    and "\<forall>x\<in>set xs. unit_sep \<notin> set x" "\<forall>y\<in>set ys. unit_sep \<notin> set y"
  shows "xs = ys"
  using assms split_on_join[of xs unit_sep] split_on_join[of ys unit_sep]
  by (metis hash_values_def injD)

text \<open>No cell of the rows holds the separator of the hash.\<close>

definition no_separator :: "(nat \<times> csv_row) list \<Rightarrow> bool" where
  "no_separator rs \<longleftrightarrow> (\<forall>r\<in>set rs. \<forall>c\<in>set required_columns. unit_sep \<notin> set (field (snd r) c))"

lemma sort_cells_eq:
  assumes "inj_on cells_number (set X)"
  shows "sort_key cells_number X = sort_key cells_number Y \<longleftrightarrow> mset X = mset Y"
proof
  assume "mset X = mset Y"
  then show "sort_key cells_number X = sort_key cells_number Y"
    using assms by (intro sort_key_inj_key_eq) simp_all
qed (metis mset_sort)

lemma document_hash_cells:
  assumes i: "build_invoice H no rs = Inr i" and j: "build_invoice H no' rs' = Inr j"
    and "inj H" "\<And>s. unit_sep \<notin> set (H s)" "rs \<noteq> []" "rs' \<noteq> []" "no_separator rs" "no_separator rs'"
  shows "inv_document_hash i = inv_document_hash j \<longleftrightarrow>
    header_cells (snd (hd rs)) = header_cells (snd (hd rs'))
    \<and> mset (map (line_cells \<circ> snd) rs) = mset (map (line_cells \<circ> snd) rs')"
proof -
  let ?X = "map (line_cells \<circ> snd) rs" and ?Y = "map (line_cells \<circ> snd) rs'"
  let ?h = "header_cells (snd (hd rs))" and ?g = "header_cells (snd (hd rs'))"
  let ?L = "map (hash_values H)"
  have d: "inv_document_hash i = hash_values H (hash_values H ?h # ?L (sort_key cells_number ?X))"
    "inv_document_hash j = hash_values H (hash_values H ?g # ?L (sort_key cells_number ?Y))"
    using build_invoice_Inr[OF i] build_invoice_Inr[OF j] invoice_lines_cells[OF i] invoice_lines_cells[OF j]
    by (metis document_hash_def header_hash_def header_cells_def)+
  have s: "unit_sep \<notin> set (hash_values H xs)" for xs using assms(4) by (simp add: hash_values_def)
  have hd: "hd rs \<in> set rs" "hd rs' \<in> set rs'" using assms(5,6) by simp_all
  have c: "set header_fields \<subseteq> set required_columns" "set line_fields \<subseteq> set required_columns"
    by (simp_all add: required_columns_def)
  have n: "\<forall>x\<in>set (line_cells (snd r)). unit_sep \<notin> set x" "\<forall>x\<in>set (header_cells (snd r)). unit_sep \<notin> set x"
    if "r \<in> set rs \<union> set rs'" for r
    using that assms(7,8) c by (auto simp: no_separator_def line_cells_def header_cells_def)
  have ne: "line_cells row \<noteq> []" "header_cells row \<noteq> []" for row
    by (simp_all add: line_cells_def line_fields_def header_cells_def header_fields_def)
  have hh: "hash_values H ?h = hash_values H ?g \<longleftrightarrow> ?h = ?g"
    using hash_values_inj[OF assms(3) _ ne(2) ne(2) n(2) n(2)] hd by (metis UnI1 UnI2)
  have inj: "inj_on (hash_values H) (set ?X \<union> set ?Y)"
  proof (rule inj_onI)
    fix x y assume "x \<in> set ?X \<union> set ?Y" "y \<in> set ?X \<union> set ?Y" and e: "hash_values H x = hash_values H y"
    then obtain r q where "r \<in> set rs \<union> set rs'" "x = line_cells (snd r)" "q \<in> set rs \<union> set rs'" "y = line_cells (snd q)"
      by auto
    then show "x = y" using hash_values_inj[OF assms(3) e] ne(1) n(1) by metis
  qed
  have "inv_document_hash i = inv_document_hash j \<longleftrightarrow>
      hash_values H ?h # ?L (sort_key cells_number ?X) = hash_values H ?g # ?L (sort_key cells_number ?Y)"
  proof -
    have "\<forall>x\<in>set (hash_values H a # ?L as). unit_sep \<notin> set x" for a as using s by simp
    from hash_values_inj[OF assms(3) _ list.distinct(2) list.distinct(2) this this]
    show ?thesis unfolding d by (intro iffI) (assumption, simp only:)
  qed
  also have "\<dots> \<longleftrightarrow> ?h = ?g \<and> sort_key cells_number ?X = sort_key cells_number ?Y"
  proof -
    have "?L (sort_key cells_number ?X) = ?L (sort_key cells_number ?Y) \<longleftrightarrow> sort_key cells_number ?X = sort_key cells_number ?Y"
    proof
      assume e: "?L (sort_key cells_number ?X) = ?L (sort_key cells_number ?Y)"
      show "sort_key cells_number ?X = sort_key cells_number ?Y"
        by (rule map_inj_on[OF e]) (simp only: set_sort inj)
    qed simp
    with hh show ?thesis by (simp only: list.inject)
  qed
  finally show ?thesis
    using sort_cells_eq[of ?X ?Y] invoice_lines_cells[OF i] by (simp only:)
qed

text \<open>The cells of a row of the export: those of its header, then those of its line.\<close>

definition row_cells :: "nat \<times> csv_row \<Rightarrow> string list" where
  "row_cells r = map (field (snd r)) required_columns"

lemma row_cells_split: "row_cells r = header_cells (snd r) @ line_cells (snd r)"
  by (simp add: row_cells_def required_columns_def header_cells_def line_cells_def)

lemma invoice_row_cells:
  assumes "build_invoice H no rs = Inr i"
  shows "map row_cells rs = map ((@) (header_cells (snd (hd rs)))) (map (line_cells \<circ> snd) rs)"
proof -
  have "header_cells (snd r) = header_cells (snd (hd rs))" if "r \<in> set rs" for r
    using assms that by (auto simp: header_cells_def elim: build_invoice_Inr)
  then show ?thesis by (simp add: row_cells_split)
qed

lemma mset_same_prefix:
  assumes "mset (map ((@) h) X) = mset (map ((@) g) Y)" "length h = length g" "X \<noteq> []"
  shows "h = g \<and> mset X = mset Y"
proof -
  from assms(1) have s: "(@) h ` set X = (@) g ` set Y" by (metis mset_eq_setD list.set_map)
  obtain x where "x \<in> set X" using assms(3) by (cases X) auto
  with s assms(2) have e: "h = g" by (metis (no_types, lifting) append_eq_append_conv imageE imageI)
  have "inj ((@) h)" by (simp add: inj_on_def)
  then have "inj (image_mset ((@) h))" by (rule multiset.inj_map)
  with assms(1) e have "mset X = mset Y" by (simp only: mset_map inj_eq)
  with e show ?thesis ..
qed

text \<open>
  What the upsert compares. For a digest without collisions, whose values never hold the unit
  separator, two invoices built from the rows \<open>rs\<close> and \<open>rs'\<close> of two files have the
  same \<open>document_hash\<close> exactly when the files give the invoice the same rows, cell for cell in
  every header and line column, up to the order of the rows. So a corrected line changes the hash
  even under an unchanged header, and a reordered export does not.
\<close>

theorem document_hash_identity:
  assumes i: "build_invoice H no rs = Inr i" and j: "build_invoice H no' rs' = Inr j"
    and H: "inj H" "\<And>s. unit_sep \<notin> set (H s)"
    and ne: "rs \<noteq> []" "rs' \<noteq> []" and ns: "no_separator rs" "no_separator rs'"
  shows "inv_document_hash i = inv_document_hash j \<longleftrightarrow> mset (map row_cells rs) = mset (map row_cells rs')"
proof -
  let ?X = "map (line_cells \<circ> snd) rs" and ?Y = "map (line_cells \<circ> snd) rs'"
  let ?h = "header_cells (snd (hd rs))" and ?g = "header_cells (snd (hd rs'))"
  have "mset (map ((@) ?h) ?X) = mset (map ((@) ?g) ?Y) \<longleftrightarrow> ?h = ?g \<and> mset ?X = mset ?Y"
  proof
    assume "mset (map ((@) ?h) ?X) = mset (map ((@) ?g) ?Y)"
    then show "?h = ?g \<and> mset ?X = mset ?Y"
      by (rule mset_same_prefix) (simp_all add: header_cells_def ne)
  qed (metis mset_map)
  then show ?thesis
    unfolding document_hash_cells[OF i j H ne ns] invoice_row_cells[OF i] invoice_row_cells[OF j] by (rule sym)
qed

text \<open>A digest for the witness: the text with its separators escaped.\<close>

definition escape_char :: "char \<Rightarrow> string" where
  "escape_char c = (if c = unit_sep then ''0s'' else if c = CHR ''0'' then ''00'' else [c])"

definition escape :: "string \<Rightarrow> string" where
  "escape s = concat (map escape_char s)"

lemma escape_Nil: "escape [] = []"
  by (simp add: escape_def)

lemma escape_Cons: "escape (c # s) = escape_char c @ escape s"
  by (simp add: escape_def)

lemma escape_inj: "inj escape"
proof (rule injI)
  fix s t assume "escape s = escape t"
  then show "s = t"
  proof (induction s arbitrary: t)
    case Nil
    then show ?case by (cases t) (simp_all add: escape_Nil escape_Cons escape_char_def split: if_splits)
  next
    case (Cons c s)
    then obtain d u where t: "t = d # u" by (cases t) (auto simp: escape_Nil escape_Cons escape_char_def split: if_splits)
    have "c = d \<and> escape s = escape u"
      using Cons.prems unfolding t escape_Cons escape_char_def by (auto simp: unit_sep_def split: if_splits)
    with Cons.IH t show ?case by simp
  qed
qed

lemma escape_separator: "unit_sep \<notin> set (escape s)"
  by (auto simp: escape_def escape_char_def unit_sep_def split: if_splits)

definition demo_line :: "string \<Rightarrow> string \<Rightarrow> csv_row" where
  "demo_line n v = map (\<lambda>c. (Some c, Cell (Some
     (if c = ''invoice_no'' then ''A-1'' else if c = ''invoice_date'' then ''2026-04-01''
      else if c = ''invoice_type'' then ''B2CS'' else if c = ''line_number'' then n
      else if c = ''taxable_value'' then v else [])))) required_columns"

theorem document_hash_identity_witness:
  "let a = (2, demo_line ''1'' ''50''); b = (3, demo_line ''2'' ''7''); c = (3, demo_line ''2'' ''8'');
       h = (\<lambda>rs. case build_invoice escape ''A-1'' rs of Inr i \<Rightarrow> inv_document_hash i | Inl m \<Rightarrow> [])
   in h [a, b] = h [b, a] \<and> h [a, b] \<noteq> h [a, c]"
proof -
  let ?a = "(2::nat, demo_line ''1'' ''50'')" and ?b = "(3::nat, demo_line ''2'' ''7'')"
  let ?c = "(3::nat, demo_line ''2'' ''8'')"
  have ok: "\<exists>i. build_invoice escape ''A-1'' rs = Inr i"
    if "case build_invoice escape ''A-1'' rs of Inr i \<Rightarrow> True | Inl m \<Rightarrow> False" for rs
    using that by (cases "build_invoice escape ''A-1'' rs") simp_all
  have "case build_invoice escape ''A-1'' [?a, ?b] of Inr i \<Rightarrow> True | Inl m \<Rightarrow> False" by code_simp
  with ok obtain i where i: "build_invoice escape ''A-1'' [?a, ?b] = Inr i" by blast
  have "case build_invoice escape ''A-1'' [?b, ?a] of Inr i \<Rightarrow> True | Inl m \<Rightarrow> False" by code_simp
  with ok obtain j where j: "build_invoice escape ''A-1'' [?b, ?a] = Inr j" by blast
  have "case build_invoice escape ''A-1'' [?a, ?c] of Inr i \<Rightarrow> True | Inl m \<Rightarrow> False" by code_simp
  with ok obtain k where k: "build_invoice escape ''A-1'' [?a, ?c] = Inr k" by blast
  have "list_all (\<lambda>r. list_all (\<lambda>c. list_all (\<lambda>x. x \<noteq> unit_sep) (field (snd r) c)) required_columns) [?a, ?b, ?c]"
    by code_simp
  then have n: "no_separator [?a, ?b]" "no_separator [?b, ?a]" "no_separator [?a, ?c]"
    unfolding no_separator_def list_all_iff by (simp_all, blast+)
  have "row_cells ?b \<noteq> row_cells ?c" by code_simp
  then have "mset (map row_cells [?a, ?b]) \<noteq> mset (map row_cells [?a, ?c])"
    "mset (map row_cells [?a, ?b]) = mset (map row_cells [?b, ?a])"
    by (simp_all only: list.map mset.simps add_mset_commute add_mset_add_mset_same_iff) simp_all
  then have "inv_document_hash i = inv_document_hash j \<and> inv_document_hash i \<noteq> inv_document_hash k"
    using document_hash_identity[OF i j escape_inj escape_separator _ _ n(1,2)]
      document_hash_identity[OF i k escape_inj escape_separator _ _ n(1,3)] by simp
  then show ?thesis unfolding Let_def i j k by auto
qed

end
