(* ===== verification/SalesStore.thy ===== *)
theory SalesStore
  imports SalesParse Versions
begin

text \<open>
  The storing half of \<open>src/src/silver/sales_register.py\<close>: \<open>SalesRegisterLoader.load\<close>, on the
  tables \<open>sales_register\<close> and \<open>sales_register_line\<close> of tenant migration 009. A header row
  keeps the invoice without its lines; a line row points to its header by id. Amounts are stored as their
  columns round them, while the hashes are those of the values that were parsed. The domains and CHECK
  constraints not written out here are the parameters \<open>se_header_checks\<close> and
  \<open>se_line_checks\<close>, of the row as it is stored; the width and scale of the numeric columns, the window of a
  row, its unique index, \<open>line_number > 0\<close> and the unique \<open>(header_id, line_number)\<close> are part of the model.
\<close>

section \<open>Tables and parameters\<close>

record sales_row =
  sr_entity :: uuid
  sr_gstin :: string
  sr_period :: date
  sr_batch :: uuid
  sr_ingest :: uuid
  sr_invoice :: sales_invoice

type_synonym sales_tables = "sales_row version list \<times> (nat \<times> sales_line) list"

record sales_db = silver_core +
  sales_register :: "sales_row version list"
  sales_register_line :: "(nat \<times> sales_line) list"

record sales_env =
  se_digest :: "string \<Rightarrow> string"
  se_bytes_digest :: "bytes \<Rightarrow> bytes"
  se_vocabulary :: vocabulary
  se_header_checks :: "sales_row \<Rightarrow> bool"
  se_line_checks :: "sales_line \<Rightarrow> bool"

record sales_load =
  sd_label :: string
  sd_entity :: uuid
  sd_gstin :: string
  sd_ingest :: uuid
  sd_data :: bytes
  sd_period_start :: date
  sd_period_end :: date
  sd_run :: uuid
  sd_batch :: uuid
  sd_now :: instant

record sales_outcome =
  so_batch :: uuid
  so_tally :: tally
  so_invoice_count :: nat
  so_line_count :: nat

section \<open>The statements\<close>

definition sales_key :: "sales_row \<Rightarrow> uuid \<times> string \<times> string" where
  "sales_key r = (sr_entity r, sr_gstin r, inv_no (sr_invoice r))"

text \<open>The numeric columns of a header and of a line: what they refuse and what they keep.\<close>

definition invoice_fits :: "sales_invoice \<Rightarrow> bool" where
  "invoice_fits i \<longleftrightarrow> list_all (column_fits_opt money_inr)
     [inv_trade_discount i, inv_freight i, inv_packing i, inv_insurance i, inv_taxable_value i,
      inv_cgst i, inv_sgst i, inv_igst i, inv_cess i, inv_total_value i]"

definition stored_invoice :: "sales_invoice \<Rightarrow> sales_invoice" where
  "stored_invoice i = (let m = map_option (column_value money_inr) in
     i\<lparr>inv_trade_discount := m (inv_trade_discount i), inv_freight := m (inv_freight i), inv_packing := m (inv_packing i),
       inv_insurance := m (inv_insurance i), inv_taxable_value := m (inv_taxable_value i), inv_cgst := m (inv_cgst i),
       inv_sgst := m (inv_sgst i), inv_igst := m (inv_igst i), inv_cess := m (inv_cess i), inv_total_value := m (inv_total_value i)\<rparr>)"

definition sales_line_fits :: "sales_line \<Rightarrow> bool" where
  "sales_line_fits l \<longleftrightarrow> column_fits_opt qty_column (sl_qty l) \<and> column_fits_opt price_column (sl_unit_price l)
     \<and> column_fits money_inr (sl_taxable_value l) \<and> column_fits_opt tax_rate (sl_gst_rate l)
     \<and> list_all (column_fits_opt money_inr) [sl_cgst l, sl_sgst l, sl_igst l, sl_cess l, sl_total_value l]"

definition stored_sales_line :: "sales_line \<Rightarrow> sales_line" where
  "stored_sales_line l = (let m = map_option (column_value money_inr) in
     l\<lparr>sl_qty := map_option (column_value qty_column) (sl_qty l), sl_unit_price := map_option (column_value price_column) (sl_unit_price l),
       sl_taxable_value := column_value money_inr (sl_taxable_value l), sl_gst_rate := map_option (column_value tax_rate) (sl_gst_rate l),
       sl_cgst := m (sl_cgst l), sl_sgst := m (sl_sgst l), sl_igst := m (sl_igst l), sl_cess := m (sl_cess l),
       sl_total_value := m (sl_total_value l)\<rparr>)"

lemma stored_invoice_keeps [simp]:
  "inv_no (stored_invoice i) = inv_no i" "inv_date (stored_invoice i) = inv_date i"
  "inv_document_hash (stored_invoice i) = inv_document_hash i"
  by (simp_all add: stored_invoice_def Let_def)

lemma stored_sales_line_keeps [simp]:
  "sl_number (stored_sales_line l) = sl_number l" "sl_row_hash (stored_sales_line l) = sl_row_hash l"
  by (simp_all add: stored_sales_line_def Let_def)

definition header_row :: "sales_load \<Rightarrow> sales_invoice \<Rightarrow> sales_row" where
  "header_row ld i = \<lparr>sr_entity = sd_entity ld, sr_gstin = sd_gstin ld, sr_period = sd_period_start ld,
     sr_batch = sd_batch ld, sr_ingest = sd_ingest ld, sr_invoice = (stored_invoice i)\<lparr>inv_lines := []\<rparr>\<rparr>"

definition invoice_key :: "sales_load \<Rightarrow> sales_invoice \<Rightarrow> uuid \<times> string \<times> string" where
  "invoice_key ld i = (sd_entity ld, sd_gstin ld, inv_no i)"

definition insert_line ::
  "sales_env \<Rightarrow> nat \<Rightarrow> (nat \<times> sales_line) list \<Rightarrow> sales_line \<Rightarrow> exc + (nat \<times> sales_line) list" where
  "insert_line env h ls l =
     (if \<not> sales_line_fits l then Inl column_overflow
      else if \<not> (0 < sl_number l \<and> se_line_checks env (stored_sales_line l)) then Inl (OtherIntegrityError ''sales_register_line'')
      else if \<exists>(h', l')\<in>set ls. h' = h \<and> sl_number l' = sl_number l
        then Inl (UniqueViolation ''sales_register_line_natural_key'')
      else Inr (ls @ [(h, stored_sales_line l)]))"

definition insert_invoice :: "sales_env \<Rightarrow> sales_load \<Rightarrow> sales_invoice \<Rightarrow> sales_tables \<Rightarrow> exc + sales_tables" where
  "insert_invoice env ld i t =
     (case t of (hs, ls) \<Rightarrow>
        if \<not> invoice_fits i then Inl column_overflow
        else if \<not> se_header_checks env (header_row ld i) then Inl (OtherIntegrityError ''sales_register'')
        else rbind (insert_row sales_key ''sales_register'' (inv_date i) (header_row ld i) hs) (\<lambda>(h, hs').
             rbind (rfold (insert_line env h) ls (inv_lines i)) (\<lambda>ls'. Inr (hs', ls'))))"

text \<open>The body of the loop over the invoices of a file.\<close>

definition upsert_invoice :: "sales_env \<Rightarrow> sales_load \<Rightarrow> sales_invoice \<Rightarrow> sales_tables \<Rightarrow> exc + outcome \<times> sales_tables" where
  "upsert_invoice env ld i t =
     (case t of (hs, ls) \<Rightarrow>
        case find_live_row sales_key (invoice_key ld i) hs of
          Some live \<Rightarrow>
            if inv_document_hash (sr_invoice (ve_row live)) = inv_document_hash i then Inr (Unchanged, t)
            else rbind (insert_invoice env ld i (close_row (sd_now ld) (ve_id live) (inv_date i) hs, ls))
                   (\<lambda>t'. Inr (Superseded, t'))
        | None \<Rightarrow> rbind (insert_invoice env ld i t) (\<lambda>t'. Inr (Inserted, t')))"

section \<open>load\<close>

text \<open>The first five rejections, and how many more there are.\<close>

definition rejection_reason :: "string list \<Rightarrow> string" where
  "rejection_reason rs = join ''; '' (take 5 rs)
     @ (if 5 < length rs then '' (+'' @ nat_str (length rs - 5) @ '' more)'' else [])"

definition sales_batch :: "sales_env \<Rightarrow> sales_load \<Rightarrow> nat \<Rightarrow> ingest_batch" where
  "sales_batch env ld n = \<lparr>ib_batch_id = sd_batch ld, ib_entity_id = sd_entity ld,
     ib_document_type = ''SALES_REGISTER'', ib_source_stream = ''B'', ib_period_start = sd_period_start ld,
     ib_period_end = sd_period_end ld, ib_row_count = n,
     ib_content_hash = se_bytes_digest env (sd_data ld), ib_manifest_ref = sd_ingest ld,
     ib_status = ''READY'', ib_ready_at = sd_now ld, ib_run_id = sd_run ld\<rparr>"

definition sales_tables_of :: "'a sales_db_scheme \<Rightarrow> sales_tables" where
  "sales_tables_of db = (sales_register db, sales_register_line db)"

definition store_invoices ::
  "sales_env \<Rightarrow> sales_load \<Rightarrow> sales_parse \<Rightarrow> 'a sales_db_scheme \<Rightarrow> exc + tally \<times> 'a sales_db_scheme" where
  "store_invoices env ld p db =
     rbind (insert_batch (se_vocabulary env) (sales_batch env ld (line_count p)) db) (\<lambda>db1.
     rbind (upsert_all (upsert_invoice env ld) (sp_invoices p) (no_tally, sales_tables_of db1)) (\<lambda>(n, t).
       Inr (n, db1\<lparr>sales_register := fst t, sales_register_line := snd t\<rparr>)))"

definition sales_quarantine ::
  "sales_env \<Rightarrow> sales_load \<Rightarrow> string \<Rightarrow> 'a sales_db_scheme \<Rightarrow> exc + 'a sales_db_scheme" where
  "sales_quarantine env ld why db = upsert_quarantine (se_vocabulary env)
     \<lparr>qa_ingest_id = sd_ingest ld, qa_entity_id = sd_entity ld, qa_document_type = ''SALES_REGISTER'',
      qa_reason = why, qa_run_id = Some (sd_run ld)\<rparr> db"

text \<open>\<open>sd_label\<close> is the text of the tenant context and the artefact id in the message.\<close>

definition sales_load_run ::
  "sales_env \<Rightarrow> sales_load \<Rightarrow> 'a sales_db_scheme \<Rightarrow> (exc + sales_outcome) \<times> 'a sales_db_scheme" where
  "sales_load_run env ld db =
     (case parse_sales_register_csv (se_digest env) (sd_data ld) of
        Inl e \<Rightarrow> (Inl e, db)
      | Inr p \<Rightarrow>
          if \<not> sp_ok p then
            (let why = rejection_reason (sp_rejections p) in
             case sales_quarantine env ld why db of
               Inl e \<Rightarrow> (Inl e, db)
             | Inr db' \<Rightarrow> (Inl (ValidationRejected (sd_label ld @ '' rejected: '' @ why)), db'))
          else case store_invoices env ld p db of
            Inl e \<Rightarrow> (Inl e, db)
          | Inr (n, db') \<Rightarrow>
              (Inr \<lparr>so_batch = sd_batch ld, so_tally = n, so_invoice_count = length (sp_invoices p),
                 so_line_count = line_count p\<rparr>, db'))"

section \<open>The invariant\<close>

text \<open>The lines of a header, in the order they were inserted.\<close>

definition lines_of_header :: "(nat \<times> sales_line) list \<Rightarrow> nat \<Rightarrow> sales_line list" where
  "lines_of_header ls h = map snd (filter (\<lambda>x. fst x = h) ls)"

definition sales_ok :: "sales_tables \<Rightarrow> bool" where
  "sales_ok t \<longleftrightarrow> rows_ok sales_key (fst t) \<and> (\<forall>x\<in>set (snd t). fst x < length (fst t))"

definition live_document :: "sales_tables \<Rightarrow> uuid \<times> string \<times> string \<Rightarrow> string option" where
  "live_document t k = map_option (\<lambda>v. inv_document_hash (sr_invoice (ve_row v))) (find_live_row sales_key k (fst t))"

lemma header_row_key [simp]: "sales_key (header_row ld i) = invoice_key ld i"
  by (simp add: sales_key_def header_row_def invoice_key_def)

lemma header_row_invoice [simp]: "sr_invoice (header_row ld i) = (stored_invoice i)\<lparr>inv_lines := []\<rparr>"
  by (simp add: header_row_def)

lemma insert_lines_Inr:
  "rfold (insert_line env h) ls new = Inr ls' \<Longrightarrow> ls' = ls @ map (Pair h) (map stored_sales_line new) \<and> (\<forall>l\<in>set new. 0 < sl_number l)"
proof (induction new arbitrary: ls)
  case (Cons l new)
  then obtain ls1 where a: "insert_line env h ls l = Inr ls1" "rfold (insert_line env h) ls1 new = Inr ls'"
    by (auto simp: rbind_eq_Inr_iff)
  from a(1) have "ls1 = ls @ [(h, stored_sales_line l)]" "0 < sl_number l" by (auto simp: insert_line_def split: if_splits)
  with Cons.IH[OF a(2)] show ?case by simp
qed simp

lemma insert_invoice_ok:
  assumes "sales_ok (hs, ls)" "insert_invoice env ld i (hs, ls) = Inr t'"
  shows "t' = (hs @ [new_row (length hs) (inv_date i) (header_row ld i)], ls @ map (Pair (length hs)) (map stored_sales_line (inv_lines i)))
    \<and> sales_ok t'
    \<and> live_document t' k = (if k = invoice_key ld i then Some (inv_document_hash i) else live_document (hs, ls) k)"
proof -
  from assms(2) obtain h hs' ls' where
    a: "insert_row sales_key ''sales_register'' (inv_date i) (header_row ld i) hs = Inr (h, hs')"
      "rfold (insert_line env h) ls (inv_lines i) = Inr ls'" "t' = (hs', ls')"
    by (auto simp: insert_invoice_def rbind_eq_Inr_iff split: if_splits)
  have "rows_ok sales_key hs" using assms(1) by (simp add: sales_ok_def)
  from insert_row_ok[OF this a(1), of k] insert_lines_Inr[OF a(2)] assms(1) a(3) show ?thesis
    by (auto simp: sales_ok_def live_document_def less_SucI)
qed

text \<open>What one turn of the loop does, by the live version it meets.\<close>

lemma upsert_invoice_cases:
  assumes ok: "sales_ok t" and u: "upsert_invoice env ld i t = Inr (c, t')"
  shows "sales_ok t'"
    and "live_document t' k = (if k = invoice_key ld i then Some (inv_document_hash i) else live_document t k)"
    and "c = (case live_document t (invoice_key ld i) of None \<Rightarrow> Inserted
          | Some h \<Rightarrow> if h = inv_document_hash i then Unchanged else Superseded)"
    and "t' = t \<or> (\<exists>hs. history (fst t) hs \<and> length hs = length (fst t)
          \<and> t' = (hs @ [new_row (length hs) (inv_date i) (header_row ld i)], snd t @ map (Pair (length hs)) (map stored_sales_line (inv_lines i))))"
proof -
  obtain hs ls where t: "t = (hs, ls)" by (cases t)
  let ?k = "invoice_key ld i"
  have r: "rows_ok sales_key hs" using ok by (simp add: t sales_ok_def)
  have "sales_ok t' \<and> live_document t' k = (if k = ?k then Some (inv_document_hash i) else live_document t k)
      \<and> c = (case live_document t ?k of None \<Rightarrow> Inserted | Some h \<Rightarrow> if h = inv_document_hash i then Unchanged else Superseded)
      \<and> (t' = t \<or> (\<exists>hs. history (fst t) hs \<and> length hs = length (fst t)
          \<and> t' = (hs @ [new_row (length hs) (inv_date i) (header_row ld i)], snd t @ map (Pair (length hs)) (map stored_sales_line (inv_lines i)))))"
  proof (cases "find_live_row sales_key ?k hs")
    case None
    with u have i: "insert_invoice env ld i (hs, ls) = Inr t'" "c = Inserted"
      by (auto simp: t upsert_invoice_def rbind_eq_Inr_iff)
    from insert_invoice_ok[OF ok[unfolded t] i(1), of k] None i(2) history_refl[of hs] show ?thesis
      by (auto simp: t live_document_def)
  next
    case (Some w)
    show ?thesis
    proof (cases "inv_document_hash (sr_invoice (ve_row w)) = inv_document_hash i")
      case True
      with u Some ok show ?thesis by (auto simp: t upsert_invoice_def live_document_def)
    next
      case False
      let ?hs = "close_row (sd_now ld) (ve_id w) (inv_date i) hs"
      from u Some False have i: "insert_invoice env ld i (?hs, ls) = Inr t'" "c = Superseded"
        by (auto simp: t upsert_invoice_def rbind_eq_Inr_iff)
      note cl = close_row_ok(1,3)[OF r Some, where now = "sd_now ld" and vf = "inv_date i"]
        close_row_ok(2)[OF r Some, where now = "sd_now ld" and vf = "inv_date i" and j = k]
      have ok': "sales_ok (?hs, ls)" using ok cl by (simp add: t sales_ok_def)
      from insert_invoice_ok[OF ok' i(1), of k] cl Some False i(2) history_close[OF r Some, where now = "sd_now ld" and vf = "inv_date i"]
      show ?thesis by (auto simp: t live_document_def)
    qed
  qed
  then show "sales_ok t'"
    "live_document t' k = (if k = invoice_key ld i then Some (inv_document_hash i) else live_document t k)"
    "c = (case live_document t (invoice_key ld i) of None \<Rightarrow> Inserted
          | Some h \<Rightarrow> if h = inv_document_hash i then Unchanged else Superseded)"
    "t' = t \<or> (\<exists>hs. history (fst t) hs \<and> length hs = length (fst t)
          \<and> t' = (hs @ [new_row (length hs) (inv_date i) (header_row ld i)], snd t @ map (Pair (length hs)) (map stored_sales_line (inv_lines i))))"
    by blast+
qed

lemma upsert_invoice_no_op:
  "live_document t (invoice_key ld i) = Some (inv_document_hash i) \<Longrightarrow> upsert_invoice env ld i t = Inr (Unchanged, t)"
  by (cases t) (auto simp: upsert_invoice_def live_document_def)

interpretation sales:
  versioned_upsert "upsert_invoice env ld" sales_ok live_document "invoice_key ld" inv_document_hash "\<lambda>_. True"
  for env ld
  by unfold_locales (auto simp: upsert_invoice_cases(2) upsert_invoice_no_op dest: upsert_invoice_cases(1,3))

section \<open>Whole invoices\<close>

text \<open>
  Every header row added since \<open>t0\<close> is one invoice of the file with all its lines and no
  other, each amount as its column rounds it; rows and lines that were there stay.
\<close>

definition loaded_from :: "sales_load \<Rightarrow> sales_invoice list \<Rightarrow> sales_tables \<Rightarrow> sales_tables \<Rightarrow> bool" where
  "loaded_from ld invs t0 t \<longleftrightarrow> history (fst t0) (fst t)
     \<and> (\<exists>new. snd t = snd t0 @ new \<and> (\<forall>x\<in>set new. length (fst t0) \<le> fst x))
     \<and> (\<forall>n. length (fst t0) \<le> n \<and> n < length (fst t) \<longrightarrow>
          (\<exists>i\<in>set invs. ve_row (fst t ! n) = header_row ld i \<and> ve_valid_from (fst t ! n) = inv_date i
             \<and> lines_of_header (snd t) n = map stored_sales_line (inv_lines i)))"

lemma lines_of_header_append: "lines_of_header (ls @ ms) h = lines_of_header ls h @ lines_of_header ms h"
  by (simp add: lines_of_header_def)

lemma lines_of_header_Pair [simp]: "lines_of_header (map (Pair g) ls) h = (if g = h then ls else [])"
  by (induction ls) (auto simp: lines_of_header_def)

lemma lines_of_header_fresh: "\<forall>x\<in>set ls. fst x < h \<Longrightarrow> lines_of_header ls h = []"
  by (auto simp: lines_of_header_def filter_empty_conv)

lemma loaded_from_refl: "loaded_from ld invs t t"
  unfolding loaded_from_def by simp (metis not_less)

lemma loaded_from_step:
  assumes l: "loaded_from ld invs t0 t" and ok: "sales_ok t" and i: "i \<in> set invs"
    and u: "upsert_invoice env ld i t = Inr (c, t')"
  shows "loaded_from ld invs t0 t'"
  using upsert_invoice_cases(4)[OF ok u]
proof
  assume "\<exists>hs. history (fst t) hs \<and> length hs = length (fst t)
      \<and> t' = (hs @ [new_row (length hs) (inv_date i) (header_row ld i)], snd t @ map (Pair (length hs)) (map stored_sales_line (inv_lines i)))"
  then obtain hs where hs: "history (fst t) hs" "length hs = length (fst t)"
    and t': "t' = (hs @ [new_row (length hs) (inv_date i) (header_row ld i)], snd t @ map (Pair (length hs)) (map stored_sales_line (inv_lines i)))"
    by blast
  from l obtain new where h: "history (fst t0) (fst t)" and new: "snd t = snd t0 @ new" "\<forall>x\<in>set new. length (fst t0) \<le> fst x"
    and rows: "\<And>n. length (fst t0) \<le> n \<Longrightarrow> n < length (fst t) \<Longrightarrow>
          (\<exists>i\<in>set invs. ve_row (fst t ! n) = header_row ld i \<and> ve_valid_from (fst t ! n) = inv_date i
             \<and> lines_of_header (snd t) n = map stored_sales_line (inv_lines i))"
    unfolding loaded_from_def by blast
  have f: "lines_of_header (snd t) (length hs) = []"
    using ok hs(2) by (intro lines_of_header_fresh) (simp add: sales_ok_def)
  have "history (fst t0) (fst t')"
    using history_trans[OF history_trans[OF h hs(1)] history_append] by (simp add: t')
  moreover have "snd t' = snd t0 @ (new @ map (Pair (length hs)) (map stored_sales_line (inv_lines i)))" by (simp add: t' new(1))
  moreover have "\<forall>x\<in>set (new @ map (Pair (length hs)) (map stored_sales_line (inv_lines i))). length (fst t0) \<le> fst x"
    using new(2) h hs(2) by (auto simp: history_def)
  moreover have "\<exists>j\<in>set invs. ve_row (fst t' ! n) = header_row ld j \<and> ve_valid_from (fst t' ! n) = inv_date j
      \<and> lines_of_header (snd t') n = map stored_sales_line (inv_lines j)" if n: "length (fst t0) \<le> n" "n < length (fst t')" for n
  proof (cases "n = length hs")
    case True
    with i f show ?thesis by (auto simp: t' lines_of_header_append simp del: map_map)
  next
    case False
    then have n': "n < length (fst t)" using n(2) hs(2) by (simp add: t')
    moreover have "same_facts (fst t ! n) (hs ! n)" using hs n' by (simp add: history_def)
    ultimately show ?thesis
      using rows[OF n(1) n'] False hs(2) by (simp add: t' nth_append lines_of_header_append same_facts_def del: map_map)
  qed
  ultimately show ?thesis unfolding loaded_from_def by blast
qed (use l in simp)

lemma upsert_all_loaded:
  assumes "upsert_all (upsert_invoice env ld) invs (n, t) = Inr (n', t')" "sales_ok t"
  shows "sales_ok t' \<and> loaded_from ld invs t t'"
proof (rule upsert_all_invariant[OF assms(1)])
  show "sales_ok t \<and> loaded_from ld invs t t" using assms(2) loaded_from_refl by simp
  show "sales_ok u' \<and> loaded_from ld invs t u'" if "i \<in> set invs" "sales_ok u \<and> loaded_from ld invs t u"
    "upsert_invoice env ld i u = Inr (c, u')" for i u c u'
    using that upsert_invoice_cases(1) loaded_from_step by blast
qed

lemma store_invoices_Inr:
  "store_invoices env ld p db = Inr (n, db') \<longleftrightarrow>
     (\<exists>db1 t. insert_batch (se_vocabulary env) (sales_batch env ld (line_count p)) db = Inr db1
        \<and> upsert_all (upsert_invoice env ld) (sp_invoices p) (no_tally, sales_tables_of db) = Inr (n, t)
        \<and> db' = db1\<lparr>sales_register := fst t, sales_register_line := snd t\<rparr>)"
proof -
  have "sales_tables_of db1 = sales_tables_of db"
    if "insert_batch (se_vocabulary env) (sales_batch env ld (line_count p)) db = Inr db1" for db1
    using insert_batch_Inr[OF that] by (simp add: sales_tables_of_def)
  then show ?thesis unfolding store_invoices_def by (auto simp: rbind_eq_Inr_iff)
qed

lemma sales_load_Inr:
  assumes "sales_load_run env ld db = (Inr out, db')"
  obtains p where "parse_sales_register_csv (se_digest env) (sd_data ld) = Inr p" "sp_ok p"
    "store_invoices env ld p db = Inr (so_tally out, db')" "so_invoice_count out = length (sp_invoices p)"
    "so_line_count out = line_count p"
  using assms unfolding sales_load_run_def by (auto simp: Let_def split: sum.splits if_splits)

text \<open>
  C13. What a successful sales load does. The file parsed without a rejection; one batch is added, whose
  row count is the number of lines; every invoice of the file is the live version of its number for
  the registration, identified by its document hash; every other invoice is as it was. No row or
  line is lost or rewritten, a version may only be closed; and every header the load added is one
  invoice of the file, from its own date on, with exactly that invoice's lines, every amount rounded to
  the decimals of its column.
\<close>

theorem sales_load_effect:
  assumes run: "sales_load_run env ld db = (Inr out, db')" and ok: "sales_ok (sales_tables_of db)"
  shows "\<exists>p. parse_sales_register_csv (se_digest env) (sd_data ld) = Inr p \<and> sp_ok p
    \<and> batches db' = batches db @ [sales_batch env ld (line_count p)]
    \<and> quarantined db' = quarantined db
    \<and> sales_ok (sales_tables_of db') \<and> loaded_from ld (sp_invoices p) (sales_tables_of db) (sales_tables_of db')
    \<and> (\<forall>i\<in>set (sp_invoices p). live_document (sales_tables_of db') (invoice_key ld i) = Some (inv_document_hash i))
    \<and> (\<forall>k. k \<notin> invoice_key ld ` set (sp_invoices p)
          \<longrightarrow> live_document (sales_tables_of db') k = live_document (sales_tables_of db) k)
    \<and> tally_total (so_tally out) = length (sp_invoices p)"
proof -
  from run obtain p where p: "parse_sales_register_csv (se_digest env) (sd_data ld) = Inr p" "sp_ok p"
    and st: "store_invoices env ld p db = Inr (so_tally out, db')" by (rule sales_load_Inr)
  from st obtain db1 t where b: "insert_batch (se_vocabulary env) (sales_batch env ld (line_count p)) db = Inr db1"
    and u: "upsert_all (upsert_invoice env ld) (sp_invoices p) (no_tally, sales_tables_of db) = Inr (so_tally out, t)"
    and db': "db' = db1\<lparr>sales_register := fst t, sales_register_line := snd t\<rparr>"
    unfolding store_invoices_Inr by blast
  have t: "sales_tables_of db' = t" by (simp add: sales_tables_of_def db')
  have d: "distinct (map (invoice_key ld) (sp_invoices p))"
  proof -
    have "distinct (map inv_no (sp_invoices p))" using parse_sales_distinct[OF p(1)] .
    then show ?thesis by (simp add: distinct_map inj_on_def invoice_key_def)
  qed
  have l: "live_document t (invoice_key ld i) = Some (inv_document_hash i)" if "i \<in> set (sp_invoices p)" for i
    by (rule sales.upsert_all_each_live[OF ok u d that])
  have o: "live_document t k = live_document (sales_tables_of db) k" if "k \<notin> invoice_key ld ` set (sp_invoices p)" for k
  proof -
    have "List.find (\<lambda>r. invoice_key ld r = k) (rev (sp_invoices p)) = None"
      using that by (auto simp: find_None_iff)
    then show ?thesis using sales.upsert_all_live[OF ok u, of k] by simp
  qed
  have "tally_total (so_tally out) = length (sp_invoices p)"
    using sales.upsert_all_total[OF u] by (simp add: tally_total_def no_tally_def)
  moreover have "batches db' = batches db @ [sales_batch env ld (line_count p)] \<and> quarantined db' = quarantined db"
    using insert_batch_Inr[OF b] by (simp add: db')
  ultimately show ?thesis
    using p upsert_all_loaded[OF u ok] l o unfolding t by blast
qed

text \<open>
  C36. Re-exporting a sales file is idempotent without any condition on the file: grouping has already
  made its invoice numbers distinct. Loading it again for the same registration, for whatever
  period, inserts nothing, supersedes nothing, counts every invoice as unchanged and leaves both
  tables as they were; only a new batch is announced.
\<close>

theorem sales_reload_idempotent:
  assumes first: "sales_load_run env ld db = (Inr out, db')" and ok: "sales_ok (sales_tables_of db)"
    and again: "ld2 = ld\<lparr>sd_batch := b, sd_run := r, sd_ingest := g, sd_now := now, sd_period_start := ps,
        sd_period_end := pe, sd_label := m\<rparr>"
    and fresh_batch: "\<forall>c\<in>set (batches db'). ib_batch_id c \<noteq> b" and period: "ps \<le> pe"
  shows "\<exists>out2 db2. sales_load_run env ld2 db' = (Inr out2, db2)
    \<and> so_tally out2 = \<lparr>n_inserted = 0, n_unchanged = so_invoice_count out, n_superseded = 0\<rparr>
    \<and> sales_tables_of db2 = sales_tables_of db' \<and> length (batches db2) = Suc (length (batches db'))"
proof -
  from first obtain p where p: "parse_sales_register_csv (se_digest env) (sd_data ld) = Inr p" "sp_ok p"
    and st: "store_invoices env ld p db = Inr (so_tally out, db')"
    and n: "so_invoice_count out = length (sp_invoices p)" by (rule sales_load_Inr)
  from st obtain db1 t where b: "insert_batch (se_vocabulary env) (sales_batch env ld (line_count p)) db = Inr db1"
    and u: "upsert_all (upsert_invoice env ld) (sp_invoices p) (no_tally, sales_tables_of db) = Inr (so_tally out, t)"
    and db': "db' = db1\<lparr>sales_register := fst t, sales_register_line := snd t\<rparr>"
    unfolding store_invoices_Inr by blast
  have t: "sales_tables_of db' = t" by (simp add: sales_tables_of_def db')
  have k: "invoice_key ld2 = invoice_key ld" by (simp add: invoice_key_def again fun_eq_iff)
  have d: "distinct (map (invoice_key ld) (sp_invoices p))"
    using parse_sales_distinct[OF p(1)] by (simp add: distinct_map inj_on_def invoice_key_def)
  have "\<forall>i\<in>set (sp_invoices p). True \<and> live_document t (invoice_key ld2 i) = Some (inv_document_hash i)"
    unfolding k using sales.upsert_all_each_live[OF ok u d] by blast
  from sales.upsert_all_no_op[OF _ this, of env no_tally] upsert_all_loaded[OF u ok] have
    u2: "upsert_all (upsert_invoice env ld2) (sp_invoices p) (no_tally, t)
      = Inr (no_tally\<lparr>n_unchanged := length (sp_invoices p)\<rparr>, t)" by (simp add: no_tally_def)
  let ?b = "sales_batch env ld2 (line_count p)"
  have "insert_batch (se_vocabulary env) ?b db' = Inr (db'\<lparr>batches := batches db' @ [?b]\<rparr>)"
    using b fresh_batch period by (auto simp: insert_batch_def sales_batch_def again split: if_splits)
  then have "store_invoices env ld2 p db' = Inr (no_tally\<lparr>n_unchanged := length (sp_invoices p)\<rparr>,
      db'\<lparr>batches := batches db' @ [?b], sales_register := fst t, sales_register_line := snd t\<rparr>)"
    unfolding store_invoices_Inr t using u2 by blast
  then show ?thesis
    using p n t by (simp add: sales_load_run_def again no_tally_def sales_tables_of_def prod_eq_iff)
qed

text \<open>
  A sales load that fails writes no batch, no header and no line. It may leave the verdict on the
  file, and leaves it whenever the file was parsed and refused: then the error is
  \<open>ValidationRejected\<close> and the recorded reason is its first five rejections.
\<close>

theorem failed_sales_load:
  assumes "sales_load_run env ld db = (Inl e, db')"
    and "(''Document_Type'', ''SALES_REGISTER'') \<in> set (se_vocabulary env)"
  shows "batches db' = batches db \<and> sales_tables_of db' = sales_tables_of db \<and> rejected_rows db' = rejected_rows db
    \<and> (case parse_sales_register_csv (se_digest env) (sd_data ld) of
         Inl x \<Rightarrow> e = x \<and> db' = db
       | Inr p \<Rightarrow> if sp_ok p then db' = db
           else e = ValidationRejected (sd_label ld @ '' rejected: '' @ rejection_reason (sp_rejections p))
             \<and> (\<exists>q\<in>set (quarantined db'). qa_ingest_id q = sd_ingest ld
                  \<and> qa_reason q = rejection_reason (sp_rejections p)))"
proof (cases "parse_sales_register_csv (se_digest env) (sd_data ld)")
  case (Inl x)
  with assms(1) show ?thesis by (simp add: sales_load_run_def)
next
  case (Inr p)
  show ?thesis
  proof (cases "sp_ok p")
    case True
    with Inr assms(1) show ?thesis by (auto simp: sales_load_run_def split: sum.splits)
  next
    case False
    let ?why = "rejection_reason (sp_rejections p)"
    have "\<exists>db1. sales_quarantine env ld ?why db = Inr db1"
      unfolding sales_quarantine_def by (rule upsert_quarantine_total) (use assms(2) in simp)
    then obtain db1 where q: "sales_quarantine env ld ?why db = Inr db1" ..
    with Inr False assms(1) have e: "e = ValidationRejected (sd_label ld @ '' rejected: '' @ ?why)" "db' = db1"
      by (simp_all add: sales_load_run_def Let_def)
    from upsert_quarantine_shape[OF q[unfolded sales_quarantine_def]]
    have "sales_tables_of db1 = sales_tables_of db" by (auto simp: sales_tables_of_def)
    with upsert_quarantine_Inr[OF q[unfolded sales_quarantine_def]] Inr False show ?thesis
      by (simp add: e)
  qed
qed

section \<open>Witnesses\<close>

definition demo_sales_env :: sales_env where
  "demo_sales_env = \<lparr>se_digest = id, se_bytes_digest = id,
     se_vocabulary = [(''Document_Type'', ''SALES_REGISTER''), (''Source_Stream'', ''B''), (''Batch_Status'', ''READY'')],
     se_header_checks = (\<lambda>r. True), se_line_checks = (\<lambda>l. True)\<rparr>"

definition demo_sales_db :: sales_db where
  "demo_sales_db = \<lparr>batches = [], quarantined = [], rejected_rows = [], sales_register = [], sales_register_line = []\<rparr>"

definition demo_sales_load :: "nat \<Rightarrow> string list \<Rightarrow> sales_load" where
  "demo_sales_load n rs = \<lparr>sd_label = ''acme'', sd_entity = 1, sd_gstin = ''29ABCDE1234F1Z5'', sd_ingest = n,
     sd_data = demo_sales_csv rs, sd_period_start = Date 2026 4 1, sd_period_end = Date 2026 4 30,
     sd_run = n, sd_batch = n, sd_now = n\<rparr>"

lemma demo_sales_ok: "sales_ok (sales_tables_of demo_sales_db)"
  by (simp add: sales_ok_def sales_tables_of_def demo_sales_db_def)

lemma demo_sales_runs:
  "\<exists>out db'. sales_load_run demo_sales_env (demo_sales_load 7 [demo_sales_row ''A'' ''1'' ''5'']) demo_sales_db = (Inr out, db')
     \<and> so_invoice_count out = 1 \<and> map ib_batch_id (batches db') = [7]"
proof -
  let ?r = "sales_load_run demo_sales_env (demo_sales_load 7 [demo_sales_row ''A'' ''1'' ''5'']) demo_sales_db"
  have "case ?r of (Inr out, db') \<Rightarrow> so_invoice_count out = 1 \<and> map ib_batch_id (batches db') = [7]
     | (Inl e, db') \<Rightarrow> False" by code_simp
  then show ?thesis by (cases ?r; cases "fst ?r") auto
qed

theorem sales_load_effect_witness:
  "\<exists>out db'. sales_load_run demo_sales_env (demo_sales_load 7 [demo_sales_row ''A'' ''1'' ''5'']) demo_sales_db = (Inr out, db')
     \<and> length (batches db') = 1 \<and> sales_ok (sales_tables_of db')"
proof -
  obtain out db' where r: "sales_load_run demo_sales_env (demo_sales_load 7 [demo_sales_row ''A'' ''1'' ''5'']) demo_sales_db
      = (Inr out, db')" using demo_sales_runs by blast
  from sales_load_effect[OF r demo_sales_ok] have "sales_ok (sales_tables_of db')"
    "\<exists>b. batches db' = batches demo_sales_db @ [b]" by blast+
  moreover have "batches demo_sales_db = []" by (simp add: demo_sales_db_def)
  ultimately show ?thesis using r by (metis append_Nil length_Cons list.size(3) One_nat_def)
qed

theorem sales_reload_idempotent_witness:
  "\<exists>out db' out2 db2. sales_load_run demo_sales_env (demo_sales_load 7 [demo_sales_row ''A'' ''1'' ''5'']) demo_sales_db = (Inr out, db')
     \<and> sales_load_run demo_sales_env (demo_sales_load 7 [demo_sales_row ''A'' ''1'' ''5'']\<lparr>sd_batch := 8, sd_run := 8,
         sd_ingest := 8, sd_now := 8, sd_period_start := Date 2026 5 1, sd_period_end := Date 2026 5 31, sd_label := ''acme''\<rparr>) db' = (Inr out2, db2)
     \<and> so_tally out2 = \<lparr>n_inserted = 0, n_unchanged = 1, n_superseded = 0\<rparr>"
proof -
  obtain out db' where r: "sales_load_run demo_sales_env (demo_sales_load 7 [demo_sales_row ''A'' ''1'' ''5'']) demo_sales_db
      = (Inr out, db')" "so_invoice_count out = 1" "map ib_batch_id (batches db') = [7]"
    using demo_sales_runs by (elim exE conjE)
  have f: "\<forall>c\<in>set (batches db'). ib_batch_id c \<noteq> 8" using r(3) by auto
  have d: "Date 2026 5 1 \<le> Date 2026 5 31" by (simp add: less_eq_date_def)
  from sales_reload_idempotent[OF r(1) demo_sales_ok refl f d, where r = 8 and g = 8 and now = 8 and m = "''acme''"] r show ?thesis by metis
qed

theorem failed_sales_load_witness:
  "\<exists>e db'. sales_load_run demo_sales_env (demo_sales_load 7 []) demo_sales_db = (Inl e, db')
     \<and> batches db' = [] \<and> map qa_reason (quarantined db') = [''file contains no data rows'']"
proof -
  let ?r = "sales_load_run demo_sales_env (demo_sales_load 7 []) demo_sales_db"
  have c: "case ?r of (Inl e, db') \<Rightarrow> map qa_reason (quarantined db') = [''file contains no data rows''] | (Inr e, db') \<Rightarrow> False"
    by code_simp
  then obtain e where r: "?r = (Inl e, snd ?r)" by (cases ?r; cases "fst ?r") auto
  have "(''Document_Type'', ''SALES_REGISTER'') \<in> set (se_vocabulary demo_sales_env)" by (simp add: demo_sales_env_def)
  from failed_sales_load[OF r this] have "batches (snd ?r) = batches demo_sales_db" by (elim conjE)
  moreover have "batches demo_sales_db = []" by (simp add: demo_sales_db_def)
  moreover have "map qa_reason (quarantined (snd ?r)) = [''file contains no data rows'']"
    using c by (subst (asm) r) simp
  ultimately show ?thesis using r by metis
qed

end
