(* ===== verification/Outcome.thy ===== *)
theory Outcome
  imports Reader RegisterStore SalesStore
begin

text \<open>
  What the status of an artefact says after the loads of it: \<open>SilverReader.artefact_outcome\<close>
  over the databases \<open>RegisterLoader.load\<close>, \<open>SalesRegisterLoader.load\<close> and
  \<open>promote_transaction_documents\<close> leave behind.
\<close>

section \<open>Status after one batch\<close>

text \<open>Nothing is known of the artefact yet.\<close>

definition untouched :: "uuid \<Rightarrow> 'a silver_core_scheme \<Rightarrow> bool" where
  "untouched u db \<longleftrightarrow> u \<notin> qa_ingest_id ` set (quarantined db) \<and> u \<notin> ib_manifest_ref ` set (batches db)
     \<and> u \<notin> rr_ingest_id ` set (rejected_rows db)"

definition has_verdict :: "uuid \<Rightarrow> 'a silver_core_scheme \<Rightarrow> bool" where
  "has_verdict u db \<longleftrightarrow> u \<in> qa_ingest_id ` set (quarantined db)"

lemma find_none: "u \<notin> f ` set xs \<Longrightarrow> List.find (\<lambda>x. f x = u) xs = None"
  by (auto simp: find_None_iff)

lemma find_append: "List.find P (xs @ ys) = (case List.find P xs of None \<Rightarrow> List.find P ys | Some x \<Rightarrow> Some x)"
  by (induction xs) auto

lemma untouchedD:
  assumes "untouched u db"
  shows "q \<in> set (quarantined db) \<Longrightarrow> qa_ingest_id q \<noteq> u" and "r \<in> set (rejected_rows db) \<Longrightarrow> rr_ingest_id r \<noteq> u"
  using assms by (auto simp: untouched_def)

lemma sort_key_Nil [simp]: "sort_key f xs = [] \<longleftrightarrow> xs = []"
  by (metis length_sort length_0_conv)

lemma outcome_untouched: "untouched u db \<Longrightarrow> ao_status (artefact_outcome_of u db) = PENDING"
  by (simp add: untouched_def artefact_outcome_of_def find_none)

lemma outcome_verdict:
  assumes "has_verdict u db"
  shows "ao_status (artefact_outcome_of u db) = QUARANTINED \<and> ao_batch (artefact_outcome_of u db) = None
    \<and> ao_accepted (artefact_outcome_of u db) = None
    \<and> (\<exists>q\<in>set (quarantined db). qa_ingest_id q = u \<and> ao_reason (artefact_outcome_of u db) = Some (qa_reason q))"
proof -
  from assms obtain q where f: "List.find (\<lambda>q. qa_ingest_id q = u) (quarantined db) = Some q"
    by (cases "List.find (\<lambda>q. qa_ingest_id q = u) (quarantined db)") (auto simp: has_verdict_def find_None_iff)
  then have "q \<in> set (quarantined db)" "qa_ingest_id q = u" by (auto simp: find_Some_iff)
  then show ?thesis by (auto simp: artefact_outcome_of_def f)
qed

lemma rejections_length: "length (rejections_of u db) = length (filter (\<lambda>r. rr_ingest_id r = u) (rejected_rows db))"
  by (simp add: rejections_of_def)

lemma filter_all: "(\<And>x. x \<in> set xs \<Longrightarrow> P x) \<Longrightarrow> filter P xs = xs"
  by (induction xs) auto

text \<open>A load that adds one batch and some rejections of the artefact.\<close>

lemma outcome_first_batch:
  assumes "untouched u db" "quarantined db' = quarantined db" "batches db' = batches db @ [b]" "ib_manifest_ref b = u"
    and "rejected_rows db' = rejected_rows db @ rs" "\<forall>r\<in>set rs. rr_ingest_id r = u"
  shows "artefact_outcome_of u db' = \<lparr>ao_ingest = u, ao_status = (if rs = [] then ACCEPTED else PARTIAL),
     ao_document_type = Some (ib_document_type b), ao_batch = Some (ib_batch_id b),
     ao_row_count = Some (ib_row_count b + length rs), ao_accepted = Some (ib_row_count b),
     ao_rejected = length rs, ao_reason = None, ao_rejections = map rejection_of (sort_key rr_source_line rs)\<rparr>"
proof -
  have "filter (\<lambda>r. rr_ingest_id r = u) (rejected_rows db) = []"
    using untouchedD(2)[OF assms(1)] by (auto simp: filter_empty_conv)
  then have "filter (\<lambda>r. rr_ingest_id r = u) (rejected_rows db') = rs"
    using assms(5,6) by (simp add: filter_all)
  then have "rejections_of u db' = map rejection_of (sort_key rr_source_line rs)" by (simp add: rejections_of_def)
  with assms(1-4) show ?thesis
    by (simp add: artefact_outcome_of_def Let_def untouched_def find_none find_append)
qed

section \<open>Register loads\<close>

lemma store_parsed_core:
  assumes "store_parsed env spec rl pv code parsed db = Inr (n, db')"
  shows "quarantined db' = quarantined db \<and> batches db' = batches db @ [batch_of env rl code (row_count parsed)]
    \<and> rejected_rows db' = rejected_rows db @ map (rejected_of rl code) (pr_rejections parsed)"
  using assms by (auto simp: store_parsed_Inr insert_rejected_def dest!: insert_batch_Inr)

lemma register_load_core:
  assumes "register_load_run env spec rl db = (Inr out, db')"
  obtains b rs where "quarantined db' = quarantined db" "batches db' = batches db @ [b]" "rejected_rows db' = rejected_rows db @ rs"
    "ib_manifest_ref b = rl_ingest rl" "ib_batch_id b = ro_batch out" "ib_row_count b = ro_row_count out"
    "length rs = ro_rejected out" "\<forall>r\<in>set rs. rr_ingest_id r = rl_ingest rl" "ib_status b = ''READY''"
proof -
  from assms obtain code pv parsed where s: "store_parsed env spec rl pv code parsed db = Inr (ro_tally out, db')"
    and o: "ro_batch out = rl_batch rl" "ro_row_count out = row_count parsed" "ro_rejected out = length (pr_rejections parsed)"
    unfolding register_load_run_def by (auto simp: rbind_eq_Inr_iff split: sum.splits option.splits)
  show thesis
    by (rule that[of "batch_of env rl code (row_count parsed)" "map (rejected_of rl code) (pr_rejections parsed)"])
       (use store_parsed_core[OF s] o in \<open>auto simp: batch_of_def rejected_of_def\<close>)
qed

text \<open>
  After the first load of an artefact the status page agrees with what the loader returned: the
  batch, the number of rows kept and dropped, and \<open>PARTIAL\<close> exactly when one was dropped.
\<close>

theorem register_outcome_reported:
  assumes "register_load_run env spec rl db = (Inr out, db')" "untouched (rl_ingest rl) db"
  shows "ao_status (artefact_outcome_of (rl_ingest rl) db') = (if 0 < ro_rejected out then PARTIAL else ACCEPTED)
    \<and> ao_batch (artefact_outcome_of (rl_ingest rl) db') = Some (ro_batch out)
    \<and> ao_accepted (artefact_outcome_of (rl_ingest rl) db') = Some (ro_row_count out)
    \<and> ao_rejected (artefact_outcome_of (rl_ingest rl) db') = ro_rejected out
    \<and> ao_row_count (artefact_outcome_of (rl_ingest rl) db') = Some (ro_row_count out + ro_rejected out)"
proof -
  from assms(1) obtain b rs where b: "quarantined db' = quarantined db" "batches db' = batches db @ [b]"
    "rejected_rows db' = rejected_rows db @ rs" "ib_manifest_ref b = rl_ingest rl" "ib_batch_id b = ro_batch out"
    "ib_row_count b = ro_row_count out" "length rs = ro_rejected out" "\<forall>r\<in>set rs. rr_ingest_id r = rl_ingest rl"
    by (rule register_load_core)
  have "rs = [] \<longleftrightarrow> ro_rejected out = 0" using b(7) by auto
  with outcome_first_batch[OF assms(2) b(1,2,4,3,8)] b(5,6,7) show ?thesis by simp
qed

text \<open>
  Triggering the same artefact a second time spoils its status. The rejections of both runs carry
  the artefact's id and are all counted, against the rows of the first batch only: a file of ten rows
  with one bad row is reported as eleven rows, two of them rejected.
\<close>

theorem second_trigger_counts_twice:
  assumes "register_load_run env spec rl db = (Inr out, db1)" "untouched (rl_ingest rl) db"
    and "register_load_run env' spec' rl' db1 = (Inr out', db2)" "rl_ingest rl' = rl_ingest rl"
  shows "ao_accepted (artefact_outcome_of (rl_ingest rl) db2) = Some (ro_row_count out)
    \<and> ao_rejected (artefact_outcome_of (rl_ingest rl) db2) = ro_rejected out + ro_rejected out'
    \<and> ao_row_count (artefact_outcome_of (rl_ingest rl) db2) = Some (ro_row_count out + ro_rejected out + ro_rejected out')"
proof -
  let ?u = "rl_ingest rl"
  from assms(1) obtain b rs where b: "quarantined db1 = quarantined db" "batches db1 = batches db @ [b]"
    "rejected_rows db1 = rejected_rows db @ rs" "ib_manifest_ref b = ?u" "ib_batch_id b = ro_batch out"
    "ib_row_count b = ro_row_count out" "length rs = ro_rejected out" "\<forall>r\<in>set rs. rr_ingest_id r = ?u"
    by (rule register_load_core)
  from assms(3) obtain c qs where c: "quarantined db2 = quarantined db1" "batches db2 = batches db1 @ [c]"
    "rejected_rows db2 = rejected_rows db1 @ qs" "length qs = ro_rejected out'" "\<forall>r\<in>set qs. rr_ingest_id r = ?u"
    by (rule register_load_core) (use assms(4) in simp)
  have "filter (\<lambda>r. rr_ingest_id r = ?u) (rejected_rows db) = []"
    using untouchedD(2)[OF assms(2)] by (auto simp: filter_empty_conv)
  then have "filter (\<lambda>r. rr_ingest_id r = ?u) (rejected_rows db2) = rs @ qs"
    using b(3,8) c(3,5) by (simp add: filter_all)
  then have "length (rejections_of ?u db2) = ro_rejected out + ro_rejected out'"
    by (simp add: rejections_length b(7) c(4))
  moreover have "List.find (\<lambda>q. qa_ingest_id q = ?u) (quarantined db2) = None"
    "List.find (\<lambda>b. ib_manifest_ref b = ?u) (batches db2) = Some b"
    using assms(2) b(1,2,4) c(1,2) by (simp_all add: untouched_def find_none find_append)
  ultimately show ?thesis by (simp add: artefact_outcome_of_def Let_def b(6))
qed

section \<open>Verdicts\<close>

lemma promotion_keeps_verdicts: "promote_run env pm db = (Inr m, db') \<Longrightarrow> quarantined db' = quarantined db"
  by (erule promote_run_Inr) (auto dest: store_documents_Inr)

lemma sales_keeps_verdicts: "sales_load_run env ld db = (Inr out, db') \<Longrightarrow> quarantined db' = quarantined db"
  by (auto simp: sales_load_run_def store_invoices_def Let_def rbind_eq_Inr_iff dest!: insert_batch_Inr
      split: sum.splits if_splits)

text \<open>
  A verdict outlives its cause. No loader that succeeds takes back the verdict of an earlier
  attempt, and the status page looks at verdicts first: an artefact that was quarantined and, after a
  correction of its contract or parser, loaded in full stays \<open>QUARANTINED\<close> with the old reason
  and without a batch, while Pipeline 2 is handed its batch.
\<close>

theorem verdict_outlives_success:
  assumes "has_verdict (pm_ingest pm) db" "promote_run env pm db = (Inr m, db')"
  shows "ao_status (artefact_outcome_of (pm_ingest pm) db') = QUARANTINED
    \<and> ao_batch (artefact_outcome_of (pm_ingest pm) db') = None
    \<and> (\<exists>b\<in>set (batches db'). ib_manifest_ref b = pm_ingest pm \<and> ib_status b = ''READY'')"
proof -
  have "has_verdict (pm_ingest pm) db'" using assms(1) promotion_keeps_verdicts[OF assms(2)] by (simp add: has_verdict_def)
  note v = outcome_verdict[OF this]
  from assms(2) obtain spec res where "store_documents env spec pm res db = Inr db'" by (rule promote_run_Inr)
  from store_documents_Inr[OF this] have "promotion_batch env spec pm (vr_row_count res) \<in> set (batches db')" by simp
  moreover have "ib_manifest_ref (promotion_batch env spec pm n) = pm_ingest pm" "ib_status (promotion_batch env spec pm n) = ''READY''" for n
    by (simp_all add: promotion_batch_def)
  ultimately show ?thesis using v by blast
qed

text \<open>
  What a promotion of a fresh artefact leaves on the status page, in every case. Success is
  \<open>ACCEPTED\<close> with the count of lines, a file the validator refuses is \<open>QUARANTINED\<close> with
  at most twenty of its rejections, and anything else, an exception of the validator or of the database
  or a type the registry does not promote, leaves the artefact \<open>PENDING\<close> for good.
\<close>

theorem promotion_outcome_reported:
  assumes "promote_run env pm db = (r, db')" "untouched (pm_ingest pm) db"
    and "(''Document_Type'', pm_doc_type pm) \<in> set (pe_vocabulary env)"
  shows "case r of
      Inr m \<Rightarrow> ao_status (artefact_outcome_of (pm_ingest pm) db') = ACCEPTED
        \<and> ao_accepted (artefact_outcome_of (pm_ingest pm) db') = Some (bm_row_count m)
    | Inl e \<Rightarrow>
        (case rbind (load_spec (pe_registry env) (pm_doc_type pm)) (\<lambda>spec. validate_transaction_csv (pm_data pm) (ts_contract spec)) of
           Inr res \<Rightarrow> if vr_ok res then ao_status (artefact_outcome_of (pm_ingest pm) db') = PENDING
             else ao_status (artefact_outcome_of (pm_ingest pm) db') = QUARANTINED
               \<and> ao_reason (artefact_outcome_of (pm_ingest pm) db') = Some (join ''; '' (take 20 (vr_rejections res)))
         | Inl _ \<Rightarrow> ao_status (artefact_outcome_of (pm_ingest pm) db') = PENDING)"
proof (cases r)
  case (Inr m)
  from assms(1)[unfolded Inr] obtain spec res where s: "store_documents env spec pm res db = Inr db'"
    "m = manifest_of env spec pm (vr_row_count res)" by (rule promote_run_Inr)
  let ?b = "promotion_batch env spec pm (vr_row_count res)"
  have "quarantined db' = quarantined db" "batches db' = batches db @ [?b]" "rejected_rows db' = rejected_rows db @ []"
    "ib_manifest_ref ?b = pm_ingest pm"
    using store_documents_Inr[OF s(1)] by (simp_all add: promotion_batch_def)
  from outcome_first_batch[OF assms(2) this(1,2,4,3)] show ?thesis by (simp add: Inr s(2) promotion_batch_def manifest_of_def)
next
  case (Inl e)
  let ?v = "rbind (load_spec (pe_registry env) (pm_doc_type pm)) (\<lambda>spec. validate_transaction_csv (pm_data pm) (ts_contract spec))"
  show ?thesis
  proof (cases ?v)
    case (Inl d)
    then have "db' = db" using assms(1) unfolding promote_run_def
      by (auto simp: rbind_eq_Inl_iff rbind_eq_Inr_iff split: sum.splits if_splits)
    with \<open>r = Inl e\<close> Inl outcome_untouched[OF assms(2)] show ?thesis by simp
  next
    case v: (Inr res)
    then obtain spec where sp: "load_spec (pe_registry env) (pm_doc_type pm) = Inr spec"
      "validate_transaction_csv (pm_data pm) (ts_contract spec) = Inr res" by (auto simp: rbind_eq_Inr_iff)
    show ?thesis
    proof (cases "vr_ok res")
      case True
      with assms(1) sp Inl have "db' = db" by (auto simp: promote_run_def split: sum.splits)
      with Inl v True outcome_untouched[OF assms(2)] show ?thesis by simp
    next
      case False
      have "\<exists>db1. promotion_quarantine env pm res db = Inr db1"
        unfolding promotion_quarantine_def by (rule upsert_quarantine_total) (use assms(3) in simp)
      then obtain db1 where q: "promotion_quarantine env pm res db = Inr db1" ..
      with False assms(1) sp have "db' = db1" by (simp add: promote_run_def)
      moreover have "quarantined db1 = quarantined db @ [\<lparr>qa_ingest_id = pm_ingest pm, qa_entity_id = pm_entity pm,
          qa_document_type = pm_doc_type pm, qa_reason = join ''; '' (take 20 (vr_rejections res)), qa_run_id = Some (pm_run pm)\<rparr>]"
        using q untouchedD(1)[OF assms(2)] by (auto simp: promotion_quarantine_def upsert_quarantine_def split: if_splits)
      ultimately have "List.find (\<lambda>q. qa_ingest_id q = pm_ingest pm) (quarantined db') = Some \<lparr>qa_ingest_id = pm_ingest pm,
          qa_entity_id = pm_entity pm, qa_document_type = pm_doc_type pm,
          qa_reason = join ''; '' (take 20 (vr_rejections res)), qa_run_id = Some (pm_run pm)\<rparr>"
        using assms(2) by (simp add: find_append find_none untouched_def)
      then show ?thesis using Inl v False by (simp add: artefact_outcome_of_def)
    qed
  qed
qed

section \<open>Witnesses\<close>

definition demo_partial :: register_load where
  "demo_partial = demo_load 7 2026 [''1000,Cash,0,5,DR,'', ''2000,,0,5,CR,'']"

definition demo_partial_again :: register_load where
  "demo_partial_again = demo_partial\<lparr>rl_batch := 8, rl_run := 8, rl_now := 8\<rparr>"

lemma demo_untouched: "untouched (rl_ingest demo_partial) demo_register_db"
  by (simp add: untouched_def demo_register_db_def)

theorem register_outcome_reported_witness:
  "\<exists>out db. register_load_run demo_register_env spec_trial_balance demo_partial demo_register_db = (Inr out, db)
     \<and> ao_status (artefact_outcome_of 7 db) = PARTIAL \<and> ao_row_count (artefact_outcome_of 7 db) = Some 2"
proof -
  let ?r = "register_load_run demo_register_env spec_trial_balance demo_partial demo_register_db"
  have "case ?r of (Inr out, db) \<Rightarrow> ro_row_count out = 1 \<and> ro_rejected out = 1 | (Inl e, db) \<Rightarrow> False" by code_simp
  then obtain out db where r: "?r = (Inr out, db)" "ro_row_count out = 1" "ro_rejected out = 1" by (cases ?r; cases "fst ?r") auto
  have "rl_ingest demo_partial = 7" by (simp add: demo_partial_def demo_load_def)
  with register_outcome_reported[OF r(1) demo_untouched] r show ?thesis by simp
qed

theorem second_trigger_counts_twice_witness:
  "\<exists>out db1 out' db2. register_load_run demo_register_env spec_trial_balance demo_partial demo_register_db = (Inr out, db1)
     \<and> register_load_run demo_register_env spec_trial_balance demo_partial_again db1 = (Inr out', db2)
     \<and> ao_row_count (artefact_outcome_of 7 db2) = Some 3 \<and> ao_rejected (artefact_outcome_of 7 db2) = 2"
proof -
  let ?r = "register_load_run demo_register_env spec_trial_balance demo_partial demo_register_db"
  let ?q = "register_load_run demo_register_env spec_trial_balance demo_partial_again (snd ?r)"
  have "case ?r of (Inr out, db) \<Rightarrow> ro_row_count out = 1 \<and> ro_rejected out = 1 | (Inl e, db) \<Rightarrow> False" by code_simp
  then obtain out where r: "?r = (Inr out, snd ?r)" "ro_row_count out = 1" "ro_rejected out = 1" by (cases ?r; cases "fst ?r") auto
  have "case ?q of (Inr out, db) \<Rightarrow> ro_rejected out = 1 | (Inl e, db) \<Rightarrow> False" by code_simp
  then obtain out' where q: "?q = (Inr out', snd ?q)" "ro_rejected out' = 1" by (cases ?q; cases "fst ?q") auto
  have i: "rl_ingest demo_partial_again = rl_ingest demo_partial" "rl_ingest demo_partial = 7"
    by (simp_all add: demo_partial_again_def demo_partial_def demo_load_def)
  have "ao_row_count (artefact_outcome_of 7 (snd ?q)) = Some 3" "ao_rejected (artefact_outcome_of 7 (snd ?q)) = 2"
    using second_trigger_counts_twice[OF r(1) demo_untouched q(1) i(1)] r(2,3) q(2) i(2) by simp_all
  with r(1) q(1) show ?thesis by blast
qed

definition demo_strict_env :: promote_env where
  "demo_strict_env = demo_promote_env\<lparr>pe_registry := [''VENDOR_INVOICE'' \<mapsto>
     \<lparr>ty_stream = ''B'', ty_contract = ''direction=INWARD;counterparty=OPTIONAL;doc=irn:hash64!'', ty_archetype = Some 1\<rparr>]\<rparr>"

theorem verdict_outlives_success_witness:
  "\<exists>e db1 m db2. promote_run demo_strict_env (demo_promotion [''A1,01/04/2026,1,8471,2,50,100,18,18,0'']) demo_promote_db = (Inl e, db1)
     \<and> promote_run demo_promote_env (demo_promotion [''A1,01/04/2026,1,8471,2,50,100,18,18,0'']) db1 = (Inr m, db2)
     \<and> ao_status (artefact_outcome_of 7 db2) = QUARANTINED"
proof -
  let ?pm = "demo_promotion [''A1,01/04/2026,1,8471,2,50,100,18,18,0'']"
  let ?r = "promote_run demo_strict_env ?pm demo_promote_db"
  let ?q = "promote_run demo_promote_env ?pm (snd ?r)"
  have "case ?r of (Inl e, db) \<Rightarrow> map qa_ingest_id (quarantined db) = [7] | (Inr m, db) \<Rightarrow> False" by code_simp
  then obtain e where r: "?r = (Inl e, snd ?r)" "map qa_ingest_id (quarantined (snd ?r)) = [7]" by (cases ?r; cases "fst ?r") auto
  have "case ?q of (Inr m, db) \<Rightarrow> True | (Inl e, db) \<Rightarrow> False" by code_simp
  then obtain m where q: "?q = (Inr m, snd ?q)" by (cases ?q; cases "fst ?q") auto
  have i: "pm_ingest ?pm = 7" by (simp add: demo_promotion_def)
  have "has_verdict (pm_ingest ?pm) (snd ?r)" using r(2) i by (auto simp: has_verdict_def)
  from verdict_outlives_success[OF this q] i have "ao_status (artefact_outcome_of 7 (snd ?q)) = QUARANTINED" by simp
  with r(1) q show ?thesis by blast
qed

theorem promotion_outcome_reported_witness:
  "ao_status (artefact_outcome_of 7 (snd (promote_run demo_promote_env
     (demo_promotion [''A1,01/04/2026,1,8471,1,0.005,0.005,0,0,0.005'']) demo_promote_db))) = PENDING"
proof -
  let ?pm = "demo_promotion [''A1,01/04/2026,1,8471,1,0.005,0.005,0,0,0.005'']"
  let ?r = "promote_run demo_promote_env ?pm demo_promote_db"
  let ?v = "rbind (load_spec (pe_registry demo_promote_env) (pm_doc_type ?pm)) (\<lambda>spec. validate_transaction_csv (pm_data ?pm) (ts_contract spec))"
  have u: "untouched (pm_ingest ?pm) demo_promote_db" by (simp add: untouched_def demo_promote_db_def)
  have t: "(''Document_Type'', pm_doc_type ?pm) \<in> set (pe_vocabulary demo_promote_env)" by code_simp
  have "case fst ?r of Inl e \<Rightarrow> (case ?v of Inr res \<Rightarrow> vr_ok res | Inl e \<Rightarrow> False) | Inr m \<Rightarrow> False" by code_simp
  then obtain e res where "fst ?r = Inl e" and v: "?v = Inr res" "vr_ok res" by (cases "fst ?r"; cases ?v) auto
  then have r: "?r = (Inl e, snd ?r)" by (metis prod.collapse)
  have i: "pm_ingest ?pm = 7" by (simp add: demo_promotion_def)
  show ?thesis using promotion_outcome_reported[OF r u t] unfolding i v sum.case using v(2) by simp
qed

end
