(* ===== verification/Polling.thy ===== *)
theory Polling
  imports Reader
begin

text \<open>
  How the polling of \<open>SilverReader\<close> interacts with the loaders that commit batches meanwhile.
  The consumers of one name share a watermark; each polls when it is out of work and records its
  list in order, one transaction per batch. A batch takes its \<open>ready_at\<close> when its transaction
  starts and becomes visible when it commits; the window covers the time in between.
\<close>

section \<open>Facts about the reader's statements\<close>

lemma watermark_advance:
  "watermark_of consumer ty (g\<lparr>watermarks := advance_watermark consumer b ws\<rparr>) =
     (let old = watermark_of consumer ty (g\<lparr>watermarks := ws\<rparr>) in
      if br_document_type b = ty then max old (br_ready_at b) else old)"
proof -
  let ?hit = "\<lambda>w. wm_consumer w = consumer \<and> wm_document_type w = br_document_type b"
  let ?up = "\<lambda>w. if ?hit w then w\<lparr>wm_ready_at := max (wm_ready_at w) (br_ready_at b), wm_batch := br_batch_id b\<rparr> else w"
  let ?q = "\<lambda>w. wm_consumer w = consumer \<and> wm_document_type w = ty"
  have m: "List.find ?q (map ?up ws) = map_option ?up (List.find ?q ws)" by (induction ws) auto
  have a: "List.find ?q (ws @ [w]) = (case List.find ?q ws of None \<Rightarrow> if ?q w then Some w else None | Some v \<Rightarrow> Some v)" for w
    by (induction ws) auto
  show ?thesis
  proof (cases "list_ex ?hit ws")
    case True
    show ?thesis
    proof (cases "br_document_type b = ty")
      case True
      with \<open>list_ex ?hit ws\<close> obtain w where w: "List.find ?q ws = Some w"
        by (cases "List.find ?q ws") (auto simp: find_None_iff list_ex_iff)
      then have "?q w" by (auto simp: find_Some_iff)
      with w True \<open>list_ex ?hit ws\<close> show ?thesis
        by (simp add: watermark_of_def find_watermark_def advance_watermark_def Let_def m[unfolded True])
    next
      case False
      have "wm_ready_at (?up w) = wm_ready_at w" if "List.find ?q ws = Some w" for w
        using that False by (auto simp: find_Some_iff)
      with False \<open>list_ex ?hit ws\<close> show ?thesis
        by (simp add: watermark_of_def find_watermark_def advance_watermark_def Let_def m split: option.splits)
    qed
  next
    case False
    then have "br_document_type b = ty \<Longrightarrow> List.find ?q ws = None" by (auto simp: find_None_iff list_ex_iff)
    with False show ?thesis
      by (auto simp: watermark_of_def find_watermark_def advance_watermark_def Let_def a epoch_def split: option.splits)
  qed
qed

lemma record_execution_Inr:
  assumes "record_execution consumer b vs fs g = Inr (done, g')"
  shows "watermark_of consumer ty g' = (if done \<and> br_document_type b = ty
      then max (watermark_of consumer ty g) (br_ready_at b) else watermark_of consumer ty g)"
    and "executed g' u ws \<longleftrightarrow> executed g u ws \<or> (u = br_batch_id b \<and> ws = vs)"
    and "done \<longleftrightarrow> \<not> executed g (br_batch_id b) vs"
    and "\<not> done \<Longrightarrow> g' = g"
proof -
  show "done \<longleftrightarrow> \<not> executed g (br_batch_id b) vs" "\<not> done \<Longrightarrow> g' = g"
    using assms by (auto simp: record_execution_def rbind_eq_Inr_iff split: if_splits)
  show "executed g' u ws \<longleftrightarrow> executed g u ws \<or> (u = br_batch_id b \<and> ws = vs)"
    using assms by (auto simp: record_execution_def executed_def rbind_eq_Inr_iff split: if_splits)
  have "watermark_of consumer ty g' = (let old = watermark_of consumer ty g in
      if done \<and> br_document_type b = ty then max old (br_ready_at b) else old)"
  proof (cases "executed g (br_batch_id b) vs")
    case True
    with assms show ?thesis by (simp add: record_execution_def Let_def)
  next
    case False
    with assms obtain rs where "done"
      "g' = \<lparr>executions = executions g @ [\<lparr>ex_batch = br_batch_id b, ex_versions = vs, ex_row_count = br_row_count b\<rparr>],
          fact_records = rs, watermarks = advance_watermark consumer b (watermarks g)\<rparr>"
      by (auto simp: record_execution_def rbind_eq_Inr_iff)
    moreover have "watermark_of consumer ty g1 = watermark_of consumer ty g2" if "watermarks g1 = watermarks g2" for g1 g2
      using that by (simp add: watermark_of_def find_watermark_def)
    ultimately show ?thesis
      using watermark_advance[where consumer = consumer and ty = ty and g = g and b = b and ws = "watermarks g"]
      by (simp add: Let_def watermark_of_def find_watermark_def)
  qed
  then show "watermark_of consumer ty g' = (if done \<and> br_document_type b = ty
      then max (watermark_of consumer ty g) (br_ready_at b) else watermark_of consumer ty g)"
    by (simp add: Let_def)
qed

lemma ref_of_simps [simp]:
  "br_batch_id (ref_of b) = ib_batch_id b" "br_ready_at (ref_of b) = ib_ready_at b"
  "br_document_type (ref_of b) = ib_document_type b"
  by (simp_all add: ref_of_def)

lemma polled_mem:
  "r \<in> set (pending_batches consumer vs ty limit overlap db g) \<Longrightarrow>
     \<exists>b\<in>set (batches db). r = ref_of b \<and> is_pending consumer vs ty overlap g b"
  by (auto simp: pending_batches_def dest!: in_set_takeD)

text \<open>The list is a prefix of all pending batches in the order of their \<open>ready_at\<close>.\<close>

lemma sorted_take_prefix:
  assumes "sorted (map f xs)" "take n xs = pre @ c # post" "b \<in> set xs" "f b < f c"
  shows "b \<in> set pre"
proof -
  have xs: "xs = pre @ c # post @ drop n xs"
    using assms(2) by (metis append_take_drop_id append_Cons append_assoc)
  then have "sorted (map f (pre @ c # (post @ drop n xs)))" using assms(1) by simp
  then have "\<forall>x\<in>set (post @ drop n xs). f c \<le> f x" by (auto simp: sorted_append)
  then have "b \<notin> set (post @ drop n xs)" using assms(4) by fastforce
  moreover have "b \<noteq> c" using assms(4) by auto
  ultimately show ?thesis using assms(3) by (subst (asm) xs) auto
qed

lemma pending_before:
  assumes "pending_batches consumer vs ty limit overlap db g = pre @ c # post"
    and "b \<in> set (batches db)" "is_pending consumer vs ty overlap g b" "ib_ready_at b < br_ready_at c"
  shows "ref_of b \<in> set pre"
proof -
  let ?all = "sort_key ib_ready_at (filter (is_pending consumer vs ty overlap g) (batches db))"
  from assms(1) obtain p d q where s: "take limit ?all = p @ d # q" "pre = map ref_of p" "c = ref_of d"
    unfolding pending_batches_def by (auto simp: map_eq_append_conv)
  have "b \<in> set p"
    by (rule sorted_take_prefix[OF _ s(1), where f = ib_ready_at]) (use assms s in simp_all)
  then show ?thesis by (simp add: s(2))
qed

section \<open>The pipeline\<close>

record poll_env =
  pl_consumer :: string
  pl_versions :: engine_versions
  pl_type :: string
  pl_limit :: nat
  pl_overlap :: nat
  pl_vocabulary :: vocabulary

record pipeline =
  po_now :: instant
  po_silver :: silver_core
  po_gold :: gold
  po_work :: "nat \<Rightarrow> batch_ref list"

abbreviation poll :: "poll_env \<Rightarrow> silver_core \<Rightarrow> gold \<Rightarrow> batch_ref list" where
  "poll env db g \<equiv> pending_batches (pl_consumer env) (pl_versions env) (pl_type env) (pl_limit env) (pl_overlap env) db g"

abbreviation mark :: "poll_env \<Rightarrow> gold \<Rightarrow> instant" where
  "mark env g \<equiv> watermark_of (pl_consumer env) (pl_type env) g"

text \<open>
  Time passes; a loader commits a batch whose \<open>ready_at\<close> is less than the overlap ago; a
  consumer polls, records the first batch of its list, or gives its list up.
\<close>

inductive poll_step :: "poll_env \<Rightarrow> pipeline \<Rightarrow> pipeline \<Rightarrow> bool" for env where
  tick: "po_now s \<le> n \<Longrightarrow> poll_step env s (s\<lparr>po_now := n\<rparr>)"
| commit: "insert_batch (pl_vocabulary env) b (po_silver s) = Inr db \<Longrightarrow> ib_ready_at b \<le> po_now s
    \<Longrightarrow> po_now s < ib_ready_at b + pl_overlap env \<Longrightarrow> poll_step env s (s\<lparr>po_silver := db\<rparr>)"
| take_work: "poll_step env s (s\<lparr>po_work := (po_work s)(w := poll env (po_silver s) (po_gold s))\<rparr>)"
| work_off: "po_work s w = c # cs \<Longrightarrow> record_execution (pl_consumer env) c (pl_versions env) fs (po_gold s) = Inr (done, g)
    \<Longrightarrow> poll_step env s (s\<lparr>po_gold := g, po_work := (po_work s)(w := cs)\<rparr>)"
| give_up: "poll_step env s (s\<lparr>po_work := (po_work s)(w := [])\<rparr>)"

inductive_cases poll_stepE: "poll_step env s t"

definition fresh_pipeline :: "pipeline \<Rightarrow> bool" where
  "fresh_pipeline s \<longleftrightarrow> batches (po_silver s) = [] \<and> executions (po_gold s) = [] \<and> fact_records (po_gold s) = []
     \<and> watermarks (po_gold s) = [] \<and> po_work s = (\<lambda>w. [])"

text \<open>What is still to be executed, and that the window reaches back to it.\<close>

definition due :: "poll_env \<Rightarrow> silver_core \<Rightarrow> gold \<Rightarrow> ingest_batch set" where
  "due env db g = {b \<in> set (batches db). ib_status b = ''READY'' \<and> ib_document_type b = pl_type env
     \<and> \<not> executed g (ib_batch_id b) (pl_versions env)}"

definition in_window :: "poll_env \<Rightarrow> silver_core \<Rightarrow> gold \<Rightarrow> bool" where
  "in_window env db g \<longleftrightarrow> (\<forall>b\<in>due env db g. mark env g < ib_ready_at b + pl_overlap env)"

text \<open>No work list takes the watermark past a batch that is due, unless it records that batch first.\<close>

definition orderly :: "poll_env \<Rightarrow> silver_core \<Rightarrow> gold \<Rightarrow> batch_ref list \<Rightarrow> bool" where
  "orderly env db g cs \<longleftrightarrow> set cs \<subseteq> ref_of ` set (batches db)
     \<and> (\<forall>pre c post. cs = pre @ c # post \<longrightarrow>
          (\<forall>b\<in>due env db g. ref_of b \<in> set pre \<or> br_ready_at c < ib_ready_at b + pl_overlap env))"

definition polling_ok :: "poll_env \<Rightarrow> pipeline \<Rightarrow> bool" where
  "polling_ok env s \<longleftrightarrow> (\<forall>b\<in>set (batches (po_silver s)). ib_ready_at b \<le> po_now s)
     \<and> mark env (po_gold s) \<le> po_now s \<and> in_window env (po_silver s) (po_gold s)
     \<and> (\<forall>w. orderly env (po_silver s) (po_gold s) (po_work s w))"

lemma due_pending: "in_window env db g \<Longrightarrow> b \<in> due env db g \<longleftrightarrow>
    b \<in> set (batches db) \<and> is_pending (pl_consumer env) (pl_versions env) (pl_type env) (pl_overlap env) g b"
  by (auto simp: in_window_def due_def is_pending_def)

lemma poll_is_due:
  assumes "in_window env db g"
  shows "poll env db g = map ref_of (take (pl_limit env) (sort_key ib_ready_at (filter (\<lambda>b. b \<in> due env db g) (batches db))))"
proof -
  have "filter (is_pending (pl_consumer env) (pl_versions env) (pl_type env) (pl_overlap env) g) (batches db)
      = filter (\<lambda>b. b \<in> due env db g) (batches db)"
    by (rule filter_cong) (simp_all add: due_pending[OF assms])
  then show ?thesis by (simp add: pending_batches_def)
qed

text \<open>A due batch is left out only by a full poll, and then nothing in it is younger.\<close>

lemma due_polled:
  assumes "in_window env db g" "b \<in> due env db g"
  shows "ref_of b \<in> set (poll env db g)
    \<or> length (poll env db g) = pl_limit env \<and> (\<forall>c\<in>set (poll env db g). br_ready_at c \<le> ib_ready_at b)"
proof -
  let ?all = "sort_key ib_ready_at (filter (\<lambda>b. b \<in> due env db g) (batches db))"
  have b: "b \<in> set ?all" using assms(2) by (auto simp: due_def)
  have p: "poll env db g = map ref_of (take (pl_limit env) ?all)" by (rule poll_is_due[OF assms(1)])
  show ?thesis
  proof (cases "b \<in> set (take (pl_limit env) ?all)")
    case True
    then show ?thesis by (simp add: p)
  next
    case False
    then have l: "pl_limit env < length ?all" using b by (cases "length ?all \<le> pl_limit env") auto
    have "ib_ready_at c \<le> ib_ready_at b" if c: "c \<in> set (take (pl_limit env) ?all)" for c
    proof (rule ccontr)
      assume "\<not> ib_ready_at c \<le> ib_ready_at b"
      then have lt: "ib_ready_at b < ib_ready_at c" by simp
      from c obtain pre post where s: "take (pl_limit env) ?all = pre @ c # post" by (meson split_list)
      have "b \<in> set pre" by (rule sorted_take_prefix[OF _ s b lt]) simp
      with False s show False by simp
    qed
    with l show ?thesis by (auto simp: p)
  qed
qed

lemma orderly_poll:
  assumes "in_window env db g" "0 < pl_overlap env"
  shows "orderly env db g (poll env db g)"
  unfolding orderly_def
proof (intro conjI allI impI ballI)
  show "set (poll env db g) \<subseteq> ref_of ` set (batches db)" by (auto dest: polled_mem)
  fix pre c post b assume p: "poll env db g = pre @ c # post" and b: "b \<in> due env db g"
  show "ref_of b \<in> set pre \<or> br_ready_at c < ib_ready_at b + pl_overlap env"
  proof (cases "ib_ready_at b < br_ready_at c")
    case True
    with pending_before[OF p] b due_pending[OF assms(1)] show ?thesis by blast
  next
    case False
    with assms(2) show ?thesis by simp
  qed
qed

lemma record_due:
  assumes "record_execution (pl_consumer env) c (pl_versions env) fs g = Inr (done, g')"
  shows "due env db g' = {b \<in> due env db g. ib_batch_id b \<noteq> br_batch_id c}"
  using record_execution_Inr(2)[OF assms] record_execution_Inr(3)[OF assms] by (auto simp: due_def)

lemma record_orderly:
  assumes "orderly env db g (c # cs)" "in_window env db g"
    and r: "record_execution (pl_consumer env) c (pl_versions env) fs g = Inr (done, g')"
  shows "in_window env db g'" and "orderly env db g' cs"
proof -
  note d = record_due[OF r, of db]
  have head: "br_ready_at c < ib_ready_at b + pl_overlap env" if "b \<in> due env db g" for b
    using assms(1) that unfolding orderly_def by (metis append_Nil empty_iff list.set(1))
  show "in_window env db g'"
    using assms(2) head by (auto simp: in_window_def d record_execution_Inr(1)[OF r])
  show "orderly env db g' cs"
    unfolding orderly_def
  proof (intro conjI allI impI ballI)
    show "set cs \<subseteq> ref_of ` set (batches db)" using assms(1) by (auto simp: orderly_def)
    fix pre e post b assume p: "cs = pre @ e # post" and b: "b \<in> due env db g'"
    have "c # cs = (c # pre) @ e # post" using p by simp
    with assms(1) b have "ref_of b \<in> set (c # pre) \<or> br_ready_at e < ib_ready_at b + pl_overlap env"
      unfolding orderly_def d by blast
    with b show "ref_of b \<in> set pre \<or> br_ready_at e < ib_ready_at b + pl_overlap env" by (auto simp: d)
  qed
qed

lemma orderly_mono: "orderly env db g cs \<Longrightarrow> due env db g' \<subseteq> due env db g \<Longrightarrow> orderly env db g' cs"
  unfolding orderly_def by blast

lemma poll_step_ok:
  assumes "poll_step env s t" "polling_ok env s" "0 < pl_overlap env"
  shows "polling_ok env t"
  using assms(1)
proof (cases rule: poll_step.cases)
  case (tick n)
  with assms(2) show ?thesis by (auto simp: polling_ok_def)
next
  case (commit b db)
  let ?old = "po_silver s" and ?g = "po_gold s"
  have db: "batches db = batches ?old @ [b]" using insert_batch_Inr[OF commit(2)] by simp
  have due: "due env db ?g \<subseteq> insert b (due env ?old ?g)" by (auto simp: due_def db)
  have "orderly env db ?g (po_work s w)" for w
  proof -
    have o: "orderly env ?old ?g (po_work s w)" using assms(2) by (simp add: polling_ok_def)
    have new: "br_ready_at c < ib_ready_at b + pl_overlap env" if "c \<in> set (po_work s w)" for c
    proof -
      from o that obtain d where "d \<in> set (batches ?old)" "c = ref_of d" by (auto simp: orderly_def)
      with assms(2) commit(4) show ?thesis by (auto simp: polling_ok_def)
    qed
    show ?thesis unfolding orderly_def
    proof (intro conjI allI impI ballI)
      show "set (po_work s w) \<subseteq> ref_of ` set (batches db)" using o by (auto simp: orderly_def db)
      fix pre c post e assume p: "po_work s w = pre @ c # post" and "e \<in> due env db ?g"
      with due have "e = b \<or> e \<in> due env ?old ?g" by blast
      then show "ref_of e \<in> set pre \<or> br_ready_at c < ib_ready_at e + pl_overlap env"
      proof
        assume "e = b"
        with new[of c] p show ?thesis by simp
      next
        assume "e \<in> due env ?old ?g"
        with o p show ?thesis unfolding orderly_def by blast
      qed
    qed
  qed
  moreover have "in_window env db ?g" using due assms(2) commit(4) by (auto simp: polling_ok_def in_window_def)
  ultimately show ?thesis using assms(2) commit by (auto simp: polling_ok_def db)
next
  case (take_work w)
  with assms(2,3) show ?thesis by (auto simp: polling_ok_def orderly_poll)
next
  case (work_off w c cs fs done' g)
  have o: "orderly env (po_silver s) (po_gold s) (c # cs)" and i: "in_window env (po_silver s) (po_gold s)"
    using assms(2) work_off(2) by (auto simp: polling_ok_def) (metis work_off(2))
  note r = record_orderly[OF o i work_off(3)]
  have "orderly env (po_silver s) g (po_work s v)" for v
    using assms(2) record_due[OF work_off(3)] by (auto simp: polling_ok_def intro: orderly_mono)
  moreover have "br_ready_at c \<le> po_now s" using o assms(2) by (auto simp: orderly_def polling_ok_def)
  ultimately show ?thesis
    using assms(2) work_off(1) r record_execution_Inr(1)[OF work_off(3)] by (auto simp: polling_ok_def)
next
  case (give_up w)
  with assms(2) show ?thesis by (auto simp: polling_ok_def orderly_def)
qed

lemma fresh_polling_ok: "fresh_pipeline s \<Longrightarrow> polling_ok env s"
  by (auto simp: fresh_pipeline_def polling_ok_def in_window_def orderly_def due_def watermark_of_def find_watermark_def epoch_def)

lemma reachable_polling_ok:
  "(poll_step env)\<^sup>*\<^sup>* s t \<Longrightarrow> fresh_pipeline s \<Longrightarrow> 0 < pl_overlap env \<Longrightarrow> polling_ok env t"
  by (induction rule: rtranclp_induct) (auto intro: fresh_polling_ok poll_step_ok)

section \<open>Nothing is missed and nothing is recorded twice\<close>

definition gold_ok :: "gold \<Rightarrow> bool" where
  "gold_ok g \<longleftrightarrow> distinct (map (\<lambda>e. (ex_batch e, ex_versions e)) (executions g))
     \<and> (\<forall>r\<in>set (fact_records g). fr_batch r \<in> ex_batch ` set (executions g))"

lemma insert_facts_batch:
  "rfold (insert_fact u vs) rs fs = Inr rs' \<Longrightarrow> r \<in> set rs' \<Longrightarrow> r \<in> set rs \<or> fr_batch r = u"
proof (induction fs arbitrary: rs)
  case (Cons f fs)
  from Cons.prems(1) obtain rs1 where i: "insert_fact u vs rs f = Inr rs1" "rfold (insert_fact u vs) rs1 fs = Inr rs'"
    by (auto simp: rbind_eq_Inr_iff)
  from i(1) have "set rs1 \<subseteq> set rs \<union> {r. fr_batch r = u}" by (auto simp: insert_fact_def split: prod.splits if_splits)
  with Cons.IH[OF i(2) Cons.prems(2)] show ?case by blast
qed simp

lemma record_execution_gold_ok:
  assumes "record_execution consumer b vs fs g = Inr (done, g')" "gold_ok g"
  shows "gold_ok g'"
proof (cases "executed g (br_batch_id b) vs")
  case True
  with assms show ?thesis by (simp add: record_execution_def)
next
  case False
  with assms(1) obtain rs where rs: "rfold (insert_fact (br_batch_id b) vs) (fact_records g) fs = Inr rs"
    and g': "executions g' = executions g @ [\<lparr>ex_batch = br_batch_id b, ex_versions = vs, ex_row_count = br_row_count b\<rparr>]"
      "fact_records g' = rs"
    by (auto simp: record_execution_def rbind_eq_Inr_iff)
  have "fr_batch r \<in> ex_batch ` set (executions g')" if "r \<in> set rs" for r
    using insert_facts_batch[OF rs that] assms(2) by (auto simp: gold_ok_def g')
  with False assms(2) show ?thesis by (auto simp: gold_ok_def g' executed_def)
qed

lemma poll_step_gold_ok: "poll_step env s t \<Longrightarrow> gold_ok (po_gold s) \<Longrightarrow> gold_ok (po_gold t)"
  by (erule poll_step.cases) (auto dest: record_execution_gold_ok)

lemma reachable_gold_ok:
  "(poll_step env)\<^sup>*\<^sup>* s t \<Longrightarrow> fresh_pipeline s \<Longrightarrow> gold_ok (po_gold t)"
  by (induction rule: rtranclp_induct) (auto simp: fresh_pipeline_def gold_ok_def dest: poll_step_gold_ok)


section \<open>Polling comes to an end\<close>

text \<open>One consumer polls and records all it got; \<open>fs\<close> finds the facts of a batch.\<close>

definition poll_round :: "poll_env \<Rightarrow> (batch_ref \<Rightarrow> gold \<Rightarrow> (uuid \<times> fact) list) \<Rightarrow> silver_core \<Rightarrow> gold \<Rightarrow> exc + gold" where
  "poll_round env fs db g = rfold (\<lambda>g c. rbind (record_execution (pl_consumer env) c (pl_versions env) (fs c g) g)
     (\<lambda>(done, g'). Inr g')) g (poll env db g)"

fun poll_rounds :: "nat \<Rightarrow> poll_env \<Rightarrow> (batch_ref \<Rightarrow> gold \<Rightarrow> (uuid \<times> fact) list) \<Rightarrow> silver_core \<Rightarrow> gold \<Rightarrow> exc + gold" where
  "poll_rounds 0 env fs db g = Inr g"
| "poll_rounds (Suc n) env fs db g = rbind (poll_round env fs db g) (poll_rounds n env fs db)"

lemma record_all:
  assumes "\<And>c g. \<exists>done g'. record_execution (pl_consumer env) c (pl_versions env) (fs c g) g = Inr (done, g')"
    and "orderly env db g cs" "in_window env db g"
  shows "\<exists>g'. rfold (\<lambda>g c. rbind (record_execution (pl_consumer env) c (pl_versions env) (fs c g) g)
        (\<lambda>(done, g'). Inr g')) g cs = Inr g'
      \<and> in_window env db g' \<and> due env db g' = {b \<in> due env db g. ib_batch_id b \<notin> br_batch_id ` set cs}"
  using assms(2,3)
proof (induction cs arbitrary: g)
  case (Cons c cs)
  obtain d g1 where r: "record_execution (pl_consumer env) c (pl_versions env) (fs c g) g = Inr (d, g1)"
    using assms(1) by blast
  note o = record_orderly[OF Cons.prems r]
  from Cons.IH[OF o(2,1)] r show ?case by (auto simp: record_due[OF r])
qed simp

lemma poll_round_progress:
  assumes "\<And>c g. \<exists>done g'. record_execution (pl_consumer env) c (pl_versions env) (fs c g) g = Inr (done, g')"
    and "in_window env db g" "0 < pl_overlap env" "0 < pl_limit env"
  shows "\<exists>g'. poll_round env fs db g = Inr g' \<and> in_window env db g'
    \<and> (due env db g = {} \<and> due env db g' = {} \<or> card (due env db g') < card (due env db g))"
proof -
  from record_all[OF assms(1) orderly_poll[OF assms(2,3)] assms(2)] obtain g' where
    g': "poll_round env fs db g = Inr g'" "in_window env db g'"
      "due env db g' = {b \<in> due env db g. ib_batch_id b \<notin> br_batch_id ` set (poll env db g)}"
    unfolding poll_round_def by blast
  have fin: "finite (due env db g)" by (simp add: due_def)
  have "due env db g = {} \<or> card (due env db g') < card (due env db g)"
  proof (cases "poll env db g")
    case Nil
    let ?all = "filter (is_pending (pl_consumer env) (pl_versions env) (pl_type env) (pl_overlap env) g) (batches db)"
    from Nil assms(4) have "length (sort_key ib_ready_at ?all) = 0" by (simp add: pending_batches_def)
    then have "?all = []" by simp
    then have "due env db g = {}" using due_pending[OF assms(2)] by (auto simp: filter_empty_conv)
    then show ?thesis ..
  next
    case (Cons c cs)
    then have "c \<in> set (poll env db g)" by simp
    from polled_mem[OF this] obtain b where b: "b \<in> due env db g" "c = ref_of b"
      using due_pending[OF assms(2)] by blast
    with Cons g'(3) have "b \<notin> due env db g'" by simp
    with b g'(3) fin have "due env db g' \<subset> due env db g" by blast
    then show ?thesis using fin by (simp add: psubset_card_mono)
  qed
  with g' show ?thesis by blast
qed

lemma poll_rounds_drain:
  assumes "\<And>c g. \<exists>done g'. record_execution (pl_consumer env) c (pl_versions env) (fs c g) g = Inr (done, g')"
    and "in_window env db g" "0 < pl_overlap env" "0 < pl_limit env" "card (due env db g) \<le> n"
  shows "\<exists>g'. poll_rounds n env fs db g = Inr g' \<and> due env db g' = {}"
  using assms(2,5)
proof (induction n arbitrary: g)
  case 0
  have "finite (due env db g)" by (simp add: due_def)
  with 0 show ?case by simp
next
  case (Suc n)
  from poll_round_progress[OF assms(1) Suc.prems(1) assms(3,4)] obtain g' where
    g': "poll_round env fs db g = Inr g'" "in_window env db g'" "card (due env db g') \<le> n"
    using Suc.prems(2) by fastforce
  from Suc.IH[OF g'(2,3)] g'(1) show ?case by simp
qed

text \<open>
  C2. Work runs out. From any state of the pipeline, once loaders stop committing, a consumer whose
  recordings do not fail executes every \<open>READY\<close> batch of its type in at most as many polls as there
  are batches, whatever the positive limit of a poll.
\<close>

theorem polling_drains:
  assumes "(poll_step env)\<^sup>*\<^sup>* s t" "fresh_pipeline s" "0 < pl_overlap env" "0 < pl_limit env"
    and "\<And>c g. \<exists>done g'. record_execution (pl_consumer env) c (pl_versions env) (fs c g) g = Inr (done, g')"
  shows "\<exists>g'. poll_rounds (length (batches (po_silver t))) env fs (po_silver t) (po_gold t) = Inr g'
    \<and> (\<forall>b\<in>set (batches (po_silver t)). ib_status b = ''READY'' \<and> ib_document_type b = pl_type env
          \<longrightarrow> executed g' (ib_batch_id b) (pl_versions env))"
proof -
  let ?db = "po_silver t" and ?g = "po_gold t"
  have w: "in_window env ?db ?g" using reachable_polling_ok[OF assms(1-3)] by (simp add: polling_ok_def)
  have "card (due env ?db ?g) \<le> card (set (batches ?db))" by (rule card_mono) (auto simp: due_def)
  also have "\<dots> \<le> length (batches ?db)" by (rule card_length)
  finally have "card (due env ?db ?g) \<le> length (batches ?db)" .
  from poll_rounds_drain[OF assms(5) w assms(3,4) this] obtain g' where
    "poll_rounds (length (batches ?db)) env fs ?db ?g = Inr g'" "due env ?db g' = {}" by blast
  then show ?thesis by (auto simp: due_def)
qed

section \<open>Behind the window\<close>

type_synonym recording = "string \<times> batch_ref \<times> engine_versions \<times> (uuid \<times> fact) list"

definition record_one :: "gold \<Rightarrow> recording \<Rightarrow> exc + gold" where
  "record_one g x = (case x of (consumer, c, vs, fs) \<Rightarrow>
     rbind (record_execution consumer c vs fs g) (\<lambda>(done, g'). Inr g'))"

lemma watermark_monotone: "rfold record_one g xs = Inr g' \<Longrightarrow> watermark_of consumer ty g \<le> watermark_of consumer ty g'"
proof (induction xs arbitrary: g)
  case (Cons x xs)
  obtain k c vs fs where x: "x = (k, c, vs, fs)" by (cases x) auto
  from Cons.prems obtain g1 where g1: "record_one g x = Inr g1" "rfold record_one g1 xs = Inr g'"
    by (auto simp: rbind_eq_Inr_iff)
  from g1 x obtain d where r: "record_execution k c vs fs g = Inr (d, g1)" "rfold record_one g1 xs = Inr g'"
    by (auto simp: record_one_def rbind_eq_Inr_iff)
  have "watermark_of consumer ty g \<le> watermark_of consumer ty g1"
  proof (cases "executed g (br_batch_id c) vs")
    case True
    with r(1) show ?thesis by (simp add: record_execution_def)
  next
    case False
    with r(1) obtain rs where "g1 = \<lparr>executions = executions g @ [\<lparr>ex_batch = br_batch_id c, ex_versions = vs, ex_row_count = br_row_count c\<rparr>],
          fact_records = rs, watermarks = advance_watermark k c (watermarks g)\<rparr>"
      by (auto simp: record_execution_def rbind_eq_Inr_iff)
    moreover have "find_watermark consumer ty g = Some w \<Longrightarrow>
        \<exists>v. List.find (\<lambda>w. wm_consumer w = consumer \<and> wm_document_type w = ty) (advance_watermark k c (watermarks g)) = Some v
          \<and> wm_ready_at w \<le> wm_ready_at v" for w
    proof -
      let ?q = "\<lambda>w. wm_consumer w = consumer \<and> wm_document_type w = ty"
      let ?up = "\<lambda>w. if wm_consumer w = k \<and> wm_document_type w = br_document_type c
        then w\<lparr>wm_ready_at := max (wm_ready_at w) (br_ready_at c), wm_batch := br_batch_id c\<rparr> else w"
      have m: "List.find ?q (map ?up ws) = map_option ?up (List.find ?q ws)" for ws by (induction ws) auto
      have a: "List.find ?q ws = Some v \<Longrightarrow> List.find ?q (ws @ [u]) = Some v" for ws u v by (induction ws) auto
      assume "find_watermark consumer ty g = Some w"
      then show ?thesis by (auto simp: find_watermark_def advance_watermark_def Let_def m a)
    qed
    ultimately show ?thesis
      by (auto simp: watermark_of_def find_watermark_def epoch_def split: option.splits)
  qed
  with Cons.IH[OF r(2)] show ?case by simp
qed simp

text \<open>
  The window counts from the consumer's watermark, and the watermark knows nothing of versions. Once
  it is more than the overlap past the \<open>ready_at\<close> of a batch, no poll of that consumer returns the
  batch again, under any versions and whatever is recorded later. A new rule catalogue is therefore
  not run on old batches, and a batch that commits too late is not run at all.
\<close>

theorem behind_window_never_polled:
  assumes "ib_ready_at b + overlap \<le> watermark_of consumer (ib_document_type b) g"
    and "rfold record_one g xs = Inr g'"
  shows "ref_of b \<notin> set (pending_batches consumer vs (ib_document_type b) limit overlap db g')"
proof
  assume "ref_of b \<in> set (pending_batches consumer vs (ib_document_type b) limit overlap db g')"
  from polled_mem[OF this] obtain c where c: "ref_of b = ref_of c" "is_pending consumer vs (ib_document_type b) overlap g' c"
    by blast
  then have "ib_ready_at c = ib_ready_at b" by (metis ref_of_simps(2))
  with c(2) have "watermark_of consumer (ib_document_type b) g' < ib_ready_at b + overlap" by (simp add: is_pending_def)
  with watermark_monotone[OF assms(2), of consumer "ib_document_type b"] assms(1) show False by simp
qed

section \<open>Witnesses\<close>

definition demo_versions :: "string \<Rightarrow> engine_versions" where
  "demo_versions r = \<lparr>rule_catalog_version = r, corpus_version = ''c1'', tenant_pack_version = ''p1''\<rparr>"

definition demo_batch :: "uuid \<Rightarrow> instant \<Rightarrow> ingest_batch" where
  "demo_batch u n = \<lparr>ib_batch_id = u, ib_entity_id = 1, ib_document_type = ''VENDOR_INVOICE'', ib_source_stream = ''B'',
     ib_period_start = Date 2026 4 1, ib_period_end = Date 2026 4 30, ib_row_count = 3, ib_content_hash = [],
     ib_manifest_ref = u, ib_status = ''READY'', ib_ready_at = n, ib_run_id = u\<rparr>"

definition demo_poll_env :: poll_env where
  "demo_poll_env = \<lparr>pl_consumer = ''v2-recon'', pl_versions = demo_versions ''r1'', pl_type = ''VENDOR_INVOICE'',
     pl_limit = 5, pl_overlap = 3600, pl_vocabulary = [(''Document_Type'', ''VENDOR_INVOICE''), (''Source_Stream'', ''B''),
       (''Batch_Status'', ''READY'')]\<rparr>"

definition demo_pipeline :: pipeline where
  "demo_pipeline = \<lparr>po_now = 9000, po_silver = \<lparr>batches = [], quarantined = [], rejected_rows = []\<rparr>,
     po_gold = \<lparr>executions = [], fact_records = [], watermarks = []\<rparr>, po_work = (\<lambda>w. [])\<rparr>"

definition demo_committed :: pipeline where
  "demo_committed = demo_pipeline\<lparr>po_silver := \<lparr>batches = [demo_batch 4 8000], quarantined = [], rejected_rows = []\<rparr>\<rparr>"

lemma demo_fresh: "fresh_pipeline demo_pipeline"
  by (simp add: fresh_pipeline_def demo_pipeline_def)

lemma demo_reached: "(poll_step demo_poll_env)\<^sup>*\<^sup>* demo_pipeline demo_committed"
proof -
  have "poll_step demo_poll_env demo_pipeline (demo_pipeline\<lparr>po_silver := po_silver demo_committed\<rparr>)"
  proof (rule poll_step.commit)
    show "insert_batch (pl_vocabulary demo_poll_env) (demo_batch 4 8000) (po_silver demo_pipeline) = Inr (po_silver demo_committed)"
      by code_simp
    show "ib_ready_at (demo_batch 4 8000) \<le> po_now demo_pipeline" by code_simp
    show "po_now demo_pipeline < ib_ready_at (demo_batch 4 8000) + pl_overlap demo_poll_env" by code_simp
  qed
  then have "poll_step demo_poll_env demo_pipeline demo_committed" by (simp add: demo_committed_def)
  then show ?thesis by blast
qed


theorem polling_drains_witness:
  "\<exists>g. poll_rounds 1 demo_poll_env (\<lambda>c g. []) (po_silver demo_committed) (po_gold demo_committed) = Inr g
     \<and> executed g 4 (demo_versions ''r1'')"
proof -
  have p: "0 < pl_overlap demo_poll_env" "0 < pl_limit demo_poll_env" by (simp_all add: demo_poll_env_def)
  have r: "\<exists>done g'. record_execution (pl_consumer demo_poll_env) c (pl_versions demo_poll_env) ((\<lambda>c g. []) c g) g = Inr (done, g')" for c g
    by (auto simp: record_execution_def)
  have b: "batches (po_silver demo_committed) = [demo_batch 4 8000]" by (simp add: demo_committed_def demo_pipeline_def)
  have d: "ib_status (demo_batch 4 8000) = ''READY''" "ib_document_type (demo_batch 4 8000) = pl_type demo_poll_env"
    "ib_batch_id (demo_batch 4 8000) = 4" "pl_versions demo_poll_env = demo_versions ''r1''"
    by (simp_all add: demo_batch_def demo_poll_env_def)
  show ?thesis using polling_drains[OF demo_reached demo_fresh p r] by (simp add: b d)
qed

theorem behind_window_never_polled_witness:
  "ref_of (demo_batch 4 100) \<notin> set (pending_batches ''v2-recon'' (demo_versions ''r2'') ''VENDOR_INVOICE'' 100 3600
     \<lparr>batches = [demo_batch 4 100], quarantined = [], rejected_rows = []\<rparr>
     \<lparr>executions = [\<lparr>ex_batch = 4, ex_versions = demo_versions ''r1'', ex_row_count = 3\<rparr>], fact_records = [],
      watermarks = [\<lparr>wm_consumer = ''v2-recon'', wm_document_type = ''VENDOR_INVOICE'', wm_ready_at = 8000, wm_batch = 5\<rparr>]\<rparr>)"
proof -
  let ?g = "\<lparr>executions = [\<lparr>ex_batch = 4, ex_versions = demo_versions ''r1'', ex_row_count = 3\<rparr>], fact_records = [],
      watermarks = [\<lparr>wm_consumer = ''v2-recon'', wm_document_type = ''VENDOR_INVOICE'', wm_ready_at = 8000, wm_batch = 5\<rparr>]\<rparr>"
  have a: "ib_ready_at (demo_batch 4 100) + 3600 \<le> watermark_of ''v2-recon'' (ib_document_type (demo_batch 4 100)) ?g"
    by code_simp
  have b: "rfold record_one ?g [] = Inr ?g" by simp
  have t: "ib_document_type (demo_batch 4 100) = ''VENDOR_INVOICE''" by (simp add: demo_batch_def)
  show ?thesis using behind_window_never_polled[OF a b] unfolding t .
qed

end
