(* ===== verification/GstnReturn.thy ===== *)
theory GstnReturn
  imports RegisterParse Versions
begin

text \<open>
  What \<open>src/src/silver/gstn_returns/gstr2b.py\<close> and \<open>gstr3b.py\<close> have in common: reading decoded
  JSON with Python's failures, the amounts, dates and the period check, and the loaders' transaction,
  which stores a whole return under the key (entity, GSTIN, period) and supersedes it as a whole. A
  loader is the record of what differs between the two. \<open>json.loads\<close> is a parameter: it may
  refuse the bytes as JSON, which the parsers catch, or as text, a \<open>UnicodeDecodeError\<close>, which
  they do not.
\<close>

section \<open>Reading a payload\<close>

datatype json_failure = NotJson | NotText

text \<open>\<open>x.get(k)\<close>, \<open>x.get(k, d)\<close>, \<open>x[k]\<close> and iteration.\<close>

definition jget_or :: "json \<Rightarrow> string \<Rightarrow> json \<Rightarrow> exc + json" where
  "jget_or d k j = (case j of
      JObj kvs \<Rightarrow> Inr (case map_of kvs k of Some v \<Rightarrow> v | None \<Rightarrow> d)
    | _ \<Rightarrow> Inl (AttributeError ''get''))"

abbreviation jget :: "string \<Rightarrow> json \<Rightarrow> exc + json" where
  "jget \<equiv> jget_or JNull"

definition jitem :: "string \<Rightarrow> json \<Rightarrow> exc + json" where
  "jitem k j = (case j of
      JObj kvs \<Rightarrow> (case map_of kvs k of Some v \<Rightarrow> Inr v | None \<Rightarrow> Inl (KeyError k))
    | _ \<Rightarrow> Inl (TypeError ''indices''))"

definition jiter :: "json \<Rightarrow> exc + json list" where
  "jiter j = (case j of
      JList xs \<Rightarrow> Inr xs
    | JObj kvs \<Rightarrow> Inr (map (JStr \<circ> fst) kvs)
    | JStr s \<Rightarrow> Inr (map (\<lambda>c. JStr [c]) s)
    | _ \<Rightarrow> Inl (TypeError ''not iterable''))"

definition jitems :: "json \<Rightarrow> exc + (string \<times> json) list" where
  "jitems j = (case j of JObj kvs \<Rightarrow> Inr kvs | _ \<Rightarrow> Inl (AttributeError ''items''))"

definition truthy :: "json \<Rightarrow> bool" where
  "truthy j = (case j of
      JNull \<Rightarrow> False | JBool b \<Rightarrow> b | JInt i \<Rightarrow> i \<noteq> 0 | JFloat s \<Rightarrow> s \<notin> {''0.0'', ''-0.0''}
    | JStr s \<Rightarrow> s \<noteq> [] | JList xs \<Rightarrow> xs \<noteq> [] | JObj kvs \<Rightarrow> kvs \<noteq> [])"

definition or_null :: "json \<Rightarrow> json" where
  "or_null j = (if truthy j then j else JNull)"

text \<open>A part of a joined text must be a string; \<open>x or ""\<close> makes it one when \<open>x\<close> is falsy.\<close>

definition jtext :: "json \<Rightarrow> exc + string" where
  "jtext j = (case j of JStr s \<Rightarrow> Inr s | _ \<Rightarrow> Inl (TypeError ''expected str instance''))"

definition jtext_or_empty :: "json \<Rightarrow> exc + string" where
  "jtext_or_empty j = (if truthy j then jtext j else Inr [])"

text \<open>\<open>_amount\<close>: the text of a list or a dictionary starts with a bracket and is no number.\<close>

definition amount :: "json \<Rightarrow> exc + decimal" where
  "amount j = (case j of
      JNull \<Rightarrow> Inr dec_zero
    | JList _ \<Rightarrow> Inl DecimalInvalidOperation
    | JObj _ \<Rightarrow> Inl DecimalInvalidOperation
    | _ \<Rightarrow> (case py_decimal (py_str (\<lambda>_. []) j) of None \<Rightarrow> Inl DecimalInvalidOperation | Some d \<Rightarrow> Inr d))"

definition amount_of :: "string \<Rightarrow> json \<Rightarrow> exc + decimal" where
  "amount_of k j = rbind (jget k j) amount"

definition return_date :: "json \<Rightarrow> exc + date" where
  "return_date j = (case j of
      JStr s \<Rightarrow> (case strptime_dmy (CHR ''-'') s of None \<Rightarrow> Inl (ValueError ''time data'') | Some d \<Rightarrow> Inr d)
    | _ \<Rightarrow> Inl (TypeError ''strptime''))"

text \<open>Only \<open>JSONDecodeError\<close>, \<open>KeyError\<close> and \<open>TypeError\<close> are caught; the text after the message is left out.\<close>

definition malformed :: "string \<Rightarrow> exc \<Rightarrow> exc" where
  "malformed code e = (case e of
      KeyError _ \<Rightarrow> ValidationRejected (''malformed '' @ code @ '' payload'')
    | TypeError _ \<Rightarrow> ValidationRejected (''malformed '' @ code @ '' payload'')
    | _ \<Rightarrow> e)"

definition load_json :: "(bytes \<Rightarrow> json_failure + json) \<Rightarrow> string \<Rightarrow> bytes \<Rightarrow> exc + json" where
  "load_json loads code data = (case loads data of
      Inl NotJson \<Rightarrow> Inl (ValidationRejected (''malformed '' @ code @ '' payload''))
    | Inl NotText \<Rightarrow> Inl (ValueError ''UnicodeDecodeError'')
    | Inr j \<Rightarrow> Inr j)"

definition month_year :: "date \<Rightarrow> string" where
  "month_year d = (case d of Date y m _ \<Rightarrow> pad2 m @ pad4 y)"

text \<open>\<open>_reject_period_mismatch\<close>; \<open>rep\<close> is the \<open>repr\<close> of a value that is not a string.\<close>

definition period_mismatch ::
  "(json \<Rightarrow> string) \<Rightarrow> string \<Rightarrow> string \<Rightarrow> json \<Rightarrow> date \<Rightarrow> exc + unit" where
  "period_mismatch rep code name p expected =
     (if p = JStr (month_year expected) then Inr ()
      else Inl (ValidationRejected (code @ '' payload '' @ name @ ''=''
        @ (case p of JStr s \<Rightarrow> py_repr s | _ \<Rightarrow> rep p)
        @ '' does not match the trigger's period_start ('' @ isoformat expected @ '', expected ''
        @ py_repr (month_year expected) @ '')'')))"

lemma load_json_Inr: "load_json loads code data = Inr j \<longleftrightarrow> loads data = Inr j"
  by (auto simp: load_json_def split: sum.splits json_failure.splits)

lemma rmap_Inr_all: "rmap f xs = Inr ys \<Longrightarrow> (\<And>x y. f x = Inr y \<Longrightarrow> P y) \<Longrightarrow> y \<in> set ys \<Longrightarrow> P y"
  by (induction xs arbitrary: ys) (auto simp: rbind_eq_Inr_iff)

lemma period_mismatch_Inr: "period_mismatch rep code name p expected = Inr u \<longleftrightarrow> p = JStr (month_year expected)"
  by (auto simp: period_mismatch_def)

section \<open>What a loader stores\<close>

text \<open>A row of a header table: the columns all loaders fill in, and those of its own table.\<close>

record 'h statement =
  stm_entity :: uuid
  stm_gstin :: string
  stm_period :: date
  stm_batch :: uuid
  stm_ingest :: uuid
  stm_hash :: string
  stm_columns :: 'h

type_synonym ('h, 'x) statement_tables = "'h statement version list \<times> (nat \<times> 'x) list"

record ('h, 'x) statement_db = silver_core +
  headers :: "'h statement version list"
  details :: "(nat \<times> 'x) list"

record return_load =
  gl_entity :: uuid
  gl_gstin :: string
  gl_ingest :: uuid
  gl_data :: bytes
  gl_period_start :: date
  gl_period_end :: date
  gl_run :: uuid
  gl_batch :: uuid
  gl_now :: instant

text \<open>
  The document a loader parses, its hash, the detail rows it writes under the header, and the two
  tables: whether the values have room in the columns, what the columns keep of them, and the checks.
\<close>

record ('d, 'h, 'x) return_loader =
  gr_code :: string
  gr_table :: string
  gr_hash :: "'d \<Rightarrow> string"
  gr_details :: "'d \<Rightarrow> 'x list"
  gr_rows :: "'d \<Rightarrow> nat"
  gr_header_fits :: "'d \<Rightarrow> bool"
  gr_header :: "'d \<Rightarrow> 'h"
  gr_header_checks :: "'h statement \<Rightarrow> bool"
  gr_detail_fits :: "'x \<Rightarrow> bool"
  gr_stored :: "'x \<Rightarrow> 'x"
  gr_detail_checks :: "'x \<Rightarrow> bool"
  gr_clash :: "'x \<Rightarrow> 'x \<Rightarrow> bool"
  gr_vocabulary :: vocabulary
  gr_bytes_digest :: "bytes \<Rightarrow> bytes"

record return_outcome =
  go_batch :: "uuid option"
  go_inserted :: bool

type_synonym statement_key = "uuid \<times> string \<times> date"

definition statement_key :: "'h statement \<Rightarrow> statement_key" where
  "statement_key s = (stm_entity s, stm_gstin s, stm_period s)"

definition load_key :: "return_load \<Rightarrow> statement_key" where
  "load_key gl = (gl_entity gl, gl_gstin gl, gl_period_start gl)"

definition statement_row :: "('d, 'h, 'x) return_loader \<Rightarrow> return_load \<Rightarrow> 'd \<Rightarrow> 'h statement" where
  "statement_row gr gl d = \<lparr>stm_entity = gl_entity gl, stm_gstin = gl_gstin gl, stm_period = gl_period_start gl,
     stm_batch = gl_batch gl, stm_ingest = gl_ingest gl, stm_hash = gr_hash gr d, stm_columns = gr_header gr d\<rparr>"

definition insert_detail ::
  "('d, 'h, 'x) return_loader \<Rightarrow> nat \<Rightarrow> (nat \<times> 'x) list \<Rightarrow> 'x \<Rightarrow> exc + (nat \<times> 'x) list" where
  "insert_detail gr h xs x =
     (if \<not> gr_detail_fits gr x then Inl column_overflow
      else if \<not> gr_detail_checks gr (gr_stored gr x) then Inl (OtherIntegrityError (gr_table gr))
      else if \<exists>(h', x')\<in>set xs. h' = h \<and> gr_clash gr x' (gr_stored gr x) then Inl (UniqueViolation (gr_table gr))
      else Inr (xs @ [(h, gr_stored gr x)]))"

definition insert_statement ::
  "('d, 'h, 'x) return_loader \<Rightarrow> return_load \<Rightarrow> 'd \<Rightarrow> ('h, 'x) statement_tables \<Rightarrow> exc + ('h, 'x) statement_tables" where
  "insert_statement gr gl d t =
     (case t of (hs, xs) \<Rightarrow>
        if \<not> gr_header_fits gr d then Inl column_overflow
        else if \<not> gr_header_checks gr (statement_row gr gl d) then Inl (OtherIntegrityError (gr_table gr))
        else rbind (insert_row statement_key (gr_table gr) (gl_period_start gl) (statement_row gr gl d) hs) (\<lambda>(h, hs').
             rbind (rfold (insert_detail gr h) xs (gr_details gr d)) (\<lambda>xs'. Inr (hs', xs'))))"

text \<open>Find the live return of the key; leave it when its hash is the same, else stamp it and insert.\<close>

definition upsert_statement ::
  "('d, 'h, 'x) return_loader \<Rightarrow> return_load \<Rightarrow> 'd \<Rightarrow> ('h, 'x) statement_tables
    \<Rightarrow> exc + outcome \<times> ('h, 'x) statement_tables" where
  "upsert_statement gr gl d t =
     (case t of (hs, xs) \<Rightarrow>
        case find_live_row statement_key (load_key gl) hs of
          Some live \<Rightarrow>
            if stm_hash (ve_row live) = gr_hash gr d then Inr (Unchanged, t)
            else rbind (insert_statement gr gl d (stamp_row (gl_now gl) (ve_id live) hs, xs)) (\<lambda>t'. Inr (Superseded, t'))
        | None \<Rightarrow> rbind (insert_statement gr gl d t) (\<lambda>t'. Inr (Inserted, t')))"

definition return_batch :: "('d, 'h, 'x) return_loader \<Rightarrow> return_load \<Rightarrow> 'd \<Rightarrow> ingest_batch" where
  "return_batch gr gl d = \<lparr>ib_batch_id = gl_batch gl, ib_entity_id = gl_entity gl, ib_document_type = gr_code gr,
     ib_source_stream = ''B'', ib_period_start = gl_period_start gl, ib_period_end = gl_period_end gl,
     ib_row_count = gr_rows gr d, ib_content_hash = gr_bytes_digest gr (gl_data gl), ib_manifest_ref = gl_ingest gl,
     ib_status = ''READY'', ib_ready_at = gl_now gl, ib_run_id = gl_run gl\<rparr>"

definition statement_tables_of :: "('h, 'x, 'a) statement_db_scheme \<Rightarrow> ('h, 'x) statement_tables" where
  "statement_tables_of db = (headers db, details db)"

definition live_statement :: "('h, 'x) statement_tables \<Rightarrow> statement_key \<Rightarrow> string option" where
  "live_statement t k = map_option (\<lambda>v. stm_hash (ve_row v)) (find_live_row statement_key k (fst t))"

text \<open>An unchanged return writes nothing, not even a batch.\<close>

definition store_statement ::
  "('d, 'h, 'x) return_loader \<Rightarrow> return_load \<Rightarrow> 'd \<Rightarrow> ('h, 'x, 'a) statement_db_scheme
    \<Rightarrow> exc + return_outcome \<times> ('h, 'x, 'a) statement_db_scheme" where
  "store_statement gr gl d db =
     (if live_statement (statement_tables_of db) (load_key gl) = Some (gr_hash gr d)
      then Inr (\<lparr>go_batch = None, go_inserted = False\<rparr>, db)
      else rbind (insert_batch (gr_vocabulary gr) (return_batch gr gl d) db) (\<lambda>db1.
           rbind (upsert_statement gr gl d (statement_tables_of db1)) (\<lambda>(c, t).
             Inr (\<lparr>go_batch = Some (gl_batch gl), go_inserted = True\<rparr>, db1\<lparr>headers := fst t, details := snd t\<rparr>))))"

definition return_load_run ::
  "('d, 'h, 'x) return_loader \<Rightarrow> (bytes \<Rightarrow> date \<Rightarrow> exc + 'd) \<Rightarrow> return_load \<Rightarrow> ('h, 'x, 'a) statement_db_scheme
    \<Rightarrow> (exc + return_outcome) \<times> ('h, 'x, 'a) statement_db_scheme" where
  "return_load_run gr parse gl db =
     (case rbind (parse (gl_data gl) (gl_period_start gl)) (\<lambda>d. store_statement gr gl d db) of
        Inl e \<Rightarrow> (Inl e, db)
      | Inr (out, db') \<Rightarrow> (Inr out, db'))"

section \<open>The tables keep their shape\<close>

definition statements_ok :: "('h, 'x) statement_tables \<Rightarrow> bool" where
  "statements_ok t \<longleftrightarrow> rows_ok statement_key (fst t) \<and> (\<forall>x\<in>set (snd t). fst x < length (fst t))"

definition details_of :: "(nat \<times> 'x) list \<Rightarrow> nat \<Rightarrow> 'x list" where
  "details_of xs h = map snd (filter (\<lambda>x. fst x = h) xs)"

lemma details_of_append: "details_of (xs @ ys) h = details_of xs h @ details_of ys h"
  by (simp add: details_of_def)

lemma details_of_Pair [simp]:
  "details_of (map (Pair g) xs) h = (if g = h then xs else [])"
  "details_of (map (Pair g \<circ> f) xs) h = (if g = h then map f xs else [])"
  by (induction xs) (auto simp: details_of_def)

lemma details_of_fresh: "\<forall>x\<in>set xs. fst x < h \<Longrightarrow> details_of xs h = []"
  by (auto simp: details_of_def filter_empty_conv)

lemma statement_row_simps [simp]:
  "statement_key (statement_row gr gl d) = load_key gl" "stm_hash (statement_row gr gl d) = gr_hash gr d"
  "stm_columns (statement_row gr gl d) = gr_header gr d"
  by (simp_all add: statement_key_def statement_row_def load_key_def)

lemma insert_details_Inr: "rfold (insert_detail gr h) xs new = Inr xs' \<Longrightarrow> xs' = xs @ map (Pair h) (map (gr_stored gr) new)"
proof (induction new arbitrary: xs)
  case (Cons x new)
  then obtain xs1 where a: "insert_detail gr h xs x = Inr xs1" "rfold (insert_detail gr h) xs1 new = Inr xs'"
    by (auto simp: rbind_eq_Inr_iff)
  from a(1) have "xs1 = xs @ [(h, gr_stored gr x)]" by (auto simp: insert_detail_def split: if_splits)
  with Cons.IH[OF a(2)] show ?case by simp
qed simp

text \<open>What gets in satisfies the checks, and no two details of a return share a key.\<close>

lemma insert_details_sound:
  "rfold (insert_detail gr h) xs new = Inr xs' \<Longrightarrow>
     sorted_wrt (\<lambda>x y. \<not> gr_clash gr x y) (map (gr_stored gr) new) \<and> (\<forall>x\<in>gr_stored gr ` set new. gr_detail_checks gr x
       \<and> (\<forall>y\<in>set (details_of xs h). \<not> gr_clash gr y x))"
proof (induction new arbitrary: xs)
  case (Cons x new)
  then obtain xs1 where a: "insert_detail gr h xs x = Inr xs1" "rfold (insert_detail gr h) xs1 new = Inr xs'"
    by (auto simp: rbind_eq_Inr_iff)
  from a(1) have x: "xs1 = xs @ [(h, gr_stored gr x)]" "gr_detail_checks gr (gr_stored gr x)"
    "\<forall>y\<in>set (details_of xs h). \<not> gr_clash gr y (gr_stored gr x)"
    by (auto simp: insert_detail_def details_of_def split: if_splits)
  have "details_of xs1 h = details_of xs h @ [gr_stored gr x]" by (simp add: x(1) details_of_def)
  with Cons.IH[OF a(2)] x show ?case by auto
qed simp

lemma insert_statement_ok:
  assumes "statements_ok (hs, xs)" "insert_statement gr gl d (hs, xs) = Inr t'"
  shows "t' = (hs @ [new_row (length hs) (gl_period_start gl) (statement_row gr gl d)], xs @ map (Pair (length hs)) (map (gr_stored gr) (gr_details gr d)))
    \<and> statements_ok t' \<and> find_live_row statement_key k (fst t') =
        (if k = load_key gl then Some (new_row (length hs) (gl_period_start gl) (statement_row gr gl d)) else find_live_row statement_key k hs)"
proof -
  from assms(2) obtain h hs' xs' where
    a: "insert_row statement_key (gr_table gr) (gl_period_start gl) (statement_row gr gl d) hs = Inr (h, hs')"
      "rfold (insert_detail gr h) xs (gr_details gr d) = Inr xs'" "t' = (hs', xs')"
    by (auto simp: insert_statement_def rbind_eq_Inr_iff split: if_splits)
  have "rows_ok statement_key hs" using assms(1) by (simp add: statements_ok_def)
  from insert_row_ok[OF this a(1), of k] insert_details_Inr[OF a(2)] assms(1) a(3) show ?thesis
    by (auto simp: statements_ok_def less_SucI)
qed

lemma upsert_statement_cases:
  assumes ok: "statements_ok t" and u: "upsert_statement gr gl d t = Inr (c, t')"
  shows "statements_ok t'"
    and "live_statement t' k = (if k = load_key gl then Some (gr_hash gr d) else live_statement t k)"
    and "c = (case live_statement t (load_key gl) of None \<Rightarrow> Inserted
          | Some h \<Rightarrow> if h = gr_hash gr d then Unchanged else Superseded)"
    and "c \<noteq> Unchanged \<Longrightarrow> (\<exists>v. find_live_row statement_key (load_key gl) (fst t') = Some v
          \<and> ve_row v = statement_row gr gl d \<and> details_of (snd t') (ve_id v) = map (gr_stored gr) (gr_details gr d))"
    and "history (fst t) (fst t') \<and> (\<exists>new. snd t' = snd t @ new \<and> (\<forall>x\<in>set new. length (fst t) \<le> fst x))"
proof -
  obtain hs xs where t: "t = (hs, xs)" by (cases t)
  let ?k = "load_key gl"
  have r: "rows_ok statement_key hs" and old: "\<forall>x\<in>set xs. fst x < length hs" using ok by (simp_all add: t statements_ok_def)
  have "statements_ok t'
      \<and> live_statement t' k = (if k = ?k then Some (gr_hash gr d) else live_statement t k)
      \<and> c = (case live_statement t ?k of None \<Rightarrow> Inserted
          | Some h \<Rightarrow> if h = gr_hash gr d then Unchanged else Superseded)
      \<and> (c \<noteq> Unchanged \<longrightarrow> (\<exists>v. find_live_row statement_key ?k (fst t') = Some v
          \<and> ve_row v = statement_row gr gl d \<and> details_of (snd t') (ve_id v) = map (gr_stored gr) (gr_details gr d)))
      \<and> history (fst t) (fst t') \<and> (\<exists>new. snd t' = snd t @ new \<and> (\<forall>x\<in>set new. length (fst t) \<le> fst x))"
  proof (cases "find_live_row statement_key ?k hs")
    case None
    with u have i: "insert_statement gr gl d (hs, xs) = Inr t'" "c = Inserted"
      by (auto simp: t upsert_statement_def rbind_eq_Inr_iff)
    note a = insert_statement_ok[OF ok[unfolded t] i(1), of k] insert_statement_ok[OF ok[unfolded t] i(1), of ?k]
    have "details_of (snd t') (length hs) = map (gr_stored gr) (gr_details gr d)"
      using a by (simp add: details_of_append details_of_fresh[OF old])
    with a None i(2) history_append[of hs] show ?thesis by (auto simp: t live_statement_def)
  next
    case (Some w)
    show ?thesis
    proof (cases "stm_hash (ve_row w) = gr_hash gr d")
      case True
      with u Some ok show ?thesis by (auto simp: t upsert_statement_def live_statement_def)
    next
      case False
      let ?hs = "stamp_row (gl_now gl) (ve_id w) hs"
      from u Some False have i: "insert_statement gr gl d (?hs, xs) = Inr t'" "c = Superseded"
        by (auto simp: t upsert_statement_def rbind_eq_Inr_iff)
      note cl = stamp_row_ok(1,3)[OF r Some, where now = "gl_now gl"]
        stamp_row_ok(2)[OF r Some, where now = "gl_now gl" and j = k]
      have ok': "statements_ok (?hs, xs)" using ok cl by (simp add: t statements_ok_def)
      note a = insert_statement_ok[OF ok' i(1), of k] insert_statement_ok[OF ok' i(1), of ?k]
      have h: "history hs (fst t')"
        using history_trans[OF history_stamp[OF r Some, where now = "gl_now gl"] history_append] a by simp
      have "details_of (snd t') (length hs) = map (gr_stored gr) (gr_details gr d)"
        using a cl by (simp add: details_of_append details_of_fresh[OF old])
      with a cl Some False i(2) h show ?thesis by (auto simp: t live_statement_def)
    qed
  qed
  then show "statements_ok t'"
    "live_statement t' k = (if k = ?k then Some (gr_hash gr d) else live_statement t k)"
    "c = (case live_statement t ?k of None \<Rightarrow> Inserted
          | Some h \<Rightarrow> if h = gr_hash gr d then Unchanged else Superseded)"
    "c \<noteq> Unchanged \<Longrightarrow> (\<exists>v. find_live_row statement_key ?k (fst t') = Some v
          \<and> ve_row v = statement_row gr gl d \<and> details_of (snd t') (ve_id v) = map (gr_stored gr) (gr_details gr d))"
    "history (fst t) (fst t') \<and> (\<exists>new. snd t' = snd t @ new \<and> (\<forall>x\<in>set new. length (fst t) \<le> fst x))"
    by blast+
qed

lemma upsert_statement_sound:
  assumes "upsert_statement gr gl d t = Inr (c, t')" "c \<noteq> Unchanged"
  shows "sorted_wrt (\<lambda>x y. \<not> gr_clash gr x y) (map (gr_stored gr) (gr_details gr d))
    \<and> (\<forall>x\<in>gr_stored gr ` set (gr_details gr d). gr_detail_checks gr x)
    \<and> gr_header_checks gr (statement_row gr gl d)"
proof -
  obtain hs xs where t: "t = (hs, xs)" by (cases t)
  from assms obtain hs' where "insert_statement gr gl d (hs', xs) = Inr t'"
    by (auto simp: t upsert_statement_def rbind_eq_Inr_iff split: option.splits if_splits)
  then show ?thesis
    by (auto simp: insert_statement_def rbind_eq_Inr_iff split: if_splits dest!: insert_details_sound)
qed

lemma upsert_statement_no_op:
  "live_statement t (load_key gl) = Some (gr_hash gr d) \<Longrightarrow> upsert_statement gr gl d t = Inr (Unchanged, t)"
  by (cases t) (auto simp: upsert_statement_def live_statement_def)

interpretation returns:
  versioned_upsert "upsert_statement gr gl" statements_ok live_statement "\<lambda>_. load_key gl" "gr_hash gr" "\<lambda>_. True"
  for gr gl
  by unfold_locales (auto simp: upsert_statement_cases(2) upsert_statement_no_op dest: upsert_statement_cases(1,3))

section \<open>A load\<close>

lemma store_statement_Inr:
  assumes "store_statement gr gl d db = Inr (out, db')" "statements_ok (statement_tables_of db)"
  shows "statements_ok (statement_tables_of db')"
    and "live_statement (statement_tables_of db') k = (if k = load_key gl then Some (gr_hash gr d)
           else live_statement (statement_tables_of db) k)"
    and "quarantined db' = quarantined db \<and> rejected_rows db' = rejected_rows db"
    and "go_inserted out \<longleftrightarrow> live_statement (statement_tables_of db) (load_key gl) \<noteq> Some (gr_hash gr d)"
    and "if go_inserted out
      then batches db' = batches db @ [return_batch gr gl d] \<and> go_batch out = Some (gl_batch gl)
        \<and> (\<exists>v. find_live_row statement_key (load_key gl) (headers db') = Some v
             \<and> ve_row v = statement_row gr gl d \<and> details_of (details db') (ve_id v) = map (gr_stored gr) (gr_details gr d))
        \<and> history (headers db) (headers db')
      else db' = db \<and> go_batch out = None"
proof -
  let ?t = "statement_tables_of db"
  have "statements_ok (statement_tables_of db')
      \<and> live_statement (statement_tables_of db') k = (if k = load_key gl then Some (gr_hash gr d) else live_statement ?t k)
      \<and> quarantined db' = quarantined db \<and> rejected_rows db' = rejected_rows db
      \<and> (go_inserted out \<longleftrightarrow> live_statement ?t (load_key gl) \<noteq> Some (gr_hash gr d))
      \<and> (if go_inserted out
      then batches db' = batches db @ [return_batch gr gl d] \<and> go_batch out = Some (gl_batch gl)
        \<and> (\<exists>v. find_live_row statement_key (load_key gl) (headers db') = Some v
             \<and> ve_row v = statement_row gr gl d \<and> details_of (details db') (ve_id v) = map (gr_stored gr) (gr_details gr d))
        \<and> history (headers db) (headers db')
      else db' = db \<and> go_batch out = None)"
  proof (cases "live_statement ?t (load_key gl) = Some (gr_hash gr d)")
    case True
    with assms show ?thesis by (auto simp: store_statement_def)
  next
    case False
    with assms(1) obtain db1 c t where b: "insert_batch (gr_vocabulary gr) (return_batch gr gl d) db = Inr db1"
      and u: "upsert_statement gr gl d (statement_tables_of db1) = Inr (c, t)"
      and o: "out = \<lparr>go_batch = Some (gl_batch gl), go_inserted = True\<rparr>" "db' = db1\<lparr>headers := fst t, details := snd t\<rparr>"
      by (auto simp: store_statement_def rbind_eq_Inr_iff)
    note db1 = insert_batch_Inr[OF b, THEN conjunct1]
    have "statement_tables_of db1 = ?t" by (simp add: db1 statement_tables_of_def)
    with u have u: "upsert_statement gr gl d ?t = Inr (c, t)" by simp
    note a = upsert_statement_cases(1,3,4,5)[OF assms(2) u] upsert_statement_cases(2)[OF assms(2) u, of k]
    have "c \<noteq> Unchanged" using a(2) False by (auto split: option.splits)
    from a(3)[OF this] a(1,4,5) show ?thesis using False by (simp add: o db1 statement_tables_of_def)
  qed
  then show "statements_ok (statement_tables_of db')"
    "live_statement (statement_tables_of db') k = (if k = load_key gl then Some (gr_hash gr d) else live_statement ?t k)"
    "quarantined db' = quarantined db \<and> rejected_rows db' = rejected_rows db"
    "go_inserted out \<longleftrightarrow> live_statement ?t (load_key gl) \<noteq> Some (gr_hash gr d)"
    "if go_inserted out
      then batches db' = batches db @ [return_batch gr gl d] \<and> go_batch out = Some (gl_batch gl)
        \<and> (\<exists>v. find_live_row statement_key (load_key gl) (headers db') = Some v
             \<and> ve_row v = statement_row gr gl d \<and> details_of (details db') (ve_id v) = map (gr_stored gr) (gr_details gr d))
        \<and> history (headers db) (headers db')
      else db' = db \<and> go_batch out = None"
    by blast+
qed

lemma store_statement_sound:
  assumes "store_statement gr gl d db = Inr (out, db')" "go_inserted out" "statements_ok (statement_tables_of db)"
  shows "sorted_wrt (\<lambda>x y. \<not> gr_clash gr x y) (map (gr_stored gr) (gr_details gr d))
    \<and> (\<forall>x\<in>gr_stored gr ` set (gr_details gr d). gr_detail_checks gr x)
    \<and> gr_header_checks gr (statement_row gr gl d)"
proof -
  from assms(1,2) have n: "live_statement (statement_tables_of db) (load_key gl) \<noteq> Some (gr_hash gr d)"
    by (auto simp: store_statement_def split: if_splits)
  with assms(1) obtain db1 c t where b: "insert_batch (gr_vocabulary gr) (return_batch gr gl d) db = Inr db1"
    and u: "upsert_statement gr gl d (statement_tables_of db1) = Inr (c, t)"
    by (auto simp: store_statement_def rbind_eq_Inr_iff)
  have "statement_tables_of db1 = statement_tables_of db"
    by (simp add: insert_batch_Inr[OF b, THEN conjunct1] statement_tables_of_def)
  with u n upsert_statement_cases(3)[OF assms(3), of gr gl d c t] have "c \<noteq> Unchanged"
    by (auto split: option.splits)
  with u show ?thesis by (rule upsert_statement_sound)
qed

lemma return_load_Inr:
  "return_load_run gr parse gl db = (Inr out, db') \<longleftrightarrow>
     (\<exists>d. parse (gl_data gl) (gl_period_start gl) = Inr d \<and> store_statement gr gl d db = Inr (out, db'))"
  by (auto simp: return_load_run_def rbind_eq_Inr_iff split: sum.splits)

text \<open>A return that failed, for whatever reason, left nothing behind: no row, no batch, no verdict.\<close>

lemma return_load_Inl: "return_load_run gr parse gl db = (Inl e, db') \<Longrightarrow> db' = db"
  by (auto simp: return_load_run_def split: sum.splits prod.splits)

text \<open>The hash decides: a return whose hash is that of the live one is dropped.\<close>

lemma return_load_blind:
  assumes "live_statement (statement_tables_of db) (load_key gl) = Some (gr_hash gr d)"
    and "parse (gl_data gl) (gl_period_start gl) = Inr d"
  shows "return_load_run gr parse gl db = (Inr \<lparr>go_batch = None, go_inserted = False\<rparr>, db)"
  using assms by (simp add: return_load_run_def store_statement_def)

text \<open>The effect of a load, for the modules that fill in the loader.\<close>

lemma return_load_effect:
  assumes "return_load_run gr parse gl db = (Inr out, db')" "statements_ok (statement_tables_of db)"
  shows "\<exists>d. parse (gl_data gl) (gl_period_start gl) = Inr d \<and> statements_ok (statement_tables_of db')
    \<and> (\<forall>k. live_statement (statement_tables_of db') k = (if k = load_key gl then Some (gr_hash gr d)
          else live_statement (statement_tables_of db) k))
    \<and> (go_inserted out \<longleftrightarrow> live_statement (statement_tables_of db) (load_key gl) \<noteq> Some (gr_hash gr d))
    \<and> (if go_inserted out
       then batches db' = batches db @ [return_batch gr gl d] \<and> go_batch out = Some (gl_batch gl)
         \<and> (\<exists>v. find_live_row statement_key (load_key gl) (headers db') = Some v \<and> ve_row v = statement_row gr gl d
              \<and> details_of (details db') (ve_id v) = map (gr_stored gr) (gr_details gr d)) \<and> history (headers db) (headers db')
         \<and> sorted_wrt (\<lambda>x y. \<not> gr_clash gr x y) (map (gr_stored gr) (gr_details gr d))
       else db' = db \<and> go_batch out = None)"
proof -
  from assms(1) obtain d where p: "parse (gl_data gl) (gl_period_start gl) = Inr d"
    and s: "store_statement gr gl d db = Inr (out, db')"
    by (auto simp: return_load_Inr)
  note a = store_statement_Inr(1,4,5)[OF s assms(2)] store_statement_sound[OF s _ assms(2)]
  have "\<forall>k. live_statement (statement_tables_of db') k = (if k = load_key gl then Some (gr_hash gr d)
          else live_statement (statement_tables_of db) k)"
    using store_statement_Inr(2)[OF s assms(2)] by blast
  with p a show ?thesis by (intro exI[of _ d]) (auto split: if_splits)
qed

end
