(* ===== verification/Gstr2b.thy ===== *)
theory Gstr2b
  imports GstnReturn
begin

text \<open>
  \<open>src/src/silver/gstn_returns/gstr2b.py\<close>: the parser of a GSTR-2B statement and its loader, an
  instance of \<open>GstnReturn\<close>. Values the parser passes on unread, such as the counterparty's name or
  the place of supply, stay JSON values; what the driver and the column make of one is a parameter, by
  the column's name, and whether it is accepted is part of the checks. Amounts go into
  \<open>money_inr\<close> and \<open>tax_rate\<close> columns (\<open>migrations/tenant/026_gstr_2b.sql\<close>), which round them.
\<close>

section \<open>Data\<close>

record g2_line =
  g2_section :: string
  g2_gstin :: json
  g2_name :: json
  g2_kind :: string
  g2_number :: json
  g2_date :: date
  g2_item :: json
  g2_rate :: "decimal option"
  g2_taxable :: "decimal option"
  g2_igst :: decimal
  g2_cgst :: decimal
  g2_sgst :: decimal
  g2_cess :: decimal
  g2_itc_available :: "bool option"
  g2_itc_reason :: json
  g2_place :: json
  g2_reverse :: "bool option"
  g2_attributes :: "(string \<times> json) list"
  g2_row_hash :: string

record g2_summary =
  gs_category :: string
  gs_availability :: string
  gs_igst :: decimal
  gs_cgst :: decimal
  gs_sgst :: decimal
  gs_cess :: decimal

record parsed_gstr2b =
  p2_gstin :: string
  p2_period :: string
  p2_generated :: "date option"
  p2_version :: json
  p2_lines :: "g2_line list"
  p2_summary :: "g2_summary list"
  p2_document_hash :: string

section \<open>Hashes\<close>

text \<open>\<open>str(d or "")\<close>: zero is falsy, a NaN is not.\<close>

definition dec_or_empty :: "decimal option \<Rightarrow> string" where
  "dec_or_empty d = (case d of
      None \<Rightarrow> []
    | Some (Fin s c e) \<Rightarrow> (if c = 0 then [] else dec_str (Fin s c e))
    | Some x \<Rightarrow> dec_str x)"

text \<open>\<open>ParsedLine.__post_init__\<close>: nothing of the last seven fields goes into the hash.\<close>

definition line_parts :: "(json \<Rightarrow> string) \<Rightarrow> g2_line \<Rightarrow> exc + string list" where
  "line_parts rep l =
     rbind (jtext_or_empty (g2_gstin l)) (\<lambda>gstin. rbind (jtext (g2_number l)) (\<lambda>number.
       Inr [g2_section l, gstin, g2_kind l, number, isoformat (g2_date l),
         (if g2_item l = JNull then [] else py_str rep (g2_item l)),
         dec_or_empty (g2_rate l), dec_or_empty (g2_taxable l),
         dec_str (g2_igst l), dec_str (g2_cgst l), dec_str (g2_sgst l), dec_str (g2_cess l)]))"

definition mk_line :: "(string \<Rightarrow> string) \<Rightarrow> (json \<Rightarrow> string) \<Rightarrow> g2_line \<Rightarrow> exc + g2_line" where
  "mk_line H rep l = rbind (line_parts rep l) (\<lambda>ps. Inr (l\<lparr>g2_row_hash := hash_values H ps\<rparr>))"

definition summary_hash :: "(string \<Rightarrow> string) \<Rightarrow> g2_summary \<Rightarrow> string" where
  "summary_hash H s = hash_values H [gs_category s, gs_availability s, dec_str (gs_igst s), dec_str (gs_cgst s),
     dec_str (gs_sgst s), dec_str (gs_cess s)]"

definition statement_hash :: "(string \<Rightarrow> string) \<Rightarrow> string \<Rightarrow> string \<Rightarrow> g2_line list \<Rightarrow> g2_summary list \<Rightarrow> string" where
  "statement_hash H gstin period ls ss =
     hash_values H ([gstin, period] @ map g2_row_hash ls @ map (summary_hash H) ss)"

section \<open>Sections of the payload\<close>

definition yes_or_none :: "json \<Rightarrow> bool option" where
  "yes_or_none j = (if j = JNull then None else Some (j = JStr ''Y''))"

definition blank_line :: "string \<Rightarrow> string \<Rightarrow> g2_line" where
  "blank_line section knd = \<lparr>g2_section = section, g2_gstin = JNull, g2_name = JNull, g2_kind = knd, g2_number = JNull,
     g2_date = max_date, g2_item = JNull, g2_rate = None, g2_taxable = None, g2_igst = dec_zero, g2_cgst = dec_zero,
     g2_sgst = dec_zero, g2_cess = dec_zero, g2_itc_available = None, g2_itc_reason = JNull, g2_place = JNull,
     g2_reverse = None, g2_attributes = [], g2_row_hash = []\<rparr>"

definition b2b_item ::
  "(string \<Rightarrow> string) \<Rightarrow> (json \<Rightarrow> string) \<Rightarrow> json \<Rightarrow> json \<Rightarrow> json \<Rightarrow> json \<Rightarrow> json \<Rightarrow> (string \<times> json) list \<Rightarrow> json
    \<Rightarrow> exc + g2_line" where
  "b2b_item H rep ctin trdnm invoice itcavl reverse attrs item =
     rbind (jitem ''inum'' invoice) (\<lambda>inum.
     rbind (rbind (jitem ''idt'' invoice) return_date) (\<lambda>d.
     rbind (jget ''num'' item) (\<lambda>num.
     rbind (amount_of ''rt'' item) (\<lambda>rt. rbind (amount_of ''txval'' item) (\<lambda>tx.
     rbind (amount_of ''igst'' item) (\<lambda>ig. rbind (amount_of ''cgst'' item) (\<lambda>cg.
     rbind (amount_of ''sgst'' item) (\<lambda>sg. rbind (amount_of ''cess'' item) (\<lambda>ce.
     rbind (jget ''rsn'' invoice) (\<lambda>rsn. rbind (jget ''pos'' invoice) (\<lambda>ps.
       mk_line H rep ((blank_line ''B2B'' ''INVOICE'')\<lparr>g2_gstin := ctin, g2_name := trdnm, g2_number := inum,
         g2_date := d, g2_item := num, g2_rate := Some rt, g2_taxable := Some tx, g2_igst := ig, g2_cgst := cg,
         g2_sgst := sg, g2_cess := ce, g2_itc_available := yes_or_none itcavl, g2_itc_reason := or_null rsn,
         g2_place := ps, g2_reverse := yes_or_none reverse, g2_attributes := attrs\<rparr>))))))))))))"

definition b2b_invoice ::
  "(string \<Rightarrow> string) \<Rightarrow> (json \<Rightarrow> string) \<Rightarrow> json \<Rightarrow> json \<Rightarrow> (string \<times> json) list \<Rightarrow> json \<Rightarrow> exc + g2_line list" where
  "b2b_invoice H rep ctin trdnm supplier_attrs invoice =
     rbind (jget ''itcavl'' invoice) (\<lambda>itcavl. rbind (jget ''rev'' invoice) (\<lambda>reverse.
     rbind (jget ''irn'' invoice) (\<lambda>irn. rbind (jget ''irngendate'' invoice) (\<lambda>irnd. rbind (jget ''diffprcnt'' invoice) (\<lambda>diff.
     rbind (rbind (jget_or (JList []) ''items'' invoice) jiter) (\<lambda>items.
       rmap (b2b_item H rep ctin trdnm invoice itcavl reverse (supplier_attrs @
         [(''irn'', or_null irn), (''irngendate'', or_null irnd), (''diffprcnt'', diff)])) items))))))"

definition b2b_supplier :: "(string \<Rightarrow> string) \<Rightarrow> (json \<Rightarrow> string) \<Rightarrow> json \<Rightarrow> exc + g2_line list" where
  "b2b_supplier H rep supplier =
     rbind (jget ''ctin'' supplier) (\<lambda>ctin. rbind (jget ''trdnm'' supplier) (\<lambda>trdnm.
     rbind (jget ''supprd'' supplier) (\<lambda>prd. rbind (jget ''supfileddt'' supplier) (\<lambda>dt. rbind (jget ''supfilingmode'' supplier) (\<lambda>mode.
     rbind (rbind (jget_or (JList []) ''inv'' supplier) jiter) (\<lambda>invs.
     rbind (rmap (b2b_invoice H rep ctin trdnm
         [(''supplier_filed_period'', prd), (''supplier_filed_date'', dt), (''supplier_filing_mode'', mode)]) invs) (\<lambda>lss.
       Inr (concat lss))))))))"

definition parse_b2b :: "(string \<Rightarrow> string) \<Rightarrow> (json \<Rightarrow> string) \<Rightarrow> json \<Rightarrow> exc + g2_line list" where
  "parse_b2b H rep suppliers = rbind (jiter suppliers) (\<lambda>ss. rbind (rmap (b2b_supplier H rep) ss) (\<lambda>lss. Inr (concat lss)))"

definition impg_row :: "(string \<Rightarrow> string) \<Rightarrow> (json \<Rightarrow> string) \<Rightarrow> json \<Rightarrow> exc + g2_line" where
  "impg_row H rep row =
     rbind (jitem ''boenum'' row) (\<lambda>num. rbind (rbind (jitem ''boedt'' row) return_date) (\<lambda>d.
     rbind (amount_of ''txval'' row) (\<lambda>tx. rbind (amount_of ''igst'' row) (\<lambda>ig. rbind (amount_of ''cess'' row) (\<lambda>ce.
     rbind (jget ''refdt'' row) (\<lambda>ref. rbind (jget ''portcode'' row) (\<lambda>port. rbind (jget ''isamd'' row) (\<lambda>amd.
       mk_line H rep ((blank_line ''IMPG'' ''BILL_OF_ENTRY'')\<lparr>g2_number := num, g2_date := d, g2_taxable := Some tx,
         g2_igst := ig, g2_cess := ce,
         g2_attributes := [(''reference_date'', ref), (''port_code'', port), (''is_amended'', amd)]\<rparr>)))))))))"

definition isd_row :: "(string \<Rightarrow> string) \<Rightarrow> (json \<Rightarrow> string) \<Rightarrow> json \<Rightarrow> exc + g2_line" where
  "isd_row H rep row =
     rbind (jget ''ctin'' row) (\<lambda>ctin. rbind (jget ''trdnm'' row) (\<lambda>trdnm.
     rbind (jitem ''docnum'' row) (\<lambda>num. rbind (rbind (jitem ''docdt'' row) return_date) (\<lambda>d.
     rbind (amount_of ''igst'' row) (\<lambda>ig. rbind (amount_of ''cgst'' row) (\<lambda>cg. rbind (amount_of ''sgst'' row) (\<lambda>sg.
     rbind (amount_of ''cess'' row) (\<lambda>ce. rbind (jget ''doctype'' row) (\<lambda>ty.
       mk_line H rep ((blank_line ''ISD'' ''ISD_CREDIT'')\<lparr>g2_gstin := ctin, g2_name := trdnm, g2_number := num, g2_date := d,
         g2_igst := ig, g2_cgst := cg, g2_sgst := sg, g2_cess := ce, g2_attributes := [(''document_type'', ty)]\<rparr>))))))))))"

definition parse_rows :: "(json \<Rightarrow> exc + g2_line) \<Rightarrow> json \<Rightarrow> exc + g2_line list" where
  "parse_rows f rs = rbind (jiter rs) (rmap f)"

definition summary_row :: "string \<Rightarrow> string \<times> json \<Rightarrow> exc + g2_summary" where
  "summary_row availability kv =
     rbind (amount_of ''igst'' (snd kv)) (\<lambda>ig. rbind (amount_of ''cgst'' (snd kv)) (\<lambda>cg.
     rbind (amount_of ''sgst'' (snd kv)) (\<lambda>sg. rbind (amount_of ''cess'' (snd kv)) (\<lambda>ce.
       Inr \<lparr>gs_category = upper (fst kv), gs_availability = availability, gs_igst = ig, gs_cgst = cg, gs_sgst = sg, gs_cess = ce\<rparr>))))"

definition summary_block :: "json \<Rightarrow> string \<times> string \<Rightarrow> exc + g2_summary list" where
  "summary_block itcsumm ak =
     rbind (jget (snd ak) itcsumm) (\<lambda>block.
     rbind (jitems (if truthy block then block else JObj [])) (rmap (summary_row (fst ak))))"

definition parse_itc_summary :: "json \<Rightarrow> exc + g2_summary list" where
  "parse_itc_summary itcsumm = rbind (rmap (summary_block itcsumm) [(''AVAILABLE'', ''itcavl''), (''NOT_AVAILABLE'', ''itcnotavl'')])
     (\<lambda>sss. Inr (concat sss))"

section \<open>parse_gstr_2b\<close>

text \<open>What the \<open>try\<close> block reads.\<close>

definition gstr2b_top :: "json \<Rightarrow> exc + json \<times> json \<times> json \<times> json" where
  "gstr2b_top payload =
     rbind (jitem ''data'' payload) (\<lambda>toplevel. rbind (jitem ''gstin'' toplevel) (\<lambda>gstin.
     rbind (jitem ''rtnprd'' toplevel) (\<lambda>period. rbind (jitem ''docdata'' toplevel) (\<lambda>docdata.
       Inr (toplevel, gstin, period, docdata)))))"

definition reject_cdnr :: "json \<Rightarrow> exc + unit" where
  "reject_cdnr cdnr = (if truthy cdnr then Inl (ValidationRejected
     ''GSTR_2B payload has a non-empty cdnr section, which this parser does not support yet'') else Inr ())"

definition parse_gstr_2b ::
  "(bytes \<Rightarrow> json_failure + json) \<Rightarrow> (json \<Rightarrow> string) \<Rightarrow> (string \<Rightarrow> string) \<Rightarrow> bytes \<Rightarrow> date \<Rightarrow> exc + parsed_gstr2b" where
  "parse_gstr_2b loads rep H data expected =
     rbind (load_json loads ''GSTR_2B'' data) (\<lambda>payload.
     case gstr2b_top payload of Inl e \<Rightarrow> Inl (malformed ''GSTR_2B'' e)
     | Inr (toplevel, gstin, period, docdata) \<Rightarrow>
       rbind (period_mismatch rep ''GSTR_2B'' ''rtnprd'' period expected) (\<lambda>_.
       rbind (rbind (jget_or (JList []) ''cdnr'' docdata) reject_cdnr) (\<lambda>_.
       rbind (jget ''gendt'' toplevel) (\<lambda>gendt.
       rbind (if truthy gendt then map_sum id Some (return_date gendt) else Inr None) (\<lambda>generated.
       rbind (rbind (jget_or (JList []) ''b2b'' docdata) (parse_b2b H rep)) (\<lambda>b2b.
       rbind (rbind (jget_or (JList []) ''impg'' docdata) (parse_rows (impg_row H rep))) (\<lambda>impg.
       rbind (rbind (jget_or (JList []) ''isd'' docdata) (parse_rows (isd_row H rep))) (\<lambda>isd.
       rbind (jget ''version'' toplevel) (\<lambda>version.
       rbind (rbind (jget_or (JObj []) ''itcsumm'' toplevel) parse_itc_summary) (\<lambda>ss.
       rbind (jtext gstin) (\<lambda>g. rbind (jtext period) (\<lambda>p.
         Inr \<lparr>p2_gstin = g, p2_period = p, p2_generated = generated, p2_version = version,
           p2_lines = b2b @ impg @ isd, p2_summary = ss,
           p2_document_hash = statement_hash H g p (b2b @ impg @ isd) ss\<rparr>))))))))))))"

section \<open>Gstr2bLoader\<close>

datatype g2_detail = G2Line nat g2_line | G2Summary g2_summary

definition g2_details :: "parsed_gstr2b \<Rightarrow> g2_detail list" where
  "g2_details p = map (\<lambda>(n, l). G2Line n l) (zip [1..<1 + length (p2_lines p)] (p2_lines p)) @ map G2Summary (p2_summary p)"

fun g2_clash :: "g2_detail \<Rightarrow> g2_detail \<Rightarrow> bool" where
  "g2_clash (G2Line m _) (G2Line n _) = (m = n)"
| "g2_clash (G2Summary a) (G2Summary b) = (gs_category a = gs_category b \<and> gs_availability a = gs_availability b)"
| "g2_clash _ _ = False"

text \<open>The columns of \<open>gstr_2b\<close> beside the common ones: the GSTIN and the period of the payload are not kept.\<close>

record g2_header =
  h2_generated :: "date option"
  h2_version :: json

definition g2_header_of :: "(string \<Rightarrow> json \<Rightarrow> json) \<Rightarrow> parsed_gstr2b \<Rightarrow> g2_header" where
  "g2_header_of col p = \<lparr>h2_generated = p2_generated p, h2_version = col ''source_version'' (p2_version p)\<rparr>"

definition g2_line_fits :: "g2_line \<Rightarrow> bool" where
  "g2_line_fits l \<longleftrightarrow> column_fits_opt tax_rate (g2_rate l) \<and> column_fits_opt money_inr (g2_taxable l)
     \<and> column_fits money_inr (g2_igst l) \<and> column_fits money_inr (g2_cgst l)
     \<and> column_fits money_inr (g2_sgst l) \<and> column_fits money_inr (g2_cess l)"

definition stored_g2_line :: "(string \<Rightarrow> json \<Rightarrow> json) \<Rightarrow> g2_line \<Rightarrow> g2_line" where
  "stored_g2_line col l = l\<lparr>g2_gstin := col ''counterparty_gstin'' (g2_gstin l), g2_name := col ''counterparty_name'' (g2_name l),
     g2_number := col ''document_number'' (g2_number l), g2_item := col ''item_number'' (g2_item l),
     g2_rate := map_option (column_value tax_rate) (g2_rate l), g2_taxable := map_option (column_value money_inr) (g2_taxable l),
     g2_igst := column_value money_inr (g2_igst l), g2_cgst := column_value money_inr (g2_cgst l),
     g2_sgst := column_value money_inr (g2_sgst l), g2_cess := column_value money_inr (g2_cess l),
     g2_itc_reason := col ''itc_unavailable_reason'' (g2_itc_reason l), g2_place := col ''place_of_supply'' (g2_place l)\<rparr>"

definition stored_g2_summary :: "g2_summary \<Rightarrow> g2_summary" where
  "stored_g2_summary s = s\<lparr>gs_igst := column_value money_inr (gs_igst s), gs_cgst := column_value money_inr (gs_cgst s),
     gs_sgst := column_value money_inr (gs_sgst s), gs_cess := column_value money_inr (gs_cess s)\<rparr>"

fun g2_detail_fits :: "g2_detail \<Rightarrow> bool" where
  "g2_detail_fits (G2Line n l) = g2_line_fits l"
| "g2_detail_fits (G2Summary s) = (column_fits money_inr (gs_igst s) \<and> column_fits money_inr (gs_cgst s)
     \<and> column_fits money_inr (gs_sgst s) \<and> column_fits money_inr (gs_cess s))"

fun stored_g2_detail :: "(string \<Rightarrow> json \<Rightarrow> json) \<Rightarrow> g2_detail \<Rightarrow> g2_detail" where
  "stored_g2_detail col (G2Line n l) = G2Line n (stored_g2_line col l)"
| "stored_g2_detail col (G2Summary s) = G2Summary (stored_g2_summary s)"

record g2_env =
  ge_loads :: "bytes \<Rightarrow> json_failure + json"
  ge_repr :: "json \<Rightarrow> string"
  ge_digest :: "string \<Rightarrow> string"
  ge_bytes_digest :: "bytes \<Rightarrow> bytes"
  ge_vocabulary :: vocabulary
  ge_column :: "string \<Rightarrow> json \<Rightarrow> json"
  ge_header_checks :: "g2_header statement \<Rightarrow> bool"
  ge_detail_checks :: "g2_detail \<Rightarrow> bool"

definition gstr2b_loader :: "g2_env \<Rightarrow> (parsed_gstr2b, g2_header, g2_detail) return_loader" where
  "gstr2b_loader env = \<lparr>gr_code = ''GSTR_2B'', gr_table = ''gstr_2b'', gr_hash = p2_document_hash, gr_details = g2_details,
     gr_rows = (\<lambda>p. length (p2_lines p)), gr_header_fits = (\<lambda>p. True), gr_header = g2_header_of (ge_column env),
     gr_header_checks = ge_header_checks env, gr_detail_fits = g2_detail_fits,
     gr_stored = stored_g2_detail (ge_column env), gr_detail_checks = ge_detail_checks env, gr_clash = g2_clash, gr_vocabulary = ge_vocabulary env,
     gr_bytes_digest = ge_bytes_digest env\<rparr>"

definition gstr2b_load_run ::
  "g2_env \<Rightarrow> return_load \<Rightarrow> (g2_header, g2_detail, 'a) statement_db_scheme
    \<Rightarrow> (exc + return_outcome) \<times> (g2_header, g2_detail, 'a) statement_db_scheme" where
  "gstr2b_load_run env gl db =
     return_load_run (gstr2b_loader env) (parse_gstr_2b (ge_loads env) (ge_repr env) (ge_digest env)) gl db"

section \<open>What a load does\<close>

lemma parse_gstr_2b_Inr:
  assumes "parse_gstr_2b loads rep H data expected = Inr p"
  shows "p2_period p = month_year expected"
    and "p2_document_hash p = statement_hash H (p2_gstin p) (p2_period p) (p2_lines p) (p2_summary p)"
    and "\<exists>ls1 ls2 ls3. p2_lines p = ls1 @ ls2 @ ls3 \<and> (\<exists>x. parse_b2b H rep x = Inr ls1)
      \<and> (\<exists>x. parse_rows (impg_row H rep) x = Inr ls2) \<and> (\<exists>x. parse_rows (isd_row H rep) x = Inr ls3)"
proof -
  from assms obtain payload where l: "loads data = Inr payload"
    by (auto simp: parse_gstr_2b_def rbind_eq_Inr_iff load_json_Inr)
  then have j: "load_json loads c data = Inr payload" for c by (simp add: load_json_Inr)
  show "p2_period p = month_year expected"
    "p2_document_hash p = statement_hash H (p2_gstin p) (p2_period p) (p2_lines p) (p2_summary p)"
    "\<exists>ls1 ls2 ls3. p2_lines p = ls1 @ ls2 @ ls3 \<and> (\<exists>x. parse_b2b H rep x = Inr ls1)
      \<and> (\<exists>x. parse_rows (impg_row H rep) x = Inr ls2) \<and> (\<exists>x. parse_rows (isd_row H rep) x = Inr ls3)"
    using assms unfolding parse_gstr_2b_def j
    by (cases "gstr2b_top payload"; force simp: rbind_eq_Inr_iff period_mismatch_Inr jtext_def split: prod.splits)+
qed

text \<open>
  C24. What a successful GSTR-2B load does. The payload is of the period asked for; the return of the
  entity, GSTIN and period is now the one of the file, by its hash, and every other return is as it
  was. The load inserts exactly when the live return of the key had another hash, or there was none.
  Then one batch is added, no row is lost, and the live header is a row of this batch and ingest that
  points to the lines of the file, numbered from one, and to its summary, with every amount as its
  column rounds it. Otherwise nothing is written at all.
\<close>

theorem gstr2b_load_effect:
  assumes "gstr2b_load_run env gl db = (Inr out, db')" "statements_ok (statement_tables_of db)"
  shows "\<exists>p. parse_gstr_2b (ge_loads env) (ge_repr env) (ge_digest env) (gl_data gl) (gl_period_start gl) = Inr p
    \<and> p2_period p = month_year (gl_period_start gl) \<and> statements_ok (statement_tables_of db')
    \<and> (\<forall>k. live_statement (statement_tables_of db') k = (if k = load_key gl then Some (p2_document_hash p)
          else live_statement (statement_tables_of db) k))
    \<and> (go_inserted out \<longleftrightarrow> live_statement (statement_tables_of db) (load_key gl) \<noteq> Some (p2_document_hash p))
    \<and> (if go_inserted out
       then batches db' = batches db @ [return_batch (gstr2b_loader env) gl p] \<and> go_batch out = Some (gl_batch gl)
         \<and> (\<exists>v. find_live_row statement_key (load_key gl) (headers db') = Some v
              \<and> ve_row v = \<lparr>stm_entity = gl_entity gl, stm_gstin = gl_gstin gl, stm_period = gl_period_start gl,
                   stm_batch = gl_batch gl, stm_ingest = gl_ingest gl, stm_hash = p2_document_hash p,
                   stm_columns = g2_header_of (ge_column env) p\<rparr>
              \<and> details_of (details db') (ve_id v) =
                   map (\<lambda>(n, l). G2Line n (stored_g2_line (ge_column env) l)) (zip [1..<1 + length (p2_lines p)] (p2_lines p))
                   @ map (\<lambda>s. G2Summary (stored_g2_summary s)) (p2_summary p))
         \<and> history (headers db) (headers db')
       else db' = db \<and> go_batch out = None)"
proof -
  let ?L = "gstr2b_loader env" let ?ss = "map (\<lambda>s. G2Summary (stored_g2_summary s))"
  let ?ls = "\<lambda>p. map (\<lambda>(n, l). G2Line n (stored_g2_line (ge_column env) l)) (zip [1..<1 + length (p2_lines p)] (p2_lines p))"
  have h: "gr_hash ?L = p2_document_hash" by (simp add: gstr2b_loader_def)
  have d: "map (gr_stored ?L) (gr_details ?L p) = ?ls p @ ?ss (p2_summary p)" for p
    by (simp add: gstr2b_loader_def g2_details_def case_prod_unfold comp_def)
  have r: "statement_row ?L gl p = \<lparr>stm_entity = gl_entity gl, stm_gstin = gl_gstin gl, stm_period = gl_period_start gl,
      stm_batch = gl_batch gl, stm_ingest = gl_ingest gl, stm_hash = p2_document_hash p,
      stm_columns = g2_header_of (ge_column env) p\<rparr>" for p
    by (simp add: statement_row_def gstr2b_loader_def)
  note e = return_load_effect[OF assms(1)[unfolded gstr2b_load_run_def] assms(2), unfolded h d r]
  then obtain p where p: "parse_gstr_2b (ge_loads env) (ge_repr env) (ge_digest env) (gl_data gl) (gl_period_start gl) = Inr p"
    by blast
  with e parse_gstr_2b_Inr(1)[OF p] show ?thesis by (intro exI[of _ p]) (auto split: if_splits)
qed

section \<open>What the hash does not see\<close>

text \<open>A line without the fields that its hash leaves out.\<close>

definition hashed :: "g2_line \<Rightarrow> g2_line" where
  "hashed l = l\<lparr>g2_name := JNull, g2_itc_available := None, g2_itc_reason := JNull, g2_place := JNull,
     g2_reverse := None, g2_attributes := [], g2_row_hash := []\<rparr>"

definition line_hashed :: "(string \<Rightarrow> string) \<Rightarrow> (json \<Rightarrow> string) \<Rightarrow> g2_line \<Rightarrow> bool" where
  "line_hashed H rep l \<longleftrightarrow> (\<exists>ps. line_parts rep l = Inr ps \<and> g2_row_hash l = hash_values H ps)"

lemma line_parts_hashed: "line_parts rep (hashed l) = line_parts rep l"
  by (simp add: line_parts_def hashed_def)

lemma mk_line_hashed: "mk_line H rep l = Inr l' \<Longrightarrow> line_hashed H rep l'"
  by (auto simp: mk_line_def line_hashed_def rbind_eq_Inr_iff line_parts_def)

lemma b2b_invoice_hashed: "b2b_invoice H rep ctin trdnm as i = Inr ls \<Longrightarrow> \<forall>l\<in>set ls. line_hashed H rep l"
  by (auto simp: b2b_invoice_def rbind_eq_Inr_iff b2b_item_def elim!: rmap_Inr_all intro: mk_line_hashed)

lemma b2b_supplier_hashed: "b2b_supplier H rep s = Inr ls \<Longrightarrow> \<forall>l\<in>set ls. line_hashed H rep l"
  using rmap_Inr_all[where P = "\<lambda>ls. \<forall>l\<in>set ls. line_hashed H rep l"] b2b_invoice_hashed
  unfolding b2b_supplier_def rbind_eq_Inr_iff by fastforce

lemma parse_b2b_hashed: "parse_b2b H rep s = Inr ls \<Longrightarrow> \<forall>l\<in>set ls. line_hashed H rep l"
  using rmap_Inr_all[where P = "\<lambda>ls. \<forall>l\<in>set ls. line_hashed H rep l"] b2b_supplier_hashed
  unfolding parse_b2b_def rbind_eq_Inr_iff by fastforce

lemma impg_row_hashed: "impg_row H rep r = Inr l \<Longrightarrow> line_hashed H rep l"
  by (auto simp: impg_row_def rbind_eq_Inr_iff intro: mk_line_hashed)

lemma isd_row_hashed: "isd_row H rep r = Inr l \<Longrightarrow> line_hashed H rep l"
  by (auto simp: isd_row_def rbind_eq_Inr_iff intro: mk_line_hashed)

lemma parse_rows_hashed:
  "parse_rows f rs = Inr ls \<Longrightarrow> (\<And>r l. f r = Inr l \<Longrightarrow> line_hashed H rep l) \<Longrightarrow> \<forall>l\<in>set ls. line_hashed H rep l"
  unfolding parse_rows_def rbind_eq_Inr_iff by (blast intro: rmap_Inr_all)

lemma parsed_lines_hashed:
  assumes "parse_gstr_2b loads rep H data expected = Inr p"
  shows "\<forall>l\<in>set (p2_lines p). line_hashed H rep l"
proof -
  from parse_gstr_2b_Inr(3)[OF assms] obtain ls1 ls2 ls3 x y z where
    ls: "p2_lines p = ls1 @ ls2 @ ls3" and b2b: "parse_b2b H rep x = Inr ls1"
    and impg: "parse_rows (impg_row H rep) y = Inr ls2" and isd: "parse_rows (isd_row H rep) z = Inr ls3" by blast
  have "\<forall>l\<in>set ls1. line_hashed H rep l" by (rule parse_b2b_hashed[OF b2b])
  moreover have "\<forall>l\<in>set ls2. line_hashed H rep l" by (rule parse_rows_hashed[OF impg impg_row_hashed])
  moreover have "\<forall>l\<in>set ls3. line_hashed H rep l" by (rule parse_rows_hashed[OF isd isd_row_hashed])
  ultimately show ?thesis by (auto simp: ls)
qed

lemma same_row_hashes:
  assumes "\<forall>l\<in>set ls. line_hashed H rep l" "\<forall>l\<in>set ms. line_hashed H rep l" "map hashed ls = map hashed ms"
  shows "map g2_row_hash ls = map g2_row_hash ms"
  using assms
proof (induction ls arbitrary: ms)
  case (Cons l ls)
  then obtain m ms' where ms: "ms = m # ms'" "hashed l = hashed m" "map hashed ls = map hashed ms'" by auto
  then have "line_parts rep l = line_parts rep m" by (metis line_parts_hashed)
  with Cons.prems ms have "g2_row_hash l = g2_row_hash m" by (auto simp: line_hashed_def)
  with Cons.IH[of ms'] Cons.prems ms show ?case by auto
qed simp

text \<open>
  A corrected statement can be thrown away. The document hash leaves out the counterparty's name,
  whether the credit is available and why not, the place of supply, the reverse charge and all
  attributes; so when GSTN regenerates a statement in which a credit is no longer available, and
  nothing else differs, the load reports it unchanged and keeps the old lines, for any digest.
\<close>

theorem itc_correction_lost:
  assumes "gstr2b_load_run env gl db = (Inr out, db')" "statements_ok (statement_tables_of db)"
    and p: "parse_gstr_2b (ge_loads env) (ge_repr env) (ge_digest env) (gl_data gl) (gl_period_start gl) = Inr p"
    and q: "parse_gstr_2b (ge_loads env) (ge_repr env) (ge_digest env) (gl_data gl2) (gl_period_start gl2) = Inr q"
    and same: "p2_gstin q = p2_gstin p" "map hashed (p2_lines q) = map hashed (p2_lines p)" "p2_summary q = p2_summary p"
    and key: "load_key gl2 = load_key gl"
  shows "gstr2b_load_run env gl2 db' = (Inr \<lparr>go_batch = None, go_inserted = False\<rparr>, db')"
proof -
  let ?L = "gstr2b_loader env"
  have h: "gr_hash ?L = p2_document_hash" by (simp add: gstr2b_loader_def)
  have "gl_period_start gl2 = gl_period_start gl" using key by (simp add: load_key_def)
  then have "p2_period q = p2_period p" using parse_gstr_2b_Inr(1)[OF p] parse_gstr_2b_Inr(1)[OF q] by simp
  moreover have "map g2_row_hash (p2_lines q) = map g2_row_hash (p2_lines p)"
    by (rule same_row_hashes[OF parsed_lines_hashed[OF q] parsed_lines_hashed[OF p] same(2)])
  ultimately have e: "p2_document_hash q = p2_document_hash p"
    using parse_gstr_2b_Inr(2)[OF p] parse_gstr_2b_Inr(2)[OF q] same by (simp add: statement_hash_def)
  from assms(1) p have s: "store_statement ?L gl p db = Inr (out, db')"
    by (auto simp: gstr2b_load_run_def return_load_Inr)
  have "live_statement (statement_tables_of db') (load_key gl2) = Some (gr_hash ?L q)"
    using store_statement_Inr(2)[OF s assms(2), of "load_key gl"] by (simp add: h e key)
  from return_load_blind[where parse = "parse_gstr_2b (ge_loads env) (ge_repr env) (ge_digest env)", OF this q]
  show ?thesis by (simp add: gstr2b_load_run_def)
qed

section \<open>Witnesses\<close>

definition demo_2b :: "string \<Rightarrow> string \<Rightarrow> json" where
  "demo_2b gstin itc = JObj [(''data'', JObj [(''gstin'', JStr gstin), (''rtnprd'', JStr ''042026''),
     (''docdata'', JObj [(''b2b'', JList [JObj [(''ctin'', JStr ''29ABCDE1234F1Z5''), (''inv'', JList [JObj
       [(''inum'', JStr ''A1''), (''idt'', JStr ''05-04-2026''), (''itcavl'', JStr itc), (''items'', JList
         [JObj [(''num'', JInt 1), (''rt'', JInt 18), (''txval'', JFloat ''100.0''), (''igst'', JFloat ''18.0'')]])]])]])])])]"

definition demo_2b_env :: g2_env where
  "demo_2b_env = \<lparr>ge_loads = (\<lambda>b. if b = ''Y'' \<or> b = ''N'' then Inr (demo_2b ''29ABCDE1234F1Z5'' b) else Inl NotJson),
     ge_repr = (\<lambda>j. ''?''), ge_digest = id, ge_bytes_digest = id,
     ge_vocabulary = [(''Document_Type'', ''GSTR_2B''), (''Source_Stream'', ''B''), (''Batch_Status'', ''READY'')],
     ge_column = (\<lambda>c j. j), ge_header_checks = (\<lambda>s. True), ge_detail_checks = (\<lambda>x. True)\<rparr>"

definition demo_2b_db :: "(g2_header, g2_detail) statement_db" where
  "demo_2b_db = \<lparr>batches = [], quarantined = [], rejected_rows = [], headers = [], details = []\<rparr>"

definition demo_2b_load :: "uuid \<Rightarrow> bytes \<Rightarrow> return_load" where
  "demo_2b_load u b = \<lparr>gl_entity = 1, gl_gstin = ''29ABCDE1234F1Z5'', gl_ingest = u, gl_data = b,
     gl_period_start = Date 2026 4 1, gl_period_end = Date 2026 4 30, gl_run = u, gl_batch = u, gl_now = u\<rparr>"

lemma demo_2b_ok: "statements_ok (statement_tables_of demo_2b_db)"
  by (simp add: statements_ok_def statement_tables_of_def demo_2b_db_def)

lemma demo_2b_runs:
  "\<exists>out db'. gstr2b_load_run demo_2b_env (demo_2b_load 7 ''Y'') demo_2b_db = (Inr out, db') \<and> go_inserted out"
proof -
  let ?r = "gstr2b_load_run demo_2b_env (demo_2b_load 7 ''Y'') demo_2b_db"
  have "case ?r of (Inr out, db') \<Rightarrow> go_inserted out | (Inl e, db') \<Rightarrow> False" by code_simp
  then show ?thesis by (cases ?r; cases "fst ?r") auto
qed

theorem gstr2b_load_effect_witness:
  "\<exists>out db'. gstr2b_load_run demo_2b_env (demo_2b_load 7 ''Y'') demo_2b_db = (Inr out, db')
     \<and> map ib_batch_id (batches db') = [7]"
proof -
  obtain out db' where r: "gstr2b_load_run demo_2b_env (demo_2b_load 7 ''Y'') demo_2b_db = (Inr out, db')" "go_inserted out"
    using demo_2b_runs by blast
  obtain p where b: "batches db' = batches demo_2b_db @ [return_batch (gstr2b_loader demo_2b_env) (demo_2b_load 7 ''Y'') p]"
    using gstr2b_load_effect[OF r(1) demo_2b_ok] r(2) by auto
  have "ib_batch_id (return_batch L (demo_2b_load 7 d) p) = 7" for L :: "(parsed_gstr2b, g2_header, g2_detail) return_loader" and d
    by (simp add: return_batch_def demo_2b_load_def)
  with b r show ?thesis by (simp add: demo_2b_db_def)
qed

theorem itc_correction_lost_witness:
  "\<exists>out db'. gstr2b_load_run demo_2b_env (demo_2b_load 7 ''Y'') demo_2b_db = (Inr out, db')
     \<and> gstr2b_load_run demo_2b_env (demo_2b_load 8 ''N'') db' = (Inr \<lparr>go_batch = None, go_inserted = False\<rparr>, db')"
proof -
  obtain out db' where r: "gstr2b_load_run demo_2b_env (demo_2b_load 7 ''Y'') demo_2b_db = (Inr out, db')"
    using demo_2b_runs by blast
  let ?P = "\<lambda>gl. parse_gstr_2b (ge_loads demo_2b_env) (ge_repr demo_2b_env) (ge_digest demo_2b_env) (gl_data gl) (gl_period_start gl)"
  have "case ?P (demo_2b_load 7 ''Y'') of Inl e \<Rightarrow> False | Inr p \<Rightarrow> (case ?P (demo_2b_load 8 ''N'') of Inl e \<Rightarrow> False | Inr q \<Rightarrow>
      p2_gstin q = p2_gstin p \<and> map hashed (p2_lines q) = map hashed (p2_lines p) \<and> p2_summary q = p2_summary p)"
    by code_simp
  then obtain p q where pq: "?P (demo_2b_load 7 ''Y'') = Inr p" "?P (demo_2b_load 8 ''N'') = Inr q"
    "p2_gstin q = p2_gstin p" "map hashed (p2_lines q) = map hashed (p2_lines p)" "p2_summary q = p2_summary p"
    by (auto split: sum.splits)
  have k: "load_key (demo_2b_load 8 ''N'') = load_key (demo_2b_load 7 ''Y'')" by (simp add: load_key_def demo_2b_load_def)
  from itc_correction_lost[OF r demo_2b_ok pq k] r show ?thesis by blast
qed

text \<open>
  The GSTIN inside the payload is not compared with the GSTIN of the trigger: a statement of another
  registration is stored under the trigger's.
\<close>

theorem other_gstin_stored:
  "let env = demo_2b_env\<lparr>ge_loads := (\<lambda>b. Inr (demo_2b ''27ZZZZZ9999Z1Z9'' ''Y''))\<rparr>; gl = demo_2b_load 7 ''x'' in
   case gstr2b_load_run env gl demo_2b_db of
     (Inr out, db) \<Rightarrow> map (\<lambda>v. stm_gstin (ve_row v)) (headers db) = [''29ABCDE1234F1Z5'']
       \<and> map_sum id p2_gstin (parse_gstr_2b (ge_loads env) (ge_repr env) (ge_digest env) (gl_data gl) (gl_period_start gl))
          = Inr ''27ZZZZZ9999Z1Z9''
   | (Inl e, db) \<Rightarrow> False"
  by code_simp

end
