(* ===== verification/Gstr3b.thy ===== *)
theory Gstr3b
  imports GstnReturn
begin

text \<open>
  \<open>src/src/silver/gstn_returns/gstr3b.py\<close>: the parser of a filed GSTR-3B summary and its loader,
  an instance of \<open>GstnReturn\<close>. The boxes are fixed; the types of the credit and inward supply
  rows are closed vocabularies. \<open>arn\<close> and \<open>filing_status\<close> are passed on unread and stay JSON; what
  the driver and the column make of them is a parameter. All amounts go into \<open>money_inr\<close> columns
  (\<open>migrations/tenant/027_gstr_3b.sql\<close>), which round them to two decimals.
\<close>

section \<open>Data\<close>

type_synonym four_amounts = "decimal \<times> decimal \<times> decimal \<times> decimal"
type_synonym five_amounts = "decimal \<times> decimal \<times> decimal \<times> decimal \<times> decimal"

record itc_detail =
  it_box :: string
  it_type :: string
  it_igst :: decimal
  it_cgst :: decimal
  it_sgst :: decimal
  it_cess :: decimal

record inward_supply =
  iw_type :: string
  iw_inter :: decimal
  iw_intra :: decimal

record parsed_gstr3b =
  p3_gstin :: string
  p3_period :: string
  p3_arn :: json
  p3_filing_date :: "date option"
  p3_filing_status :: json
  p3_osup_det :: five_amounts
  p3_osup_zero :: "decimal \<times> decimal \<times> decimal"
  p3_osup_nil :: decimal
  p3_isup_rev :: five_amounts
  p3_osup_nongst :: decimal
  p3_itc_net :: four_amounts
  p3_interest :: four_amounts
  p3_itc :: "itc_detail list"
  p3_inward :: "inward_supply list"
  p3_document_hash :: string

section \<open>The hash\<close>

definition four_list :: "four_amounts \<Rightarrow> decimal list" where
  "four_list t = (case t of (a, b, c, d) \<Rightarrow> [a, b, c, d])"

definition five_list :: "five_amounts \<Rightarrow> decimal list" where
  "five_list t = (case t of (a, b, c, d, e) \<Rightarrow> [a, b, c, d, e])"

definition boxes :: "parsed_gstr3b \<Rightarrow> decimal list" where
  "boxes p = five_list (p3_osup_det p) @ (case p3_osup_zero p of (a, b, c) \<Rightarrow> [a, b, c]) @ [p3_osup_nil p]
     @ five_list (p3_isup_rev p) @ [p3_osup_nongst p] @ four_list (p3_itc_net p) @ four_list (p3_interest p)"

definition itc_hash :: "(string \<Rightarrow> string) \<Rightarrow> itc_detail \<Rightarrow> string" where
  "itc_hash H d = hash_values H [it_box d, it_type d, dec_str (it_igst d), dec_str (it_cgst d),
     dec_str (it_sgst d), dec_str (it_cess d)]"

definition inward_hash :: "(string \<Rightarrow> string) \<Rightarrow> inward_supply \<Rightarrow> string" where
  "inward_hash H s = hash_values H [iw_type s, dec_str (iw_inter s), dec_str (iw_intra s)]"

definition return_hash :: "(string \<Rightarrow> string) \<Rightarrow> string \<Rightarrow> parsed_gstr3b \<Rightarrow> string" where
  "return_hash H arn p = hash_values H ([p3_gstin p, p3_period p, arn] @ map dec_str (boxes p)
     @ map (itc_hash H) (p3_itc p) @ map (inward_hash H) (p3_inward p))"

section \<open>Boxes and rows\<close>

definition itc_avl_types :: "string list" where
  "itc_avl_types = [''IMPG'', ''IMPS'', ''ISD'', ''ISRC'', ''OTH'']"

definition itc_rev_inelg_types :: "string list" where
  "itc_rev_inelg_types = [''OTH'', ''RUL'']"

definition inward_supply_types :: "string list" where
  "inward_supply_types = [''GST'', ''NONGST'']"

definition four_of :: "json \<Rightarrow> exc + four_amounts" where
  "four_of j = rbind (amount_of ''iamt'' j) (\<lambda>ig. rbind (amount_of ''camt'' j) (\<lambda>cg.
     rbind (amount_of ''samt'' j) (\<lambda>sg. rbind (amount_of ''csamt'' j) (\<lambda>ce. Inr (ig, cg, sg, ce)))))"

definition five_of :: "json \<Rightarrow> exc + five_amounts" where
  "five_of j = rbind (amount_of ''txval'' j) (\<lambda>tx. rbind (four_of j) (\<lambda>am. Inr (tx, am)))"

definition zero_of :: "json \<Rightarrow> exc + decimal \<times> decimal \<times> decimal" where
  "zero_of j = rbind (amount_of ''txval'' j) (\<lambda>tx. rbind (amount_of ''iamt'' j) (\<lambda>ig.
     rbind (amount_of ''csamt'' j) (\<lambda>ce. Inr (tx, ig, ce))))"

text \<open>
  \<open>ty not in allowed\<close>: a list or a dictionary cannot be hashed and is a \<open>TypeError\<close>, any other value
  that is not one of the types is rejected.
\<close>

definition checked_type :: "(json \<Rightarrow> string) \<Rightarrow> string \<Rightarrow> string list \<Rightarrow> json \<Rightarrow> exc + string" where
  "checked_type rep place allowed row = rbind (jitem ''ty'' row) (\<lambda>ty.
     case ty of
       JList _ \<Rightarrow> Inl (TypeError ''unhashable'') | JObj _ \<Rightarrow> Inl (TypeError ''unhashable'')
     | _ \<Rightarrow> (case ty of JStr s \<Rightarrow> if s \<in> set allowed then Inr s
                else Inl (ValidationRejected (''GSTR_3B '' @ place @ '' has an unrecognised ty='' @ py_repr s))
           | _ \<Rightarrow> Inl (ValidationRejected (''GSTR_3B '' @ place @ '' has an unrecognised ty='' @ rep ty))))"

definition itc_row :: "(json \<Rightarrow> string) \<Rightarrow> string \<Rightarrow> string list \<Rightarrow> json \<Rightarrow> exc + itc_detail" where
  "itc_row rep box allowed row = rbind (checked_type rep (''itc_elg box '' @ py_repr box) allowed row) (\<lambda>ty.
     rbind (four_of row) (\<lambda>(ig, cg, sg, ce). Inr \<lparr>it_box = box, it_type = ty, it_igst = ig, it_cgst = cg,
       it_sgst = sg, it_cess = ce\<rparr>))"

definition parse_itc_rows :: "(json \<Rightarrow> string) \<Rightarrow> string \<Rightarrow> string list \<Rightarrow> json \<Rightarrow> exc + itc_detail list" where
  "parse_itc_rows rep box allowed rs = rbind (jiter rs) (rmap (itc_row rep box allowed))"

definition inward_row :: "(json \<Rightarrow> string) \<Rightarrow> json \<Rightarrow> exc + inward_supply" where
  "inward_row rep row = rbind (checked_type rep ''inward_sup'' inward_supply_types row) (\<lambda>ty.
     rbind (amount_of ''inter'' row) (\<lambda>inter. rbind (amount_of ''intra'' row) (\<lambda>intra.
       Inr \<lparr>iw_type = ty, iw_inter = inter, iw_intra = intra\<rparr>)))"

definition parse_inward_supply :: "(json \<Rightarrow> string) \<Rightarrow> json \<Rightarrow> exc + inward_supply list" where
  "parse_inward_supply rep rs = rbind (jiter rs) (rmap (inward_row rep))"

definition reject_inter_sup :: "json \<Rightarrow> exc + unit" where
  "reject_inter_sup inter_sup = rbind (rmap (\<lambda>k. rbind (jget k inter_sup) (\<lambda>v.
       if truthy v then Inl (ValidationRejected (''GSTR_3B payload has a non-empty inter_sup.'' @ k
         @ '', which this parser does not support yet'')) else Inr ()))
     [''unreg_details'', ''comp_details'', ''uin_details'']) (\<lambda>_. Inr ())"

section \<open>parse_gstr_3b\<close>

definition gstr3b_top :: "json \<Rightarrow> exc + json \<times> json \<times> json \<times> json" where
  "gstr3b_top payload =
     rbind (jitem ''gstin'' payload) (\<lambda>gstin. rbind (jitem ''ret_period'' payload) (\<lambda>period.
     rbind (jitem ''sup_details'' payload) (\<lambda>sups. rbind (jitem ''itc_elg'' payload) (\<lambda>itc.
       Inr (gstin, period, sups, itc)))))"

definition gstr3b_rows ::
  "(json \<Rightarrow> string) \<Rightarrow> json \<Rightarrow> json \<Rightarrow> exc + itc_detail list \<times> inward_supply list" where
  "gstr3b_rows rep payload itc =
     rbind (rbind (jget_or (JList []) ''itc_avl'' itc) (parse_itc_rows rep ''AVAILED'' itc_avl_types)) (\<lambda>avl.
     rbind (rbind (jget_or (JList []) ''itc_rev'' itc) (parse_itc_rows rep ''REVERSED'' itc_rev_inelg_types)) (\<lambda>rv.
     rbind (rbind (jget_or (JList []) ''itc_inelg'' itc) (parse_itc_rows rep ''INELIGIBLE'' itc_rev_inelg_types)) (\<lambda>inel.
     rbind (rbind (rbind (jget_or (JObj []) ''inward_sup'' payload) (jget_or (JList []) ''isup_details''))
       (parse_inward_supply rep)) (\<lambda>inward.
       Inr (avl @ rv @ inel, inward)))))"

text \<open>
  \<open>__post_init__\<close> joins the hashed texts when the object is made; the join fails when \<open>gstin\<close> or a
  truthy \<open>arn\<close> is not a string.
\<close>

definition mk_gstr3b :: "(string \<Rightarrow> string) \<Rightarrow> json \<Rightarrow> json \<Rightarrow> parsed_gstr3b \<Rightarrow> exc + parsed_gstr3b" where
  "mk_gstr3b H gstin period p =
     rbind (jtext gstin) (\<lambda>g. rbind (jtext period) (\<lambda>r. rbind (jtext_or_empty (p3_arn p)) (\<lambda>a.
       let q = p\<lparr>p3_gstin := g, p3_period := r\<rparr> in Inr (q\<lparr>p3_document_hash := return_hash H a q\<rparr>))))"

definition parse_gstr_3b ::
  "(bytes \<Rightarrow> json_failure + json) \<Rightarrow> (json \<Rightarrow> string) \<Rightarrow> (string \<Rightarrow> string) \<Rightarrow> bytes \<Rightarrow> date \<Rightarrow> exc + parsed_gstr3b" where
  "parse_gstr_3b loads rep H data expected =
     rbind (load_json loads ''GSTR_3B'' data) (\<lambda>payload.
     case gstr3b_top payload of Inl e \<Rightarrow> Inl (malformed ''GSTR_3B'' e)
     | Inr (gstin, period, sups, itc) \<Rightarrow>
       rbind (period_mismatch rep ''GSTR_3B'' ''ret_period'' period expected) (\<lambda>_.
       rbind (rbind (jget_or (JObj []) ''inter_sup'' payload) reject_inter_sup) (\<lambda>_.
       rbind (jget_or (JObj []) ''osup_det'' sups) (\<lambda>osup_det. rbind (jget_or (JObj []) ''osup_zero'' sups) (\<lambda>osup_zero.
       rbind (jget_or (JObj []) ''isup_rev'' sups) (\<lambda>isup_rev. rbind (jget_or (JObj []) ''itc_net'' itc) (\<lambda>itc_net.
       rbind (rbind (jget_or (JObj []) ''intr_ltfee'' payload) (jget_or (JObj []) ''intr_details'')) (\<lambda>intr.
       rbind (jget ''arn'' payload) (\<lambda>arn. rbind (jget ''filing_date'' payload) (\<lambda>fd.
       rbind (if truthy fd then map_sum id Some (return_date fd) else Inr None) (\<lambda>filed.
       rbind (jget ''filing_status'' payload) (\<lambda>st.
       rbind (five_of osup_det) (\<lambda>a. rbind (zero_of osup_zero) (\<lambda>b.
       rbind (rbind (jget_or (JObj []) ''osup_nil_exmp'' sups) (amount_of ''txval'')) (\<lambda>c.
       rbind (five_of isup_rev) (\<lambda>d.
       rbind (rbind (jget_or (JObj []) ''osup_nongst'' sups) (amount_of ''txval'')) (\<lambda>e.
       rbind (four_of itc_net) (\<lambda>f. rbind (four_of intr) (\<lambda>g.
       rbind (gstr3b_rows rep payload itc) (\<lambda>(itcs, inward).
         mk_gstr3b H gstin period \<lparr>p3_gstin = [], p3_period = [], p3_arn = arn, p3_filing_date = filed,
           p3_filing_status = st, p3_osup_det = a, p3_osup_zero = b, p3_osup_nil = c, p3_isup_rev = d,
           p3_osup_nongst = e, p3_itc_net = f, p3_interest = g, p3_itc = itcs, p3_inward = inward,
           p3_document_hash = []\<rparr>))))))))))))))))))))"

section \<open>Gstr3bLoader\<close>

datatype g3_detail = G3Itc itc_detail | G3Inward inward_supply

definition g3_details :: "parsed_gstr3b \<Rightarrow> g3_detail list" where
  "g3_details p = map G3Itc (p3_itc p) @ map G3Inward (p3_inward p)"

text \<open>The unique keys of the two detail tables.\<close>

fun g3_clash :: "g3_detail \<Rightarrow> g3_detail \<Rightarrow> bool" where
  "g3_clash (G3Itc a) (G3Itc b) = (it_box a = it_box b \<and> it_type a = it_type b)"
| "g3_clash (G3Inward a) (G3Inward b) = (iw_type a = iw_type b)"
| "g3_clash _ _ = False"

text \<open>The columns of \<open>gstr_3b\<close> beside the common ones; the amounts are in the order of the columns.\<close>

record g3_header =
  h3_arn :: json
  h3_filing_date :: "date option"
  h3_filing_status :: json
  h3_boxes :: "decimal list"

definition g3_header_fits :: "parsed_gstr3b \<Rightarrow> bool" where
  "g3_header_fits p \<longleftrightarrow> (\<forall>d\<in>set (boxes p). column_fits money_inr d)"

definition g3_header_of :: "(string \<Rightarrow> json \<Rightarrow> json) \<Rightarrow> parsed_gstr3b \<Rightarrow> g3_header" where
  "g3_header_of col p = \<lparr>h3_arn = col ''arn'' (p3_arn p), h3_filing_date = p3_filing_date p,
     h3_filing_status = col ''filing_status'' (p3_filing_status p), h3_boxes = map (column_value money_inr) (boxes p)\<rparr>"

definition stored_itc_detail :: "itc_detail \<Rightarrow> itc_detail" where
  "stored_itc_detail d = d\<lparr>it_igst := column_value money_inr (it_igst d), it_cgst := column_value money_inr (it_cgst d),
     it_sgst := column_value money_inr (it_sgst d), it_cess := column_value money_inr (it_cess d)\<rparr>"

definition stored_inward_supply :: "inward_supply \<Rightarrow> inward_supply" where
  "stored_inward_supply s = s\<lparr>iw_inter := column_value money_inr (iw_inter s), iw_intra := column_value money_inr (iw_intra s)\<rparr>"

fun g3_detail_fits :: "g3_detail \<Rightarrow> bool" where
  "g3_detail_fits (G3Itc d) = (column_fits money_inr (it_igst d) \<and> column_fits money_inr (it_cgst d)
     \<and> column_fits money_inr (it_sgst d) \<and> column_fits money_inr (it_cess d))"
| "g3_detail_fits (G3Inward s) = (column_fits money_inr (iw_inter s) \<and> column_fits money_inr (iw_intra s))"

fun stored_g3_detail :: "g3_detail \<Rightarrow> g3_detail" where
  "stored_g3_detail (G3Itc d) = G3Itc (stored_itc_detail d)"
| "stored_g3_detail (G3Inward s) = G3Inward (stored_inward_supply s)"

record g3_env =
  gf_loads :: "bytes \<Rightarrow> json_failure + json"
  gf_repr :: "json \<Rightarrow> string"
  gf_digest :: "string \<Rightarrow> string"
  gf_bytes_digest :: "bytes \<Rightarrow> bytes"
  gf_vocabulary :: vocabulary
  gf_column :: "string \<Rightarrow> json \<Rightarrow> json"
  gf_header_checks :: "g3_header statement \<Rightarrow> bool"
  gf_detail_checks :: "g3_detail \<Rightarrow> bool"

definition gstr3b_loader :: "g3_env \<Rightarrow> (parsed_gstr3b, g3_header, g3_detail) return_loader" where
  "gstr3b_loader env = \<lparr>gr_code = ''GSTR_3B'', gr_table = ''gstr_3b'', gr_hash = p3_document_hash, gr_details = g3_details,
     gr_rows = (\<lambda>p. length (p3_itc p) + length (p3_inward p)), gr_header_fits = g3_header_fits,
     gr_header = g3_header_of (gf_column env), gr_header_checks = gf_header_checks env,
     gr_detail_fits = g3_detail_fits, gr_stored = stored_g3_detail, gr_detail_checks = gf_detail_checks env, gr_clash = g3_clash, gr_vocabulary = gf_vocabulary env,
     gr_bytes_digest = gf_bytes_digest env\<rparr>"

definition gstr3b_load_run ::
  "g3_env \<Rightarrow> return_load \<Rightarrow> (g3_header, g3_detail, 'a) statement_db_scheme
    \<Rightarrow> (exc + return_outcome) \<times> (g3_header, g3_detail, 'a) statement_db_scheme" where
  "gstr3b_load_run env gl db =
     return_load_run (gstr3b_loader env) (parse_gstr_3b (gf_loads env) (gf_repr env) (gf_digest env)) gl db"

section \<open>What the parser lets through\<close>

definition itc_types_of :: "string \<Rightarrow> string list" where
  "itc_types_of box = (if box = ''AVAILED'' then itc_avl_types
     else if box = ''REVERSED'' \<or> box = ''INELIGIBLE'' then itc_rev_inelg_types else [])"

definition vocabulary_ok :: "parsed_gstr3b \<Rightarrow> bool" where
  "vocabulary_ok p \<longleftrightarrow> (\<forall>d\<in>set (p3_itc p). it_type d \<in> set (itc_types_of (it_box d)))
     \<and> (\<forall>s\<in>set (p3_inward p). iw_type s \<in> set inward_supply_types)"

lemma checked_type_Inr: "checked_type rep place allowed row = Inr ty \<Longrightarrow> ty \<in> set allowed"
  by (auto simp: checked_type_def rbind_eq_Inr_iff split: json.splits if_splits)

lemma parse_itc_rows_Inr:
  "parse_itc_rows rep box allowed rs = Inr ds \<Longrightarrow> d \<in> set ds \<Longrightarrow> it_box d = box \<and> it_type d \<in> set allowed"
  unfolding parse_itc_rows_def rbind_eq_Inr_iff
  by (auto elim!: rmap_Inr_all simp: itc_row_def rbind_eq_Inr_iff dest!: checked_type_Inr)

lemma parse_inward_supply_Inr:
  "parse_inward_supply rep rs = Inr ss \<Longrightarrow> s \<in> set ss \<Longrightarrow> iw_type s \<in> set inward_supply_types"
  unfolding parse_inward_supply_def rbind_eq_Inr_iff
  by (auto elim!: rmap_Inr_all simp: inward_row_def rbind_eq_Inr_iff dest!: checked_type_Inr)

lemma gstr3b_rows_Inr:
  assumes "gstr3b_rows rep payload itc = Inr (ds, ss)"
  shows "(\<forall>d\<in>set ds. it_type d \<in> set (itc_types_of (it_box d))) \<and> (\<forall>s\<in>set ss. iw_type s \<in> set inward_supply_types)"
  using assms
  by (fastforce simp: gstr3b_rows_def rbind_eq_Inr_iff itc_types_of_def
      dest: parse_itc_rows_Inr parse_inward_supply_Inr)

lemma mk_gstr3b_Inr:
  "mk_gstr3b H gstin period p = Inr q \<Longrightarrow> \<exists>g r a. gstin = JStr g \<and> period = JStr r \<and> jtext_or_empty (p3_arn p) = Inr a
     \<and> q = p\<lparr>p3_gstin := g, p3_period := r, p3_document_hash := return_hash H a (p\<lparr>p3_gstin := g, p3_period := r\<rparr>)\<rparr>"
  by (auto simp: mk_gstr3b_def rbind_eq_Inr_iff jtext_def Let_def split: json.splits)

lemma return_hash_cong:
  "p3_gstin p = p3_gstin q \<Longrightarrow> p3_period p = p3_period q \<Longrightarrow> boxes p = boxes q \<Longrightarrow> p3_itc p = p3_itc q
    \<Longrightarrow> p3_inward p = p3_inward q \<Longrightarrow> return_hash H a p = return_hash H a q"
  by (simp add: return_hash_def)

lemma parse_gstr_3b_Inr:
  assumes "parse_gstr_3b loads rep H data expected = Inr p"
  shows "p3_period p = month_year expected" "vocabulary_ok p"
    and "\<exists>a. jtext_or_empty (p3_arn p) = Inr a \<and> p3_document_hash p = return_hash H a p"
proof -
  from assms obtain payload where l: "load_json loads ''GSTR_3B'' data = Inr payload"
    by (auto simp: parse_gstr_3b_def rbind_eq_Inr_iff)
  with assms obtain gstin period sups itc where t: "gstr3b_top payload = Inr (gstin, period, sups, itc)"
    by (cases "gstr3b_top payload") (auto simp: parse_gstr_3b_def)
  from assms have "period = JStr (month_year expected) \<and> (\<exists>q. mk_gstr3b H gstin period q = Inr p
      \<and> gstr3b_rows rep payload itc = Inr (p3_itc q, p3_inward q))"
    unfolding parse_gstr_3b_def l rbind_def t sum.case prod.case
    apply (clarsimp simp: period_mismatch_Inr split: sum.split_asm prod.split_asm)
    apply (intro exI conjI)
     apply assumption
    apply simp_all
    done
  then obtain q where m: "mk_gstr3b H gstin period q = Inr p"
    and p: "period = JStr (month_year expected)" and r: "gstr3b_rows rep payload itc = Inr (p3_itc q, p3_inward q)"
    by blast
  from mk_gstr3b_Inr[OF m] obtain g a where a: "jtext_or_empty (p3_arn q) = Inr a"
    "p = q\<lparr>p3_gstin := g, p3_period := month_year expected,
       p3_document_hash := return_hash H a (q\<lparr>p3_gstin := g, p3_period := month_year expected\<rparr>)\<rparr>"
    using p by auto
  then show "p3_period p = month_year expected" by simp
  show "vocabulary_ok p" using gstr3b_rows_Inr[OF r] by (simp add: vocabulary_ok_def a(2))
  have "p3_document_hash p = return_hash H a p" unfolding a(2) by (simp add: return_hash_def boxes_def)
  with a show "\<exists>a. jtext_or_empty (p3_arn p) = Inr a \<and> p3_document_hash p = return_hash H a p" by auto
qed

section \<open>What a load does\<close>

lemma stored_keeps_key [simp]: "g3_clash (stored_g3_detail x) (stored_g3_detail y) = g3_clash x y"
  by (cases x; cases y) (simp_all add: stored_itc_detail_def stored_inward_supply_def)

lemma g3_clash_free:
  assumes "sorted_wrt (\<lambda>x y. \<not> g3_clash x y) (map stored_g3_detail (g3_details p))"
  shows "distinct (map (\<lambda>d. (it_box d, it_type d)) (p3_itc p)) \<and> distinct (map iw_type (p3_inward p))"
proof -
  have "sorted_wrt (\<lambda>x y. \<not> g3_clash x y) (map G3Itc ds) \<Longrightarrow> distinct (map (\<lambda>d. (it_box d, it_type d)) ds)" for ds
    by (induction ds) auto
  moreover have "sorted_wrt (\<lambda>x y. \<not> g3_clash x y) (map G3Inward ss) \<Longrightarrow> distinct (map iw_type ss)" for ss
    by (induction ss) auto
  moreover have "sorted_wrt (\<lambda>x y. \<not> g3_clash x y) (g3_details p)" using assms by (simp add: sorted_wrt_map)
  ultimately show ?thesis by (simp add: g3_details_def sorted_wrt_append)
qed

text \<open>
  C40. What a successful GSTR-3B load does. The payload is of the period asked for and every credit and
  inward supply row is of a type its box allows; the return of the entity, GSTIN and period is now the
  one of the file, by its hash, and every other return is as it was. The load inserts exactly when the
  live return of the key had another hash, or there was none. Then one batch is added, no row is lost,
  and the live header is a row of this batch and ingest with the boxes of the file, each rounded by its
  column, that points to exactly the rows of the file, rounded likewise, no two of which share box and
  type. Otherwise nothing is written at all.
\<close>

theorem gstr3b_load_effect:
  assumes "gstr3b_load_run env gl db = (Inr out, db')" "statements_ok (statement_tables_of db)"
  shows "\<exists>p. parse_gstr_3b (gf_loads env) (gf_repr env) (gf_digest env) (gl_data gl) (gl_period_start gl) = Inr p
    \<and> p3_period p = month_year (gl_period_start gl) \<and> vocabulary_ok p \<and> statements_ok (statement_tables_of db')
    \<and> (\<forall>k. live_statement (statement_tables_of db') k = (if k = load_key gl then Some (p3_document_hash p)
          else live_statement (statement_tables_of db) k))
    \<and> (go_inserted out \<longleftrightarrow> live_statement (statement_tables_of db) (load_key gl) \<noteq> Some (p3_document_hash p))
    \<and> (if go_inserted out
       then batches db' = batches db @ [return_batch (gstr3b_loader env) gl p] \<and> go_batch out = Some (gl_batch gl)
         \<and> (\<exists>v. find_live_row statement_key (load_key gl) (headers db') = Some v
              \<and> ve_row v = \<lparr>stm_entity = gl_entity gl, stm_gstin = gl_gstin gl, stm_period = gl_period_start gl,
                   stm_batch = gl_batch gl, stm_ingest = gl_ingest gl, stm_hash = p3_document_hash p,
                   stm_columns = g3_header_of (gf_column env) p\<rparr>
              \<and> details_of (details db') (ve_id v) =
                   map (\<lambda>d. G3Itc (stored_itc_detail d)) (p3_itc p) @ map (\<lambda>s. G3Inward (stored_inward_supply s)) (p3_inward p))
         \<and> history (headers db) (headers db')
         \<and> distinct (map (\<lambda>d. (it_box d, it_type d)) (p3_itc p)) \<and> distinct (map iw_type (p3_inward p))
       else db' = db \<and> go_batch out = None)"
proof -
  let ?L = "gstr3b_loader env"
  have h: "gr_hash ?L = p3_document_hash" "gr_clash ?L = g3_clash" by (simp_all add: gstr3b_loader_def)
  have d: "map (gr_stored ?L) (gr_details ?L p) = map stored_g3_detail (g3_details p)" for p
    by (simp add: gstr3b_loader_def)
  have r: "statement_row ?L gl p = \<lparr>stm_entity = gl_entity gl, stm_gstin = gl_gstin gl, stm_period = gl_period_start gl,
      stm_batch = gl_batch gl, stm_ingest = gl_ingest gl, stm_hash = p3_document_hash p,
      stm_columns = g3_header_of (gf_column env) p\<rparr>" for p
    by (simp add: statement_row_def gstr3b_loader_def)
  note e = return_load_effect[OF assms(1)[unfolded gstr3b_load_run_def] assms(2), unfolded h d r]
  then obtain p where p: "parse_gstr_3b (gf_loads env) (gf_repr env) (gf_digest env) (gl_data gl) (gl_period_start gl) = Inr p"
    by blast
  have m: "map stored_g3_detail (g3_details p) =
      map (\<lambda>d. G3Itc (stored_itc_detail d)) (p3_itc p) @ map (\<lambda>s. G3Inward (stored_inward_supply s)) (p3_inward p)"
    by (simp add: g3_details_def)
  from e p parse_gstr_3b_Inr(1,2)[OF p] g3_clash_free[of p] show ?thesis
    by (intro exI[of _ p]) (auto simp: m split: if_splits)
qed

text \<open>
  A corrected filing can be thrown away. The hash of a GSTR-3B leaves out the filing date and the
  filing status, so when a return is fetched again and only these have changed, the load reports it
  unchanged and the stored return keeps the old ones, for any digest.
\<close>

theorem filing_update_lost:
  assumes "gstr3b_load_run env gl db = (Inr out, db')" "statements_ok (statement_tables_of db)"
    and p: "parse_gstr_3b (gf_loads env) (gf_repr env) (gf_digest env) (gl_data gl) (gl_period_start gl) = Inr p"
    and q: "parse_gstr_3b (gf_loads env) (gf_repr env) (gf_digest env) (gl_data gl2) (gl_period_start gl2) = Inr q"
    and same: "q\<lparr>p3_filing_date := None, p3_filing_status := JNull, p3_document_hash := []\<rparr>
      = p\<lparr>p3_filing_date := None, p3_filing_status := JNull, p3_document_hash := []\<rparr>"
    and key: "load_key gl2 = load_key gl"
  shows "gstr3b_load_run env gl2 db' = (Inr \<lparr>go_batch = None, go_inserted = False\<rparr>, db')"
proof -
  let ?L = "gstr3b_loader env"
  have h: "gr_hash ?L = p3_document_hash" by (simp add: gstr3b_loader_def)
  have f: "p3_gstin q = p3_gstin p" "p3_period q = p3_period p" "p3_arn q = p3_arn p" "boxes q = boxes p"
    "p3_itc q = p3_itc p" "p3_inward q = p3_inward p"
    using same by (cases p; cases q; simp add: boxes_def)+
  have e: "p3_document_hash q = p3_document_hash p"
    using parse_gstr_3b_Inr(3)[OF p] parse_gstr_3b_Inr(3)[OF q] f return_hash_cong[of q p] by auto
  from assms(1) p have s: "store_statement ?L gl p db = Inr (out, db')"
    by (auto simp: gstr3b_load_run_def return_load_Inr)
  have "live_statement (statement_tables_of db') (load_key gl2) = Some (gr_hash ?L q)"
    using store_statement_Inr(2)[OF s assms(2), of "load_key gl"] by (simp add: h e key)
  from return_load_blind[where parse = "parse_gstr_3b (gf_loads env) (gf_repr env) (gf_digest env)", OF this q]
  show ?thesis by (simp add: gstr3b_load_run_def)
qed

section \<open>Witnesses\<close>

definition demo_3b :: "string \<Rightarrow> json" where
  "demo_3b filed = JObj [(''gstin'', JStr ''29ABCDE1234F1Z5''), (''ret_period'', JStr ''042026''), (''arn'', JStr ''AA1''),
     (''filing_date'', JStr filed), (''filing_status'', JStr ''Filed''),
     (''sup_details'', JObj [(''osup_det'', JObj [(''txval'', JFloat ''100.0''), (''iamt'', JFloat ''18.0'')])]),
     (''itc_elg'', JObj [(''itc_avl'', JList [JObj [(''ty'', JStr ''IMPG''), (''iamt'', JInt 5)], JObj [(''ty'', JStr ''OTH'')]]),
       (''itc_rev'', JList [JObj [(''ty'', JStr ''OTH'')]])]),
     (''inward_sup'', JObj [(''isup_details'', JList [JObj [(''ty'', JStr ''GST''), (''inter'', JInt 7)]])])]"

definition demo_3b_env :: g3_env where
  "demo_3b_env = \<lparr>gf_loads = (\<lambda>b. if b = ''A'' then Inr (demo_3b ''20-05-2026'') else if b = ''B'' then Inr (demo_3b ''21-05-2026'')
       else Inl NotJson),
     gf_repr = (\<lambda>j. ''?''), gf_digest = id, gf_bytes_digest = id,
     gf_vocabulary = [(''Document_Type'', ''GSTR_3B''), (''Source_Stream'', ''B''), (''Batch_Status'', ''READY'')],
     gf_column = (\<lambda>c j. j), gf_header_checks = (\<lambda>s. True), gf_detail_checks = (\<lambda>x. True)\<rparr>"

definition demo_3b_db :: "(g3_header, g3_detail) statement_db" where
  "demo_3b_db = \<lparr>batches = [], quarantined = [], rejected_rows = [], headers = [], details = []\<rparr>"

definition demo_3b_load :: "uuid \<Rightarrow> bytes \<Rightarrow> return_load" where
  "demo_3b_load u b = \<lparr>gl_entity = 1, gl_gstin = ''29ABCDE1234F1Z5'', gl_ingest = u, gl_data = b,
     gl_period_start = Date 2026 4 1, gl_period_end = Date 2026 4 30, gl_run = u, gl_batch = u, gl_now = u\<rparr>"

lemma demo_3b_ok: "statements_ok (statement_tables_of demo_3b_db)"
  by (simp add: statements_ok_def statement_tables_of_def demo_3b_db_def)

lemma demo_3b_runs:
  "\<exists>out db'. gstr3b_load_run demo_3b_env (demo_3b_load 7 ''A'') demo_3b_db = (Inr out, db') \<and> go_inserted out"
proof -
  let ?r = "gstr3b_load_run demo_3b_env (demo_3b_load 7 ''A'') demo_3b_db"
  have "case ?r of (Inr out, db') \<Rightarrow> go_inserted out | (Inl e, db') \<Rightarrow> False" by code_simp
  then show ?thesis by (cases ?r; cases "fst ?r") auto
qed

theorem gstr3b_load_effect_witness:
  "\<exists>out db'. gstr3b_load_run demo_3b_env (demo_3b_load 7 ''A'') demo_3b_db = (Inr out, db')
     \<and> map ib_batch_id (batches db') = [7]"
proof -
  obtain out db' where r: "gstr3b_load_run demo_3b_env (demo_3b_load 7 ''A'') demo_3b_db = (Inr out, db')" "go_inserted out"
    using demo_3b_runs by blast
  obtain p where b: "batches db' = batches demo_3b_db @ [return_batch (gstr3b_loader demo_3b_env) (demo_3b_load 7 ''A'') p]"
    using gstr3b_load_effect[OF r(1) demo_3b_ok] r(2) by auto
  have "ib_batch_id (return_batch L (demo_3b_load 7 d) p) = 7" for L :: "(parsed_gstr3b, g3_header, g3_detail) return_loader" and d
    by (simp add: return_batch_def demo_3b_load_def)
  with b r show ?thesis by (simp add: demo_3b_db_def)
qed

theorem filing_update_lost_witness:
  "\<exists>out db'. gstr3b_load_run demo_3b_env (demo_3b_load 7 ''A'') demo_3b_db = (Inr out, db')
     \<and> gstr3b_load_run demo_3b_env (demo_3b_load 8 ''B'') db' = (Inr \<lparr>go_batch = None, go_inserted = False\<rparr>, db')"
proof -
  obtain out db' where r: "gstr3b_load_run demo_3b_env (demo_3b_load 7 ''A'') demo_3b_db = (Inr out, db')"
    using demo_3b_runs by blast
  let ?P = "\<lambda>gl. parse_gstr_3b (gf_loads demo_3b_env) (gf_repr demo_3b_env) (gf_digest demo_3b_env) (gl_data gl) (gl_period_start gl)"
  let ?h = "\<lambda>p. p\<lparr>p3_filing_date := None, p3_filing_status := JNull, p3_document_hash := []\<rparr>"
  have "case ?P (demo_3b_load 7 ''A'') of Inl e \<Rightarrow> False | Inr p \<Rightarrow> (case ?P (demo_3b_load 8 ''B'') of Inl e \<Rightarrow> False | Inr q \<Rightarrow>
      ?h q = ?h p)"
    by code_simp
  then obtain p q where pq: "?P (demo_3b_load 7 ''A'') = Inr p" "?P (demo_3b_load 8 ''B'') = Inr q" "?h q = ?h p"
    by (auto split: sum.splits)
  have k: "load_key (demo_3b_load 8 ''B'') = load_key (demo_3b_load 7 ''A'')" by (simp add: load_key_def demo_3b_load_def)
  from filing_update_lost[OF r demo_3b_ok pq k] r show ?thesis by blast
qed

end
