(* ===== verification/FactTables.thy ===== *)
theory FactTables
  imports Promote Json
begin

text \<open>
  The tables of the documents that state facts rather than transactions (tenant migrations 006, 016 to
  019) and the services that write them: \<open>src/src/silver/entitlement.py\<close>, \<open>proceeding_event.py\<close>,
  \<open>entity_master.py\<close>, \<open>financial_statement.py\<close>, \<open>narrative_contract.py\<close>, all over
  \<open>supersede.py\<close>; and \<open>entity_master_fact.py\<close> with the line tables of migrations 032 to 035.
  The five services are one definition each of the same three operations; a record \<open>fact_service\<close>
  holds what differs. Ids are those \<open>uuid4\<close> drew, \<open>now\<close> is the clock of the transaction.
\<close>

section \<open>Records\<close>

record instrument_record =
  in_entity :: uuid
  in_type :: string
  in_authority :: string
  in_number :: string
  in_valid_from :: date
  in_valid_to :: date
  in_status :: string
  in_scope_hsn :: "string list option"
  in_scope :: "(string \<times> json) list"
  in_obligation :: "(string \<times> json) list"
  in_batch :: uuid
  in_ingest :: uuid

record proceeding_record =
  ev_entity :: uuid
  ev_type :: string
  ev_authority :: string
  ev_reference :: string
  ev_date :: date
  ev_amount :: "string option"
  ev_status :: string
  ev_details :: "(string \<times> json) list"
  ev_batch :: uuid
  ev_ingest :: uuid

record master_record =
  ms_entity :: uuid
  ms_type :: string
  ms_reference :: string
  ms_as_of :: date
  ms_status :: string
  ms_details :: "(string \<times> json) list"
  ms_batch :: uuid
  ms_ingest :: uuid

record financial_record =
  fn_entity :: uuid
  fn_type :: string
  fn_auditor :: string
  fn_year :: "string option"
  fn_filed :: "date option"
  fn_status :: string
  fn_figures :: "(string \<times> json) list"
  fn_batch :: uuid
  fn_ingest :: uuid

record contract_record =
  cn_entity :: uuid
  cn_type :: string
  cn_counterparty :: "string option"
  cn_effective :: "date option"
  cn_term_end :: "date option"
  cn_status :: string
  cn_terms :: "(string \<times> json) list"
  cn_batch :: uuid
  cn_ingest :: uuid

text \<open>A row of one of the tables.\<close>

record 'r filed =
  fi_id :: uuid
  fi_record :: 'r
  fi_supersedes :: "uuid option"
  fi_superseded_at :: "instant option"

definition fi_live :: "'r filed \<Rightarrow> bool" where
  "fi_live f \<longleftrightarrow> fi_superseded_at f = None"

text \<open>
  The columns of a table's partial unique index: entity, type, and the document's own number or, where
  it has none, the artefact.
\<close>

datatype fact_ident = ByNumber string | ByArtefact uuid

type_synonym fact_key = "uuid \<times> string \<times> fact_ident"

record 'r fact_service =
  sv_table :: string
  sv_archetype :: nat
  sv_key :: "'r \<Rightarrow> fact_key"
  sv_batch :: "'r \<Rightarrow> uuid"
  sv_values :: "'r \<Rightarrow> (string \<times> string) list"
  sv_column_error :: "'r \<Rightarrow> exc option"

record facts_env =
  fe_doc_types :: "(string \<times> nat) list"
  fe_vocabulary :: vocabulary

section \<open>What differs between the five\<close>

text \<open>
  \<open>numeric(14, 2)\<close> from the text of an amount. The record keeps the text; the column keeps its value,
  rounded to two decimals.
\<close>

definition amount_error :: "string option \<Rightarrow> exc option" where
  "amount_error a = (case a of None \<Rightarrow> None | Some s \<Rightarrow>
     (case py_decimal s of
        None \<Rightarrow> Some (DataError ''invalid input syntax for type numeric'')
      | Some d \<Rightarrow> (case to_numeric2 d of
          Inl e \<Rightarrow> Some e
        | Inr NumNaN \<Rightarrow> None
        | Inr (Num m) \<Rightarrow> if \<bar>m\<bar> < 10 ^ 14 then None else Some (DataError ''numeric field overflow''))))"

definition instrument_service :: "instrument_record fact_service" where
  "instrument_service = \<lparr>sv_table = ''entitlement_instrument'', sv_archetype = 3,
     sv_key = (\<lambda>r. (in_entity r, in_type r, ByNumber (in_number r))), sv_batch = in_batch,
     sv_values = (\<lambda>r. [(''Issuing_Authority'', in_authority r), (''Instrument_Status'', in_status r)]),
     sv_column_error = (\<lambda>r. if in_valid_from r < in_valid_to r \<and> in_scope_hsn r \<noteq> Some [] then None
       else Some (OtherIntegrityError ''entitlement_instrument''))\<rparr>"

definition proceeding_service :: "proceeding_record fact_service" where
  "proceeding_service = \<lparr>sv_table = ''proceeding_event'', sv_archetype = 6,
     sv_key = (\<lambda>r. (ev_entity r, ev_type r, ByNumber (ev_reference r))), sv_batch = ev_batch,
     sv_values = (\<lambda>r. [(''Proceeding_Authority'', ev_authority r), (''Proceeding_Status'', ev_status r)]),
     sv_column_error = (\<lambda>r. amount_error (ev_amount r))\<rparr>"

definition master_service :: "master_record fact_service" where
  "master_service = \<lparr>sv_table = ''entity_master_record'', sv_archetype = 7,
     sv_key = (\<lambda>r. (ms_entity r, ms_type r, ByNumber (ms_reference r))), sv_batch = ms_batch,
     sv_values = (\<lambda>r. [(''Master_Record_Status'', ms_status r)]), sv_column_error = (\<lambda>r. None)\<rparr>"

definition financial_service :: "financial_record fact_service" where
  "financial_service = \<lparr>sv_table = ''financial_statement_extract'', sv_archetype = 4,
     sv_key = (\<lambda>r. (fn_entity r, fn_type r, ByArtefact (fn_ingest r))), sv_batch = fn_batch,
     sv_values = (\<lambda>r. [(''Statement_Status'', fn_status r)]), sv_column_error = (\<lambda>r. None)\<rparr>"

definition contract_service :: "contract_record fact_service" where
  "contract_service = \<lparr>sv_table = ''narrative_contract'', sv_archetype = 8,
     sv_key = (\<lambda>r. (cn_entity r, cn_type r, ByArtefact (cn_ingest r))), sv_batch = cn_batch,
     sv_values = (\<lambda>r. [(''Contract_Status'', cn_status r)]), sv_column_error = (\<lambda>r. None)\<rparr>"

section \<open>The operations\<close>

definition find_current :: "('r \<Rightarrow> 'k) \<Rightarrow> 'k \<Rightarrow> 'r filed list \<Rightarrow> 'r filed option" where
  "find_current key k t = List.find (\<lambda>f. fi_live f \<and> key (fi_record f) = k) t"

text \<open>\<open>UPDATE ... SET superseded_at = now() WHERE id = ... AND superseded_at IS NULL\<close>.\<close>

definition stamp_filed :: "instant \<Rightarrow> uuid \<Rightarrow> 'r filed list \<Rightarrow> 'r filed list" where
  "stamp_filed now i t = map (\<lambda>f. if fi_id f = i \<and> fi_live f then f\<lparr>fi_superseded_at := Some now\<rparr> else f) t"

definition close_current :: "('r \<Rightarrow> 'k) \<Rightarrow> instant \<Rightarrow> 'k \<Rightarrow> 'r filed list \<Rightarrow> uuid option \<times> 'r filed list" where
  "close_current key now k t = (case find_current key k t of
      None \<Rightarrow> (None, t)
    | Some f \<Rightarrow> (Some (fi_id f), stamp_filed now (fi_id f) t))"

text \<open>\<open>_insert\<close>: the columns, the unique constraints, then the foreign keys.\<close>

definition insert_filed ::
  "facts_env \<Rightarrow> 'r fact_service \<Rightarrow> ingest_batch list \<Rightarrow> uuid \<Rightarrow> uuid option \<Rightarrow> 'r \<Rightarrow> 'r filed list \<Rightarrow> exc + 'r filed list" where
  "insert_filed env sv bs i prior r t =
     (case sv_column_error sv r of Some e \<Rightarrow> Inl e | None \<Rightarrow>
      if (\<exists>f\<in>set t. fi_id f = i) \<or> find_current (sv_key sv) (sv_key sv r) t \<noteq> None then Inl (UniqueViolation (sv_table sv))
      else if (fst (snd (sv_key sv r)), sv_archetype sv) \<notin> set (fe_doc_types env)
          \<or> \<not> set (sv_values sv r) \<subseteq> set (fe_vocabulary env)
          \<or> sv_batch sv r \<notin> ib_batch_id ` set bs
          \<or> (case prior of None \<Rightarrow> False | Some p \<Rightarrow> p \<notin> fi_id ` set t)
        then Inl (ForeignKeyViolation (sv_table sv))
      else Inr (t @ [\<lparr>fi_id = i, fi_record = r, fi_supersedes = prior, fi_superseded_at = None\<rparr>]))"

definition record_fact ::
  "facts_env \<Rightarrow> 'r fact_service \<Rightarrow> ingest_batch list \<Rightarrow> uuid \<Rightarrow> 'r \<Rightarrow> 'r filed list \<Rightarrow> exc + 'r filed list" where
  "record_fact env sv bs i r t = insert_filed env sv bs i None r t"

definition supersede_fact ::
  "facts_env \<Rightarrow> 'r fact_service \<Rightarrow> ingest_batch list \<Rightarrow> instant \<Rightarrow> uuid \<Rightarrow> uuid \<Rightarrow> 'r \<Rightarrow> 'r filed list \<Rightarrow> exc + 'r filed list" where
  "supersede_fact env sv bs now prior i r t = insert_filed env sv bs i (Some prior) r (stamp_filed now prior t)"

text \<open>The result is the id of the row that was closed, which \<open>on_write\<close> is given.\<close>

definition record_or_supersede ::
  "facts_env \<Rightarrow> 'r fact_service \<Rightarrow> ingest_batch list \<Rightarrow> instant \<Rightarrow> uuid \<Rightarrow> 'r \<Rightarrow> 'r filed list \<Rightarrow> exc + uuid option \<times> 'r filed list" where
  "record_or_supersede env sv bs now i r t =
     (case close_current (sv_key sv) now (sv_key sv r) t of
        (prior, t1) \<Rightarrow> rbind (insert_filed env sv bs i prior r t1) (\<lambda>t2. Inr (prior, t2)))"

section \<open>Line tables of entity masters\<close>

datatype fact_cell = CText string | CDate date | CNum decimal | CInt int | CBool bool | CNull

record fact_line =
  fl_id :: uuid
  fl_record :: uuid
  fl_entity :: uuid
  fl_cells :: "(string \<times> fact_cell) list"
  fl_ingest :: uuid
  fl_run :: uuid
  fl_batch :: uuid
  fl_superseded_at :: "instant option"

record fact_envelope =
  ne_entity :: uuid
  ne_record :: uuid
  ne_batch :: uuid
  ne_ingest :: uuid
  ne_run :: uuid

definition fl_live :: "fact_line \<Rightarrow> bool" where
  "fl_live l \<longleftrightarrow> fl_superseded_at l = None"

text \<open>The business columns of the partial unique index of each line table.\<close>

definition line_key_columns :: "string \<Rightarrow> string list" where
  "line_key_columns tb =
     (if tb = ''shareholding_pattern_holder'' then [''holder_name'', ''valid_from'']
      else if tb = ''gstin_register_entry'' then [''gstin'']
      else if tb = ''director_list_din'' then [''din'']
      else if tb = ''kmp_list_member'' then [''name''] else [])"

definition line_key :: "string \<Rightarrow> fact_line \<Rightarrow> uuid \<times> fact_cell option list" where
  "line_key tb l = (fl_entity l, map (map_of (fl_cells l)) (line_key_columns tb))"

definition close_prior_fact_rows :: "instant \<Rightarrow> uuid \<Rightarrow> fact_line list \<Rightarrow> fact_line list" where
  "close_prior_fact_rows now prior ls =
     map (\<lambda>l. if fl_record l = prior \<and> fl_live l then l\<lparr>fl_superseded_at := Some now\<rparr> else l) ls"

text \<open>
  The numeric columns of the line tables: the shares and the percentage of a shareholding
  (\<open>migrations/tenant/032_shareholding_pattern_holder.sql\<close>). A number is rounded to its column.
\<close>

definition fact_column :: "string \<Rightarrow> numeric_type option" where
  "fact_column n = (if n = ''shares'' then Some (18, 0) else if n = ''pct_holding'' then Some (5, 2) else None)"

definition stored_fact_cell :: "string \<Rightarrow> fact_cell \<Rightarrow> fact_cell" where
  "stored_fact_cell n c = (case (fact_column n, c) of (Some t, CNum d) \<Rightarrow> CNum (column_value t d) | _ \<Rightarrow> c)"

definition stored_fact :: "(string \<times> fact_cell) list \<Rightarrow> (string \<times> fact_cell) list" where
  "stored_fact cells = map (\<lambda>(n, c). (n, stored_fact_cell n c)) cells"

text \<open>
  One row; \<open>err\<close> is what the column types and CHECKs of the table make of its cells. The foreign
  keys to the header and the batch are satisfied: both are written before in the same call.
\<close>

definition insert_fact_line ::
  "(string \<Rightarrow> (string \<times> fact_cell) list \<Rightarrow> exc option) \<Rightarrow> string \<Rightarrow> fact_envelope
    \<Rightarrow> fact_line list \<Rightarrow> uuid \<times> (string \<times> fact_cell) list \<Rightarrow> exc + fact_line list" where
  "insert_fact_line err tb env ls ir =
     (case ir of (i, cells) \<Rightarrow>
        let l = \<lparr>fl_id = i, fl_record = ne_record env, fl_entity = ne_entity env, fl_cells = stored_fact cells,
          fl_ingest = ne_ingest env, fl_run = ne_run env, fl_batch = ne_batch env, fl_superseded_at = None\<rparr>
        in case err tb cells of Some e \<Rightarrow> Inl e | None \<Rightarrow>
           if \<exists>x\<in>set ls. fl_id x = i \<or> (fl_live x \<and> line_key tb x = line_key tb l) then Inl (UniqueViolation tb)
           else Inr (ls @ [l]))"

definition record_fact_rows ::
  "(string \<Rightarrow> (string \<times> fact_cell) list \<Rightarrow> exc option) \<Rightarrow> string \<Rightarrow> fact_envelope
    \<Rightarrow> (uuid \<times> (string \<times> fact_cell) list) list \<Rightarrow> fact_line list \<Rightarrow> exc + fact_line list" where
  "record_fact_rows err tb env rs ls = rfold (insert_fact_line err tb env) ls rs"

section \<open>Every key is a chain of versions\<close>

text \<open>
  The rows of one key, oldest first: each points to the one before it, and only the last is live.
\<close>

fun linked :: "uuid option \<Rightarrow> 'r filed list \<Rightarrow> bool" where
  "linked p [] = True"
| "linked p (f # fs) = (fi_supersedes f = p \<and> (fi_live f \<longleftrightarrow> fs = []) \<and> linked (Some (fi_id f)) fs)"

definition versions_of :: "('r \<Rightarrow> 'k) \<Rightarrow> 'k \<Rightarrow> 'r filed list \<Rightarrow> 'r filed list" where
  "versions_of key k t = filter (\<lambda>f. key (fi_record f) = k) t"

definition filed_ok :: "('r \<Rightarrow> 'k) \<Rightarrow> 'r filed list \<Rightarrow> bool" where
  "filed_ok key t \<longleftrightarrow> distinct (map fi_id t) \<and> (\<forall>k. linked None (versions_of key k t))"

definition current_of :: "('r \<Rightarrow> 'k) \<Rightarrow> 'r filed list \<Rightarrow> 'k \<Rightarrow> 'r option" where
  "current_of key t k = map_option fi_record (find_current key k t)"

lemma filed_ok_Nil [simp]: "filed_ok key []"
  by (simp add: filed_ok_def versions_of_def)

lemma versions_of_append: "versions_of key k (xs @ ys) = versions_of key k xs @ versions_of key k ys"
  by (simp add: versions_of_def)

lemma linked_live: "linked p fs \<Longrightarrow> filter fi_live fs = (if fs = [] then [] else [last fs])"
  by (induction p fs rule: linked.induct) auto

lemma linked_snoc:
  "linked p fs \<Longrightarrow> fs \<noteq> [] \<Longrightarrow> f' = (last fs)\<lparr>fi_superseded_at := Some now\<rparr> \<Longrightarrow> fi_live g
    \<Longrightarrow> fi_supersedes g = Some (fi_id f') \<Longrightarrow> linked p (butlast fs @ [f', g])"
  by (induction p fs rule: linked.induct) (auto simp: fi_live_def split: if_splits)

lemma find_filter: "List.find P xs = (case filter P xs of [] \<Rightarrow> None | x # r \<Rightarrow> Some x)"
  by (induction xs) auto

lemma find_current_eq:
  assumes "filed_ok key t"
  shows "find_current key k t = (if versions_of key k t = [] then None else Some (last (versions_of key k t)))"
proof -
  have "find_current key k t = List.find fi_live (versions_of key k t)"
    unfolding find_current_def versions_of_def by (induction t) auto
  also have "\<dots> = (case filter fi_live (versions_of key k t) of [] \<Rightarrow> None | f # fs \<Rightarrow> Some f)"
    by (rule find_filter)
  finally show ?thesis using assms linked_live[of None "versions_of key k t"] by (simp add: filed_ok_def)
qed

lemma stamp_other:
  assumes "\<And>f. f \<in> set xs \<Longrightarrow> fi_id f = i \<Longrightarrow> \<not> fi_live f \<or> key (fi_record f) = k'" "k \<noteq> k'"
  shows "versions_of key k (stamp_filed now i xs) = versions_of key k xs"
  using assms by (induction xs) (auto simp: versions_of_def stamp_filed_def)

lemma stamp_filed_append: "stamp_filed now i (xs @ ys) = stamp_filed now i xs @ stamp_filed now i ys"
  by (simp add: stamp_filed_def)

lemma stamp_last:
  assumes "distinct (map fi_id xs)" "xs \<noteq> []" "fi_live (last xs)"
  shows "stamp_filed now (fi_id (last xs)) xs = butlast xs @ [(last xs)\<lparr>fi_superseded_at := Some now\<rparr>]"
proof -
  obtain ys y where xs: "xs = ys @ [y]" using assms(2) by (cases xs rule: rev_cases) auto
  have "fi_id y \<notin> fi_id ` set ys" using assms(1) by (simp add: xs)
  then have "\<forall>f\<in>set ys. fi_id f \<noteq> fi_id y" by (metis imageI)
  then have "stamp_filed now (fi_id y) ys = ys" unfolding stamp_filed_def by (intro map_idI) auto
  with assms(3) show ?thesis by (simp add: xs stamp_filed_append) (simp add: stamp_filed_def)
qed

lemma versions_of_stamp: "versions_of key k (stamp_filed now i t) = stamp_filed now i (versions_of key k t)"
  by (induction t) (auto simp: versions_of_def stamp_filed_def)

lemma stamp_filed_simps [simp]:
  "map fi_id (stamp_filed now i t) = map fi_id t" "map fi_record (stamp_filed now i t) = map fi_record t"
  "map fi_supersedes (stamp_filed now i t) = map fi_supersedes t" "length (stamp_filed now i t) = length t"
  by (simp_all add: stamp_filed_def)

lemma insert_filed_Inr:
  "insert_filed env sv bs i prior r t = Inr t' \<Longrightarrow>
     t' = t @ [\<lparr>fi_id = i, fi_record = r, fi_supersedes = prior, fi_superseded_at = None\<rparr>]
     \<and> i \<notin> fi_id ` set t \<and> find_current (sv_key sv) (sv_key sv r) t = None \<and> sv_column_error sv r = None
     \<and> sv_batch sv r \<in> ib_batch_id ` set bs"
  by (auto simp: insert_filed_def split: option.splits if_splits)

lemma distinct_versions: "distinct (map fi_id t) \<Longrightarrow> distinct (map fi_id (versions_of key k t))"
  by (induction t) (auto simp: versions_of_def)

lemma record_or_supersede_cases:
  assumes ok: "filed_ok (sv_key sv) t" and r: "record_or_supersede env sv bs now i r t = Inr (prior, t')"
  shows "filed_ok (sv_key sv) t'"
    and "prior = map_option fi_id (find_current (sv_key sv) (sv_key sv r) t)"
    and "t' = (case prior of None \<Rightarrow> t | Some p \<Rightarrow> stamp_filed now p t)
       @ [\<lparr>fi_id = i, fi_record = r, fi_supersedes = prior, fi_superseded_at = None\<rparr>]"
    and "find_current (sv_key sv) k t' = (if k = sv_key sv r
       then Some \<lparr>fi_id = i, fi_record = r, fi_supersedes = prior, fi_superseded_at = None\<rparr> else find_current (sv_key sv) k t)"
proof -
  let ?key = "sv_key sv" let ?k = "sv_key sv r"
  let ?new = "\<lparr>fi_id = i, fi_record = r, fi_supersedes = prior, fi_superseded_at = None\<rparr>"
  from ok have d: "distinct (map fi_id t)" and l: "linked None (versions_of ?key j t)" for j
    unfolding filed_ok_def by blast+
  from r obtain t1 where c: "close_current ?key now ?k t = (prior, t1)" and ins: "insert_filed env sv bs i prior r t1 = Inr t'"
    unfolding record_or_supersede_def by (cases "close_current ?key now ?k t") (auto simp: rbind_eq_Inr_iff)
  note t' = insert_filed_Inr[OF ins]
  have p: "prior = map_option fi_id (find_current ?key ?k t)" and t1: "t1 = (case prior of None \<Rightarrow> t | Some p \<Rightarrow> stamp_filed now p t)"
    using c by (auto simp: close_current_def split: option.splits)
  have ids: "map fi_id t1 = map fi_id t" by (simp add: t1 split: option.splits)
  have fresh: "i \<notin> set (map fi_id t)" using t' ids by (metis set_map)
  have other: "versions_of ?key j t1 = versions_of ?key j t" if "j \<noteq> ?k" for j
  proof (cases "find_current ?key ?k t")
    case None
    then show ?thesis by (simp add: t1 p)
  next
    case (Some f)
    then have f: "f \<in> set t" "key_of = ?k \<Longrightarrow> ?key (fi_record f) = ?k" for key_of
      using find_mem[of "\<lambda>f. fi_live f \<and> ?key (fi_record f) = ?k" t f] by (auto simp: find_current_def)
    have "g = f" if "g \<in> set t" "fi_id g = fi_id f" for g
      using d f(1) that by (auto simp: distinct_map dest: inj_onD)
    then have "versions_of ?key j (stamp_filed now (fi_id f) t) = versions_of ?key j t"
      using f(2) \<open>j \<noteq> ?k\<close> by (intro stamp_other[where k' = ?k]) auto
    then show ?thesis by (simp add: t1 p Some)
  qed
  have same: "linked None (versions_of ?key ?k (t1 @ [?new]))"
  proof (cases "versions_of ?key ?k t = []")
    case True
    then have "prior = None" using find_current_eq[OF ok, of ?k] by (simp add: p)
    with True show ?thesis by (simp add: t1 versions_of_append fi_live_def) (simp add: versions_of_def fi_live_def)
  next
    case False
    let ?vs = "versions_of ?key ?k t"
    have pr: "prior = Some (fi_id (last ?vs))" using False find_current_eq[OF ok, of ?k] by (simp add: p)
    have "fi_live (last ?vs)" using linked_live[OF l[of ?k]] False
      by (metis filter_eq_Cons_iff)
    from stamp_last[OF distinct_versions[OF d] False this, of now]
    have e: "versions_of ?key ?k t1 = butlast ?vs @ [(last ?vs)\<lparr>fi_superseded_at := Some now\<rparr>]"
      by (simp add: t1 pr versions_of_stamp)
    have "linked None (butlast ?vs @ [(last ?vs)\<lparr>fi_superseded_at := Some now\<rparr>, ?new])"
      by (rule linked_snoc[OF l False refl]) (simp_all add: fi_live_def pr)
    then show ?thesis by (simp add: versions_of_append e) (simp add: versions_of_def)
  qed
  have "versions_of ?key j [?new] = (if j = ?k then [?new] else [])" for j by (simp add: versions_of_def)
  then have vs: "versions_of ?key j t' = (if j = ?k then versions_of ?key ?k (t1 @ [?new]) else versions_of ?key j t)" for j
    using other[of j] by (simp add: t'[THEN conjunct1] versions_of_append)
  show ok': "filed_ok ?key t'"
    using d fresh ids l same by (simp add: filed_ok_def vs) (simp add: t'[THEN conjunct1])
  show "prior = map_option fi_id (find_current ?key ?k t)" by (rule p)
  show "t' = (case prior of None \<Rightarrow> t | Some p \<Rightarrow> stamp_filed now p t) @ [?new]" using t' t1 by simp
  show "find_current ?key k t' = (if k = ?k then Some ?new else find_current ?key k t)"
    by (simp add: find_current_eq[OF ok'] find_current_eq[OF ok] vs versions_of_append) (simp add: versions_of_def)
qed

text \<open>A fact that is put, with what its statement is given.\<close>

type_synonym 'r filing = "ingest_batch list \<times> instant \<times> uuid \<times> 'r"

definition put_fact ::
  "facts_env \<Rightarrow> 'r fact_service \<Rightarrow> 'r filed list \<Rightarrow> 'r filing \<Rightarrow> exc + 'r filed list" where
  "put_fact env sv t x = (case x of (bs, now, i, r) \<Rightarrow> map_sum id snd (record_or_supersede env sv bs now i r t))"

definition filing_record :: "'r filing \<Rightarrow> 'r" where
  "filing_record x = snd (snd (snd x))"

lemma put_fact_Inr:
  assumes "filed_ok (sv_key sv) t" "put_fact env sv t x = Inr t'"
  shows "filed_ok (sv_key sv) t' \<and> map fi_record t' = map fi_record t @ [filing_record x]"
proof -
  obtain bs now i r where x: "x = (bs, now, i, r)" by (cases x)
  from assms(2) obtain prior where "record_or_supersede env sv bs now i r t = Inr (prior, t')"
    by (cases "record_or_supersede env sv bs now i r t") (auto simp: x put_fact_def)
  from record_or_supersede_cases(1,3)[OF assms(1) this] show ?thesis
    by (simp add: x filing_record_def split: option.splits)
qed

lemma put_fact_current:
  assumes "filed_ok (sv_key sv) t" "put_fact env sv t x = Inr t'"
  shows "current_of (sv_key sv) t' k = (if k = sv_key sv (filing_record x) then Some (filing_record x) else current_of (sv_key sv) t k)"
proof -
  obtain bs now i r where x: "x = (bs, now, i, r)" by (cases x)
  from assms(2) obtain prior where "record_or_supersede env sv bs now i r t = Inr (prior, t')"
    by (cases "record_or_supersede env sv bs now i r t") (auto simp: x put_fact_def)
  from record_or_supersede_cases(4)[OF assms(1) this, of k] show ?thesis
    by (simp add: x filing_record_def current_of_def)
qed

interpretation facts:
  latest_wins "\<lambda>x t. put_fact env sv t x" "filed_ok (sv_key sv)" "current_of (sv_key sv)" "\<lambda>x. sv_key sv (filing_record x)" filing_record
  for env sv
  by unfold_locales (auto dest: put_fact_Inr simp: put_fact_current)

lemma put_facts_Inr:
  assumes "rfold (put_fact env sv) t xs = Inr t'" "filed_ok (sv_key sv) t"
  shows "filed_ok (sv_key sv) t' \<and> map fi_record t' = map fi_record t @ map filing_record xs"
  using assms
proof (induction xs arbitrary: t)
  case (Cons x xs)
  then obtain t1 where t1: "put_fact env sv t x = Inr t1" "rfold (put_fact env sv) t1 xs = Inr t'"
    by (auto simp: rbind_eq_Inr_iff)
  note put_fact_Inr[OF Cons.prems(2) t1(1)]
  with Cons.IH[OF t1(2)] show ?case by simp
qed simp

lemma versions_records: "map fi_record (versions_of key k t) = filter (\<lambda>r. key r = k) (map fi_record t)"
  by (simp add: versions_of_def filter_map comp_def)

text \<open>
  C26. The documents of one key form a chain. After any sequence of recordings and corrections the
  table holds every document ever filed; those of one key stand in the order of filing, each points to
  the one it corrected, all but the last are closed, and the last is what a lookup of the key finds.
\<close>

theorem corrections_form_chain:
  assumes "rfold (put_fact env sv) [] xs = Inr t"
  shows "map fi_record t = map filing_record xs
    \<and> (\<forall>k. linked None (versions_of (sv_key sv) k t)
        \<and> map fi_record (versions_of (sv_key sv) k t) = filter (\<lambda>r. sv_key sv r = k) (map filing_record xs)
        \<and> current_of (sv_key sv) t k = (case rev (filter (\<lambda>r. sv_key sv r = k) (map filing_record xs)) of
             [] \<Rightarrow> None | r # rs \<Rightarrow> Some r))"
proof -
  have ok: "filed_ok (sv_key sv) t" and m: "map fi_record t = map filing_record xs"
    using put_facts_Inr[OF assms] by simp_all
  have "current_of (sv_key sv) t k = (case rev (map fi_record (versions_of (sv_key sv) k t)) of [] \<Rightarrow> None | r # rs \<Rightarrow> Some r)" for k
    by (cases "versions_of (sv_key sv) k t" rule: rev_cases) (simp_all add: current_of_def find_current_eq[OF ok])
  with ok m show ?thesis unfolding filed_ok_def versions_records by metis
qed

definition demo_facts_env :: facts_env where
  "demo_facts_env = \<lparr>fe_doc_types = [(''LUT'', 3)],
     fe_vocabulary = [(''Issuing_Authority'', ''GSTN''), (''Instrument_Status'', ''ACTIVE'')]\<rparr>"

definition demo_instrument :: "string \<Rightarrow> nat \<Rightarrow> instrument_record" where
  "demo_instrument n y = \<lparr>in_entity = 1, in_type = ''LUT'', in_authority = ''GSTN'', in_number = n,
     in_valid_from = Date y 4 1, in_valid_to = Date (y + 1) 3 31, in_status = ''ACTIVE'', in_scope_hsn = None,
     in_scope = [], in_obligation = [], in_batch = 5, in_ingest = 6\<rparr>"

definition demo_batches :: "ingest_batch list" where
  "demo_batches = [\<lparr>ib_batch_id = 5, ib_entity_id = 1, ib_document_type = ''LUT'', ib_source_stream = ''B'',
     ib_period_start = Date 2024 4 1, ib_period_end = Date 2024 4 1, ib_row_count = 1, ib_content_hash = [],
     ib_manifest_ref = 6, ib_status = ''READY'', ib_ready_at = 0, ib_run_id = 0\<rparr>]"

theorem corrections_form_chain_witness:
  "\<exists>t. rfold (put_fact demo_facts_env instrument_service) []
       [(demo_batches, 1, 11, demo_instrument ''AD1'' 2024), (demo_batches, 2, 12, demo_instrument ''AD2'' 2024),
        (demo_batches, 3, 13, demo_instrument ''AD1'' 2025)] = Inr t
     \<and> current_of (sv_key instrument_service) t (1, ''LUT'', ByNumber ''AD1'') = Some (demo_instrument ''AD1'' 2025)"
proof -
  let ?xs = "[(demo_batches, 1, 11, demo_instrument ''AD1'' 2024), (demo_batches, 2, 12, demo_instrument ''AD2'' 2024),
        (demo_batches, 3, 13, demo_instrument ''AD1'' 2025)]"
  have "case rfold (put_fact demo_facts_env instrument_service) [] ?xs of Inr t \<Rightarrow> True | Inl e \<Rightarrow> False" by code_simp
  then obtain t where t: "rfold (put_fact demo_facts_env instrument_service) [] ?xs = Inr t"
    by (cases "rfold (put_fact demo_facts_env instrument_service) [] ?xs") auto
  have f: "rev (filter (\<lambda>r. sv_key instrument_service r = (1, ''LUT'', ByNumber ''AD1'')) (map filing_record ?xs))
      = [demo_instrument ''AD1'' 2025, demo_instrument ''AD1'' 2024]"
    by (simp add: filing_record_def instrument_service_def demo_instrument_def)
  from corrections_form_chain[OF t]
  have "current_of (sv_key instrument_service) t (1, ''LUT'', ByNumber ''AD1'') = Some (demo_instrument ''AD1'' 2025)"
    by (simp only: f list.case)
  with t show ?thesis by blast
qed

end
