(* ===== verification/LabelValue.thy ===== *)
theory LabelValue
  imports Json Dates
begin

text \<open>
  \<open>src/src/extraction/labelvalue.py\<close>: the \<open>Label: Value\<close> grammar of the PDF extractors. Each
  regular expression is written out as the function it computes: a match at the front of a text, and
  \<open>search\<close>, the leftmost one. Where an expression could backtrack, at most one way of matching
  exists. Classes and case are the ASCII ones, and a character outside ASCII is not a word character.
\<close>

section \<open>Matching\<close>

fun search :: "(string \<Rightarrow> 'a option) \<Rightarrow> string \<Rightarrow> 'a option" where
  "search m [] = m []"
| "search m (c # r) = (case m (c # r) of Some x \<Rightarrow> Some x | None \<Rightarrow> search m r)"

fun first_some :: "('a \<Rightarrow> 'b option) \<Rightarrow> 'a list \<Rightarrow> 'b option" where
  "first_some f [] = None"
| "first_some f (x # xs) = (case f x of Some y \<Rightarrow> Some y | None \<Rightarrow> first_some f xs)"

definition is_letter :: "char \<Rightarrow> bool" where
  "is_letter c \<longleftrightarrow> is_lower c \<or> is_upper c"

definition word_char :: "char \<Rightarrow> bool" where
  "word_char c \<longleftrightarrow> is_letter c \<or> is_digit c \<or> c = CHR ''_''"

definition word_end :: "string \<Rightarrow> string \<Rightarrow> bool" where
  "word_end before after \<longleftrightarrow> (before \<noteq> [] \<and> word_char (last before)) \<noteq> (after \<noteq> [] \<and> word_char (hd after))"

definition all_digits :: "nat \<Rightarrow> string \<Rightarrow> bool" where
  "all_digits n s \<longleftrightarrow> length s = n \<and> list_all is_digit s"

definition cp_length :: "string \<Rightarrow> nat" where
  "cp_length s = length (filter (\<lambda>c. \<not> utf8_cont c) s)"

section \<open>Values\<close>

definition field_types :: "string list" where
  "field_types = [''date'', ''date_range'', ''gstin'', ''hsn'', ''int'', ''money'', ''text'']"

datatype field_value =
    FText string
  | FDate date
  | FRange date date
  | FInt int
  | FRows "(string \<times> string) list list"
  | FTable "(string \<times> field_value) list list"
  | FWindows "(string \<times> field_value) list list" "date \<times> date" "date \<times> date"

definition month_names :: "string list" where
  "month_names = [''january'', ''february'', ''march'', ''april'', ''may'', ''june'', ''july'', ''august'',
     ''september'', ''october'', ''november'', ''december'']"

text \<open>\<open>%B\<close> and, cut to three letters, \<open>%b\<close>.\<close>

definition month_index :: "string list \<Rightarrow> string \<Rightarrow> nat option" where
  "month_index names s = map_option (\<lambda>(i, n). i) (List.find (\<lambda>(i, n). n = lower s) (zip [1..<13] names))"

definition named_date :: "string list \<Rightarrow> string \<Rightarrow> string \<Rightarrow> string \<Rightarrow> date option" where
  "named_date names d m y =
     (case month_index names m of None \<Rightarrow> None | Some k \<Rightarrow> mk_date (digits_val y) k (digits_val d))"

text \<open>The three date patterns: the text they match and, for the first two, its parts.\<close>

definition match_long_date :: "string \<Rightarrow> (string \<times> string \<times> string \<times> string) option" where
  "match_long_date s =
     (let d = takeWhile is_digit (take 2 s); r1 = drop (length d) s; w1 = takeWhile is_space r1;
          r2 = drop (length w1) r1; m = takeWhile is_letter r2; r3 = drop (length m) r2;
          w2 = takeWhile is_space r3; r4 = drop (length w2) r3; y = take 4 r4
      in if d \<noteq> [] \<and> w1 \<noteq> [] \<and> m \<noteq> [] \<and> w2 \<noteq> [] \<and> all_digits 4 y then Some (d, m, y, d @ w1 @ m @ w2 @ y) else None)"

definition match_dashed_date :: "(string \<Rightarrow> string) \<Rightarrow> string \<Rightarrow> (string \<times> string \<times> string \<times> string) option" where
  "match_dashed_date gap s =
     (let d = takeWhile is_digit (take 2 s); r1 = drop (length d) s; w1 = gap r1; r2 = drop (length w1) r1;
          w2 = gap (tl r2); r3 = drop (length w2) (tl r2); m = take 3 r3; r4 = drop 3 r3;
          w3 = gap r4; r5 = drop (length w3) r4; w4 = gap (tl r5); y = take 4 (drop (length w4) (tl r5))
      in if d \<noteq> [] \<and> r2 \<noteq> [] \<and> hd r2 = CHR ''-'' \<and> length m = 3 \<and> list_all is_letter m
            \<and> r5 \<noteq> [] \<and> hd r5 = CHR ''-'' \<and> all_digits 4 y
         then Some (d, m, y, d @ w1 @ ''-'' @ w2 @ m @ w3 @ ''-'' @ w4 @ y) else None)"

definition match_iso_date :: "string \<Rightarrow> string option" where
  "match_iso_date s = (let t = take 10 s in
     if all_digits 4 (take 4 t) \<and> take 1 (drop 4 t) = ''-'' \<and> all_digits 2 (take 2 (drop 5 t))
        \<and> take 1 (drop 7 t) = ''-'' \<and> all_digits 2 (drop 8 t) then Some t else None)"

definition no_gap :: "string \<Rightarrow> string" where
  "no_gap s = []"

text \<open>Only the leftmost match of each pattern is tried.\<close>

definition date_candidates :: "string \<Rightarrow> date option list" where
  "date_candidates raw =
     [Option.bind (search match_long_date raw) (\<lambda>(d, m, y, t). named_date month_names d m y),
      Option.bind (search (match_dashed_date no_gap) raw) (\<lambda>(d, m, y, t). named_date (map (take 3) month_names) d m y),
      Option.bind (search match_iso_date raw) strptime_ymd]"

definition label_date :: "string \<Rightarrow> exc + date" where
  "label_date raw = (case first_some id (date_candidates raw) of
      Some d \<Rightarrow> Inr d
    | None \<Rightarrow> Inl (LabelValueError (py_repr raw @ '' does not match a known date format'')))"

text \<open>The first word \<open>to\<close>; the flag says whether a word character stands before.\<close>

fun split_to :: "bool \<Rightarrow> string \<Rightarrow> (string \<times> string) option" where
  "split_to pw [] = None"
| "split_to pw (c # r) =
     (if \<not> pw \<and> lower (take 2 (c # r)) = ''to'' \<and> (tl r = [] \<or> \<not> word_char (hd (tl r))) then Some ([], tl r)
      else map_option (\<lambda>(a, b). (c # a, b)) (split_to (word_char c) r))"

definition label_date_range :: "string \<Rightarrow> exc + date \<times> date" where
  "label_date_range raw = (case split_to False raw of
      None \<Rightarrow> Inl (LabelValueError (py_repr raw @ '' does not contain a ' to ' date range''))
    | Some (a, b) \<Rightarrow> rbind (label_date a) (\<lambda>x. rbind (label_date b) (\<lambda>y. Inr (x, y))))"

definition grouped_digit :: "char \<Rightarrow> bool" where
  "grouped_digit c \<longleftrightarrow> is_digit c \<or> c = CHR '',''"

definition match_money :: "string \<Rightarrow> string option" where
  "match_money s = (let a = takeWhile grouped_digit s; r = drop (length a) s in
     if a = [] then None
     else if r \<noteq> [] \<and> hd r = CHR ''.'' \<and> takeWhile is_digit (tl r) \<noteq> [] then Some (a @ ''.'' @ takeWhile is_digit (tl r))
     else Some a)"

definition label_money :: "string \<Rightarrow> exc + string" where
  "label_money raw = (case search match_money raw of
      None \<Rightarrow> Inl (LabelValueError (py_repr raw @ '' contains no number''))
    | Some m \<Rightarrow> Inr (filter (\<lambda>c. c \<noteq> CHR '','') m))"

definition match_digits :: "nat \<Rightarrow> string \<Rightarrow> string option" where
  "match_digits n s = (let d = takeWhile is_digit s in if length d < n then None else Some d)"

definition label_int :: "string \<Rightarrow> exc + int" where
  "label_int raw = (case search (match_digits 1) raw of
      None \<Rightarrow> Inl (LabelValueError (py_repr raw @ '' contains no integer''))
    | Some d \<Rightarrow> (case py_int d of None \<Rightarrow> Inl (ValueError ''int'') | Some i \<Rightarrow> Inr i))"

definition match_gstin :: "string \<Rightarrow> string option" where
  "match_gstin s = (let t = take 15 s in
     if length t = 15 \<and> all_digits 2 (take 2 t) \<and> list_all is_upper (take 5 (drop 2 t)) \<and> all_digits 4 (take 4 (drop 7 t))
        \<and> is_upper (t ! 11) \<and> (is_upper (t ! 12) \<or> is_digit (t ! 12) \<and> t ! 12 \<noteq> CHR ''0'') \<and> t ! 13 = CHR ''Z''
        \<and> (is_upper (t ! 14) \<or> is_digit (t ! 14)) then Some t else None)"

definition label_gstin :: "string \<Rightarrow> exc + string" where
  "label_gstin raw = (case search match_gstin (upper (filter (\<lambda>c. c \<noteq> CHR '' '') raw)) of
      None \<Rightarrow> Inl (LabelValueError (py_repr raw @ '' does not contain a GSTIN'')) | Some g \<Rightarrow> Inr g)"

definition label_hsn :: "string \<Rightarrow> exc + string" where
  "label_hsn raw = (case search (match_digits 4) raw of
      None \<Rightarrow> Inl (LabelValueError (py_repr raw @ '' contains no HSN-shaped code'')) | Some d \<Rightarrow> Inr (take 10 d))"

definition coerce_field_value :: "string \<Rightarrow> string \<Rightarrow> exc + field_value" where
  "coerce_field_value ty raw =
     (if ty = ''text'' then Inr (FText (strip raw))
      else if ty = ''date'' then map_sum id FDate (label_date raw)
      else if ty = ''date_range'' then map_sum id (\<lambda>(a, b). FRange a b) (label_date_range raw)
      else if ty = ''money'' then map_sum id FText (label_money raw)
      else if ty = ''int'' then map_sum id FInt (label_int raw)
      else if ty = ''gstin'' then map_sum id FText (label_gstin raw)
      else if ty = ''hsn'' then map_sum id FText (label_hsn raw)
      else Inl (LabelValueError (''unknown field type '' @ py_repr ty)))"

section \<open>Finding a label\<close>

record label_field =
  lf_label :: string
  lf_type :: string
  lf_required :: bool

definition mk_label_field :: "string \<Rightarrow> string \<Rightarrow> bool \<Rightarrow> exc + label_field" where
  "mk_label_field label ty required =
     (if ty \<in> set field_types then Inr \<lparr>lf_label = label, lf_type = ty, lf_required = required\<rparr>
      else Inl (ValueError (py_repr label @ '' has unknown field type '' @ py_repr ty @ ''; known types: ''
        @ join '', '' field_types)))"

type_synonym label_spec = "(string \<times> label_field) list"

text \<open>What stands before and after the label, when it stands after the first \<open>i\<close> characters.\<close>

definition label_at :: "string \<Rightarrow> string \<Rightarrow> nat \<Rightarrow> (string \<times> string) option" where
  "label_at label line i =
     (if lower (take (length label) (drop i line)) = lower label
      then Some (take (i + length label) line, drop (i + length label) line) else None)"

definition indents :: "string \<Rightarrow> nat list" where
  "indents line = rev [0..<Suc (length (takeWhile is_space line))]"

definition colon_value :: "string \<Rightarrow> string \<Rightarrow> string option" where
  "colon_value label line = first_some (\<lambda>i. case label_at label line i of
      None \<Rightarrow> None
    | Some (b, a) \<Rightarrow> (case lstrip a of c # t \<Rightarrow> if c = CHR '':'' then Some (strip t) else None | [] \<Rightarrow> None))
    (indents line)"

text \<open>A label, a word boundary, and the leftmost match of a cell behind it.\<close>

definition table_cell :: "(string \<Rightarrow> string option) \<Rightarrow> string \<Rightarrow> string \<Rightarrow> string option" where
  "table_cell cell label line = first_some (\<lambda>i. case label_at label line i of
      None \<Rightarrow> None | Some (b, a) \<Rightarrow> if word_end b a then search cell a else None) (indents line)"

definition money_cell :: "string \<Rightarrow> string option" where
  "money_cell s = (if match_money (rstrip s) = Some (rstrip s) then Some (rstrip s) else None)"

definition date_cell :: "string \<Rightarrow> string option" where
  "date_cell s = (case match_dashed_date (takeWhile is_space) s of
      Some (d, m, y, t) \<Rightarrow> Some t
    | None \<Rightarrow> map_option (\<lambda>(d, m, y, t). t) (match_long_date s))"

fun table_date :: "string \<Rightarrow> string list \<Rightarrow> string option" where
  "table_date label [] = None"
| "table_date label (l # ls) =
     (case table_cell date_cell label l of
        Some v \<Rightarrow> Some (filter (\<lambda>c. c \<noteq> CHR '' '') v)
      | None \<Rightarrow>
          (case (case ls of [] \<Rightarrow> None | l2 # _ \<Rightarrow> table_cell date_cell label (l @ '' '' @ l2)) of
             Some v \<Rightarrow> Some (filter (\<lambda>c. c \<noteq> CHR '' '') v)
           | None \<Rightarrow> table_date label ls))"

definition find_value :: "string list \<Rightarrow> string \<Rightarrow> string \<Rightarrow> string option" where
  "find_value ls label ty =
     (case first_some (colon_value label) ls of
        Some v \<Rightarrow> Some v
      | None \<Rightarrow>
          if ty = ''money'' then first_some (table_cell money_cell label) ls
          else if ty = ''date'' then table_date label ls else None)"

section \<open>parse_label_value\<close>

datatype extraction =
    Extracted "(string \<times> field_value) list"
  | Partial "(string \<times> field_value) list" "string list" "string list"
  | NoTextLayer

text \<open>One field of the spec, with the fields bound, missing and failed so far.\<close>

type_synonym binding_state = "(string \<times> field_value) list \<times> string list \<times> string list"

definition bind_field :: "string list \<Rightarrow> binding_state \<Rightarrow> string \<times> label_field \<Rightarrow> exc + binding_state" where
  "bind_field ls st nf = (case st of (fs, missing, failed) \<Rightarrow> case nf of (name, lf) \<Rightarrow>
     case find_value ls (lf_label lf) (lf_type lf) of
       None \<Rightarrow> Inr (fs, (if lf_required lf then missing @ [name] else missing), failed)
     | Some raw \<Rightarrow>
         if raw = [] then Inr (fs, (if lf_required lf then missing @ [name] else missing), failed)
         else (case coerce_field_value (lf_type lf) raw of
             Inr v \<Rightarrow> Inr (dict_put name v fs, missing, failed)
           | Inl (LabelValueError _) \<Rightarrow> Inr (fs, missing, (if lf_required lf then failed @ [name] else failed))
           | Inl e \<Rightarrow> Inl e))"

definition page_text :: "string list \<Rightarrow> string" where
  "page_text pages = join [CHR 0x0A] pages"

definition parse_label_value :: "string list \<Rightarrow> label_spec \<Rightarrow> exc + extraction" where
  "parse_label_value pages spec =
     (let text = page_text pages in
      if cp_length (strip text) < 20 then Inr NoTextLayer
      else rbind (rfold (bind_field (splitlines text)) ([], [], []) spec) (\<lambda>(fs, missing, failed).
        Inr (if missing = [] \<and> failed = [] then Extracted fs else Partial fs missing failed)))"

section \<open>The outcome, field by field\<close>

text \<open>What a field is bound to, on its own: nothing when its label or its value is missing.\<close>

definition field_reading :: "string list \<Rightarrow> label_field \<Rightarrow> (exc + field_value) option" where
  "field_reading ls lf = (case find_value ls (lf_label lf) (lf_type lf) of
      None \<Rightarrow> None
    | Some raw \<Rightarrow> if raw = [] then None else Some (coerce_field_value (lf_type lf) raw))"

definition bound_fields :: "string list \<Rightarrow> label_spec \<Rightarrow> (string \<times> field_value) list" where
  "bound_fields ls spec = concat (map (\<lambda>(n, lf). case field_reading ls lf of Some (Inr v) \<Rightarrow> [(n, v)] | _ \<Rightarrow> []) spec)"

definition missing_fields :: "string list \<Rightarrow> label_spec \<Rightarrow> string list" where
  "missing_fields ls spec = map fst (filter (\<lambda>(n, lf). lf_required lf \<and> field_reading ls lf = None) spec)"

definition failed_fields :: "string list \<Rightarrow> label_spec \<Rightarrow> string list" where
  "failed_fields ls spec = map fst (filter (\<lambda>(n, lf). lf_required lf \<and>
     (case field_reading ls lf of Some (Inl _) \<Rightarrow> True | _ \<Rightarrow> False)) spec)"

lemma dict_put_fresh: "n \<notin> fst ` set d \<Longrightarrow> dict_put n v d = d @ [(n, v)]"
  by (induction d) auto

lemma bound_fields_names: "fst ` set (bound_fields ls spec) \<subseteq> fst ` set spec"
  by (force simp: bound_fields_def split: option.splits sum.splits)

lemma bind_fields_Inr:
  assumes "rfold (bind_field ls) (fs, ms, es) spec = Inr st" "distinct (map fst spec)" "fst ` set fs \<inter> fst ` set spec = {}"
  shows "st = (fs @ bound_fields ls spec, ms @ missing_fields ls spec, es @ failed_fields ls spec)"
  using assms
proof (induction spec arbitrary: fs ms es)
  case (Cons nf spec)
  obtain n lf where nf: "nf = (n, lf)" by (cases nf)
  from Cons.prems(1) obtain fs1 ms1 es1 where b: "bind_field ls (fs, ms, es) (n, lf) = Inr (fs1, ms1, es1)"
    "rfold (bind_field ls) (fs1, ms1, es1) spec = Inr st" by (auto simp: nf rbind_eq_Inr_iff)
  have n: "n \<notin> fst ` set fs" using Cons.prems(3) by (auto simp: nf)
  from b(1) n have e: "fs1 = fs @ bound_fields ls [(n, lf)] \<and> ms1 = ms @ missing_fields ls [(n, lf)] \<and> es1 = es @ failed_fields ls [(n, lf)]"
    by (auto simp: bind_field_def field_reading_def bound_fields_def missing_fields_def failed_fields_def dict_put_fresh
        split: option.splits if_splits sum.splits exc.splits)
  then have "fst ` set fs1 \<inter> fst ` set spec = {}"
    using Cons.prems(2,3) bound_fields_names[of ls "[(n, lf)]"] by (auto simp: nf)
  from Cons.IH[OF b(2) _ this] Cons.prems(2) e show ?case
    by (simp add: nf bound_fields_def missing_fields_def failed_fields_def)
qed (simp add: bound_fields_def missing_fields_def failed_fields_def)

lemma bind_fields_Inl:
  "rfold (bind_field ls) st spec = Inl e \<Longrightarrow>
     list_ex (\<lambda>(n, lf). field_reading ls lf = Some (Inl e)) spec \<and> (\<forall>m. e \<noteq> LabelValueError m)"
proof (induction spec arbitrary: st)
  case (Cons nf spec)
  obtain n lf where nf: "nf = (n, lf)" by (cases nf)
  show ?case
  proof (cases "bind_field ls st nf")
    case (Inl e')
    with Cons.prems have "bind_field ls st (n, lf) = Inl e" by (simp add: nf)
    then show ?thesis
      by (cases st) (auto simp: nf bind_field_def field_reading_def split: option.splits if_splits sum.splits exc.splits)
  next
    case (Inr st1)
    with Cons.prems Cons.IH[of st1] show ?thesis by simp
  qed
qed simp

text \<open>The outcome as a specification: what each field of the spec reads, whatever the others do.\<close>

definition label_outcome :: "string \<Rightarrow> label_spec \<Rightarrow> extraction" where
  "label_outcome text spec = (let ls = splitlines text in
     if cp_length (strip text) < 20 then NoTextLayer
     else if missing_fields ls spec = [] \<and> failed_fields ls spec = [] then Extracted (bound_fields ls spec)
     else Partial (bound_fields ls spec) (missing_fields ls spec) (failed_fields ls spec))"

lemma parse_label_value_Inr:
  assumes "parse_label_value pages spec = Inr out" "distinct (map fst spec)"
  shows "out = label_outcome (page_text pages) spec"
proof (cases "cp_length (strip (page_text pages)) < 20")
  case True
  with assms(1) show ?thesis by (simp add: parse_label_value_def label_outcome_def Let_def)
next
  case False
  with assms(1) obtain fs missing failed where f: "rfold (bind_field (splitlines (page_text pages))) ([], [], []) spec = Inr (fs, missing, failed)"
    "out = (if missing = [] \<and> failed = [] then Extracted fs else Partial fs missing failed)"
    by (auto simp: parse_label_value_def Let_def rbind_eq_Inr_iff)
  from bind_fields_Inr[OF f(1) assms(2)] f(2) False show ?thesis by (simp add: label_outcome_def Let_def)
qed

lemma parse_label_value_Inl:
  assumes "parse_label_value pages spec = Inl e"
  shows "20 \<le> cp_length (strip (page_text pages)) \<and> (\<forall>m. e \<noteq> LabelValueError m)
    \<and> list_ex (\<lambda>(n, lf). field_reading (splitlines (page_text pages)) lf = Some (Inl e)) spec"
proof -
  from assms have "20 \<le> cp_length (strip (page_text pages))"
    "rfold (bind_field (splitlines (page_text pages))) ([], [], []) spec = Inl e"
    by (auto simp: parse_label_value_def Let_def not_less rbind_eq_Inl_iff split: if_splits)
  with bind_fields_Inl[OF this(2)] show ?thesis by blast
qed


section \<open>Reading back what was printed\<close>

definition label_line :: "string \<Rightarrow> string \<Rightarrow> string" where
  "label_line label v = label @ '': '' @ v"

text \<open>A label that can be told from others, and a value that survives on its line.\<close>

definition plain_label :: "string \<Rightarrow> bool" where
  "plain_label l \<longleftrightarrow> l \<noteq> [] \<and> trimmed l \<and> CHR '':'' \<notin> set l \<and> no_boundary l"

definition plain_value :: "string \<Rightarrow> bool" where
  "plain_value v \<longleftrightarrow> v \<noteq> [] \<and> trimmed v \<and> no_boundary v"

lemma lower_colon: "to_lower_char c = CHR '':'' \<Longrightarrow> c = CHR '':''"
proof -
  assume "to_lower_char c = CHR '':''"
  then have "ord (to_lower_char c) = 58" by (simp add: ord_def)
  then have "ord c = 58" by (simp add: ord_to_lower is_upper_def split: if_splits)
  then show ?thesis by (intro ord_inj) (simp add: ord_def)
qed

lemma lower_Nil [simp]: "lower s = [] \<longleftrightarrow> s = []" and lower_length [simp]: "length (lower s) = length s"
  and lower_append: "lower (s @ t) = lower s @ lower t"
  by (simp_all add: lower_def)

lemma lstrip_append: "lstrip xs \<noteq> [] \<Longrightarrow> lstrip (xs @ ys) = lstrip xs @ ys"
  by (induction xs) (auto simp: lstrip_def)

lemma lstrip_trimmed: "trimmed s \<Longrightarrow> lstrip s = s"
  by (cases s) (auto simp: lstrip_def trimmed_def)

lemma first_some_single [simp]: "first_some f [x] = f x"
  by (simp split: option.splits)

lemma indents_trimmed: "s \<noteq> [] \<Longrightarrow> \<not> is_space (hd s) \<Longrightarrow> indents s = [0]"
  by (cases s) (simp_all add: indents_def)

text \<open>A line is the line of exactly the label that is printed on it, up to case.\<close>

lemma colon_value_line:
  assumes l: "plain_label l" and m: "plain_label m" and v: "plain_value v"
  shows "colon_value m (label_line l v) = (if lower m = lower l then Some v else None)"
proof -
  have hd: "\<not> is_space (hd (label_line l v))" "label_line l v \<noteq> []"
    using l by (auto simp: plain_label_def trimmed_def label_line_def)
  have cut: "colon_value m (label_line l v) =
      (if lower (take (length m) (label_line l v)) = lower m
       then (case lstrip (drop (length m) (label_line l v)) of c # t \<Rightarrow> if c = CHR '':'' then Some (strip t) else None | [] \<Rightarrow> None)
       else None)"
    by (simp add: colon_value_def indents_trimmed hd label_at_def del: first_some.simps)
  show ?thesis
  proof (cases "length m \<le> length l")
    case True
    have a: "take (length m) (label_line l v) = take (length m) l" "drop (length m) (label_line l v) = drop (length m) l @ '': '' @ v"
      using True by (simp_all add: label_line_def)
    show ?thesis
    proof (cases "length m = length l")
      case True
      have "strip (CHR '' '' # v) = v"
        using v by (simp add: strip_def lstrip_def is_space_def ord_def)
          (use strip_trimmed[of v] v in \<open>simp add: plain_value_def strip_def lstrip_def\<close>)
      moreover have "take (length m) (label_line l v) = l" "drop (length m) (label_line l v) = '': '' @ v"
        using True by (simp_all add: label_line_def)
      moreover have "lstrip ('': '' @ v) = CHR '':'' # CHR '' '' # v" by (simp add: lstrip_def is_space_def ord_def)
      ultimately show ?thesis unfolding cut by (auto simp: eq_commute[of "lower l"])
    next
      case False
      with True have d: "drop (length m) l \<noteq> []" by simp
      have "last (drop (length m) l) = last l" using True False by (simp add: last_drop)
      then have "\<not> is_space (last (drop (length m) l))" using l by (auto simp: plain_label_def trimmed_def)
      then have "lstrip (drop (length m) l) \<noteq> []" using last_in_set[OF d] by (metis lstrip_def dropWhile_eq_Nil_conv)
      then obtain c r where c: "lstrip (drop (length m) l) = c # r" by (cases "lstrip (drop (length m) l)") auto
      then have "c \<in> set (lstrip (drop (length m) l))" by simp
      then have "c \<in> set l" unfolding lstrip_def by (meson in_set_dropD set_dropWhileD)
      then have "c \<noteq> CHR '':''" using l by (auto simp: plain_label_def)
      moreover have "lstrip (drop (length m) l @ '': '' @ v) = (c # r) @ '': '' @ v"
        using lstrip_append[of "drop (length m) l" "'': '' @ v"] c by simp
      moreover have "lower m \<noteq> lower l" using False by (metis lower_length)
      ultimately show ?thesis by (simp add: cut a)
    qed
  next
    case False
    then have "CHR '':'' \<in> set (take (length m) (label_line l v))" by (auto simp: label_line_def take_Cons')
    then have "CHR '':'' \<in> set (lower (take (length m) (label_line l v)))"
      unfolding lower_def by (force simp: to_lower_char_def is_upper_def ord_def)
    moreover have "CHR '':'' \<notin> set (lower m)"
      using m lower_colon by (fastforce simp: lower_def plain_label_def)
    ultimately have "lower (take (length m) (label_line l v)) \<noteq> lower m" by metis
    moreover have "lower m \<noteq> lower l" using False by (metis lower_length order.refl)
    ultimately show ?thesis by (simp add: cut)
  qed
qed

lemma splitlines_join:
  "\<forall>l\<in>set ls. no_boundary l \<and> l \<noteq> [] \<Longrightarrow> splitlines (join [CHR 0x0A] ls) = ls"
proof (induction ls rule: induct_list012)
  case (3 a b ls)
  then show ?case using splitlines_line[of a] by simp
qed (simp_all add: splitlines_one, simp add: splitlines_def)

text \<open>A document of labelled facts: the name of the field, its label and its value.\<close>

type_synonym labelled = "(string \<times> string \<times> string) list"

definition text_spec :: "labelled \<Rightarrow> label_spec" where
  "text_spec doc = map (\<lambda>(n, l, v). (n, \<lparr>lf_label = l, lf_type = ''text'', lf_required = True\<rparr>)) doc"

definition printed :: "labelled \<Rightarrow> string" where
  "printed doc = join [CHR 0x0A] (map (\<lambda>(n, l, v). label_line l v) doc)"

definition printable :: "labelled \<Rightarrow> bool" where
  "printable doc \<longleftrightarrow> distinct (map fst doc) \<and> distinct (map (\<lambda>(n, l, v). lower l) doc)
     \<and> (\<forall>(n, l, v)\<in>set doc. plain_label l \<and> plain_value v)"

lemma first_some_label:
  assumes "(n, l, v) \<in> set doc" "distinct (map (\<lambda>(n, l, v). lower l) doc)"
    and "\<forall>(n, l, v)\<in>set doc. plain_label l \<and> plain_value v"
  shows "first_some (colon_value l) (map (\<lambda>(n, l, v). label_line l v) doc) = Some v"
  using assms
proof (induction doc)
  case (Cons e doc)
  obtain n' l' v' where e: "e = (n', l', v')" by (cases e)
  have pl: "plain_label l" "plain_label l'" "plain_value v'" using Cons.prems(1,3) by (auto simp: e)
  show ?case
  proof (cases "lower l = lower l'")
    case True
    have "e = (n, l, v)"
    proof (rule ccontr)
      assume "e \<noteq> (n, l, v)"
      with Cons.prems(1) have "lower l \<in> (\<lambda>(n, l, v). lower l) ` set doc" by force
      with Cons.prems(2) True show False by (simp add: e)
    qed
    with pl show ?thesis by (simp add: e colon_value_line)
  next
    case False
    with pl Cons show ?thesis by (auto simp: e colon_value_line)
  qed
qed simp

text \<open>
  C28. Printing and parsing. When the facts of a document are printed one to a line as
  \<open>Label: value\<close>, under labels that differ in more than case, the parser with the spec of these
  labels reads every value back and reports the document extracted.
\<close>

theorem printed_document_read_back:
  assumes "printable doc" "20 \<le> cp_length (strip (printed doc))"
  shows "parse_label_value [printed doc] (text_spec doc) = Inr (Extracted (map (\<lambda>(n, l, v). (n, FText v)) doc))"
proof -
  let ?ls = "map (\<lambda>(n, l, v). label_line l v) doc"
  have "\<forall>l\<in>set ?ls. no_boundary l \<and> l \<noteq> []"
    using assms(1) by (auto simp: printable_def label_line_def plain_label_def plain_value_def no_boundary_def ord_def)
  then have ls: "splitlines (printed doc) = ?ls" by (simp only: printed_def splitlines_join)
  have r: "field_reading ?ls \<lparr>lf_label = l, lf_type = ''text'', lf_required = True\<rparr> = Some (Inr (FText v))"
    if "(n, l, v) \<in> set doc" for n l v
    using first_some_label[OF that] that assms(1)
    by (auto simp: printable_def field_reading_def find_value_def coerce_field_value_def plain_value_def strip_trimmed)
  have "\<forall>e\<in>set d. e \<in> set doc \<Longrightarrow> bound_fields ?ls (text_spec d) = map (\<lambda>(n, l, v). (n, FText v)) d
      \<and> missing_fields ?ls (text_spec d) = [] \<and> failed_fields ?ls (text_spec d) = []" for d
    by (induction d) (auto simp: text_spec_def bound_fields_def missing_fields_def failed_fields_def r)
  then have f: "bound_fields ?ls (text_spec doc) = map (\<lambda>(n, l, v). (n, FText v)) doc"
    "missing_fields ?ls (text_spec doc) = []" "failed_fields ?ls (text_spec doc) = []" by blast+
  have "\<exists>st. rfold (bind_field ?ls) st0 (text_spec d) = Inr st" if "\<forall>e\<in>set d. e \<in> set doc" for d st0
    using that
  proof (induction d arbitrary: st0)
    case (Cons e d)
    obtain n l v where e: "e = (n, l, v)" by (cases e)
    with Cons.prems have "field_reading ?ls \<lparr>lf_label = l, lf_type = ''text'', lf_required = True\<rparr> = Some (Inr (FText v))"
      by (intro r[of n]) simp
    then have "\<exists>st1. bind_field ?ls st0 (n, \<lparr>lf_label = l, lf_type = ''text'', lf_required = True\<rparr>) = Inr st1"
      by (cases st0) (auto simp: bind_field_def field_reading_def split: option.splits if_splits)
    with Cons show ?case by (auto simp: text_spec_def e)
  qed (auto simp: text_spec_def)
  then obtain st where st: "rfold (bind_field ?ls) ([], [], []) (text_spec doc) = Inr st" by blast
  have "distinct (map fst (text_spec doc))"
    using assms(1) by (simp add: printable_def text_spec_def comp_def case_prod_beta)
  from bind_fields_Inr[OF st this] f have "st = (map (\<lambda>(n, l, v). (n, FText v)) doc, [], [])" by simp
  with st assms(2) ls show ?thesis by (simp add: parse_label_value_def page_text_def)
qed

definition demo_lut :: labelled where
  "demo_lut = [(''instrument_number'', ''LUT ARN'', ''AD2704240123456''), (''legal_name'', ''Legal Name'', ''Example Ltd'')]"

theorem printed_document_read_back_witness:
  "parse_label_value [printed demo_lut] (text_spec demo_lut)
     = Inr (Extracted [(''instrument_number'', FText ''AD2704240123456''), (''legal_name'', FText ''Example Ltd'')])"
proof -
  have "printable demo_lut" "20 \<le> cp_length (strip (printed demo_lut))" by code_simp+
  from printed_document_read_back[OF this] show ?thesis by (simp add: demo_lut_def)
qed

definition demo_lut_spec :: "bool \<Rightarrow> label_spec" where
  "demo_lut_spec required = [(''arn'', \<lparr>lf_label = ''LUT ARN'', lf_type = ''text'', lf_required = True\<rparr>),
     (''validity'', \<lparr>lf_label = ''Validity'', lf_type = ''date_range'', lf_required = required\<rparr>)]"


section \<open>A date that never binds\<close>

lemma search_none: "(\<And>t. set t \<subseteq> set s \<Longrightarrow> m t = None) \<Longrightarrow> search m s = None"
proof (induction s)
  case (Cons c s)
  have "search m s = None" by (rule Cons.IH) (use Cons.prems in auto)
  with Cons.prems[of "c # s"] show ?case by simp
qed simp

lemma no_long_date: "\<not> list_ex is_space s \<Longrightarrow> search match_long_date s = None"
proof (rule search_none)
  fix t assume a: "\<not> list_ex is_space s" "set t \<subseteq> set s"
  have "takeWhile is_space (drop n t) = []" for n
  proof (cases "drop n t")
    case (Cons c r)
    then have "c \<in> set t" by (metis in_set_dropD list.set_intros(1))
    with a Cons show ?thesis by (auto simp: list_ex_iff)
  qed simp
  then show "match_long_date t = None" by (simp add: match_long_date_def Let_def)
qed

lemma no_dashed_date: "CHR ''-'' \<notin> set s \<Longrightarrow> search (match_dashed_date no_gap) s = None"
proof (rule search_none)
  fix t assume a: "CHR ''-'' \<notin> set s" "set t \<subseteq> set s"
  have "drop n t \<noteq> [] \<Longrightarrow> hd (drop n t) \<noteq> CHR ''-''" for n using a by (metis hd_in_set in_set_dropD subsetD)
  then show "match_dashed_date no_gap t = None" by (auto simp: match_dashed_date_def no_gap_def Let_def)
qed

lemma no_iso_date: "CHR ''-'' \<notin> set s \<Longrightarrow> search match_iso_date s = None"
proof (rule search_none)
  fix t assume a: "CHR ''-'' \<notin> set s" "set t \<subseteq> set s"
  have "take 1 (drop 4 (take 10 t)) \<noteq> ''-''"
  proof
    assume "take 1 (drop 4 (take 10 t)) = ''-''"
    then have "CHR ''-'' \<in> set t" by (metis in_set_dropD in_set_takeD list.set_intros(1))
    with a show False by auto
  qed
  then show "match_iso_date t = None" by (simp add: match_iso_date_def Let_def)
qed

lemma unspaced_date_fails: "\<not> list_ex is_space v \<Longrightarrow> CHR ''-'' \<notin> set v \<Longrightarrow> \<exists>m. label_date v = Inl (LabelValueError m)"
  by (simp add: label_date_def date_candidates_def no_long_date no_dashed_date no_iso_date)

text \<open>
  A date in words in a table row never binds. The rule for rows without a colon accepts
  \<open>31 March 2025\<close> and then takes the spaces out, and no date pattern reads \<open>31March2025\<close>: a
  required date whose only occurrence is such a row always ends up among the failed fields, and the
  document is quarantined.
\<close>

theorem worded_table_date_never_binds:
  assumes "first_some (colon_value label) (splitlines (page_text pages)) = None"
    and "table_date label (splitlines (page_text pages)) = Some v" "v \<noteq> []" "CHR ''-'' \<notin> set v" "\<not> list_ex is_space v"
    and "(name, \<lparr>lf_label = label, lf_type = ''date'', lf_required = True\<rparr>) \<in> set spec" "distinct (map fst spec)"
    and "parse_label_value pages spec = Inr out"
  shows "out = NoTextLayer \<or> (\<exists>fs missing failed. out = Partial fs missing failed \<and> name \<in> set failed)"
proof -
  let ?ls = "splitlines (page_text pages)" let ?lf = "\<lparr>lf_label = label, lf_type = ''date'', lf_required = True\<rparr>"
  obtain m where m: "label_date v = Inl (LabelValueError m)" using unspaced_date_fails[OF assms(5,4)] by blast
  have "field_reading ?ls ?lf = Some (Inl (LabelValueError m))"
    using assms(1-3) m by (simp add: field_reading_def find_value_def coerce_field_value_def)
  then have "(name, ?lf) \<in> set (filter (\<lambda>(n, lf). lf_required lf \<and> (case field_reading ?ls lf of Some (Inl _) \<Rightarrow> True | _ \<Rightarrow> False)) spec)"
    using assms(6) by simp
  then have "name \<in> set (failed_fields ?ls spec)" unfolding failed_fields_def by force
  then show ?thesis using parse_label_value_Inr[OF assms(8,7)] by (auto simp: label_outcome_def Let_def)
qed

definition demo_date_spec :: label_spec where
  "demo_date_spec = [(''as_of_date'', \<lparr>lf_label = ''Status (as on'', lf_type = ''date'', lf_required = True\<rparr>)]"

theorem worded_table_date_never_binds_witness:
  "parse_label_value [''GSTIN State Type Status (x)'', ''Status (as on 31 March 2025)''] demo_date_spec = Inr (Partial [] [] [''as_of_date''])
   \<and> parse_label_value [''GSTIN State Type Status (x)'', ''Status (as on 31-Mar-2025)''] demo_date_spec
     = Inr (Extracted [(''as_of_date'', FDate (Date 2025 3 31))])"
proof -
  let ?p = "[''GSTIN State Type Status (x)'', ''Status (as on 31 March 2025)'']"
  have c: "first_some (colon_value ''Status (as on'') (splitlines (page_text ?p)) = None"
    "table_date ''Status (as on'' (splitlines (page_text ?p)) = Some ''31March2025''" by code_simp+
  have d: "''31March2025'' \<noteq> []" "CHR ''-'' \<notin> set ''31March2025''" "\<not> list_ex is_space ''31March2025''"
    by code_simp+
  have s: "(''as_of_date'', \<lparr>lf_label = ''Status (as on'', lf_type = ''date'', lf_required = True\<rparr>) \<in> set demo_date_spec"
    "distinct (map fst demo_date_spec)" by (simp_all add: demo_date_spec_def)
  have o: "parse_label_value ?p demo_date_spec = Inr (Partial [] [] [''as_of_date''])" by code_simp
  moreover have "parse_label_value [''GSTIN State Type Status (x)'', ''Status (as on 31-Mar-2025)''] demo_date_spec
      = Inr (Extracted [(''as_of_date'', FDate (Date 2025 3 31))])" by code_simp
  moreover note worded_table_date_never_binds[OF c d s o]
  ultimately show ?thesis by blast
qed

end
