(* ===== verification/ExtractionSpec.thy ===== *)
theory ExtractionSpec
  imports Contract LabelValue
begin

text \<open>
  \<open>src/src/extraction/spec.py\<close>: the \<open>extraction_spec\<close> cell of a registry row, such as
  \<open>authority=GSTN;fields=instrument_number:text!:"LUT ARN"\<close>, as data for the extractors.
  \<open>re.compile\<close> is a parameter: a compiled expression is the names of its groups and what
  \<open>fullmatch\<close> answers, the text of each group; a group that took no part in the match is \<open>None\<close>.
\<close>

section \<open>Data\<close>

record regex =
  rx_groups :: "string list"
  rx_fullmatch :: "string \<Rightarrow> (string \<times> string option) list option"

record extraction_field =
  ef_name :: string
  ef_type :: string
  ef_required :: bool
  ef_label :: string

record table_column =
  tc_name :: string
  tc_type :: string

record table_spec =
  tb_pattern :: regex
  tb_columns :: "table_column list"

record extraction_spec =
  es_authority :: "string option"
  es_fields :: "extraction_field list"
  es_table :: "table_spec option"

definition label_spec_of :: "extraction_spec \<Rightarrow> exc + label_spec" where
  "label_spec_of sp = rmap (\<lambda>f. rbind (mk_label_field (ef_label f) (ef_type f) (ef_required f)) (\<lambda>lf. Inr (ef_name f, lf))) (es_fields sp)"

section \<open>Tokens\<close>

definition name_char :: "char \<Rightarrow> bool" where
  "name_char c \<longleftrightarrow> is_lower c \<or> is_digit c \<or> c = CHR ''_''"

definition type_char :: "char \<Rightarrow> bool" where
  "type_char c \<longleftrightarrow> is_lower c \<or> c = CHR ''_''"

text \<open>\<open>[a-z][a-z0-9_]*:[a-z_]+\<close> at the front, and what follows.\<close>

definition match_name_type :: "string \<Rightarrow> (string \<times> string \<times> string) option" where
  "match_name_type s =
     (let n = takeWhile name_char s; r = drop (length n) s; t = takeWhile type_char (tl r); r2 = drop (length t) (tl r)
      in if n \<noteq> [] \<and> is_lower (hd n) \<and> r \<noteq> [] \<and> hd r = CHR '':'' \<and> t \<noteq> [] then Some (n, t, r2) else None)"

text \<open>\<open>(!)?:"(.*)"$\<close> on a stripped token.\<close>

definition match_label_part :: "string \<Rightarrow> (bool \<times> string) option" where
  "match_label_part s =
     (let bang = (s \<noteq> [] \<and> hd s = CHR ''!''); r = (if bang then tl s else s); l = drop 2 r
      in if take 2 r = [CHR '':'', CHR 0x22] \<and> l \<noteq> [] \<and> last l = CHR 0x22 \<and> CHR 0x0A \<notin> set l
         then Some (bang, butlast l) else None)"

definition match_field :: "string \<Rightarrow> extraction_field option" where
  "match_field s = (case match_name_type s of None \<Rightarrow> None | Some (n, t, r) \<Rightarrow>
     map_option (\<lambda>(bang, l). \<lparr>ef_name = n, ef_type = t, ef_required = bang, ef_label = l\<rparr>) (match_label_part r))"

text \<open>One turn of the loop of \<open>_parse_fields\<close>; \<open>seen\<close> is the names in \<open>out\<close>.\<close>

definition add_field :: "extraction_field list \<Rightarrow> string \<Rightarrow> exc + extraction_field list" where
  "add_field out token =
     (if token = [] then Inr out
      else case match_field token of
        None \<Rightarrow> Inl (SpecError (''field '' @ py_repr token @ '' must be name:type[!]:\"Label Text\"''))
      | Some f \<Rightarrow>
          if \<not> name_re (ef_name f) then Inl (SpecError (''field name '' @ py_repr (ef_name f) @ '' must match [a-z][a-z0-9_]*''))
          else if ef_type f \<notin> set field_types then
            Inl (SpecError (''field '' @ py_repr (ef_name f) @ '' has unknown type '' @ py_repr (ef_type f)
              @ ''; known types: '' @ join '', '' field_types))
          else if ef_name f \<in> set (map ef_name out) then Inl (SpecError (''field '' @ py_repr (ef_name f) @ '' declared twice''))
          else Inr (out @ [f]))"

definition parse_fields :: "string \<Rightarrow> exc + extraction_field list" where
  "parse_fields raw = rfold add_field [] (map strip (split_on (CHR '','') raw))"

definition add_column :: "table_column list \<Rightarrow> string \<Rightarrow> exc + table_column list" where
  "add_column out token =
     (if token = [] then Inr out
      else case match_name_type token of
        None \<Rightarrow> Inl (SpecError (''table column '' @ py_repr token @ '' must be name:type''))
      | Some (n, t, r) \<Rightarrow>
          if r \<noteq> [] then Inl (SpecError (''table column '' @ py_repr token @ '' must be name:type''))
          else if t \<notin> set field_types then
            Inl (SpecError (''table column '' @ py_repr n @ '' has unknown type '' @ py_repr t
              @ ''; known types: '' @ join '', '' field_types))
          else if n \<in> set (map tc_name out) then Inl (SpecError (''table column '' @ py_repr n @ '' declared twice''))
          else Inr (out @ [\<lparr>tc_name = n, tc_type = t\<rparr>]))"

definition parse_table_columns :: "string \<Rightarrow> exc + table_column list" where
  "parse_table_columns raw = rfold add_column [] (map strip (split_on (CHR '','') raw))"

section \<open>parse_extraction_spec\<close>

definition spec_keys :: "string list" where
  "spec_keys = [''authority'', ''fields'', ''table_columns'', ''table_pattern'']"

definition add_spec_clause :: "(string \<times> string) list \<Rightarrow> string \<Rightarrow> exc + (string \<times> string) list" where
  "add_spec_clause clauses chunk =
     (if chunk = [] then Inr clauses
      else case partition_on (CHR ''='') chunk of (key0, sep, val) \<Rightarrow>
        let key = strip key0 in
        if \<not> sep then Inl (SpecError (''clause '' @ py_repr chunk @ '' must be key=value''))
        else if key \<notin> set spec_keys then
          Inl (SpecError (''unknown clause '' @ py_repr key @ ''; known clauses: '' @ join '', '' spec_keys))
        else if key \<in> set (map fst clauses) then Inl (SpecError (''clause '' @ py_repr key @ '' declared twice''))
        else Inr (clauses @ [(key, strip val)]))"

definition parse_table ::
  "(string \<Rightarrow> regex option) \<Rightarrow> (string \<times> string) list \<Rightarrow> exc + table_spec option" where
  "parse_table compile clauses =
     (case (map_of clauses ''table_pattern'', map_of clauses ''table_columns'') of
        (None, None) \<Rightarrow> Inr None
      | (Some p, Some c) \<Rightarrow>
          if \<not> (p \<noteq> [] \<and> hd p = CHR 0x22 \<and> last p = CHR 0x22 \<and> 2 \<le> length p)
          then Inl (SpecError ''table_pattern must be a quoted regex: table_pattern=\"...\"'')
          else (case compile (butlast (tl p)) of
              None \<Rightarrow> Inl (SpecError ''table_pattern is not a valid regex'')
            | Some rx \<Rightarrow>
                rbind (parse_table_columns c) (\<lambda>cols.
                  if cols = [] then Inl (SpecError ''table_columns must declare at least one column'')
                  else if set (rx_groups rx) \<noteq> set (map tc_name cols)
                  then Inl (SpecError ''table_pattern's named groups must exactly match table_columns'')
                  else Inr (Some \<lparr>tb_pattern = rx, tb_columns = cols\<rparr>)))
      | _ \<Rightarrow> Inl (SpecError ''table_pattern and table_columns must both be declared, or neither''))"

definition parse_extraction_spec :: "(string \<Rightarrow> regex option) \<Rightarrow> string \<Rightarrow> exc + extraction_spec" where
  "parse_extraction_spec compile raw =
     rbind (rfold add_spec_clause [] (map strip (split_on (CHR '';'') raw))) (\<lambda>clauses.
     case map_of clauses ''fields'' of
       None \<Rightarrow> Inl (SpecError ''spec must declare fields (may be empty: fields=)'')
     | Some raw_fields \<Rightarrow>
         rbind (parse_fields raw_fields) (\<lambda>fs. rbind (parse_table compile clauses) (\<lambda>t.
           Inr \<lparr>es_authority = (case map_of clauses ''authority'' of Some a \<Rightarrow> if a = [] then None else Some a | None \<Rightarrow> None),
             es_fields = fs, es_table = t\<rparr>)))"

section \<open>What a parsed spec can say\<close>

definition field_ok :: "extraction_field \<Rightarrow> bool" where
  "field_ok f \<longleftrightarrow> name_body (ef_name f) \<and> ef_type f \<in> set field_types \<and> CHR '','' \<notin> set (ef_label f) \<and> CHR '';'' \<notin> set (ef_label f)
     \<and> CHR 0x0A \<notin> set (ef_label f)"

definition table_ok :: "table_spec \<Rightarrow> bool" where
  "table_ok t \<longleftrightarrow> tb_columns t \<noteq> [] \<and> distinct (map tc_name (tb_columns t))
     \<and> set (map tc_name (tb_columns t)) = set (rx_groups (tb_pattern t)) \<and> (\<forall>c\<in>set (tb_columns t). tc_type c \<in> set field_types)"

lemma match_name_type_Some:
  "match_name_type s = Some (n, t, r) \<Longrightarrow> name_body n \<and> set n \<subseteq> set s \<and> set r \<subseteq> set s"
proof -
  assume a: "match_name_type s = Some (n, t, r)"
  then have n: "n = takeWhile name_char s" "n \<noteq> []" "is_lower (hd n)"
    and r: "\<exists>k. r = drop k (tl (drop (length n) s))" by (auto simp: match_name_type_def Let_def split: if_splits)
  have "list_all name_char n" by (auto simp: n(1) list_all_iff dest: set_takeWhileD)
  then have "name_body n" using n(2,3) by (cases n) (auto simp: name_body_def name_char_def list_all_iff)
  moreover have "set n \<subseteq> set s" by (auto simp: n(1) dest: set_takeWhileD)
  moreover have "set r \<subseteq> set s"
  proof -
    from r obtain k where "r = drop k (drop (Suc (length n)) s)" by (auto simp: drop_Suc drop_tl)
    then show ?thesis by (auto dest: in_set_dropD)
  qed
  ultimately show ?thesis by blast
qed

lemma match_label_part_Some:
  "match_label_part s = Some (b, l) \<Longrightarrow> set l \<subseteq> set s \<and> CHR 0x0A \<notin> set l"
proof -
  assume a: "match_label_part s = Some (b, l)"
  then obtain r where r: "r = s \<or> r = tl s" and l: "l = butlast (drop 2 r)" "CHR 0x0A \<notin> set (drop 2 r)"
    by (auto simp: match_label_part_def Let_def split: if_splits)
  have "set (tl s) \<subseteq> set s" by (cases s) auto
  with r have "set (drop 2 r) \<subseteq> set s" by (auto dest: in_set_dropD)
  with l show ?thesis by (auto dest: in_set_butlastD)
qed

lemma match_field_Some:
  assumes "match_field s = Some f"
  shows "name_body (ef_name f) \<and> set (ef_label f) \<subseteq> set s \<and> CHR 0x0A \<notin> set (ef_label f)"
proof -
  from assms obtain n t r b l where m: "match_name_type s = Some (n, t, r)" "match_label_part r = Some (b, l)"
    "f = \<lparr>ef_name = n, ef_type = t, ef_required = b, ef_label = l\<rparr>" by (auto simp: match_field_def split: option.splits)
  from match_name_type_Some[OF m(1)] match_label_part_Some[OF m(2)] show ?thesis by (auto simp: m(3))
qed

lemma add_fields_ok:
  assumes "rfold add_field out ts = Inr fs" "list_all field_ok out" "distinct (map ef_name out)"
    and "\<forall>t\<in>set ts. CHR '','' \<notin> set t \<and> CHR '';'' \<notin> set t"
  shows "list_all field_ok fs \<and> distinct (map ef_name fs)"
  using assms
proof (induction ts arbitrary: out)
  case (Cons t ts)
  then obtain out1 where a: "add_field out t = Inr out1" "rfold add_field out1 ts = Inr fs" by (auto simp: rbind_eq_Inr_iff)
  have "list_all field_ok out1 \<and> distinct (map ef_name out1)"
  proof (cases "t = []")
    case True
    with a(1) Cons.prems show ?thesis by (simp add: add_field_def)
  next
    case False
    with a(1) obtain f where f: "match_field t = Some f" "out1 = out @ [f]" "ef_type f \<in> set field_types"
      "ef_name f \<notin> set (map ef_name out)" by (auto simp: add_field_def split: option.splits if_splits)
    from match_field_Some[OF f(1)] Cons.prems(4) have "field_ok f" unfolding field_ok_def using f(3) by auto
    with f Cons.prems(2,3) show ?thesis by simp
  qed
  with Cons.IH[OF a(2)] Cons.prems(4) show ?case by simp
qed simp

lemma add_columns_ok:
  assumes "rfold add_column out ts = Inr cs" "\<forall>c\<in>set out. tc_type c \<in> set field_types" "distinct (map tc_name out)"
  shows "(\<forall>c\<in>set cs. tc_type c \<in> set field_types) \<and> distinct (map tc_name cs)"
  using assms
proof (induction ts arbitrary: out)
  case (Cons t ts)
  then obtain out1 where a: "add_column out t = Inr out1" "rfold add_column out1 ts = Inr cs" by (auto simp: rbind_eq_Inr_iff)
  have "(\<forall>c\<in>set out1. tc_type c \<in> set field_types) \<and> distinct (map tc_name out1)"
    using a(1) Cons.prems(2,3) by (auto simp: add_column_def split: option.splits if_splits)
  with Cons.IH[OF a(2)] show ?case by simp
qed simp

lemma spec_clauses_chars:
  assumes "rfold add_spec_clause cs ts = Inr clauses" "\<forall>(k, v)\<in>set cs. c \<notin> set v" "\<forall>t\<in>set ts. c \<notin> set t"
  shows "\<forall>(k, v)\<in>set clauses. c \<notin> set v"
  using assms
proof (induction ts arbitrary: cs)
  case (Cons t ts)
  then obtain cs1 where a: "add_spec_clause cs t = Inr cs1" "rfold add_spec_clause cs1 ts = Inr clauses" by (auto simp: rbind_eq_Inr_iff)
  obtain k s v where p: "partition_on (CHR ''='') t = (k, s, v)" by (cases "partition_on (CHR ''='') t") auto
  have "c \<notin> set (strip v)" using set_partition_on[OF p] Cons.prems(3) set_strip[of v] by auto
  then have "\<forall>(k, v)\<in>set cs1. c \<notin> set v"
    using a(1) Cons.prems(2) by (auto simp: add_spec_clause_def p Let_def split: if_splits)
  with Cons.IH[OF a(2)] Cons.prems(3) show ?case by simp
qed simp

text \<open>
  C30. What a registry cell can say. A cell that \<open>parse_extraction_spec\<close> accepts declares fields with
  well-formed, distinct names of known types, so that the label spec built from it never raises, and a
  table, if any, whose columns are exactly the groups of its pattern. It also cannot say everything:
  no label holds a comma, a semicolon or a line break, however it is quoted, because the cell is cut
  at these characters before the quotes are looked at.
\<close>

theorem accepted_spec_sound:
  assumes "parse_extraction_spec compile raw = Inr sp"
  shows "list_all field_ok (es_fields sp) \<and> distinct (map ef_name (es_fields sp))
    \<and> label_spec_of sp = Inr (map (\<lambda>f. (ef_name f, \<lparr>lf_label = ef_label f, lf_type = ef_type f, lf_required = ef_required f\<rparr>)) (es_fields sp))
    \<and> (case es_table sp of None \<Rightarrow> True | Some t \<Rightarrow> table_ok t)"
proof -
  from assms obtain clauses raw_fields where c: "rfold add_spec_clause [] (map strip (split_on (CHR '';'') raw)) = Inr clauses"
    and f: "map_of clauses ''fields'' = Some raw_fields" "parse_fields raw_fields = Inr (es_fields sp)"
    and t: "parse_table compile clauses = Inr (es_table sp)"
    by (auto simp: parse_extraction_spec_def rbind_eq_Inr_iff split: option.splits)
  have "\<forall>t\<in>set (map strip (split_on (CHR '';'') raw)). CHR '';'' \<notin> set t"
    using split_on_pieces set_strip by fastforce
  from spec_clauses_chars[OF c _ this] map_of_SomeD[OF f(1)] have "CHR '';'' \<notin> set raw_fields" by auto
  then have "\<forall>t\<in>set (map strip (split_on (CHR '','') raw_fields)). CHR '','' \<notin> set t \<and> CHR '';'' \<notin> set t"
    using split_on_pieces set_split_on set_strip by fastforce
  from add_fields_ok[OF f(2)[unfolded parse_fields_def] _ _ this]
  have fs: "list_all field_ok (es_fields sp)" "distinct (map ef_name (es_fields sp))" by simp_all
  have "list_all field_ok xs \<Longrightarrow> rmap (\<lambda>f. rbind (mk_label_field (ef_label f) (ef_type f) (ef_required f)) (\<lambda>lf. Inr (ef_name f, lf))) xs
      = Inr (map (\<lambda>f. (ef_name f, \<lparr>lf_label = ef_label f, lf_type = ef_type f, lf_required = ef_required f\<rparr>)) xs)" for xs
    by (induction xs) (simp_all add: mk_label_field_def field_ok_def)
  with fs(1) have "label_spec_of sp = Inr (map (\<lambda>f. (ef_name f, \<lparr>lf_label = ef_label f, lf_type = ef_type f, lf_required = ef_required f\<rparr>)) (es_fields sp))"
    by (simp add: label_spec_of_def)
  moreover have "case es_table sp of None \<Rightarrow> True | Some t \<Rightarrow> table_ok t"
    using t by (auto simp: parse_table_def rbind_eq_Inr_iff table_ok_def parse_table_columns_def
        dest!: add_columns_ok split: option.splits if_splits)
  ultimately show ?thesis using fs by blast
qed

definition lut_cell :: string where
  "lut_cell = ''authority=GSTN;fields=instrument_number:text!:\"LUT ARN\",valid_from:date:\"Valid From\"''"

theorem accepted_spec_sound_witness:
  "\<exists>sp. parse_extraction_spec (\<lambda>_. None) lut_cell = Inr sp
     \<and> map ef_required (es_fields sp) = [True, False] \<and> distinct (map ef_name (es_fields sp))"
proof -
  have "case parse_extraction_spec (\<lambda>_. None) lut_cell of Inr sp \<Rightarrow> map ef_required (es_fields sp) = [True, False] | Inl e \<Rightarrow> False"
    by code_simp
  then obtain sp where sp: "parse_extraction_spec (\<lambda>_. None) lut_cell = Inr sp" "map ef_required (es_fields sp) = [True, False]"
    by (cases "parse_extraction_spec (\<lambda>_. None) lut_cell") simp_all
  from accepted_spec_sound[OF sp(1)] have "distinct (map ef_name (es_fields sp))" by (rule conjunct1[OF conjunct2])
  with sp(2) have "map ef_required (es_fields sp) = [True, False] \<and> distinct (map ef_name (es_fields sp))" by (rule conjI)
  with sp(1) have "parse_extraction_spec (\<lambda>_. None) lut_cell = Inr sp
     \<and> map ef_required (es_fields sp) = [True, False] \<and> distinct (map ef_name (es_fields sp))" by (rule conjI)
  then show ?thesis by (rule exI)
qed

definition quoted_comma_cell :: string where
  "quoted_comma_cell = ''fields=amount:money!:\"Value, in INR\"''"

text \<open>A quoted label with a comma is a syntax error.\<close>

lemma quoted_comma_refused:
  "case parse_extraction_spec (\<lambda>_. None) quoted_comma_cell of Inl (SpecError _) \<Rightarrow> True | _ \<Rightarrow> False"
  by code_simp

end
