(* ===== verification/TableValue.thy ===== *)
theory TableValue
  imports ExtractionSpec
begin

text \<open>
  \<open>src/src/extraction/tablevalue.py\<close>: rows of a table that a PDF reader flattened into plain lines,
  and \<open>fiscal_year.py\<close>: the validity window of a financial year. A row is the text of a window of
  consecutive lines that the table's expression matches whole.
\<close>

type_synonym table_row = "(string \<times> field_value) list"

section \<open>Rows\<close>

definition max_window_lines :: nat where
  "max_window_lines = 8"

text \<open>
  One column of a match. A group that took no part in the match is Python's \<open>None\<close>, which
  \<open>coerce_field_value\<close> does not expect.
\<close>

definition column_value :: "(string \<times> string option) list \<Rightarrow> table_column \<Rightarrow> exc + string \<times> field_value" where
  "column_value gs c = (case map_of gs (tc_name c) of
      Some (Some raw) \<Rightarrow> map_sum id (Pair (tc_name c)) (coerce_field_value (tc_type c) raw)
    | Some None \<Rightarrow> Inl (if tc_type c = ''text'' \<or> tc_type c = ''gstin'' then AttributeError ''NoneType'' else TypeError ''NoneType'')
    | None \<Rightarrow> Inl (KeyError ''no such group''))"

definition read_columns :: "table_spec \<Rightarrow> (string \<times> string option) list \<Rightarrow> exc + table_row" where
  "read_columns ts gs = rmap (column_value gs) (tb_columns ts)"

definition coerces_cleanly :: "table_spec \<Rightarrow> (string \<times> string option) list \<Rightarrow> exc + bool" where
  "coerces_cleanly ts gs = (case read_columns ts gs of
      Inr row \<Rightarrow> Inr True | Inl (LabelValueError m) \<Rightarrow> Inr False | Inl e \<Rightarrow> Inl e)"

definition window_text :: "string list \<Rightarrow> string" where
  "window_text ws = join '' '' ws"

fun try_windows :: "table_spec \<Rightarrow> string list \<Rightarrow> nat list \<Rightarrow> exc + nat option" where
  "try_windows ts ls [] = Inr None"
| "try_windows ts ls (k # ks) =
     (case rx_fullmatch (tb_pattern ts) (window_text (take k ls)) of
        None \<Rightarrow> try_windows ts ls ks
      | Some gs \<Rightarrow> rbind (coerces_cleanly ts gs) (\<lambda>ok. if ok then Inr (Some k) else try_windows ts ls ks))"

text \<open>The lines are those from \<open>start\<close> on, and the result is the length of the window.\<close>

definition locate_row :: "table_spec \<Rightarrow> string list \<Rightarrow> exc + nat option" where
  "locate_row ts ls = try_windows ts ls [1..<Suc (min (length ls) max_window_lines)]"

lemma try_windows_mem: "try_windows ts ls ks = Inr (Some k) \<Longrightarrow> k \<in> set ks"
  by (induction ts ls ks rule: try_windows.induct) (auto simp: rbind_eq_Inr_iff split: option.splits if_splits)

lemma locate_row_bounds:
  "locate_row ts ls = Inr (Some k) \<Longrightarrow> 1 \<le> k \<and> k \<le> length ls \<and> k \<le> max_window_lines"
  unfolding locate_row_def by (drule try_windows_mem) auto

text \<open>The loop of \<open>parse_table_rows\<close> over the lines not yet read.\<close>

function table_rows :: "table_spec \<Rightarrow> string list \<Rightarrow> exc + table_row list" where
  "table_rows ts [] = Inr []"
| "table_rows ts (l # ls) =
     (case locate_row ts (l # ls) of
        Inl e \<Rightarrow> Inl e
      | Inr None \<Rightarrow> table_rows ts ls
      | Inr (Some k) \<Rightarrow>
          (case rx_fullmatch (tb_pattern ts) (window_text (take k (l # ls))) of
             None \<Rightarrow> Inl AssertionError
           | Some gs \<Rightarrow>
               (case read_columns ts gs of
                  Inr row \<Rightarrow> (case table_rows ts (drop k (l # ls)) of Inl e \<Rightarrow> Inl e | Inr rows \<Rightarrow> Inr (row # rows))
                | Inl (LabelValueError m) \<Rightarrow> table_rows ts (drop k (l # ls))
                | Inl e \<Rightarrow> Inl e)))"
  by pat_completeness auto
termination by (relation "measure (\<lambda>(ts, ls). length ls)") (auto dest: locate_row_bounds)

definition physical_lines :: "string list \<Rightarrow> string list" where
  "physical_lines pages = filter (\<lambda>l. l \<noteq> []) (map strip (splitlines (page_text pages)))"

definition parse_table_rows :: "string list \<Rightarrow> table_spec \<Rightarrow> exc + table_row list" where
  "parse_table_rows pages ts = table_rows ts (physical_lines pages)"

section \<open>Leftmost, shortest\<close>

text \<open>The row a window reads as, if it is one.\<close>

definition window_row :: "table_spec \<Rightarrow> string list \<Rightarrow> table_row option" where
  "window_row ts ws = (case rx_fullmatch (tb_pattern ts) (window_text ws) of
      None \<Rightarrow> None | Some gs \<Rightarrow> (case read_columns ts gs of Inr row \<Rightarrow> Some row | Inl e \<Rightarrow> None))"

inductive table_reading :: "table_spec \<Rightarrow> string list \<Rightarrow> table_row list \<Rightarrow> bool" for ts where
  end_of_text: "table_reading ts [] []"
| skip_line: "\<forall>k. 1 \<le> k \<and> k \<le> max_window_lines \<and> k \<le> Suc (length ls) \<longrightarrow> window_row ts (take k (l # ls)) = None
    \<Longrightarrow> table_reading ts ls rs \<Longrightarrow> table_reading ts (l # ls) rs"
| take_row: "1 \<le> k \<Longrightarrow> k \<le> max_window_lines \<Longrightarrow> k \<le> length ls \<Longrightarrow> window_row ts (take k ls) = Some r
    \<Longrightarrow> \<forall>j. 1 \<le> j \<and> j < k \<longrightarrow> window_row ts (take j ls) = None
    \<Longrightarrow> table_reading ts (drop k ls) rs \<Longrightarrow> table_reading ts ls (r # rs)"

inductive_cases table_reading_NilE: "table_reading ts [] rs"
inductive_cases table_reading_ConsE: "table_reading ts (l # ls) rs"

text \<open>Every group of the expression takes part in its matches, and no value is too large to convert.\<close>

definition only_label_errors :: "table_spec \<Rightarrow> bool" where
  "only_label_errors ts \<longleftrightarrow> (\<forall>s gs. rx_fullmatch (tb_pattern ts) s = Some gs \<longrightarrow>
     (case read_columns ts gs of Inr row \<Rightarrow> True | Inl (LabelValueError m) \<Rightarrow> True | Inl e \<Rightarrow> False))"

lemma coerces_cleanly_quiet:
  assumes "only_label_errors ts" "rx_fullmatch (tb_pattern ts) s = Some gs"
  shows "coerces_cleanly ts gs = Inr (case read_columns ts gs of Inr row \<Rightarrow> True | Inl e \<Rightarrow> False)"
proof -
  from assms have "case read_columns ts gs of Inr row \<Rightarrow> True | Inl (LabelValueError m) \<Rightarrow> True | Inl e \<Rightarrow> False"
    unfolding only_label_errors_def by blast
  then show ?thesis by (auto simp: coerces_cleanly_def split: sum.splits exc.splits)
qed

lemma try_windows_eq:
  assumes "only_label_errors ts"
  shows "try_windows ts ls ks = Inr (List.find (\<lambda>k. window_row ts (take k ls) \<noteq> None) ks)"
proof (induction ks)
  case (Cons k ks)
  show ?case
  proof (cases "rx_fullmatch (tb_pattern ts) (window_text (take k ls))")
    case None
    with Cons show ?thesis by (simp add: window_row_def)
  next
    case (Some gs)
    with Cons coerces_cleanly_quiet[OF assms Some] show ?thesis by (simp add: window_row_def split: sum.split)
  qed
qed simp

lemma find_upt_None: "List.find P [a..<b] = None \<longleftrightarrow> (\<forall>k. a \<le> k \<and> k < b \<longrightarrow> \<not> P k)"
  by (auto simp: find_None_iff)

lemma find_upt_Some: "List.find P [a..<b] = Some k \<longleftrightarrow> a \<le> k \<and> k < b \<and> P k \<and> (\<forall>j. a \<le> j \<and> j < k \<longrightarrow> \<not> P j)"
proof
  assume "List.find P [a..<b] = Some k"
  then obtain i where i: "i < length [a..<b]" "P ([a..<b] ! i)" "k = [a..<b] ! i" "\<forall>j<i. \<not> P ([a..<b] ! j)"
    by (auto simp: find_Some_iff)
  then have k: "k = a + i" "a + i < b" by auto
  have "\<not> P j" if "a \<le> j" "j < k" for j
  proof -
    from that k have "j - a < i" by simp
    with i(4) have "\<not> P ([a..<b] ! (j - a))" by blast
    with that k show ?thesis by simp
  qed
  with i k show "a \<le> k \<and> k < b \<and> P k \<and> (\<forall>j. a \<le> j \<and> j < k \<longrightarrow> \<not> P j)" by auto
next
  assume a: "a \<le> k \<and> k < b \<and> P k \<and> (\<forall>j. a \<le> j \<and> j < k \<longrightarrow> \<not> P j)"
  then show "List.find P [a..<b] = Some k"
    unfolding find_Some_iff by (intro exI[of _ "k - a"]) auto
qed

lemma locate_row_None:
  assumes "only_label_errors ts"
  shows "locate_row ts ls = Inr None \<longleftrightarrow> (\<forall>k. 1 \<le> k \<and> k \<le> max_window_lines \<and> k \<le> length ls \<longrightarrow> window_row ts (take k ls) = None)"
  unfolding locate_row_def try_windows_eq[OF assms] sum.inject find_upt_None by auto

lemma locate_row_Some:
  assumes "only_label_errors ts"
  shows "locate_row ts ls = Inr (Some k) \<longleftrightarrow> 1 \<le> k \<and> k \<le> max_window_lines \<and> k \<le> length ls
    \<and> window_row ts (take k ls) \<noteq> None \<and> (\<forall>j. 1 \<le> j \<and> j < k \<longrightarrow> window_row ts (take j ls) = None)"
  unfolding locate_row_def try_windows_eq[OF assms] sum.inject find_upt_Some by auto

text \<open>The loop, over what a window reads as.\<close>

lemma table_rows_eq:
  assumes q: "only_label_errors ts"
  shows "table_rows ts ls = Inr rs \<longleftrightarrow> table_reading ts ls rs"
proof (induction "length ls" arbitrary: ls rs rule: less_induct)
  case less
  show ?case
  proof (cases ls)
    case Nil
    then show ?thesis by (auto intro: end_of_text elim: table_reading_NilE)
  next
    case (Cons l ls')
    show ?thesis
    proof (cases "locate_row ts ls")
      case (Inl e)
      then show ?thesis by (simp add: locate_row_def try_windows_eq[OF q])
    next
      case (Inr w)
      show ?thesis
      proof (cases w)
        case None
        have n: "\<forall>k. 1 \<le> k \<and> k \<le> max_window_lines \<and> k \<le> Suc (length ls') \<longrightarrow> window_row ts (take k (l # ls')) = None"
          using locate_row_None[OF q, of ls] Inr None Cons by simp
        have "table_rows ts ls = table_rows ts ls'" using Inr None Cons by simp
        moreover have "table_rows ts ls' = Inr rs \<longleftrightarrow> table_reading ts ls' rs" using less[of ls'] Cons by simp
        moreover have "table_reading ts ls rs \<longleftrightarrow> table_reading ts ls' rs"
          unfolding Cons using n by (auto intro: skip_line elim!: table_reading_ConsE)
        ultimately show ?thesis by simp
      next
        case (Some k)
        note k = iffD1[OF locate_row_Some[OF q] Inr[unfolded Some]]
        then obtain r where r: "window_row ts (take k ls) = Some r" by blast
        then obtain gs where g: "rx_fullmatch (tb_pattern ts) (window_text (take k ls)) = Some gs" "read_columns ts gs = Inr r"
          by (auto simp: window_row_def split: option.splits sum.splits)
        have e: "table_rows ts ls = (case table_rows ts (drop k ls) of Inl e \<Rightarrow> Inl e | Inr rows \<Rightarrow> Inr (r # rows))"
          using Inr Some Cons g by simp
        have ih: "table_rows ts (drop k ls) = Inr us \<longleftrightarrow> table_reading ts (drop k ls) us" for us
          using less[of "drop k ls"] k Cons by simp
        have "table_reading ts ls rs \<longleftrightarrow> (\<exists>us. rs = r # us \<and> table_reading ts (drop k ls) us)"
        proof
          assume "table_reading ts ls rs"
          then show "\<exists>us. rs = r # us \<and> table_reading ts (drop k ls) us"
          proof cases
            case end_of_text then show ?thesis using Cons by simp
          next
            case (skip_line ls2 l2)
            with k r show ?thesis by (metis length_Cons option.distinct(1))
          next
            case (take_row j s us)
            then have "j = k" using k r by (metis linorder_neqE_nat option.distinct(1))
            with take_row r show ?thesis by simp
          qed
        next
          assume "\<exists>us. rs = r # us \<and> table_reading ts (drop k ls) us"
          then obtain us where us: "rs = r # us" "table_reading ts (drop k ls) us" by blast
          from k have "1 \<le> k" "k \<le> max_window_lines" "k \<le> length ls"
            and j: "\<forall>j. 1 \<le> j \<and> j < k \<longrightarrow> window_row ts (take j ls) = None" by simp_all
          from take_row[OF this(1-3) r j us(2)] show "table_reading ts ls rs" by (simp add: us(1))
        qed
        moreover have "table_rows ts ls = Inr rs \<longleftrightarrow> (\<exists>us. rs = r # us \<and> table_rows ts (drop k ls) = Inr us)"
          unfolding e by (cases "table_rows ts (drop k ls)") auto
        ultimately show ?thesis by (simp add: ih)
      qed
    qed
  qed
qed

lemma table_rows_total:
  assumes q: "only_label_errors ts"
  shows "\<exists>rs. table_rows ts ls = Inr rs"
proof (induction "length ls" arbitrary: ls rule: less_induct)
  case less
  show ?case
  proof (cases ls)
    case (Cons l ls')
    have ih: "\<exists>rs. table_rows ts us = Inr rs" if "length us < length ls" for us using less that by blast
    obtain w where w: "locate_row ts ls = Inr w" by (simp add: locate_row_def try_windows_eq[OF q])
    show ?thesis
    proof (cases w)
      case None
      with w Cons ih[of ls'] show ?thesis by simp
    next
      case (Some k)
      note k = iffD1[OF locate_row_Some[OF q] w[unfolded Some]]
      then obtain gs r where g: "rx_fullmatch (tb_pattern ts) (window_text (take k ls)) = Some gs" "read_columns ts gs = Inr r"
        by (auto simp: window_row_def split: option.splits sum.splits)
      from ih[of "drop k ls"] k Cons obtain us where "table_rows ts (drop k ls) = Inr us" by auto
      with w Some Cons g show ?thesis by simp
    qed
  qed simp
qed

lemma read_columns_names: "read_columns ts gs = Inr row \<Longrightarrow> map fst row = map tc_name (tb_columns ts)"
proof -
  have "rmap (column_value gs) cs = Inr row \<Longrightarrow> map fst row = map tc_name cs" for cs row
  proof (induction cs arbitrary: row)
    case (Cons c cs)
    then obtain x row' where x: "column_value gs c = Inr x" "rmap (column_value gs) cs = Inr row'" "row = x # row'"
      by (auto simp: rbind_eq_Inr_iff)
    from x(1) have "fst x = tc_name c" by (auto simp: column_value_def map_sum_def split: option.splits sum.splits)
    with x Cons.IH show ?case by simp
  qed simp
  then show "read_columns ts gs = Inr row \<Longrightarrow> map fst row = map tc_name (tb_columns ts)" by (simp add: read_columns_def)
qed

lemma table_reading_rows:
  "table_reading ts ls rs \<Longrightarrow> length rs \<le> length ls \<and> (\<forall>r\<in>set rs. map fst r = map tc_name (tb_columns ts))"
  by (induction rule: table_reading.induct)
    (auto simp: window_row_def dest: read_columns_names split: option.splits sum.splits)

text \<open>
  C29. How a flattened table is read. Unless a value is too large to convert, the parser always
  answers, and its rows are the leftmost, shortest reading of the lines: from the first line on, the
  shortest window of at most eight lines that matches and coerces is a row and is used up; a line
  from which no window reads is left out. So no line is part of two rows, no row is made up of lines
  that are not consecutive, and every row has the columns of the spec, in their order.
\<close>

theorem table_read_leftmost_shortest:
  assumes "only_label_errors ts"
  shows "(parse_table_rows pages ts = Inr rs \<longleftrightarrow> table_reading ts (physical_lines pages) rs)
    \<and> (\<exists>us. parse_table_rows pages ts = Inr us \<and> length us \<le> length (physical_lines pages)
         \<and> map (map fst) us = replicate (length us) (map tc_name (tb_columns ts)))"
proof -
  obtain us where us: "parse_table_rows pages ts = Inr us"
    using table_rows_total[OF assms] unfolding parse_table_rows_def by blast
  then have "table_reading ts (physical_lines pages) us" unfolding parse_table_rows_def table_rows_eq[OF assms] .
  note r = table_reading_rows[OF this]
  then have "map (map fst) us = replicate (length us) (map tc_name (tb_columns ts))"
    by (intro replicate_eqI) auto
  with us r show ?thesis unfolding parse_table_rows_def table_rows_eq[OF assms] by blast
qed

definition demo_regex :: regex where
  "demo_regex = \<lparr>rx_groups = [''name'', ''din''], rx_fullmatch = (\<lambda>s.
     let n = takeWhile (\<lambda>c. \<not> is_digit c) s; d = drop (length n) s in
     if n \<noteq> [] \<and> all_digits 8 d then Some [(''name'', Some n), (''din'', Some d)] else None)\<rparr>"

definition demo_table :: table_spec where
  "demo_table = \<lparr>tb_pattern = demo_regex, tb_columns = [\<lparr>tc_name = ''name'', tc_type = ''text''\<rparr>, \<lparr>tc_name = ''din'', tc_type = ''text''\<rparr>]\<rparr>"

definition demo_page :: string where
  "demo_page = ''DIN 2025'' @ [CHR 0x0A] @ ''Arvind Rao'' @ [CHR 0x0A] @ ''Deshmukh 01234567'' @ [CHR 0x0A] @ ''Meera Rao 07654321''"

definition demo_rows :: "table_row list" where
  "demo_rows = [[(''name'', FText ''Arvind Rao Deshmukh''), (''din'', FText ''01234567'')],
     [(''name'', FText ''Meera Rao''), (''din'', FText ''07654321'')]]"

lemma demo_table_quiet: "only_label_errors demo_table"
  by (auto simp: only_label_errors_def demo_table_def demo_regex_def Let_def read_columns_def column_value_def
      coerce_field_value_def split: if_splits)

theorem table_read_leftmost_shortest_witness:
  "parse_table_rows [demo_page] demo_table = Inr demo_rows \<and> table_reading demo_table (physical_lines [demo_page]) demo_rows"
proof -
  have r: "parse_table_rows [demo_page] demo_table = Inr demo_rows" by code_simp
  with table_read_leftmost_shortest[OF demo_table_quiet, of "[demo_page]" demo_rows] show ?thesis by simp
qed

section \<open>Financial years\<close>

definition fy_containing :: "date \<Rightarrow> nat \<Rightarrow> nat \<times> nat" where
  "fy_containing as_of start_month =
     (let y = (if start_month \<le> dmonth as_of then dyear as_of else dyear as_of - 1) in (y, y + 1))"

definition fy_bounds :: "nat \<Rightarrow> nat \<Rightarrow> nat \<Rightarrow> exc + date \<times> date" where
  "fy_bounds start_year end_year start_month =
     (case mk_date start_year start_month 1 of None \<Rightarrow> Inl (ValueError ''date'') | Some a \<Rightarrow>
     (case mk_date end_year start_month 1 of None \<Rightarrow> Inl (ValueError ''date'') | Some b \<Rightarrow> Inr (a, prev_day b)))"

lemma before_first_of_month:
  assumes "valid_date d" "d < Date y m 1" "1 \<le> m"
  shows "d \<le> prev_day (Date y m 1)"
proof -
  obtain y0 m0 d0 where d: "d = Date y0 m0 d0" by (cases d) auto
  have "d0 \<le> 31" "1 \<le> m0" "m0 \<le> 12" "1 \<le> d0" "d0 \<le> days_in_month y0 m0"
    using assms(1) by (auto simp: d valid_date_def days_in_month_def split: if_splits)
  moreover have "y0 < y \<or> (y0 = y \<and> m0 < m)" using assms(2) \<open>1 \<le> d0\<close> by (auto simp: d date_order_defs)
  moreover have "m0 = m - 1 \<or> m0 < m - 1" if "m0 < m" using that by auto
  ultimately show ?thesis using assms(3) by (auto simp: d date_order_defs prev_day_def)
qed

text \<open>
  The two windows of a shareholding table. Whatever month the financial year starts in, the date of
  the document lies in the first window, the second ends on the day before the first begins, and both
  are whole years.
\<close>

theorem fiscal_windows_adjacent:
  assumes "valid_date d" "3 \<le> dyear d" "dyear d < 9999" "1 \<le> m" "m \<le> 12"
  shows "case fy_containing d m of (s, e) \<Rightarrow>
    \<exists>a b a'. fy_bounds s e m = Inr (a, b) \<and> a \<le> d \<and> d \<le> b
      \<and> fy_bounds (s - 1) (e - 1) m = Inr (a', prev_day a) \<and> a' < a \<and> dmonth a = m \<and> dday a = 1"
proof -
  obtain s where s: "fy_containing d m = (s, s + 1)" "s = (if m \<le> dmonth d then dyear d else dyear d - 1)"
    by (simp add: fy_containing_def Let_def)
  have v: "valid_date (Date y m 1)" if "1 \<le> y" "y \<le> 9999" for y
    using that assms(4,5) by (simp add: valid_date_def days_in_month_def)
  have dd: "1 \<le> dday d" using assms(1) by (simp add: valid_date_def)
  have "1 \<le> s - 1" "s + 1 \<le> 9999" using s(2) assms(2,3) by (auto split: if_splits)
  then have m: "mk_date s m 1 = Some (Date s m 1)" "mk_date (s + 1) m 1 = Some (Date (s + 1) m 1)"
    "mk_date (s - 1) m 1 = Some (Date (s - 1) m 1)" using v by (simp_all add: mk_date_def)
  have "Date s m 1 \<le> d" "d < Date (s + 1) m 1" "Date (s - 1) m 1 < Date s m 1"
    using s(2) dd assms(2) \<open>1 \<le> s - 1\<close> by (auto simp: date_order_defs split: if_splits)
  moreover from before_first_of_month[OF assms(1) this(2) assms(4)] have "d \<le> prev_day (Date (s + 1) m 1)" .
  ultimately show ?thesis using m \<open>1 \<le> s - 1\<close> by (simp add: s(1) fy_bounds_def)
qed

theorem fiscal_windows_adjacent_witness:
  "fy_containing (Date 2025 3 31) 4 = (2024, 2025)
    \<and> (\<exists>a b. fy_bounds 2024 2025 4 = Inr (a, b) \<and> a \<le> Date 2025 3 31 \<and> Date 2025 3 31 \<le> b)"
  using fiscal_windows_adjacent[of "Date 2025 3 31" 4]
  by (auto simp: fy_containing_def valid_date_def days_in_month_def)

end
