(* ===== verification/TenantDb.thy ===== *)
theory TenantDb
  imports SalesStore RegisterStore Promote Gstr2b Gstr3b FactTables
begin

text \<open>
  All the tables of one tenant's Silver schema in one record, and each loader as an operation on it.
  The promotion of transaction documents works on the record as it is; the other loaders see the tables
  all loaders share and their own, and what they leave goes back in its place.
\<close>

record silver_tables = promote_db +
  td_registers :: "(string \<times> reg_version list) list"
  td_sales :: "sales_row version list"
  td_sales_lines :: "(nat \<times> sales_line) list"
  td_gstr_2b :: "(g2_header, g2_detail) statement_tables"
  td_gstr_3b :: "(g3_header, g3_detail) statement_tables"
  td_instruments :: "instrument_record filed list"
  td_events :: "proceeding_record filed list"
  td_masters :: "master_record filed list"
  td_statements :: "financial_record filed list"
  td_contracts :: "contract_record filed list"
  td_fact_lines :: "(string \<times> fact_line list) list"

definition put_core :: "'a silver_core_scheme \<Rightarrow> silver_tables \<Rightarrow> silver_tables" where
  "put_core c db = db\<lparr>batches := batches c, quarantined := quarantined c, rejected_rows := rejected_rows c\<rparr>"

definition on_registers :: "(register_db \<Rightarrow> 'r \<times> register_db) \<Rightarrow> silver_tables \<Rightarrow> 'r \<times> silver_tables" where
  "on_registers f db =
     (case f \<lparr>batches = batches db, quarantined = quarantined db, rejected_rows = rejected_rows db, reg_tables = td_registers db\<rparr>
      of (r, d) \<Rightarrow> (r, (put_core d db)\<lparr>td_registers := reg_tables d\<rparr>))"

definition on_sales :: "(sales_db \<Rightarrow> 'r \<times> sales_db) \<Rightarrow> silver_tables \<Rightarrow> 'r \<times> silver_tables" where
  "on_sales f db =
     (case f \<lparr>batches = batches db, quarantined = quarantined db, rejected_rows = rejected_rows db,
        sales_register = td_sales db, sales_register_line = td_sales_lines db\<rparr>
      of (r, d) \<Rightarrow> (r, (put_core d db)\<lparr>td_sales := sales_register d, td_sales_lines := sales_register_line d\<rparr>))"

definition on_gstr_2b ::
  "((g2_header, g2_detail) statement_db \<Rightarrow> 'r \<times> (g2_header, g2_detail) statement_db) \<Rightarrow> silver_tables \<Rightarrow> 'r \<times> silver_tables" where
  "on_gstr_2b f db =
     (case f \<lparr>batches = batches db, quarantined = quarantined db, rejected_rows = rejected_rows db,
        headers = fst (td_gstr_2b db), details = snd (td_gstr_2b db)\<rparr>
      of (r, d) \<Rightarrow> (r, (put_core d db)\<lparr>td_gstr_2b := (headers d, details d)\<rparr>))"

definition on_gstr_3b ::
  "((g3_header, g3_detail) statement_db \<Rightarrow> 'r \<times> (g3_header, g3_detail) statement_db) \<Rightarrow> silver_tables \<Rightarrow> 'r \<times> silver_tables" where
  "on_gstr_3b f db =
     (case f \<lparr>batches = batches db, quarantined = quarantined db, rejected_rows = rejected_rows db,
        headers = fst (td_gstr_3b db), details = snd (td_gstr_3b db)\<rparr>
      of (r, d) \<Rightarrow> (r, (put_core d db)\<lparr>td_gstr_3b := (headers d, details d)\<rparr>))"

definition fact_lines_of :: "string \<Rightarrow> silver_tables \<Rightarrow> fact_line list" where
  "fact_lines_of tb db = (case map_of (td_fact_lines db) tb of Some ls \<Rightarrow> ls | None \<Rightarrow> [])"

definition put_fact_lines :: "string \<Rightarrow> fact_line list \<Rightarrow> silver_tables \<Rightarrow> silver_tables" where
  "put_fact_lines tb ls db = db\<lparr>td_fact_lines := dict_put tb ls (td_fact_lines db)\<rparr>"

lemma fact_lines_put [simp]: "fact_lines_of t (put_fact_lines tb ls db) = (if t = tb then ls else fact_lines_of t db)"
  by (simp add: fact_lines_of_def put_fact_lines_def)

lemma put_core_simps [simp]:
  "batches (put_core c db) = batches c" "quarantined (put_core c db) = quarantined c" "rejected_rows (put_core c db) = rejected_rows c"
  by (simp_all add: put_core_def)

text \<open>What the status page says depends on the shared tables only.\<close>

lemma views_core:
  "on_registers f db = (r, db') \<Longrightarrow> \<exists>d. f \<lparr>batches = batches db, quarantined = quarantined db, rejected_rows = rejected_rows db, reg_tables = td_registers db\<rparr> = (r, d)
     \<and> batches db' = batches d \<and> quarantined db' = quarantined d \<and> rejected_rows db' = rejected_rows d"
  by (auto simp: on_registers_def split: prod.splits)

definition empty_tables :: silver_tables where
  "empty_tables = \<lparr>batches = [], quarantined = [], rejected_rows = [], transaction_document = [], transaction_line = [],
     td_registers = [], td_sales = [], td_sales_lines = [], td_gstr_2b = ([], []), td_gstr_3b = ([], []), td_instruments = [],
     td_events = [], td_masters = [], td_statements = [], td_contracts = [], td_fact_lines = []\<rparr>"

end
