(* ===== verification/CsvWrite.thy ===== *)
theory CsvWrite
  imports Csv
begin

text \<open>
  \<open>csv.DictWriter(buf, fieldnames=...)\<close> under the default dialect, as the extractors of
  \<open>src/src/extraction/base.py\<close> use it to hand rows to the CSV loaders: lines end in carriage return
  and newline, and a cell is quoted when it holds a comma, a quote or a line break.
\<close>

fun doubled :: "string \<Rightarrow> string" where
  "doubled [] = []"
| "doubled (c # r) = (if c = CHR 0x22 then [c, c] else [c]) @ doubled r"

definition write_cell :: "string \<Rightarrow> string" where
  "write_cell s = (if plain s then s else CHR 0x22 # doubled s @ [CHR 0x22])"

text \<open>A record of one empty cell is written with quotes, so that it is not a blank line.\<close>

definition write_record :: "string list \<Rightarrow> string" where
  "write_record cs = (if cs = [[]] then [CHR 0x22, CHR 0x22] else join '','' (map write_cell cs)) @ [CHR 0x0D, CHR 0x0A]"

definition csv_write :: "string list list \<Rightarrow> string" where
  "csv_write rs = concat (map write_record rs)"

section \<open>Reading it back\<close>

declare lines_of.simps(2) [simp del]

definition writable :: "string list \<Rightarrow> bool" where
  "writable r \<longleftrightarrow> r \<noteq> [] \<and> (\<forall>c\<in>set r. length c \<le> field_limit)"

lemma lines_of_Cons: "c \<noteq> CHR 0x0A \<Longrightarrow> u \<noteq> [] \<Longrightarrow> \<exists>l ls. lines_of u = l # ls \<and> lines_of (c # u) = (c # l) # ls"
  by (cases u) (auto simp: lines_of.simps(2) split: list.splits)

lemma lines_of_newline: "lines_of (CHR 0x0A # u) = [CHR 0x0A] # lines_of u"
  by (simp add: lines_of.simps(2))

text \<open>A character inside a line only moves the machine.\<close>

lemma csv_records_char:
  assumes "c \<noteq> CHR 0x0A" "u \<noteq> []" "csv_char st (Some c) = Inr s"
  shows "csv_records st (lines_of (c # u)) = csv_records s (lines_of u)"
proof -
  from lines_of_Cons[OF assms(1,2)] obtain l ls where l: "lines_of u = l # ls" "lines_of (c # u) = (c # l) # ls" by blast
  have "csv_line st (c # l) = csv_line s l" by (simp add: csv_line_def assms(3) del: csv_char.simps)
  then show ?thesis by (simp add: l del: csv_char.simps)
qed

lemma csv_records_newline:
  assumes "csv_char st (Some (CHR 0x0A)) = Inr s" "csv_char s None = Inr s'" "csv_mode_of s' \<noteq> StartRecord"
  shows "csv_records st (lines_of (CHR 0x0A # u)) = csv_records s' (lines_of u)"
  using assms by (simp add: csv_line_def lines_of_newline del: csv_char.simps)

lemma csv_records_end:
  assumes "csv_mode_of st \<in> {InField, QuoteInQuoted, StartField}"
  shows "csv_records st (lines_of (CHR 0x0D # CHR 0x0A # u))
    = (case csv_records csv_init (lines_of u) of (rs, e) \<Rightarrow> ((done_cells st @ [cur_cell st]) # rs, e))"
  using assms by (auto simp: csv_line_def save_field_def is_eol_def after_eol_def start_field_def lines_of.simps(2))

lemma csv_records_quoted:
  assumes "csv_mode_of st = InQuoted" "length (cur_cell st) + length s \<le> field_limit" "u \<noteq> []"
  shows "csv_records st (lines_of (doubled s @ u)) = csv_records (st\<lparr>cur_cell := cur_cell st @ s\<rparr>) (lines_of u)"
  using assms
proof (induction s arbitrary: st)
  case (Cons c s)
  let ?st = "st\<lparr>cur_cell := cur_cell st @ [c]\<rparr>"
  have ih: "csv_records ?st (lines_of (doubled s @ u)) = csv_records (st\<lparr>cur_cell := cur_cell st @ c # s\<rparr>) (lines_of u)"
    using Cons.IH[of ?st] Cons.prems by simp
  have ne: "doubled s @ u \<noteq> []" using Cons.prems(3) by simp
  show ?case
  proof (cases "c = CHR 0x22")
    case True
    have 1: "csv_char st (Some c) = Inr (st\<lparr>csv_mode_of := QuoteInQuoted\<rparr>)" using Cons.prems True by simp
    have 2: "csv_char (st\<lparr>csv_mode_of := QuoteInQuoted\<rparr>) (Some c) = Inr ?st"
      using Cons.prems True by (cases st) (simp add: add_char_def)
    have "csv_records st (lines_of (c # (c # doubled s @ u))) = csv_records (st\<lparr>csv_mode_of := QuoteInQuoted\<rparr>) (lines_of (c # doubled s @ u))"
      by (rule csv_records_char[OF _ _ 1]) (simp_all add: True)
    also have "\<dots> = csv_records ?st (lines_of (doubled s @ u))" by (rule csv_records_char[OF _ ne 2]) (simp add: True)
    finally have "csv_records st (lines_of (c # c # doubled s @ u)) = csv_records ?st (lines_of (doubled s @ u))" .
    with ih True show ?thesis by simp
  next
    case False
    have 1: "csv_char st (Some c) = Inr ?st"
      using Cons.prems False by (cases st) (simp add: add_char_def)
    show ?thesis
    proof (cases "c = CHR 0x0A")
      case True
      have "csv_char ?st None = Inr ?st" "csv_mode_of ?st \<noteq> StartRecord" using Cons.prems(1) by simp_all
      from csv_records_newline[OF 1[unfolded True] this[unfolded True]] ih True show ?thesis by simp
    next
      case nl: False
      from csv_records_char[OF nl ne 1] ih False show ?thesis by simp
    qed
  qed
qed simp

lemma csv_records_in_field:
  assumes "plain s" "csv_mode_of st = InField" "length (cur_cell st) + length s \<le> field_limit" "u \<noteq> []"
  shows "csv_records st (lines_of (s @ u)) = csv_records (st\<lparr>cur_cell := cur_cell st @ s\<rparr>) (lines_of u)"
  using assms
proof (induction s arbitrary: st)
  case (Cons c s)
  have c: "c \<noteq> CHR 0x0A" "csv_char st (Some c) = Inr (st\<lparr>cur_cell := cur_cell st @ [c]\<rparr>)"
    using Cons.prems by (auto simp: plain_def is_eol_def add_char_def)
  have "csv_records st (lines_of (c # (s @ u))) = csv_records (st\<lparr>cur_cell := cur_cell st @ [c]\<rparr>) (lines_of (s @ u))"
    by (rule csv_records_char[OF c(1) _ c(2)]) (simp add: Cons.prems(4))
  with Cons.IH[of "st\<lparr>cur_cell := cur_cell st @ [c]\<rparr>"] Cons.prems show ?case by (simp add: plain_def)
qed simp

text \<open>At the start of a field, a written cell leaves the machine with the cell read, ready for a comma or the end.\<close>

lemma csv_records_cell:
  assumes m: "csv_mode_of st = StartField \<or> (csv_mode_of st = StartRecord \<and> s \<noteq> [])"
    and c: "cur_cell st = []" and l: "length s \<le> field_limit" and u: "u \<noteq> []"
  shows "\<exists>m'. csv_records st (lines_of (write_cell s @ u))
      = csv_records (st\<lparr>csv_mode_of := m', cur_cell := s\<rparr>) (lines_of u)
    \<and> m' \<in> {InField, QuoteInQuoted, StartField}"
proof (cases "plain s")
  case p: True
  show ?thesis
  proof (cases s)
    case Nil
    then have "csv_records st (lines_of (write_cell s @ u)) = csv_records (st\<lparr>csv_mode_of := StartField, cur_cell := s\<rparr>) (lines_of u)"
      using m c p by (cases st) (simp add: write_cell_def)
    then show ?thesis by blast
  next
    case (Cons x s')
    let ?st = "st\<lparr>csv_mode_of := InField, cur_cell := [x]\<rparr>"
    have x: "x \<noteq> CHR 0x0A" "csv_char st (Some x) = Inr ?st"
      using p m c by (auto simp: Cons plain_def is_eol_def add_char_def start_field_def field_limit_def)
    have "csv_records st (lines_of (x # (s' @ u))) = csv_records ?st (lines_of (s' @ u))"
      by (rule csv_records_char[OF x(1) _ x(2)]) (simp add: u)
    also have "\<dots> = csv_records (st\<lparr>csv_mode_of := InField, cur_cell := s\<rparr>) (lines_of u)"
      using csv_records_in_field[of s' ?st u] p l u by (simp add: Cons plain_def)
    finally show ?thesis using p by (auto simp: write_cell_def Cons)
  qed
next
  case False
  let ?st = "st\<lparr>csv_mode_of := InQuoted\<rparr>"
  have x: "csv_char st (Some (CHR 0x22)) = Inr ?st" using m by (auto simp: is_eol_def start_field_def)
  have y: "csv_char (st\<lparr>csv_mode_of := InQuoted, cur_cell := s\<rparr>) (Some (CHR 0x22))
      = Inr (st\<lparr>csv_mode_of := QuoteInQuoted, cur_cell := s\<rparr>)" by simp
  have "csv_records st (lines_of (CHR 0x22 # (doubled s @ CHR 0x22 # u))) = csv_records ?st (lines_of (doubled s @ CHR 0x22 # u))"
    by (rule csv_records_char[OF _ _ x]) simp_all
  also have "\<dots> = csv_records (st\<lparr>csv_mode_of := InQuoted, cur_cell := s\<rparr>) (lines_of (CHR 0x22 # u))"
    using csv_records_quoted[of ?st s "CHR 0x22 # u"] c l by simp
  also have "\<dots> = csv_records (st\<lparr>csv_mode_of := QuoteInQuoted, cur_cell := s\<rparr>) (lines_of u)"
    by (rule csv_records_char[OF _ u y]) simp
  finally show ?thesis using False by (auto simp: write_cell_def)
qed

lemma csv_records_comma:
  assumes "csv_mode_of st \<in> {InField, QuoteInQuoted, StartField}" "u \<noteq> []"
  shows "csv_records st (lines_of (CHR '','' # u))
    = csv_records (st\<lparr>csv_mode_of := StartField, cur_cell := [], done_cells := done_cells st @ [cur_cell st]\<rparr>) (lines_of u)"
  by (rule csv_records_char[OF _ assms(2)]) (use assms(1) in \<open>auto simp: save_field_def start_field_def is_eol_def\<close>)

lemma csv_records_cells:
  assumes "cs \<noteq> []" "csv_mode_of st = StartField" "cur_cell st = []" "\<forall>c\<in>set cs. length c \<le> field_limit"
  shows "csv_records st (lines_of (join '','' (map write_cell cs) @ CHR 0x0D # CHR 0x0A # u))
    = (case csv_records csv_init (lines_of u) of (rs, e) \<Rightarrow> ((done_cells st @ cs) # rs, e))"
  using assms
proof (induction cs arbitrary: st)
  case (Cons c cs)
  show ?case
  proof (cases cs)
    case Nil
    from csv_records_cell[of st c "CHR 0x0D # CHR 0x0A # u"] Cons.prems obtain m where
      m: "csv_records st (lines_of (write_cell c @ CHR 0x0D # CHR 0x0A # u)) = csv_records (st\<lparr>csv_mode_of := m, cur_cell := c\<rparr>) (lines_of (CHR 0x0D # CHR 0x0A # u))"
      "m \<in> {InField, QuoteInQuoted, StartField}" by auto
    with csv_records_end[of "st\<lparr>csv_mode_of := m, cur_cell := c\<rparr>" u] show ?thesis by (simp add: Nil del: csv_records.simps)
  next
    case (Cons d ds)
    let ?u = "join '','' (map write_cell cs) @ CHR 0x0D # CHR 0x0A # u"
    from csv_records_cell[of st c "CHR '','' # ?u"] Cons.prems obtain m where
      m: "csv_records st (lines_of (write_cell c @ CHR '','' # ?u)) = csv_records (st\<lparr>csv_mode_of := m, cur_cell := c\<rparr>) (lines_of (CHR '','' # ?u))"
      "m \<in> {InField, QuoteInQuoted, StartField}" by auto
    let ?st = "st\<lparr>csv_mode_of := StartField, cur_cell := [], done_cells := done_cells st @ [c]\<rparr>"
    have "csv_records (st\<lparr>csv_mode_of := m, cur_cell := c\<rparr>) (lines_of (CHR '','' # ?u)) = csv_records ?st (lines_of ?u)"
      using csv_records_comma[of "st\<lparr>csv_mode_of := m, cur_cell := c\<rparr>" ?u] m(2) by simp
    also have "\<dots> = (case csv_records csv_init (lines_of u) of (rs, e) \<Rightarrow> ((done_cells st @ c # cs) # rs, e))"
      using Cons.IH[of ?st] Cons.prems Cons by (simp del: csv_records.simps)
    finally show ?thesis using m(1) Cons by (simp del: csv_records.simps)
  qed
qed simp

text \<open>The first cell is read at the start of the record, which differs only for a line break.\<close>

lemma csv_records_first:
  assumes "c \<noteq> CHR 0x0A" "c \<noteq> CHR 0x0D" "u \<noteq> []"
  shows "csv_records csv_init (lines_of (c # u)) = csv_records (csv_init\<lparr>csv_mode_of := StartField\<rparr>) (lines_of (c # u))"
proof -
  from lines_of_Cons[OF assms(1,3)] obtain l ls where l: "lines_of (c # u) = (c # l) # ls" by blast
  have "csv_char csv_init (Some c) = csv_char (csv_init\<lparr>csv_mode_of := StartField\<rparr>) (Some c)"
    using assms(1,2) by (simp add: csv_init_def is_eol_def)
  then have "csv_line csv_init (c # l) = csv_line (csv_init\<lparr>csv_mode_of := StartField\<rparr>) (c # l)"
    by (simp add: csv_line_def del: csv_char.simps)
  then show ?thesis by (simp add: l)
qed

lemma write_cell_head: "write_cell c \<noteq> [] \<Longrightarrow> hd (write_cell c) \<noteq> CHR 0x0A \<and> hd (write_cell c) \<noteq> CHR 0x0D"
  by (cases c) (auto simp: write_cell_def plain_def)

lemma record_head:
  assumes "cs \<noteq> []" "cs \<noteq> [[]]"
  shows "\<exists>x r. join '','' (map write_cell cs) = x # r \<and> x \<noteq> CHR 0x0A \<and> x \<noteq> CHR 0x0D"
proof -
  obtain c ds where cs: "cs = c # ds" using assms(1) by (cases cs) auto
  show ?thesis
  proof (cases "write_cell c")
    case Nil
    then have "c = []" by (auto simp: write_cell_def split: if_splits)
    with assms cs Nil show ?thesis by (cases ds) auto
  next
    case (Cons x r)
    with write_cell_head[of c] cs show ?thesis by (cases ds) auto
  qed
qed

lemma csv_records_record:
  assumes "writable r"
  shows "csv_records csv_init (lines_of (write_record r @ u)) = (case csv_records csv_init (lines_of u) of (rs, e) \<Rightarrow> (r # rs, e))"
proof (cases "r = [[]]")
  case True
  have e: "doubled [] = []" by simp
  have "csv_records csv_init (lines_of (CHR 0x22 # (CHR 0x22 # CHR 0x0D # CHR 0x0A # u)))
      = csv_records (csv_init\<lparr>csv_mode_of := InQuoted\<rparr>) (lines_of (CHR 0x22 # CHR 0x0D # CHR 0x0A # u))"
    by (rule csv_records_char) (simp_all add: csv_init_def is_eol_def start_field_def)
  also have "\<dots> = csv_records (csv_init\<lparr>csv_mode_of := QuoteInQuoted\<rparr>) (lines_of (CHR 0x0D # CHR 0x0A # u))"
    by (rule csv_records_char) simp_all
  also have "\<dots> = (case csv_records csv_init (lines_of u) of (rs, e) \<Rightarrow> (r # rs, e))"
    using csv_records_end[of "csv_init\<lparr>csv_mode_of := QuoteInQuoted\<rparr>" u] by (simp add: True csv_init_def del: csv_records.simps)
  finally show ?thesis by (simp add: write_record_def True del: csv_records.simps)
next
  case False
  let ?u = "CHR 0x0D # CHR 0x0A # u" and ?j = "join '','' (map write_cell r)"
  from assms have r: "r \<noteq> []" "\<forall>c\<in>set r. length c \<le> field_limit" by (auto simp: writable_def)
  from record_head[OF r(1) False] obtain x xs where x: "?j = x # xs" "x \<noteq> CHR 0x0A" "x \<noteq> CHR 0x0D" by blast
  have "csv_records csv_init (lines_of (x # (xs @ ?u))) = csv_records (csv_init\<lparr>csv_mode_of := StartField\<rparr>) (lines_of (x # (xs @ ?u)))"
    by (rule csv_records_first[OF x(2,3)]) simp
  also have "\<dots> = (case csv_records csv_init (lines_of u) of (rs, e) \<Rightarrow> (r # rs, e))"
    using csv_records_cells[of r "csv_init\<lparr>csv_mode_of := StartField\<rparr>" u] r x(1) by (simp add: csv_init_def del: csv_records.simps)
  finally show ?thesis by (simp add: write_record_def False x(1) del: csv_records.simps)
qed

lemma csv_write_read:
  assumes "list_all writable rs"
  shows "csv_read (csv_write rs) = (rs, None)"
proof -
  have "list_all writable rs \<Longrightarrow> csv_records csv_init (lines_of (csv_write rs)) = (rs, None)" for rs
  proof (induction rs)
    case Nil
    show ?case by (simp add: csv_write_def csv_init_def)
  next
    case (Cons r rs)
    then have w: "writable r" and ih: "csv_records csv_init (lines_of (csv_write rs)) = (rs, None)" by auto
    have "csv_records csv_init (lines_of (write_record r @ csv_write rs)) = (r # rs, None)"
      unfolding csv_records_record[OF w] ih by simp
    then show ?case by (simp add: csv_write_def)
  qed
  with assms show ?thesis unfolding csv_read_def by blast
qed

section \<open>Rows as dictionaries\<close>

text \<open>\<open>writerow\<close>: a missing column is empty, and a key that is no column is refused.\<close>

definition dict_record :: "string list \<Rightarrow> (string \<times> string) list \<Rightarrow> exc + string list" where
  "dict_record names row =
     (if set (map fst row) \<subseteq> set names
      then Inr (map (\<lambda>n. case map_of row n of Some v \<Rightarrow> v | None \<Rightarrow> []) names)
      else Inl (ValueError ''dict contains fields not in fieldnames''))"

definition dict_write :: "string list \<Rightarrow> (string \<times> string) list list \<Rightarrow> exc + string" where
  "dict_write names data = rbind (rmap (dict_record names) data) (\<lambda>rs. Inr (csv_write (names # rs)))"

lemma dict_write_total:
  "\<forall>r\<in>set data. set (map fst r) \<subseteq> set names \<Longrightarrow>
    dict_write names data = Inr (csv_write (names # map (\<lambda>r. map (\<lambda>n. case map_of r n of Some v \<Rightarrow> v | None \<Rightarrow> []) names) data))"
proof -
  assume a: "\<forall>r\<in>set data. set (map fst r) \<subseteq> set names"
  have "rmap (dict_record names) rs = Inr (map (\<lambda>r. map (\<lambda>n. case map_of r n of Some v \<Rightarrow> v | None \<Rightarrow> []) names) rs)"
    if "\<forall>r\<in>set rs. set (map fst r) \<subseteq> set names" for rs
    using that by (induction rs) (simp_all add: dict_record_def)
  with a show ?thesis by (simp add: dict_write_def)
qed

lemma dict_write_read:
  assumes "names \<noteq> []" "\<forall>n\<in>set names. length n \<le> field_limit"
    and "\<forall>r\<in>set data. set (map fst r) \<subseteq> set names \<and> (\<forall>kv\<in>set r. length (snd kv) \<le> field_limit)"
  shows "\<exists>text d. dict_write names data = Inr text \<and> dict_reader_of text = Inr d \<and> fieldnames d = Some names
    \<and> failure d = None \<and> length (rows d) = length data
    \<and> (\<forall>i<length data. \<forall>n\<in>set names. row_text (rows d ! i) n = (case map_of (data ! i) n of Some v \<Rightarrow> v | None \<Rightarrow> []))"
proof -
  let ?cells = "\<lambda>r. map (\<lambda>n. case map_of r n of Some v \<Rightarrow> v | None \<Rightarrow> []) names"
  have w: "list_all writable (names # map ?cells data)"
    using assms by (auto simp: list_all_iff writable_def dest!: map_of_SomeD split: option.splits) fastforce
  have ne: "filter (\<lambda>r. r \<noteq> []) (map ?cells data) = map ?cells data" using assms(1) by (auto simp: filter_id_conv)
  have "dict_reader_of (csv_write (names # map ?cells data))
      = Inr \<lparr>fieldnames = Some names, rows = map (row_dict names \<circ> ?cells) data, failure = None\<rparr>"
    unfolding dict_reader_of_def csv_write_read[OF w] by (simp add: ne del: filter.simps)
  moreover have "row_text (row_dict names (?cells r)) n = (case map_of r n of Some v \<Rightarrow> v | None \<Rightarrow> [])" if "n \<in> set names" for r n
  proof -
    let ?f = "\<lambda>n. case map_of r n of Some v \<Rightarrow> v | None \<Rightarrow> []"
    have "map_of (rev (zip (map Some names) (map (Cell \<circ> Some) (map ?f names)))) (Some n) = Some (Cell (Some (?f n)))"
      if "n \<in> set names" for names
    proof -
      have "map_of (rev (zip (map Some xs) (map (Cell \<circ> Some) (map ?f xs)))) (Some n) = (if n \<in> set xs then Some (Cell (Some (?f n))) else None)" for xs
        by (induction xs) (simp_all add: map_add_def)
      with that show ?thesis by simp
    qed
    with that show ?thesis by (simp add: row_text_def row_dict_def map_of_dict_of)
  qed
  ultimately show ?thesis using assms by (simp add: dict_write_total)
qed

text \<open>
  What the extractors write is what the loaders read. For any column names and any rows over
  them, quotes, commas and line breaks in a cell included, up to the reader's limit of a cell,
  \<open>DictReader\<close> on the output of \<open>DictWriter\<close> yields the names and every row, in order, and no error.
\<close>

theorem csv_rows_survive:
  assumes "names \<noteq> []" "\<forall>n\<in>set names. length n \<le> field_limit"
    and "\<forall>r\<in>set data. set (map fst r) \<subseteq> set names \<and> (\<forall>kv\<in>set r. length (snd kv) \<le> field_limit)"
  shows "\<exists>text d. dict_write names data = Inr text \<and> dict_reader_of text = Inr d \<and> fieldnames d = Some names
    \<and> failure d = None \<and> length (rows d) = length data
    \<and> (\<forall>i<length data. \<forall>n\<in>set names. row_text (rows d ! i) n = (case map_of (data ! i) n of Some v \<Rightarrow> v | None \<Rightarrow> []))"
  by (rule dict_write_read[OF assms])

definition demo_cells :: "(string \<times> string) list list" where
  "demo_cells = [[(''a'', ''x,y'' @ [CHR 0x22, CHR 0x0A]), (''b'', ''1'')], [(''b'', ''2'')]]"

theorem csv_rows_survive_witness:
  "\<exists>text d. dict_write [''a'', ''b''] demo_cells = Inr text \<and> dict_reader_of text = Inr d \<and> length (rows d) = 2
     \<and> row_text (rows d ! 0) ''a'' = ''x,y'' @ [CHR 0x22, CHR 0x0A]"
proof -
  have "\<exists>text d. dict_write [''a'', ''b''] demo_cells = Inr text \<and> dict_reader_of text = Inr d \<and> fieldnames d = Some [''a'', ''b'']
    \<and> failure d = None \<and> length (rows d) = length demo_cells
    \<and> (\<forall>i<length demo_cells. \<forall>n\<in>set [''a'', ''b'']. row_text (rows d ! i) n = (case map_of (demo_cells ! i) n of Some v \<Rightarrow> v | None \<Rightarrow> []))"
    by (rule csv_rows_survive) (auto simp: demo_cells_def field_limit_def)
  then show ?thesis by (force simp: demo_cells_def)
qed

declare lines_of.simps(2) [simp]

end
