(* ===== verification/RegisterExtract.thy ===== *)
theory RegisterExtract
  imports LabelValue RegisterCatalog RegisterParse CsvWrite
begin

text \<open>
  \<open>src/src/extraction/register_types.py\<close>: three registers that come as PDFs, each read by a parser
  of its own into rows for the register loader. Regular expressions are written out as in
  \<open>LabelValue\<close>; classes are the ASCII ones.
\<close>

type_synonym text_row = "(string \<times> string) list"

section \<open>Text\<close>

text \<open>\<open>re.sub(r"\s+", " ", s).strip()\<close>: the words of the text, a space between any two.\<close>

fun words_of :: "string \<Rightarrow> string list" where
  "words_of [] = []"
| "words_of (c # r) =
     (if is_space c then [] # words_of r
      else (case words_of r of [] \<Rightarrow> [[c]] | w # ws \<Rightarrow> (c # w) # ws))"

definition flat :: "string \<Rightarrow> string" where
  "flat s = join '' '' (filter (\<lambda>w. w \<noteq> []) (words_of s))"

text \<open>The leftmost match with the text before it.\<close>

fun search_at :: "(string \<Rightarrow> 'a option) \<Rightarrow> string \<Rightarrow> (string \<times> 'a) option" where
  "search_at m [] = map_option (Pair []) (m [])"
| "search_at m (c # r) = (case m (c # r) of Some x \<Rightarrow> Some ([], x)
     | None \<Rightarrow> map_option (\<lambda>(p, x). (c # p, x)) (search_at m r))"

text \<open>\<open>text.split(mark)[0]\<close>\<close>

definition before :: "string \<Rightarrow> string \<Rightarrow> string" where
  "before mark s = (case search_at (\<lambda>r. if starts_with mark r then Some () else None) s of
      Some (p, _) \<Rightarrow> p | None \<Rightarrow> s)"

text \<open>\<open>re.split\<close> at every position that looks at a match; the flag is whether a word character stands before.\<close>

fun split_at :: "(bool \<Rightarrow> string \<Rightarrow> bool) \<Rightarrow> bool \<Rightarrow> string \<Rightarrow> string list" where
  "split_at look pw [] = [[]]"
| "split_at look pw (c # r) =
     (case split_at look (word_char c) r of
        [] \<Rightarrow> []
      | w # ws \<Rightarrow> if look pw (c # r) then [] # (c # w) # ws else (c # w) # ws)"

text \<open>The last occurrence of a text, by what stands before it: \<open>s[:s.rfind(t)]\<close> when it occurs.\<close>

fun before_last :: "string \<Rightarrow> string \<Rightarrow> string option" where
  "before_last t [] = (if t = [] then Some [] else None)"
| "before_last t (c # r) = (case before_last t r of Some p \<Rightarrow> Some (c # p)
     | None \<Rightarrow> if starts_with t (c # r) then Some [] else None)"

text \<open>\<open>re.sub(r"-\s+", "-", s)\<close>\<close>

fun join_hyphens :: "bool \<Rightarrow> string \<Rightarrow> string" where
  "join_hyphens after [] = []"
| "join_hyphens after (c # r) = (if after \<and> is_space c then join_hyphens True r else c # join_hyphens (c = CHR ''-'') r)"

definition no_commas :: "string \<Rightarrow> string" where
  "no_commas s = filter (\<lambda>c. c \<noteq> CHR '','') s"

definition near_empty :: "string list \<Rightarrow> bool" where
  "near_empty pages \<longleftrightarrow> cp_length (strip (page_text pages)) < 20"

section \<open>Payroll\<close>

definition match_ref :: "string \<Rightarrow> string option" where
  "match_ref s = first_some (\<lambda>p. if starts_with p s \<and> all_digits 4 (take 4 (drop (length p) s))
     then Some (take (length p + 4) s) else None) [''EMP'', ''CONS'']"

definition at_ref :: "bool \<Rightarrow> string \<Rightarrow> bool" where
  "at_ref pw s \<longleftrightarrow> \<not> pw \<and> (case match_ref s of None \<Rightarrow> False
     | Some ref \<Rightarrow> (case drop (length ref) s of [] \<Rightarrow> True | c # _ \<Rightarrow> \<not> word_char c))"

text \<open>\<open>_TRAIL_RE\<close> at the front of a flat text, which has single spaces and none at the end.\<close>

definition match_trail :: "string \<Rightarrow> (string \<times> string \<times> string) option" where
  "match_trail s = (case split_on (CHR '' '') s of
      [sec, a, b] \<Rightarrow>
        if all_digits 3 (take 3 sec) \<and> (drop 3 sec = [] \<or> (length sec = 4 \<and> is_upper (sec ! 3)))
          \<and> a \<noteq> [] \<and> list_all grouped_digit a \<and> b \<noteq> [] \<and> list_all grouped_digit b
        then Some (sec, a, b) else None
    | _ \<Rightarrow> None)"

definition class_words :: "string list" where
  "class_words = [''Employee'', ''Contractor'', ''Professional'']"

definition match_class :: "bool \<Rightarrow> string \<Rightarrow> string option" where
  "match_class pw s = first_some (\<lambda>w. if \<not> pw \<and> starts_with w s
     \<and> (case drop (length w) s of [] \<Rightarrow> True | c # _ \<Rightarrow> \<not> word_char c) then Some w else None) class_words"

text \<open>Matches do not overlap: no word is part of another, and a match ends at a word's end.\<close>

fun find_classes :: "bool \<Rightarrow> string \<Rightarrow> string list" where
  "find_classes pw [] = []"
| "find_classes pw (c # r) =
     (case match_class pw (c # r) of Some w \<Rightarrow> [w] | None \<Rightarrow> []) @ find_classes (word_char c) r"

definition payroll_row :: "string \<Rightarrow> text_row option" where
  "payroll_row chunk =
     (case match_ref chunk of None \<Rightarrow> None | Some ref \<Rightarrow>
      case search_at match_trail (flat (drop (length ref) chunk)) of None \<Rightarrow> None | Some (pre, sec, gross, tds) \<Rightarrow>
        let middle = strip pre; classes = find_classes False middle in
        if classes = [] then None
        else (case before_last (last classes) middle of None \<Rightarrow> None | Some name \<Rightarrow>
          Some [(''ref_no'', ref), (''person_name'', strip name), (''role_title'', []), (''classification'', last classes),
            (''tds_section'', sec), (''gross_amount'', no_commas gross), (''tds_deducted'', no_commas tds)]))"

definition rows_outcome :: "text_row list \<Rightarrow> extraction" where
  "rows_outcome rs = (if rs = [] then Partial [] [''rows''] [] else Extracted [(''rows'', FRows rs)])"

definition extract_payroll :: "string list \<Rightarrow> exc + extraction" where
  "extract_payroll pages =
     (if near_empty pages then Inr NoTextLayer
      else Inr (rows_outcome (List.map_filter payroll_row (split_at at_ref False (before ''Note:'' (page_text pages))))))"

section \<open>Export realisations\<close>

definition match_invoice :: "string \<Rightarrow> string option" where
  "match_invoice s =
     (let r = drop 8 s; w = takeWhile is_space (drop 3 r); t = drop (3 + length w) r; n = 11 + length w + 7 in
      if starts_with ''INV/EXP/'' s \<and> all_digits 2 (take 2 r) \<and> take 1 (drop 2 r) = ''-''
         \<and> all_digits 2 (take 2 t) \<and> take 1 (drop 2 t) = ''/'' \<and> all_digits 4 (take 4 (drop 3 t))
      then Some (take n s) else None)"

definition at_invoice :: "bool \<Rightarrow> string \<Rightarrow> bool" where
  "at_invoice pw s \<longleftrightarrow> match_invoice s \<noteq> None"

text \<open>\<open>_FIRC_HEADER_RE\<close> on a flat text: invoice, date, currency, amount and the rest.\<close>

definition match_firc_header :: "string \<Rightarrow> (string \<times> string \<times> string \<times> string \<times> string) option" where
  "match_firc_header s =
     (case match_invoice s of None \<Rightarrow> None | Some ivn \<Rightarrow>
        let r1 = drop (length ivn) s; d = take 11 (tl r1); r2 = drop 11 (tl r1); cur = take 3 (tl r2); r3 = drop 3 (tl r2);
            r4 = dropWhile is_space r3; a = takeWhile grouped_digit r4; r5 = drop (length a) r4 in
        if r1 \<noteq> [] \<and> is_space (hd r1) \<and> all_digits 2 (take 2 d) \<and> take 1 (drop 2 d) = ''-'' \<and> length d = 11
           \<and> list_all is_letter (take 3 (drop 3 d)) \<and> take 1 (drop 6 d) = ''-'' \<and> all_digits 4 (drop 7 d)
           \<and> r2 \<noteq> [] \<and> is_space (hd r2) \<and> length cur = 3 \<and> list_all is_upper cur
           \<and> a \<noteq> [] \<and> r5 \<noteq> [] \<and> is_space (hd r5)
        then Some (ivn, d, cur, a, dropWhile is_space r5) else None)"

definition ad_banks :: "string list" where
  "ad_banks = [''HDFC Bank, Fort Branch'', ''ICICI Bank, Nariman Point'']"

definition match_firc_no :: "string \<Rightarrow> string option" where
  "match_firc_no s =
     (let w = takeWhile is_space (drop 13 s); n = takeWhile is_digit (drop (13 + length w) s) in
      if starts_with ''FIRC/'' s \<and> all_digits 4 (take 4 (drop 5 s)) \<and> take 1 (drop 9 s) = ''/''
         \<and> length (take 2 (drop 10 s)) = 2 \<and> list_all is_upper (take 2 (drop 10 s)) \<and> take 1 (drop 12 s) = ''/'' \<and> n \<noteq> []
      then Some (take (13 + length w + length n) s) else None)"

definition firc_row :: "string \<Rightarrow> exc + text_row option" where
  "firc_row chunk =
     (case match_firc_header (flat chunk) of None \<Rightarrow> Inr None | Some (ivn, d, cur, a, trailing) \<Rightarrow>
     (case named_date (map (take 3) month_names) (take 2 d) (take 3 (drop 3 d)) (drop 7 d) of
        None \<Rightarrow> Inl (ValueError ''time data does not match format'')
      | Some date \<Rightarrow>
          let bank = List.find (\<lambda>b. starts_with b trailing) ad_banks;
              rest = (case bank of Some b \<Rightarrow> strip (drop (length b) trailing) | None \<Rightarrow> trailing)
          in (case (case search_at match_firc_no rest of
                Some (p, m) \<Rightarrow> (filter (\<lambda>c. \<not> is_space c) m, strip (drop (length p + length m) rest))
              | None \<Rightarrow> ([], join_hyphens False rest)) of (firc, status) \<Rightarrow>
            Inr (Some [(''export_invoice_no'', filter (\<lambda>c. c \<noteq> CHR '' '') (join_hyphens False ivn)), (''invoice_date'', isoformat date),
              (''amount_foreign'', cur @ '' '' @ a), (''ad_bank'', case bank of Some b \<Rightarrow> b | None \<Rightarrow> []),
              (''firc_no'', firc), (''realisation_status'', status)]))))"

definition extract_firc :: "string list \<Rightarrow> exc + extraction" where
  "extract_firc pages =
     (if near_empty pages then Inr NoTextLayer
      else rbind (rmap firc_row (split_at at_invoice False (before ''Both bank-issued'' (page_text pages))))
        (\<lambda>rs. Inr (rows_outcome (List.map_filter id rs))))"

section \<open>Form 15CA and 15CB\<close>

definition form_15ca_labels :: label_spec where
  "form_15ca_labels =
     [(''form_15ca_ack_no'', \<lparr>lf_label = ''Form 15CA Acknowledgement No.'', lf_type = ''text'', lf_required = True\<rparr>),
      (''remittee_name'', \<lparr>lf_label = ''Remittee'', lf_type = ''text'', lf_required = True\<rparr>),
      (''remittance_amount_raw'', \<lparr>lf_label = ''Remittance Amount'', lf_type = ''text'', lf_required = True\<rparr>),
      (''nature_of_remittance'', \<lparr>lf_label = ''Nature of Remittance'', lf_type = ''text'', lf_required = False\<rparr>),
      (''form_15cb_cert_no'', \<lparr>lf_label = ''Form 15CB CA Certificate No.'', lf_type = ''text'', lf_required = False\<rparr>),
      (''classification'', \<lparr>lf_label = ''Classification Under Income-tax Act'', lf_type = ''text'', lf_required = False\<rparr>)]"

text \<open>\<open>\(\s*([\d,]+)\s*equivalent\)\<close>\<close>

definition match_equivalent :: "string \<Rightarrow> string option" where
  "match_equivalent s =
     (let r = dropWhile is_space (tl s); a = takeWhile grouped_digit r; r2 = dropWhile is_space (drop (length a) r) in
      if s \<noteq> [] \<and> hd s = CHR ''('' \<and> a \<noteq> [] \<and> starts_with ''equivalent)'' r2 then Some a else None)"

definition text_of_field :: "(string \<times> field_value) list \<Rightarrow> string \<Rightarrow> string" where
  "text_of_field fs n = (case map_of fs n of Some (FText s) \<Rightarrow> s | _ \<Rightarrow> [])"

definition form_15ca_row :: "(string \<times> field_value) list \<Rightarrow> text_row" where
  "form_15ca_row fs =
     [(''form_15ca_ack_no'', text_of_field fs ''form_15ca_ack_no''), (''remittee_name'', text_of_field fs ''remittee_name''),
      (''remittance_amount_inr'', case search match_equivalent (text_of_field fs ''remittance_amount_raw'') of Some a \<Rightarrow> no_commas a | None \<Rightarrow> []),
      (''nature_of_remittance'', text_of_field fs ''nature_of_remittance''), (''form_15cb_cert_no'', text_of_field fs ''form_15cb_cert_no''),
      (''classification'', text_of_field fs ''classification''), (''tax_withheld_inr'', [])]"

definition extract_form_15ca :: "string list \<Rightarrow> exc + extraction" where
  "extract_form_15ca pages = rbind (parse_label_value pages form_15ca_labels) (\<lambda>out.
     case out of Extracted fs \<Rightarrow> Inr (Extracted [(''rows'', FRows [form_15ca_row fs])]) | _ \<Rightarrow> Inr out)"

section \<open>The three together\<close>

datatype register_pdf = PayrollTds | FircBrc | Form15ca

fun register_of :: "register_pdf \<Rightarrow> register_spec" where
  "register_of PayrollTds = spec_payroll_tds_register"
| "register_of FircBrc = spec_firc_brc_register"
| "register_of Form15ca = spec_form_15ca_15cb"

fun extract_register :: "register_pdf \<Rightarrow> string list \<Rightarrow> exc + extraction" where
  "extract_register PayrollTds pages = extract_payroll pages"
| "extract_register FircBrc pages = extract_firc pages"
| "extract_register Form15ca pages = extract_form_15ca pages"

text \<open>\<open>RegisterDocumentExtractor.to_silver\<close>: the rows as the file the loader is given.\<close>

definition register_file :: "register_pdf \<Rightarrow> text_row list \<Rightarrow> exc + bytes" where
  "register_file k rs = dict_write (column_names (register_of k)) rs"

lemma register_keys:
  "payroll_row c = Some r \<Longrightarrow> map fst r = column_names spec_payroll_tds_register"
  "firc_row c = Inr (Some r) \<Longrightarrow> map fst r = column_names spec_firc_brc_register"
  "map fst (form_15ca_row fs) = column_names spec_form_15ca_15cb"
  by (auto simp: payroll_row_def firc_row_def form_15ca_row_def column_names_def spec_payroll_tds_register_def
      spec_firc_brc_register_def spec_form_15ca_15cb_def req_def opt_def Let_def
      split: option.splits prod.splits if_splits)

lemma extract_register_rows:
  assumes "extract_register k pages = Inr (Extracted fs)"
  shows "\<exists>rs. fs = [(''rows'', FRows rs)] \<and> rs \<noteq> [] \<and> (\<forall>r\<in>set rs. map fst r = column_names (register_of k))"
proof (cases k)
  case PayrollTds
  with assms show ?thesis
    by (auto simp: extract_payroll_def rows_outcome_def map_filter_def intro!: register_keys(1) split: if_splits)
next
  case FircBrc
  with assms obtain rs where rs: "rmap firc_row (split_at at_invoice False (before ''Both bank-issued'' (page_text pages))) = Inr rs"
    "rows_outcome (List.map_filter id rs) = Extracted fs"
    by (auto simp: extract_firc_def rbind_eq_Inr_iff split: if_splits)
  have "map fst r = column_names spec_firc_brc_register" if "Some r \<in> set rs" for r
    using list_all2_right[OF rmap_Inr_list_all2[OF rs(1)] that] register_keys(2) by blast
  with rs(2) FircBrc show ?thesis by (auto simp: rows_outcome_def map_filter_def split: if_splits)
next
  case Form15ca
  with assms obtain fs0 where "fs = [(''rows'', FRows [form_15ca_row fs0])]"
    by (cases "parse_label_value pages form_15ca_labels"; cases "projr (parse_label_value pages form_15ca_labels)")
      (auto simp: extract_form_15ca_def)
  with Form15ca register_keys(3) show ?thesis by simp
qed

text \<open>What is in the file of a register PDF, once the register loader has parsed it.\<close>

lemma register_file_parsed:
  assumes "rs \<noteq> []" "\<forall>r\<in>set rs. map fst r = column_names spec" "column_names spec \<noteq> []"
    and "\<forall>n\<in>set (column_names spec). length n \<le> field_limit" "\<forall>r\<in>set rs. \<forall>kv\<in>set r. length (snd kv) \<le> field_limit"
    and "dict_write (column_names spec) rs = Inr tx" "decode_utf8_sig tx = Some tx"
  shows "\<exists>p. parse_register_csv H spec tx = Inr p \<and> pr_ok p
    \<and> length (pr_rows p) + length (pr_rejections p) + pr_collapsed p = length rs"
proof -
  from dict_write_read[OF assms(3,4), of rs] assms(2,5) obtain tx0 d where
    d: "dict_write (column_names spec) rs = Inr tx0" "dict_reader_of tx0 = Inr d" "fieldnames d = Some (column_names spec)"
    "failure d = None" "length (rows d) = length rs" by (metis dual_order.refl list.set_map)
  then have tx: "tx0 = tx" using assms(6) by simp
  let ?recs = "zip [2..<2 + length (rows d)] (map (csv_cells spec) (rows d))"
  obtain res seen where a: "accumulate_all H spec ?recs (empty_result, []) = (res, seen)"
    by (cases "accumulate_all H spec ?recs (empty_result, [])")
  have ok: "acc_ok H spec ?recs 0 (res, seen)" using acc_ok_all[OF acc_ok_empty, of H spec ?recs] a by simp
  have m: "missing_columns spec (column_names spec) = []"
    by (simp add: missing_columns_def)
  have p: "parse_register_csv H spec tx = Inr (finish res)"
    using assms(7) d(2,3,4) a by (simp add: parse_register_csv_def tx m del: upt_Suc)
  have "length ?recs = length rs" by (simp add: d(5) del: upt_Suc)
  with acc_ok_counts[OF ok] have n: "length (pr_rows res) + length (pr_rejections res) + pr_collapsed res = length rs"
    "pr_fatal res = None" by simp_all
  have "?recs \<noteq> []" using assms(1) \<open>length ?recs = length rs\<close> by force
  then obtain k cs where "(k, cs) \<in> set ?recs" by (metis list.set_intros(1) neq_Nil_conv surj_pair)
  with ok have "case parse_row H spec cs k of Inl rej \<Rightarrow> rej \<in> set (pr_rejections res)
        | Inr row \<Rightarrow> row_hash row \<in> row_hash ` set (pr_rows res)" unfolding acc_ok_def by fast
  then have "\<not> (pr_rows res = [] \<and> pr_rejections res = [])" by (auto split: sum.splits)
  then have "finish res = res" by (auto simp: finish_def)
  with p n show ?thesis by (simp add: pr_ok_def)
qed


definition payroll_page :: string where
  "payroll_page = ''PAYROLL REGISTER 2024'' @ [CHR 0x0A] @ ''EMP0001 Asha Rao'' @ [CHR 0x0A] @ ''(Manager) Employee 192B 12,00,000'' @ [CHR 0x0A]
     @ ''1,20,000'' @ [CHR 0x0A] @ ''CONS0002 Ravi Das Professional 194J 5,00,000 50,000'' @ [CHR 0x0A] @ ''Note: EMP0009 left''"

definition payroll_rows :: "text_row list" where
  "payroll_rows =
     [[(''ref_no'', ''EMP0001''), (''person_name'', ''Asha Rao (Manager)''), (''role_title'', []), (''classification'', ''Employee''),
       (''tds_section'', ''192B''), (''gross_amount'', ''1200000''), (''tds_deducted'', ''120000'')],
      [(''ref_no'', ''CONS0002''), (''person_name'', ''Ravi Das''), (''role_title'', []), (''classification'', ''Professional''),
       (''tds_section'', ''194J''), (''gross_amount'', ''500000''), (''tds_deducted'', ''50000'')]]"


text \<open>
  Only two banks are known. A realisation whose bank does not start with one of the two built-in
  branch names is extracted without a bank, and since the register requires one, the loader rejects
  the row, whatever else it says: the same certificate from any other bank never gets in.
\<close>

theorem other_bank_rejected:
  assumes "match_firc_header (flat chunk) = Some (ivn, d, cur, a, trailing)" "\<forall>b\<in>set ad_banks. \<not> starts_with b trailing"
    and "firc_row chunk = Inr (Some r)"
  shows "map_of r ''ad_bank'' = Some []
    \<and> (\<exists>rej. parse_row H spec_firc_brc_register (map (\<lambda>(c, v). (c, strip_cell v)) r) n = Inl rej)"
proof -
  have "List.find (\<lambda>b. starts_with b trailing) ad_banks = None" using assms(2) by (auto simp: find_None_iff)
  with assms(1,3) have b: "map_of r ''ad_bank'' = Some []"
    by (auto simp: firc_row_def Let_def split: option.splits prod.splits)
  have k: "map fst r = column_names spec_firc_brc_register" by (rule register_keys(2)[OF assms(3)])
  have m: "map_of (map (\<lambda>(c, v). (c, strip_cell v)) r) x = map_option strip_cell (map_of r x)" for x
    by (induction r) auto
  have "cell (map (\<lambda>(c, v). (c, strip_cell v)) r) ''ad_bank'' = None"
    by (simp only: cell_def m b) (simp add: strip_cell_def)
  moreover have "''ad_bank'' \<in> set (required_names spec_firc_brc_register)"
    by (simp add: required_names_def spec_firc_brc_register_def req_def opt_def)
  ultimately have "filter (\<lambda>c. cell (map (\<lambda>(c, v). (c, strip_cell v)) r) c = None) (required_names spec_firc_brc_register) \<noteq> []"
    by (auto simp: filter_empty_conv)
  with b show ?thesis by (simp add: parse_row_def Let_def)
qed

definition sbi_chunk :: string where
  "sbi_chunk = ''INV/EXP/24-25/0142 05-Apr-2024 USD 24,000 State Bank of India FIRC/2024/MU/ 77 Realised''"

theorem other_bank_rejected_witness:
  "\<exists>r rej. firc_row sbi_chunk = Inr (Some r) \<and> map_of r ''ad_bank'' = Some []
     \<and> parse_row id spec_firc_brc_register (map (\<lambda>(c, v). (c, strip_cell v)) r) 2 = Inl rej"
proof -
  have h: "match_firc_header (flat sbi_chunk) = Some (''INV/EXP/24-25/0142'', ''05-Apr-2024'', ''USD'', ''24,000'', ''State Bank of India FIRC/2024/MU/ 77 Realised'')"
    by code_simp
  have b: "\<forall>b\<in>set ad_banks. \<not> starts_with b ''State Bank of India FIRC/2024/MU/ 77 Realised''" by code_simp
  have "case firc_row sbi_chunk of Inr (Some r) \<Rightarrow> True | _ \<Rightarrow> False" by code_simp
  then obtain r where r: "firc_row sbi_chunk = Inr (Some r)" by (auto split: sum.splits option.splits)
  from other_bank_rejected[OF h b r, of id 2] r show ?thesis by blast
qed

end
