(* ===== verification/TransactionPdf.thy ===== *)
theory TransactionPdf
  imports Complex_Main LabelValue Promote CsvWrite
begin

text \<open>
  \<open>src/src/extraction/transaction_types.py\<close>: a consignment note and a bill of entry read from a PDF
  become one CSV row each, which the validator of transaction files then reads. With the division,
  multiplication and quantisation of \<open>decimal.Decimal\<close> in the default context they use.
\<close>

section \<open>Decimal division\<close>

fun strip_zeros :: "nat \<Rightarrow> nat \<Rightarrow> nat \<times> nat" where
  "strip_zeros 0 c = (c, 0)"
| "strip_zeros (Suc n) c = (if c mod 10 = 0 then (case strip_zeros n (c div 10) of (d, k) \<Rightarrow> (d, Suc k)) else (c, 0))"

text \<open>
  The quotient of two coefficients: one digit more than the precision, made odd at the end when it is
  not exact, or cut back to the ideal exponent when it is.
\<close>

definition div_coeffs :: "bool \<Rightarrow> nat \<Rightarrow> int \<Rightarrow> nat \<Rightarrow> int \<Rightarrow> decimal" where
  "div_coeffs sg c e c' e' =
     (let shift = int (num_digits c') - int (num_digits c) + 29; x = e - e' - shift;
          a = c * 10 ^ nat shift; b = c' * 10 ^ nat (- shift); q = a div b
      in if a mod b \<noteq> 0 then dec_fix sg (if q mod 5 = 0 then q + 1 else q) x
         else (case strip_zeros (nat (e - e' - x)) q of (d, k) \<Rightarrow> dec_fix sg d (x + int k)))"

fun dec_div :: "decimal \<Rightarrow> decimal \<Rightarrow> exc + decimal" where
  "dec_div (NaN True) _ = Inl DecimalInvalidOperation"
| "dec_div _ (NaN True) = Inl DecimalInvalidOperation"
| "dec_div (NaN False) _ = Inr (NaN False)"
| "dec_div _ (NaN False) = Inr (NaN False)"
| "dec_div (Inf a) (Inf b) = Inl DecimalInvalidOperation"
| "dec_div (Inf a) (Fin s c e) = Inr (Inf (a \<noteq> s))"
| "dec_div (Fin s c e) (Inf b) = Inr (Fin (s \<noteq> b) 0 (-1000026))"
| "dec_div (Fin s c e) (Fin s' c' e') =
     (if c' = 0 then Inl DecimalInvalidOperation
      else if c = 0 then Inr (Fin (s \<noteq> s') 0 (e - e')) else Inr (div_coeffs (s \<noteq> s') c e c' e'))"

fun dec_times_100 :: "decimal \<Rightarrow> exc + decimal" where
  "dec_times_100 (NaN True) = Inl DecimalInvalidOperation"
| "dec_times_100 (NaN False) = Inr (NaN False)"
| "dec_times_100 (Inf b) = Inr (Inf b)"
| "dec_times_100 (Fin s c e) = Inr (dec_fix s (c * 100) e)"

text \<open>\<open>quantize(Decimal("0.01"), rounding=ROUND_HALF_UP)\<close>\<close>

fun quantize_cents :: "decimal \<Rightarrow> exc + decimal" where
  "quantize_cents (NaN True) = Inl DecimalInvalidOperation"
| "quantize_cents (NaN False) = Inr (NaN False)"
| "quantize_cents (Inf b) = Inl DecimalInvalidOperation"
| "quantize_cents (Fin s c e) =
     (let q = cents_of c e in if 28 < num_digits q then Inl DecimalInvalidOperation else Inr (Fin s q (-2)))"

definition dec_is_zero :: "decimal \<Rightarrow> bool" where
  "dec_is_zero d \<longleftrightarrow> (case d of Fin _ c _ \<Rightarrow> c = 0 | _ \<Rightarrow> False)"

definition gst_rate_of :: "decimal \<Rightarrow> decimal \<Rightarrow> exc + decimal" where
  "gst_rate_of tax taxable =
     (if dec_is_zero taxable then Inr dec_zero
      else rbind (dec_div tax taxable) (\<lambda>q. rbind (dec_times_100 q) quantize_cents))"

section \<open>Fields\<close>

type_synonym fields = "(string \<times> field_value) list"

definition need :: "fields \<Rightarrow> string \<Rightarrow> exc + field_value" where
  "need fs n = (case map_of fs n of None \<Rightarrow> Inl (KeyError n) | Some v \<Rightarrow> Inr v)"

text \<open>\<open>Decimal(fields[n])\<close>; a number is read from text or from an integer.\<close>

definition need_decimal :: "fields \<Rightarrow> string \<Rightarrow> exc + decimal" where
  "need_decimal fs n = rbind (need fs n) (\<lambda>v. case v of
      FText s \<Rightarrow> (case py_decimal s of None \<Rightarrow> Inl DecimalInvalidOperation | Some d \<Rightarrow> Inr d)
    | FInt i \<Rightarrow> Inr (Fin (i < 0) (nat \<bar>i\<bar>) 0)
    | _ \<Rightarrow> Inl (TypeError ''conversion to Decimal is not supported''))"

definition need_date :: "fields \<Rightarrow> string \<Rightarrow> exc + date" where
  "need_date fs n = rbind (need fs n) (\<lambda>v. case v of FDate d \<Rightarrow> Inr d | _ \<Rightarrow> Inl (AttributeError ''isoformat''))"

definition date_repr :: "date \<Rightarrow> string" where
  "date_repr d = ''datetime.date('' @ join '', '' (map nat_str [dyear d, dmonth d, dday d]) @ '')''"

text \<open>What \<open>DictWriter\<close> writes for a value: \<open>str(v)\<close>.\<close>

definition written :: "field_value \<Rightarrow> string" where
  "written v = (case v of FText s \<Rightarrow> s | FInt i \<Rightarrow> int_str i | FDate d \<Rightarrow> isoformat d
     | FRange a b \<Rightarrow> ''('' @ date_repr a @ '', '' @ date_repr b @ '')'' | _ \<Rightarrow> [])"

definition gta_sac :: string where
  "gta_sac = ''996791''"

section \<open>The two rows\<close>

text \<open>With the date that anchors the batch's period.\<close>

definition gta_row :: "fields \<Rightarrow> exc + (string \<times> string) list \<times> date" where
  "gta_row fs =
     rbind (need fs ''doc_date'') (\<lambda>_. rbind (need_decimal fs ''taxable_value'') (\<lambda>taxable. rbind (need_decimal fs ''gst_amount'') (\<lambda>gst.
     rbind (gst_rate_of gst taxable) (\<lambda>rate. rbind (need fs ''doc_number'') (\<lambda>num. rbind (need_date fs ''doc_date'') (\<lambda>d.
     rbind (need fs ''counterparty_gstin'') (\<lambda>gstin. rbind (need fs ''counterparty_name'') (\<lambda>name.
       Inr ([(''doc_number'', written num), (''doc_date'', isoformat d), (''counterparty_gstin'', written gstin),
          (''counterparty_name'', written name), (''line_number'', ''1''), (''hsn_sac'', gta_sac), (''quantity'', ''1''),
          (''unit_price'', dec_str taxable), (''taxable_value'', dec_str taxable), (''gst_rate'', dec_str rate),
          (''igst_amount'', dec_str gst), (''cgst_amount'', ''0''), (''sgst_amount'', ''0''),
          (''consignment_note_number'', written num), (''consignment_note_date'', isoformat d), (''rcm_applicable'', ''YES'')], d)))))))))"

definition boe_row :: "fields \<Rightarrow> exc + (string \<times> string) list \<times> date" where
  "boe_row fs =
     rbind (need fs ''doc_date'') (\<lambda>_. rbind (need_decimal fs ''taxable_value'') (\<lambda>taxable. rbind (need_decimal fs ''igst_amount'') (\<lambda>igst.
     rbind (gst_rate_of igst taxable) (\<lambda>rate. rbind (need fs ''doc_number'') (\<lambda>num. rbind (need_date fs ''doc_date'') (\<lambda>d.
     rbind (need fs ''counterparty_name'') (\<lambda>name. rbind (need fs ''hsn_sac'') (\<lambda>hsn. rbind (need fs ''port_code'') (\<lambda>port.
       Inr ([(''doc_number'', written num), (''doc_date'', isoformat d), (''counterparty_name'', written name),
          (''line_number'', ''1''), (''hsn_sac'', written hsn), (''quantity'', ''1''),
          (''unit_price'', dec_str taxable), (''taxable_value'', dec_str taxable), (''gst_rate'', dec_str rate),
          (''igst_amount'', dec_str igst), (''cgst_amount'', ''0''), (''sgst_amount'', ''0''),
          (''be_number'', written num), (''be_date'', isoformat d), (''port_code'', written port)], d))))))))))"

datatype transaction_pdf = Gta | BillOfEntry

definition transaction_kind :: "string \<Rightarrow> transaction_pdf option" where
  "transaction_kind code = map_of [(''GTA_INVOICE_CONSIGNMENT_NOTE'', Gta), (''BILL_OF_ENTRY'', BillOfEntry)] code"

fun transaction_row :: "transaction_pdf \<Rightarrow> fields \<Rightarrow> exc + (string \<times> string) list \<times> date" where
  "transaction_row Gta fs = gta_row fs"
| "transaction_row BillOfEntry fs = boe_row fs"

definition transaction_file :: "(string \<times> string) list \<Rightarrow> exc + bytes" where
  "transaction_file row = dict_write (map fst row) [row]"

section \<open>Properties\<close>

text \<open>The value of a coefficient and an exponent.\<close>

definition dec_value :: "nat \<Rightarrow> int \<Rightarrow> real" where
  "dec_value c e = real c * 10 powi e"

lemma powi_10_nat: "0 \<le> k \<Longrightarrow> (10::real) powi k = real (10 ^ nat k)"
  by (simp add: power_int_def)

lemma dec_value_scale: "dec_value (c * 10 ^ k) e = dec_value c (e + int k)"
  by (simp add: dec_value_def power_int_add)

lemma strip_zeros_value: "strip_zeros n c = (d, k) \<Longrightarrow> c = d * 10 ^ k"
  by (induction n c arbitrary: d k rule: strip_zeros.induct)
    (auto split: if_splits prod.splits simp: mult_div_mod_eq[symmetric])

lemma num_digits_bounds: "0 < n \<Longrightarrow> 10 ^ (num_digits n - 1) \<le> n \<and> n < 10 ^ num_digits n \<and> 0 < num_digits n"
proof (induction n rule: nat_str.induct)
  case (1 n)
  show ?case
  proof (cases "n < 10")
    case True
    with 1(2) show ?thesis by (simp add: num_digits_def nat_str.simps[of n])
  next
    case False
    with 1 have ih: "10 ^ (num_digits (n div 10) - 1) \<le> n div 10" "n div 10 < 10 ^ num_digits (n div 10)" "0 < num_digits (n div 10)" by auto
    have d: "num_digits n = Suc (num_digits (n div 10))" using False by (simp add: num_digits_def nat_str.simps[of n])
    have "10 * 10 ^ (num_digits (n div 10) - 1) \<le> n" using ih(1) by linarith
    moreover have "10 * 10 ^ (num_digits (n div 10) - 1) = (10::nat) ^ num_digits (n div 10)"
      using ih(3) by (metis Suc_diff_1 power_Suc)
    moreover have "n < 10 * 10 ^ num_digits (n div 10)" using ih(2) by linarith
    ultimately show ?thesis by (simp add: d)
  qed
qed

lemma num_digits_le_iff: "0 < n \<Longrightarrow> num_digits n \<le> k \<longleftrightarrow> n < 10 ^ k"
proof
  assume n: "0 < n" and k: "num_digits n \<le> k"
  from num_digits_bounds[OF n] have "n < 10 ^ num_digits n" by simp
  also have "\<dots> \<le> (10::nat) ^ k" using k by (simp add: power_increasing)
  finally show "n < 10 ^ k" .
next
  assume n: "0 < n" and k: "n < 10 ^ k"
  from num_digits_bounds[OF n] have "(10::nat) ^ (num_digits n - 1) < 10 ^ k" using k by linarith
  then have "num_digits n - 1 < k" by simp
  then show "num_digits n \<le> k" by simp
qed

text \<open>Rounding to the precision does nothing to a value that has few digits, however it is written.\<close>

lemma dec_fix_value:
  assumes "c = s * 10 ^ i" "0 < s" "num_digits s \<le> 28"
  shows "\<exists>c1 e1. dec_fix sg c e = Fin sg c1 e1 \<and> 0 < c1 \<and> dec_value c1 e1 = dec_value c e"
proof (cases "num_digits c - 28 = 0")
  case True
  with assms show ?thesis by (auto simp: dec_fix_def)
next
  case False
  let ?k = "num_digits c - 28"
  have c: "0 < c" using assms by simp
  have "s < 10 ^ 28" using assms(2,3) num_digits_le_iff by blast
  then have "c < 10 ^ (28 + i)" using assms(1) by (simp add: power_add)
  with c num_digits_le_iff have "num_digits c \<le> 28 + i" by blast
  then have k: "?k \<le> i" by simp
  define q where "q = s * 10 ^ (i - ?k)"
  have cq: "c = q * 10 ^ ?k" using k assms(1) by (simp add: q_def power_add[symmetric])
  have "round_half_even (q * 10 ^ k) k = q" for k by (simp add: round_half_even_def Let_def)
  then have r: "round_half_even c ?k = q" by (metis cq)
  have q0: "0 < q" using assms(2) by (simp add: q_def)
  have "q < 10 ^ 28"
  proof -
    have "c < 10 ^ (28 + ?k)" using num_digits_bounds[OF c] False by simp
    then have "c < 10 ^ 28 * 10 ^ ?k" by (simp only: power_add)
    then show ?thesis by (metis cq mult_less_cancel2)
  qed
  then have "\<not> 28 < num_digits q" using num_digits_le_iff[OF q0] by (simp add: not_less)
  then have "dec_fix sg c e = Fin sg q (e + int ?k)" using False r by (simp add: dec_fix_def Let_def)
  moreover have "dec_value q (e + int ?k) = dec_value c e" by (subst cq) (simp only: dec_value_scale)
  ultimately show ?thesis using q0 by blast
qed

lemma dec_value_fix:
  assumes v: "dec_value c e = dec_value r x" and r: "0 < r" "num_digits r \<le> 28" and c: "0 < c"
  shows "\<exists>c1 e1. dec_fix sg c e = Fin sg c1 e1 \<and> 0 < c1 \<and> dec_value c1 e1 = dec_value r x"
proof -
  have "\<exists>s i. c = s * 10 ^ i \<and> 0 < s \<and> num_digits s \<le> 28"
  proof (cases "e \<le> x")
    case True
    have "real c = real r * (10 powi x / 10 powi e)" using v by (simp add: dec_value_def field_simps)
    also have "10 powi x / 10 powi e = (10::real) powi (x - e)" by (simp add: power_int_diff)
    also have "\<dots> = real (10 ^ nat (x - e))" using True by (intro powi_10_nat) simp
    finally have "c = r * 10 ^ nat (x - e)" by (metis of_nat_eq_iff of_nat_mult)
    with r show ?thesis by blast
  next
    case False
    have "real r = real c * (10 powi e / 10 powi x)" using v by (simp add: dec_value_def field_simps)
    also have "10 powi e / 10 powi x = (10::real) powi (e - x)" by (simp add: power_int_diff)
    also have "\<dots> = real (10 ^ nat (e - x))" using False by (intro powi_10_nat) simp
    finally have rc: "r = c * 10 ^ nat (e - x)" by (metis of_nat_eq_iff of_nat_mult)
    have "c \<le> r" by (simp add: rc)
    moreover have "r < 10 ^ 28" using r num_digits_le_iff by blast
    ultimately have "num_digits c \<le> 28" using num_digits_le_iff[OF c] by simp
    with c show ?thesis by (metis mult.right_neutral power_0)
  qed
  with dec_fix_value[of c] v show ?thesis by metis
qed

lemma cents_of_value:
  assumes "dec_value c e = dec_value r (-2)"
  shows "cents_of c e = r"
proof (cases "-2 \<le> e")
  case True
  have "real r = real c * (10 powi e * 10 powi 2)" using assms by (simp add: dec_value_def power_int_minus field_simps)
  also have "10 powi e * 10 powi 2 = (10::real) powi (e + 2)" by (simp add: power_int_add)
  also have "\<dots> = real (10 ^ nat (e + 2))" using True by (intro powi_10_nat) simp
  finally have "r = c * 10 ^ nat (e + 2)" by (metis of_nat_eq_iff of_nat_mult)
  with True show ?thesis by (simp add: cents_of_units)
next
  case False
  have "real c = real r * (10 powi (-2) / 10 powi e)" using assms by (simp add: dec_value_def field_simps)
  also have "10 powi (-2) / 10 powi e = (10::real) powi (-2 - e)" by (rule power_int_diff[symmetric]) simp
  also have "\<dots> = real (10 ^ nat (-2 - e))" using False by (intro powi_10_nat) simp
  finally have "c = r * 10 ^ nat (-2 - e)" by (metis of_nat_eq_iff of_nat_mult)
  with False show ?thesis by (simp add: cents_of_units Let_def)
qed

lemma div_coeffs_value:
  assumes v: "dec_value c e = dec_value c' e' * dec_value r (-4)" and pos: "0 < c" "0 < c'" "0 < r" and r: "num_digits r \<le> 28"
  shows "\<exists>c1 e1. div_coeffs sg c e c' e' = Fin sg c1 e1 \<and> 0 < c1 \<and> dec_value c1 e1 = dec_value r (-4)"
proof -
  define shift where "shift = int (num_digits c') - int (num_digits c) + 29"
  define j where "j = shift + e' - e - 4"
  have cr: "real c = real c' * real r * 10 powi (e' - e - 4)"
  proof -
    have "real c = real c' * real r * (10 powi e' * 10 powi (-4) / 10 powi e)" using v by (simp add: dec_value_def field_simps)
    also have "10 powi e' * 10 powi (-4) / 10 powi e = (10::real) powi (e' + -4) / 10 powi e"
      by (subst power_int_add) simp_all
    also have "\<dots> = 10 powi (e' + -4 - e)" by (rule power_int_diff[symmetric]) simp
    also have "e' + -4 - e = e' - e - 4" by simp
    finally show ?thesis .
  qed
  have j: "0 \<le> j"
  proof (rule ccontr)
    assume n: "\<not> 0 \<le> j"
    have "real (10 ^ (num_digits c - 1)) \<le> real c" using num_digits_bounds[OF pos(1)] by (metis of_nat_le_iff)
    also have "real c < real (10 ^ num_digits c') * real (10 ^ 28) * 10 powi (e' - e - 4)"
    proof -
      have "real c' < real (10 ^ num_digits c')" using num_digits_bounds[OF pos(2)] by (metis of_nat_less_iff)
      moreover have "real r < real (10 ^ 28)" using r pos(3) num_digits_le_iff by (metis of_nat_less_iff)
      ultimately have "real c' * real r < real (10 ^ num_digits c') * real (10 ^ 28)" using pos by (intro mult_strict_mono) auto
      then show ?thesis unfolding cr by (intro mult_strict_right_mono) auto
    qed
    also have "real (10 ^ num_digits c') * real (10 ^ 28) * 10 powi (e' - e - 4)
        = 10 powi int (num_digits c') * 10 powi 28 * 10 powi (e' - e - 4)"
      by simp
    also have "\<dots> = 10 powi (int (num_digits c') + 28 + (e' - e - 4))"
      by (subst power_int_add, simp, subst power_int_add) simp_all
    finally have "(10::real) powi (int (num_digits c - 1)) < 10 powi (int (num_digits c') + 28 + (e' - e - 4))"
      by (simp add: power_int_def)
    then have "int (num_digits c - 1) < int (num_digits c') + 28 + (e' - e - 4)"
      by (meson linorder_not_less one_less_numeral_iff power_int_increasing semiring_norm(76) less_imp_le)
    then show False using n num_digits_bounds[OF pos(1)] by (simp add: j_def shift_def)
  qed
  let ?a = "c * 10 ^ nat shift" and ?b = "c' * 10 ^ nat (- shift)"
  have a: "?a = ?b * (r * 10 ^ nat j)"
  proof -
    have s: "real (10 ^ nat shift) = 10 powi shift * real (10 ^ nat (- shift))"
    proof (cases "0 \<le> shift")
      case True
      then show ?thesis using powi_10_nat[OF True] by simp
    next
      case False
      then have "real (10 ^ nat (- shift)) = 10 powi (- shift)" using powi_10_nat[of "- shift"] by simp
      with False show ?thesis by (simp add: power_int_minus)
    qed
    have "real ?a = real c' * real r * (10 powi (e' - e - 4) * 10 powi shift) * real (10 ^ nat (- shift))"
      by (simp only: of_nat_mult cr s mult_ac)
    also have "10 powi (e' - e - 4) * 10 powi shift = (10::real) powi j" by (simp add: j_def power_int_add[symmetric] algebra_simps)
    also have "(10::real) powi j = real (10 ^ nat j)" using powi_10_nat[OF j] .
    finally have "real ?a = real (?b * (r * 10 ^ nat j))" by simp
    then show ?thesis by (simp only: of_nat_eq_iff)
  qed
  have b: "0 < ?b" using pos by simp
  have m: "?a mod ?b = 0" "?a div ?b = r * 10 ^ nat j" using a b by simp_all
  obtain d k where dk: "strip_zeros (nat (e - e' - (e - e' - shift))) (r * 10 ^ nat j) = (d, k)" by fastforce
  note z = strip_zeros_value[OF dk]
  have "div_coeffs sg c e c' e' = dec_fix sg d (e - e' - shift + int k)"
    using m dk by (simp add: div_coeffs_def Let_def shift_def[symmetric])
  moreover have "dec_value d (e - e' - shift + int k) = dec_value (r * 10 ^ nat j) (e - e' - shift)" using z by (simp only: dec_value_scale)
  then have "dec_value d (e - e' - shift + int k) = dec_value r (-4)" using j by (simp add: dec_value_scale j_def)
  moreover have "0 < d" using z pos by (cases d) auto
  ultimately show ?thesis using dec_value_fix[OF _ pos(3) r] by metis
qed

lemma dec_units_value:
  "m \<le> e \<Longrightarrow> real_of_int (dec_units m (Fin False c e)) = dec_value c e * 10 powi (- m)"
proof -
  assume m: "m \<le> e"
  have "real_of_int (dec_units m (Fin False c e)) = real c * real (10 ^ nat (e - m))" by (simp add: scaled_def)
  also have "real (10 ^ nat (e - m)) = 10 powi (e - m)" using m powi_10_nat[of "e - m"] by simp
  also have "(10::real) powi (e - m) = 10 powi e * 10 powi (- m)" by (simp add: power_int_diff power_int_minus field_simps)
  finally show ?thesis by (simp add: dec_value_def)
qed

text \<open>
  C22. The tax rate worked out from a PDF. The document states a taxable value and a tax, not the rate;
  the code divides with 28 digits, multiplies and rounds. When the tax is exactly \<open>r\<close> hundredths of a
  percent of the value, whatever the two amounts are and however they are written, the rate in the CSV
  row is exactly \<open>r\<close> hundredths: no rounding on the way shows.
\<close>

theorem stated_rate_recovered:
  assumes "0 < c'" "0 < r" "num_digits r \<le> 28" "m \<le> e" "m \<le> e'"
    and "10000 * dec_units m (Fin False c e) = dec_units m (Fin False c' e') * int r"
  shows "gst_rate_of (Fin False c e) (Fin False c' e') = Inr (Fin False r (-2))"
proof -
  have "10000 * dec_value c e * 10 powi (- m) = dec_value c' e' * real r * 10 powi (- m)"
    using arg_cong[OF assms(6), of real_of_int] dec_units_value[OF assms(4), of c] dec_units_value[OF assms(5), of c']
    by (simp only: of_int_mult of_int_numeral of_int_of_nat_eq) (simp add: algebra_simps)
  then have "10000 * dec_value c e = dec_value c' e' * real r" by simp
  then have v: "dec_value c e = dec_value c' e' * dec_value r (-4)" by (simp add: dec_value_def power_int_minus field_simps)
  have "0 < dec_value c' e' * dec_value r (-4)" using assms(1,2) by (simp add: dec_value_def)
  with v have "0 < dec_value c e" by simp
  then have c: "0 < c" by (cases "c = 0") (simp_all add: dec_value_def)
  from div_coeffs_value[OF v c assms(1-3), of False] obtain c1 e1 where
    q: "div_coeffs False c e c' e' = Fin False c1 e1" "0 < c1" "dec_value c1 e1 = dec_value r (-4)" by blast
  have "dec_value (c1 * 100) e1 = 100 * dec_value c1 e1" by (simp add: dec_value_def)
  also have "\<dots> = dec_value r (-2)" unfolding q(3) by (simp add: dec_value_def power_int_minus field_simps)
  finally have h: "dec_value (c1 * 100) e1 = dec_value r (-2)" .
  from dec_value_fix[OF h assms(2,3)] q(2) obtain c2 e2 where
    t: "dec_fix False (c1 * 100) e1 = Fin False c2 e2" "dec_value c2 e2 = dec_value r (-2)" by fastforce
  have "cents_of c2 e2 = r" by (rule cents_of_value[OF t(2)])
  with assms(1,3) c q(1) t(1) show ?thesis by (simp add: gst_rate_of_def dec_is_zero_def)
qed

theorem stated_rate_recovered_witness:
  "gst_rate_of (Fin False 2241000 0) (Fin False 1245000000 (-2)) = Inr (Fin False 1800 (-2))"
  by (rule stated_rate_recovered[of _ _ "-2"]) (simp_all add: num_digits_def nat_str.simps scaled_def)

text \<open>Both rows have the columns a transaction file must have, once each, and can be written.\<close>

lemma transaction_columns:
  assumes "transaction_row k fs = Inr (row, d)"
  shows "set required_document_columns \<subseteq> set (map fst row) \<and> distinct (map fst row)
    \<and> transaction_file row = Inr (csv_write [map fst row, map snd row])"
proof -
  have c: "set required_document_columns \<subseteq> set (map fst row) \<and> distinct (map fst row)"
    using assms by (cases k) (auto simp: gta_row_def boe_row_def rbind_eq_Inr_iff required_document_columns_def)
  then have m: "map (\<lambda>n. case map_of row n of Some v \<Rightarrow> v | None \<Rightarrow> []) (map fst row) = map snd row"
    by (auto intro!: map_cong simp: eq_key_imp_eq_value)
  have "dict_write (map fst row) [row] = Inr (csv_write (map fst row # [map (\<lambda>n. case map_of row n of Some v \<Rightarrow> v | None \<Rightarrow> []) (map fst row)]))"
    using dict_write_total[of "[row]" "map fst row"] by simp
  then show ?thesis using c unfolding m transaction_file_def by simp
qed

end
