(* ===== verification/Extractors.thy ===== *)
theory Extractors
  imports TenantDb TableValue RegisterExtract TransactionPdf ObjectStore
begin

text \<open>
  \<open>src/src/extraction/base.py\<close> and \<open>entity_master_types.py\<close>: what an extractor makes of the fields of a
  document, one \<open>to_silver\<close> per archetype. Each writes its batch in a transaction of its own before
  the transaction of the row, so the row can fail with the batch already committed. What the driver and
  a column make of a value of another type than the column's is a parameter, as is the clock.
\<close>

section \<open>What an extractor is given\<close>

record extract_env =
  xe_promote :: promote_env
  xe_registers :: register_env
  xe_facts :: facts_env
  xe_line_error :: "string \<Rightarrow> (string \<times> fact_cell) list \<Rightarrow> exc option"
  xe_text :: "field_value \<Rightarrow> exc + string"
  xe_date :: "field_value \<Rightarrow> exc + date"
  xe_amount :: "field_value \<Rightarrow> exc + string"
  xe_array :: "field_value \<Rightarrow> exc + string list"
  xe_digest :: "bytes \<Rightarrow> bytes"
  xe_store :: "store_config option"
  xe_slug :: string
  xe_label :: string
  xe_today :: date
  xe_fy_month :: nat

record extraction_job =
  xj_entity :: uuid
  xj_ingest :: uuid
  xj_pdf :: bytes
  xj_run :: uuid
  xj_batch :: uuid
  xj_record :: uuid
  xj_line :: "nat \<Rightarrow> uuid"
  xj_now :: instant

record write_result =
  wr_written :: bool
  wr_record :: "uuid option"
  wr_batch :: "uuid option"
  wr_reason :: "string option"

record extract_world =
  xw_db :: silver_tables
  xw_store :: s3

type_synonym to_silver_result = "(exc + write_result) \<times> extract_world"

section \<open>Columns\<close>

definition text_column :: "extract_env \<Rightarrow> field_value \<Rightarrow> exc + string" where
  "text_column env v = (case v of FText s \<Rightarrow> Inr s | _ \<Rightarrow> xe_text env v)"

definition date_column :: "extract_env \<Rightarrow> field_value \<Rightarrow> exc + date" where
  "date_column env v = (case v of FDate d \<Rightarrow> Inr d | _ \<Rightarrow> xe_date env v)"

definition amount_column :: "extract_env \<Rightarrow> field_value \<Rightarrow> exc + string" where
  "amount_column env v = (case v of FText s \<Rightarrow> Inr s | FInt i \<Rightarrow> Inr (int_str i) | _ \<Rightarrow> xe_amount env v)"

definition optional :: "('a \<Rightarrow> exc + 'b) \<Rightarrow> 'a option \<Rightarrow> exc + 'b option" where
  "optional f x = (case x of None \<Rightarrow> Inr None | Some v \<Rightarrow> map_sum id Some (f v))"

definition truthy :: "field_value \<Rightarrow> bool" where
  "truthy v \<longleftrightarrow> v \<noteq> FText [] \<and> v \<noteq> FInt 0"

section \<open>The batch, the copy and the verdict\<close>

definition create_single_document_batch ::
  "extract_env \<Rightarrow> extraction_job \<Rightarrow> string \<Rightarrow> field_value \<Rightarrow> silver_tables \<Rightarrow> exc + silver_tables" where
  "create_single_document_batch env j code period db =
     rbind (date_column env period) (\<lambda>d. insert_batch (pe_vocabulary (xe_promote env))
       \<lparr>ib_batch_id = xj_batch j, ib_entity_id = xj_entity j, ib_document_type = code, ib_source_stream = ''B'',
        ib_period_start = d, ib_period_end = d, ib_row_count = 1, ib_content_hash = xe_digest env (xj_pdf j),
        ib_manifest_ref = xj_ingest j, ib_status = ''READY'', ib_ready_at = xj_now j, ib_run_id = xj_run j\<rparr> db)"

text \<open>Best effort: a copy that fails is logged.\<close>

definition put_silver_copy :: "extract_env \<Rightarrow> extraction_job \<Rightarrow> string \<Rightarrow> s3 \<Rightarrow> s3" where
  "put_silver_copy env j code st =
     (case xe_store env of None \<Rightarrow> st | Some cfg \<Rightarrow>
     (case put_silver (xe_digest env) cfg (xe_slug env) code (uuid_str (xj_ingest j)) (xj_pdf j) ''pdf'' (xj_now j) st of
        Inl e \<Rightarrow> st | Inr (so, st') \<Rightarrow> st'))"

definition partial_reasons :: "string list \<Rightarrow> string list \<Rightarrow> string list" where
  "partial_reasons missing failed =
     (if missing = [] then [] else [''missing required field(s): '' @ join '', '' missing])
     @ (if failed = [] then [] else [''failed to parse field(s): '' @ join '', '' failed])"

text \<open>The \<open>repr\<close> of a tuple of names.\<close>

definition tuple_repr :: "string list \<Rightarrow> string" where
  "tuple_repr xs = ''('' @ join '', '' (map py_repr xs) @ (if length xs = 1 then '','' else []) @ '')''"

definition partial_reason :: "string list \<Rightarrow> string list \<Rightarrow> string" where
  "partial_reason missing failed = ''Partial: missing='' @ tuple_repr missing @ '' failed='' @ tuple_repr failed"

definition extraction_quarantine ::
  "extract_env \<Rightarrow> extraction_job \<Rightarrow> string \<Rightarrow> string list \<Rightarrow> silver_tables \<Rightarrow> exc + silver_tables" where
  "extraction_quarantine env j code reasons db = upsert_quarantine (pe_vocabulary (xe_promote env))
     \<lparr>qa_ingest_id = xj_ingest j, qa_entity_id = xj_entity j, qa_document_type = code,
      qa_reason = join ''; '' (take 20 (if reasons = [] then [''extraction produced no usable fields''] else reasons)),
      qa_run_id = Some (xj_run j)\<rparr> db"

definition refuse ::
  "extract_env \<Rightarrow> extraction_job \<Rightarrow> string \<Rightarrow> string list \<Rightarrow> string \<Rightarrow> extract_world \<Rightarrow> to_silver_result" where
  "refuse env j code reasons why w =
     (case extraction_quarantine env j code reasons (xw_db w) of
        Inl e \<Rightarrow> (Inl e, w)
      | Inr db \<Rightarrow> (Inr \<lparr>wr_written = False, wr_record = None, wr_batch = None, wr_reason = Some why\<rparr>, w\<lparr>xw_db := db\<rparr>))"

text \<open>A batch, then the row in a second transaction, then the copy.\<close>

definition batch_then ::
  "extract_env \<Rightarrow> extraction_job \<Rightarrow> string \<Rightarrow> field_value \<Rightarrow> (silver_tables \<Rightarrow> exc + silver_tables) \<Rightarrow> extract_world \<Rightarrow> to_silver_result" where
  "batch_then env j code period row w =
     (case create_single_document_batch env j code period (xw_db w) of
        Inl e \<Rightarrow> (Inl e, w)
      | Inr db1 \<Rightarrow>
          (case row db1 of
             Inl e \<Rightarrow> (Inl e, w\<lparr>xw_db := db1\<rparr>)
           | Inr db2 \<Rightarrow>
               (Inr \<lparr>wr_written = True, wr_record = Some (xj_record j), wr_batch = Some (xj_batch j), wr_reason = None\<rparr>,
                \<lparr>xw_db = db2, xw_store = put_silver_copy env j code (xw_store w)\<rparr>)))"

section \<open>Entitlements\<close>

text \<open>Unpacking what is no pair of dates: only a text of two characters unpacks.\<close>

definition unpack_validity :: "field_value \<Rightarrow> exc + field_value \<times> field_value" where
  "unpack_validity v = (case v of
      FRange a b \<Rightarrow> Inr (FDate a, FDate b)
    | FText s \<Rightarrow>
        if cp_length s = 2 then (let k = Suc (length (takeWhile utf8_cont (tl s))) in Inr (FText (take k s), FText (drop k s)))
        else Inl (ValueError ''unpack'')
    | _ \<Rightarrow> Inl (TypeError ''cannot unpack''))"

definition validity_window :: "fields \<Rightarrow> exc + field_value \<times> field_value" where
  "validity_window fs = (case map_of fs ''validity'' of
      Some v \<Rightarrow> unpack_validity v
    | None \<Rightarrow> rbind (need fs ''valid_from'') (\<lambda>a. Inr (a, case map_of fs ''valid_to'' of Some b \<Rightarrow> b | None \<Rightarrow> FDate max_date)))"

text \<open>\<open>dict(fields.get(name) or {})\<close>: no field type is a dictionary.\<close>

definition dict_field :: "fields \<Rightarrow> string \<Rightarrow> exc + (string \<times> json) list" where
  "dict_field fs n = (case map_of fs n of None \<Rightarrow> Inr [] | Some v \<Rightarrow>
     if \<not> truthy v then Inr []
     else (case v of FText s \<Rightarrow> Inl (ValueError ''dictionary update sequence'') | _ \<Rightarrow> Inl (TypeError ''dict'')))"

definition entitlement_row ::
  "extract_env \<Rightarrow> extraction_job \<Rightarrow> string \<Rightarrow> string \<Rightarrow> field_value \<times> field_value \<Rightarrow> fields \<Rightarrow> silver_tables \<Rightarrow> exc + silver_tables" where
  "entitlement_row env j code authority window fs db =
     rbind (need fs ''instrument_number'') (\<lambda>number. rbind (dict_field fs ''scope'') (\<lambda>sc. rbind (dict_field fs ''obligation'') (\<lambda>ob.
     rbind (text_column env number) (\<lambda>num. rbind (date_column env (fst window)) (\<lambda>a. rbind (date_column env (snd window)) (\<lambda>b.
     rbind (optional (xe_array env) (map_of fs ''scope_hsn'')) (\<lambda>hsn.
     rbind (record_or_supersede (xe_facts env) instrument_service (batches db) (xj_now j) (xj_record j)
        \<lparr>in_entity = xj_entity j, in_type = code, in_authority = authority, in_number = num, in_valid_from = a, in_valid_to = b,
         in_status = ''ACTIVE'', in_scope_hsn = hsn, in_scope = sc, in_obligation = ob, in_batch = xj_batch j, in_ingest = xj_ingest j\<rparr>
        (td_instruments db)) (\<lambda>(prior, t). Inr (db\<lparr>td_instruments := t\<rparr>)))))))))"

definition entitlement_to_silver ::
  "extract_env \<Rightarrow> string \<Rightarrow> string \<Rightarrow> extraction_job \<Rightarrow> extraction \<Rightarrow> extract_world \<Rightarrow> to_silver_result" where
  "entitlement_to_silver env code authority j outcome w = (case outcome of
      NoTextLayer \<Rightarrow> refuse env j code [''no extractable text layer (NoTextLayer)''] ''NoTextLayer'' w
    | Partial fs missing failed \<Rightarrow> refuse env j code (partial_reasons missing failed) (partial_reason missing failed) w
    | Extracted fs \<Rightarrow>
        (case validity_window fs of
           Inl e \<Rightarrow> (Inl e, w)
         | Inr window \<Rightarrow> batch_then env j code (fst window) (entitlement_row env j code authority window fs) w))"

section \<open>Proceedings, statements and contracts\<close>

definition event_row ::
  "extract_env \<Rightarrow> extraction_job \<Rightarrow> string \<Rightarrow> string \<Rightarrow> field_value \<Rightarrow> fields \<Rightarrow> silver_tables \<Rightarrow> exc + silver_tables" where
  "event_row env j code authority date fs db =
     rbind (need fs ''reference_number'') (\<lambda>ref. rbind (text_column env ref) (\<lambda>r. rbind (date_column env date) (\<lambda>d.
     rbind (optional (amount_column env) (map_of fs ''amount'')) (\<lambda>a.
     rbind (record_or_supersede (xe_facts env) proceeding_service (batches db) (xj_now j) (xj_record j)
        \<lparr>ev_entity = xj_entity j, ev_type = code, ev_authority = authority, ev_reference = r, ev_date = d, ev_amount = a,
         ev_status = ''CLOSED'', ev_details = [], ev_batch = xj_batch j, ev_ingest = xj_ingest j\<rparr>
        (td_events db)) (\<lambda>(prior, t). Inr (db\<lparr>td_events := t\<rparr>))))))"

definition event_to_silver ::
  "extract_env \<Rightarrow> string \<Rightarrow> string \<Rightarrow> extraction_job \<Rightarrow> extraction \<Rightarrow> extract_world \<Rightarrow> to_silver_result" where
  "event_to_silver env code authority j outcome w = (case outcome of
      NoTextLayer \<Rightarrow> refuse env j code [''NoTextLayer''] ''NoTextLayer'' w
    | Partial fs missing failed \<Rightarrow> refuse env j code (partial_reasons missing failed) (partial_reason missing failed) w
    | Extracted fs \<Rightarrow>
        (case need fs ''event_date'' of
           Inl e \<Rightarrow> (Inl e, w)
         | Inr date \<Rightarrow> batch_then env j code date (event_row env j code authority date fs) w))"

text \<open>\<open>fields.get(name) or today\<close>\<close>

definition date_or_today :: "extract_env \<Rightarrow> fields \<Rightarrow> string \<Rightarrow> field_value" where
  "date_or_today env fs n = (case map_of fs n of Some v \<Rightarrow> if truthy v then v else FDate (xe_today env) | None \<Rightarrow> FDate (xe_today env))"

definition statement_row_of ::
  "extract_env \<Rightarrow> extraction_job \<Rightarrow> string \<Rightarrow> fields \<Rightarrow> silver_tables \<Rightarrow> exc + silver_tables" where
  "statement_row_of env j code fs db =
     rbind (need fs ''auditor'') (\<lambda>auditor. rbind (text_column env auditor) (\<lambda>a.
     rbind (optional (text_column env) (map_of fs ''financial_year'')) (\<lambda>y. rbind (optional (date_column env) (map_of fs ''filed_date'')) (\<lambda>d.
     rbind (record_or_supersede (xe_facts env) financial_service (batches db) (xj_now j) (xj_record j)
        \<lparr>fn_entity = xj_entity j, fn_type = code, fn_auditor = a, fn_year = y, fn_filed = d, fn_status = ''AUDITED'', fn_figures = [],
         fn_batch = xj_batch j, fn_ingest = xj_ingest j\<rparr>
        (td_statements db)) (\<lambda>(prior, t). Inr (db\<lparr>td_statements := t\<rparr>))))))"

definition financial_to_silver ::
  "extract_env \<Rightarrow> string \<Rightarrow> extraction_job \<Rightarrow> extraction \<Rightarrow> extract_world \<Rightarrow> to_silver_result" where
  "financial_to_silver env code j outcome w = (case outcome of
      NoTextLayer \<Rightarrow> refuse env j code [''NoTextLayer''] ''NoTextLayer'' w
    | Partial fs missing failed \<Rightarrow> refuse env j code (partial_reasons missing failed) (partial_reason missing failed) w
    | Extracted fs \<Rightarrow> batch_then env j code (date_or_today env fs ''filed_date'') (statement_row_of env j code fs) w)"

text \<open>\<open>json.dumps\<close> of the terms, dates as ISO text; a pair of dates cannot be encoded.\<close>

definition key_term :: "string \<times> field_value \<Rightarrow> exc + string \<times> json" where
  "key_term nv = (case snd nv of
      FText s \<Rightarrow> Inr (fst nv, JStr s) | FInt i \<Rightarrow> Inr (fst nv, JInt i) | FDate d \<Rightarrow> Inr (fst nv, JStr (isoformat d))
    | _ \<Rightarrow> Inl (TypeError ''Object of type date is not JSON serializable''))"

definition contract_row ::
  "extract_env \<Rightarrow> extraction_job \<Rightarrow> string \<Rightarrow> fields \<Rightarrow> silver_tables \<Rightarrow> exc + silver_tables" where
  "contract_row env j code fs db =
     rbind (rmap key_term fs) (\<lambda>terms. rbind (optional (text_column env) (map_of fs ''counterparty_name'')) (\<lambda>c.
     rbind (optional (date_column env) (map_of fs ''effective_date'')) (\<lambda>d. rbind (optional (date_column env) (map_of fs ''term_end_date'')) (\<lambda>e.
     rbind (record_or_supersede (xe_facts env) contract_service (batches db) (xj_now j) (xj_record j)
        \<lparr>cn_entity = xj_entity j, cn_type = code, cn_counterparty = c, cn_effective = d, cn_term_end = e, cn_status = ''ACTIVE'',
         cn_terms = terms, cn_batch = xj_batch j, cn_ingest = xj_ingest j\<rparr>
        (td_contracts db)) (\<lambda>(prior, t). Inr (db\<lparr>td_contracts := t\<rparr>))))))"

text \<open>A \<open>Partial\<close> in which fields only failed is written like an \<open>Extracted\<close>.\<close>

definition contract_to_silver ::
  "extract_env \<Rightarrow> string \<Rightarrow> extraction_job \<Rightarrow> extraction \<Rightarrow> extract_world \<Rightarrow> to_silver_result" where
  "contract_to_silver env code j outcome w = (case outcome of
      NoTextLayer \<Rightarrow> refuse env j code [''NoTextLayer''] ''NoTextLayer'' w
    | Partial fs missing failed \<Rightarrow>
        if missing \<noteq> [] then refuse env j code (partial_reasons missing failed) (partial_reason missing failed) w
        else batch_then env j code (date_or_today env fs ''effective_date'') (contract_row env j code fs) w
    | Extracted fs \<Rightarrow> batch_then env j code (date_or_today env fs ''effective_date'') (contract_row env j code fs) w)"

end
