(* ===== verification/EntityMasters.thy ===== *)
theory EntityMasters
  imports Extractors
begin

text \<open>
  \<open>EntityMasterExtractor\<close> of \<open>src/src/extraction/base.py\<close> and the table-shaped extractors of
  \<open>entity_master_types.py\<close>: a header row, and in the same transaction one fact row per row of the
  document's table, in the line table of the type. A shareholding row becomes two facts, one for each
  financial year it states.
\<close>

section \<open>extract\<close>

definition fact_table :: "string \<Rightarrow> string option" where
  "fact_table code = map_of [(''SHAREHOLDING_PATTERN'', ''shareholding_pattern_holder''), (''GSTIN_REGISTER'', ''gstin_register_entry''),
     (''DIRECTOR_LIST_WITH_DIN'', ''director_list_din''), (''KMP_LIST'', ''kmp_list_member'')] code"

definition extract_table_facts :: "label_spec \<Rightarrow> table_spec \<Rightarrow> string list \<Rightarrow> exc + extraction" where
  "extract_table_facts spec ts pages = rbind (parse_label_value pages spec) (\<lambda>out.
     case out of
       Extracted fs \<Rightarrow> rbind (parse_table_rows pages ts) (\<lambda>rs.
         Inr (if rs = [] then Partial fs [''table_rows''] [] else Extracted (dict_put ''_table_rows'' (FTable rs) fs)))
     | _ \<Rightarrow> Inr out)"

definition extract_shareholding :: "nat \<Rightarrow> label_spec \<Rightarrow> table_spec \<Rightarrow> string list \<Rightarrow> exc + extraction" where
  "extract_shareholding start_month spec ts pages = rbind (parse_label_value pages spec) (\<lambda>out.
     case out of
       Extracted fs \<Rightarrow> rbind (parse_table_rows pages ts) (\<lambda>rs.
         if rs = [] then Inr (Partial fs [''shareholder_rows''] [])
         else rbind (need_date fs ''as_of_date'') (\<lambda>d.
           case fy_containing d start_month of (a, b) \<Rightarrow>
             rbind (fy_bounds a b start_month) (\<lambda>this_year. rbind (fy_bounds (a - 1) (b - 1) start_month) (\<lambda>last_year.
               Inr (Extracted (dict_put ''_shareholding_windows'' (FWindows rs this_year last_year) fs))))))
     | _ \<Rightarrow> Inr out)"

section \<open>The facts of a table\<close>

definition cell_of_value :: "extract_env \<Rightarrow> field_value \<Rightarrow> exc + fact_cell" where
  "cell_of_value env v = (case v of
      FText s \<Rightarrow> Inr (CText s) | FDate d \<Rightarrow> Inr (CDate d) | FInt i \<Rightarrow> Inr (CInt i)
    | _ \<Rightarrow> map_sum id CText (xe_text env v))"

definition table_facts :: "extract_env \<Rightarrow> table_row list \<Rightarrow> exc + (string \<times> fact_cell) list list" where
  "table_facts env rs = rmap (rmap (\<lambda>(n, v). map_sum id (Pair n) (cell_of_value env v))) rs"

text \<open>\<open>Decimal(row[n])\<close>: nothing when the key is missing or the text is no number.\<close>

definition share_of :: "table_row \<Rightarrow> string \<Rightarrow> exc + decimal option" where
  "share_of r n = (case need_decimal r n of
      Inr d \<Rightarrow> Inr (Some d) | Inl DecimalInvalidOperation \<Rightarrow> Inr None | Inl (KeyError k) \<Rightarrow> Inr None | Inl e \<Rightarrow> Inl e)"

definition text_at :: "table_row \<Rightarrow> string \<Rightarrow> exc + string" where
  "text_at r n = rbind (need r n) (\<lambda>v. case v of FText s \<Rightarrow> Inr (strip s) | _ \<Rightarrow> Inl (AttributeError ''strip''))"

definition shares_cell :: "table_row \<Rightarrow> exc + fact_cell" where
  "shares_cell r = (case map_of r ''shares'' of
      None \<Rightarrow> Inr CNull | Some v \<Rightarrow> if truthy v then map_sum id CNum (need_decimal r ''shares'') else Inr CNull)"

definition holder_fact :: "table_row \<Rightarrow> string \<times> date \<times> date \<Rightarrow> exc + (string \<times> fact_cell) list option" where
  "holder_fact r cw = (case cw of (pct_column, a, b) \<Rightarrow>
     rbind (share_of r pct_column) (\<lambda>p. case p of None \<Rightarrow> Inr None | Some pct \<Rightarrow>
     rbind (text_at r ''holder_name'') (\<lambda>name. rbind (shares_cell r) (\<lambda>sh. rbind (text_at r ''pledged'') (\<lambda>pl.
       Inr (Some [(''holder_name'', CText name), (''shares'', sh), (''pct_holding'', CNum pct),
         (''pledged'', CBool (lower pl = ''yes'')), (''valid_from'', CDate a), (''valid_to'', CDate b)]))))))"

definition holder_facts :: "table_row list \<Rightarrow> date \<times> date \<Rightarrow> date \<times> date \<Rightarrow> exc + (string \<times> fact_cell) list list" where
  "holder_facts rs this_year last_year =
     rbind (rmap (\<lambda>r. rmap (holder_fact r) [(''pct_current_fy'', this_year), (''pct_prior_fy'', last_year)]) rs)
       (\<lambda>fss. Inr (List.map_filter id (concat fss)))"

definition facts_of_fields :: "extract_env \<Rightarrow> string \<Rightarrow> fields \<Rightarrow> exc + (string \<times> fact_cell) list list" where
  "facts_of_fields env code fs =
     (if code = ''SHAREHOLDING_PATTERN''
      then rbind (need fs ''_shareholding_windows'') (\<lambda>v. case v of FWindows rs a b \<Rightarrow> holder_facts rs a b | _ \<Rightarrow> Inl (TypeError ''unpack''))
      else rbind (need fs ''_table_rows'') (\<lambda>v. case v of FTable rs \<Rightarrow> table_facts env rs | _ \<Rightarrow> Inl (TypeError ''rows'')))"

section \<open>to_silver\<close>

definition envelope_of :: "extraction_job \<Rightarrow> fact_envelope" where
  "envelope_of j = \<lparr>ne_entity = xj_entity j, ne_record = xj_record j, ne_batch = xj_batch j, ne_ingest = xj_ingest j, ne_run = xj_run j\<rparr>"

text \<open>The hook inside the header's transaction; a plain type has none.\<close>

definition extra_silver_write ::
  "extract_env \<Rightarrow> string \<Rightarrow> extraction_job \<Rightarrow> uuid option \<Rightarrow> fields \<Rightarrow> silver_tables \<Rightarrow> exc + silver_tables" where
  "extra_silver_write env code j prior fs db = (case fact_table code of None \<Rightarrow> Inr db | Some tb \<Rightarrow>
     let ls = (case prior of None \<Rightarrow> fact_lines_of tb db | Some p \<Rightarrow> close_prior_fact_rows (xj_now j) p (fact_lines_of tb db)) in
     rbind (facts_of_fields env code fs) (\<lambda>facts.
     rbind (record_fact_rows (xe_line_error env) tb (envelope_of j) (zip (map (xj_line j) [0..<length facts]) facts) ls) (\<lambda>ls'.
       Inr (put_fact_lines tb ls' db))))"

definition master_header :: "string \<Rightarrow> extraction_job \<Rightarrow> string \<Rightarrow> date \<Rightarrow> master_record" where
  "master_header code j ref d =
     \<lparr>ms_entity = xj_entity j, ms_type = code, ms_reference = ref, ms_as_of = d, ms_status = ''ACTIVE'', ms_details = [],
      ms_batch = xj_batch j, ms_ingest = xj_ingest j\<rparr>"

definition master_row ::
  "extract_env \<Rightarrow> extraction_job \<Rightarrow> string \<Rightarrow> field_value \<Rightarrow> fields \<Rightarrow> silver_tables \<Rightarrow> exc + silver_tables" where
  "master_row env j code date fs db =
     rbind (need fs ''reference_number'') (\<lambda>ref. rbind (text_column env ref) (\<lambda>r. rbind (date_column env date) (\<lambda>d.
     rbind (record_or_supersede (xe_facts env) master_service (batches db) (xj_now j) (xj_record j) (master_header code j r d) (td_masters db))
       (\<lambda>(prior, t). extra_silver_write env code j prior fs (db\<lparr>td_masters := t\<rparr>)))))"

definition master_to_silver ::
  "extract_env \<Rightarrow> string \<Rightarrow> extraction_job \<Rightarrow> extraction \<Rightarrow> extract_world \<Rightarrow> to_silver_result" where
  "master_to_silver env code j outcome w = (case outcome of
      NoTextLayer \<Rightarrow> refuse env j code [''NoTextLayer''] ''NoTextLayer'' w
    | Partial fs missing failed \<Rightarrow> refuse env j code (partial_reasons missing failed) (partial_reason missing failed) w
    | Extracted fs \<Rightarrow>
        (case need fs ''as_of_date'' of
           Inl e \<Rightarrow> (Inl e, w)
         | Inr date \<Rightarrow> batch_then env j code date (master_row env j code date fs) w))"

section \<open>What a table document leaves\<close>

definition fact_line_of :: "fact_envelope \<Rightarrow> uuid \<times> (string \<times> fact_cell) list \<Rightarrow> fact_line" where
  "fact_line_of env ir = \<lparr>fl_id = fst ir, fl_record = ne_record env, fl_entity = ne_entity env, fl_cells = stored_fact (snd ir),
     fl_ingest = ne_ingest env, fl_run = ne_run env, fl_batch = ne_batch env, fl_superseded_at = None\<rparr>"

lemma insert_fact_line_Inr:
  "insert_fact_line err tb env ls ir = Inr ls' \<Longrightarrow> ls' = ls @ [fact_line_of env ir]
     \<and> (\<forall>x\<in>set ls. fl_live x \<longrightarrow> line_key tb x \<noteq> line_key tb (fact_line_of env ir))"
  by (cases ir) (auto simp: insert_fact_line_def fact_line_of_def Let_def split: option.splits if_splits)

lemma record_fact_rows_Inr:
  "record_fact_rows err tb env rs ls = Inr ls' \<Longrightarrow> ls' = ls @ map (fact_line_of env) rs
     \<and> (\<forall>x\<in>set ls. \<forall>ir\<in>set rs. fl_live x \<longrightarrow> line_key tb x \<noteq> line_key tb (fact_line_of env ir))"
proof (induction rs arbitrary: ls)
  case (Cons r rs)
  then obtain l1 where "insert_fact_line err tb env ls r = Inr l1" "record_fact_rows err tb env rs l1 = Inr ls'"
    by (auto simp: record_fact_rows_def rbind_eq_Inr_iff)
  with Cons.IH[of l1] insert_fact_line_Inr[of err tb env ls r l1] show ?case by auto
qed (simp add: record_fact_rows_def)

lemma line_key_of: "line_key tb (fact_line_of env (i, cells)) = (ne_entity env, map (map_of cells) (line_key_columns tb))"
proof -
  have "map_of (stored_fact cells) c = map_of cells c" if "c \<in> set (line_key_columns tb)" for c
  proof -
    have "fact_column c = None" using that by (auto simp: line_key_columns_def fact_column_def split: if_splits)
    then show ?thesis by (simp add: stored_fact_def map_of_map_snd_with_key stored_fact_cell_def option.map_ident)
  qed
  then show ?thesis by (simp add: line_key_def fact_line_of_def)
qed

lemma create_batch_Inr:
  assumes "create_single_document_batch env j code period db = Inr db1"
  obtains b where "db1 = db\<lparr>batches := batches db @ [b]\<rparr>" "ib_batch_id b = xj_batch j" "ib_manifest_ref b = xj_ingest j"
    "ib_row_count b = 1" "ib_status b = ''READY''" "ib_document_type b = code"
  using assms by (fastforce simp: create_single_document_batch_def rbind_eq_Inr_iff dest!: insert_batch_Inr)

lemma master_row_Inr:
  assumes "master_row env j code date fs db = Inr db'"
  obtains ref r d prior t where "need fs ''reference_number'' = Inr ref" "text_column env ref = Inr r" "date_column env date = Inr d"
    "record_or_supersede (xe_facts env) master_service (batches db) (xj_now j) (xj_record j) (master_header code j r d) (td_masters db) = Inr (prior, t)"
    "extra_silver_write env code j prior fs (db\<lparr>td_masters := t\<rparr>) = Inr db'"
  using assms by (auto simp: master_row_def rbind_eq_Inr_iff)

lemma extra_silver_write_Inr:
  assumes "fact_table code = Some tb" "extra_silver_write env code j prior fs db = Inr db'"
  obtains facts where "facts_of_fields env code fs = Inr facts"
    "db' = put_fact_lines tb ((case prior of None \<Rightarrow> fact_lines_of tb db | Some p \<Rightarrow> close_prior_fact_rows (xj_now j) p (fact_lines_of tb db))
        @ map (fact_line_of (envelope_of j)) (zip (map (xj_line j) [0..<length facts]) facts)) db"
    "\<forall>x\<in>set (case prior of None \<Rightarrow> fact_lines_of tb db | Some p \<Rightarrow> close_prior_fact_rows (xj_now j) p (fact_lines_of tb db)).
       \<forall>ir\<in>set (zip (map (xj_line j) [0..<length facts]) facts). fl_live x \<longrightarrow> line_key tb x \<noteq> line_key tb (fact_line_of (envelope_of j) ir)"
  using assms(2) by (auto simp: extra_silver_write_def assms(1) Let_def rbind_eq_Inr_iff dest!: record_fact_rows_Inr)

lemma master_to_silver_Inr:
  assumes "master_to_silver env code j (Extracted fs) w = (Inr r, w')"
  obtains date db1 where "need fs ''as_of_date'' = Inr date" "create_single_document_batch env j code date (xw_db w) = Inr db1"
    "master_row env j code date fs db1 = Inr (xw_db w')"
    "r = \<lparr>wr_written = True, wr_record = Some (xj_record j), wr_batch = Some (xj_batch j), wr_reason = None\<rparr>"
  using assms by (auto simp: master_to_silver_def batch_then_def split: sum.splits)

lemma filter_suffix: "(\<And>x. x \<in> set xs \<Longrightarrow> \<not> P x) \<Longrightarrow> (\<And>x. x \<in> set ys \<Longrightarrow> P x) \<Longrightarrow> filter P (xs @ ys) = ys"
  by (simp add: filter_empty_conv)

lemma filter_prefix: "(\<And>x. x \<in> set xs \<Longrightarrow> P x) \<Longrightarrow> (\<And>x. x \<in> set ys \<Longrightarrow> \<not> P x) \<Longrightarrow> filter P (xs @ ys) = xs"
  by (simp add: filter_empty_conv)

text \<open>
  C20. A table document that is written becomes the current record of its reference number; its rows are
  the live lines of that record, in the order of the document, with every number as its column rounds
  it. The lines that were live under the
  record it replaces are superseded at the time of the write and not otherwise changed; every other
  line, other line tables and other records stay as they were.
\<close>

theorem table_document_replaces_lines:
  assumes "master_to_silver env code j (Extracted fs) w = (Inr r, w')" "fact_table code = Some tb"
    and "filed_ok (sv_key master_service) (td_masters (xw_db w))"
    and "xj_record j \<notin> fl_record ` set (fact_lines_of tb (xw_db w))"
  shows "\<exists>facts ref d. facts_of_fields env code fs = Inr facts
    \<and> map fl_cells (filter (\<lambda>l. fl_record l = xj_record j \<and> fl_live l) (fact_lines_of tb (xw_db w'))) = map stored_fact facts
    \<and> filter (\<lambda>l. fl_record l \<noteq> xj_record j) (fact_lines_of tb (xw_db w')) =
       map (\<lambda>l. if fl_superseded_at l = None \<and> map_option fi_id
             (find_current (sv_key master_service) (xj_entity j, code, ByNumber ref) (td_masters (xw_db w))) = Some (fl_record l)
           then l\<lparr>fl_superseded_at := Some (xj_now j)\<rparr> else l) (fact_lines_of tb (xw_db w))
    \<and> current_of (sv_key master_service) (td_masters (xw_db w')) (xj_entity j, code, ByNumber ref) = Some (master_header code j ref d)
    \<and> (\<forall>k. k \<noteq> (xj_entity j, code, ByNumber ref) \<longrightarrow>
         current_of (sv_key master_service) (td_masters (xw_db w')) k = current_of (sv_key master_service) (td_masters (xw_db w)) k)
    \<and> (\<forall>other. other \<noteq> tb \<longrightarrow> fact_lines_of other (xw_db w') = fact_lines_of other (xw_db w))"
proof -
  from assms(1) obtain date db1 where m: "create_single_document_batch env j code date (xw_db w) = Inr db1"
      "master_row env j code date fs db1 = Inr (xw_db w')"
    by (rule master_to_silver_Inr)
  from m(1) obtain b where db1: "db1 = (xw_db w)\<lparr>batches := batches (xw_db w) @ [b]\<rparr>" by (rule create_batch_Inr)
  from m(2) obtain ref d prior t where row:
      "record_or_supersede (xe_facts env) master_service (batches db1) (xj_now j) (xj_record j) (master_header code j ref d) (td_masters db1) = Inr (prior, t)"
      "extra_silver_write env code j prior fs (db1\<lparr>td_masters := t\<rparr>) = Inr (xw_db w')"
    by (rule master_row_Inr)
  let ?old = "fact_lines_of tb (xw_db w)"
  let ?kept = "case prior of None \<Rightarrow> ?old | Some p \<Rightarrow> close_prior_fact_rows (xj_now j) p ?old"
  let ?k = "(xj_entity j, code, ByNumber ref)"
  have key: "sv_key master_service (master_header code j ref d) = ?k" by (simp add: master_service_def master_header_def)
  have same: "fact_lines_of x (db1\<lparr>td_masters := t\<rparr>) = fact_lines_of x (xw_db w)" for x by (simp add: db1 fact_lines_of_def)
  have tm: "td_masters db1 = td_masters (xw_db w)" by (simp add: db1)
  from row(2) obtain facts where f: "facts_of_fields env code fs = Inr facts"
      "xw_db w' = put_fact_lines tb (?kept @ map (fact_line_of (envelope_of j)) (zip (map (xj_line j) [0..<length facts]) facts)) (db1\<lparr>td_masters := t\<rparr>)"
    by (rule extra_silver_write_Inr[OF assms(2)]) (simp only: same)
  note c = record_or_supersede_cases[OF assms(3)[folded tm] row(1), unfolded key tm]
  let ?new = "map (fact_line_of (envelope_of j)) (zip (map (xj_line j) [0..<length facts]) facts)"
  have old: "fl_record l \<noteq> xj_record j" if "l \<in> set ?old" for l using assms(4) that by (metis imageI)
  have kept: "fl_record l \<noteq> xj_record j" if "l \<in> set ?kept" for l
    using that by (auto simp: close_prior_fact_rows_def dest: old split: option.splits if_splits)
  have new: "fl_record l = xj_record j \<and> fl_live l" if "l \<in> set ?new" for l
    using that by (auto simp: fact_line_of_def envelope_of_def fl_live_def)
  have "map fl_cells ?new = map (stored_fact \<circ> snd) (zip (map (xj_line j) [0..<length facts]) facts)"
    by (simp add: fact_line_of_def comp_def)
  then have cells: "map fl_cells ?new = map stored_fact facts" by (simp flip: map_map)
  have lines: "fact_lines_of tb (xw_db w') = ?kept @ ?new" by (simp add: f(2))
  have "filter (\<lambda>l. fl_record l = xj_record j \<and> fl_live l) (?kept @ ?new) = ?new"
    by (rule filter_suffix) (simp_all add: kept new del: set_map)
  moreover have "filter (\<lambda>l. fl_record l \<noteq> xj_record j) (?kept @ ?new) = ?kept"
    by (rule filter_prefix) (simp_all add: kept new del: set_map)
  moreover have "?kept = map (\<lambda>l. if fl_superseded_at l = None
         \<and> map_option fi_id (find_current (sv_key master_service) ?k (td_masters (xw_db w))) = Some (fl_record l)
       then l\<lparr>fl_superseded_at := Some (xj_now j)\<rparr> else l) ?old"
    unfolding c(2)[symmetric] by (cases prior) (auto simp: close_prior_fact_rows_def fl_live_def)
  moreover have "td_masters (xw_db w') = t" by (simp add: f(2) put_fact_lines_def)
  moreover have "current_of (sv_key master_service) t k = (if k = ?k then Some (master_header code j ref d)
      else current_of (sv_key master_service) (td_masters (xw_db w)) k)" for k
    using c(4)[of k] by (simp add: current_of_def)
  moreover have "fact_lines_of other (xw_db w') = fact_lines_of other (xw_db w)" if "other \<noteq> tb" for other
    using that by (simp add: f(2) same)
  ultimately show ?thesis using f(1) cells lines by auto
qed

text \<open>What a document that is refused leaves: at most its batch.\<close>

lemma master_refused:
  assumes "\<And>db1 t date. td_masters db1 = td_masters (xw_db w) \<Longrightarrow> td_fact_lines db1 = td_fact_lines (xw_db w)
    \<Longrightarrow> master_row env j code date fs db1 \<noteq> Inr t"
  shows "\<exists>e w'. master_to_silver env code j (Extracted fs) w = (Inl e, w')
    \<and> td_masters (xw_db w') = td_masters (xw_db w) \<and> td_fact_lines (xw_db w') = td_fact_lines (xw_db w)"
proof -
  have row: "\<exists>e. master_row env j code date fs ((xw_db w)\<lparr>batches := bs\<rparr>) = Inl e" for date bs
    using assms[of "(xw_db w)\<lparr>batches := bs\<rparr>"] by (cases "master_row env j code date fs ((xw_db w)\<lparr>batches := bs\<rparr>)") auto
  have "\<exists>e w'. batch_then env j code date (master_row env j code date fs) w = (Inl e, w')
      \<and> td_masters (xw_db w') = td_masters (xw_db w) \<and> td_fact_lines (xw_db w') = td_fact_lines (xw_db w)" for date
  proof (cases "create_single_document_batch env j code date (xw_db w)")
    case (Inr db1)
    then obtain b where "db1 = (xw_db w)\<lparr>batches := batches (xw_db w) @ [b]\<rparr>" by (rule create_batch_Inr)
    moreover with row obtain e where "master_row env j code date fs db1 = Inl e" by blast
    ultimately show ?thesis by (simp add: batch_then_def Inr)
  qed (simp add: batch_then_def)
  then show ?thesis by (auto simp: master_to_silver_def split: sum.splits)
qed

text \<open>
  The list of another year is refused. A document whose reference number is not on file, but one of
  whose rows has the business key of a live line of the same entity, is not written: the record it
  supersedes is looked for under the reference number, so no line is closed, and the unique index of the
  line table rejects the row. The lists print the financial years they cover as their reference number, and
  the same directors and registrations again every year.
\<close>

theorem other_reference_refused:
  assumes "fact_table code = Some tb" "need fs ''reference_number'' = Inr ref" "text_column env ref = Inr number"
    and "find_current (sv_key master_service) (xj_entity j, code, ByNumber number) (td_masters (xw_db w)) = None"
    and "facts_of_fields env code fs = Inr facts" "cells \<in> set facts"
    and "x \<in> set (fact_lines_of tb (xw_db w))" "fl_live x" "line_key tb x = (xj_entity j, map (map_of cells) (line_key_columns tb))"
  shows "\<exists>e w'. master_to_silver env code j (Extracted fs) w = (Inl e, w')
    \<and> td_masters (xw_db w') = td_masters (xw_db w) \<and> td_fact_lines (xw_db w') = td_fact_lines (xw_db w)"
proof (rule master_refused, rule notI)
  fix db1 t date
  assume same: "td_masters db1 = td_masters (xw_db w)" "td_fact_lines db1 = td_fact_lines (xw_db w)"
    and "master_row env j code date fs db1 = Inr t"
  then obtain ref' r d prior t1 where row: "need fs ''reference_number'' = Inr ref'" "text_column env ref' = Inr r"
      "record_or_supersede (xe_facts env) master_service (batches db1) (xj_now j) (xj_record j) (master_header code j r d) (td_masters db1) = Inr (prior, t1)"
      "extra_silver_write env code j prior fs (db1\<lparr>td_masters := t1\<rparr>) = Inr t"
    by (elim master_row_Inr)
  have "r = number" using row(1,2) assms(2,3) by simp
  then have "prior = None" using row(3) assms(4) same(1)
    by (auto simp: record_or_supersede_def close_current_def master_service_def master_header_def rbind_eq_Inr_iff)
  from row(4) obtain facts' where f: "facts_of_fields env code fs = Inr facts'"
      "\<forall>x\<in>set (case prior of None \<Rightarrow> fact_lines_of tb (db1\<lparr>td_masters := t1\<rparr>)
         | Some p \<Rightarrow> close_prior_fact_rows (xj_now j) p (fact_lines_of tb (db1\<lparr>td_masters := t1\<rparr>))).
       \<forall>ir\<in>set (zip (map (xj_line j) [0..<length facts']) facts'). fl_live x \<longrightarrow> line_key tb x \<noteq> line_key tb (fact_line_of (envelope_of j) ir)"
    by (rule extra_silver_write_Inr[OF assms(1)])
  have facts: "facts' = facts" using f(1) assms(5) by simp
  have ls: "fact_lines_of tb (db1\<lparr>td_masters := t1\<rparr>) = fact_lines_of tb (xw_db w)" by (simp add: fact_lines_of_def same)
  have "cells \<in> snd ` set (zip (map (xj_line j) [0..<length facts]) facts)"
    using assms(6) by (metis length_map length_upt map_snd_zip minus_nat.diff_0 set_map)
  then obtain i where "(i, cells) \<in> set (zip (map (xj_line j) [0..<length facts]) facts)" by auto
  with f(2) assms(7,8) have "line_key tb x \<noteq> line_key tb (fact_line_of (envelope_of j) (i, cells))"
    by (auto simp: \<open>prior = None\<close> ls facts)
  then show False using assms(9) by (simp add: line_key_of envelope_of_def)
qed

section \<open>A list of directors and the one after it\<close>

definition demo_extract_env :: extract_env where
  "demo_extract_env = \<lparr>xe_promote = demo_promote_env\<lparr>pe_vocabulary := [(''Document_Type'', ''DIRECTOR_LIST_WITH_DIN''),
       (''Document_Type'', ''LUT''), (''Source_Stream'', ''B''), (''Batch_Status'', ''READY'')]\<rparr>,
     xe_registers = demo_register_env,
     xe_facts = \<lparr>fe_doc_types = [(''DIRECTOR_LIST_WITH_DIN'', 7), (''LUT'', 3)],
       fe_vocabulary = [(''Master_Record_Status'', ''ACTIVE''), (''Issuing_Authority'', ''GSTN''), (''Instrument_Status'', ''ACTIVE'')]\<rparr>,
     xe_line_error = (\<lambda>tb cells. None), xe_text = (\<lambda>v. Inl (DataError [])), xe_date = (\<lambda>v. Inl (DataError [])),
     xe_amount = (\<lambda>v. Inl (DataError [])), xe_array = (\<lambda>v. Inl (DataError [])), xe_digest = take 4, xe_store = None,
     xe_slug = ''acme'', xe_label = ''acme'', xe_today = Date 2026 4 1, xe_fy_month = 4\<rparr>"

definition demo_job :: "nat \<Rightarrow> extraction_job" where
  "demo_job n = \<lparr>xj_entity = 1, xj_ingest = 10 + n, xj_pdf = ''%PDF'', xj_run = 20 + n, xj_batch = 30 + n, xj_record = 40 + n,
     xj_line = (\<lambda>i. 100 * n + i), xj_now = n\<rparr>"

definition demo_list :: "string \<Rightarrow> string list \<Rightarrow> fields" where
  "demo_list years dins = [(''reference_number'', FText years), (''as_of_date'', FDate (Date 2025 3 31)),
     (''_table_rows'', FTable (map (\<lambda>d. [(''name'', FText ''A Rao''), (''din'', FText d)]) dins))]"

definition demo_silver_world :: extract_world where
  "demo_silver_world = \<lparr>xw_db = empty_tables, xw_store = \<lparr>buckets = [], objects = []\<rparr>\<rparr>"

definition demo_first :: to_silver_result where
  "demo_first = master_to_silver demo_extract_env ''DIRECTOR_LIST_WITH_DIN'' (demo_job 1)
     (Extracted (demo_list ''2023-24'' [''00000001'', ''00000002''])) demo_silver_world"

definition demo_corrected :: to_silver_result where
  "demo_corrected = master_to_silver demo_extract_env ''DIRECTOR_LIST_WITH_DIN'' (demo_job 2)
     (Extracted (demo_list ''2023-24'' [''00000002'', ''00000003''])) (snd demo_first)"

definition demo_filed :: "master_record filed" where
  "demo_filed = \<lparr>fi_id = 41, fi_record = master_header ''DIRECTOR_LIST_WITH_DIN'' (demo_job 1) ''2023-24'' (Date 2025 3 31),
     fi_supersedes = None, fi_superseded_at = None\<rparr>"

lemma filed_ok_single: "fi_supersedes f = None \<Longrightarrow> fi_live f \<Longrightarrow> filed_ok key [f]"
  by (simp add: filed_ok_def versions_of_def)

lemma demo_first_masters: "td_masters (xw_db (snd demo_first)) = [demo_filed]"
  by code_simp

definition demo_two_directors :: "(string \<times> fact_cell) list list" where
  "demo_two_directors = [[(''name'', CText ''A Rao''), (''din'', CText ''00000002'')], [(''name'', CText ''A Rao''), (''din'', CText ''00000003'')]]"

theorem table_document_replaces_lines_witness:
  "\<exists>r w'. demo_corrected = (Inr r, w')
     \<and> map fl_cells (filter (\<lambda>l. fl_record l = 42 \<and> fl_live l) (fact_lines_of ''director_list_din'' (xw_db w'))) = demo_two_directors"
proof -
  have "case fst demo_corrected of Inr r \<Rightarrow> True | Inl e \<Rightarrow> False" by code_simp
  then obtain r where "fst demo_corrected = Inr r" by (cases "fst demo_corrected") simp_all
  then obtain w' where run: "demo_corrected = (Inr r, w')" by (metis prod.collapse)
  have code: "fact_table ''DIRECTOR_LIST_WITH_DIN'' = Some ''director_list_din''" by code_simp
  have ok: "filed_ok (sv_key master_service) (td_masters (xw_db (snd demo_first)))"
    unfolding demo_first_masters by (rule filed_ok_single) (simp_all add: demo_filed_def fi_live_def)
  have fresh: "xj_record (demo_job 2) \<notin> fl_record ` set (fact_lines_of ''director_list_din'' (xw_db (snd demo_first)))"
    by code_simp
  have facts: "facts_of_fields demo_extract_env ''DIRECTOR_LIST_WITH_DIN'' (demo_list ''2023-24'' [''00000002'', ''00000003'']) =
      Inr demo_two_directors" by code_simp
  have job: "xj_record (demo_job 2) = 42" by (simp add: demo_job_def)
  from table_document_replaces_lines[OF run[unfolded demo_corrected_def] code ok fresh, unfolded facts job]
  obtain facts' where f: "Inr demo_two_directors = (Inr facts' :: exc + (string \<times> fact_cell) list list)"
      "map fl_cells (filter (\<lambda>l. fl_record l = 42 \<and> fl_live l) (fact_lines_of ''director_list_din'' (xw_db w'))) = map stored_fact facts'"
    by blast
  from f(1) have "facts' = demo_two_directors" by simp
  moreover have "map stored_fact demo_two_directors = demo_two_directors" by code_simp
  ultimately show ?thesis using f(2) run by (intro exI[of _ r] exI[of _ w'] conjI) simp_all
qed

definition demo_old_line :: fact_line where
  "demo_old_line = fact_line_of (envelope_of (demo_job 1)) (100, [(''name'', CText ''A Rao''), (''din'', CText ''00000001'')])"

theorem other_reference_refused_witness:
  "\<exists>e w'. master_to_silver demo_extract_env ''DIRECTOR_LIST_WITH_DIN'' (demo_job 2)
       (Extracted (demo_list ''2024-25'' [''00000001''])) (snd demo_first) = (Inl e, w')
     \<and> td_masters (xw_db w') = [demo_filed]"
proof -
  let ?fs = "demo_list ''2024-25'' [''00000001'']"
  have "fact_table ''DIRECTOR_LIST_WITH_DIN'' = Some ''director_list_din''" by code_simp
  moreover have "need ?fs ''reference_number'' = Inr (FText ''2024-25'')" by code_simp
  moreover have "text_column demo_extract_env (FText ''2024-25'') = Inr ''2024-25''" by (simp add: text_column_def)
  moreover have "find_current (sv_key master_service) (xj_entity (demo_job 2), ''DIRECTOR_LIST_WITH_DIN'', ByNumber ''2024-25'')
      (td_masters (xw_db (snd demo_first))) = None" by code_simp
  moreover have "facts_of_fields demo_extract_env ''DIRECTOR_LIST_WITH_DIN'' ?fs = Inr [fl_cells demo_old_line]" by code_simp
  moreover have "fl_cells demo_old_line \<in> set [fl_cells demo_old_line]" by simp
  moreover have "demo_old_line \<in> set (fact_lines_of ''director_list_din'' (xw_db (snd demo_first)))" by code_simp
  moreover have "fl_live demo_old_line" by code_simp
  moreover have "line_key ''director_list_din'' demo_old_line
      = (xj_entity (demo_job 2), map (map_of (fl_cells demo_old_line)) (line_key_columns ''director_list_din''))" by code_simp
  ultimately have "\<exists>e w'. master_to_silver demo_extract_env ''DIRECTOR_LIST_WITH_DIN'' (demo_job 2) (Extracted ?fs) (snd demo_first) = (Inl e, w')
      \<and> td_masters (xw_db w') = td_masters (xw_db (snd demo_first)) \<and> td_fact_lines (xw_db w') = td_fact_lines (xw_db (snd demo_first))"
    by (rule other_reference_refused)
  then show ?thesis by (simp add: demo_first_masters) blast
qed

end
