(* ===== verification/PdfPipeline.thy ===== *)
theory PdfPipeline
  imports EntityMasters
begin

text \<open>
  From the bytes of a PDF to a Silver row: the reader (\<open>src/src/extraction/reader.py\<close>), the registry of
  extractors built from the document types (\<open>registry.py\<close>), the two archetypes that hand a CSV file to
  an existing loader (\<open>TransactionDocumentExtractor\<close> and \<open>RegisterDocumentExtractor\<close> of \<open>base.py\<close>), and
  \<open>run_extraction\<close> of \<open>dispatch.py\<close>. What the PDF library and the OCR engine make of the bytes is a
  parameter.
\<close>

section \<open>Readers\<close>

record pdf_text =
  px_pages :: "string list"
  px_native :: bool
  px_source :: string

type_synonym pdf_reader = "bytes \<Rightarrow> exc + pdf_text"

definition native_text_min_chars :: nat where
  "native_text_min_chars = 20"

definition usable :: "string list \<Rightarrow> bool" where
  "usable pages \<longleftrightarrow> native_text_min_chars \<le> sum_list (map (\<lambda>p. cp_length (strip p)) pages)"

text \<open>\<open>src/src/extraction/ocr.py\<close>: the texts the engine recognised on each rendered page.\<close>

definition ocr_reader :: "(bytes \<Rightarrow> exc + string list list) \<Rightarrow> pdf_reader" where
  "ocr_reader recognise data = rbind (recognise data) (\<lambda>found. let pages = map (join [CHR 0x0A]) found in
     Inr \<lparr>px_pages = pages, px_native = usable pages, px_source = ''ocr''\<rparr>)"

text \<open>\<open>None\<close> is any \<open>PyPdfError\<close>.\<close>

definition pypdf_reader :: "(bytes \<Rightarrow> string list option) \<Rightarrow> pdf_reader" where
  "pypdf_reader parse data = (case parse data of
      None \<Rightarrow> Inl (UnreadablePdfError ''could not read PDF'')
    | Some pages \<Rightarrow> Inr \<lparr>px_pages = pages, px_native = usable pages, px_source = ''native''\<rparr>)"

definition fallback_reader :: "pdf_reader \<Rightarrow> pdf_reader option \<Rightarrow> pdf_reader" where
  "fallback_reader primary secondary data = rbind (primary data) (\<lambda>first.
     if px_native first then Inr first
     else (case secondary of None \<Rightarrow> Inr first | Some r \<Rightarrow> rbind (r data) (\<lambda>second.
       Inr (if px_native second then \<lparr>px_pages = px_pages second, px_native = True, px_source = ''ocr''\<rparr> else first))))"

section \<open>Transaction documents and registers\<close>

definition promotion_of :: "extract_env \<Rightarrow> string \<Rightarrow> extraction_job \<Rightarrow> bytes \<Rightarrow> date \<Rightarrow> promotion" where
  "promotion_of env code j data period =
     \<lparr>pm_label = xe_label env, pm_slug = xe_slug env, pm_doc_type = code, pm_ingest = xj_ingest j, pm_entity = xj_entity j,
      pm_data = data, pm_period_start = period, pm_period_end = period, pm_run = xj_run j, pm_batch = xj_batch j, pm_now = xj_now j\<rparr>"

definition transaction_to_silver ::
  "extract_env \<Rightarrow> transaction_pdf \<Rightarrow> string \<Rightarrow> extraction_job \<Rightarrow> extraction \<Rightarrow> extract_world \<Rightarrow> to_silver_result" where
  "transaction_to_silver env k code j outcome w = (case outcome of
      NoTextLayer \<Rightarrow> refuse env j code [''NoTextLayer''] ''NoTextLayer'' w
    | Partial fs missing failed \<Rightarrow> refuse env j code (partial_reasons missing failed) (partial_reason missing failed) w
    | Extracted fs \<Rightarrow>
        (case rbind (transaction_row k fs) (\<lambda>(row, d). rbind (transaction_file row) (\<lambda>data. Inr (data, d))) of
           Inl e \<Rightarrow> (Inl e, w)
         | Inr (data, d) \<Rightarrow>
             (case promote_run (xe_promote env) (promotion_of env code j data d) (xw_db w) of
                (Inr m, db) \<Rightarrow>
                  (Inr \<lparr>wr_written = True, wr_record = Some (bm_batch_id m), wr_batch = Some (bm_batch_id m), wr_reason = None\<rparr>,
                   \<lparr>xw_db = db, xw_store = put_silver_copy env j code (xw_store w)\<rparr>)
              | (Inl (ValidationRejected why), db) \<Rightarrow>
                  (Inr \<lparr>wr_written = False, wr_record = None, wr_batch = None, wr_reason = Some why\<rparr>, w\<lparr>xw_db := db\<rparr>)
              | (Inl e, db) \<Rightarrow> (Inl e, w\<lparr>xw_db := db\<rparr>))))"

definition fixed_entity_gstin :: string where
  "fixed_entity_gstin = ''27AABCM4521F1Z5''"

definition register_code :: "register_pdf \<Rightarrow> string" where
  "register_code k = (case k of PayrollTds \<Rightarrow> ''PAYROLL_TDS_REGISTER'' | FircBrc \<Rightarrow> ''FIRC_BRC_REGISTER'' | Form15ca \<Rightarrow> ''FORM_15CA_15CB'')"

definition register_job :: "extract_env \<Rightarrow> register_pdf \<Rightarrow> extraction_job \<Rightarrow> bytes \<Rightarrow> register_load" where
  "register_job env k j data =
     \<lparr>rl_entity = xj_entity j, rl_gstin = fixed_entity_gstin, rl_ingest = xj_ingest j, rl_data = data,
      rl_period_start = xe_today env, rl_period_end = xe_today env, rl_doc_type = Some (register_code k), rl_run = xj_run j,
      rl_format = ''csv'', rl_batch = xj_batch j, rl_now = xj_now j\<rparr>"

definition load_report :: "register_outcome \<Rightarrow> string" where
  "load_report out = ''inserted='' @ nat_str (n_inserted (ro_tally out)) @ '' unchanged='' @ nat_str (n_unchanged (ro_tally out))
     @ '' superseded='' @ nat_str (n_superseded (ro_tally out)) @ '' rejected='' @ nat_str (ro_rejected out)"

text \<open>\<open>fields["rows"]\<close> of what the register parsers return.\<close>

definition rows_field :: "fields \<Rightarrow> exc + text_row list" where
  "rows_field fs = rbind (need fs ''rows'') (\<lambda>v. case v of FRows rs \<Rightarrow> Inr rs | _ \<Rightarrow> Inl (AttributeError ''keys''))"

definition register_to_silver ::
  "extract_env \<Rightarrow> register_pdf \<Rightarrow> extraction_job \<Rightarrow> extraction \<Rightarrow> extract_world \<Rightarrow> to_silver_result" where
  "register_to_silver env k j outcome w = (case outcome of
      NoTextLayer \<Rightarrow> refuse env j (register_code k) [''NoTextLayer''] ''NoTextLayer'' w
    | Partial fs missing failed \<Rightarrow> refuse env j (register_code k) (partial_reasons missing failed) (partial_reason missing failed) w
    | Extracted fs \<Rightarrow>
        (case rbind (rows_field fs) (register_file k) of
           Inl e \<Rightarrow> (Inl e, w)
         | Inr data \<Rightarrow>
             (case on_registers (register_load_run (xe_registers env) (register_of k) (register_job env k j data)) (xw_db w) of
                (Inr out, db) \<Rightarrow>
                  (Inr \<lparr>wr_written = True, wr_record = Some (ro_batch out), wr_batch = Some (ro_batch out), wr_reason = Some (load_report out)\<rparr>,
                   \<lparr>xw_db = db, xw_store = put_silver_copy env j (register_code k) (xw_store w)\<rparr>)
              | (Inl (ValidationRejected why), db) \<Rightarrow>
                  (Inr \<lparr>wr_written = False, wr_record = None, wr_batch = None, wr_reason = Some why\<rparr>, w\<lparr>xw_db := db\<rparr>)
              | (Inl e, db) \<Rightarrow> (Inl e, w\<lparr>xw_db := db\<rparr>))))"

section \<open>The registry of extractors\<close>

datatype extractor_kind =
    KEntitlement | KFinancial | KEvent | KMaster | KTable table_spec | KShareholding table_spec | KContract
  | KTransaction transaction_pdf | KRegister register_pdf

record extractor =
  et_code :: string
  et_labels :: label_spec
  et_authority :: string
  et_kind :: extractor_kind

record registry_row =
  dt_code :: string
  dt_archetype :: nat
  dt_in_scope :: bool
  dt_extraction_spec :: string
  dt_mechanism :: string

definition archetype_kind :: "nat \<Rightarrow> extractor_kind option" where
  "archetype_kind n = map_of [(3, KEntitlement), (4, KFinancial), (6, KEvent), (7, KMaster), (8, KContract)] n"

definition make_extractor :: "string \<Rightarrow> label_spec \<Rightarrow> string option \<Rightarrow> extractor_kind \<Rightarrow> extractor" where
  "make_extractor code labels authority k =
     \<lparr>et_code = code, et_labels = labels, et_authority = (case authority of Some a \<Rightarrow> a | None \<Rightarrow> []), et_kind = k\<rparr>"

definition kind_of_row :: "registry_row \<Rightarrow> extraction_spec \<Rightarrow> exc + extractor_kind option" where
  "kind_of_row r sp =
     (if dt_archetype r = 1 then Inr (map_option KTransaction (transaction_kind (dt_code r)))
      else if dt_archetype r = 7 \<and> fact_table (dt_code r) \<noteq> None then
        (case es_table sp of
           None \<Rightarrow> Inl (ValueError (dt_code r @ '': dispatch requires a table extraction but extraction_spec declares no table_pattern/table_columns''))
         | Some t \<Rightarrow> Inr (Some (if dt_code r = ''SHAREHOLDING_PATTERN'' then KShareholding t else KTable t)))
      else (case archetype_kind (dt_archetype r) of None \<Rightarrow> Inl (KeyError ''archetype'') | Some k \<Rightarrow> Inr (Some k)))"

definition add_extractor ::
  "(string \<Rightarrow> regex option) \<Rightarrow> (string \<times> extractor) list \<Rightarrow> registry_row \<Rightarrow> exc + (string \<times> extractor) list" where
  "add_extractor compile reg r =
     (if dt_extraction_spec r = [] then Inr reg
      else rbind (parse_extraction_spec compile (dt_extraction_spec r)) (\<lambda>sp. rbind (kind_of_row r sp) (\<lambda>k.
        case k of
          None \<Rightarrow> Inr reg
        | Some kind \<Rightarrow> rbind (label_spec_of sp) (\<lambda>labels.
            Inr (dict_put (dt_code r) (make_extractor (dt_code r) labels (es_authority sp) kind) reg)))))"

definition register_extractors :: "(string \<times> extractor) list" where
  "register_extractors = map (\<lambda>k. (register_code k, make_extractor (register_code k) [] None (KRegister k))) [PayrollTds, FircBrc, Form15ca]"

definition build_extractor_registry ::
  "(string \<Rightarrow> regex option) \<Rightarrow> registry_row list \<Rightarrow> exc + (string \<times> extractor) list" where
  "build_extractor_registry compile rs =
     rbind (rfold (add_extractor compile) [] (filter (\<lambda>r. dt_in_scope r \<and> dt_archetype r \<in> {1, 3, 4, 6, 7, 8}) rs))
       (\<lambda>reg. Inr (fold (\<lambda>(c, x). dict_put c x) register_extractors reg))"

section \<open>run_extraction\<close>

definition extract_fields :: "extract_env \<Rightarrow> extractor \<Rightarrow> string list \<Rightarrow> exc + extraction" where
  "extract_fields env x pages = (case et_kind x of
      KTable t \<Rightarrow> extract_table_facts (et_labels x) t pages
    | KShareholding t \<Rightarrow> extract_shareholding (xe_fy_month env) (et_labels x) t pages
    | KRegister k \<Rightarrow> extract_register k pages
    | _ \<Rightarrow> parse_label_value pages (et_labels x))"

definition to_silver :: "extract_env \<Rightarrow> extractor \<Rightarrow> extraction_job \<Rightarrow> extraction \<Rightarrow> extract_world \<Rightarrow> to_silver_result" where
  "to_silver env x j outcome w = (case et_kind x of
      KEntitlement \<Rightarrow> entitlement_to_silver env (et_code x) (et_authority x) j outcome w
    | KFinancial \<Rightarrow> financial_to_silver env (et_code x) j outcome w
    | KEvent \<Rightarrow> event_to_silver env (et_code x) (et_authority x) j outcome w
    | KMaster \<Rightarrow> master_to_silver env (et_code x) j outcome w
    | KTable t \<Rightarrow> master_to_silver env (et_code x) j outcome w
    | KShareholding t \<Rightarrow> master_to_silver env (et_code x) j outcome w
    | KContract \<Rightarrow> contract_to_silver env (et_code x) j outcome w
    | KTransaction k \<Rightarrow> transaction_to_silver env k (et_code x) j outcome w
    | KRegister k \<Rightarrow> register_to_silver env k j outcome w)"

definition run_extraction ::
  "extract_env \<Rightarrow> (string \<times> extractor) list \<Rightarrow> pdf_reader \<Rightarrow> string \<Rightarrow> extraction_job \<Rightarrow> extract_world
    \<Rightarrow> (exc + extraction \<times> write_result) \<times> extract_world" where
  "run_extraction env reg reader code j w =
     (case map_of reg code of
        None \<Rightarrow> (Inl (UnknownExtractorError (''no extractor registered for '' @ py_repr code)), w)
      | Some x \<Rightarrow>
          (case rbind (reader (xj_pdf j)) (\<lambda>t. if px_native t then extract_fields env x (px_pages t) else Inr NoTextLayer) of
             Inl e \<Rightarrow> (Inl e, w)
           | Inr outcome \<Rightarrow>
               (case to_silver env x j outcome w of
                  (Inl e, w') \<Rightarrow> (Inl e, w')
                | (Inr r, w') \<Rightarrow> (Inr (outcome, r), w'))))"

end
