(* ===== verification/ExtractionStatus.thy ===== *)
theory ExtractionStatus
  imports PdfPipeline Outcome
begin

text \<open>
  What an extraction returns against what it leaves: the tables every loader shares, and through them the
  status page. An extraction that returns agrees with the status page; one that raises may have committed
  its batch already.
\<close>

section \<open>The shared tables\<close>

definition same_core :: "'a silver_core_scheme \<Rightarrow> 'a silver_core_scheme \<Rightarrow> bool" where
  "same_core db db' \<longleftrightarrow> batches db' = batches db \<and> quarantined db' = quarantined db \<and> rejected_rows db' = rejected_rows db"

text \<open>One batch of the artefact, with \<open>n\<close> rejections, and nothing else in the shared tables.\<close>

definition loaded_batch :: "uuid \<Rightarrow> uuid \<Rightarrow> nat \<Rightarrow> silver_tables \<Rightarrow> silver_tables \<Rightarrow> bool" where
  "loaded_batch ingest u n db db' \<longleftrightarrow> (\<exists>b rs. batches db' = batches db @ [b] \<and> ib_batch_id b = u \<and> ib_manifest_ref b = ingest
     \<and> ib_status b = ''READY'' \<and> quarantined db' = quarantined db \<and> rejected_rows db' = rejected_rows db @ rs
     \<and> (\<forall>r\<in>set rs. rr_ingest_id r = ingest) \<and> length rs = n)"

lemma loaded_batchI:
  "batches db' = batches db @ [b] \<Longrightarrow> ib_batch_id b = u \<Longrightarrow> ib_manifest_ref b = ingest \<Longrightarrow> ib_status b = ''READY''
    \<Longrightarrow> quarantined db' = quarantined db \<Longrightarrow> rejected_rows db' = rejected_rows db @ rs
    \<Longrightarrow> \<forall>r\<in>set rs. rr_ingest_id r = ingest \<Longrightarrow> length rs = n \<Longrightarrow> loaded_batch ingest u n db db'"
  unfolding loaded_batch_def by blast

definition verdict_only :: "uuid \<Rightarrow> silver_tables \<Rightarrow> silver_tables \<Rightarrow> bool" where
  "verdict_only ingest db db' \<longleftrightarrow> has_verdict ingest db' \<and> batches db' = batches db"

lemma rows_keep_core:
  "entitlement_row env j code authority window fs db = Inr db' \<Longrightarrow> same_core db db'"
  "event_row env j code authority date fs db = Inr db' \<Longrightarrow> same_core db db'"
  "statement_row_of env j code fs db = Inr db' \<Longrightarrow> same_core db db'"
  "contract_row env j code fs db = Inr db' \<Longrightarrow> same_core db db'"
  by (auto simp: entitlement_row_def event_row_def statement_row_of_def contract_row_def rbind_eq_Inr_iff same_core_def)

lemma master_row_keeps_core: "master_row env j code date fs db = Inr db' \<Longrightarrow> same_core db db'"
proof (erule master_row_Inr)
  fix ref r d prior t
  assume "extra_silver_write env code j prior fs (db\<lparr>td_masters := t\<rparr>) = Inr db'"
  then show ?thesis
    by (cases "fact_table code") (auto simp: extra_silver_write_def Let_def rbind_eq_Inr_iff same_core_def put_fact_lines_def)
qed

lemma refuse_leaves:
  assumes "refuse env j code reasons why w = (Inr r, w')"
  shows "\<not> wr_written r \<and> wr_batch r = None \<and> verdict_only (xj_ingest j) (xw_db w) (xw_db w') \<and> xw_store w' = xw_store w"
proof -
  from assms obtain db where q: "extraction_quarantine env j code reasons (xw_db w) = Inr db" "w' = w\<lparr>xw_db := db\<rparr>"
    "\<not> wr_written r" "wr_batch r = None" by (auto simp: refuse_def split: sum.splits)
  from upsert_quarantine_Inr[OF q(1)[unfolded extraction_quarantine_def]] q(2-4) show ?thesis
    by (auto simp: verdict_only_def has_verdict_def intro: rev_image_eqI)
qed

lemma batch_then_leaves:
  assumes "batch_then env j code period row w = (Inr r, w')" and "\<And>db db'. row db = Inr db' \<Longrightarrow> same_core db db'"
  shows "wr_written r \<and> wr_batch r = Some (xj_batch j) \<and> loaded_batch (xj_ingest j) (xj_batch j) 0 (xw_db w) (xw_db w')"
proof -
  from assms(1) obtain db1 where c: "create_single_document_batch env j code period (xw_db w) = Inr db1" "row db1 = Inr (xw_db w')"
    "wr_written r" "wr_batch r = Some (xj_batch j)" by (auto simp: batch_then_def split: sum.splits)
  from c(1) obtain b where "db1 = (xw_db w)\<lparr>batches := batches (xw_db w) @ [b]\<rparr>" "ib_batch_id b = xj_batch j" "ib_manifest_ref b = xj_ingest j"
    "ib_status b = ''READY''" by (rule create_batch_Inr)
  with assms(2)[OF c(2)] c(3,4) show ?thesis by (auto simp: loaded_batch_def same_core_def)
qed

text \<open>A row that cannot be written leaves the batch behind, for an artefact of which nothing else is known.\<close>

lemma batch_then_fails:
  assumes "create_single_document_batch env j code period (xw_db w) = Inr db1" "row db1 = Inl e" "untouched (xj_ingest j) (xw_db w)"
  shows "batch_then env j code period row w = (Inl e, w\<lparr>xw_db := db1\<rparr>)
    \<and> ao_status (artefact_outcome_of (xj_ingest j) db1) = ACCEPTED \<and> ao_accepted (artefact_outcome_of (xj_ingest j) db1) = Some 1"
proof -
  from assms(1) obtain b where b: "db1 = (xw_db w)\<lparr>batches := batches (xw_db w) @ [b]\<rparr>" "ib_manifest_ref b = xj_ingest j" "ib_row_count b = 1"
    by (rule create_batch_Inr)
  have "quarantined db1 = quarantined (xw_db w)" "batches db1 = batches (xw_db w) @ [b]" "rejected_rows db1 = rejected_rows (xw_db w) @ []"
    by (simp_all add: b(1))
  from outcome_first_batch[OF assms(3) this(1,2) b(2) this(3)] b(3) assms(2) show ?thesis by (simp add: batch_then_def assms(1))
qed

lemma row_count_of_accepted:
  "ao_status (artefact_outcome_of u db) = ACCEPTED \<Longrightarrow> ao_row_count (artefact_outcome_of u db) = ao_accepted (artefact_outcome_of u db)"
  by (auto simp: artefact_outcome_of_def Let_def split: option.splits if_splits)

section \<open>What every kind of extractor leaves\<close>

definition handed_on :: "extractor_kind \<Rightarrow> bool" where
  "handed_on k \<longleftrightarrow> (case k of KTransaction _ \<Rightarrow> True | KRegister _ \<Rightarrow> True | _ \<Rightarrow> False)"

definition reads_register :: "extractor_kind \<Rightarrow> bool" where
  "reads_register k \<longleftrightarrow> (case k of KRegister _ \<Rightarrow> True | _ \<Rightarrow> False)"

definition leaves :: "extractor_kind \<Rightarrow> uuid \<Rightarrow> extraction \<Rightarrow> write_result \<Rightarrow> extract_world \<Rightarrow> extract_world \<Rightarrow> bool" where
  "leaves k ingest out r w w' \<longleftrightarrow>
     (if wr_written r then (\<exists>u n. wr_batch r = Some u \<and> loaded_batch ingest u n (xw_db w) (xw_db w') \<and> (0 < n \<longrightarrow> reads_register k))
      else wr_batch r = None \<and> xw_store w' = xw_store w
        \<and> (case out of Extracted _ \<Rightarrow> handed_on k | _ \<Rightarrow> verdict_only ingest (xw_db w) (xw_db w')))"

lemma leaves_refuse:
  assumes "refuse env j code reasons why w = (Inr r, w')" "out \<notin> range Extracted"
  shows "leaves k (xj_ingest j) out r w w'"
  using refuse_leaves[OF assms(1)] assms(2) by (cases out) (simp_all add: leaves_def)

lemma leaves_loaded:
  "wr_written r \<Longrightarrow> wr_batch r = Some u \<Longrightarrow> loaded_batch ingest u 0 (xw_db w) (xw_db w') \<Longrightarrow> leaves k ingest out r w w'"
  unfolding leaves_def by auto

lemma leaves_batch:
  "batch_then env j code period row w = (Inr r, w') \<Longrightarrow> (\<And>db db'. row db = Inr db' \<Longrightarrow> same_core db db') \<Longrightarrow> leaves k (xj_ingest j) out r w w'"
  by (drule batch_then_leaves) (auto intro: leaves_loaded)

lemma promoted_leaves:
  assumes "promote_run env pm db = (Inr m, db')"
  shows "loaded_batch (pm_ingest pm) (bm_batch_id m) 0 db db'"
proof -
  from assms obtain spec res where s: "store_documents env spec pm res db = Inr db'" "m = manifest_of env spec pm (vr_row_count res)"
    by (rule promote_run_Inr)
  let ?b = "promotion_batch env spec pm (vr_row_count res)"
  have "batches db' = batches db @ [?b]" "quarantined db' = quarantined db" "rejected_rows db' = rejected_rows db @ []"
    "ib_batch_id ?b = bm_batch_id m" "ib_manifest_ref ?b = pm_ingest pm" "ib_status ?b = ''READY''"
    using store_documents_Inr[OF s(1)] by (simp_all add: s(2) promotion_batch_def manifest_of_def)
  then show ?thesis by (intro loaded_batchI[where rs = "[]"]) simp_all
qed

lemma transaction_leaves:
  assumes "transaction_to_silver env k code j out w = (Inr r, w')"
  shows "leaves (KTransaction k) (xj_ingest j) out r w w'"
proof (cases out)
  case (Extracted fs)
  with assms obtain data d where f: "rbind (transaction_row k fs) (\<lambda>(row, d). rbind (transaction_file row) (\<lambda>data. Inr (data, d))) = Inr (data, d)"
    by (auto simp: transaction_to_silver_def split: sum.splits)
  obtain res db where p: "promote_run (xe_promote env) (promotion_of env code j data d) (xw_db w) = (res, db)"
    by (cases "promote_run (xe_promote env) (promotion_of env code j data d) (xw_db w)")
  show ?thesis
  proof (cases res)
    case (Inr m)
    from promoted_leaves[OF p[unfolded Inr]] assms Extracted f p Inr show ?thesis
      by (intro leaves_loaded[where u = "bm_batch_id m"]) (auto simp: transaction_to_silver_def promotion_of_def)
  next
    case (Inl e)
    with assms Extracted f p show ?thesis
      by (cases e) (auto simp: transaction_to_silver_def leaves_def handed_on_def)
  qed
qed (use assms in \<open>auto simp: transaction_to_silver_def intro: leaves_refuse\<close>)

lemma register_leaves:
  assumes "register_to_silver env k j out w = (Inr r, w')"
  shows "leaves (KRegister k) (xj_ingest j) out r w w'"
proof (cases out)
  case (Extracted fs)
  with assms obtain data where f: "rbind (rows_field fs) (register_file k) = Inr data"
    by (auto simp: register_to_silver_def split: sum.splits)
  obtain res db where p: "on_registers (register_load_run (xe_registers env) (register_of k) (register_job env k j data)) (xw_db w) = (res, db)"
    by (cases "on_registers (register_load_run (xe_registers env) (register_of k) (register_job env k j data)) (xw_db w)")
  show ?thesis
  proof (cases res)
    case (Inr m)
    from views_core[OF p] obtain d0 where v: "register_load_run (xe_registers env) (register_of k) (register_job env k j data)
          \<lparr>batches = batches (xw_db w), quarantined = quarantined (xw_db w), rejected_rows = rejected_rows (xw_db w), reg_tables = td_registers (xw_db w)\<rparr>
          = (Inr m, d0)" "batches db = batches d0" "quarantined db = quarantined d0" "rejected_rows db = rejected_rows d0"
      unfolding Inr by blast
    from v(1) obtain b rs where "quarantined d0 = quarantined (xw_db w)" "batches d0 = batches (xw_db w) @ [b]"
        "rejected_rows d0 = rejected_rows (xw_db w) @ rs" "ib_manifest_ref b = xj_ingest j" "ib_batch_id b = ro_batch m"
        "ib_status b = ''READY''" "\<forall>r\<in>set rs. rr_ingest_id r = xj_ingest j"
      by (rule register_load_core) (simp add: register_job_def)
    then have "\<exists>n. loaded_batch (xj_ingest j) (ro_batch m) n (xw_db w) db" using v by (auto simp: loaded_batch_def)
    with assms Extracted f p Inr show ?thesis by (auto simp: register_to_silver_def leaves_def reads_register_def)
  next
    case (Inl e)
    with assms Extracted f p show ?thesis
      by (cases e) (auto simp: register_to_silver_def leaves_def handed_on_def)
  qed
qed (use assms in \<open>auto simp: register_to_silver_def intro: leaves_refuse\<close>)

lemma document_leaves:
  "entitlement_to_silver env code a j out w = (Inr r, w') \<Longrightarrow> leaves k (xj_ingest j) out r w w'"
  "event_to_silver env code a j out w = (Inr r, w') \<Longrightarrow> leaves k (xj_ingest j) out r w w'"
  "financial_to_silver env code j out w = (Inr r, w') \<Longrightarrow> leaves k (xj_ingest j) out r w w'"
  "master_to_silver env code j out w = (Inr r, w') \<Longrightarrow> leaves k (xj_ingest j) out r w w'"
  "contract_to_silver env code j out w = (Inr r, w') \<Longrightarrow> leaves k (xj_ingest j) out r w w'"
  by (auto simp: entitlement_to_silver_def event_to_silver_def financial_to_silver_def master_to_silver_def contract_to_silver_def
      intro: leaves_refuse leaves_batch rows_keep_core master_row_keeps_core split: extraction.splits sum.splits if_splits)

lemma to_silver_leaves: "to_silver env x j out w = (Inr r, w') \<Longrightarrow> leaves (et_kind x) (xj_ingest j) out r w w'"
  by (cases "et_kind x") (auto simp: to_silver_def intro: document_leaves transaction_leaves register_leaves)

lemma outcome_loaded:
  assumes "untouched ingest db" "loaded_batch ingest u n db db'"
  shows "ao_batch (artefact_outcome_of ingest db') = Some u
    \<and> ao_status (artefact_outcome_of ingest db') = (if 0 < n then PARTIAL else ACCEPTED)"
proof -
  from assms(2) obtain b rs where "quarantined db' = quarantined db" "batches db' = batches db @ [b]" "ib_manifest_ref b = ingest"
    "rejected_rows db' = rejected_rows db @ rs" "\<forall>r\<in>set rs. rr_ingest_id r = ingest" "ib_batch_id b = u" "length rs = n"
    by (auto simp: loaded_batch_def)
  from outcome_first_batch[OF assms(1) this(1-5)] this(6,7) show ?thesis by auto
qed

section \<open>What the caller is told\<close>

text \<open>
  C19. What \<open>run_extraction\<close> returns for a fresh artefact is what its status page says. A written
  document has a \<open>READY\<close> batch, the one named in the result, and counts as \<open>ACCEPTED\<close> or
  \<open>PARTIAL\<close>. A document without usable text or without a required field is \<open>QUARANTINED\<close>, with
  no batch and nothing stored. Fields that were read in full go unwritten only where another loader is
  handed them and rejects them.
\<close>

theorem extraction_result_reported:
  assumes "run_extraction env reg reader code j w = (Inr (out, r), w')" "untouched (xj_ingest j) (xw_db w)"
  shows "\<exists>x. map_of reg code = Some x
    \<and> (if wr_written r
       then ao_batch (artefact_outcome_of (xj_ingest j) (xw_db w')) = wr_batch r
         \<and> ao_status (artefact_outcome_of (xj_ingest j) (xw_db w')) \<in> {ACCEPTED, PARTIAL}
         \<and> (\<exists>b. batches (xw_db w') = batches (xw_db w) @ [b] \<and> wr_batch r = Some (ib_batch_id b) \<and> ib_status b = ''READY'')
       else wr_batch r = None \<and> xw_store w' = xw_store w
         \<and> (case out of Extracted fs \<Rightarrow> handed_on (et_kind x)
            | _ \<Rightarrow> ao_status (artefact_outcome_of (xj_ingest j) (xw_db w')) = QUARANTINED \<and> batches (xw_db w') = batches (xw_db w)))"
proof -
  from assms(1) obtain x where x: "map_of reg code = Some x" "to_silver env x j out w = (Inr r, w')"
    by (auto simp: run_extraction_def split: option.splits sum.splits prod.splits)
  from to_silver_leaves[OF x(2)] have l: "leaves (et_kind x) (xj_ingest j) out r w w'" .
  show ?thesis
  proof (cases "wr_written r")
    case True
    with l obtain u n where u: "wr_batch r = Some u" "loaded_batch (xj_ingest j) u n (xw_db w) (xw_db w')" by (auto simp: leaves_def)
    from u(2) obtain b where "batches (xw_db w') = batches (xw_db w) @ [b]" "ib_batch_id b = u" "ib_status b = ''READY''"
      by (auto simp: loaded_batch_def)
    with outcome_loaded[OF assms(2) u(2)] x(1) True u(1) show ?thesis by auto
  next
    case False
    with l x(1) outcome_verdict[of "xj_ingest j" "xw_db w'"] show ?thesis
      by (auto simp: leaves_def verdict_only_def split: extraction.splits)
  qed
qed

text \<open>
  An entitlement the database refuses is reported as accepted. The batch is committed before the row:
  an instrument whose validity does not end after it begins violates the table's check, the call raises,
  and no instrument is stored, but the status page says \<open>ACCEPTED\<close>, one row of one.
\<close>

theorem refused_entitlement_reported_accepted:
  assumes "map_of fs ''validity'' = Some (FRange a b)" "b \<le> a" "map_of fs ''instrument_number'' = Some (FText n)"
    and "map_of fs ''scope'' = None" "map_of fs ''obligation'' = None" "map_of fs ''scope_hsn'' = None"
    and "untouched (xj_ingest j) (xw_db w)" "xj_batch j \<notin> ib_batch_id ` set (batches (xw_db w))"
    and "{(''Document_Type'', code), (''Source_Stream'', ''B''), (''Batch_Status'', ''READY'')} \<subseteq> set (pe_vocabulary (xe_promote env))"
  shows "\<exists>e w'. entitlement_to_silver env code authority j (Extracted fs) w = (Inl e, w')
    \<and> td_instruments (xw_db w') = td_instruments (xw_db w)
    \<and> ao_status (artefact_outcome_of (xj_ingest j) (xw_db w')) = ACCEPTED
    \<and> ao_accepted (artefact_outcome_of (xj_ingest j) (xw_db w')) = Some 1
    \<and> ao_row_count (artefact_outcome_of (xj_ingest j) (xw_db w')) = Some 1"
proof -
  have win: "validity_window fs = Inr (FDate a, FDate b)" by (simp add: validity_window_def unpack_validity_def assms(1))
  have fresh: "ib_batch_id c \<noteq> xj_batch j" if "c \<in> set (batches (xw_db w))" for c using assms(8) that by (metis imageI)
  have "\<exists>db1. create_single_document_batch env j code (FDate a) (xw_db w) = Inr db1"
    using assms(9) fresh by (auto simp: create_single_document_batch_def date_column_def insert_batch_def)
  then obtain db1 where c: "create_single_document_batch env j code (FDate a) (xw_db w) = Inr db1" ..
  have "\<not> a < b" using assms(2) by simp
  then have "record_or_supersede (xe_facts env) instrument_service bs now i
      \<lparr>in_entity = x1, in_type = x2, in_authority = x3, in_number = x4, in_valid_from = a, in_valid_to = b, in_status = x5,
       in_scope_hsn = x6, in_scope = x7, in_obligation = x8, in_batch = x9, in_ingest = x0\<rparr> t = Inl (OtherIntegrityError ''entitlement_instrument'')"
    for bs now i x1 x2 x3 x4 x5 x6 x7 x8 x9 x0 t
    by (simp add: record_or_supersede_def insert_filed_def instrument_service_def split: prod.splits)
  then have row: "entitlement_row env j code authority (FDate a, FDate b) fs db1 = Inl (OtherIntegrityError ''entitlement_instrument'')"
    by (simp add: entitlement_row_def need_def dict_field_def optional_def text_column_def date_column_def assms(3-6))
  note f = batch_then_fails[where row = "entitlement_row env j code authority (FDate a, FDate b) fs", OF c row assms(7)]
  from c have "td_instruments db1 = td_instruments (xw_db w)" by (rule create_batch_Inr) simp
  moreover have "ao_row_count (artefact_outcome_of (xj_ingest j) db1) = Some 1"
    using f row_count_of_accepted[of "xj_ingest j" db1] by simp
  ultimately show ?thesis using f by (simp add: entitlement_to_silver_def win)
qed

section \<open>Witnesses\<close>

definition demo_extractor :: extractor where
  "demo_extractor = make_extractor ''LUT'' [(''instrument_number'', \<lparr>lf_label = ''LUT No'', lf_type = ''text'', lf_required = True\<rparr>),
     (''validity'', \<lparr>lf_label = ''Valid'', lf_type = ''date_range'', lf_required = True\<rparr>)] (Some ''GSTN'') KEntitlement"

definition demo_reader :: "string \<Rightarrow> pdf_reader" where
  "demo_reader t = pypdf_reader (\<lambda>data. Some [t])"

definition demo_lut_page :: "string" where
  "demo_lut_page = ''LUT No: AD27042500001'' @ [CHR 0x0A] @ ''Valid: 2025-04-01 to 2026-03-31''"

definition demo_extraction :: "(exc + extraction \<times> write_result) \<times> extract_world" where
  "demo_extraction = run_extraction demo_extract_env [(''LUT'', demo_extractor)] (demo_reader demo_lut_page) ''LUT'' (demo_job 1) demo_silver_world"

lemma demo_silver_untouched: "untouched (xj_ingest j) (xw_db demo_silver_world)"
  by (simp add: untouched_def demo_silver_world_def empty_tables_def)

theorem extraction_result_reported_witness:
  "\<exists>out r w'. demo_extraction = (Inr (out, r), w') \<and> wr_written r
     \<and> ao_batch (artefact_outcome_of 11 (xw_db w')) = Some 31"
proof -
  have "case fst demo_extraction of Inr x \<Rightarrow> wr_written (snd x) \<and> wr_batch (snd x) = Some 31 | Inl e \<Rightarrow> False" by code_simp
  then obtain x where x: "fst demo_extraction = Inr x" "wr_written (snd x)" "wr_batch (snd x) = Some 31"
    by (cases "fst demo_extraction") simp_all
  then have run: "demo_extraction = (Inr (fst x, snd x), snd demo_extraction)" by (simp add: prod_eq_iff)
  have j: "xj_ingest (demo_job 1) = 11" by (simp add: demo_job_def)
  from extraction_result_reported[OF run[unfolded demo_extraction_def] demo_silver_untouched, folded demo_extraction_def, unfolded j] x(2,3)
  have "ao_batch (artefact_outcome_of 11 (xw_db (snd demo_extraction))) = Some 31" by auto
  with run x(2) show ?thesis by blast
qed

theorem refused_entitlement_reported_accepted_witness:
  "\<exists>e w'. entitlement_to_silver demo_extract_env ''LUT'' ''GSTN'' (demo_job 1)
       (Extracted [(''instrument_number'', FText ''AD1''), (''validity'', FRange (Date 2025 4 1) (Date 2025 4 1))]) demo_silver_world = (Inl e, w')
     \<and> ao_status (artefact_outcome_of (xj_ingest (demo_job 1)) (xw_db w')) = ACCEPTED"
  using refused_entitlement_reported_accepted
    [of "[(''instrument_number'', FText ''AD1''), (''validity'', FRange (Date 2025 4 1) (Date 2025 4 1))]" "Date 2025 4 1" "Date 2025 4 1" "''AD1''"
      "demo_job 1" demo_silver_world "''LUT''" demo_extract_env "''GSTN''"] demo_silver_untouched[of "demo_job 1"]
  by (fastforce simp: demo_silver_world_def empty_tables_def demo_extract_env_def)

end
