(* ===== verification/Dispatch.thy ===== *)
theory Dispatch
  imports ExtractionStatus Bronze
begin

text \<open>
  From a trigger to a loader: \<open>src/src/dispatch/content_format.py\<close>, \<open>router.py\<close>,
  \<open>manifest.py\<close> and \<open>trigger.py\<close>, with \<open>publish\<close> of \<open>src/src/events/publisher.py\<close>. The
  loaders are those of the other theories, over the tables of \<open>TenantDb\<close>; ids, the clock and what each
  loader is built with are arguments. The Kafka broker is the set of messages it takes.
\<close>

section \<open>content_format.py\<close>

definition format_by_extension :: "(string \<times> string) list" where
  "format_by_extension = [(''csv'', ''csv''), (''ndjson'', ''ndjson''), (''json'', ''ndjson''), (''pdf'', ''pdf'')]"

definition infer_content_format :: "string option \<Rightarrow> exc + string" where
  "infer_content_format filename =
     (case map_of format_by_extension (extension_of filename) of
        Some f \<Rightarrow> Inr f
      | None \<Rightarrow> Inl (ValueError (''cannot infer a dispatch content_format (extension '' @ py_repr (extension_of filename) @ '')'')))"

section \<open>manifest.py\<close>

definition batch_manifest_of :: "string \<Rightarrow> ingest_batch \<Rightarrow> batch_manifest" where
  "batch_manifest_of slug b = \<lparr>bm_slug = slug, bm_batch_id = ib_batch_id b, bm_entity_id = ib_entity_id b,
     bm_document_type = ib_document_type b, bm_source_stream = ib_source_stream b, bm_period_start = ib_period_start b,
     bm_period_end = ib_period_end b, bm_row_count = ib_row_count b, bm_content_hash = ib_content_hash b,
     bm_manifest_ref = ib_manifest_ref b, bm_ready_at = ib_ready_at b\<rparr>"

definition read_batch_manifest :: "string \<Rightarrow> 'a silver_core_scheme \<Rightarrow> uuid \<Rightarrow> exc + batch_manifest" where
  "read_batch_manifest slug db u =
     (case List.find (\<lambda>b. ib_batch_id b = u) (batches db) of
        None \<Rightarrow> Inl (BatchNotFoundError u)
      | Some b \<Rightarrow> Inr (batch_manifest_of slug b))"

section \<open>publisher.py\<close>

text \<open>A producer that started, by the messages its broker takes; \<open>None\<close> is one that did not start.\<close>

type_synonym message = "bytes \<times> batch_manifest"
type_synonym producer = "(message \<Rightarrow> bool) option"

definition start_producer :: "bool \<Rightarrow> producer \<Rightarrow> producer" where
  "start_producer enabled connection = (if enabled then connection else None)"

text \<open>Whatever fails, an invalid key included, is caught.\<close>

definition publish :: "producer \<Rightarrow> batch_manifest \<Rightarrow> message list \<Rightarrow> bool \<times> message list" where
  "publish pb m ms = (case pb of None \<Rightarrow> (False, ms) | Some takes \<Rightarrow>
     (case kafka_key (bm_slug m) of
        Inl e \<Rightarrow> (False, ms)
      | Inr k \<Rightarrow> if takes (k, m) then (True, ms @ [(k, m)]) else (False, ms)))"

section \<open>router.py\<close>

record dispatch_env =
  de_registry :: "registry_row list"
  de_compile :: "string \<Rightarrow> regex option"
  de_reader :: pdf_reader
  de_extract :: extract_env
  de_sales :: sales_env
  de_gstr_2b :: g2_env
  de_gstr_3b :: g3_env
  de_publisher :: "producer option"

text \<open>A call, with the ids \<open>uuid4\<close> draws and the clock in \<open>dj_job\<close>.\<close>

record dispatch_job =
  dj_job :: extraction_job
  dj_code :: string
  dj_format :: string
  dj_start :: "date option"
  dj_end :: "date option"
  dj_gstin :: "string option"

record dispatch_outcome =
  dx_mechanism :: string
  dx_batch :: "uuid option"
  dx_written :: bool
  dx_status :: status

definition resolve_mechanism :: "registry_row list \<Rightarrow> string \<Rightarrow> exc + string" where
  "resolve_mechanism rs code =
     (case List.find (\<lambda>r. dt_code r = code \<and> dt_in_scope r) rs of
        None \<Rightarrow> Inl (NoDispatchMechanismError (py_repr code @ '' is not an in-scope document type in the registry''))
      | Some r \<Rightarrow> Inr (dt_mechanism r))"

definition require :: "(string \<times> bool) list \<Rightarrow> exc + unit" where
  "require given = (case map fst (filter (\<lambda>g. \<not> snd g) given) of [] \<Rightarrow> Inr () | missing \<Rightarrow> Inl (MissingDispatchFieldError missing))"

definition require_period :: "dispatch_job \<Rightarrow> exc + date \<times> date" where
  "require_period j = rbind (require [(''period_start'', dj_start j \<noteq> None), (''period_end'', dj_end j \<noteq> None)])
     (\<lambda>_. Inr (the (dj_start j), the (dj_end j)))"

definition require_all :: "dispatch_job \<Rightarrow> exc + string \<times> date \<times> date" where
  "require_all j = rbind (require [(''gstin'', dj_gstin j \<noteq> None), (''period_start'', dj_start j \<noteq> None), (''period_end'', dj_end j \<noteq> None)])
     (\<lambda>_. Inr (the (dj_gstin j), the (dj_start j), the (dj_end j)))"

definition sales_job :: "dispatch_env \<Rightarrow> dispatch_job \<Rightarrow> string \<times> date \<times> date \<Rightarrow> sales_load" where
  "sales_job env d f = (case f of (gstin, a, b) \<Rightarrow> let j = dj_job d in
     \<lparr>sd_label = xe_label (de_extract env), sd_entity = xj_entity j, sd_gstin = gstin, sd_ingest = xj_ingest j, sd_data = xj_pdf j,
      sd_period_start = a, sd_period_end = b, sd_run = xj_run j, sd_batch = xj_batch j, sd_now = xj_now j\<rparr>)"

definition register_dispatch :: "dispatch_job \<Rightarrow> string \<times> date \<times> date \<Rightarrow> register_load" where
  "register_dispatch d f = (case f of (gstin, a, b) \<Rightarrow> let j = dj_job d in
     \<lparr>rl_entity = xj_entity j, rl_gstin = gstin, rl_ingest = xj_ingest j, rl_data = xj_pdf j, rl_period_start = a, rl_period_end = b,
      rl_doc_type = Some (dj_code d), rl_run = xj_run j, rl_format = dj_format d, rl_batch = xj_batch j, rl_now = xj_now j\<rparr>)"

definition promote_job :: "dispatch_env \<Rightarrow> dispatch_job \<Rightarrow> date \<times> date \<Rightarrow> promotion" where
  "promote_job env d f = (let j = dj_job d in
     \<lparr>pm_label = xe_label (de_extract env), pm_slug = xe_slug (de_extract env), pm_doc_type = dj_code d, pm_ingest = xj_ingest j,
      pm_entity = xj_entity j, pm_data = xj_pdf j, pm_period_start = fst f, pm_period_end = snd f, pm_run = xj_run j,
      pm_batch = xj_batch j, pm_now = xj_now j\<rparr>)"

definition return_job :: "dispatch_job \<Rightarrow> string \<times> date \<times> date \<Rightarrow> return_load" where
  "return_job d f = (case f of (gstin, a, b) \<Rightarrow> let j = dj_job d in
     \<lparr>gl_entity = xj_entity j, gl_gstin = gstin, gl_ingest = xj_ingest j, gl_data = xj_pdf j, gl_period_start = a, gl_period_end = b,
      gl_run = xj_run j, gl_batch = xj_batch j, gl_now = xj_now j\<rparr>)"

definition run_return :: "dispatch_env \<Rightarrow> dispatch_job \<Rightarrow> string \<times> date \<times> date \<Rightarrow> silver_tables \<Rightarrow> (exc + return_outcome) \<times> silver_tables" where
  "run_return env d f db =
     (if dj_code d = ''GSTR_2B'' then on_gstr_2b (gstr2b_load_run (de_gstr_2b env) (return_job d f)) db
      else if dj_code d = ''GSTR_3B'' then on_gstr_3b (gstr3b_load_run (de_gstr_3b env) (return_job d f)) db
      else (Inl (NoDispatchMechanismError (py_repr (dj_code d) @ '' has dispatch_mechanism=GSTN_JSON_PROMOTE but no loader is registered'')), db))"

text \<open>A loader's result as an outcome; a loader that raises may have written a verdict.\<close>

definition finished :: "string \<Rightarrow> ('r \<Rightarrow> uuid option \<times> bool \<times> status) \<Rightarrow> (exc + 'r) \<times> silver_tables \<Rightarrow> extract_world
    \<Rightarrow> (exc + dispatch_outcome) \<times> extract_world" where
  "finished m f res w = (case res of (r, db) \<Rightarrow>
     (map_sum id (\<lambda>x. case f x of (u, wr, st) \<Rightarrow> \<lparr>dx_mechanism = m, dx_batch = u, dx_written = wr, dx_status = st\<rparr>) r, w\<lparr>xw_db := db\<rparr>))"

definition run_pdf :: "dispatch_env \<Rightarrow> dispatch_job \<Rightarrow> extract_world \<Rightarrow> (exc + dispatch_outcome) \<times> extract_world" where
  "run_pdf env d w =
     (case build_extractor_registry (de_compile env) (de_registry env) of
        Inl e \<Rightarrow> (Inl e, w)
      | Inr reg \<Rightarrow>
          (case run_extraction (de_extract env) reg (de_reader env) (dj_code d) (dj_job d) w of
             (Inl e, w') \<Rightarrow> (Inl e, w')
           | (Inr (out, r), w') \<Rightarrow> (Inr \<lparr>dx_mechanism = ''PDF_EXTRACTION'', dx_batch = wr_batch r, dx_written = wr_written r,
                dx_status = (if wr_written r then ACCEPTED else QUARANTINED)\<rparr>, w')))"

definition run_mechanism :: "dispatch_env \<Rightarrow> dispatch_job \<Rightarrow> string \<Rightarrow> extract_world \<Rightarrow> (exc + dispatch_outcome) \<times> extract_world" where
  "run_mechanism env d m w =
     (if m = ''PDF_EXTRACTION'' then run_pdf env d w
      else if m = ''SALES_REGISTER'' then
        (case require_all d of Inl e \<Rightarrow> (Inl e, w) | Inr f \<Rightarrow>
           finished m (\<lambda>r. (Some (so_batch r), True, ACCEPTED)) (on_sales (sales_load_run (de_sales env) (sales_job env d f)) (xw_db w)) w)
      else if m = ''REGISTER_LOADER'' then
        (case rbind (require_all d) (\<lambda>f. rbind (spec_for (dj_code d)) (\<lambda>s. Inr (f, s))) of Inl e \<Rightarrow> (Inl e, w) | Inr (f, spec) \<Rightarrow>
           finished m (\<lambda>r. (Some (ro_batch r), True, if 0 < ro_rejected r then PARTIAL else ACCEPTED))
             (on_registers (register_load_run (xe_registers (de_extract env)) spec (register_dispatch d f)) (xw_db w)) w)
      else if m = ''ARCHETYPE1_PROMOTE'' then
        (case require_period d of Inl e \<Rightarrow> (Inl e, w) | Inr f \<Rightarrow>
           finished m (\<lambda>r. (Some (bm_batch_id r), True, ACCEPTED)) (promote_run (xe_promote (de_extract env)) (promote_job env d f) (xw_db w)) w)
      else if m = ''GSTN_JSON_PROMOTE'' then
        (case require_all d of Inl e \<Rightarrow> (Inl e, w) | Inr f \<Rightarrow>
           finished m (\<lambda>r. (go_batch r, go_inserted r, ACCEPTED)) (run_return env d f (xw_db w)) w)
      else (Inl AssertionError, w))"

record dispatch_world = extract_world +
  xw_messages :: "message list"

definition publish_if_ready :: "dispatch_env \<Rightarrow> dispatch_outcome \<Rightarrow> silver_tables \<Rightarrow> message list \<Rightarrow> (exc + dispatch_outcome) \<times> message list" where
  "publish_if_ready env out db ms =
     (case (de_publisher env, dx_batch out) of
        (Some pb, Some u) \<Rightarrow>
          (case read_batch_manifest (xe_slug (de_extract env)) db u of
             Inl e \<Rightarrow> (Inl e, ms)
           | Inr m \<Rightarrow> (Inr out, snd (publish pb m ms)))
      | _ \<Rightarrow> (Inr out, ms))"

definition dispatch_load :: "dispatch_env \<Rightarrow> dispatch_job \<Rightarrow> dispatch_world \<Rightarrow> (exc + dispatch_outcome) \<times> dispatch_world" where
  "dispatch_load env d w =
     (case resolve_mechanism (de_registry env) (dj_code d) of
        Inl e \<Rightarrow> (Inl e, w)
      | Inr m \<Rightarrow>
          if m = [] then (Inl (NoDispatchMechanismError (py_repr (dj_code d) @ '' has no dispatch_mechanism'')), w)
          else (case run_mechanism env d m \<lparr>xw_db = xw_db w, xw_store = xw_store w\<rparr> of
             (Inl e, x) \<Rightarrow> (Inl e, w\<lparr>xw_db := xw_db x, xw_store := xw_store x\<rparr>)
           | (Inr out, x) \<Rightarrow>
               (case publish_if_ready env out (xw_db x) (xw_messages w) of
                  (r, ms) \<Rightarrow> (r, \<lparr>xw_db = xw_db x, xw_store = xw_store x, xw_messages = ms\<rparr>))))"

section \<open>trigger.py\<close>

record trigger_row =
  tr_id :: nat
  tr_ingest :: uuid
  tr_code :: string
  tr_requested_at :: instant

datatype trigger_status = Dispatched status | UNROUTED

record trigger_outcome =
  to_trigger :: trigger_row
  to_status :: trigger_status
  to_mechanism :: "string option"
  to_batch :: "uuid option"

record platform =
  pf_bronze :: bronze_world
  pf_triggers :: "trigger_row list"
  pf_db :: silver_tables
  pf_messages :: "message list"

text \<open>A request, with the id the identity column gives the row and its time.\<close>

record trigger_request =
  tq_ingest :: uuid
  tq_code :: string
  tq_start :: "date option"
  tq_end :: "date option"
  tq_gstin :: "string option"
  tq_row :: nat
  tq_now :: instant

definition trigger_row_of :: "trigger_request \<Rightarrow> trigger_row" where
  "trigger_row_of q = \<lparr>tr_id = tq_row q, tr_ingest = tq_ingest q, tr_code = tq_code q, tr_requested_at = tq_now q\<rparr>"

definition recorded_only :: "trigger_request \<Rightarrow> trigger_status \<Rightarrow> trigger_outcome" where
  "recorded_only q s = \<lparr>to_trigger = trigger_row_of q, to_status = s, to_mechanism = None, to_batch = None\<rparr>"

text \<open>What becomes of an exception of \<open>dispatch_load\<close>.\<close>

definition fold_failure :: "trigger_request \<Rightarrow> exc \<Rightarrow> exc + trigger_outcome" where
  "fold_failure q e = (case e of
      NoDispatchMechanismError _ \<Rightarrow> Inr (recorded_only q UNROUTED)
    | ValidationRejected _ \<Rightarrow> Inr (recorded_only q (Dispatched QUARANTINED))
    | UniqueViolation s \<Rightarrow> Inl (SilverConstraintViolation Conflict s)
    | ForeignKeyViolation s \<Rightarrow> Inl (SilverConstraintViolation Invalid s)
    | OtherIntegrityError s \<Rightarrow> Inl (SilverConstraintViolation Invalid s)
    | DataError s \<Rightarrow> Inl (SilverConstraintViolation Invalid s)
    | _ \<Rightarrow> Inl e)"

text \<open>\<open>ids\<close> are the ids drawn during dispatch; its entity, artefact and bytes come from Bronze.\<close>

definition dispatch_of :: "trigger_request \<Rightarrow> extraction_job \<Rightarrow> ledger_entry \<Rightarrow> string \<Rightarrow> bytes \<Rightarrow> dispatch_job" where
  "dispatch_of q ids entry fmt data =
     \<lparr>dj_job = ids\<lparr>xj_entity := le_entity_id entry, xj_ingest := tq_ingest q, xj_pdf := data\<rparr>, dj_code = tq_code q, dj_format = fmt,
      dj_start = tq_start q, dj_end = tq_end q, dj_gstin = tq_gstin q\<rparr>"

definition record_and_dispatch_trigger ::
  "bronze_env \<Rightarrow> dispatch_env \<Rightarrow> trigger_request \<Rightarrow> extraction_job \<Rightarrow> platform \<Rightarrow> (exc + trigger_outcome) \<times> platform" where
  "record_and_dispatch_trigger benv env q ids p =
     (if tq_ingest q \<notin> lr_ingest_id ` set (ledger (pf_bronze p)) then (Inl (UnknownArtefact (tq_ingest q)), p)
      else let p1 = p\<lparr>pf_triggers := pf_triggers p @ [trigger_row_of q]\<rparr> in
        (case rbind (ledger_entry_of (tq_ingest q) (pf_bronze p)) (\<lambda>entry.
              rbind (infer_content_format (le_filename entry)) (\<lambda>fmt.
              rbind (fetch benv (tq_ingest q) (pf_bronze p)) (\<lambda>data. Inr (dispatch_of q ids entry fmt data)))) of
           Inl e \<Rightarrow> (Inl e, p1)
         | Inr d \<Rightarrow>
             (case dispatch_load env d \<lparr>xw_db = pf_db p, xw_store = bstore (pf_bronze p), xw_messages = pf_messages p\<rparr> of
                (r, w) \<Rightarrow>
                  (case r of
                     Inl e \<Rightarrow> fold_failure q e
                   | Inr out \<Rightarrow> Inr \<lparr>to_trigger = trigger_row_of q, to_status = Dispatched (dx_status out),
                       to_mechanism = Some (dx_mechanism out), to_batch = dx_batch out\<rparr>,
                   p1\<lparr>pf_bronze := (pf_bronze p)\<lparr>bstore := xw_store w\<rparr>, pf_db := xw_db w, pf_messages := xw_messages w\<rparr>))))"

section \<open>What each mechanism leaves\<close>

lemma map_sum_Inr_E: "map_sum id f r = Inr y \<Longrightarrow> (\<And>x. r = Inr x \<Longrightarrow> y = f x \<Longrightarrow> P) \<Longrightarrow> P"
  by (cases r) auto

lemma sales_leaves:
  assumes "on_sales (sales_load_run env ld) db = (Inr r, db')"
  shows "loaded_batch (sd_ingest ld) (so_batch r) 0 db db'"
proof -
  let ?db = "\<lparr>batches = batches db, quarantined = quarantined db, rejected_rows = rejected_rows db,
        sales_register = td_sales db, sales_register_line = td_sales_lines db\<rparr>"
  from assms obtain d where d: "sales_load_run env ld ?db = (Inr r, d)" "db' = (put_core d db)\<lparr>td_sales := sales_register d, td_sales_lines := sales_register_line d\<rparr>"
    by (auto simp: on_sales_def split: prod.splits)
  from d(1) obtain p where p: "store_invoices env ld p ?db = Inr (so_tally r, d)" by (rule sales_load_Inr)
  have so: "so_batch r = sd_batch ld" using d(1) by (auto simp: sales_load_run_def Let_def split: sum.splits if_splits)
  from p have "batches d = batches db @ [sales_batch env ld (line_count p)] \<and> quarantined d = quarantined db \<and> rejected_rows d = rejected_rows db"
    by (auto simp: store_invoices_def Let_def rbind_eq_Inr_iff dest!: insert_batch_Inr)
  then show ?thesis
    by (intro loaded_batchI[where b = "sales_batch env ld (line_count p)" and rs = "[]"]) (auto simp: d(2) so sales_batch_def)
qed

lemma register_dispatch_leaves:
  assumes "on_registers (register_load_run env spec rl) db = (Inr r, db')"
  shows "loaded_batch (rl_ingest rl) (ro_batch r) (ro_rejected r) db db'"
proof -
  from views_core[OF assms] obtain d where v: "register_load_run env spec rl
        \<lparr>batches = batches db, quarantined = quarantined db, rejected_rows = rejected_rows db, reg_tables = td_registers db\<rparr> = (Inr r, d)"
      "batches db' = batches d" "quarantined db' = quarantined d" "rejected_rows db' = rejected_rows d" by blast
  from v(1) show ?thesis
    by (rule register_load_core) (auto simp: v(2-4) intro!: loaded_batchI)
qed

lemma promote_dispatch_leaves:
  assumes "promote_run env pm db = (Inr m, db')"
  shows "loaded_batch (pm_ingest pm) (bm_batch_id m) 0 db db'"
proof -
  from assms obtain spec res where s: "store_documents env spec pm res db = Inr db'" "m = manifest_of env spec pm (vr_row_count res)"
    by (rule promote_run_Inr)
  show ?thesis
    by (rule loaded_batchI[where b = "promotion_batch env spec pm (vr_row_count res)" and rs = "[]"])
      (use store_documents_Inr[OF s(1)] in \<open>simp_all add: s(2) promotion_batch_def manifest_of_def\<close>)
qed

lemma return_load_core:
  assumes "return_load_run gr parse gl db = (r, db')"
  shows "case r of Inl e \<Rightarrow> db' = db | Inr out \<Rightarrow> (case go_batch out of None \<Rightarrow> db' = db | Some u \<Rightarrow>
     \<exists>b. batches db' = batches db @ [b] \<and> ib_batch_id b = u \<and> ib_manifest_ref b = gl_ingest gl \<and> ib_status b = ''READY''
       \<and> quarantined db' = quarantined db \<and> rejected_rows db' = rejected_rows db)"
proof (cases r)
  case (Inl e)
  with return_load_Inl assms show ?thesis by auto
next
  case (Inr out)
  with assms obtain d where "store_statement gr gl d db = Inr (out, db')" by (auto simp: return_load_Inr)
  then show ?thesis
    by (auto simp: Inr store_statement_def rbind_eq_Inr_iff return_batch_def dest!: insert_batch_Inr split: if_splits)
qed

text \<open>A return that gets no batch leaves the tables as they were, whatever it gets instead.\<close>

lemma return_leaves:
  assumes "run_return env d f db = (r, db')"
  shows "case r of Inl e \<Rightarrow> db' = db | Inr out \<Rightarrow>
     (case go_batch out of None \<Rightarrow> db' = db | Some u \<Rightarrow> loaded_batch (xj_ingest (dj_job d)) u 0 db db')"
proof -
  have ing: "gl_ingest (return_job d f) = xj_ingest (dj_job d)" by (cases f) (simp add: return_job_def Let_def)
  let ?d2 = "\<lparr>batches = batches db, quarantined = quarantined db, rejected_rows = rejected_rows db,
        headers = fst (td_gstr_2b db), details = snd (td_gstr_2b db)\<rparr>"
  let ?d3 = "\<lparr>batches = batches db, quarantined = quarantined db, rejected_rows = rejected_rows db,
        headers = fst (td_gstr_3b db), details = snd (td_gstr_3b db)\<rparr>"
  consider (b2) "dj_code d = ''GSTR_2B''" | (b3) "dj_code d = ''GSTR_3B''" | (no) "dj_code d \<noteq> ''GSTR_2B''" "dj_code d \<noteq> ''GSTR_3B''" by blast
  then show ?thesis
  proof cases
    case b2
    with assms obtain c where c: "gstr2b_load_run (de_gstr_2b env) (return_job d f) ?d2 = (r, c)"
      "db' = (put_core c db)\<lparr>td_gstr_2b := (headers c, details c)\<rparr>" by (auto simp: run_return_def on_gstr_2b_def split: prod.splits)
    from return_load_core[OF c(1)[unfolded gstr2b_load_run_def], unfolded ing] show ?thesis
      by (auto simp: c(2) put_core_def split: sum.splits option.splits intro!: loaded_batchI[where rs = "[]"])
  next
    case b3
    with assms obtain c where c: "gstr3b_load_run (de_gstr_3b env) (return_job d f) ?d3 = (r, c)"
      "db' = (put_core c db)\<lparr>td_gstr_3b := (headers c, details c)\<rparr>" by (auto simp: run_return_def on_gstr_3b_def split: prod.splits)
    from return_load_core[OF c(1)[unfolded gstr3b_load_run_def], unfolded ing] show ?thesis
      by (auto simp: c(2) put_core_def split: sum.splits option.splits intro!: loaded_batchI[where rs = "[]"])
  next
    case no
    with assms show ?thesis by (auto simp: run_return_def)
  qed
qed

section \<open>What a dispatch leaves\<close>

text \<open>Whether the registry has an extractor for the type that reads a register from a PDF.\<close>

definition register_pdf_type :: "dispatch_env \<Rightarrow> string \<Rightarrow> bool" where
  "register_pdf_type env code \<longleftrightarrow> (case build_extractor_registry (de_compile env) (de_registry env) of
      Inl e \<Rightarrow> False
    | Inr reg \<Rightarrow> (case map_of reg code of None \<Rightarrow> False | Some x \<Rightarrow> reads_register (et_kind x)))"

definition agrees :: "dispatch_env \<Rightarrow> string \<Rightarrow> string \<Rightarrow> uuid \<Rightarrow> dispatch_outcome \<Rightarrow> silver_tables \<Rightarrow> silver_tables \<Rightarrow> bool" where
  "agrees env code m ingest out db db' \<longleftrightarrow> dx_mechanism out = m \<and>
     (case dx_batch out of
        Some u \<Rightarrow> (\<exists>n. loaded_batch ingest u n db db'
          \<and> dx_status out = (if 0 < n \<and> m \<noteq> ''PDF_EXTRACTION'' then PARTIAL else ACCEPTED)
          \<and> (m = ''PDF_EXTRACTION'' \<and> 0 < n \<longrightarrow> register_pdf_type env code))
      | None \<Rightarrow> m \<noteq> ''PDF_EXTRACTION'' \<longrightarrow> db' = db)"

lemma pdf_agrees:
  assumes "run_pdf env d w = (Inr out, w')"
  shows "agrees env (dj_code d) ''PDF_EXTRACTION'' (xj_ingest (dj_job d)) out (xw_db w) (xw_db w')"
proof -
  from assms obtain reg x r where reg: "build_extractor_registry (de_compile env) (de_registry env) = Inr reg"
    and run: "run_extraction (de_extract env) reg (de_reader env) (dj_code d) (dj_job d) w = (Inr (x, r), w')"
    and out: "dx_mechanism out = ''PDF_EXTRACTION''" "dx_batch out = wr_batch r" "dx_status out = (if wr_written r then ACCEPTED else QUARANTINED)"
    by (auto simp: run_pdf_def split: sum.splits prod.splits)
  from run obtain y where y: "map_of reg (dj_code d) = Some y" "to_silver (de_extract env) y (dj_job d) x w = (Inr r, w')"
    by (auto simp: run_extraction_def split: option.splits sum.splits prod.splits)
  from to_silver_leaves[OF y(2)] out reg y(1) show ?thesis
    by (auto simp: leaves_def agrees_def register_pdf_type_def split: if_splits option.splits)
qed

lemma agreesI:
  assumes "dx_mechanism out = m" "m \<noteq> ''PDF_EXTRACTION''" "dx_batch out = Some u" "loaded_batch ingest u n db db'"
    "dx_status out = (if 0 < n then PARTIAL else ACCEPTED)"
  shows "agrees env code m ingest out db db'"
  unfolding agrees_def assms(1,3) option.case using assms(2,4,5) by (intro conjI refl exI[of _ n]) simp_all

lemma mechanism_agrees:
  assumes "run_mechanism env d m w = (Inr out, w')"
  shows "agrees env (dj_code d) m (xj_ingest (dj_job d)) out (xw_db w) (xw_db w')"
proof -
  have jobs: "sd_ingest (sales_job env d f) = xj_ingest (dj_job d)" "rl_ingest (register_dispatch d f) = xj_ingest (dj_job d)"
    "pm_ingest (promote_job env d g) = xj_ingest (dj_job d)" for f g
    by (cases f; simp add: sales_job_def register_dispatch_def promote_job_def Let_def)+
  consider (pdf) "m = ''PDF_EXTRACTION''" | (sales) "m = ''SALES_REGISTER''" | (reg) "m = ''REGISTER_LOADER''"
    | (pro) "m = ''ARCHETYPE1_PROMOTE''" | (ret) "m = ''GSTN_JSON_PROMOTE''"
    using assms by (auto simp: run_mechanism_def split: if_splits)
  then show ?thesis
  proof cases
    case pdf
    with assms pdf_agrees show ?thesis by (simp add: run_mechanism_def)
  next
    case sales
    with assms obtain f r db where l: "on_sales (sales_load_run (de_sales env) (sales_job env d f)) (xw_db w) = (Inr r, db)"
      "xw_db w' = db" "dx_mechanism out = m" "dx_batch out = Some (so_batch r)" "dx_status out = ACCEPTED"
      by (auto simp: run_mechanism_def finished_def split: sum.splits prod.splits elim!: map_sum_Inr_E)
    note sales_leaves[OF l(1), unfolded jobs, folded l(2)]
    moreover have "m \<noteq> ''PDF_EXTRACTION''" by (simp add: sales)
    ultimately show ?thesis using l(3-5) by (intro agreesI[where n = 0]) simp_all
  next
    case reg
    with assms obtain f s r db where l: "on_registers (register_load_run (xe_registers (de_extract env)) s (register_dispatch d f)) (xw_db w) = (Inr r, db)"
      "xw_db w' = db" "dx_mechanism out = m" "dx_batch out = Some (ro_batch r)" "dx_status out = (if 0 < ro_rejected r then PARTIAL else ACCEPTED)"
      by (auto simp: run_mechanism_def finished_def split: sum.splits prod.splits elim!: map_sum_Inr_E)
    note register_dispatch_leaves[OF l(1), unfolded jobs, folded l(2)]
    moreover have "m \<noteq> ''PDF_EXTRACTION''" by (simp add: reg)
    ultimately show ?thesis using l(3-5) by (intro agreesI[where n = "ro_rejected r"]) simp_all
  next
    case pro
    with assms obtain f r db where l: "promote_run (xe_promote (de_extract env)) (promote_job env d f) (xw_db w) = (Inr r, db)"
      "xw_db w' = db" "dx_mechanism out = m" "dx_batch out = Some (bm_batch_id r)" "dx_status out = ACCEPTED"
      by (auto simp: run_mechanism_def finished_def split: sum.splits prod.splits elim!: map_sum_Inr_E)
    note promote_dispatch_leaves[OF l(1), unfolded jobs, folded l(2)]
    moreover have "m \<noteq> ''PDF_EXTRACTION''" by (simp add: pro)
    ultimately show ?thesis using l(3-5) by (intro agreesI[where n = 0]) simp_all
  next
    case ret
    with assms obtain f r db where l: "run_return env d f (xw_db w) = (Inr r, db)"
      "xw_db w' = db" "dx_mechanism out = m" "dx_batch out = go_batch r" "dx_status out = ACCEPTED"
      by (auto simp: run_mechanism_def finished_def split: sum.splits prod.splits elim!: map_sum_Inr_E)
    note lv = return_leaves[OF l(1), folded l(2)]
    have m: "m \<noteq> ''PDF_EXTRACTION''" by (simp add: ret)
    show ?thesis
    proof (cases "go_batch r")
      case None
      with lv l(3,4) show ?thesis by (simp add: agrees_def)
    next
      case (Some u)
      with lv l(3-5) m show ?thesis by (intro agreesI[where n = 0 and u = u]) simp_all
    qed
  qed
qed

section \<open>The doorbell\<close>

lemma publish_messages: "snd (publish pb m ms) = ms \<or> (\<exists>k. kafka_key (bm_slug m) = Inr k \<and> snd (publish pb m ms) = ms @ [(k, m)])"
  by (auto simp: publish_def split: option.splits sum.splits)

lemma publish_if_ready_cases:
  assumes "publish_if_ready env out db ms = (r, ms')" "\<And>u. dx_batch out = Some u \<Longrightarrow> \<exists>b\<in>set (batches db). ib_batch_id b = u"
  shows "r = Inr out \<and> (ms' = ms \<or> (\<exists>b k. b \<in> set (batches db) \<and> dx_batch out = Some (ib_batch_id b)
    \<and> kafka_key (xe_slug (de_extract env)) = Inr k \<and> ms' = ms @ [(k, batch_manifest_of (xe_slug (de_extract env)) b)]))"
proof (cases "de_publisher env")
  case (Some pb)
  show ?thesis
  proof (cases "dx_batch out")
    case u: (Some u)
    with assms(2) obtain b where b: "List.find (\<lambda>b. ib_batch_id b = u) (batches db) = Some b"
      by (cases "List.find (\<lambda>b. ib_batch_id b = u) (batches db)") (auto simp: find_None_iff)
    then have "b \<in> set (batches db)" "ib_batch_id b = u" by (auto dest: find_mem)
    with assms(1) b u Some publish_messages[of pb "batch_manifest_of (xe_slug (de_extract env)) b" ms] show ?thesis
      by (auto simp: publish_if_ready_def read_batch_manifest_def batch_manifest_of_def)
  qed (use assms(1) Some in \<open>auto simp: publish_if_ready_def\<close>)
qed (use assms(1) in \<open>auto simp: publish_if_ready_def\<close>)

lemma agrees_batch_exists: "agrees env code m g out db db' \<Longrightarrow> dx_batch out = Some u \<Longrightarrow> \<exists>b\<in>set (batches db'). ib_batch_id b = u"
  by (auto simp: agrees_def loaded_batch_def)

lemma publisher_fields:
  "de_extract (env\<lparr>de_publisher := x\<rparr>) = de_extract env" "de_reader (env\<lparr>de_publisher := x\<rparr>) = de_reader env"
  "de_registry (env\<lparr>de_publisher := x\<rparr>) = de_registry env" "de_compile (env\<lparr>de_publisher := x\<rparr>) = de_compile env"
  "de_sales (env\<lparr>de_publisher := x\<rparr>) = de_sales env" "de_gstr_2b (env\<lparr>de_publisher := x\<rparr>) = de_gstr_2b env"
  "de_gstr_3b (env\<lparr>de_publisher := x\<rparr>) = de_gstr_3b env"
  by simp_all

lemma run_mechanism_publisher [simp]: "run_mechanism (env\<lparr>de_publisher := x\<rparr>) d m w = run_mechanism env d m w"
  unfolding run_mechanism_def run_pdf_def run_return_def sales_job_def promote_job_def publisher_fields by (rule refl)

lemma dispatch_resolved:
  assumes "resolve_mechanism (de_registry env) (dj_code d) = Inr m" "m \<noteq> []"
    and "run_mechanism env d m \<lparr>xw_db = xw_db w, xw_store = xw_store w\<rparr> = (res, x)"
  shows "dispatch_load env d w = (case res of Inl e \<Rightarrow> (Inl e, w\<lparr>xw_db := xw_db x, xw_store := xw_store x\<rparr>)
     | Inr out \<Rightarrow> (case publish_if_ready env out (xw_db x) (xw_messages w) of
         (r, ms) \<Rightarrow> (r, \<lparr>xw_db = xw_db x, xw_store = xw_store x, xw_messages = ms\<rparr>)))"
  using assms by (simp add: dispatch_load_def split: sum.splits)

text \<open>
  C16. The doorbell never matters. With a publisher, whatever state its broker is in, a dispatch returns and
  stores exactly what it returns and stores without one. At most one message goes out, under the tenant's
  key, and only for a dispatch that returned: it is the manifest of the batch the outcome names, which is
  then in Silver for the poller to find.
\<close>

theorem doorbell_never_matters:
  assumes "dispatch_load (env\<lparr>de_publisher := None\<rparr>) d w = (r0, w0)" "dispatch_load env d w = (r, w')"
  shows "r = r0 \<and> xw_db w' = xw_db w0 \<and> xw_store w' = xw_store w0
    \<and> (xw_messages w' = xw_messages w
       \<or> (\<exists>out b k. r = Inr out \<and> b \<in> set (batches (xw_db w')) \<and> dx_batch out = Some (ib_batch_id b)
            \<and> kafka_key (xe_slug (de_extract env)) = Inr k
            \<and> xw_messages w' = xw_messages w @ [(k, batch_manifest_of (xe_slug (de_extract env)) b)]))"
proof (cases "resolve_mechanism (de_registry env) (dj_code d)")
  case (Inr m)
  obtain res x where run: "run_mechanism env d m \<lparr>xw_db = xw_db w, xw_store = xw_store w\<rparr> = (res, x)"
    by (cases "run_mechanism env d m \<lparr>xw_db = xw_db w, xw_store = xw_store w\<rparr>")
  have run0: "run_mechanism (env\<lparr>de_publisher := None\<rparr>) d m \<lparr>xw_db = xw_db w, xw_store = xw_store w\<rparr> = (res, x)"
    using run by simp
  have Inr0: "resolve_mechanism (de_registry (env\<lparr>de_publisher := None\<rparr>)) (dj_code d) = Inr m" using Inr by simp
  show ?thesis
  proof (cases "m = []")
    case True
    with assms Inr show ?thesis by (auto simp: dispatch_load_def)
  next
    case False
    note d0 = dispatch_resolved[OF Inr0 False run0] and d = dispatch_resolved[OF Inr False run]
    show ?thesis
    proof (cases res)
      case (Inl e)
      with assms d0 d show ?thesis by auto
    next
      case out: (Inr out)
      obtain r1 ms where pub: "publish_if_ready env out (xw_db x) (xw_messages w) = (r1, ms)" by fastforce
      from publish_if_ready_cases[OF pub] agrees_batch_exists[OF mechanism_agrees[OF run[unfolded out]]]
      have c: "r1 = Inr out \<and> (ms = xw_messages w \<or> (\<exists>b k. b \<in> set (batches (xw_db x)) \<and> dx_batch out = Some (ib_batch_id b)
          \<and> kafka_key (xe_slug (de_extract env)) = Inr k \<and> ms = xw_messages w @ [(k, batch_manifest_of (xe_slug (de_extract env)) b)]))"
        by blast
      have "publish_if_ready (env\<lparr>de_publisher := None\<rparr>) out (xw_db x) (xw_messages w) = (Inr out, xw_messages w)"
        by (simp add: publish_if_ready_def)
      with assms d0 d out pub have w: "r0 = Inr out" "xw_db w0 = xw_db x" "xw_store w0 = xw_store x"
        "r = r1" "xw_db w' = xw_db x" "xw_store w' = xw_store x" "xw_messages w' = ms" by auto
      from c show ?thesis unfolding w by blast
    qed
  qed
qed (use assms in \<open>auto simp: dispatch_load_def\<close>)

section \<open>What the trigger reports\<close>

lemma dispatch_Inr:
  assumes "dispatch_load env d w = (Inr out, w')"
  obtains m x where "run_mechanism env d m \<lparr>xw_db = xw_db w, xw_store = xw_store w\<rparr> = (Inr out, x)" "xw_db w' = xw_db x"
    "resolve_mechanism (de_registry env) (dj_code d) = Inr m" "m \<noteq> []"
proof -
  from assms obtain m where m: "resolve_mechanism (de_registry env) (dj_code d) = Inr m" "m \<noteq> []"
    by (auto simp: dispatch_load_def split: sum.splits if_splits)
  obtain res x where run: "run_mechanism env d m \<lparr>xw_db = xw_db w, xw_store = xw_store w\<rparr> = (res, x)"
    by (cases "run_mechanism env d m \<lparr>xw_db = xw_db w, xw_store = xw_store w\<rparr>")
  note d = dispatch_resolved[OF m run]
  with assms obtain o1 where o1: "res = Inr o1" by (cases res) auto
  obtain r1 ms where pub: "publish_if_ready env o1 (xw_db x) (xw_messages w) = (r1, ms)" by fastforce
  with assms d o1 have "r1 = Inr out" "xw_db w' = xw_db x" by auto
  moreover have "r1 = Inr o1"
    using publish_if_ready_cases[OF pub] agrees_batch_exists[OF mechanism_agrees[OF run[unfolded o1]]] by blast
  ultimately show ?thesis using that m run o1 by auto
qed

lemma trigger_cases:
  assumes "record_and_dispatch_trigger benv env q ids p = (r, p')" "tq_ingest q \<in> lr_ingest_id ` set (ledger (pf_bronze p))"
  obtains (early) e where "r = Inl e" "rbind (ledger_entry_of (tq_ingest q) (pf_bronze p)) (\<lambda>entry. rbind (infer_content_format (le_filename entry)) (\<lambda>fmt.
      rbind (fetch benv (tq_ingest q) (pf_bronze p)) (\<lambda>data. Inr (dispatch_of q ids entry fmt data)))) = Inl e" "p' = p\<lparr>pf_triggers := pf_triggers p @ [trigger_row_of q]\<rparr>"
  | (ran) d res w where "xj_ingest (dj_job d) = tq_ingest q" "dj_code d = tq_code q"
      "dispatch_load env d \<lparr>xw_db = pf_db p, xw_store = bstore (pf_bronze p), xw_messages = pf_messages p\<rparr> = (res, w)"
      "r = (case res of Inl e \<Rightarrow> fold_failure q e | Inr out \<Rightarrow> Inr \<lparr>to_trigger = trigger_row_of q, to_status = Dispatched (dx_status out),
          to_mechanism = Some (dx_mechanism out), to_batch = dx_batch out\<rparr>)"
      "p' = p\<lparr>pf_triggers := pf_triggers p @ [trigger_row_of q], pf_bronze := (pf_bronze p)\<lparr>bstore := xw_store w\<rparr>, pf_db := xw_db w, pf_messages := xw_messages w\<rparr>"
proof (cases "rbind (ledger_entry_of (tq_ingest q) (pf_bronze p)) (\<lambda>entry. rbind (infer_content_format (le_filename entry)) (\<lambda>fmt.
      rbind (fetch benv (tq_ingest q) (pf_bronze p)) (\<lambda>data. Inr (dispatch_of q ids entry fmt data))))")
  case (Inl e)
  with assms show ?thesis by (intro early[OF _ Inl]) (simp_all add: record_and_dispatch_trigger_def Let_def)
next
  case (Inr d)
  obtain res w where dl: "dispatch_load env d \<lparr>xw_db = pf_db p, xw_store = bstore (pf_bronze p), xw_messages = pf_messages p\<rparr> = (res, w)"
    by fastforce
  have "xj_ingest (dj_job d) = tq_ingest q \<and> dj_code d = tq_code q" using Inr by (auto simp: rbind_eq_Inr_iff dispatch_of_def)
  with assms Inr dl show ?thesis by (intro ran[of d res w]) (simp_all add: record_and_dispatch_trigger_def Let_def)
qed


text \<open>The failures of a dispatch that do not get out of the trigger.\<close>

definition folded :: "exc \<Rightarrow> bool" where
  "folded e \<longleftrightarrow> (case e of NoDispatchMechanismError _ \<Rightarrow> True | ValidationRejected _ \<Rightarrow> True | DataError _ \<Rightarrow> True | _ \<Rightarrow> is_integrity_error e)"

lemma early_failure:
  assumes "rbind (ledger_entry_of u b) (\<lambda>entry. rbind (infer_content_format (le_filename entry)) (\<lambda>fmt.
     rbind (fetch benv u b) (\<lambda>data. Inr (f entry fmt data)))) = Inl e"
  shows "\<not> folded e"
  using assms
  by (auto simp: rbind_eq_Inl_iff ledger_entry_of_def infer_content_format_def fetch_def bucket_name_def validate_slug_def
      get_object_def folded_def is_integrity_error_def split: option.splits if_splits)

text \<open>
  C17. The durable record comes first. A trigger of an artefact that is not in the ledger is refused and
  leaves nothing; any other is on record whatever happens after it, with the ledger and the pins as they
  were. What escapes is never a driver's integrity or data error, a rejection or a missing mechanism: those
  become a \<open>SilverConstraintViolation\<close> or a status.
\<close>

theorem trigger_recorded_first:
  assumes "record_and_dispatch_trigger benv env q ids p = (r, p')"
  shows "if tq_ingest q \<notin> lr_ingest_id ` set (ledger (pf_bronze p)) then r = Inl (UnknownArtefact (tq_ingest q)) \<and> p' = p
    else pf_triggers p' = pf_triggers p @ [trigger_row_of q] \<and> ledger (pf_bronze p') = ledger (pf_bronze p)
      \<and> bpins (pf_bronze p') = bpins (pf_bronze p)
      \<and> (case r of Inr t \<Rightarrow> to_trigger t = trigger_row_of q | Inl e \<Rightarrow> \<not> folded e)"
proof (cases "tq_ingest q \<in> lr_ingest_id ` set (ledger (pf_bronze p))")
  case True
  from assms True show ?thesis
  proof (cases rule: trigger_cases)
    case (early e)
    from early(2) have "\<not> folded e" by (rule early_failure)
    with early True show ?thesis by simp
  next
    case (ran d res w)
    have "case fold_failure q e of Inr t \<Rightarrow> to_trigger t = trigger_row_of q | Inl e' \<Rightarrow> \<not> folded e'" for e
      by (cases e) (simp_all add: fold_failure_def recorded_only_def folded_def is_integrity_error_def)
    with ran True show ?thesis by (cases res) simp_all
  qed
qed (use assms in \<open>simp add: record_and_dispatch_trigger_def\<close>)

text \<open>
  C18. A GST return without a batch is \<open>PENDING\<close> for good. When the first trigger of a return does not
  give it a batch, nothing is written: no verdict, no batch. The trigger then says \<open>QUARANTINED\<close> for a
  payload it cannot read and \<open>ACCEPTED\<close> for a return that did not change, and the status page says
  \<open>PENDING\<close> for both.
\<close>

theorem return_without_batch_pending:
  assumes "record_and_dispatch_trigger benv env q ids p = (r, p')" "resolve_mechanism (de_registry env) (tq_code q) = Inr ''GSTN_JSON_PROMOTE''"
    and "untouched (tq_ingest q) (pf_db p)" "\<forall>t u. r = Inr t \<longrightarrow> to_batch t \<noteq> Some u"
  shows "pf_db p' = pf_db p \<and> ao_status (artefact_outcome_of (tq_ingest q) (pf_db p')) = PENDING"
proof -
  have "pf_db p' = pf_db p"
  proof (cases "tq_ingest q \<in> lr_ingest_id ` set (ledger (pf_bronze p))")
    case True
    from assms(1) True show ?thesis
    proof (cases rule: trigger_cases)
      case (ran d res w)
      obtain r1 x where run: "run_mechanism env d ''GSTN_JSON_PROMOTE'' \<lparr>xw_db = pf_db p, xw_store = bstore (pf_bronze p)\<rparr> = (r1, x)" by fastforce
      have m: "resolve_mechanism (de_registry env) (dj_code d) = Inr ''GSTN_JSON_PROMOTE''" using assms(2) ran(2) by simp
      note dl = dispatch_resolved[of env d "''GSTN_JSON_PROMOTE''" "\<lparr>xw_db = pf_db p, xw_store = bstore (pf_bronze p), xw_messages = pf_messages p\<rparr>", simplified, OF m run]
      have "xw_db x = pf_db p" if "\<forall>out u. r1 = Inr out \<longrightarrow> dx_batch out \<noteq> Some u"
      proof (cases "require_all d")
        case (Inl e)
        with run show ?thesis by (auto simp: run_mechanism_def)
      next
        case (Inr f)
        obtain r2 db where rr: "run_return env d f (pf_db p) = (r2, db)" by fastforce
        have r1: "r1 = map_sum id (\<lambda>y. \<lparr>dx_mechanism = ''GSTN_JSON_PROMOTE'', dx_batch = go_batch y, dx_written = go_inserted y, dx_status = ACCEPTED\<rparr>) r2"
          and x: "xw_db x = db" using run Inr rr by (auto simp: run_mechanism_def finished_def)
        with that return_leaves[OF rr] show ?thesis by (cases r2) (auto split: option.splits)
      qed
      moreover have "\<forall>out u. r1 = Inr out \<longrightarrow> dx_batch out \<noteq> Some u"
      proof (intro allI impI notI)
        fix out u assume o: "r1 = Inr out" "dx_batch out = Some u"
        obtain r3 ms where pub: "publish_if_ready env out (xw_db x) (pf_messages p) = (r3, ms)" by fastforce
        from publish_if_ready_cases[OF pub] agrees_batch_exists[OF mechanism_agrees[OF run[unfolded o(1)]]] have "r3 = Inr out" by blast
        with dl ran(3) o pub have "res = Inr out" by simp
        with ran(4) o(2) assms(4) show False by simp
      qed
      ultimately have "xw_db x = pf_db p" by blast
      with dl ran(3,5) show ?thesis by (auto split: sum.splits prod.splits)
    qed simp
  qed (use assms(1) in \<open>simp add: record_and_dispatch_trigger_def\<close>)
  with outcome_untouched[OF assms(3)] show ?thesis by simp
qed

section \<open>Witnesses\<close>

definition demo_row :: "uuid \<Rightarrow> string \<Rightarrow> ledger_row" where
  "demo_row u name = \<lparr>lr_ingest_id = u, lr_entity_id = 1, lr_doc_type = ''TRIAL_BALANCE'', lr_source_stream = ''B'', lr_received_at = 1,
     lr_content_hash = [], lr_object_key = name, lr_object_bucket = ''x-acme'', lr_size_bytes = 1, lr_filename = Some name, lr_received_from = []\<rparr>"

definition demo_object :: "bytes \<Rightarrow> s3_object" where
  "demo_object data = \<lparr>body = data, locked_until = None, metadata = []\<rparr>"

definition demo_platform :: platform where
  "demo_platform = \<lparr>pf_bronze = \<lparr>ledger = [demo_row 11 ''tb.csv'', demo_row 12 ''r.json''], bpins = [],
       bstore = \<lparr>buckets = [(''x-acme'', True)], objects = [((''x-acme'', ''tb.csv''), demo_object (trial_balance_csv [''1000,Cash,0,5,DR,'', ''2000,,0,5,CR,''])),
         ((''x-acme'', ''r.json''), demo_object ''not json'')]\<rparr>\<rparr>,
     pf_triggers = [], pf_db = empty_tables, pf_messages = []\<rparr>"

definition demo_dispatch_row :: "string \<Rightarrow> string \<Rightarrow> registry_row" where
  "demo_dispatch_row code m = \<lparr>dt_code = code, dt_archetype = 2, dt_in_scope = True, dt_extraction_spec = [], dt_mechanism = m\<rparr>"

definition demo_dispatch_env :: dispatch_env where
  "demo_dispatch_env = \<lparr>de_registry = [demo_dispatch_row ''TRIAL_BALANCE'' ''REGISTER_LOADER'', demo_dispatch_row ''GSTR_2B'' ''GSTN_JSON_PROMOTE''],
     de_compile = (\<lambda>s. None), de_reader = pypdf_reader (\<lambda>d. None), de_extract = demo_extract_env, de_sales = demo_sales_env,
     de_gstr_2b = demo_2b_env, de_gstr_3b = \<lparr>gf_loads = (\<lambda>b. Inl NotJson), gf_repr = (\<lambda>j. []), gf_digest = id, gf_bytes_digest = id,
       gf_vocabulary = [], gf_column = (\<lambda>c j. j), gf_header_checks = (\<lambda>s. True), gf_detail_checks = (\<lambda>d. True)\<rparr>,
     de_publisher = Some (Some (\<lambda>m. True))\<rparr>"

definition demo_trigger :: "uuid \<Rightarrow> string \<Rightarrow> trigger_request" where
  "demo_trigger u code = \<lparr>tq_ingest = u, tq_code = code, tq_start = Some (Date 2026 4 1), tq_end = Some (Date 2027 3 31),
     tq_gstin = Some ''29ABCDE1234F1Z5'', tq_row = 1, tq_now = 5\<rparr>"

definition demo_triggered :: "uuid \<Rightarrow> string \<Rightarrow> (exc + trigger_outcome) \<times> platform" where
  "demo_triggered u code = record_and_dispatch_trigger demo_env demo_dispatch_env (demo_trigger u code) (demo_job 1) demo_platform"

lemma demo_platform_untouched: "untouched u (pf_db demo_platform)"
  by (simp add: untouched_def demo_platform_def empty_tables_def)

lemma demo_triggered_split: "demo_triggered u code = (fst (demo_triggered u code), snd (demo_triggered u code))"
  by simp

lemma demo_triggered_run: "fst (demo_triggered u code) = x \<Longrightarrow>
    record_and_dispatch_trigger demo_env demo_dispatch_env (demo_trigger u code) (demo_job 1) demo_platform = (x, snd (demo_triggered u code))"
  unfolding demo_triggered_def by (metis prod.collapse)


theorem return_without_batch_pending_witness:
  "\<exists>t. fst (demo_triggered 12 ''GSTR_2B'') = Inr t \<and> to_status t = Dispatched QUARANTINED
     \<and> ao_status (artefact_outcome_of 12 (pf_db (snd (demo_triggered 12 ''GSTR_2B'')))) = PENDING"
proof -
  let ?r = "demo_triggered 12 ''GSTR_2B''"
  have "case fst ?r of Inr t \<Rightarrow> to_batch t = None \<and> to_status t = Dispatched QUARANTINED | Inl e \<Rightarrow> False" by code_simp
  then obtain t where t: "fst ?r = Inr t" "to_batch t = None" "to_status t = Dispatched QUARANTINED" by (cases "fst ?r") simp_all
  have run: "record_and_dispatch_trigger demo_env demo_dispatch_env (demo_trigger 12 ''GSTR_2B'') (demo_job 1) demo_platform = (Inr t, snd ?r)" by (rule demo_triggered_run[OF t(1)])
  have m: "resolve_mechanism (de_registry demo_dispatch_env) (tq_code (demo_trigger 12 ''GSTR_2B'')) = Inr ''GSTN_JSON_PROMOTE''" by code_simp
  have b: "\<forall>t' u. (Inr t :: exc + trigger_outcome) = Inr t' \<longrightarrow> to_batch t' \<noteq> Some u" using t(2) by simp
  have q: "tq_ingest (demo_trigger 12 ''GSTR_2B'') = 12" by (simp add: demo_trigger_def)
  from return_without_batch_pending[OF run m demo_platform_untouched b, unfolded q] t show ?thesis by blast
qed

theorem trigger_recorded_first_witness:
  "length (pf_triggers (snd (demo_triggered 12 ''GSTR_2B''))) = 1 \<and> demo_triggered 99 ''GSTR_2B'' = (Inl (UnknownArtefact 99), demo_platform)"
proof -
  have "tq_ingest (demo_trigger 12 ''GSTR_2B'') \<in> lr_ingest_id ` set (ledger (pf_bronze demo_platform))" by code_simp
  with trigger_recorded_first[OF demo_triggered_split[of 12 "''GSTR_2B''", unfolded demo_triggered_def]]
  have 1: "pf_triggers (snd (demo_triggered 12 ''GSTR_2B'')) = pf_triggers demo_platform @ [trigger_row_of (demo_trigger 12 ''GSTR_2B'')]"
    unfolding demo_triggered_def by simp
  have "tq_ingest (demo_trigger 99 ''GSTR_2B'') \<notin> lr_ingest_id ` set (ledger (pf_bronze demo_platform))" by code_simp
  with trigger_recorded_first[OF demo_triggered_split[of 99 "''GSTR_2B''", unfolded demo_triggered_def]]
  have "demo_triggered 99 ''GSTR_2B'' = (Inl (UnknownArtefact 99), demo_platform)"
    unfolding demo_triggered_def by (simp add: demo_trigger_def prod_eq_iff)
  with 1 show ?thesis by (simp add: demo_platform_def)
qed

definition demo_dispatch_world :: dispatch_world where
  "demo_dispatch_world = \<lparr>xw_db = empty_tables, xw_store = \<lparr>buckets = [], objects = []\<rparr>, xw_messages = []\<rparr>"

definition demo_dispatch_job :: dispatch_job where
  "demo_dispatch_job = \<lparr>dj_job = (demo_job 1)\<lparr>xj_pdf := trial_balance_csv [''1000,Cash,0,5,DR,'']\<rparr>, dj_code = ''TRIAL_BALANCE'', dj_format = ''csv'',
     dj_start = Some (Date 2026 4 1), dj_end = Some (Date 2027 3 31), dj_gstin = Some ''29ABCDE1234F1Z5''\<rparr>"

theorem doorbell_never_matters_witness:
  "\<exists>m. map snd (xw_messages (snd (dispatch_load demo_dispatch_env demo_dispatch_job demo_dispatch_world))) = [m] \<and> bm_batch_id m = 31
     \<and> fst (dispatch_load demo_dispatch_env demo_dispatch_job demo_dispatch_world)
       = fst (dispatch_load (demo_dispatch_env\<lparr>de_publisher := None\<rparr>) demo_dispatch_job demo_dispatch_world)"
proof -
  let ?a = "dispatch_load demo_dispatch_env demo_dispatch_job demo_dispatch_world"
  have "case map snd (xw_messages (snd ?a)) of [m] \<Rightarrow> bm_batch_id m = 31 | _ \<Rightarrow> False" by code_simp
  then obtain m where "map snd (xw_messages (snd ?a)) = [m]" "bm_batch_id m = 31" by (auto split: list.splits)
  moreover have "fst ?a = fst (dispatch_load (demo_dispatch_env\<lparr>de_publisher := None\<rparr>) demo_dispatch_job demo_dispatch_world)"
    using doorbell_never_matters[OF prod.collapse[symmetric] prod.collapse[symmetric]] by blast
  ultimately show ?thesis by (intro exI conjI)
qed

end
