(* ===== verification/Entitlement.thy ===== *)
theory Entitlement
  imports EntityMasters
begin

text \<open>
  \<open>src/src/reader/entitlement_reader.py\<close>: whether an entity held an instrument of a type, in force on a
  date and covering a code of goods. The view it reads is the instrument table. Classes of characters are
  the ASCII ones.
\<close>

section \<open>The code and its prefixes\<close>

definition hsn_prefixes :: "string \<Rightarrow> string list" where
  "hsn_prefixes hsn =
     (let digits = filter is_digit hsn; out = map (\<lambda>n. take n digits) (filter even [2..<Suc (length digits)])
      in if digits = [] then [] else if digits \<in> set out then out else out @ [digits])"

section \<open>The query\<close>

definition hsn_covered :: "string list option \<Rightarrow> string list option \<Rightarrow> bool" where
  "hsn_covered wanted scope = (case wanted of None \<Rightarrow> True | Some ps \<Rightarrow>
     (case scope of None \<Rightarrow> True | Some hs \<Rightarrow> list_ex (\<lambda>h. h \<in> set ps) hs))"

text \<open>\<open>hsn_prefixes(hsn) if hsn else None\<close>\<close>

definition query_prefixes :: "string option \<Rightarrow> string list option" where
  "query_prefixes hsn = (case hsn of None \<Rightarrow> None | Some h \<Rightarrow> if h = [] then None else Some (hsn_prefixes h))"

definition confers :: "uuid \<Rightarrow> string \<Rightarrow> date \<Rightarrow> string option \<Rightarrow> instrument_record \<Rightarrow> bool" where
  "confers entity ty as_of hsn r \<longleftrightarrow> in_entity r = entity \<and> in_type r = ty \<and> in_status r = ''ACTIVE''
     \<and> in_valid_from r \<le> as_of \<and> as_of \<le> in_valid_to r \<and> hsn_covered (query_prefixes hsn) (in_scope_hsn r)"

text \<open>Newest validity first; \<open>Instrument\<close> is a projection of the row.\<close>

definition find_instruments :: "uuid \<Rightarrow> string \<Rightarrow> date \<Rightarrow> string option \<Rightarrow> instrument_record filed list \<Rightarrow> instrument_record filed list" where
  "find_instruments entity ty as_of hsn t =
     rev (sort_key (\<lambda>f. in_valid_from (fi_record f)) (filter (\<lambda>f. fi_live f \<and> confers entity ty as_of hsn (fi_record f)) t))"

definition is_entitled :: "uuid \<Rightarrow> string \<Rightarrow> date \<Rightarrow> string option \<Rightarrow> instrument_record filed list \<Rightarrow> bool" where
  "is_entitled entity ty as_of hsn t \<longleftrightarrow> find_instruments entity ty as_of hsn t \<noteq> []"

section \<open>What a code is covered by\<close>

lemma hsn_prefixes_iff:
  "p \<in> set (hsn_prefixes h) \<longleftrightarrow>
     (\<exists>n. p = take n (filter is_digit h) \<and> 0 < n \<and> n \<le> length (filter is_digit h) \<and> (even n \<or> n = length (filter is_digit h)))"
proof -
  let ?d = "filter is_digit h"
  have out: "p \<in> set (map (\<lambda>n. take n ?d) (filter even [2..<Suc (length ?d)])) \<longleftrightarrow> (\<exists>n. p = take n ?d \<and> 0 < n \<and> n \<le> length ?d \<and> even n)"
  proof -
    have "n \<in> set (filter even [2..<Suc (length ?d)]) \<longleftrightarrow> 0 < n \<and> n \<le> length ?d \<and> even n" for n by (cases "n = 1") auto
    then show ?thesis by auto
  qed
  show ?thesis
  proof (cases "?d = []")
    case False
    then have eq: "p = ?d \<longleftrightarrow> (\<exists>n. p = take n ?d \<and> 0 < n \<and> n \<le> length ?d \<and> n = length ?d)" by auto
    have "p \<in> set (hsn_prefixes h) \<longleftrightarrow> p \<in> set (map (\<lambda>n. take n ?d) (filter even [2..<Suc (length ?d)])) \<or> p = ?d"
      unfolding hsn_prefixes_def Let_def using False by auto
    with out eq show ?thesis by blast
  qed (simp add: hsn_prefixes_def)
qed

section \<open>Live rows are current rows\<close>

lemma live_is_current:
  assumes "filed_ok key t" "f \<in> set t" "fi_live f"
  shows "find_current key (key (fi_record f)) t = Some f"
proof -
  let ?vs = "versions_of key (key (fi_record f)) t"
  have f: "f \<in> set (filter fi_live ?vs)" using assms(2,3) by (simp add: versions_of_def)
  have "linked None ?vs" using assms(1) by (simp add: filed_ok_def)
  from linked_live[OF this] f have "?vs \<noteq> [] \<and> f = last ?vs" by (auto split: if_splits)
  with find_current_eq[OF assms(1)] show ?thesis by simp
qed

lemma live_after_filing:
  assumes "filed_ok (sv_key sv) t" "record_or_supersede env sv bs now i r t = Inr (prior, t')"
  shows "{f \<in> set t'. fi_live f} = {f \<in> set t. fi_live f \<and> sv_key sv (fi_record f) \<noteq> sv_key sv r}
     \<union> {\<lparr>fi_id = i, fi_record = r, fi_supersedes = prior, fi_superseded_at = None\<rparr>}"
proof -
  note c = record_or_supersede_cases[OF assms]
  let ?new = "\<lparr>fi_id = i, fi_record = r, fi_supersedes = prior, fi_superseded_at = None\<rparr>"
  have "f \<in> set t' \<and> fi_live f \<longleftrightarrow> find_current (sv_key sv) (sv_key sv (fi_record f)) t' = Some f" for f
    using live_is_current[OF c(1), of f] find_mem[of _ t' f] by (auto simp: find_current_def)
  moreover have "f \<in> set t \<and> fi_live f \<longleftrightarrow> find_current (sv_key sv) (sv_key sv (fi_record f)) t = Some f" for f
    using live_is_current[OF assms(1), of f] find_mem[of _ t f] by (auto simp: find_current_def)
  ultimately show ?thesis using c(4) by (auto split: if_splits)
qed

lemma entitlement_row_Inr:
  assumes "entitlement_row env j code authority window fs db = Inr db'"
  shows "\<exists>rec prior. record_or_supersede (xe_facts env) instrument_service (batches db) (xj_now j) (xj_record j) rec
      (td_instruments db) = Inr (prior, td_instruments db')
    \<and> in_entity rec = xj_entity j \<and> in_type rec = code \<and> in_status rec = ''ACTIVE''"
proof -
  from assms obtain n a b hsn sc ob prior t where run: "record_or_supersede (xe_facts env) instrument_service (batches db) (xj_now j) (xj_record j)
      \<lparr>in_entity = xj_entity j, in_type = code, in_authority = authority, in_number = n, in_valid_from = a, in_valid_to = b,
       in_status = ''ACTIVE'', in_scope_hsn = hsn, in_scope = sc, in_obligation = ob, in_batch = xj_batch j, in_ingest = xj_ingest j\<rparr>
      (td_instruments db) = Inr (prior, t)" and db': "db' = db\<lparr>td_instruments := t\<rparr>"
    unfolding entitlement_row_def rbind_eq_Inr_iff by (auto split: prod.splits)
  show ?thesis by (intro exI conjI, unfold db', simp, rule run) simp_all
qed

text \<open>
  C23. From the PDF to the answer. After an entitlement document is written, every question is answered from
  the instruments that answered it before, less any of the same number, plus the new one exactly when it is
  asked about its holder, its type, a date from its first to its last day, and a code its scope covers.
\<close>

theorem extracted_entitlement_answers:
  assumes "entitlement_to_silver env code authority j (Extracted fs) w = (Inr r, w')"
    and "filed_ok (sv_key instrument_service) (td_instruments (xw_db w))"
  shows "\<exists>f. fi_id f = xj_record j \<and> in_entity (fi_record f) = xj_entity j \<and> in_type (fi_record f) = code
    \<and> in_status (fi_record f) = ''ACTIVE'' \<and> in_valid_from (fi_record f) < in_valid_to (fi_record f)
    \<and> (\<forall>entity ty as_of hsn. set (find_instruments entity ty as_of hsn (td_instruments (xw_db w')))
         = {g \<in> set (find_instruments entity ty as_of hsn (td_instruments (xw_db w))).
              sv_key instrument_service (fi_record g) \<noteq> sv_key instrument_service (fi_record f)}
           \<union> (if confers entity ty as_of hsn (fi_record f) then {f} else {}))"
proof -
  from assms(1) obtain window db1 where run: "create_single_document_batch env j code (fst window) (xw_db w) = Inr db1"
      "entitlement_row env j code authority window fs db1 = Inr (xw_db w')"
    by (auto simp: entitlement_to_silver_def batch_then_def split: sum.splits)
  from run(1) have same: "td_instruments db1 = td_instruments (xw_db w)" by (rule create_batch_Inr) simp
  let ?t = "td_instruments (xw_db w')"
  from entitlement_row_Inr[OF run(2)] obtain rec prior where
    rec: "record_or_supersede (xe_facts env) instrument_service (batches db1) (xj_now j) (xj_record j) rec
        (td_instruments db1) = Inr (prior, ?t)"
      "in_entity rec = xj_entity j" "in_type rec = code" "in_status rec = ''ACTIVE''" by blast
  let ?f = "\<lparr>fi_id = xj_record j, fi_record = rec, fi_supersedes = prior, fi_superseded_at = None\<rparr>"
  from rec(1) have "sv_column_error instrument_service rec = None"
    by (auto simp: record_or_supersede_def rbind_eq_Inr_iff dest!: insert_filed_Inr split: prod.splits)
  then have v: "in_valid_from rec < in_valid_to rec" by (simp add: instrument_service_def split: if_splits)
  note live = live_after_filing[OF assms(2)[folded same] rec(1)]
  have "set (find_instruments entity ty as_of hsn ?t) = {g \<in> set (find_instruments entity ty as_of hsn (td_instruments (xw_db w))).
       sv_key instrument_service (fi_record g) \<noteq> sv_key instrument_service (fi_record ?f)} \<union> (if confers entity ty as_of hsn (fi_record ?f) then {?f} else {})"
    for entity ty as_of hsn
  proof -
    let ?c = "confers entity ty as_of hsn"
    have answer: "set (find_instruments entity ty as_of hsn x) = {g \<in> set x. fi_live g} \<inter> {g. ?c (fi_record g)}" for x
      by (auto simp: find_instruments_def)
    show ?thesis unfolding answer live[unfolded same] by (cases "?c rec") auto
  qed
  then show ?thesis using rec(2-4) v by (intro exI[of _ ?f]) simp
qed

section \<open>Witness\<close>

definition demo_lut :: to_silver_result where
  "demo_lut = entitlement_to_silver demo_extract_env ''LUT'' ''GSTN'' (demo_job 1)
     (Extracted [(''instrument_number'', FText ''AD1''), (''validity'', FRange (Date 2025 4 1) (Date 2026 3 31))]) demo_silver_world"

theorem extracted_entitlement_answers_witness:
  "\<exists>r w' f. demo_lut = (Inr r, w') \<and> set (find_instruments 1 ''LUT'' (Date 2026 3 31) (Some ''84713010'') (td_instruments (xw_db w'))) = {f}
     \<and> is_entitled 1 ''LUT'' (Date 2026 3 31) (Some ''84713010'') (td_instruments (xw_db w'))
     \<and> \<not> is_entitled 1 ''LUT'' (Date 2026 4 1) None (td_instruments (xw_db w'))"
proof -
  have "case fst demo_lut of Inr r \<Rightarrow> True | Inl e \<Rightarrow> False" by code_simp
  then obtain r where "fst demo_lut = Inr r" by (cases "fst demo_lut") simp_all
  then have run: "demo_lut = (Inr r, snd demo_lut)" by (simp add: prod_eq_iff)
  have "filed_ok (sv_key instrument_service) (td_instruments (xw_db demo_silver_world))"
    by (simp add: demo_silver_world_def empty_tables_def)
  from extracted_entitlement_answers[OF run[unfolded demo_lut_def] this, folded demo_lut_def] obtain f where
    f: "set (find_instruments 1 ''LUT'' (Date 2026 3 31) (Some ''84713010'') (td_instruments (xw_db (snd demo_lut))))
        = {g \<in> set (find_instruments 1 ''LUT'' (Date 2026 3 31) (Some ''84713010'') (td_instruments (xw_db demo_silver_world))).
             sv_key instrument_service (fi_record g) \<noteq> sv_key instrument_service (fi_record f)}
          \<union> (if confers 1 ''LUT'' (Date 2026 3 31) (Some ''84713010'') (fi_record f) then {f} else {})"
    by blast
  have e: "find_instruments 1 ''LUT'' (Date 2026 3 31) (Some ''84713010'') (td_instruments (xw_db demo_silver_world)) = []" by code_simp
  have y: "is_entitled 1 ''LUT'' (Date 2026 3 31) (Some ''84713010'') (td_instruments (xw_db (snd demo_lut)))" by code_simp
  have n: "\<not> is_entitled 1 ''LUT'' (Date 2026 4 1) None (td_instruments (xw_db (snd demo_lut)))" by code_simp
  from f e y have "set (find_instruments 1 ''LUT'' (Date 2026 3 31) (Some ''84713010'') (td_instruments (xw_db (snd demo_lut)))) = {f}"
    by (auto simp: is_entitled_def split: if_splits)
  with run y n show ?thesis by blast
qed

end
