(* ===== verification/Migrate.thy ===== *)
theory Migrate
  imports Identifiers "HOL-Library.Char_ord" "HOL-Library.List_Lexorder"
begin

text \<open>
  \<open>src/src/migrate/runner.py\<close>: the chains of migration files, what is recorded of those that ran, the run
  over one tenant, the fan-out over all of them in a pool of threads, and the report of what is pending.
  What a statement does to the database is a parameter (\<open>me_exec\<close>, \<open>me_grants\<close>), apart from the version
  tables, the registry and the grants on a schema and its \<open>__schema_identity\<close> table
  (\<open>app.apply_tenant_grants\<close>, as replaced last by
  \<open>src/migrations/shared/063_recon_engine_gold_setting_view.sql\<close>); a directory is the list of its files with their
  text. No tenant migration grants or revokes anything.
\<close>

section \<open>Migration files\<close>

record migration =
  mg_filename :: string
  mg_body :: string
  mg_checksum :: string

type_synonym directory = "(string \<times> string) list"

record migration_files =
  shared_dir :: directory
  tenant_dir :: directory
  tenant_ext_dir :: "string \<Rightarrow> directory option"

text \<open>\<open>glob("*.sql")\<close>, sorted by name.\<close>

definition sql_files :: "directory \<Rightarrow> directory" where
  "sql_files dir = sort_key fst (filter (\<lambda>(n, b). drop (length n - 4) n = ''.sql'') dir)"

definition load_dir :: "(string \<Rightarrow> string) \<Rightarrow> directory \<Rightarrow> migration list" where
  "load_dir sha dir = map (\<lambda>(n, b). \<lparr>mg_filename = n, mg_body = b, mg_checksum = sha b\<rparr>) (sql_files dir)"

text \<open>\<open>_EXT_FILENAME_RE\<close>, on a name that ends in \<open>.sql\<close>.\<close>

definition ext_filename :: "string \<Rightarrow> bool" where
  "ext_filename n \<longleftrightarrow> 13 \<le> length n \<and> take 4 n = ''ext_'' \<and> list_all is_digit (take 3 (drop 4 n)) \<and> take 1 (drop 7 n) = ''_''
     \<and> list_all slug_char (take (length n - 12) (drop 8 n)) \<and> drop (length n - 4) n = ''.sql''"

definition load_ext :: "(string \<Rightarrow> string) \<Rightarrow> migration_files \<Rightarrow> string \<Rightarrow> exc + migration list" where
  "load_ext sha fs slug = rbind (validate_slug slug) (\<lambda>_. case tenant_ext_dir fs slug of None \<Rightarrow> Inr [] | Some dir \<Rightarrow>
     let stray = filter (\<lambda>n. \<not> ext_filename n) (map fst (sql_files dir)) in
     if stray \<noteq> [] then Inl (MigrationError (''tenant_ext/'' @ slug @ '': '' @ join '', '' stray)) else Inr (load_dir sha dir))"

text \<open>\<open>s.replace(old, new)\<close>, \<open>old\<close> not empty.\<close>

fun replace_text :: "string \<Rightarrow> string \<Rightarrow> string \<Rightarrow> string" where
  "replace_text old new [] = []"
| "replace_text old new (c # s) =
     (if take (length old) (c # s) = old then new @ replace_text old new (drop (length old - 1) s) else c # replace_text old new s)"

definition quoted :: "string \<Rightarrow> string" where
  "quoted s = CHR 0x22 # s @ [CHR 0x22]"

definition render :: "string \<Rightarrow> string \<Rightarrow> exc + string" where
  "render b slug = rbind (validate_slug slug) (\<lambda>_.
     rbind (bronze_schema slug) (\<lambda>bronze. rbind (silver_schema slug) (\<lambda>silver. rbind (gold_schema slug) (\<lambda>gold.
     Inr (replace_text ''{{gold}}'' (quoted gold) (replace_text ''{{silver}}'' (quoted silver) (replace_text ''{{bronze}}'' (quoted bronze) b)))))))"

section \<open>The database\<close>

type_synonym version_rows = "(string \<times> string) list"

record tenant_row =
  tr_slug :: string
  tr_tenant :: uuid
  tr_bucket :: string
  tr_status :: string
  tr_activated :: "instant option"

text \<open>
  The registry, the version table of the shared chain, that of each silver schema, the roles that have USAGE on a
  schema and SELECT on its identity table, and the rest. \<open>None\<close> is a table that does not exist.
\<close>

record 'd estate =
  es_registry :: "tenant_row list"
  es_shared :: "version_rows option"
  es_versions :: "string \<Rightarrow> version_rows option"
  es_readers :: "string \<Rightarrow> string list"
  es_data :: 'd

record 'd migrate_env =
  me_sha :: "string \<Rightarrow> string"
  me_files :: migration_files
  me_exec :: "string \<Rightarrow> 'd \<Rightarrow> exc + 'd"
  me_grants :: "string \<Rightarrow> 'd \<Rightarrow> exc + 'd"

text \<open>What a committed transaction of one tenant's chain changes.\<close>

definition put_tenant :: "string \<Rightarrow> version_rows \<Rightarrow> 'd \<Rightarrow> 'd estate \<Rightarrow> 'd estate" where
  "put_tenant schema vt d e = e\<lparr>es_versions := (es_versions e)(schema := Some vt), es_data := d\<rparr>"

definition layer_suffixes :: "string list" where
  "layer_suffixes = [''_bronze'', ''_silver'', ''_gold'', ''_reconciliation'']"

definition role_suffixes :: "string list" where
  "role_suffixes = [''_ingest'', ''_recon'', ''_support'', ''_recon_engine'']"

definition pg_name :: "string \<Rightarrow> string \<Rightarrow> string" where
  "pg_name slug suffix = ''t_'' @ slug @ suffix"

text \<open>
  What \<open>app.apply_tenant_grants\<close> does to the readers of the four schemas: it revokes, then grants. Whether the
  function fails, and what it does to the other tables, is the parameter's.
\<close>

definition identity_readers :: "(string \<times> string list) list" where
  "identity_readers = [(''_bronze'', [''_ingest'', ''_support'']), (''_silver'', [''_ingest'', ''_recon'', ''_support'', ''_recon_engine'']),
     (''_gold'', [''_recon'', ''_support'', ''_recon_engine'']), (''_reconciliation'', [''_recon_engine''])]"

definition revoked_roles :: "string \<Rightarrow> string list" where
  "revoked_roles layer = (if layer = ''_reconciliation'' then [''_ingest'', ''_recon'', ''_support''] else role_suffixes)"

definition regrant :: "string \<Rightarrow> string \<times> string list \<Rightarrow> (string \<Rightarrow> string list) \<Rightarrow> string \<Rightarrow> string list" where
  "regrant slug g rd = (case g of (layer, roles) \<Rightarrow> let schema = pg_name slug layer in
     rd(schema := filter (\<lambda>r. r \<notin> pg_name slug ` set (revoked_roles layer @ roles)) (rd schema) @ map (pg_name slug) roles))"

definition grant_identity :: "string \<Rightarrow> 'd estate \<Rightarrow> 'd estate" where
  "grant_identity slug e = e\<lparr>es_readers := fold (regrant slug) identity_readers (es_readers e)\<rparr>"

definition undefined_table :: exc where
  "undefined_table = SqlError ''42P01''"

section \<open>One chain\<close>

text \<open>The message names the file and the scope.\<close>

definition verify_checksum :: "migration \<Rightarrow> string \<Rightarrow> string \<Rightarrow> exc + unit" where
  "verify_checksum m recorded scope = (if recorded \<noteq> mg_checksum m
     then Inl (MigrationError (''checksum mismatch for '' @ mg_filename m @ '' in '' @ scope)) else Inr ())"

text \<open>One transaction: the body and its row. The filename is the primary key of the version table.\<close>

definition apply_migration :: "('d \<Rightarrow> exc + 'd) \<Rightarrow> migration \<Rightarrow> version_rows \<times> 'd \<Rightarrow> exc + version_rows \<times> 'd" where
  "apply_migration run m st = rbind (run (snd st)) (\<lambda>d.
     if mg_filename m \<in> fst ` set (fst st) then Inl (UniqueViolation ''__migration_version_pkey'')
     else Inr (fst st @ [(mg_filename m, mg_checksum m)], d))"

text \<open>The loop of both chains; \<open>seen\<close> is what the version table held when it was read.\<close>

fun run_chain ::
  "(migration \<Rightarrow> 'd \<Rightarrow> exc + 'd) \<Rightarrow> string \<Rightarrow> (string \<rightharpoonup> string) \<Rightarrow> migration list \<Rightarrow> string list \<Rightarrow> version_rows \<times> 'd
    \<Rightarrow> (exc + string list) \<times> version_rows \<times> 'd" where
  "run_chain run scope seen [] applied st = (Inr applied, st)"
| "run_chain run scope seen (m # ms) applied st =
     (case seen (mg_filename m) of
        Some recorded \<Rightarrow> (case verify_checksum m recorded scope of
            Inl x \<Rightarrow> (Inl x, st) | Inr _ \<Rightarrow> run_chain run scope seen ms applied st)
      | None \<Rightarrow> (case apply_migration (run m) m st of
            Inl x \<Rightarrow> (Inl x, st) | Inr st' \<Rightarrow> run_chain run scope seen ms (applied @ [mg_filename m]) st'))"

definition apply_shared :: "'d migrate_env \<Rightarrow> 'd estate \<Rightarrow> (exc + string list) \<times> 'd estate" where
  "apply_shared env e =
     (let vt = (case es_shared e of None \<Rightarrow> [] | Some vt \<Rightarrow> vt) in
      case run_chain (\<lambda>m. me_exec env (mg_body m)) ''shared'' (map_of vt) (load_dir (me_sha env) (shared_dir (me_files env))) [] (vt, es_data e) of
        (r, vt', d) \<Rightarrow> (r, e\<lparr>es_shared := Some vt', es_data := d\<rparr>))"

section \<open>One tenant\<close>

definition tenant_chain :: "'d migrate_env \<Rightarrow> string \<Rightarrow> exc + migration list" where
  "tenant_chain env slug = rbind (validate_slug slug) (\<lambda>_. rbind (load_ext (me_sha env) (me_files env) slug) (\<lambda>ext.
     Inr (load_dir (me_sha env) (tenant_dir (me_files env)) @ ext)))"

definition applied_map :: "string \<Rightarrow> 'd estate \<Rightarrow> exc + version_rows" where
  "applied_map schema e = (case es_versions e schema of None \<Rightarrow> Inl undefined_table | Some vt \<Rightarrow> Inr vt)"

definition run_rendered :: "'d migrate_env \<Rightarrow> string \<Rightarrow> migration \<Rightarrow> 'd \<Rightarrow> exc + 'd" where
  "run_rendered env slug m d = rbind (render (mg_body m) slug) (\<lambda>s. me_exec env s d)"

text \<open>What a run reads before its first transaction: its migrations, the name of its schema, the rows of its table.\<close>

definition open_tenant :: "'d migrate_env \<Rightarrow> string \<Rightarrow> 'd estate \<Rightarrow> exc + migration list \<times> string \<times> version_rows" where
  "open_tenant env slug e = rbind (tenant_chain env slug) (\<lambda>ms. rbind (silver_schema slug) (\<lambda>schema.
     rbind (applied_map schema e) (\<lambda>vt. Inr (ms, schema, vt))))"

definition apply_tenant :: "'d migrate_env \<Rightarrow> string \<Rightarrow> 'd estate \<Rightarrow> (exc + string list) \<times> 'd estate" where
  "apply_tenant env slug e = (case open_tenant env slug e of Inl x \<Rightarrow> (Inl x, e) | Inr (ms, schema, vt) \<Rightarrow>
     (case run_chain (run_rendered env slug) slug (map_of vt) ms [] (vt, es_data e) of
        (r, vt', d) \<Rightarrow> let e' = put_tenant schema vt' d e in
          (case r of Inl x \<Rightarrow> (Inl x, e') | Inr applied \<Rightarrow>
            (case me_grants env slug d of Inl x \<Rightarrow> (Inl x, e') | Inr d' \<Rightarrow> (Inr applied, grant_identity slug (e'\<lparr>es_data := d'\<rparr>))))))"

section \<open>All tenants\<close>

text \<open>\<open>ORDER BY slug\<close>, in byte order.\<close>

definition tenant_slugs :: "'d estate \<Rightarrow> string list" where
  "tenant_slugs e = sort (map tr_slug (filter (\<lambda>r. tr_status r \<in> {''ACTIVE'', ''PROVISIONING''}) (es_registry e)))"

text \<open>
  A job of the pool is \<open>_one(slug)\<close>, cut where other threads can come in between: at the reads, at each
  transaction and at the grants. An exception ends the job, not the pool.
\<close>

datatype job =
    Waiting
  | Running "migration list" "string \<rightharpoonup> string" "string list"
  | Finished "exc + string list"

fun job_step :: "'d migrate_env \<Rightarrow> string \<Rightarrow> job \<times> 'd estate \<Rightarrow> job \<times> 'd estate" where
  "job_step env slug (Waiting, e) = (case open_tenant env slug e of
      Inl x \<Rightarrow> (Finished (Inl x), e) | Inr (ms, schema, vt) \<Rightarrow> (Running ms (map_of vt) [], e))"
| "job_step env slug (Running [] seen applied, e) = (case me_grants env slug (es_data e) of
      Inl x \<Rightarrow> (Finished (Inl x), e) | Inr d \<Rightarrow> (Finished (Inr applied), grant_identity slug (e\<lparr>es_data := d\<rparr>)))"
| "job_step env slug (Running (m # ms) seen applied, e) =
     (case seen (mg_filename m) of
        Some recorded \<Rightarrow> (case verify_checksum m recorded slug of
            Inl x \<Rightarrow> (Finished (Inl x), e) | Inr _ \<Rightarrow> (Running ms seen applied, e))
      | None \<Rightarrow> (case rbind (silver_schema slug) (\<lambda>schema. rbind (applied_map schema e) (\<lambda>vt.
                    rbind (apply_migration (run_rendered env slug m) m (vt, es_data e)) (\<lambda>st. Inr (schema, st)))) of
            Inl x \<Rightarrow> (Finished (Inl x), e)
          | Inr (schema, vt, d) \<Rightarrow>
              (Running ms seen (applied @ [mg_filename m]), put_tenant schema vt d e)))"
| "job_step env slug (Finished r, e) = (Finished r, e)"

fun is_running :: "job \<Rightarrow> bool" where
  "is_running (Running ms seen applied) = True"
| "is_running j = False"

record 'd fan =
  fn_jobs :: "(string \<times> job) list"
  fn_estate :: "'d estate"

text \<open>The pool takes jobs in their order, at most \<open>max(1, concurrency)\<close> at a time.\<close>

inductive fan_step :: "'d migrate_env \<Rightarrow> nat \<Rightarrow> 'd fan \<Rightarrow> 'd fan \<Rightarrow> bool" for env :: "'d migrate_env" and workers :: nat where
  start: "i < length js \<Longrightarrow> js ! i = (s, Waiting) \<Longrightarrow> \<forall>k<i. snd (js ! k) \<noteq> Waiting
    \<Longrightarrow> length (filter (is_running \<circ> snd) js) < max 1 workers \<Longrightarrow> job_step env s (Waiting, e) = (j, e')
    \<Longrightarrow> fan_step env workers \<lparr>fn_jobs = js, fn_estate = e\<rparr> \<lparr>fn_jobs = js[i := (s, j)], fn_estate = e'\<rparr>"
| move: "i < length js \<Longrightarrow> js ! i = (s, Running ms seen applied) \<Longrightarrow> job_step env s (Running ms seen applied, e) = (j, e')
    \<Longrightarrow> fan_step env workers \<lparr>fn_jobs = js, fn_estate = e\<rparr> \<lparr>fn_jobs = js[i := (s, j)], fn_estate = e'\<rparr>"

inductive_cases fan_stepE: "fan_step env workers f f'"

definition fan_start :: "'d estate \<Rightarrow> 'd fan" where
  "fan_start e = \<lparr>fn_jobs = map (\<lambda>s. (s, Waiting)) (tenant_slugs e), fn_estate = e\<rparr>"

definition fan_done :: "'d fan \<Rightarrow> bool" where
  "fan_done f \<longleftrightarrow> list_all (\<lambda>(s, j). case j of Finished r \<Rightarrow> True | _ \<Rightarrow> False) (fn_jobs f)"

text \<open>\<open>RunReport\<close>: a tenant that failed reports its error and no migrations.\<close>

record tenant_result =
  rs_slug :: string
  rs_applied :: "string list"
  rs_error :: "exc option"

definition run_report :: "'d fan \<Rightarrow> tenant_result list" where
  "run_report f = map (\<lambda>(s, j). case j of
      Finished (Inr applied) \<Rightarrow> \<lparr>rs_slug = s, rs_applied = applied, rs_error = None\<rparr>
    | Finished (Inl x) \<Rightarrow> \<lparr>rs_slug = s, rs_applied = [], rs_error = Some x\<rparr>
    | _ \<Rightarrow> \<lparr>rs_slug = s, rs_applied = [], rs_error = None\<rparr>) (fn_jobs f)"

definition report_ok :: "tenant_result list \<Rightarrow> bool" where
  "report_ok rs \<longleftrightarrow> filter (\<lambda>r. rs_error r \<noteq> None) rs = []"

section \<open>What is pending\<close>

definition head_of :: "'d migrate_env \<Rightarrow> string option" where
  "head_of env = (let ms = load_dir (me_sha env) (tenant_dir (me_files env)) in if ms = [] then None else Some (mg_filename (last ms)))"

text \<open>\<open>None\<close>: not in the report.\<close>

definition drift_of :: "'d migrate_env \<Rightarrow> 'd estate \<Rightarrow> string \<Rightarrow> exc + string list option" where
  "drift_of env e slug =
     rbind (load_ext (me_sha env) (me_files env) slug) (\<lambda>ext.
       let expected = map mg_filename (load_dir (me_sha env) (tenant_dir (me_files env)) @ ext) in
       rbind (silver_schema slug) (\<lambda>schema. case applied_map schema e of
           Inl x \<Rightarrow> Inr (Some expected)
         | Inr vt \<Rightarrow> let pending = filter (\<lambda>f. f \<notin> fst ` set vt) expected in Inr (if pending = [] then None else Some pending)))"

definition drift_report :: "'d migrate_env \<Rightarrow> 'd estate \<Rightarrow> exc + (string \<times> string list) list" where
  "drift_report env e = rfold (\<lambda>drift s. rbind (drift_of env e s) (\<lambda>p. Inr (case p of None \<Rightarrow> drift | Some p \<Rightarrow> dict_put s p drift)))
     [] (tenant_slugs e)"

definition assert_no_drift :: "'d migrate_env \<Rightarrow> 'd estate \<Rightarrow> exc + unit" where
  "assert_no_drift env e = rbind (drift_report env e) (\<lambda>drift. if drift = [] then Inr () else
     Inl (SchemaDriftError (join ''; '' (map (\<lambda>(s, p). s @ '': '' @ nat_str (length p) @ '' pending'') (sort_key fst drift)))))"

section \<open>What a chain does\<close>

abbreviation version_row :: "migration \<Rightarrow> string \<times> string" where
  "version_row m \<equiv> (mg_filename m, mg_checksum m)"

definition unseen :: "(string \<rightharpoonup> string) \<Rightarrow> migration list \<Rightarrow> migration list" where
  "unseen seen ms = filter (\<lambda>m. seen (mg_filename m) = None) ms"

definition unedited :: "(string \<rightharpoonup> string) \<Rightarrow> migration list \<Rightarrow> bool" where
  "unedited seen ms \<longleftrightarrow> list_all (\<lambda>m. seen (mg_filename m) \<in> {None, Some (mg_checksum m)}) ms"

lemma unseen_simps [simp]:
  "unseen seen [] = []"
  "unseen seen (m # ms) = (if seen (mg_filename m) = None then m # unseen seen ms else unseen seen ms)"
  "unseen seen (ms @ ms') = unseen seen ms @ unseen seen ms'"
  by (simp_all add: unseen_def)

lemma unedited_simps [simp]:
  "unedited seen []"
  "unedited seen (m # ms) \<longleftrightarrow> seen (mg_filename m) \<in> {None, Some (mg_checksum m)} \<and> unedited seen ms"
  "unedited seen (ms @ ms') \<longleftrightarrow> unedited seen ms \<and> unedited seen ms'"
  by (simp_all add: unedited_def)

lemma verify_checksum_Inr: "verify_checksum m c scope = Inr u \<longleftrightarrow> c = mg_checksum m"
  by (simp add: verify_checksum_def)

text \<open>A chain succeeds exactly when no recorded file was edited, the new ones have names of their own, and their bodies run.\<close>

lemma run_chain_Inr:
  "run_chain run scope seen ms applied (vt, d) = (Inr applied', vt', d') \<longleftrightarrow>
     unedited seen ms \<and> distinct (map mg_filename (unseen seen ms)) \<and> mg_filename ` set (unseen seen ms) \<inter> fst ` set vt = {}
   \<and> applied' = applied @ map mg_filename (unseen seen ms) \<and> vt' = vt @ map version_row (unseen seen ms)
   \<and> rfold (\<lambda>d m. run m d) d (unseen seen ms) = Inr d'"
proof (induction ms arbitrary: applied vt d)
  case (Cons m ms)
  show ?case
  proof (cases "seen (mg_filename m)")
    case (Some c)
    then show ?thesis using Cons.IH by (auto simp: verify_checksum_def)
  next
    case None
    show ?thesis
    proof (cases "apply_migration (run m) m (vt, d)")
      case (Inl x)
      then show ?thesis using None by (auto simp: apply_migration_def rbind_eq_Inl_iff rbind_eq_Inr_iff split: if_splits)
    next
      case (Inr st)
      then obtain d1 where "run m d = Inr d1" "mg_filename m \<notin> fst ` set vt" "st = (vt @ [version_row m], d1)"
        by (auto simp: apply_migration_def rbind_eq_Inr_iff split: if_splits)
      then show ?thesis using None Inr Cons.IH[of "applied @ [mg_filename m]" "vt @ [version_row m]" d1] by auto
    qed
  qed
qed auto

text \<open>A chain that fails has run a part of itself, whole transactions only.\<close>

lemma run_chain_Inl:
  "run_chain run scope seen ms applied (vt, d) = (Inl x, st) \<Longrightarrow>
     \<exists>pre m post. ms = pre @ m # post \<and> run_chain run scope seen pre applied (vt, d) = (Inr (applied @ map mg_filename (unseen seen pre)), st)
       \<and> (case seen (mg_filename m) of Some c \<Rightarrow> verify_checksum m c scope = Inl x | None \<Rightarrow> apply_migration (run m) m st = Inl x)"
proof (induction ms arbitrary: applied vt d)
  case (Cons m ms)
  show ?case
  proof -
    obtain r st1 where Pair: "run_chain run scope seen [m] applied (vt, d) = (r, st1)" by (cases "run_chain run scope seen [m] applied (vt, d)")
    show ?thesis
    proof (cases r)
      case (Inl y)
      with Pair Cons.prems have "x = y \<and> st = (vt, d)" "st1 = (vt, d)"
        by (auto split: option.splits sum.splits)
      moreover have "case seen (mg_filename m) of Some c \<Rightarrow> verify_checksum m c scope = Inl y | None \<Rightarrow> apply_migration (run m) m (vt, d) = Inl y"
        using Pair Inl by (auto split: option.splits sum.splits)
      ultimately show ?thesis by - (rule exI[of _ "[]"], rule exI[of _ m], rule exI[of _ ms], auto)
    next
      case (Inr applied1)
      obtain vt1 d1 where st1: "st1 = (vt1, d1)" by (cases st1)
      from Pair Inr have one: "run_chain run scope seen (m # qs) applied (vt, d) = run_chain run scope seen qs applied1 st1" for qs
        by (auto split: option.splits sum.splits)
      have "run_chain run scope seen [m] applied (vt, d) = (Inr applied1, vt1, d1)" using Pair Inr st1 by simp
      then have a1: "applied1 = applied @ map mg_filename (unseen seen [m])" unfolding run_chain_Inr by blast
      from Cons.IH[of applied1 vt1 d1] Cons.prems one st1 obtain pre n post where
        "ms = pre @ n # post" "run_chain run scope seen pre applied1 st1 = (Inr (applied1 @ map mg_filename (unseen seen pre)), st)"
        "case seen (mg_filename n) of Some c \<Rightarrow> verify_checksum n c scope = Inl x | None \<Rightarrow> apply_migration (run n) n st = Inl x"
        by metis
      then show ?thesis using one a1 by - (rule exI[of _ "m # pre"], rule exI[of _ n], rule exI[of _ post], simp)
    qed
  qed
qed simp

text \<open>Running a chain again over what an earlier attempt recorded: what ran is skipped, the rest runs.\<close>

lemma map_of_versions:
  "map_of (vt @ map version_row new) f = (case map_of vt f of Some c \<Rightarrow> Some c | None \<Rightarrow> map_of (map version_row new) f)"
  by (auto simp: map_add_def split: option.splits)

lemma chain_resumed:
  assumes names: "distinct (map mg_filename ms)" and ms: "ms = pre @ rest"
    and first: "run_chain run1 scope (map_of vt) pre [] (vt, d) = (Inr a1, vt1, d1)"
    and weaker: "\<forall>m d d'. run1 m d = Inr d' \<longrightarrow> run m d = Inr d'"
    and again: "run_chain run scope (map_of vt1) ms [] (vt1, d1) = (Inr a2, vt2, d2)"
  shows "run_chain run scope (map_of vt) ms [] (vt, d) = (Inr (a1 @ a2), vt2, d2)"
proof -
  let ?new = "unseen (map_of vt) pre"
  have f: "unedited (map_of vt) pre" "a1 = map mg_filename ?new" "vt1 = vt @ map version_row ?new"
      "rfold (\<lambda>d m. run1 m d) d ?new = Inr d1"
    using first unfolding run_chain_Inr by simp_all
  have g: "unedited (map_of vt1) ms" "a2 = map mg_filename (unseen (map_of vt1) ms)"
      "vt2 = vt1 @ map version_row (unseen (map_of vt1) ms)" "rfold (\<lambda>d m. run m d) d1 (unseen (map_of vt1) ms) = Inr d2"
    using again unfolding run_chain_Inr by simp_all
  have sub: "set ?new \<subseteq> set pre" by (auto simp: unseen_def)
  have look: "map_of vt1 x = (case map_of vt x of Some c \<Rightarrow> Some c | None \<Rightarrow> map_of (map version_row ?new) x)" for x
    using map_of_versions[of vt ?new x] unfolding f(3) .
  have pre: "map_of vt1 (mg_filename m) \<noteq> None" if "m \<in> set pre" for m
    using that look[of "mg_filename m"] by (cases "map_of vt (mg_filename m)") (auto simp: map_of_eq_None_iff unseen_def image_iff split: option.splits)
  have rest: "map_of vt1 (mg_filename m) = map_of vt (mg_filename m)" if "m \<in> set rest" for m
  proof -
    have "mg_filename m \<notin> mg_filename ` set ?new" using that names ms sub by auto
    then have "map_of (map version_row ?new) (mg_filename m) = None" by (auto simp: map_of_eq_None_iff)
    then show ?thesis using look[of "mg_filename m"] by (simp split: option.splits)
  qed
  have u: "unseen (map_of vt1) ms = unseen (map_of vt) rest"
  proof -
    have "unseen (map_of vt1) pre = []" using pre by (simp add: unseen_def filter_empty_conv)
    moreover have "unseen (map_of vt1) rest = unseen (map_of vt) rest" unfolding unseen_def using rest by (intro filter_cong) simp_all
    ultimately show ?thesis by (simp add: ms)
  qed
  have e: "unedited (map_of vt) ms"
  proof -
    have "map_of vt (mg_filename m) \<in> {None, Some (mg_checksum m)}" if "m \<in> set rest" for m
      using g(1)[unfolded ms unedited_def list_all_iff, rule_format, of m] that rest[OF that] by simp
    then have "unedited (map_of vt) rest" by (simp add: unedited_def list_all_iff)
    with f(1) show ?thesis by (simp add: ms)
  qed
  have fold1: "rfold (\<lambda>d m. run m d) d ?new = Inr d1"
  proof -
    have "rfold (\<lambda>d m. run m d) d ns = Inr d1" if "rfold (\<lambda>d m. run1 m d) d ns = Inr d1" for ns
      using that by (induction ns arbitrary: d) (use weaker in \<open>auto simp: rbind_eq_Inr_iff\<close>)
    with f(4) show ?thesis by blast
  qed
  have dis: "distinct (map mg_filename (unseen (map_of vt) ms))" using names by (simp add: unseen_def distinct_map_filter)
  have free: "mg_filename ` set (unseen (map_of vt) ms) \<inter> fst ` set vt = {}"
    by (auto simp: unseen_def map_of_eq_None_iff)
  have split: "unseen (map_of vt) ms = ?new @ unseen (map_of vt) rest" by (simp add: ms)
  show ?thesis unfolding run_chain_Inr
    using e dis free f(2) g(2,4)[unfolded u] fold1 unfolding split g(3)[unfolded u] f(3) by (simp add: rfold_append)
qed

lemma put_tenant_same: "es_versions e schema = Some vt \<Longrightarrow> put_tenant schema vt (es_data e) e = e"
  by (cases e) (simp add: put_tenant_def fun_upd_idem)

lemma put_tenant_simps [simp]:
  "put_tenant schema vt d (put_tenant schema vt' d' e) = put_tenant schema vt d e"
  "es_data (put_tenant schema vt d e) = d" "es_registry (put_tenant schema vt d e) = es_registry e"
  "es_versions (put_tenant schema vt d e) schema' = (if schema' = schema then Some vt else es_versions e schema')"
  "put_tenant schema vt d e\<lparr>es_data := d'\<rparr> = put_tenant schema vt d' e" "es_readers (put_tenant schema vt d e) = es_readers e"
  by (simp_all add: put_tenant_def)

lemma grant_identity_simps [simp]:
  "es_data (grant_identity slug e) = es_data e" "es_registry (grant_identity slug e) = es_registry e"
  "es_versions (grant_identity slug e) = es_versions e"
  by (simp_all add: grant_identity_def)

lemma layer_suffix_clash:
  "pg_name s x = pg_name s' y \<Longrightarrow> x \<in> set layer_suffixes \<Longrightarrow> y \<in> set layer_suffixes \<Longrightarrow> s = s' \<and> x = y"
proof -
  assume eq: "pg_name s x = pg_name s' y" and mem: "x \<in> set layer_suffixes" "y \<in> set layer_suffixes"
  have "set layer_suffixes \<subseteq> set name_suffixes" by (simp add: layer_suffixes_def name_suffixes_def)
  with mem have "x \<in> set name_suffixes" "y \<in> set name_suffixes" by blast+
  from append_suffix_clash[OF _ this, of "''t_'' @ s" "''t_'' @ s'"] eq show ?thesis by (simp add: pg_name_def)
qed

text \<open>The grants of one tenant reach the schemas of that tenant, and there they depend on what is granted there.\<close>

lemma fold_regrant:
  assumes "distinct (map fst gs)" "fst ` set gs \<subseteq> set layer_suffixes" "x \<in> set layer_suffixes"
  shows "fold (regrant slug) gs rd (pg_name s x) = (if s = slug then case map_of gs x of None \<Rightarrow> rd (pg_name s x)
      | Some roles \<Rightarrow> filter (\<lambda>r. r \<notin> pg_name slug ` set (revoked_roles x @ roles)) (rd (pg_name s x)) @ map (pg_name slug) roles
    else rd (pg_name s x))"
  using assms(1,2)
proof (induction gs arbitrary: rd)
  case (Cons g gs)
  obtain layer roles where g: "g = (layer, roles)" by (cases g)
  have layer: "layer \<in> set layer_suffixes" using Cons.prems(2) by (simp add: g)
  have one: "regrant slug g rd (pg_name s x) = (if s = slug \<and> x = layer
      then filter (\<lambda>r. r \<notin> pg_name slug ` set (revoked_roles x @ roles)) (rd (pg_name s x)) @ map (pg_name slug) roles else rd (pg_name s x))"
    using layer_suffix_clash[OF _ assms(3) layer, of s slug] by (auto simp: regrant_def g Let_def)
  have IH: "fold (regrant slug) gs (regrant slug g rd) (pg_name s x) = (if s = slug then case map_of gs x of None \<Rightarrow> regrant slug g rd (pg_name s x)
      | Some roles \<Rightarrow> filter (\<lambda>r. r \<notin> pg_name slug ` set (revoked_roles x @ roles)) (regrant slug g rd (pg_name s x)) @ map (pg_name slug) roles
    else regrant slug g rd (pg_name s x))" using Cons.prems by (intro Cons.IH) simp_all
  show ?case
  proof (cases "s = slug \<and> x = layer")
    case True
    then have "map_of gs x = None" using Cons.prems(1) by (simp add: g map_of_eq_None_iff)
    then show ?thesis using True IH one by (simp add: g)
  next
    case False
    have "regrant slug g rd (pg_name s x) = rd (pg_name s x)" unfolding one by (simp only: False if_False)
    note step = IH[unfolded this]
    have "map_of ((layer, roles) # gs) x = map_of gs x \<or> s \<noteq> slug" using False by auto
    then show ?thesis using step by (auto simp: g simp del: map_of.simps)
  qed
qed simp

lemma readers_granted:
  assumes "x \<in> set layer_suffixes"
  shows "es_readers (grant_identity slug e) (pg_name s x) = (if s = slug then
      filter (\<lambda>r. r \<notin> pg_name slug ` set (revoked_roles x @ the (map_of identity_readers x))) (es_readers e (pg_name s x))
        @ map (pg_name slug) (the (map_of identity_readers x))
    else es_readers e (pg_name s x))"
proof -
  have "distinct (map fst identity_readers)" "fst ` set identity_readers \<subseteq> set layer_suffixes"
    by (simp_all add: identity_readers_def layer_suffixes_def)
  moreover from assms obtain roles where "map_of identity_readers x = Some roles"
    by (auto simp: identity_readers_def layer_suffixes_def)
  ultimately show ?thesis using fold_regrant[OF _ _ assms, of identity_readers slug "es_readers e" s]
    by (simp add: grant_identity_def)
qed

section \<open>One tenant, interrupted and resumed\<close>

lemma open_tenant_Inr:
  "open_tenant env slug e = Inr (ms, schema, vt) \<longleftrightarrow>
     tenant_chain env slug = Inr ms \<and> silver_schema slug = Inr schema \<and> es_versions e schema = Some vt"
  by (auto simp: open_tenant_def applied_map_def rbind_eq_Inr_iff split: option.splits)

lemma apply_tenant_Inr:
  "apply_tenant env slug e = (Inr applied, e') \<longleftrightarrow> (\<exists>ms schema vt vt' d d'. open_tenant env slug e = Inr (ms, schema, vt)
     \<and> run_chain (run_rendered env slug) slug (map_of vt) ms [] (vt, es_data e) = (Inr applied, vt', d)
     \<and> me_grants env slug d = Inr d' \<and> e' = grant_identity slug (put_tenant schema vt' d' e))"
  by (fastforce simp: apply_tenant_def Let_def split: sum.splits prod.splits)

text \<open>What an attempt that failed left: a part of the chain, each of its files with its row.\<close>

lemma apply_tenant_Inl:
  assumes "apply_tenant env slug e = (Inl x, e1)" "open_tenant env slug e = Inr (ms, schema, vt)"
  shows "\<exists>pre rest a1 vt1 d1. ms = pre @ rest \<and> run_chain (run_rendered env slug) slug (map_of vt) pre [] (vt, es_data e) = (Inr a1, vt1, d1)
     \<and> e1 = put_tenant schema vt1 d1 e"
proof -
  obtain r vt1 d1 where run: "run_chain (run_rendered env slug) slug (map_of vt) ms [] (vt, es_data e) = (r, vt1, d1)"
    by (cases "run_chain (run_rendered env slug) slug (map_of vt) ms [] (vt, es_data e)")
  have e1: "e1 = put_tenant schema vt1 d1 e"
    using assms run by (auto simp: apply_tenant_def Let_def split: sum.splits)
  show ?thesis
  proof (cases r)
    case (Inl y)
    from run_chain_Inl[OF run[unfolded Inl]] obtain pre m post where
      "ms = pre @ m # post" "run_chain (run_rendered env slug) slug (map_of vt) pre [] (vt, es_data e) = (Inr ([] @ map mg_filename (unseen (map_of vt) pre)), vt1, d1)"
      by blast
    with e1 show ?thesis by blast
  next
    case (Inr a1)
    with run e1 show ?thesis by (intro exI[of _ ms] exI[of _ "[]"] exI conjI) simp_all
  qed
qed

lemma resumed_once:
  assumes failed: "apply_tenant env1 slug e = (Inl x, e1)" and again: "apply_tenant env slug e1 = (Inr a2, e2)"
    and same: "me_sha env1 = me_sha env" "me_files env1 = me_files env"
    and weaker: "\<forall>s d d'. me_exec env1 s d = Inr d' \<longrightarrow> me_exec env s d = Inr d'"
    and names: "\<forall>ms. tenant_chain env slug = Inr ms \<longrightarrow> distinct (map mg_filename ms)"
  shows "\<exists>a1. apply_tenant env slug e = (Inr (a1 @ a2), e2)"
proof (cases "open_tenant env1 slug e")
  case (Inl y)
  with failed have "e1 = e" by (simp add: apply_tenant_def)
  with again show ?thesis by (intro exI[of _ "[]"]) simp
next
  case (Inr z)
  obtain ms schema vt where z: "z = (ms, schema, vt)" by (cases z)
  note opened = Inr[unfolded z]
  have chain: "tenant_chain env1 slug = tenant_chain env slug" by (simp add: tenant_chain_def same)
  from apply_tenant_Inl[OF failed opened] obtain pre rest a1 vt1 d1 where
    ms: "ms = pre @ rest" and first: "run_chain (run_rendered env1 slug) slug (map_of vt) pre [] (vt, es_data e) = (Inr a1, vt1, d1)"
    and e1: "e1 = put_tenant schema vt1 d1 e" by blast
  from opened have o: "tenant_chain env slug = Inr ms" "silver_schema slug = Inr schema" "es_versions e schema = Some vt"
    by (simp_all add: open_tenant_Inr chain)
  then have "open_tenant env slug e1 = Inr (ms, schema, vt1)" by (simp add: open_tenant_Inr e1)
  with again e1 obtain vt2 d2 d3 where
    second: "run_chain (run_rendered env slug) slug (map_of vt1) ms [] (vt1, d1) = (Inr a2, vt2, d2)"
    and rest: "me_grants env slug d2 = Inr d3" "e2 = grant_identity slug (put_tenant schema vt2 d3 e1)"
    by (auto simp: apply_tenant_Inr)
  have "\<forall>m d d'. run_rendered env1 slug m d = Inr d' \<longrightarrow> run_rendered env slug m d = Inr d'"
    using weaker by (auto simp: run_rendered_def rbind_eq_Inr_iff)
  from chain_resumed[OF names[rule_format, OF o(1)] ms first this second]
  have "run_chain (run_rendered env slug) slug (map_of vt) ms [] (vt, es_data e) = (Inr (a1 @ a2), vt2, d2)" .
  moreover have "open_tenant env slug e = Inr (ms, schema, vt)" using o by (simp add: open_tenant_Inr)
  ultimately show ?thesis using rest by (intro exI[of _ a1]) (auto simp: apply_tenant_Inr e1)
qed

text \<open>Attempts that all failed, each in a world of its own (a lock, a lost connection).\<close>

fun after_attempts :: "'d migrate_env list \<Rightarrow> string \<Rightarrow> 'd estate \<Rightarrow> 'd estate option" where
  "after_attempts [] slug e = Some e"
| "after_attempts (env # envs) slug e = (case apply_tenant env slug e of (Inl x, e1) \<Rightarrow> after_attempts envs slug e1 | (Inr a, e1) \<Rightarrow> None)"

text \<open>
  C5. A tenant whose migration failed any number of times, wherever it was cut off, ends up as if the first
  attempt had gone through once an attempt succeeds: the same version table, the same data, and the migrations
  of that attempt are the rest of the chain. Nothing runs twice and nothing is left out.
\<close>

theorem resumed_migration_is_clean:
  assumes "after_attempts envs slug e = Some e1" "apply_tenant env slug e1 = (Inr a2, e2)"
    and "\<forall>env1\<in>set envs. me_sha env1 = me_sha env \<and> me_files env1 = me_files env
       \<and> (\<forall>s d d'. me_exec env1 s d = Inr d' \<longrightarrow> me_exec env s d = Inr d')"
    and "\<forall>ms. tenant_chain env slug = Inr ms \<longrightarrow> distinct (map mg_filename ms)"
  shows "\<exists>a1. apply_tenant env slug e = (Inr (a1 @ a2), e2)"
  using assms(1,3)
proof (induction envs arbitrary: e)
  case Nil
  with assms(2) show ?case by (intro exI[of _ "[]"]) simp
next
  case (Cons env1 envs)
  obtain r e' where run: "apply_tenant env1 slug e = (r, e')" by (cases "apply_tenant env1 slug e")
  with Cons.prems(1) obtain x where r: "r = Inl x" and rest: "after_attempts envs slug e' = Some e1" by (cases r) simp_all
  from Cons.IH[OF rest] Cons.prems(2) obtain a1 where later: "apply_tenant env slug e' = (Inr (a1 @ a2), e2)"
    by (meson list.set_intros(2))
  have "me_sha env1 = me_sha env" "me_files env1 = me_files env"
    "\<forall>s d d'. me_exec env1 s d = Inr d' \<longrightarrow> me_exec env s d = Inr d'" using Cons.prems(2) by (meson list.set_intros(1))+
  from resumed_once[OF run[unfolded r] later this assms(4)] obtain a0 where "apply_tenant env slug e = (Inr (a0 @ a1 @ a2), e2)" by blast
  then show ?case by (intro exI[of _ "a0 @ a1"]) simp
qed

section \<open>A job is a run of its tenant\<close>

text \<open>The steps of a job alone, to its end, are \<open>apply_tenant\<close>.\<close>

definition steps :: "'d migrate_env \<Rightarrow> string \<Rightarrow> nat \<Rightarrow> job \<times> 'd estate \<Rightarrow> job \<times> 'd estate" where
  "steps env slug n x = (job_step env slug ^^ n) x"

lemma steps_simps [simp]:
  "steps env slug 0 x = x"
  "steps env slug (Suc n) x = steps env slug n (job_step env slug x)"
  by (simp_all add: steps_def funpow_swap1)

lemma steps_Suc_after: "steps env slug (Suc n) x = job_step env slug (steps env slug n x)"
  by (simp add: steps_def)

lemma steps_add: "steps env slug (m + n) x = steps env slug n (steps env slug m x)"
  by (induction m arbitrary: x) simp_all

lemma steps_finished [simp]: "steps env slug n (Finished r, e) = (Finished r, e)"
  by (induction n) simp_all

lemma finished_steps_agree:
  assumes "steps env slug m x = (Finished r, e)" "steps env slug n x = (Finished r', e')"
  shows "r = r' \<and> e = e'"
proof -
  have "steps env slug (m + n) x = (Finished r, e)" "steps env slug (n + m) x = (Finished r', e')"
    using assms by (simp_all add: steps_add)
  then show ?thesis by (simp add: add.commute)
qed

lemma steps_chain:
  assumes "silver_schema slug = Inr schema" "es_versions e schema = Some vt"
    "run_chain (run_rendered env slug) slug seen ms applied (vt, es_data e) = (r, vt', d)"
  shows "\<exists>n. let e' = put_tenant schema vt' d e in
    steps env slug n (Running ms seen applied, e) =
      (case r of Inl x \<Rightarrow> Finished (Inl x) | Inr applied' \<Rightarrow> Running [] seen applied', e')"
  using assms(2-)
proof (induction ms arbitrary: e applied vt)
  case Nil
  then have "r = Inr applied" "vt' = vt" "d = es_data e" by simp_all
  then show ?case by (intro exI[of _ 0]) (simp only: Let_def steps_simps sum.case put_tenant_same[OF Nil.prems(1)])
next
  case (Cons m ms)
  show ?case
  proof (cases "seen (mg_filename m)")
    case (Some c)
    show ?thesis
    proof (cases "verify_checksum m c slug")
      case (Inl x)
      with Some Cons.prems(2) have same: "r = Inl x" "vt' = vt" "d = es_data e" by simp_all
      have "steps env slug 1 (Running (m # ms) seen applied, e) = (Finished (Inl x), e)" using Some Inl by simp
      then show ?thesis by (intro exI[of _ 1]) (simp only: Let_def same sum.case put_tenant_same[OF Cons.prems(1)])
    next
      case (Inr u)
      with Some Cons.prems Cons.IH[of e vt applied] obtain n where
        "let e' = put_tenant schema vt' d e in
         steps env slug n (Running ms seen applied, e) = (case r of Inl x \<Rightarrow> Finished (Inl x) | Inr applied' \<Rightarrow> Running [] seen applied', e')" by auto
      with Some Inr show ?thesis by (intro exI[of _ "Suc n"]) simp
    qed
  next
    case None
    show ?thesis
    proof (cases "apply_migration (run_rendered env slug m) m (vt, es_data e)")
      case (Inl x)
      with None Cons.prems(2) have same: "r = Inl x" "vt' = vt" "d = es_data e" by simp_all
      have "steps env slug 1 (Running (m # ms) seen applied, e) = (Finished (Inl x), e)"
        using None Inl Cons.prems(1) assms(1) by (simp add: applied_map_def)
      then show ?thesis by (intro exI[of _ 1]) (simp only: Let_def same sum.case put_tenant_same[OF Cons.prems(1)])
    next
      case (Inr st)
      obtain vt1 d1 where st: "st = (vt1, d1)" by (cases st)
      let ?e = "put_tenant schema vt1 d1 e"
      from None Inr st Cons.prems Cons.IH[of ?e vt1 "applied @ [mg_filename m]"] obtain n where
        "let e' = put_tenant schema vt' d ?e in
         steps env slug n (Running ms seen (applied @ [mg_filename m]), ?e) = (case r of Inl x \<Rightarrow> Finished (Inl x) | Inr applied' \<Rightarrow> Running [] seen applied', e')" by auto
      moreover have "job_step env slug (Running (m # ms) seen applied, e) = (Running ms seen (applied @ [mg_filename m]), ?e)"
        using None Inr st Cons.prems(1) assms(1) by (simp add: applied_map_def)
      ultimately show ?thesis by (intro exI[of _ "Suc n"]) simp
    qed
  qed
qed

lemma steps_apply_tenant:
  "\<exists>n. steps env slug n (Waiting, e) = (Finished (fst (apply_tenant env slug e)), snd (apply_tenant env slug e))"
proof (cases "open_tenant env slug e")
  case (Inl x)
  then show ?thesis by (intro exI[of _ 1]) (simp add: apply_tenant_def)
next
  case (Inr z)
  obtain ms schema vt where z: "z = (ms, schema, vt)" by (cases z)
  obtain r vt' d where run: "run_chain (run_rendered env slug) slug (map_of vt) ms [] (vt, es_data e) = (r, vt', d)"
    by (cases "run_chain (run_rendered env slug) slug (map_of vt) ms [] (vt, es_data e)")
  from Inr z have o: "silver_schema slug = Inr schema" "es_versions e schema = Some vt" by (simp_all add: open_tenant_Inr)
  from steps_chain[OF o run] obtain n where n: "let e' = put_tenant schema vt' d e in
    steps env slug n (Running ms (map_of vt) [], e) = (case r of Inl x \<Rightarrow> Finished (Inl x) | Inr applied' \<Rightarrow> Running [] (map_of vt) applied', e')" by blast
  have "steps env slug (Suc n + 1) (Waiting, e) = (Finished (fst (apply_tenant env slug e)), snd (apply_tenant env slug e))"
    unfolding steps_add using n Inr z run by (auto simp: apply_tenant_def Let_def split: sum.splits)
  then show ?thesis by blast
qed

section \<open>The fan-out\<close>

text \<open>
  What a tenant's jobs can see of the database: its version table, the readers of its schemas and its \<open>part\<close> of the rest. Statements are
  confined when the files of a tenant's chain, rendered for it, and its grants behave the same on databases that
  agree on its part, and leave the parts of the others alone.
\<close>

definition view :: "(string \<Rightarrow> 'd \<Rightarrow> 'p) \<Rightarrow> string \<Rightarrow> 'd estate \<Rightarrow> version_rows option \<times> string list list \<times> 'p" where
  "view part s e = (es_versions e (''t_'' @ s @ ''_silver''), map (\<lambda>x. es_readers e (pg_name s x)) layer_suffixes, part s (es_data e))"

lemma view_put_tenant [simp]: "map (\<lambda>x. es_readers (put_tenant schema vt d e) (pg_name s x)) xs = map (\<lambda>x. es_readers e (pg_name s x)) xs"
  by simp

lemma view_grant:
  "map (\<lambda>x. es_readers e (pg_name s x)) layer_suffixes = map (\<lambda>x. es_readers e' (pg_name s x)) layer_suffixes \<Longrightarrow>
     map (\<lambda>x. es_readers (grant_identity slug e) (pg_name s x)) layer_suffixes = map (\<lambda>x. es_readers (grant_identity slug e') (pg_name s x)) layer_suffixes"
  "s \<noteq> slug \<Longrightarrow> map (\<lambda>x. es_readers (grant_identity slug e) (pg_name s x)) layer_suffixes = map (\<lambda>x. es_readers e (pg_name s x)) layer_suffixes"
  by (cases "s = slug"; simp add: readers_granted)+

definition agree :: "('d \<Rightarrow> 'p) \<Rightarrow> exc + 'd \<Rightarrow> exc + 'd \<Rightarrow> bool" where
  "agree p r r' = (case (r, r') of (Inl x, Inl y) \<Rightarrow> x = y | (Inr d, Inr d') \<Rightarrow> p d = p d' | _ \<Rightarrow> False)"

definition confined_call :: "(string \<Rightarrow> 'd \<Rightarrow> 'p) \<Rightarrow> string \<Rightarrow> ('d \<Rightarrow> exc + 'd) \<Rightarrow> bool" where
  "confined_call part s call \<longleftrightarrow> (\<forall>d d'. part s d = part s d' \<longrightarrow> agree (part s) (call d) (call d'))
     \<and> (\<forall>s' d d'. s' \<noteq> s \<and> call d = Inr d' \<longrightarrow> part s' d' = part s' d)"

definition confined :: "'d migrate_env \<Rightarrow> (string \<Rightarrow> 'd \<Rightarrow> 'p) \<Rightarrow> bool" where
  "confined env part \<longleftrightarrow> (\<forall>s. confined_call part s (me_grants env s) \<and> (\<forall>ms m q. tenant_chain env s = Inr ms \<and> m \<in> set ms \<and> render (mg_body m) s = Inr q \<longrightarrow> confined_call part s (me_exec env q)))"

text \<open>What is left of a job is left of its tenant's chain.\<close>

definition chain_job :: "'d migrate_env \<Rightarrow> string \<Rightarrow> job \<Rightarrow> bool" where
  "chain_job env s j \<longleftrightarrow> (\<forall>ms seen applied. j = Running ms seen applied \<longrightarrow> (\<exists>chain. tenant_chain env s = Inr chain \<and> set ms \<subseteq> set chain))"

lemma chain_job_step: "chain_job env s j \<Longrightarrow> chain_job env s (fst (job_step env s (j, e)))"
  by (cases "(env, s, j, e)" rule: job_step.cases)
     (auto simp: chain_job_def open_tenant_Inr split: sum.splits option.splits prod.splits)

lemma silver_schema_Inr: "silver_schema s = Inr x \<Longrightarrow> x = ''t_'' @ s @ ''_silver''"
  by (auto simp: silver_schema_def rbind_eq_Inr_iff validate_slug_Inr)

lemma confined_rendered:
  assumes "confined env part" "chain_job env s (Running (m # ms) seen applied)" shows "confined_call part s (run_rendered env s m)"
proof (cases "render (mg_body m) s")
  case (Inl x)
  then have "run_rendered env s m = (\<lambda>d. Inl x)" by (simp add: run_rendered_def fun_eq_iff)
  then show ?thesis by (simp add: confined_call_def agree_def)
next
  case (Inr q)
  then have "run_rendered env s m = me_exec env q" by (simp add: run_rendered_def fun_eq_iff)
  moreover from assms(2) obtain chain where "tenant_chain env s = Inr chain" "m \<in> set chain" by (auto simp: chain_job_def)
  ultimately show ?thesis using Inr assms(1) unfolding confined_def by metis
qed

lemma apply_migration_view:
  assumes "confined_call part s run" "part s d = part s d'"
  shows "(case (apply_migration run m (vt, d), apply_migration run m (vt, d')) of
      (Inl x, Inl y) \<Rightarrow> x = y | (Inr (vt1, d1), Inr (vt2, d2)) \<Rightarrow> vt1 = vt2 \<and> part s d1 = part s d2 | _ \<Rightarrow> False)"
proof -
  have "agree (part s) (run d) (run d')" using assms by (simp add: confined_call_def)
  then show ?thesis by (cases "run d"; cases "run d'") (auto simp: apply_migration_def agree_def)
qed

lemma open_tenant_view:
  assumes "view part s e = view part s e'" shows "open_tenant env s e = open_tenant env s e'"
proof (cases "silver_schema s")
  case (Inl x) then show ?thesis by (cases "tenant_chain env s") (simp_all add: open_tenant_def)
next
  case (Inr schema)
  with assms show ?thesis by (cases "tenant_chain env s") (simp_all add: open_tenant_def applied_map_def view_def silver_schema_Inr[OF Inr])
qed

lemma job_step_view:
  assumes "confined env part" "view part s e = view part s e'" "chain_job env s j"
  shows "fst (job_step env s (j, e)) = fst (job_step env s (j, e')) \<and> view part s (snd (job_step env s (j, e))) = view part s (snd (job_step env s (j, e')))"
proof (cases "(env, s, j, e)" rule: job_step.cases)
  case (1 env' s' e1)
  then show ?thesis using assms(2) open_tenant_view[OF assms(2)] by (auto split: sum.splits prod.splits)
next
  case (2 env' s' seen applied e1)
  have "agree (part s) (me_grants env s (es_data e)) (me_grants env s (es_data e'))"
    using assms by (simp add: confined_def confined_call_def view_def)
  moreover have "map (\<lambda>x. es_readers (grant_identity s (e\<lparr>es_data := d\<rparr>)) (pg_name s x)) layer_suffixes
      = map (\<lambda>x. es_readers (grant_identity s (e'\<lparr>es_data := d'\<rparr>)) (pg_name s x)) layer_suffixes" for d d'
    by (rule view_grant(1)) (use assms(2) in \<open>simp add: view_def\<close>)
  ultimately show ?thesis using 2 assms(2)
    by (cases "me_grants env s (es_data e)"; cases "me_grants env s (es_data e')") (auto simp: agree_def view_def simp del: map_eq_conv)
next
  case (3 env' s' m ms seen applied e1)
  show ?thesis
  proof (cases "seen (mg_filename m)")
    case (Some c)
    with 3 assms(2) show ?thesis by (auto split: sum.splits)
  next
    case None
    show ?thesis
    proof (cases "silver_schema s")
      case (Inl x)
      with None 3 assms(2) show ?thesis by simp
    next
      case (Inr schema)
      note schema = silver_schema_Inr[OF Inr]
      from assms(2) have same: "es_versions e schema = es_versions e' schema" "part s (es_data e) = part s (es_data e')"
        by (simp_all add: view_def schema)
      show ?thesis
      proof (cases "es_versions e schema")
        case no_table: None
        with None Inr 3 assms(2) same show ?thesis by (simp add: applied_map_def)
      next
        case (Some vt)
        have "chain_job env s (Running (m # ms) seen applied)" using assms(3) 3 by simp
        note run = apply_migration_view[OF confined_rendered[OF assms(1) this] same(2), of m vt]
        show ?thesis using run None Inr 3 assms(2) same Some
          by (cases "apply_migration (run_rendered env s m) m (vt, es_data e)";
              cases "apply_migration (run_rendered env s m) m (vt, es_data e')")
             (auto simp: applied_map_def view_def schema split: prod.splits)
      qed
    qed
  qed
next
  case (4 env' s' r e1)
  with assms(2) show ?thesis by simp
qed

lemma job_step_other:
  assumes "confined env part" "s' \<noteq> s" "chain_job env s j"
  shows "view part s' (snd (job_step env s (j, e))) = view part s' e"
proof (cases "(env, s, j, e)" rule: job_step.cases)
  case (2 env' s1 seen applied e1)
  have "part s' d' = part s' d" if "me_grants env s d = Inr d'" for d d'
    using assms that by (simp add: confined_def confined_call_def)
  moreover have "map (\<lambda>x. es_readers (grant_identity s (e\<lparr>es_data := d\<rparr>)) (pg_name s' x)) layer_suffixes
      = map (\<lambda>x. es_readers e (pg_name s' x)) layer_suffixes" for d
    using view_grant(2)[OF assms(2), of "e\<lparr>es_data := d\<rparr>"] by simp
  ultimately show ?thesis using 2 by (auto simp: view_def simp del: map_eq_conv split: sum.splits)
next
  case (3 env' s1 m ms seen applied e1)
  have "chain_job env s (Running (m # ms) seen applied)" using assms(3) 3 by simp
  from confined_rendered[OF assms(1) this] have "part s' d' = part s' d" if "run_rendered env s m d = Inr d'" for d d'
    using assms(2) that by (simp add: confined_call_def)
  with 3 assms(2) show ?thesis
    by (auto simp: view_def apply_migration_def rbind_eq_Inr_iff dest!: silver_schema_Inr split: sum.splits option.splits prod.splits if_splits)
qed (auto split: sum.splits prod.splits)

lemma job_step_registry: "es_registry (snd (job_step env s (j, e))) = es_registry e"
  by (cases "(env, s, j, e)" rule: job_step.cases) (auto split: sum.splits option.splits prod.splits)

lemma fan_step_job:
  assumes "fan_step env workers f f'"
  shows "\<exists>i s j. i < length (fn_jobs f) \<and> fn_jobs f ! i = (s, j) \<and> (\<forall>r. j \<noteq> Finished r)
     \<and> fn_jobs f' = (fn_jobs f)[i := (s, fst (job_step env s (j, fn_estate f)))] \<and> fn_estate f' = snd (job_step env s (j, fn_estate f))"
  using assms by cases (force simp: prod_eq_iff)+

text \<open>Each job has done some steps of its own run from the start, as far as its tenant can tell.\<close>

definition fan_inv :: "'d migrate_env \<Rightarrow> (string \<Rightarrow> 'd \<Rightarrow> 'p) \<Rightarrow> 'd estate \<Rightarrow> 'd fan \<Rightarrow> bool" where
  "fan_inv env part e0 f \<longleftrightarrow> map fst (fn_jobs f) = tenant_slugs e0 \<and> es_registry (fn_estate f) = es_registry e0
     \<and> (\<forall>s j. (s, j) \<in> set (fn_jobs f) \<longrightarrow> chain_job env s j)
     \<and> (\<forall>s j. (s, j) \<in> set (fn_jobs f) \<longrightarrow> (\<exists>n e. steps env s n (Waiting, e0) = (j, e) \<and> view part s e = view part s (fn_estate f)))
     \<and> (\<forall>s. s \<notin> set (tenant_slugs e0) \<longrightarrow> view part s (fn_estate f) = view part s e0)"

lemma fan_inv_mem:
  assumes "fan_inv env part e f" shows "s \<in> set (tenant_slugs e) \<longleftrightarrow> (\<exists>j. (s, j) \<in> set (fn_jobs f))"
proof -
  have "set (tenant_slugs e) = fst ` set (fn_jobs f)" using assms unfolding fan_inv_def by (metis list.set_map)
  then show ?thesis by force
qed

lemma fan_inv_start: "fan_inv env part e0 (fan_start e0)"
proof -
  have "\<exists>n e. steps env s n (Waiting, e0) = (Waiting, e) \<and> view part s e = view part s e0" for s
    by (rule exI[of _ 0]) simp
  then show ?thesis by (auto simp: fan_inv_def fan_start_def comp_def chain_job_def)
qed

lemma fan_inv_step:
  assumes conf: "confined env part" and slugs: "distinct (tenant_slugs e0)"
    and inv: "fan_inv env part e0 f" and step: "fan_step env workers f f'"
  shows "fan_inv env part e0 f'"
proof -
  let ?js = "fn_jobs f"
  from fan_step_job[OF step] obtain i s j where i: "i < length ?js" "?js ! i = (s, j)"
    and js': "fn_jobs f' = ?js[i := (s, fst (job_step env s (j, fn_estate f)))]" and e': "fn_estate f' = snd (job_step env s (j, fn_estate f))"
    by blast
  have here: "(s, j) \<in> set ?js" using i by (metis nth_mem)
  have chain: "chain_job env s j" using inv here unfolding fan_inv_def by blast
  have "(map fst ?js)[i := s] = map fst ?js" using i list_update_id[of "map fst ?js" i] by simp
  then have names: "map fst (fn_jobs f') = tenant_slugs e0" using inv by (simp add: fan_inv_def js' map_update)
  have s: "s \<in> set (tenant_slugs e0)" using here fan_inv_mem[OF inv] by blast
  have "\<exists>n e. steps env s1 n (Waiting, e0) = (j1, e) \<and> view part s1 e = view part s1 (fn_estate f')" if "(s1, j1) \<in> set (fn_jobs f')" for s1 j1
  proof (cases "s1 = s")
    case True
    have "j1 = fst (job_step env s (j, fn_estate f))"
    proof -
      have "(s, fst (job_step env s (j, fn_estate f))) \<in> set (fn_jobs f')" using i by (simp add: js' set_update_memI)
      with that True slugs names show ?thesis by (metis eq_key_imp_eq_value)
    qed
    moreover obtain n e where n: "steps env s n (Waiting, e0) = (j, e)" "view part s e = view part s (fn_estate f)"
      using inv here unfolding fan_inv_def by blast
    moreover note job_step_view[OF conf n(2) chain]
    moreover have "steps env s (Suc n) (Waiting, e0) = job_step env s (j, e)" using n(1) by (simp add: steps_Suc_after del: steps_simps)
    ultimately show ?thesis using True e' by (metis prod.collapse)
  next
    case False
    with that have "(s1, j1) \<in> set ?js" using set_update_subset_insert[of ?js i] by (auto simp: js')
    then show ?thesis using inv job_step_other[OF conf False chain, of "fn_estate f"] unfolding fan_inv_def e' by metis
  qed
  moreover have "view part s1 (fn_estate f') = view part s1 e0" if "s1 \<notin> set (tenant_slugs e0)" for s1
    using that s inv job_step_other[OF conf _ chain, of s1 "fn_estate f"] unfolding fan_inv_def e' by metis
  moreover have "chain_job env s1 j1" if "(s1, j1) \<in> set (fn_jobs f')" for s1 j1
  proof -
    from that have "(s1, j1) = (s, fst (job_step env s (j, fn_estate f))) \<or> (s1, j1) \<in> set ?js"
      unfolding js' using set_update_subset_insert by fastforce
    then show ?thesis using inv chain_job_step[OF chain] unfolding fan_inv_def by blast
  qed
  ultimately show ?thesis using names inv by (simp add: fan_inv_def e' job_step_registry)
qed

lemma fan_inv_run:
  assumes "confined env part" "distinct (tenant_slugs e0)" "(fan_step env workers)\<^sup>*\<^sup>* (fan_start e0) f"
  shows "fan_inv env part e0 f"
  using assms(3) by (induction rule: rtranclp_induct) (auto intro: fan_inv_start fan_inv_step[OF assms(1,2)])

lemma fan_done_job: "fan_done f \<Longrightarrow> (s, j) \<in> set (fn_jobs f) \<Longrightarrow> \<exists>r. j = Finished r"
  by (cases j) (auto simp: fan_done_def list_all_iff)

lemma tenant_slugs_registry: "es_registry e = es_registry e' \<Longrightarrow> tenant_slugs e = tenant_slugs e'"
  by (simp add: tenant_slugs_def)

lemma distinct_tenant_slugs: "distinct (map tr_slug (es_registry e)) \<Longrightarrow> distinct (tenant_slugs e)"
  by (simp add: tenant_slugs_def distinct_map_filter)

lemma fan_result:
  assumes "confined env part" "distinct (map tr_slug (es_registry e))" "(fan_step env workers)\<^sup>*\<^sup>* (fan_start e) f"
    and "fan_done f" "s \<in> set (tenant_slugs e)"
  shows "(s, Finished (fst (apply_tenant env s e))) \<in> set (fn_jobs f) \<and> view part s (fn_estate f) = view part s (snd (apply_tenant env s e))"
proof -
  from fan_inv_run[OF assms(1) distinct_tenant_slugs[OF assms(2)] assms(3)] have inv: "fan_inv env part e f" .
  with assms(5) obtain j where j: "(s, j) \<in> set (fn_jobs f)" using fan_inv_mem by blast
  with fan_done_job[OF assms(4)] obtain r where r: "j = Finished r" by blast
  from inv j obtain n e1 where n: "steps env s n (Waiting, e) = (j, e1)" "view part s e1 = view part s (fn_estate f)"
    unfolding fan_inv_def by blast
  obtain n2 where "steps env s n2 (Waiting, e) = (Finished (fst (apply_tenant env s e)), snd (apply_tenant env s e))"
    using steps_apply_tenant by blast
  with n r have "r = fst (apply_tenant env s e) \<and> e1 = snd (apply_tenant env s e)" using finished_steps_agree by metis
  with n j r show ?thesis by simp
qed

definition result_of :: "string \<Rightarrow> exc + string list \<Rightarrow> tenant_result" where
  "result_of s r = (case r of Inr applied \<Rightarrow> \<lparr>rs_slug = s, rs_applied = applied, rs_error = None\<rparr>
     | Inl x \<Rightarrow> \<lparr>rs_slug = s, rs_applied = [], rs_error = Some x\<rparr>)"

text \<open>
  C4. The fan-out is as good as one tenant at a time. When the statements of a tenant stay within its schemas,
  then however the pool interleaves the transactions of the tenants, and whichever of them fail, the report
  lists the tenants in order with what a migration of that tenant alone would have returned, each ends up with
  the version table, grants and data of that migration, and the schemas of tenants not asked for are not touched.
\<close>

theorem fan_out_is_each_alone:
  assumes "confined env part" "distinct (map tr_slug (es_registry e))"
    and "(fan_step env workers)\<^sup>*\<^sup>* (fan_start e) f" "fan_done f"
  shows "run_report f = map (\<lambda>s. result_of s (fst (apply_tenant env s e))) (tenant_slugs e)
    \<and> (\<forall>s. view part s (fn_estate f) = (if s \<in> set (tenant_slugs e) then view part s (snd (apply_tenant env s e)) else view part s e))"
proof
  from fan_inv_run[OF assms(1) distinct_tenant_slugs[OF assms(2)] assms(3)] have inv: "fan_inv env part e f" .
  have res: "j = Finished (fst (apply_tenant env s e))" if j: "(s, j) \<in> set (fn_jobs f)" for s j
  proof -
    from inv have names: "map fst (fn_jobs f) = tenant_slugs e" by (simp add: fan_inv_def)
    from j have "s \<in> set (tenant_slugs e)" using fan_inv_mem[OF inv] by blast
    from fan_result[OF assms this] j names distinct_tenant_slugs[OF assms(2)] show ?thesis by (metis eq_key_imp_eq_value)
  qed
  have "run_report f = map (\<lambda>(s, j). result_of s (fst (apply_tenant env s e))) (fn_jobs f)"
    unfolding run_report_def
  proof (intro map_cong refl, clarify)
    fix s j assume "(s, j) \<in> set (fn_jobs f)"
    note j = res[OF this]
    show "(case j of Finished (Inl x) \<Rightarrow> \<lparr>rs_slug = s, rs_applied = [], rs_error = Some x\<rparr>
        | Finished (Inr applied) \<Rightarrow> \<lparr>rs_slug = s, rs_applied = applied, rs_error = None\<rparr>
        | _ \<Rightarrow> \<lparr>rs_slug = s, rs_applied = [], rs_error = None\<rparr>) = result_of s (fst (apply_tenant env s e))"
      unfolding j by (simp add: result_of_def)
  qed
  also have "\<dots> = map (\<lambda>s. result_of s (fst (apply_tenant env s e))) (map fst (fn_jobs f))" by (simp add: comp_def split_def)
  also have "map fst (fn_jobs f) = tenant_slugs e" using inv by (simp add: fan_inv_def)
  finally show "run_report f = map (\<lambda>s. result_of s (fst (apply_tenant env s e))) (tenant_slugs e)" .
  show "\<forall>s. view part s (fn_estate f) = (if s \<in> set (tenant_slugs e) then view part s (snd (apply_tenant env s e)) else view part s e)"
    using inv fan_result[OF assms] by (auto simp: fan_inv_def)
qed

section \<open>The fan-out ends\<close>

fun job_weight :: "'d migrate_env \<Rightarrow> string \<times> job \<Rightarrow> nat" where
  "job_weight env (s, Waiting) = (case tenant_chain env s of Inl x \<Rightarrow> 1 | Inr ms \<Rightarrow> length ms + 2)"
| "job_weight env (s, Running ms seen applied) = length ms + 1"
| "job_weight env (s, Finished r) = 0"

definition fan_weight :: "'d migrate_env \<Rightarrow> 'd fan \<Rightarrow> nat" where
  "fan_weight env f = sum_list (map (job_weight env) (fn_jobs f))"

lemma job_step_weight:
  assumes "\<forall>r. j \<noteq> Finished r" shows "job_weight env (s, fst (job_step env s (j, e))) < job_weight env (s, j)"
  using assms
  by (cases "(env, s, j, e)" rule: job_step.cases)
     (auto simp: open_tenant_def rbind_eq_Inr_iff rbind_eq_Inl_iff split: sum.splits option.splits prod.splits)

lemma sum_list_update_less:
  "i < length xs \<Longrightarrow> (g :: 'a \<Rightarrow> nat) y < g (xs ! i) \<Longrightarrow> sum_list (map g (xs[i := y])) < sum_list (map g xs)"
  by (induction xs arbitrary: i) (auto split: nat.splits simp: less_Suc_eq_0_disj)

lemma fan_step_weight: assumes "fan_step env workers f f'" shows "fan_weight env f' < fan_weight env f"
proof -
  from fan_step_job[OF assms] obtain i s j where i: "i < length (fn_jobs f)" "fn_jobs f ! i = (s, j)" "\<forall>r. j \<noteq> Finished r"
    and js: "fn_jobs f' = (fn_jobs f)[i := (s, fst (job_step env s (j, fn_estate f)))]" by blast
  have "job_weight env (s, fst (job_step env s (j, fn_estate f))) < job_weight env (fn_jobs f ! i)"
    unfolding i(2) by (rule job_step_weight[OF i(3)])
  from sum_list_update_less[OF i(1) this] show ?thesis unfolding fan_weight_def js .
qed

lemma first_waiting:
  "\<exists>x\<in>set js. snd x = Waiting \<Longrightarrow> \<exists>i<length js. snd (js ! i) = Waiting \<and> (\<forall>k<i. snd (js ! k) \<noteq> Waiting)"
proof -
  assume "\<exists>x\<in>set js. snd x = Waiting"
  then obtain k where k: "k < length js" "snd (js ! k) = Waiting" by (metis in_set_conv_nth)
  let ?i = "LEAST i. snd (js ! i) = Waiting"
  from k have "snd (js ! ?i) = Waiting" "?i \<le> k" by (auto intro: LeastI Least_le)
  with k show ?thesis using not_less_Least by (intro exI[of _ ?i]) fastforce
qed

lemma fan_progress: "fan_done f \<or> (\<exists>f'. fan_step env workers f f')"
proof -
  let ?js = "fn_jobs f"
  have f: "f = \<lparr>fn_jobs = ?js, fn_estate = fn_estate f\<rparr>" by simp
  show ?thesis
  proof (cases "\<exists>x\<in>set ?js. is_running (snd x)")
    case True
    then obtain i s ms seen applied where "i < length ?js" "?js ! i = (s, Running ms seen applied)"
      by (auto simp: in_set_conv_nth elim!: is_running.elims)
    from fan_step.move[OF this, of env "fn_estate f"] f show ?thesis by (metis prod.collapse)
  next
    case False
    then have none: "filter (is_running \<circ> snd) ?js = []" by (simp add: filter_empty_conv)
    show ?thesis
    proof (cases "\<exists>x\<in>set ?js. snd x = Waiting")
      case True
      from first_waiting[OF this] obtain i where i: "i < length ?js" "snd (?js ! i) = Waiting" "\<forall>k<i. snd (?js ! k) \<noteq> Waiting" by blast
      have "?js ! i = (fst (?js ! i), Waiting)" using i(2) by (simp add: prod_eq_iff)
      from fan_step.start[OF i(1) this i(3), of workers env "fn_estate f"] none f show ?thesis
        by (metis list.size(3) max.strict_coboundedI1 prod.collapse zero_less_one)
    next
      case no_wait: False
      have "(case j of Finished r \<Rightarrow> True | _ \<Rightarrow> False)" if "(s, j) \<in> set ?js" for s j
        using that False no_wait by (cases j) force+
      then show ?thesis by (auto simp: fan_done_def list_all_iff)
    qed
  qed
qed

lemma fan_completes: "\<exists>f'. (fan_step env workers)\<^sup>*\<^sup>* f f' \<and> fan_done f'"
proof (induction "fan_weight env f" arbitrary: f rule: less_induct)
  case less
  show ?case
  proof (cases "fan_done f")
    case False
    then obtain f1 where "fan_step env workers f f1" using fan_progress by blast
    with less[OF fan_step_weight[OF this]] show ?thesis by (meson converse_rtranclp_into_rtranclp)
  qed blast
qed

text \<open>
  C6. The fan-out ends. From any state of the pool at most as many steps are possible as there are migrations,
  reads and grants left, and until every tenant has its result some step is possible, whatever the number of
  workers and whatever fails.
\<close>

theorem fan_out_ends:
  assumes "(fan_step env workers ^^ n) f f'"
  shows "n + fan_weight env f' \<le> fan_weight env f \<and> (fan_done f' \<or> (\<exists>f''. fan_step env workers f' f''))"
proof
  from assms show "n + fan_weight env f' \<le> fan_weight env f"
  proof (induction n arbitrary: f')
    case (Suc n)
    then obtain f1 where "(fan_step env workers ^^ n) f f1" "fan_step env workers f1 f'" by (auto elim: relpowp_Suc_E)
    with Suc.IH fan_step_weight show ?case by fastforce
  qed auto
qed (rule fan_progress)

section \<open>Drift\<close>

lemma apply_tenant_no_drift:
  assumes "apply_tenant env s e = (Inr applied, e')" "es_versions e1 (''t_'' @ s @ ''_silver'') = es_versions e' (''t_'' @ s @ ''_silver'')"
  shows "drift_of env e1 s = Inr None"
proof -
  from assms(1) obtain ms schema vt vt' d d' where o: "open_tenant env s e = Inr (ms, schema, vt)"
    and run: "run_chain (run_rendered env s) s (map_of vt) ms [] (vt, es_data e) = (Inr applied, vt', d)"
    and e': "e' = grant_identity s (put_tenant schema vt' d' e)" unfolding apply_tenant_Inr by blast
  from o have sch: "silver_schema s = Inr schema" and chain: "tenant_chain env s = Inr ms" by (simp_all add: open_tenant_Inr)
  from chain obtain ext where ext: "load_ext (me_sha env) (me_files env) s = Inr ext"
    "ms = load_dir (me_sha env) (tenant_dir (me_files env)) @ ext"
    by (auto simp: tenant_chain_def rbind_eq_Inr_iff)
  have vt': "vt' = vt @ map version_row (unseen (map_of vt) ms)" using run unfolding run_chain_Inr by blast
  have "mg_filename m \<in> fst ` set vt'" if "m \<in> set ms" for m
    using that by (cases "map_of vt (mg_filename m)") (force simp: vt' unseen_def dest: map_of_SomeD)+
  then have "filter (\<lambda>f. f \<notin> fst ` set vt') (map mg_filename ms) = []" by (auto simp: filter_empty_conv)
  moreover have "applied_map schema e1 = Inr vt'" using assms(2) silver_schema_Inr[OF sch] by (simp add: applied_map_def e')
  ultimately show ?thesis using ext sch by (simp add: drift_of_def Let_def)
qed

lemma no_drift_report:
  assumes "\<forall>s\<in>set (tenant_slugs e). drift_of env e s = Inr None" shows "drift_report env e = Inr []"
proof -
  have "rfold (\<lambda>drift s. rbind (drift_of env e s) (\<lambda>p. Inr (case p of None \<Rightarrow> drift | Some p \<Rightarrow> dict_put s p drift))) [] ss = Inr []"
    if "\<forall>s\<in>set ss. drift_of env e s = Inr None" for ss using that by (induction ss) simp_all
  with assms show ?thesis by (simp add: drift_report_def)
qed

text \<open>
  C7. After a fan-out whose report is ok, nothing has drifted: the check that alerts on pending migrations passes.
\<close>

theorem ok_report_no_drift:
  assumes "confined env part" "distinct (map tr_slug (es_registry e))"
    and "(fan_step env workers)\<^sup>*\<^sup>* (fan_start e) f" "fan_done f" "report_ok (run_report f)"
  shows "drift_report env (fn_estate f) = Inr [] \<and> assert_no_drift env (fn_estate f) = Inr ()"
proof -
  from fan_inv_run[OF assms(1) distinct_tenant_slugs[OF assms(2)] assms(3)] have inv: "fan_inv env part e f" .
  then have slugs: "tenant_slugs (fn_estate f) = tenant_slugs e" by (intro tenant_slugs_registry) (simp add: fan_inv_def)
  have "drift_of env (fn_estate f) s = Inr None" if s: "s \<in> set (tenant_slugs e)" for s
  proof -
    note alone = fan_result[OF assms(1-4) s]
    show ?thesis
    proof (cases "fst (apply_tenant env s e)")
      case (Inl x)
      with alone have "\<lparr>rs_slug = s, rs_applied = [], rs_error = Some x\<rparr> \<in> set (run_report f)" by (force simp: run_report_def)
      with assms(5) show ?thesis by (auto simp: report_ok_def filter_empty_conv)
    next
      case (Inr applied)
      then have "apply_tenant env s e = (Inr applied, snd (apply_tenant env s e))" by (simp add: prod_eq_iff)
      then show ?thesis by (rule apply_tenant_no_drift) (use alone in \<open>simp add: view_def\<close>)
    qed
  qed
  with slugs have "drift_report env (fn_estate f) = Inr []" by (intro no_drift_report) simp
  then show ?thesis by (simp add: assert_no_drift_def)
qed

lemma run_chain_append:
  "run_chain run scope seen (xs @ ys) applied st = (case run_chain run scope seen xs applied st of
     (Inl x, st') \<Rightarrow> (Inl x, st') | (Inr applied', st') \<Rightarrow> run_chain run scope seen ys applied' st')"
  by (induction xs arbitrary: applied st) (auto split: option.splits sum.splits prod.splits)

text \<open>A chain with an edited file fails, at that file or before it.\<close>

lemma edited_chain:
  assumes ms: "ms = pre @ m # post" and edited: "seen (mg_filename m) = Some c" "c \<noteq> mg_checksum m"
    and run: "run_chain run scope seen ms applied (vt, d) = (r, vt1, d1)"
  shows "\<exists>x done left. r = Inl x \<and> unseen seen pre = done @ left \<and> vt1 = vt @ map version_row done
    \<and> rfold (\<lambda>d m. run m d) d done = Inr d1"
proof -
  have bad: "m \<notin> set qs" if "unedited seen qs" for qs
    using that edited by (auto simp: unedited_def list_all_iff)
  have "\<not> unedited seen ms" using bad ms by fastforce
  then obtain x where x: "r = Inl x" using run run_chain_Inr[of run scope seen ms applied vt d] by (cases r) auto
  from run_chain_Inl[OF run[unfolded x]] obtain qs n post' where q: "ms = qs @ n # post'"
    "run_chain run scope seen qs applied (vt, d) = (Inr (applied @ map mg_filename (unseen seen qs)), vt1, d1)" by blast
  then have done': "unedited seen qs" "vt1 = vt @ map version_row (unseen seen qs)" "rfold (\<lambda>d m. run m d) d (unseen seen qs) = Inr d1"
    unfolding run_chain_Inr by simp_all
  have "pre @ m # post = qs @ n # post'" using q(1) ms by simp
  then obtain us where "pre = qs @ us \<and> us @ m # post = n # post' \<or> pre @ us = qs \<and> m # post = us @ n # post'"
    unfolding append_eq_append_conv2 by blast
  then have "pre = qs @ us"
  proof
    assume a: "pre @ us = qs \<and> m # post = us @ n # post'"
    then have "us = []" using bad[OF done'(1)] by (cases us) auto
    with a show ?thesis by simp
  qed simp
  then have "unseen seen pre = unseen seen qs @ unseen seen us" by simp
  with x done' show ?thesis by blast
qed


text \<open>
  One badly named file in the extensions of one tenant: the fan-out fails that tenant and serves the others,
  but the drift report, and the alert built on it, fail for the whole estate.
\<close>

theorem stray_extension_blinds_drift:
  assumes "load_ext (me_sha env) (me_files env) bad = Inl x" "bad \<in> set (tenant_slugs e)"
    and "\<forall>s\<in>set (tenant_slugs e). s \<noteq> bad \<longrightarrow> (\<exists>p. drift_of env e s = Inr p)"
  shows "drift_report env e = Inl x \<and> (\<exists>y. apply_tenant env bad e = (Inl y, e))"
proof
  have d: "drift_of env e bad = Inl x" using assms(1) by (simp add: drift_of_def)
  have "rfold (\<lambda>drift s. rbind (drift_of env e s) (\<lambda>p. Inr (case p of None \<Rightarrow> drift | Some p \<Rightarrow> dict_put s p drift))) acc ss = Inl x"
    if "bad \<in> set ss" "\<forall>s\<in>set ss. s \<noteq> bad \<longrightarrow> (\<exists>p. drift_of env e s = Inr p)" for ss acc
    using that
  proof (induction ss arbitrary: acc)
    case (Cons s ss)
    show ?case
    proof (cases "s = bad")
      case True then show ?thesis using d by simp
    next
      case False
      with Cons.prems(2) obtain p where p: "drift_of env e s = Inr p" by (meson list.set_intros(1))
      have 1: "bad \<in> set ss" using Cons.prems(1) False by simp
      have 2: "\<forall>s\<in>set ss. s \<noteq> bad \<longrightarrow> (\<exists>p. drift_of env e s = Inr p)" using Cons.prems(2) by (meson list.set_intros(2))
      from Cons.IH[OF 1 2] p show ?thesis by simp
    qed
  qed simp
  with assms(2,3) show "drift_report env e = Inl x" unfolding drift_report_def by blast
  have "\<exists>y. open_tenant env bad e = Inl y"
    using assms(1) by (cases "validate_slug bad") (simp_all add: open_tenant_def tenant_chain_def)
  then show "\<exists>y. apply_tenant env bad e = (Inl y, e)" by (auto simp: apply_tenant_def)
qed

section \<open>Witnesses\<close>

text \<open>
  Two tenants; the statement of the one file counts itself in the data under its own text, and fails when it finds
  the mark of a lock there. The extensions of the second tenant hold a badly named file.
\<close>

definition demo_sql :: "string \<Rightarrow> string" where
  "demo_sql s = quoted (''t_'' @ s @ ''_silver'')"

definition demo_files :: migration_files where
  "demo_files = \<lparr>shared_dir = [], tenant_dir = [(''001_silver.sql'', ''{{silver}}'')],
     tenant_ext_dir = (\<lambda>s. if s = ''globex'' then Some [(''late.sql'', [])] else None)\<rparr>"

definition demo_migrate :: "(string \<Rightarrow> nat) migrate_env" where
  "demo_migrate = \<lparr>me_sha = id, me_files = demo_files,
     me_exec = (\<lambda>q d. if d q = 9 then Inl (SqlError ''55P03'') else Inr (d(q := d q + 1))), me_grants = (\<lambda>s d. Inr d)\<rparr>"

definition demo_estate :: "(string \<Rightarrow> nat) estate" where
  "demo_estate = \<lparr>es_registry = map (\<lambda>(s, i). \<lparr>tr_slug = s, tr_tenant = i, tr_bucket = s, tr_status = ''ACTIVE'', tr_activated = None\<rparr>)
       [(''globex'', 2), (''acme'', 1)],
     es_shared = None, es_versions = (\<lambda>n. if n \<in> {''t_acme_silver'', ''t_globex_silver''} then Some [] else None),
     es_readers = (\<lambda>n. []), es_data = (\<lambda>q. 0)\<rparr>"

lemma replace_text_absent: "old \<noteq> [] \<Longrightarrow> hd old \<notin> set s \<Longrightarrow> replace_text old new s = s"
  by (induction s; cases old) auto

lemma render_demo: "render ''{{silver}}'' s = Inr q \<Longrightarrow> q = demo_sql s"
proof -
  assume r: "render ''{{silver}}'' s = Inr q"
  then have "slug_re s" by (auto simp: render_def rbind_eq_Inr_iff validate_slug_Inr)
  moreover have "\<not> slug_char (CHR ''{'')" by code_simp
  ultimately have "CHR ''{'' \<notin> set (demo_sql s)"
    by (auto simp: demo_sql_def quoted_def slug_re_iff list_all_iff dest!: slug_body_chars)
  with r show ?thesis
    by (auto simp: render_def rbind_eq_Inr_iff demo_sql_def silver_schema_Inr replace_text_absent dest!: silver_schema_Inr)
qed

definition demo_part :: "string \<Rightarrow> (string \<Rightarrow> nat) \<Rightarrow> nat" where
  "demo_part s d = d (demo_sql s)"

lemma demo_sql_inj: "demo_sql s = demo_sql s' \<Longrightarrow> s = s'"
  by (simp add: demo_sql_def quoted_def)

lemma demo_confined: "confined demo_migrate demo_part"
proof -
  have body: "mg_body m = ''{{silver}}''" if "tenant_chain demo_migrate s = Inr ms" "m \<in> set ms" for s ms m
  proof -
    have "\<forall>m\<in>set (load_dir id [(''001_silver.sql'', ''{{silver}}'')]). mg_body m = ''{{silver}}''" by code_simp
    moreover have "ext_filename ''late.sql'' = False" "sql_files [(''late.sql'', [])] = [(''late.sql'', [])]" by code_simp+
    ultimately show ?thesis
      using that by (auto simp: tenant_chain_def demo_migrate_def demo_files_def rbind_eq_Inr_iff load_ext_def Let_def split: if_splits)
  qed
  have grants: "confined_call demo_part s (me_grants demo_migrate s)" for s
    by (simp add: confined_call_def agree_def demo_migrate_def)
  have exec: "confined_call demo_part s (me_exec demo_migrate (demo_sql s))" for s
  proof -
    have other: "demo_sql s' = demo_sql s \<longleftrightarrow> s' = s" for s' using demo_sql_inj by blast
    show ?thesis by (simp add: confined_call_def agree_def demo_migrate_def demo_part_def other)
  qed
  show ?thesis unfolding confined_def
    by (intro allI conjI impI grants) (elim conjE, drule (1) body, use render_demo exec in metis)
qed

theorem fan_out_is_each_alone_witness:
  "\<exists>f. (fan_step demo_migrate 2)\<^sup>*\<^sup>* (fan_start demo_estate) f \<and> map rs_slug (run_report f) = [''acme'', ''globex'']
     \<and> map rs_applied (run_report f) = [[''001_silver.sql''], []] \<and> map (\<lambda>r. rs_error r = None) (run_report f) = [True, False]
     \<and> es_data (fn_estate f) (demo_sql ''acme'') = 1"
proof -
  obtain f where f: "(fan_step demo_migrate 2)\<^sup>*\<^sup>* (fan_start demo_estate) f" "fan_done f" using fan_completes by blast
  have "distinct (map tr_slug (es_registry demo_estate))" by code_simp
  from fan_out_is_each_alone[OF demo_confined this f]
  have report: "run_report f = map (\<lambda>s. result_of s (fst (apply_tenant demo_migrate s demo_estate))) (tenant_slugs demo_estate)"
    and parts: "view demo_part ''acme'' (fn_estate f) = (if ''acme'' \<in> set (tenant_slugs demo_estate)
      then view demo_part ''acme'' (snd (apply_tenant demo_migrate ''acme'' demo_estate)) else view demo_part ''acme'' demo_estate)" by blast+
  have slugs: "tenant_slugs demo_estate = [''acme'', ''globex'']" by code_simp
  have "map (\<lambda>s. rs_slug (result_of s (fst (apply_tenant demo_migrate s demo_estate)))) [''acme'', ''globex''] = [''acme'', ''globex'']"
    "map (\<lambda>s. rs_applied (result_of s (fst (apply_tenant demo_migrate s demo_estate)))) [''acme'', ''globex''] = [[''001_silver.sql''], []]"
    "map (\<lambda>s. rs_error (result_of s (fst (apply_tenant demo_migrate s demo_estate))) = None) [''acme'', ''globex''] = [True, False]"
    by code_simp+
  moreover have "demo_part ''acme'' (es_data (snd (apply_tenant demo_migrate ''acme'' demo_estate))) = 1" by code_simp
  ultimately show ?thesis using f(1) report parts unfolding slugs
    by (intro exI[of _ f]) (simp add: view_def demo_part_def)
qed

theorem fan_out_ends_witness: "fan_weight demo_migrate (fan_start demo_estate) = 4 \<and> \<not> fan_done (fan_start demo_estate)
   \<and> (\<exists>f. fan_step demo_migrate 2 (fan_start demo_estate) f)"
proof -
  have "\<not> fan_done (fan_start demo_estate)" by code_simp
  moreover have "fan_weight demo_migrate (fan_start demo_estate) = 4" by code_simp
  moreover from fan_out_ends[of 0 demo_migrate 2 "fan_start demo_estate" "fan_start demo_estate"]
  have "fan_done (fan_start demo_estate) \<or> (\<exists>f. fan_step demo_migrate 2 (fan_start demo_estate) f)" by simp
  ultimately show ?thesis by blast
qed

text \<open>A tenant alone, without extensions; its second file meets a lock at the first attempt.\<close>

definition demo_two :: "(string \<Rightarrow> nat) migrate_env" where
  "demo_two = demo_migrate\<lparr>me_files := demo_files\<lparr>tenant_dir := [(''002_gold.sql'', ''{{gold}}''), (''001_silver.sql'', ''{{silver}}'')]\<rparr>\<rparr>"

definition demo_locked :: "(string \<Rightarrow> nat) migrate_env" where
  "demo_locked = demo_two\<lparr>me_exec := (\<lambda>q d. if q = quoted ''t_acme_gold'' then Inl (SqlError ''55P03'') else me_exec demo_two q d)\<rparr>"

definition demo_acme :: "(string \<Rightarrow> nat) estate" where
  "demo_acme = demo_estate\<lparr>es_registry := filter (\<lambda>r. tr_slug r = ''acme'') (es_registry demo_estate)\<rparr>"

theorem resumed_migration_is_clean_witness:
  "\<exists>e1 a1 e2. after_attempts [demo_locked] ''acme'' demo_acme = Some e1 \<and> apply_tenant demo_two ''acme'' e1 = (Inr [''002_gold.sql''], e2)
     \<and> apply_tenant demo_two ''acme'' demo_acme = (Inr (a1 @ [''002_gold.sql'']), e2)"
proof -
  let ?a = "after_attempts [demo_locked] ''acme'' demo_acme"
  have "?a \<noteq> None" by code_simp
  then obtain e1 where e1: "?a = Some e1" by blast
  have "case ?a of None \<Rightarrow> False | Some e \<Rightarrow> fst (apply_tenant demo_two ''acme'' e) = Inr [''002_gold.sql'']" by code_simp
  with e1 have "fst (apply_tenant demo_two ''acme'' e1) = Inr [''002_gold.sql'']" by simp
  then have again: "apply_tenant demo_two ''acme'' e1 = (Inr [''002_gold.sql''], snd (apply_tenant demo_two ''acme'' e1))" by (simp add: prod_eq_iff)
  have weaker: "\<forall>env1\<in>set [demo_locked]. me_sha env1 = me_sha demo_two \<and> me_files env1 = me_files demo_two
      \<and> (\<forall>s d d'. me_exec env1 s d = Inr d' \<longrightarrow> me_exec demo_two s d = Inr d')"
    by (simp add: demo_locked_def)
  have names: "case tenant_chain demo_two ''acme'' of Inl x \<Rightarrow> False | Inr ms \<Rightarrow> distinct (map mg_filename ms)" by code_simp
  have "\<forall>ms. tenant_chain demo_two ''acme'' = Inr ms \<longrightarrow> distinct (map mg_filename ms)" using names by auto
  from resumed_migration_is_clean[OF e1 again weaker this] e1 again show ?thesis by blast
qed

theorem ok_report_no_drift_witness:
  "\<exists>f. (fan_step demo_migrate 1)\<^sup>*\<^sup>* (fan_start demo_acme) f \<and> assert_no_drift demo_migrate (fn_estate f) = Inr ()
     \<and> assert_no_drift demo_migrate demo_acme \<noteq> Inr ()"
proof -
  obtain f where f: "(fan_step demo_migrate 1)\<^sup>*\<^sup>* (fan_start demo_acme) f" "fan_done f" using fan_completes by blast
  have names: "distinct (map tr_slug (es_registry demo_acme))" by code_simp
  have slugs: "tenant_slugs demo_acme = [''acme'']" by code_simp
  from fan_inv_run[OF demo_confined distinct_tenant_slugs[OF names] f(1)] have "map fst (fn_jobs f) = [''acme'']"
    by (simp add: fan_inv_def slugs)
  moreover have "fst (apply_tenant demo_migrate ''acme'' demo_acme) = Inr [''001_silver.sql'']" by code_simp
  with fan_result[OF demo_confined names f, of "''acme''"] have "(''acme'', Finished (Inr [''001_silver.sql''])) \<in> set (fn_jobs f)"
    by (simp add: slugs)
  ultimately have "fn_jobs f = [(''acme'', Finished (Inr [''001_silver.sql'']))]" by (cases "fn_jobs f") auto
  then have "report_ok (run_report f)" by (simp add: report_ok_def run_report_def)
  from ok_report_no_drift[OF demo_confined names f this] have "assert_no_drift demo_migrate (fn_estate f) = Inr ()" by blast
  moreover have "assert_no_drift demo_migrate demo_acme \<noteq> Inr ()" by code_simp
  ultimately show ?thesis using f(1) by blast
qed

text \<open>The first file is pending, the second was edited: the first runs, then the tenant fails, and the check passes.\<close>

definition demo_edited :: "(string \<Rightarrow> nat) estate" where
  "demo_edited = demo_acme\<lparr>es_versions := (\<lambda>n. if n = ''t_acme_silver'' then Some [(''002_gold.sql'', ''as it was'')] else None)\<rparr>"


theorem stray_extension_blinds_drift_witness:
  "\<exists>x y. drift_report demo_migrate demo_estate = Inl x \<and> apply_tenant demo_migrate ''globex'' demo_estate = (Inl y, demo_estate)
     \<and> fst (apply_tenant demo_migrate ''acme'' demo_estate) = Inr [''001_silver.sql'']"
proof -
  let ?l = "load_ext (me_sha demo_migrate) (me_files demo_migrate) ''globex''"
  have "case ?l of Inl x \<Rightarrow> True | Inr y \<Rightarrow> False" by code_simp
  then obtain x where x: "?l = Inl x" by (cases ?l) simp_all
  have slugs: "tenant_slugs demo_estate = [''acme'', ''globex'']" by code_simp
  have "drift_of demo_migrate demo_estate ''acme'' = Inr (Some [''001_silver.sql''])" by code_simp
  then have "\<forall>s\<in>set (tenant_slugs demo_estate). s \<noteq> ''globex'' \<longrightarrow> (\<exists>p. drift_of demo_migrate demo_estate s = Inr p)"
    unfolding slugs by simp
  moreover have "fst (apply_tenant demo_migrate ''acme'' demo_estate) = Inr [''001_silver.sql'']" by code_simp
  ultimately show ?thesis using stray_extension_blinds_drift[OF x, of demo_estate] slugs by auto
qed

end
