(* ===== verification/Provision.thy ===== *)
theory Provision
  imports Migrate Tenancy ObjectStore
begin

text \<open>
  \<open>src/src/provisioning/service.py\<close>: building a tenant, bucket first and ACTIVE last, and taking it down, with
  \<open>app.provision_tenant_schemas\<close> of \<open>src/migrations/shared/060_reconciliation_engine_schema.sql\<close>. Calls for one
  cluster follow each other. A lost connection at a statement is a parameter.
\<close>

section \<open>The cluster\<close>

text \<open>
  The databases of \<open>Migrate\<close>, the roles, the row of each schema's \<open>__schema_identity\<close> (\<open>None\<close>: no such schema),
  and the object store.
\<close>

record identity_row =
  id_slug :: string
  id_tenant :: uuid
  id_layer :: string

record 'd world =
  wo_estate :: "'d estate"
  wo_roles :: "string list"
  wo_identity :: "string \<Rightarrow> identity_row option"
  wo_store :: s3

text \<open>A service: what it migrates with, the object store it was given, if any, and what \<open>DROP SCHEMA\<close> does to the data.\<close>

record 'd provision_env =
  pv_migrate :: "'d migrate_env"
  pv_store :: "store_config option"
  pv_prefix :: string
  pv_drop :: "string \<Rightarrow> 'd \<Rightarrow> 'd"

section \<open>Provisioning\<close>

text \<open>The \<open>CHECK\<close> of the registry and the test of the function, whose \<open>$\<close> is the end of the text.\<close>

definition register_tenant :: "string \<Rightarrow> uuid \<Rightarrow> string \<Rightarrow> tenant_row list \<Rightarrow> exc + tenant_row list" where
  "register_tenant slug tid bucket reg =
     (if \<not> slug_body slug then Inl (OtherIntegrityError ''tenant_registry_slug_check'')
      else if slug \<in> tr_slug ` set reg then
        Inr (map (\<lambda>r. if tr_slug r = slug
          then r\<lparr>tr_bucket := bucket, tr_status := (if tr_status r = ''ACTIVE'' then ''ACTIVE'' else ''PROVISIONING'')\<rparr> else r) reg)
      else if tid \<in> tr_tenant ` set reg then Inl (UniqueViolation ''tenant_registry_tenant_id_key'')
      else Inr (reg @ [\<lparr>tr_slug = slug, tr_tenant = tid, tr_bucket = bucket, tr_status = ''PROVISIONING'', tr_activated = None\<rparr>]))"

definition create_role :: "string \<Rightarrow> string list \<Rightarrow> string list" where
  "create_role r rs = (if r \<in> set rs then rs else rs @ [r])"

definition put_identity :: "string \<Rightarrow> uuid \<Rightarrow> string \<Rightarrow> (string \<Rightarrow> identity_row option) \<Rightarrow> string \<Rightarrow> identity_row option" where
  "put_identity slug tid suffix idm = idm(pg_name slug suffix := Some \<lparr>id_slug = slug, id_tenant = tid, id_layer = tl suffix\<rparr>)"

definition provision_tenant_schemas :: "string \<Rightarrow> uuid \<Rightarrow> 'd world \<Rightarrow> exc + 'd world" where
  "provision_tenant_schemas slug tid w =
     (if \<not> slug_body slug then Inl (SqlError ''22023'')
      else let silver = pg_name slug ''_silver''; vs = es_versions (wo_estate w) in
        Inr (w\<lparr>wo_roles := fold (\<lambda>x. create_role (pg_name slug x)) role_suffixes (wo_roles w),
               wo_identity := fold (put_identity slug tid) layer_suffixes (wo_identity w),
               wo_estate := (wo_estate w)\<lparr>es_versions := (if vs silver = None then vs(silver := Some []) else vs)\<rparr>\<rparr>))"

definition schemas_transaction :: "exc option \<Rightarrow> string \<Rightarrow> uuid \<Rightarrow> string \<Rightarrow> 'd world \<Rightarrow> exc + 'd world" where
  "schemas_transaction lost slug tid bucket w = (case lost of Some x \<Rightarrow> Inl x | None \<Rightarrow>
     rbind (register_tenant slug tid bucket (es_registry (wo_estate w))) (\<lambda>reg.
       provision_tenant_schemas slug tid (w\<lparr>wo_estate := (wo_estate w)\<lparr>es_registry := reg\<rparr>\<rparr>)))"

definition set_status :: "string \<Rightarrow> (tenant_row \<Rightarrow> tenant_row) \<Rightarrow> 'd world \<Rightarrow> 'd world" where
  "set_status slug f w = w\<lparr>wo_estate := (wo_estate w)\<lparr>es_registry :=
     map (\<lambda>r. if tr_slug r = slug then f r else r) (es_registry (wo_estate w))\<rparr>\<rparr>"

definition activate :: "string \<Rightarrow> instant \<Rightarrow> 'd world \<Rightarrow> 'd world" where
  "activate slug now = set_status slug (\<lambda>r. r\<lparr>tr_status := ''ACTIVE'', tr_activated := Some now\<rparr>)"

record provisioned_tenant =
  pt_slug :: string
  pt_tenant :: uuid
  pt_bucket :: string
  pt_schemas :: "string list"
  pt_roles :: "string list"
  pt_applied :: "string list"

text \<open>The bucket of the object store, or the name it would have.\<close>

definition bucket_step :: "'d provision_env \<Rightarrow> string \<Rightarrow> 'd world \<Rightarrow> exc + string \<times> 'd world" where
  "bucket_step env slug w = (case pv_store env of
      Some cfg \<Rightarrow> rbind (ensure_bucket cfg slug (wo_store w)) (\<lambda>(b, st). Inr (b, w\<lparr>wo_store := st\<rparr>))
    | None \<Rightarrow> rbind (bucket_name slug (pv_prefix env)) (\<lambda>b. Inr (b, w)))"

text \<open>\<open>fresh\<close> is the id \<open>uuid4\<close> draws; \<open>lost\<close> what the connections of steps 2 and 4 raise. A psycopg error has a SQLSTATE.\<close>

definition provision ::
  "'d provision_env \<Rightarrow> instant \<Rightarrow> (nat \<Rightarrow> exc option) \<Rightarrow> uuid \<Rightarrow> string \<Rightarrow> uuid option \<Rightarrow> 'd world
    \<Rightarrow> (exc + provisioned_tenant) \<times> 'd world" where
  "provision env now lost fresh slug tenant w =
     (let tid = (case tenant of Some t \<Rightarrow> t | None \<Rightarrow> fresh) in
      case rbind (validate_slug slug) (\<lambda>_. bucket_step env slug w) of Inl x \<Rightarrow> (Inl x, w) | Inr (bucket, w1) \<Rightarrow>
        (case schemas_transaction (lost 2) slug tid bucket w1 of
           Inl x \<Rightarrow> (Inl (if sqlstate x \<noteq> None then ProvisioningError (''failed to create schemas/roles for '' @ slug) else x), w1)
         | Inr w2 \<Rightarrow>
            (case apply_tenant (pv_migrate env) slug (wo_estate w2) of (r, e3) \<Rightarrow> let w3 = w2\<lparr>wo_estate := e3\<rparr> in
               case r of
                 Inl x \<Rightarrow> (Inl (ProvisioningError (''schemas exist for '' @ slug @ '' but migrations failed - tenant left PROVISIONING'')), w3)
               | Inr applied \<Rightarrow>
                  (case lost 4 of Some x \<Rightarrow> (Inl x, w3) | None \<Rightarrow>
                    (rbind (all_schemas slug) (\<lambda>ss. rbind (all_roles slug) (\<lambda>rs.
                       Inr \<lparr>pt_slug = slug, pt_tenant = tid, pt_bucket = bucket, pt_schemas = ss, pt_roles = rs, pt_applied = applied\<rparr>)),
                     activate slug now w3)))))"

section \<open>Deprovisioning\<close>

definition drop_schema :: "'d provision_env \<Rightarrow> string \<Rightarrow> 'd world \<Rightarrow> 'd world" where
  "drop_schema env schema w = w\<lparr>wo_identity := (wo_identity w)(schema := None),
     wo_estate := (wo_estate w)\<lparr>es_versions := (es_versions (wo_estate w))(schema := None),
       es_readers := (es_readers (wo_estate w))(schema := []), es_data := pv_drop env schema (es_data (wo_estate w))\<rparr>\<rparr>"

definition drop_role :: "string \<Rightarrow> 'd world \<Rightarrow> 'd world" where
  "drop_role r w = w\<lparr>wo_roles := filter (\<lambda>x. x \<noteq> r) (wo_roles w)\<rparr>"

definition delete_tenant :: "string \<Rightarrow> 'd world \<Rightarrow> 'd world" where
  "delete_tenant slug w = w\<lparr>wo_estate := (wo_estate w)\<lparr>es_registry := filter (\<lambda>r. tr_slug r \<noteq> slug) (es_registry (wo_estate w))\<rparr>\<rparr>"

text \<open>Statements on a connection in autocommit: one that fails keeps those before it.\<close>

fun autocommit :: "(nat \<Rightarrow> exc option) \<Rightarrow> nat \<Rightarrow> ('w \<Rightarrow> 'w) list \<Rightarrow> 'w \<Rightarrow> (exc + unit) \<times> 'w" where
  "autocommit lost n [] w = (Inr (), w)"
| "autocommit lost n (s # ss) w = (case lost n of Some x \<Rightarrow> (Inl x, w) | None \<Rightarrow> autocommit lost (Suc n) ss (s w))"

definition deprovision_statements :: "'d provision_env \<Rightarrow> string \<Rightarrow> bool \<Rightarrow> ('d world \<Rightarrow> 'd world) list" where
  "deprovision_statements env slug drop_schemas =
     set_status slug (\<lambda>r. r\<lparr>tr_status := ''DEPROVISIONED''\<rparr>) #
     (if drop_schemas then map (\<lambda>x. drop_schema env (pg_name slug x)) layer_suffixes
         @ map (\<lambda>x. drop_role (pg_name slug x)) role_suffixes @ [delete_tenant slug]
      else [])"

definition deprovision ::
  "'d provision_env \<Rightarrow> (nat \<Rightarrow> exc option) \<Rightarrow> string \<Rightarrow> bool \<Rightarrow> 'd world \<Rightarrow> (exc + unit) \<times> 'd world" where
  "deprovision env lost slug drop_schemas w = (case validate_slug slug of Inl x \<Rightarrow> (Inl x, w)
     | Inr _ \<Rightarrow> autocommit lost 1 (deprovision_statements env slug drop_schemas) w)"

section \<open>The life of a cluster\<close>

inductive world_step :: "'d provision_env \<Rightarrow> 'd world \<Rightarrow> 'd world \<Rightarrow> bool" for env :: "'d provision_env" where
  provisioned: "world_step env w (snd (provision env now lost fresh slug tenant w))"
| deprovisioned: "world_step env w (snd (deprovision env lost slug dr w))"
| migrated: "world_step env w (w\<lparr>wo_estate := snd (apply_tenant (pv_migrate env) slug (wo_estate w))\<rparr>)"

definition built :: "'d provision_env \<Rightarrow> string \<Rightarrow> 'd world \<Rightarrow> bool" where
  "built env slug w \<longleftrightarrow>
     (\<forall>x\<in>set layer_suffixes. \<exists>t. wo_identity w (pg_name slug x) = Some \<lparr>id_slug = slug, id_tenant = t, id_layer = tl x\<rparr>)
   \<and> (\<forall>x\<in>set role_suffixes. pg_name slug x \<in> set (wo_roles w)) \<and> es_versions (wo_estate w) (pg_name slug ''_silver'') \<noteq> None"

definition has_bucket :: "'d provision_env \<Rightarrow> tenant_row \<Rightarrow> 'd world \<Rightarrow> bool" where
  "has_bucket env r w \<longleftrightarrow> pv_store env = None \<or> map_of (buckets (wo_store w)) (tr_bucket r) \<noteq> None"

text \<open>The tenant's roles may read the identity of the tenant's schemas, as the grants say.\<close>

definition granted :: "string \<Rightarrow> 'd world \<Rightarrow> bool" where
  "granted slug w \<longleftrightarrow> (\<forall>(x, ys)\<in>set identity_readers. \<forall>y\<in>set ys. pg_name slug y \<in> set (es_readers (wo_estate w) (pg_name slug x)))"

text \<open>
  A schema's identity names the tenant the schema is named after; an ACTIVE tenant is built, has its grants and
  has its bucket.
\<close>

definition identity_named :: "(string \<Rightarrow> identity_row option) \<Rightarrow> bool" where
  "identity_named idm \<longleftrightarrow> (\<forall>n i. idm n = Some i \<longrightarrow> n = pg_name (id_slug i) (CHR ''_'' # id_layer i))"

definition row_ok :: "'d provision_env \<Rightarrow> 'd world \<Rightarrow> tenant_row \<Rightarrow> bool" where
  "row_ok env w r \<longleftrightarrow> (tr_status r = ''ACTIVE'' \<longrightarrow> built env (tr_slug r) w \<and> granted (tr_slug r) w \<and> has_bucket env r w)"

definition world_ok :: "'d provision_env \<Rightarrow> 'd world \<Rightarrow> bool" where
  "world_ok env w \<longleftrightarrow> distinct (map tr_slug (es_registry (wo_estate w))) \<and> distinct (map tr_tenant (es_registry (wo_estate w)))
   \<and> identity_named (wo_identity w) \<and> (\<forall>r\<in>set (es_registry (wo_estate w)). row_ok env w r)"

section \<open>What each operation leaves\<close>

lemma pg_name_clash:
  assumes "pg_name s x = pg_name s' y" "x \<in> set layer_suffixes \<union> set role_suffixes" "y \<in> set layer_suffixes \<union> set role_suffixes"
  shows "s = s' \<and> x = y"
proof -
  have "set layer_suffixes \<union> set role_suffixes = set name_suffixes" by (auto simp: layer_suffixes_def role_suffixes_def name_suffixes_def)
  with assms(2,3) have "x \<in> set name_suffixes" "y \<in> set name_suffixes" by blast+
  then show ?thesis using assms(1) append_suffix_clash[of s x s' y] by (simp add: pg_name_def)
qed

lemma apply_tenant_frame:
  "es_registry (snd (apply_tenant env slug e)) = es_registry e"
  "es_versions e n \<noteq> None \<Longrightarrow> es_versions (snd (apply_tenant env slug e)) n \<noteq> None"
  by (auto simp: apply_tenant_def Let_def split: sum.splits prod.splits)

lemma built_tenant_migrated [simp]: "built env slug w \<Longrightarrow> built env slug (w\<lparr>wo_estate := snd (apply_tenant menv s (wo_estate w))\<rparr>)"
  using apply_tenant_frame(2)[of "wo_estate w" _ menv s] unfolding built_def by simp

lemma identity_readers_layers: "(x, ys) \<in> set identity_readers \<Longrightarrow> x \<in> set layer_suffixes \<and> map_of identity_readers x = Some ys"
proof -
  assume x: "(x, ys) \<in> set identity_readers"
  have "distinct (map fst identity_readers)" "map fst identity_readers = layer_suffixes"
    by (simp_all add: identity_readers_def layer_suffixes_def)
  with x show ?thesis by (metis fst_conv image_eqI list.set_map map_of_eq_Some_iff)
qed

lemma granted_after: "granted slug (w\<lparr>wo_estate := grant_identity slug e\<rparr>)"
  unfolding granted_def by (auto dest!: identity_readers_layers simp: readers_granted)

lemma granted_other: "granted s (w\<lparr>wo_estate := e\<rparr>) \<Longrightarrow> granted s (w\<lparr>wo_estate := grant_identity slug e\<rparr>)"
proof (cases "s = slug")
  case True
  then show ?thesis by (simp add: granted_after)
next
  case False
  assume "granted s (w\<lparr>wo_estate := e\<rparr>)"
  with False show ?thesis unfolding granted_def by (fastforce dest: identity_readers_layers simp: readers_granted)
qed

lemma granted_readers: "es_readers (wo_estate w') = es_readers (wo_estate w) \<Longrightarrow> granted s w' = granted s w"
  by (simp add: granted_def)

text \<open>A migration grants its tenant when it succeeds, and takes nothing from anybody.\<close>

lemma granted_migrated:
  "apply_tenant menv slug (wo_estate w) = (Inr applied, e) \<Longrightarrow> granted slug (w\<lparr>wo_estate := e\<rparr>)"
  by (auto simp: apply_tenant_Inr granted_after)

lemma granted_tenant_migrated:
  assumes "granted s w" shows "granted s (w\<lparr>wo_estate := snd (apply_tenant menv slug (wo_estate w))\<rparr>)"
proof (cases "fst (apply_tenant menv slug (wo_estate w))")
  case (Inl x)
  then have "es_readers (snd (apply_tenant menv slug (wo_estate w))) = es_readers (wo_estate w)"
    by (auto simp: apply_tenant_def Let_def split: sum.splits prod.splits)
  with assms show ?thesis by (simp add: granted_def)
next
  case (Inr applied)
  then have "apply_tenant menv slug (wo_estate w) = (Inr applied, snd (apply_tenant menv slug (wo_estate w)))" by (simp add: prod_eq_iff)
  then obtain schema vt d where e: "snd (apply_tenant menv slug (wo_estate w)) = grant_identity slug (put_tenant schema vt d (wo_estate w))"
    unfolding apply_tenant_Inr by blast
  show ?thesis unfolding e by (rule granted_other) (use assms in \<open>simp add: granted_def\<close>)
qed

lemma world_ok_migrated:
  "world_ok env w \<Longrightarrow> world_ok env (w\<lparr>wo_estate := snd (apply_tenant menv s (wo_estate w))\<rparr>)"
  by (auto simp: world_ok_def apply_tenant_frame(1) has_bucket_def row_ok_def intro: granted_tenant_migrated)

lemma row_ok_mono:
  "row_ok env w r \<Longrightarrow> (built env (tr_slug r) w \<Longrightarrow> built env (tr_slug r) w') \<Longrightarrow> (granted (tr_slug r) w \<Longrightarrow> granted (tr_slug r) w')
     \<Longrightarrow> (has_bucket env r w \<Longrightarrow> has_bucket env r w') \<Longrightarrow> row_ok env w' r"
  by (simp add: row_ok_def)

lemma set_create_roles: "set (fold (\<lambda>x. create_role (f x)) xs rs) = f ` set xs \<union> set rs"
  by (induction xs arbitrary: rs) (auto simp: create_role_def)

lemma put_identity_other: "(\<forall>x\<in>set xs. n \<noteq> pg_name slug x) \<Longrightarrow> fold (put_identity slug tid) xs idm n = idm n"
  by (induction xs arbitrary: idm) (auto simp: put_identity_def)

lemma put_identity_own:
  assumes "x \<in> set layer_suffixes"
  shows "fold (put_identity slug tid) layer_suffixes idm (pg_name slug x) = Some \<lparr>id_slug = slug, id_tenant = tid, id_layer = tl x\<rparr>"
  using assms by (auto simp: layer_suffixes_def put_identity_def pg_name_def)

lemma provision_schemas_Inr:
  assumes "provision_tenant_schemas slug tid w = Inr w'"
  shows "built env slug w'" "built env s w \<Longrightarrow> built env s w'" "wo_store w' = wo_store w"
    "es_registry (wo_estate w') = es_registry (wo_estate w)"
    "wo_identity w' = fold (put_identity slug tid) layer_suffixes (wo_identity w)"
    "es_readers (wo_estate w') = es_readers (wo_estate w)"
proof -
  show "es_readers (wo_estate w') = es_readers (wo_estate w)"
    using assms by (auto simp: provision_tenant_schemas_def Let_def split: if_splits)
  have w': "wo_roles w' = fold (\<lambda>x. create_role (pg_name slug x)) role_suffixes (wo_roles w)"
    "wo_identity w' = fold (put_identity slug tid) layer_suffixes (wo_identity w)"
    "wo_store w' = wo_store w" "es_registry (wo_estate w') = es_registry (wo_estate w)"
    "es_versions (wo_estate w') (pg_name slug ''_silver'') \<noteq> None"
    "es_versions (wo_estate w) n \<noteq> None \<Longrightarrow> es_versions (wo_estate w') n \<noteq> None" for n
    using assms by (auto simp: provision_tenant_schemas_def Let_def split: if_splits)
  then show own: "built env slug w'" unfolding built_def by (auto simp: set_create_roles put_identity_own)
  show "wo_store w' = wo_store w" "es_registry (wo_estate w') = es_registry (wo_estate w)"
    "wo_identity w' = fold (put_identity slug tid) layer_suffixes (wo_identity w)" by (fact w')+
  assume b: "built env s w"
  show "built env s w'"
  proof (cases "s = slug")
    case False
    have "wo_identity w' (pg_name s x) = wo_identity w (pg_name s x)" if "x \<in> set layer_suffixes" for x
      unfolding w' using pg_name_clash[of s x slug] that False by (intro put_identity_other) blast
    with b w' show ?thesis unfolding built_def by (simp add: set_create_roles)
  qed (use own in simp)
qed

lemma identity_named_put:
  assumes "identity_named idm" shows "identity_named (fold (put_identity slug tid) layer_suffixes idm)"
  unfolding identity_named_def
proof (intro allI impI)
  fix n i assume i: "fold (put_identity slug tid) layer_suffixes idm n = Some i"
  show "n = pg_name (id_slug i) (CHR ''_'' # id_layer i)"
  proof (cases "\<exists>x\<in>set layer_suffixes. n = pg_name slug x")
    case True
    then obtain x where x: "x \<in> set layer_suffixes" "n = pg_name slug x" by blast
    then have "x = CHR ''_'' # tl x" by (auto simp: layer_suffixes_def)
    with put_identity_own[OF x(1), of slug tid idm] x(2) i show ?thesis by auto
  next
    case False
    then have "fold (put_identity slug tid) layer_suffixes idm n = idm n" by (intro put_identity_other) blast
    with assms i show ?thesis by (simp add: identity_named_def)
  qed
qed

lemma register_tenant_Inr:
  assumes "register_tenant slug tid bucket reg = Inr reg'" "distinct (map tr_slug reg)" "distinct (map tr_tenant reg)"
  shows "distinct (map tr_slug reg')" "distinct (map tr_tenant reg')" "slug \<in> tr_slug ` set reg'"
    "\<forall>r\<in>set reg'. tr_slug r = slug \<longrightarrow> tr_bucket r = bucket"
    "\<forall>r\<in>set reg'. tr_slug r \<noteq> slug \<longrightarrow> r \<in> set reg"
    "\<forall>r\<in>set reg'. tr_status r = ''ACTIVE'' \<longrightarrow> (\<exists>r0\<in>set reg. tr_slug r0 = tr_slug r \<and> tr_status r0 = ''ACTIVE'')"
proof -
  let ?f = "\<lambda>r. if tr_slug r = slug
    then r\<lparr>tr_bucket := bucket, tr_status := (if tr_status r = ''ACTIVE'' then ''ACTIVE'' else ''PROVISIONING'')\<rparr> else r"
  have keep: "tr_slug (?f r) = tr_slug r" "tr_tenant (?f r) = tr_tenant r" "tr_status (?f r) = ''ACTIVE'' \<Longrightarrow> tr_status r = ''ACTIVE''" for r
    by (auto split: if_splits)
  let ?P = "distinct (map tr_slug reg') \<and> distinct (map tr_tenant reg') \<and> slug \<in> tr_slug ` set reg'
    \<and> (\<forall>r\<in>set reg'. tr_slug r = slug \<longrightarrow> tr_bucket r = bucket) \<and> (\<forall>r\<in>set reg'. tr_slug r \<noteq> slug \<longrightarrow> r \<in> set reg)
    \<and> (\<forall>r\<in>set reg'. tr_status r = ''ACTIVE'' \<longrightarrow> (\<exists>r0\<in>set reg. tr_slug r0 = tr_slug r \<and> tr_status r0 = ''ACTIVE''))"
  consider (old) "reg' = map ?f reg" "slug \<in> tr_slug ` set reg"
    | (new) "reg' = reg @ [\<lparr>tr_slug = slug, tr_tenant = tid, tr_bucket = bucket, tr_status = ''PROVISIONING'', tr_activated = None\<rparr>]"
        "slug \<notin> tr_slug ` set reg" "tid \<notin> tr_tenant ` set reg"
    using assms(1) by (auto simp: register_tenant_def split: if_splits)
  then have ?P
  proof cases
    case old
    have names: "map tr_slug reg' = map tr_slug reg" "map tr_tenant reg' = map tr_tenant reg" unfolding old(1) by simp_all
    then have "slug \<in> set (map tr_slug reg')" using old(2) by simp
    moreover have "\<exists>r0\<in>set reg. tr_slug r0 = tr_slug r \<and> tr_status r0 = ''ACTIVE''" if "r \<in> set reg'" "tr_status r = ''ACTIVE''" for r
    proof -
      from that(1) obtain r0 where r0: "r0 \<in> set reg" "r = ?f r0" unfolding old(1) set_map by (rule imageE)
      show ?thesis by (rule bexI[OF _ r0(1)], rule conjI, unfold r0(2), rule keep(1)[symmetric], rule keep(3), fold r0(2), rule that(2))
    qed
    moreover have "tr_bucket r = bucket" if "r \<in> set reg'" "tr_slug r = slug" for r
    proof -
      from that(1) obtain r0 where "r = ?f r0" unfolding old(1) set_map by (rule imageE)
      with that(2) keep(1)[of r0] show ?thesis by simp
    qed
    moreover have "r \<in> set reg" if "r \<in> set reg'" "tr_slug r \<noteq> slug" for r
    proof -
      from that(1) obtain r0 where "r0 \<in> set reg" "r = ?f r0" unfolding old(1) set_map by (rule imageE)
      with that(2) keep(1)[of r0] show ?thesis by simp
    qed
    moreover have "distinct (map tr_slug reg')" "distinct (map tr_tenant reg')" unfolding names by (fact assms(2,3))+
    ultimately show ?thesis unfolding set_map by blast
  next
    case new
    then show ?thesis using assms(2,3) by auto
  qed
  then show "distinct (map tr_slug reg')" "distinct (map tr_tenant reg')" "slug \<in> tr_slug ` set reg'"
    "\<forall>r\<in>set reg'. tr_slug r = slug \<longrightarrow> tr_bucket r = bucket" "\<forall>r\<in>set reg'. tr_slug r \<noteq> slug \<longrightarrow> r \<in> set reg"
    "\<forall>r\<in>set reg'. tr_status r = ''ACTIVE'' \<longrightarrow> (\<exists>r0\<in>set reg. tr_slug r0 = tr_slug r \<and> tr_status r0 = ''ACTIVE'')" by blast+
qed

lemma ensure_bucket_Inr:
  assumes "ensure_bucket cfg s st0 = Inr (b, st)"
  shows "map_of (buckets st) b \<noteq> None" "map_of (buckets st0) n \<noteq> None \<Longrightarrow> map_of (buckets st) n \<noteq> None"
proof -
  from assms obtain x where "(if map_of (buckets st0) x \<noteq> None then Inr (x, st0) else Inr (x, st0\<lparr>buckets := (x, True) # buckets st0\<rparr>)) = (Inr (b, st) :: exc + string \<times> s3)"
    by (auto simp: ensure_bucket_def rbind_eq_Inr_iff)
  then have "b = x" "st = (if map_of (buckets st0) b \<noteq> None then st0 else st0\<lparr>buckets := (b, True) # buckets st0\<rparr>)"
    by (cases "map_of (buckets st0) x = None"; simp)+
  then show "map_of (buckets st) b \<noteq> None" "map_of (buckets st0) n \<noteq> None \<Longrightarrow> map_of (buckets st) n \<noteq> None" by auto
qed

lemma bucket_step_Inr:
  assumes "bucket_step env slug w = Inr (b, w1)"
  shows "wo_estate w1 = wo_estate w" "wo_roles w1 = wo_roles w" "wo_identity w1 = wo_identity w"
    "pv_store env = None \<or> map_of (buckets (wo_store w1)) b \<noteq> None"
    "map_of (buckets (wo_store w)) n \<noteq> None \<Longrightarrow> map_of (buckets (wo_store w1)) n \<noteq> None"
proof -
  have "wo_estate w1 = wo_estate w \<and> wo_roles w1 = wo_roles w \<and> wo_identity w1 = wo_identity w
    \<and> (pv_store env = None \<or> map_of (buckets (wo_store w1)) b \<noteq> None)
    \<and> (map_of (buckets (wo_store w)) n \<noteq> None \<longrightarrow> map_of (buckets (wo_store w1)) n \<noteq> None)" for n
  proof (cases "pv_store env")
    case None
    then show ?thesis using assms by (auto simp: bucket_step_def rbind_eq_Inr_iff)
  next
    case (Some cfg)
    with assms obtain st where st: "ensure_bucket cfg slug (wo_store w) = Inr (b, st)" and w1: "w1 = w\<lparr>wo_store := st\<rparr>"
      by (auto simp: bucket_step_def rbind_eq_Inr_iff)
    have "map_of (buckets st) b \<noteq> None \<and> (map_of (buckets (wo_store w)) n \<noteq> None \<longrightarrow> map_of (buckets st) n \<noteq> None)"
      using ensure_bucket_Inr[OF st] by blast
    with w1 show ?thesis by simp
  qed
  then show "wo_estate w1 = wo_estate w" "wo_roles w1 = wo_roles w" "wo_identity w1 = wo_identity w"
    "pv_store env = None \<or> map_of (buckets (wo_store w1)) b \<noteq> None"
    "map_of (buckets (wo_store w)) n \<noteq> None \<Longrightarrow> map_of (buckets (wo_store w1)) n \<noteq> None" by blast+
qed

lemma schemas_transaction_ok:
  assumes ok: "world_ok env w1" and run: "schemas_transaction lost slug tid bucket w1 = Inr w2"
    and bucket: "pv_store env = None \<or> map_of (buckets (wo_store w1)) bucket \<noteq> None"
  shows "world_ok env w2" "built env slug w2" "\<forall>r\<in>set (es_registry (wo_estate w2)). tr_slug r = slug \<longrightarrow> has_bucket env r w2"
    "slug \<in> tr_slug ` set (es_registry (wo_estate w2))"
proof -
  from run obtain reg where reg: "register_tenant slug tid bucket (es_registry (wo_estate w1)) = Inr reg"
    and prov: "provision_tenant_schemas slug tid (w1\<lparr>wo_estate := (wo_estate w1)\<lparr>es_registry := reg\<rparr>\<rparr>) = Inr w2"
    by (auto simp: schemas_transaction_def rbind_eq_Inr_iff split: option.splits)
  let ?w = "w1\<lparr>wo_estate := (wo_estate w1)\<lparr>es_registry := reg\<rparr>\<rparr>"
  note p = provision_schemas_Inr[OF prov]
  have dis: "distinct (map tr_slug (es_registry (wo_estate w1)))" "distinct (map tr_tenant (es_registry (wo_estate w1)))"
    using ok by (simp_all add: world_ok_def)
  note r = register_tenant_Inr[OF reg dis]
  have same: "es_registry (wo_estate w2) = reg" "wo_store w2 = wo_store w1" using p(3,4) by simp_all
  show built: "built env slug w2" by (rule p(1))
  show own: "\<forall>x\<in>set (es_registry (wo_estate w2)). tr_slug x = slug \<longrightarrow> has_bucket env x w2"
    using r(4) bucket same by (auto simp: has_bucket_def)
  show "slug \<in> tr_slug ` set (es_registry (wo_estate w2))" using r(3) same by simp
  have readers: "es_readers (wo_estate w2) = es_readers (wo_estate w1)" using p(6) by simp
  have rows: "row_ok env w2 x" if x: "x \<in> set reg" for x
  proof (cases "tr_slug x = slug")
    case True
    have "granted slug w2" if "tr_status x = ''ACTIVE''"
    proof -
      from r(6) x that obtain r0 where r0: "r0 \<in> set (es_registry (wo_estate w1))" "tr_slug r0 = tr_slug x" "tr_status r0 = ''ACTIVE''" by blast
      with ok have "row_ok env w1 r0" unfolding world_ok_def by blast
      with r0 True have "granted slug w1" by (simp add: row_ok_def)
      then show ?thesis by (simp add: granted_def readers)
    qed
    then show ?thesis using True built own x same by (simp add: row_ok_def)
  next
    case False
    with x r(5) have "x \<in> set (es_registry (wo_estate w1))" by blast
    with ok have "row_ok env w1 x" unfolding world_ok_def by blast
    then show ?thesis
    proof (rule row_ok_mono)
      assume "built env (tr_slug x) w1"
      then have "built env (tr_slug x) ?w" by (simp add: built_def)
      then show "built env (tr_slug x) w2" by (rule p(2))
    qed (simp_all add: has_bucket_def same granted_def readers)
  qed
  have "identity_named (wo_identity w1)" using ok unfolding world_ok_def by blast
  then have "identity_named (wo_identity w2)" using identity_named_put[of "wo_identity w1" slug tid] p(5) by simp
  with rows r(1,2) show "world_ok env w2" unfolding world_ok_def same(1) by blast
qed

section \<open>The invariant\<close>

lemma built_estate_registry [simp]: "built env s (set_status slug f w) = built env s w"
  by (simp add: built_def set_status_def)

lemma set_status_registry:
  "es_registry (wo_estate (set_status slug f w)) = map (\<lambda>r. if tr_slug r = slug then f r else r) (es_registry (wo_estate w))"
  "wo_identity (set_status slug f w) = wo_identity w" "wo_store (set_status slug f w) = wo_store w"
  "granted s (set_status slug f w) = granted s w"
  by (simp_all add: set_status_def granted_def)

lemma world_ok_set_status:
  assumes ok: "world_ok env w" and names: "\<And>r. tr_slug (f r) = tr_slug r" "\<And>r. tr_tenant (f r) = tr_tenant r" "\<And>r. tr_bucket (f r) = tr_bucket r"
    and own: "\<And>r. r \<in> set (es_registry (wo_estate w)) \<Longrightarrow> tr_slug r = slug \<Longrightarrow> row_ok env w (f r)"
  shows "world_ok env (set_status slug f w)"
proof -
  let ?f = "\<lambda>r. if tr_slug r = slug then f r else r"
  let ?w = "set_status slug f w"
  have keep: "map tr_slug (map ?f rs) = map tr_slug rs" "map tr_tenant (map ?f rs) = map tr_tenant rs" for rs by (simp_all add: names)
  have parts: "distinct (map tr_slug (es_registry (wo_estate w)))" "distinct (map tr_tenant (es_registry (wo_estate w)))"
    "identity_named (wo_identity w)" "\<And>r. r \<in> set (es_registry (wo_estate w)) \<Longrightarrow> row_ok env w r"
    using ok unfolding world_ok_def by blast+
  have "row_ok env ?w (?f r)" if "r \<in> set (es_registry (wo_estate w))" for r
  proof -
    have "row_ok env w (?f r)" using parts(4)[OF that] own[OF that] by simp
    then show ?thesis by (rule row_ok_mono) (simp_all add: has_bucket_def set_status_registry)
  qed
  then have "\<forall>r\<in>set (map ?f (es_registry (wo_estate w))). row_ok env ?w r" unfolding set_map by (intro ballI) (erule imageE, simp only:)
  with parts(1-3) show ?thesis unfolding world_ok_def set_status_registry keep by blast
qed

lemma world_ok_provision:
  assumes ok: "world_ok env w" shows "world_ok env (snd (provision env now lost fresh slug tenant w))"
proof (cases "rbind (validate_slug slug) (\<lambda>_. bucket_step env slug w)")
  case (Inl x)
  then show ?thesis using ok by (simp add: provision_def Let_def)
next
  case (Inr z)
  obtain b w1 where z: "z = (b, w1)" by (cases z)
  let ?tid = "case tenant of Some t \<Rightarrow> t | None \<Rightarrow> fresh"
  from Inr z have "bucket_step env slug w = Inr (b, w1)" by (auto simp: rbind_eq_Inr_iff)
  note bucket = bucket_step_Inr[OF this]
  have ok1: "world_ok env w1"
  proof -
    have "row_ok env w1 r" if "row_ok env w r" for r
      using that by (rule row_ok_mono) (use bucket in \<open>auto simp: built_def has_bucket_def granted_def\<close>)
    with ok show ?thesis unfolding world_ok_def bucket(1,3) by blast
  qed
  show ?thesis
  proof (cases "schemas_transaction (lost 2) slug ?tid b w1")
    case (Inl x)
    then show ?thesis using Inr z ok1 by (simp add: provision_def Let_def)
  next
    case two: (Inr w2)
    note t = schemas_transaction_ok[OF ok1 two bucket(4)]
    let ?w3 = "w2\<lparr>wo_estate := snd (apply_tenant (pv_migrate env) slug (wo_estate w2))\<rparr>"
    have ok3: "world_ok env ?w3" by (rule world_ok_migrated[OF t(1)])
    have "world_ok env (activate slug now ?w3)" if "apply_tenant (pv_migrate env) slug (wo_estate w2) = (Inr applied, e3)" for applied e3
      unfolding activate_def
    proof (rule world_ok_set_status[OF ok3])
      fix r assume "r \<in> set (es_registry (wo_estate ?w3))" "tr_slug r = slug"
      with t(3) have "has_bucket env r ?w3" by (simp add: apply_tenant_frame(1) has_bucket_def)
      then have "has_bucket env (r\<lparr>tr_status := ''ACTIVE'', tr_activated := Some now\<rparr>) ?w3" by (simp add: has_bucket_def)
      moreover have "granted slug ?w3" using granted_migrated[OF that] that by simp
      ultimately show "row_ok env ?w3 (r\<lparr>tr_status := ''ACTIVE'', tr_activated := Some now\<rparr>)"
        using t(2) \<open>tr_slug r = slug\<close> by (simp add: row_ok_def)
    qed simp_all
    then show ?thesis using Inr z two ok3
      by (auto simp: provision_def Let_def split: prod.splits sum.splits option.splits)
  qed
qed

lemma autocommit_invariant:
  "\<forall>s\<in>set ss. \<forall>w. P w \<longrightarrow> P (s w) \<Longrightarrow> P w \<Longrightarrow> P (snd (autocommit lost n ss w))"
  by (induction ss arbitrary: n w) (auto split: option.splits)

text \<open>Taking down what belongs to a tenant that is not ACTIVE.\<close>

definition inactive :: "string \<Rightarrow> 'd world \<Rightarrow> bool" where
  "inactive slug w \<longleftrightarrow> (\<forall>r\<in>set (es_registry (wo_estate w)). tr_slug r = slug \<longrightarrow> tr_status r \<noteq> ''ACTIVE'')"

lemma built_other:
  assumes "s \<noteq> slug" "built env s w" "x \<in> set layer_suffixes" "y \<in> set role_suffixes"
  shows "built env s (drop_schema env (pg_name slug x) w)" "built env s (drop_role (pg_name slug y) w)"
    "granted s w \<Longrightarrow> granted s (drop_schema env (pg_name slug x) w)"
proof -
  have "pg_name s z \<noteq> pg_name slug x" if "z \<in> set layer_suffixes" for z
    using layer_suffix_clash[OF _ that assms(3)] assms(1) by blast
  then show "granted s w \<Longrightarrow> granted s (drop_schema env (pg_name slug x) w)"
    unfolding granted_def by (fastforce dest: identity_readers_layers simp: drop_schema_def)
  have n: "pg_name s z \<noteq> pg_name slug u" if "z \<in> set layer_suffixes \<union> set role_suffixes" "u \<in> set layer_suffixes \<union> set role_suffixes" for z u
    using pg_name_clash[OF _ that] assms(1) by blast
  have "''_silver'' \<in> set layer_suffixes" by (simp add: layer_suffixes_def)
  then have "pg_name s ''_silver'' \<noteq> pg_name slug x" using n[of "''_silver''" x] assms(3) by blast
  then show "built env s (drop_schema env (pg_name slug x) w)"
    using assms(2,3) n unfolding built_def drop_schema_def by simp
  show "built env s (drop_role (pg_name slug y) w)"
    using assms(2,4) n unfolding built_def drop_role_def by simp
qed

lemma drop_ok:
  assumes "world_ok env w \<and> inactive slug w" "x \<in> set layer_suffixes" "y \<in> set role_suffixes"
  shows "world_ok env (drop_schema env (pg_name slug x) w) \<and> inactive slug (drop_schema env (pg_name slug x) w)"
    "world_ok env (drop_role (pg_name slug y) w) \<and> inactive slug (drop_role (pg_name slug y) w)"
    "world_ok env (delete_tenant slug w) \<and> inactive slug (delete_tenant slug w)"
proof -
  have parts: "distinct (map tr_slug (es_registry (wo_estate w)))" "distinct (map tr_tenant (es_registry (wo_estate w)))"
    "identity_named (wo_identity w)" "\<And>r. r \<in> set (es_registry (wo_estate w)) \<Longrightarrow> row_ok env w r" "inactive slug w"
    using assms(1) unfolding world_ok_def by blast+
  have keep: "row_ok env w' r" if "r \<in> set (es_registry (wo_estate w))"
      "\<And>s. s \<noteq> slug \<Longrightarrow> built env s w \<Longrightarrow> built env s w' \<and> (granted s w \<longrightarrow> granted s w')" "wo_store w' = wo_store w" for w' r
  proof (cases "tr_slug r = slug")
    case True
    with parts(5) that(1) show ?thesis by (simp add: inactive_def row_ok_def)
  next
    case False
    show ?thesis unfolding row_ok_def has_bucket_def
      by (rule impI) (use parts(4)[OF that(1)] that(2)[OF False] that(3) in \<open>simp add: row_ok_def has_bucket_def\<close>)
  qed
  have frames: "es_registry (wo_estate (drop_schema env (pg_name slug x) w)) = es_registry (wo_estate w)"
    "es_registry (wo_estate (drop_role (pg_name slug y) w)) = es_registry (wo_estate w)"
    "wo_identity (drop_role (pg_name slug y) w) = wo_identity w" "wo_identity (delete_tenant slug w) = wo_identity w"
    "wo_store (drop_schema env (pg_name slug x) w) = wo_store w" "wo_store (drop_role (pg_name slug y) w) = wo_store w"
    "wo_store (delete_tenant slug w) = wo_store w" "built env s (delete_tenant slug w) = built env s w"
    "granted s (delete_tenant slug w) = granted s w" "granted s (drop_role (pg_name slug y) w) = granted s w" for s
    by (simp_all add: drop_schema_def drop_role_def delete_tenant_def built_def granted_def)
  have idm: "identity_named (wo_identity (drop_schema env (pg_name slug x) w))"
    using parts(3) by (simp add: identity_named_def drop_schema_def)
  have "row_ok env (drop_schema env (pg_name slug x) w) r" if "r \<in> set (es_registry (wo_estate w))" for r
    using that built_other(1,3)[OF _ _ assms(2,3)] frames(5) by (intro keep) blast+
  with parts idm show "world_ok env (drop_schema env (pg_name slug x) w) \<and> inactive slug (drop_schema env (pg_name slug x) w)"
    unfolding world_ok_def inactive_def frames by blast
  have "row_ok env (drop_role (pg_name slug y) w) r" if "r \<in> set (es_registry (wo_estate w))" for r
    using that built_other(2)[OF _ _ assms(2,3)] frames(6,10) by (intro keep) blast+
  with parts show "world_ok env (drop_role (pg_name slug y) w) \<and> inactive slug (drop_role (pg_name slug y) w)"
    unfolding world_ok_def inactive_def frames by blast
  have "row_ok env (delete_tenant slug w) r" if "r \<in> set (es_registry (wo_estate w))" for r
    using that by (rule keep) (simp_all add: frames)
  moreover have reg: "es_registry (wo_estate (delete_tenant slug w)) = filter (\<lambda>r. tr_slug r \<noteq> slug) (es_registry (wo_estate w))"
    by (simp add: delete_tenant_def)
  moreover have "inactive slug (delete_tenant slug w)" by (simp add: inactive_def reg)
  ultimately show "world_ok env (delete_tenant slug w) \<and> inactive slug (delete_tenant slug w)"
    using parts(1-3) unfolding world_ok_def frames reg by (simp add: distinct_map_filter)
qed

lemma world_ok_deprovision:
  assumes ok: "world_ok env w" shows "world_ok env (snd (deprovision env lost slug dr w))"
proof (cases "validate_slug slug")
  case (Inr u)
  let ?f = "\<lambda>r. r\<lparr>tr_status := ''DEPROVISIONED''\<rparr>"
  let ?w = "set_status slug ?f w"
  have "world_ok env ?w" by (rule world_ok_set_status[OF ok]) (simp_all add: row_ok_def)
  moreover have "inactive slug ?w" unfolding inactive_def set_status_registry set_map
  proof (intro ballI impI, elim imageE)
    fix r r0 assume "tr_slug r = slug" "r = (if tr_slug r0 = slug then ?f r0 else r0)"
    then have "r = ?f r0" by (cases "tr_slug r0 = slug") simp_all
    then show "tr_status r \<noteq> ''ACTIVE''" by simp
  qed
  ultimately have start: "world_ok env ?w \<and> inactive slug ?w" by blast
  have x0: "''_silver'' \<in> set layer_suffixes" "''_recon'' \<in> set role_suffixes" by (simp_all add: layer_suffixes_def role_suffixes_def)
  let ?rest = "tl (deprovision_statements env slug dr)"
  have "\<forall>s\<in>set ?rest. \<forall>w. world_ok env w \<and> inactive slug w \<longrightarrow> world_ok env (s w) \<and> inactive slug (s w)"
  proof (intro ballI allI impI)
    fix s v assume s: "s \<in> set ?rest" and v: "world_ok env v \<and> inactive slug v"
    from s consider "s = delete_tenant slug" | x where "x \<in> set layer_suffixes" "s = drop_schema env (pg_name slug x)"
      | y where "y \<in> set role_suffixes" "s = drop_role (pg_name slug y)"
      by (auto simp: deprovision_statements_def split: if_splits)
    then show "world_ok env (s v) \<and> inactive slug (s v)"
    proof cases
      case 1 then show ?thesis using drop_ok(3)[OF v x0] by simp
    next
      case 2 then show ?thesis using drop_ok(1)[OF v _ x0(2)] by simp
    next
      case 3 then show ?thesis using drop_ok(2)[OF v x0(1)] by simp
    qed
  qed
  then have "world_ok env (snd (autocommit lost n ?rest ?w)) \<and> inactive slug (snd (autocommit lost n ?rest ?w))" for n
    using start by (rule autocommit_invariant[where P = "\<lambda>w. world_ok env w \<and> inactive slug w"])
  note inv = this
  have stmts: "deprovision_statements env slug dr = set_status slug ?f # ?rest" by (simp add: deprovision_statements_def)
  have "snd (autocommit lost 1 (set_status slug ?f # ?rest) w) = (case lost 1 of Some x \<Rightarrow> w | None \<Rightarrow> snd (autocommit lost (Suc 1) ?rest ?w))"
    by (simp split: option.split)
  then have "snd (deprovision env lost slug dr w) = (case lost 1 of Some x \<Rightarrow> w | None \<Rightarrow> snd (autocommit lost (Suc 1) ?rest ?w))"
    unfolding deprovision_def Inr sum.case stmts[symmetric] .
  then show ?thesis using inv[of "Suc 1"] ok by (cases "lost 1") simp_all
qed (simp add: deprovision_def ok)

lemma world_ok_step: "world_step env w w' \<Longrightarrow> world_ok env w \<Longrightarrow> world_ok env w'"
  by (induction rule: world_step.induct) (auto intro: world_ok_provision world_ok_deprovision world_ok_migrated)

lemma world_ok_reachable: "(world_step env)\<^sup>*\<^sup>* w w' \<Longrightarrow> world_ok env w \<Longrightarrow> world_ok env w'"
  by (induction rule: rtranclp_induct) (auto intro: world_ok_step)

section \<open>Properties\<close>

lemma fresh_world_ok: "es_registry (wo_estate w0) = [] \<Longrightarrow> wo_identity w0 = (\<lambda>n. None) \<Longrightarrow> world_ok env w0"
  by (simp add: world_ok_def identity_named_def)

section \<open>Ids that stay\<close>

text \<open>
  A provisioning keeps the id of a registered slug when it is given, or draws, the registered one. Without that
  the two drift apart (\<open>reprovision_splits_identity\<close> below).
\<close>

definition keeps_id :: "string \<Rightarrow> uuid \<Rightarrow> 'd world \<Rightarrow> bool" where
  "keeps_id slug tid w \<longleftrightarrow> (\<forall>r\<in>set (es_registry (wo_estate w)). tr_slug r = slug \<longrightarrow> tr_tenant r = tid)"

inductive careful_step :: "'d provision_env \<Rightarrow> 'd world \<Rightarrow> 'd world \<Rightarrow> bool" for env :: "'d provision_env" where
  careful_provisioned: "keeps_id slug (case tenant of Some t \<Rightarrow> t | None \<Rightarrow> fresh) w
    \<Longrightarrow> careful_step env w (snd (provision env now lost fresh slug tenant w))"
| careful_deprovisioned: "careful_step env w (snd (deprovision env lost slug dr w))"
| careful_migrated: "careful_step env w (w\<lparr>wo_estate := snd (apply_tenant (pv_migrate env) slug (wo_estate w))\<rparr>)"

lemma careful_world: "careful_step env w w' \<Longrightarrow> world_step env w w'"
  by (induction rule: careful_step.induct) (auto intro: world_step.intros)

lemma careful_worlds: "(careful_step env)\<^sup>*\<^sup>* w w' \<Longrightarrow> (world_step env)\<^sup>*\<^sup>* w w'"
  by (induction rule: rtranclp_induct) (auto dest: careful_world)

definition registered_ids :: "'d world \<Rightarrow> (string \<times> uuid) set" where
  "registered_ids w = (\<lambda>r. (tr_slug r, tr_tenant r)) ` set (es_registry (wo_estate w))"

text \<open>Every identity is that of a registered tenant, in the schema of that tenant and layer.\<close>

definition identity_registered :: "'d world \<Rightarrow> bool" where
  "identity_registered w \<longleftrightarrow> (\<forall>n i. wo_identity w n = Some i \<longrightarrow>
     (id_slug i, id_tenant i) \<in> registered_ids w \<and> (\<exists>x\<in>set layer_suffixes. n = pg_name (id_slug i) x \<and> id_layer i = tl x))"

lemma identity_registered_mono:
  "identity_registered w \<Longrightarrow> (\<And>n i. wo_identity w' n = Some i \<Longrightarrow> wo_identity w n = Some i) \<Longrightarrow> registered_ids w \<subseteq> registered_ids w'
     \<Longrightarrow> identity_registered w'"
  unfolding identity_registered_def by blast

lemma registered_set_status:
  assumes "\<And>r. tr_slug (f r) = tr_slug r" "\<And>r. tr_tenant (f r) = tr_tenant r"
  shows "registered_ids (set_status slug f w) = registered_ids w"
proof -
  have "(tr_slug (if tr_slug r = slug then f r else r), tr_tenant (if tr_slug r = slug then f r else r)) = (tr_slug r, tr_tenant r)" for r
    using assms by simp
  then show ?thesis unfolding registered_ids_def set_status_registry set_map image_image by (rule image_cong[OF refl])
qed

lemma register_tenant_ids:
  assumes "register_tenant slug tid bucket reg = Inr reg'" "\<forall>r\<in>set reg. tr_slug r = slug \<longrightarrow> tr_tenant r = tid"
  shows "(\<lambda>r. (tr_slug r, tr_tenant r)) ` set reg \<subseteq> (\<lambda>r. (tr_slug r, tr_tenant r)) ` set reg'"
    and "(slug, tid) \<in> (\<lambda>r. (tr_slug r, tr_tenant r)) ` set reg'"
proof -
  let ?id = "\<lambda>r. (tr_slug r, tr_tenant r)"
  let ?f = "\<lambda>r. if tr_slug r = slug
    then r\<lparr>tr_bucket := bucket, tr_status := (if tr_status r = ''ACTIVE'' then ''ACTIVE'' else ''PROVISIONING'')\<rparr> else r"
  have ids: "?id (?f r) = ?id r" for r by (cases "tr_slug r = slug") simp_all
  consider (old) "reg' = map ?f reg" "slug \<in> tr_slug ` set reg"
    | (new) "reg' = reg @ [\<lparr>tr_slug = slug, tr_tenant = tid, tr_bucket = bucket, tr_status = ''PROVISIONING'', tr_activated = None\<rparr>]"
    using assms(1) by (auto simp: register_tenant_def split: if_splits)
  then have "?id ` set reg \<subseteq> ?id ` set reg' \<and> (slug, tid) \<in> ?id ` set reg'"
  proof cases
    case old
    then obtain r where "r \<in> set reg" "tr_slug r = slug" by blast
    then have "?id r \<in> ?id ` set reg" "?id r = (slug, tid)" using assms(2) by auto
    moreover have "?id ` set reg' = ?id ` set reg" unfolding old(1) set_map image_image ids ..
    ultimately show ?thesis by simp
  qed auto
  then show "?id ` set reg \<subseteq> ?id ` set reg'" "(slug, tid) \<in> ?id ` set reg'" by blast+
qed

lemma registered_provision:
  assumes "identity_registered w" "keeps_id slug (case tenant of Some t \<Rightarrow> t | None \<Rightarrow> fresh) w"
  shows "identity_registered (snd (provision env now lost fresh slug tenant w))"
proof (cases "rbind (validate_slug slug) (\<lambda>_. bucket_step env slug w)")
  case (Inl x)
  then show ?thesis using assms(1) by (simp add: provision_def Let_def)
next
  case (Inr z)
  obtain b w1 where z: "z = (b, w1)" by (cases z)
  let ?tid = "case tenant of Some t \<Rightarrow> t | None \<Rightarrow> fresh"
  from Inr z have "bucket_step env slug w = Inr (b, w1)" by (auto simp: rbind_eq_Inr_iff)
  note bucket = bucket_step_Inr[OF this]
  have ok1: "identity_registered w1" using assms(1) by (simp add: identity_registered_def registered_ids_def bucket)
  show ?thesis
  proof (cases "schemas_transaction (lost 2) slug ?tid b w1")
    case (Inl x)
    then show ?thesis using Inr z ok1 by (simp add: provision_def Let_def)
  next
    case two: (Inr w2)
    then obtain reg where reg: "register_tenant slug ?tid b (es_registry (wo_estate w1)) = Inr reg"
      and prov: "provision_tenant_schemas slug ?tid (w1\<lparr>wo_estate := (wo_estate w1)\<lparr>es_registry := reg\<rparr>\<rparr>) = Inr w2"
      by (auto simp: schemas_transaction_def rbind_eq_Inr_iff split: option.splits)
    have keep: "\<forall>r\<in>set (es_registry (wo_estate w1)). tr_slug r = slug \<longrightarrow> tr_tenant r = ?tid"
      using assms(2) unfolding keeps_id_def bucket(1) .
    note ids = register_tenant_ids[OF reg keep]
    have same: "wo_identity w2 = fold (put_identity slug ?tid) layer_suffixes (wo_identity w1)" "es_registry (wo_estate w2) = reg"
      using provision_schemas_Inr(4,5)[OF prov] by simp_all
    have ok2: "identity_registered w2" unfolding identity_registered_def
    proof (intro allI impI)
      fix n i assume i: "wo_identity w2 n = Some i"
      show "(id_slug i, id_tenant i) \<in> registered_ids w2 \<and> (\<exists>x\<in>set layer_suffixes. n = pg_name (id_slug i) x \<and> id_layer i = tl x)"
      proof (cases "\<exists>x\<in>set layer_suffixes. n = pg_name slug x")
        case True
        then obtain x where x: "x \<in> set layer_suffixes" "n = pg_name slug x" by blast
        from put_identity_own[OF x(1), of slug ?tid "wo_identity w1"] i
        have "i = \<lparr>id_slug = slug, id_tenant = ?tid, id_layer = tl x\<rparr>" by (simp add: same(1) x(2))
        with x ids(2) show ?thesis by (auto simp: registered_ids_def same(2))
      next
        case False
        then have "wo_identity w1 n = Some i" using i put_identity_other[of layer_suffixes n slug] by (simp add: same(1))
        with ok1 ids(1) show ?thesis unfolding identity_registered_def registered_ids_def same(2) by blast
      qed
    qed
    let ?w3 = "w2\<lparr>wo_estate := snd (apply_tenant (pv_migrate env) slug (wo_estate w2))\<rparr>"
    have ok3: "identity_registered ?w3" using ok2 by (simp add: identity_registered_def registered_ids_def apply_tenant_frame(1))
    have "registered_ids (activate slug now ?w3) = registered_ids ?w3" unfolding activate_def by (rule registered_set_status) simp_all
    with ok3 have "identity_registered (activate slug now ?w3)"
      by (simp add: identity_registered_def activate_def set_status_registry)
    then show ?thesis using Inr z two ok3
      by (auto simp: provision_def Let_def split: prod.splits sum.splits option.splits)
  qed
qed

text \<open>The registry row goes last: by then the schemas are gone.\<close>

lemma autocommit_last:
  "snd (autocommit lost n (ss @ [s]) w) = snd (autocommit lost n ss w) \<or> snd (autocommit lost n (ss @ [s]) w) = s (fold (\<lambda>f w. f w) ss w)"
  by (induction ss arbitrary: n w) (auto split: option.splits)

lemma fold_invariant: "\<forall>s\<in>set ss. \<forall>w. P w \<longrightarrow> P (s w) \<Longrightarrow> P w \<Longrightarrow> P (fold (\<lambda>f w. f w) ss w)"
  by (induction ss arbitrary: w) simp_all

lemma dropped_identity:
  "wo_identity (fold (\<lambda>f w. f w) (map (\<lambda>x. drop_schema env (pg_name slug x)) xs) w) n = (if n \<in> pg_name slug ` set xs then None else wo_identity w n)"
  "wo_identity (fold (\<lambda>f w. f w) (map (\<lambda>x. drop_role (pg_name slug x)) xs) w) = wo_identity w"
  by (induction xs arbitrary: w) (auto simp: drop_schema_def drop_role_def)

lemma registered_deprovision:
  fixes w :: "'d world"
  assumes "identity_registered w" shows "identity_registered (snd (deprovision env lost slug dr w))"
proof (cases "validate_slug slug")
  case (Inr u)
  let ?start = "set_status slug (\<lambda>r. r\<lparr>tr_status := ''DEPROVISIONED''\<rparr>) :: 'd world \<Rightarrow> 'd world"
  let ?schemas = "map (\<lambda>x. drop_schema env (pg_name slug x)) layer_suffixes"
  let ?roles = "map (\<lambda>x. drop_role (pg_name slug x)) role_suffixes"
  let ?ss = "?start # ?schemas @ ?roles"
  have set: "identity_registered (?start w)" if "identity_registered w" for w :: "'d world"
  proof -
    have "registered_ids (?start w) = registered_ids w" by (rule registered_set_status) simp_all
    with that show ?thesis by (simp add: identity_registered_def set_status_registry)
  qed
  have keep: "\<forall>s\<in>set ?ss. \<forall>w. identity_registered w \<longrightarrow> identity_registered (s w)"
  proof (intro ballI allI impI)
    fix s and v :: "'d world" assume s: "s \<in> set ?ss" and v: "identity_registered v"
    from s consider "s = ?start" | x where "s = drop_schema env (pg_name slug x)" | y where "s = drop_role (pg_name slug y)" by auto
    then show "identity_registered (s v)"
    proof cases
      case 1 then show ?thesis using set[OF v] by simp
    next
      case 2
      show ?thesis by (rule identity_registered_mono[OF v]) (auto simp: 2 drop_schema_def registered_ids_def split: if_splits)
    next
      case 3
      show ?thesis by (rule identity_registered_mono[OF v]) (auto simp: 3 drop_role_def registered_ids_def)
    qed
  qed
  show ?thesis
  proof (cases dr)
    case True
    obtain v where v_eq: "v = fold (\<lambda>f w. f w) ?ss w" by blast
    have v: "identity_registered v" unfolding v_eq by (rule fold_invariant[where P = identity_registered, OF keep assms])
    have dropped: "wo_identity v n = (if n \<in> pg_name slug ` set layer_suffixes then None else wo_identity w n)" for n
      unfolding v_eq by (simp only: fold_simps fold_append comp_apply dropped_identity set_status_registry)
    have gone: "id_slug i \<noteq> slug" if i: "wo_identity v n = Some i" for n i
    proof
      assume "id_slug i = slug"
      moreover from v i obtain x where "x \<in> set layer_suffixes" "n = pg_name (id_slug i) x"
        unfolding identity_registered_def by blast
      ultimately have "n \<in> pg_name slug ` set layer_suffixes" by blast
      with i dropped[of n] show False by simp
    qed
    have last: "identity_registered (delete_tenant slug v)"
      unfolding identity_registered_def
    proof (intro allI impI)
      fix n i assume "wo_identity (delete_tenant slug v) n = Some i"
      then have i: "wo_identity v n = Some i" by (simp add: delete_tenant_def)
      with v have "(id_slug i, id_tenant i) \<in> registered_ids v" "\<exists>x\<in>set layer_suffixes. n = pg_name (id_slug i) x \<and> id_layer i = tl x"
        unfolding identity_registered_def by blast+
      with gone[OF i] show "(id_slug i, id_tenant i) \<in> registered_ids (delete_tenant slug v)
          \<and> (\<exists>x\<in>set layer_suffixes. n = pg_name (id_slug i) x \<and> id_layer i = tl x)"
        by (auto simp: registered_ids_def delete_tenant_def)
    qed
    have "deprovision_statements env slug dr = ?ss @ [delete_tenant slug]" using True by (simp add: deprovision_statements_def)
    then have run: "snd (deprovision env lost slug dr w) = snd (autocommit lost 1 (?ss @ [delete_tenant slug]) w)"
      by (simp only: deprovision_def Inr sum.case)
    have "identity_registered (snd (autocommit lost 1 ?ss w))"
      by (rule autocommit_invariant[where P = identity_registered, OF keep assms])
    with last show ?thesis unfolding run v_eq using autocommit_last[of lost 1 ?ss "delete_tenant slug" w]
      by (elim disjE) simp_all
  next
    case False
    then have "deprovision_statements env slug dr = [?start]" by (simp add: deprovision_statements_def)
    then show ?thesis using set[OF assms] assms by (auto simp: deprovision_def Inr split: option.splits)
  qed
qed (simp add: deprovision_def assms)

lemma registered_reachable:
  "(careful_step env)\<^sup>*\<^sup>* w w' \<Longrightarrow> identity_registered w \<Longrightarrow> identity_registered w'"
proof (induction rule: rtranclp_induct)
  case (step y z)
  note y = step.IH[OF step.prems]
  from step.hyps(2) show ?case
  proof (cases rule: careful_step.cases)
    case careful_provisioned
    with registered_provision[OF y] show ?thesis by simp
  next
    case careful_deprovisioned
    with registered_deprovision[OF y] show ?thesis by simp
  next
    case careful_migrated
    with y show ?thesis by (simp add: identity_registered_def registered_ids_def apply_tenant_frame(1))
  qed
qed


lemma provision_Inr:
  assumes "provision env now lost fresh slug tenant w = (Inr t, w')"
  shows "\<exists>b w1 w2 e3. bucket_step env slug w = Inr (b, w1)
    \<and> schemas_transaction (lost 2) slug (case tenant of Some t \<Rightarrow> t | None \<Rightarrow> fresh) b w1 = Inr w2
    \<and> apply_tenant (pv_migrate env) slug (wo_estate w2) = (Inr (pt_applied t), e3)
    \<and> w' = activate slug now (w2\<lparr>wo_estate := e3\<rparr>) \<and> pt_slug t = slug \<and> pt_bucket t = b
    \<and> pt_tenant t = (case tenant of Some t \<Rightarrow> t | None \<Rightarrow> fresh)"
proof -
  let ?tid = "case tenant of Some t \<Rightarrow> t | None \<Rightarrow> fresh"
  from assms obtain z where z: "rbind (validate_slug slug) (\<lambda>_. bucket_step env slug w) = Inr z"
    by (cases "rbind (validate_slug slug) (\<lambda>_. bucket_step env slug w)") (simp_all add: provision_def Let_def)
  obtain b w1 where zz: "z = (b, w1)" by (cases z)
  from z zz have bucket: "bucket_step env slug w = Inr (b, w1)" by (auto simp: rbind_eq_Inr_iff)
  from assms z zz obtain w2 where two: "schemas_transaction (lost 2) slug ?tid b w1 = Inr w2"
    by (cases "schemas_transaction (lost 2) slug ?tid b w1") (simp_all add: provision_def Let_def)
  obtain r e3 where three: "apply_tenant (pv_migrate env) slug (wo_estate w2) = (r, e3)" by (cases "apply_tenant (pv_migrate env) slug (wo_estate w2)")
  from assms z zz two three obtain applied where r: "r = Inr applied"
    by (cases r) (simp_all add: provision_def Let_def)
  from assms z zz two three r have four: "lost 4 = None" by (cases "lost 4") (simp_all add: provision_def Let_def)
  from assms z zz two three r four have "w' = activate slug now (w2\<lparr>wo_estate := e3\<rparr>)"
    "rbind (all_schemas slug) (\<lambda>ss. rbind (all_roles slug) (\<lambda>rs.
       Inr \<lparr>pt_slug = slug, pt_tenant = ?tid, pt_bucket = b, pt_schemas = ss, pt_roles = rs, pt_applied = applied\<rparr>)) = Inr t"
    by (simp_all add: provision_def Let_def)
  then have "w' = activate slug now (w2\<lparr>wo_estate := e3\<rparr>)" "pt_slug t = slug" "pt_bucket t = b" "pt_tenant t = ?tid" "pt_applied t = applied"
    by (auto simp: rbind_eq_Inr_iff)
  with bucket two three r show ?thesis by blast
qed

lemma activate_frame:
  "es_versions (wo_estate (activate slug now w)) = es_versions (wo_estate w)" "wo_identity (activate slug now w) = wo_identity w"
  "es_registry (wo_estate (activate slug now w))
     = map (\<lambda>r. if tr_slug r = slug then r\<lparr>tr_status := ''ACTIVE'', tr_activated := Some now\<rparr> else r) (es_registry (wo_estate w))"
  "built env s (activate slug now w) = built env s w"
  by (simp_all add: activate_def set_status_def built_def)

text \<open>
  C11. A provisioning that returns leaves the tenant ACTIVE in schemas that are built and have no pending migration.
\<close>

theorem provisioned_is_at_head:
  assumes "provision env now lost fresh slug tenant w = (Inr t, w')" "world_ok env w"
  shows "(\<exists>r\<in>set (es_registry (wo_estate w')). tr_slug r = slug \<and> tr_status r = ''ACTIVE'' \<and> tr_activated r = Some now)
    \<and> built env slug w' \<and> drift_of (pv_migrate env) (wo_estate w') slug = Inr None"
proof -
  from provision_Inr[OF assms(1)] obtain b w1 w2 e3 where p: "bucket_step env slug w = Inr (b, w1)"
    "schemas_transaction (lost 2) slug (case tenant of Some t \<Rightarrow> t | None \<Rightarrow> fresh) b w1 = Inr w2"
    "apply_tenant (pv_migrate env) slug (wo_estate w2) = (Inr (pt_applied t), e3)"
    "w' = activate slug now (w2\<lparr>wo_estate := e3\<rparr>)" by blast
  note bucket = bucket_step_Inr[OF p(1)]
  have ok1: "world_ok env w1"
  proof -
    have "row_ok env w1 r" if "row_ok env w r" for r
      using that by (rule row_ok_mono) (use bucket in \<open>auto simp: built_def has_bucket_def granted_def\<close>)
    with assms(2) show ?thesis unfolding world_ok_def bucket(1,3) by blast
  qed
  note two = schemas_transaction_ok[OF ok1 p(2) bucket(4)]
  have e3: "e3 = snd (apply_tenant (pv_migrate env) slug (wo_estate w2))" using p(3) by simp
  from two(4) obtain r where r: "r \<in> set (es_registry e3)" "tr_slug r = slug" unfolding e3 apply_tenant_frame(1) by blast
  let ?r = "r\<lparr>tr_status := ''ACTIVE'', tr_activated := Some now\<rparr>"
  have "?r \<in> set (es_registry (wo_estate w'))" unfolding p(4) activate_frame(3) set_map by (rule image_eqI[of _ _ r]) (use r in simp_all)
  then have "\<exists>r\<in>set (es_registry (wo_estate w')). tr_slug r = slug \<and> tr_status r = ''ACTIVE'' \<and> tr_activated r = Some now"
    by (rule bexI[rotated]) (simp add: r(2))
  moreover have "built env slug w'" unfolding p(4) activate_frame(4) e3 using two(2) by simp
  moreover have "drift_of (pv_migrate env) (wo_estate w') slug = Inr None"
    by (rule apply_tenant_no_drift[OF p(3)]) (simp add: p(4) activate_frame(1))
  ultimately show ?thesis by blast
qed

text \<open>
  Provisioning a known tenant again without naming its id, as when a half-built one is resumed, leaves two ids
  behind: the schemas and the returned value carry the new one, the registry keeps the old one.
\<close>

theorem reprovision_splits_identity:
  assumes "provision env now lost fresh slug None w = (Inr t, w')" "world_ok env w"
    and "r \<in> set (es_registry (wo_estate w))" "tr_slug r = slug" "tr_tenant r \<noteq> fresh"
  shows "pt_tenant t = fresh \<and> (\<exists>i. wo_identity w' (pg_name slug ''_silver'') = Some i \<and> id_tenant i = fresh)
    \<and> (\<exists>r'\<in>set (es_registry (wo_estate w')). tr_slug r' = slug \<and> tr_tenant r' = tr_tenant r \<and> tr_tenant r' \<noteq> pt_tenant t)"
proof -
  from provision_Inr[OF assms(1)] obtain b w1 w2 e3 where p: "bucket_step env slug w = Inr (b, w1)"
    "schemas_transaction (lost 2) slug fresh b w1 = Inr w2"
    "apply_tenant (pv_migrate env) slug (wo_estate w2) = (Inr (pt_applied t), e3)"
    "w' = activate slug now (w2\<lparr>wo_estate := e3\<rparr>)" "pt_tenant t = fresh" by auto
  from p(2) obtain reg where reg: "register_tenant slug fresh b (es_registry (wo_estate w1)) = Inr reg"
    and prov: "provision_tenant_schemas slug fresh (w1\<lparr>wo_estate := (wo_estate w1)\<lparr>es_registry := reg\<rparr>\<rparr>) = Inr w2"
    by (auto simp: schemas_transaction_def rbind_eq_Inr_iff split: option.splits)
  note q = provision_schemas_Inr[OF prov]
  have w1: "es_registry (wo_estate w1) = es_registry (wo_estate w)" using bucket_step_Inr(1)[OF p(1)] by simp
  have known: "slug \<in> tr_slug ` set (es_registry (wo_estate w1))" using assms(3,4) w1 by force
  have "slug_body slug" using reg by (auto simp: register_tenant_def split: if_splits)
  with reg known have "reg = map (\<lambda>r. if tr_slug r = slug
      then r\<lparr>tr_bucket := b, tr_status := (if tr_status r = ''ACTIVE'' then ''ACTIVE'' else ''PROVISIONING'')\<rparr> else r) (es_registry (wo_estate w1))"
    by (simp add: register_tenant_def)
  then have "r\<lparr>tr_bucket := b, tr_status := (if tr_status r = ''ACTIVE'' then ''ACTIVE'' else ''PROVISIONING'')\<rparr> \<in> set reg"
    using assms(3,4) w1 by (force intro: image_eqI[of _ _ r])
  moreover have e3: "es_registry e3 = reg" using apply_tenant_frame(1)[of "pv_migrate env" slug "wo_estate w2"] p(3) q(4) by simp
  ultimately obtain r2 where r2: "r2 \<in> set (es_registry e3)" "tr_slug r2 = slug" "tr_tenant r2 = tr_tenant r" using assms(4) by force
  let ?r = "r2\<lparr>tr_status := ''ACTIVE'', tr_activated := Some now\<rparr>"
  have "?r \<in> set (es_registry (wo_estate w'))" unfolding p(4) activate_frame(3) set_map by (rule image_eqI[of _ _ r2]) (use r2 in simp_all)
  then have "\<exists>r'\<in>set (es_registry (wo_estate w')). tr_slug r' = slug \<and> tr_tenant r' = tr_tenant r \<and> tr_tenant r' \<noteq> pt_tenant t"
    by (rule bexI[rotated]) (simp add: r2 p(5) assms(5))
  moreover have "wo_identity w' (pg_name slug ''_silver'') = Some \<lparr>id_slug = slug, id_tenant = fresh, id_layer = tl ''_silver''\<rparr>"
    using q(5) put_identity_own[of "''_silver''" slug fresh] by (simp add: p(4) activate_frame(2) layer_suffixes_def)
  ultimately show ?thesis using p(5) by simp
qed

text \<open>
  When the migrations of a tenant that is ACTIVE cannot even be read, provisioning it again raises an error that
  says the tenant was left PROVISIONING; it is still ACTIVE.
\<close>

theorem failed_reprovision_stays_active:
  assumes "r \<in> set (es_registry (wo_estate w))" "tr_slug r = slug" "tr_status r = ''ACTIVE''" "slug_body slug"
    and "bucket_step env slug w = Inr (b, w1)" "lost 2 = None" "tenant_chain (pv_migrate env) slug = Inl x"
  shows "\<exists>w'. provision env now lost fresh slug tenant w =
      (Inl (ProvisioningError (''schemas exist for '' @ slug @ '' but migrations failed - tenant left PROVISIONING'')), w')
    \<and> (\<exists>r'\<in>set (es_registry (wo_estate w')). tr_slug r' = slug \<and> tr_status r' = ''ACTIVE'')"
proof -
  have w1: "es_registry (wo_estate w1) = es_registry (wo_estate w)" using bucket_step_Inr(1)[OF assms(5)] by simp
  let ?tid = "case tenant of Some t \<Rightarrow> t | None \<Rightarrow> fresh"
  let ?f = "\<lambda>r. if tr_slug r = slug
    then r\<lparr>tr_bucket := b, tr_status := (if tr_status r = ''ACTIVE'' then ''ACTIVE'' else ''PROVISIONING'')\<rparr> else r"
  let ?reg = "map ?f (es_registry (wo_estate w))"
  have known: "slug \<in> tr_slug ` set (es_registry (wo_estate w))" using assms(1,2) by force
  then have reg: "register_tenant slug ?tid b (es_registry (wo_estate w1)) = Inr ?reg"
    using assms(4) by (simp add: register_tenant_def w1)
  obtain w2 where prov: "provision_tenant_schemas slug ?tid (w1\<lparr>wo_estate := (wo_estate w1)\<lparr>es_registry := ?reg\<rparr>\<rparr>) = Inr w2"
    using assms(4) by (simp add: provision_tenant_schemas_def Let_def)
  have two: "schemas_transaction (lost 2) slug ?tid b w1 = Inr w2"
    unfolding schemas_transaction_def assms(6) option.case reg rbind_simps by (rule prov)
  have "open_tenant (pv_migrate env) slug (wo_estate w2) = Inl x" using assms(7) by (simp add: open_tenant_def)
  then have three: "apply_tenant (pv_migrate env) slug (wo_estate w2) = (Inl x, wo_estate w2)" by (simp add: apply_tenant_def)
  have "slug_re slug" using assms(4) by (simp add: slug_re_iff)
  then have "rbind (validate_slug slug) (\<lambda>_. bucket_step env slug w) = Inr (b, w1)" using assms(5) by (simp add: validate_slug_def)
  with two three have "provision env now lost fresh slug tenant w =
      (Inl (ProvisioningError (''schemas exist for '' @ slug @ '' but migrations failed - tenant left PROVISIONING'')), w2)"
    by (simp add: provision_def Let_def)
  moreover have "?f r \<in> set (es_registry (wo_estate w2))" using provision_schemas_Inr(4)[OF prov] assms(1) by simp
  then have "\<exists>r'\<in>set (es_registry (wo_estate w2)). tr_slug r' = slug \<and> tr_status r' = ''ACTIVE''"
    by (rule bexI[rotated]) (simp add: assms(2,3))
  ultimately show ?thesis by blast
qed

section \<open>Serving a tenant\<close>

text \<open>What the guard of \<open>Tenancy\<close> sees of the cluster.\<close>

definition cluster_of :: "'d world \<Rightarrow> cluster" where
  "cluster_of w = \<lparr>known_role = (\<lambda>r. r \<in> set (wo_roles w)), assumable = (\<lambda>r. r \<in> set (wo_roles w)),
     may_read = (\<lambda>r n. r \<in> set (es_readers (wo_estate w) n)),
     identity = (\<lambda>n. map_option (\<lambda>i. Some (id_slug i)) (wo_identity w n))\<rparr>"

text \<open>
  C10. In a cluster that only provisioning, taking down and migrations have shaped, every tenant that is ACTIVE can
  be served: a transaction for it, in any of its roles, passes the guard and is its body, under the tenant's role.
\<close>

theorem active_tenant_served:
  assumes "(world_step env)\<^sup>*\<^sup>* w0 w" "es_registry (wo_estate w0) = []" "wo_identity w0 = (\<lambda>n. None)"
    and "r \<in> set (es_registry (wo_estate w))" "tr_slug r = s" "tr_status r = ''ACTIVE''"
    and "mk_context s tid = Inr ctx" "role_name ctx role = Inr rn"
  shows "run_transaction (cluster_of w) ctx role stmts se =
    (case stmts rn (db_data se) of Inl e \<Rightarrow> (Inl (map_boundary e), se) | Inr (x, db) \<Rightarrow> (Inr x, se\<lparr>db_data := db\<rparr>))"
proof -
  from world_ok_reachable[OF assms(1) fresh_world_ok[OF assms(2,3)]] have "row_ok env w r" using assms(4) unfolding world_ok_def by blast
  then have built: "built env s w" and granted: "granted s w" using assms(5,6) by (simp_all add: row_ok_def)
  have ctx: "slug_re s" "ctx_slug ctx = s" using assms(7) by (auto simp: mk_context_Inr)
  then have rn: "rn = ''t_'' @ s @ (case role of INGEST \<Rightarrow> ''_ingest'' | RECON \<Rightarrow> ''_recon'' | SUPPORT \<Rightarrow> ''_support'')"
    using role_name_valid[of ctx role] assms(8) by simp
  have suffix: "(case role of INGEST \<Rightarrow> ''_ingest'' | RECON \<Rightarrow> ''_recon'' | SUPPORT \<Rightarrow> ''_support'') \<in> set role_suffixes"
    by (cases role) (simp_all add: role_suffixes_def)
  from built have "\<forall>x\<in>set role_suffixes. pg_name s x \<in> set (wo_roles w)" unfolding built_def by blast
  from bspec[OF this suffix] have known: "rn \<in> set (wo_roles w)" unfolding rn pg_name_def .
  have "''_silver'' \<in> set layer_suffixes" by (simp add: layer_suffixes_def)
  with built obtain t where id: "wo_identity w (pg_name s ''_silver'') = Some \<lparr>id_slug = s, id_tenant = t, id_layer = tl ''_silver''\<rparr>"
    unfolding built_def by blast
  have "(''_silver'', role_suffixes) \<in> set identity_readers" by (simp add: identity_readers_def role_suffixes_def)
  with granted have "\<forall>y\<in>set role_suffixes. pg_name s y \<in> set (es_readers (wo_estate w) (pg_name s ''_silver''))"
    unfolding granted_def by blast
  from bspec[OF this suffix] have read: "rn \<in> set (es_readers (wo_estate w) (pg_name s ''_silver''))" unfolding rn pg_name_def .
  let ?cl = "cluster_of w"
  have "set_local_role ?cl rn = Inr ()" using known by (simp add: set_local_role_def cluster_of_def)
  moreover have "assert_tenant_context ?cl rn s (pg_name s ''_silver'') = Inr ()"
  proof -
    have "assert_schema_owner ?cl rn (pg_name s ''_silver'') s = Inr ()" using id read by (simp add: assert_schema_owner_def cluster_of_def)
    then show ?thesis unfolding assert_tenant_context_def using rn by (cases role) simp_all
  qed
  ultimately have "scoped_body ?cl s rn (pg_name s ''_silver'') stmts (db_data se) = stmts rn (db_data se)" by (simp add: scoped_body_def)
  moreover have "guard_schema ctx role = Inr (pg_name s ''_silver'')" using guard_schema_valid[of ctx role] ctx by (simp add: pg_name_def)
  ultimately show ?thesis unfolding run_transaction_def using assms(8) ctx(2) by simp
qed

section \<open>Witnesses\<close>

definition demo_provision :: "(string \<Rightarrow> nat) provision_env" where
  "demo_provision = \<lparr>pv_migrate = demo_migrate, pv_store = Some \<lparr>bucket_prefix = ''inafin'', retention_days = 30\<rparr>, pv_prefix = ''inafin'',
     pv_drop = (\<lambda>n d. d)\<rparr>"

definition demo_empty :: "(string \<Rightarrow> nat) world" where
  "demo_empty = \<lparr>wo_estate = \<lparr>es_registry = [], es_shared = None, es_versions = (\<lambda>n. None), es_readers = (\<lambda>n. []), es_data = (\<lambda>q. 0)\<rparr>,
     wo_roles = [], wo_identity = (\<lambda>n. None), wo_store = \<lparr>buckets = [], objects = []\<rparr>\<rparr>"

definition demo_once :: "(exc + provisioned_tenant) \<times> (string \<Rightarrow> nat) world" where
  "demo_once = provision demo_provision 5 (\<lambda>n. None) 101 ''acme'' None demo_empty"

lemma demo_once_reachable: "(world_step demo_provision)\<^sup>*\<^sup>* demo_empty (snd demo_once)"
  unfolding demo_once_def by (rule r_into_rtranclp) (rule world_step.provisioned)

lemma demo_once_row: "\<exists>r\<in>set (es_registry (wo_estate (snd demo_once))). tr_slug r = ''acme'' \<and> tr_status r = ''ACTIVE'' \<and> tr_tenant r = 101"
  by code_simp

lemma demo_once_ok: "world_ok demo_provision (snd demo_once)"
  by (rule world_ok_reachable[OF demo_once_reachable fresh_world_ok]) (simp_all add: demo_empty_def)

lemma demo_once_careful: "(careful_step demo_provision)\<^sup>*\<^sup>* demo_empty (snd demo_once)"
  unfolding demo_once_def
  by (rule r_into_rtranclp) (rule careful_step.careful_provisioned, simp add: keeps_id_def demo_empty_def)


theorem provisioned_is_at_head_witness:
  "built demo_provision ''acme'' (snd demo_once) \<and> drift_of demo_migrate (wo_estate (snd demo_once)) ''acme'' = Inr None"
proof -
  have "case fst demo_once of Inr t \<Rightarrow> True | Inl e \<Rightarrow> False" by code_simp
  then obtain t where "fst demo_once = Inr t" by (cases "fst demo_once") simp_all
  then have "provision demo_provision 5 (\<lambda>n. None) 101 ''acme'' None demo_empty = (Inr t, snd demo_once)"
    unfolding demo_once_def by (simp add: prod_eq_iff)
  from provisioned_is_at_head[OF this fresh_world_ok] show ?thesis by (simp add: demo_empty_def demo_provision_def)
qed

definition demo_again :: "(exc + provisioned_tenant) \<times> (string \<Rightarrow> nat) world" where
  "demo_again = provision demo_provision 6 (\<lambda>n. None) 102 ''acme'' None (snd demo_once)"

theorem reprovision_splits_identity_witness:
  "\<exists>t i. fst demo_again = Inr t \<and> pt_tenant t = 102 \<and> wo_identity (snd demo_again) (pg_name ''acme'' ''_silver'') = Some i \<and> id_tenant i = 102
     \<and> (\<exists>r\<in>set (es_registry (wo_estate (snd demo_again))). tr_tenant r = 101)"
proof -
  have "case fst demo_again of Inr t \<Rightarrow> True | Inl e \<Rightarrow> False" by code_simp
  then obtain t where t: "fst demo_again = Inr t" by (cases "fst demo_again") simp_all
  then have run: "provision demo_provision 6 (\<lambda>n. None) 102 ''acme'' None (snd demo_once) = (Inr t, snd demo_again)"
    unfolding demo_again_def by (simp add: prod_eq_iff)
  obtain r where r: "r \<in> set (es_registry (wo_estate (snd demo_once)))" "tr_slug r = ''acme''" "tr_tenant r = 101"
    using demo_once_row by blast
  then have "tr_tenant r \<noteq> 102" by simp
  from reprovision_splits_identity[OF run demo_once_ok r(1,2) this] t r(3) show ?thesis by auto
qed

theorem failed_reprovision_stays_active_witness:
  "\<exists>x w'. provision (demo_provision\<lparr>pv_migrate := demo_migrate\<lparr>me_files := demo_files\<lparr>tenant_ext_dir := (\<lambda>s. Some [(''late.sql'', [])])\<rparr>\<rparr>\<rparr>)
       7 (\<lambda>n. None) 103 ''acme'' None (snd demo_once) = (Inl (ProvisioningError x), w')
     \<and> (\<exists>r\<in>set (es_registry (wo_estate w')). tr_slug r = ''acme'' \<and> tr_status r = ''ACTIVE'')"
proof -
  let ?env = "demo_provision\<lparr>pv_migrate := demo_migrate\<lparr>me_files := demo_files\<lparr>tenant_ext_dir := (\<lambda>s. Some [(''late.sql'', [])])\<rparr>\<rparr>\<rparr>"
  obtain r where r: "r \<in> set (es_registry (wo_estate (snd demo_once)))" "tr_slug r = ''acme''" "tr_status r = ''ACTIVE''"
    using demo_once_row by blast
  have body: "slug_body ''acme''" by code_simp
  have "case bucket_step ?env ''acme'' (snd demo_once) of Inr z \<Rightarrow> True | Inl e \<Rightarrow> False" by code_simp
  then obtain b w1 where b: "bucket_step ?env ''acme'' (snd demo_once) = Inr (b, w1)"
    by (cases "bucket_step ?env ''acme'' (snd demo_once)") auto
  have "case tenant_chain (pv_migrate ?env) ''acme'' of Inr z \<Rightarrow> False | Inl e \<Rightarrow> True" by code_simp
  then obtain x where x: "tenant_chain (pv_migrate ?env) ''acme'' = Inl x" by (cases "tenant_chain (pv_migrate ?env) ''acme''") simp_all
  from failed_reprovision_stays_active[OF r body b _ x, of "\<lambda>n. None" 7 103 None] show ?thesis by blast
qed

theorem active_tenant_served_witness:
  "run_transaction (cluster_of (snd demo_once)) \<lparr>ctx_slug = ''acme'', tenant_id = None\<rparr> INGEST
      (\<lambda>r n. Inr (n, Suc n)) \<lparr>current_role = ''app_login'', db_data = 0\<rparr> = (Inr 0, \<lparr>current_role = ''app_login'', db_data = Suc 0\<rparr>)"
proof -
  have empty: "es_registry (wo_estate demo_empty) = []" "wo_identity demo_empty = (\<lambda>n. None)" by (simp_all add: demo_empty_def)
  obtain r where r: "r \<in> set (es_registry (wo_estate (snd demo_once)))" "tr_slug r = ''acme''" "tr_status r = ''ACTIVE''"
    using demo_once_row by blast
  have ctx: "mk_context ''acme'' None = Inr \<lparr>ctx_slug = ''acme'', tenant_id = None\<rparr>" by code_simp
  have rn: "role_name \<lparr>ctx_slug = ''acme'', tenant_id = None\<rparr> INGEST = Inr ''t_acme_ingest''" by code_simp
  from active_tenant_served[OF demo_once_reachable empty r ctx rn, of "\<lambda>r n. Inr (n, Suc n)" "\<lparr>current_role = ''app_login'', db_data = 0\<rparr>"]
  show ?thesis by simp
qed

end
