(* ===== verification/Spec2Isabelle.thy ===== *)
theory Spec2Isabelle
  imports Bronze SchemaPin Tenancy Outcome Polling Gstr2b Gstr3b FactTables TableValue Dispatch Entitlement Provision
begin

text \<open>
  A model of the tenant-data platform (\<open>src/src\<close>), the pipeline that takes documents from a tenant
  into Bronze (the bytes, write once), reads them into Silver (typed, bitemporal tables, one schema per
  tenant) and hands batches of rows to a downstream pipeline. The theories follow the modules; each
  definition is named after the function it translates.

  \<^bold>\<open>The way of a document.\<close> A tenant's slug passes \<open>validate_slug\<close> and every database object
  that belongs to the tenant is named after it (theory \<open>Identifiers\<close>). Each database access runs in
  a transaction as one of the tenant's roles, and the database checks that the schema belongs to the
  tenant (\<open>Tenancy\<close>). An upload is checked for shape and scanned (\<open>Intake\<close>), stored under a key made
  of its content hash (\<open>ObjectStore\<close>), pinned to the schema release of its document type
  (\<open>SchemaPin\<close>) and entered in the artefact ledger (\<open>Bronze\<close>), which is unique in the content hash;
  uploads race for that ledger row. A trigger looks up how documents of its type are read and hands the
  bytes to a loader; what the loader returns or raises becomes what the caller is told, and a batch that is
  new rings the doorbell of the downstream pipeline (\<open>Dispatch\<close>). There are five mechanisms. The register
  loader takes flat CSV or NDJSON (\<open>RegisterSpec\<close>, \<open>RegisterCatalog\<close>, \<open>RegisterParse\<close>, \<open>RegisterStore\<close>),
  the sales register loader groups rows into invoices (\<open>SalesParse\<close>, \<open>SalesStore\<close>), transaction documents
  are validated against a field contract and promoted (\<open>Contract\<close>, \<open>Validate\<close>, \<open>Promote\<close>), GST returns come
  as JSON (\<open>Gstr2b\<close>, \<open>Gstr3b\<close> over \<open>GstnReturn\<close>), and PDFs go to an extractor. Each loader writes one
  \<open>ingest_batch\<close> row with the rows it loads, in the tables of \<open>SilverDb\<close>. The downstream pipeline finds
  batches by polling (\<open>Reader\<close>, \<open>Polling\<close>), asks what a tenant was entitled to (\<open>Entitlement\<close>), and the
  status page says what became of an artefact (\<open>Outcome\<close>).

  \<^bold>\<open>The way of a PDF.\<close> Its text is read by a PDF library or by OCR, and the extractor of its type, chosen by
  the registry's archetype, turns the text into fields (\<open>PdfPipeline\<close>, \<open>Extractors\<close>): by a label and value
  grammar declared in the registry (\<open>LabelValue\<close>, \<open>ExtractionSpec\<close>), with tables of rows (\<open>TableValue\<close>), or by
  the parsers of the three register PDFs (\<open>RegisterExtract\<close>). The fields are written to the tables of
  \<open>FactTables\<close>, to the lines of an entity master (\<open>EntityMasters\<close>), or as a CSV file (\<open>CsvWrite\<close>) that the
  register loader or the promotion takes (\<open>TransactionPdf\<close>). \<open>ExtractionStatus\<close> relates what the extraction
  returns to the status page. The database of one tenant with all these tables is \<open>silver_tables\<close> (\<open>TenantDb\<close>).

  \<^bold>\<open>The way of a tenant.\<close> Provisioning makes the bucket, then the roles and schemas with their identity, runs
  the tenant's migrations and sets it ACTIVE last (\<open>Provision\<close>). A release runs the chains of migrations over
  all tenants in a pool of threads and checks for drift (\<open>Migrate\<close>).

  \<^bold>\<open>State.\<close> A table is the list of its rows in insertion order; an \<open>UPDATE\<close> maps over it, a
  unique index is a test before the append, and a partial unique index tests the live rows only. A
  database is a record of tables; each loader extends \<open>silver_core\<close>. A transaction that raises leaves the
  database as it was: the loaders return the exception together with the database, which holds what
  earlier transactions of the same call committed (a quarantine row, say). Exceptions are the values of
  \<open>exc\<close> (\<open>Errors\<close>), one constructor per class. Ids drawn by \<open>uuid4\<close> and the clock are arguments; where
  a law needs the ids to be fresh it says so.

  \<^bold>\<open>Text and numbers.\<close> A Python \<open>str\<close> is the string of its UTF-8 bytes (\<open>Prelude\<close>), a \<open>Decimal\<close> is
  its digits, exponent and special values under the default context of 28 digits (\<open>Numbers\<close>), a date is a
  proleptic Gregorian date of the years 1 to 9999 (\<open>Dates\<close>), a JSON value is what \<open>json.loads\<close> returns
  (\<open>Json\<close>). \<open>csv.DictReader\<close> is \<open>Csv\<close>.

  \<^bold>\<open>Parameters.\<close> SHA-256, the JSON decoder, \<open>re.compile\<close>, the text a PDF library or OCR finds, the virus
  daemon, the messages a Kafka broker takes, the published schema catalogue, the checks of tables that are not
  written out, and what a migration's SQL does to the data are arguments of the definitions that use them. Hash
  claims state the injectivity they need, the fan-out of migrations that a tenant's statements stay in its
  schemas; the other parameters are unconstrained.

  \<^bold>\<open>Interfaces.\<close> \<open>latest_wins\<close> (\<open>SilverDb\<close>): putting a row makes it the current one of its key and
  leaves other keys alone; interpreted by the fact services, and a consequence of \<open>versioned_upsert\<close>, the
  contract of a table that keeps versions, interpreted by the register loader, the sales loader and the
  return loaders. \<open>object_store\<close>: a get after a put; interpreted by the S3 adapter. \<open>virus_scanner\<close>: a
  scanner that never calls an unscanned file clean; interpreted by both adapters and their selection.

  \<^bold>\<open>What the lemmas show.\<close> For the loaders: what a successful load does to every table, that a
  failed one does nothing but what is documented, that loading the same file again changes nothing, that
  corrections keep history. For the parsers: every record of a file is accounted for, accepted data is
  well-formed, and parsing inverts printing. For the concurrent parts (\<open>Bronze\<close>, \<open>Polling\<close>) step
  relations with invariants: the ledger stays unique, no batch is missed or executed twice, polling
  drains, the fan-out of migrations (\<open>Migrate\<close>) is as good as one tenant at a time. For the life of a tenant:
  ACTIVE means built, and what is ACTIVE can be served. For the trigger: it is on record whatever follows, and
  what it returns agrees with the status page. For the gates: who can reach which schema and which names exist. A group of theorems shows where
  the code does not do what its comments say; these are listed in the manifest.

  \<^bold>\<open>Bounds and fuel.\<close> No definition runs out of fuel. Concurrent uploads finish within four steps a
  client, which is proved, polling within as many polls as there are batches, and the fan-out within as many
  steps as there are migrations, reads and grants. Amounts are checked
  against the column widths of the migrations, \<open>numeric(18, 2)\<close> and \<open>numeric(14, 2)\<close>; names against the 63
  bytes of a Postgres identifier.

  \<^bold>\<open>Not modelled.\<close> HTTP and GraphQL routes, the command line and configuration, the fixture and HTTP
  connectors and the Kafka client are I/O around the modelled calls. The catalogue that publishes JSON Schema
  documents, the script that generates the registry seed and the generators of sample data are offline tools.
  The grants of the database below the schema guard and row-level locking (\<open>FOR UPDATE\<close>) are the database's.
  Logging is dropped.
\<close>

end
